(* ===== verification/Prelude.thy ===== *)
theory Prelude
  imports Main "HOL-Library.Word" "HOL-Library.Monad_Syntax" "HOL-Library.Multiset"
begin

text \<open>
  Shared vocabulary of the development: the machine integers and byte strings of
  the Rust sources, the checked and saturating arithmetic the code uses, the parts
  of Rust's string library the policy tables call (trimming and ASCII folding over
  UTF-8 bytes), a few list operations of \<open>Vec\<close>, and the contract every
  stateful component is proved against: a transition system with an inductive
  invariant.
\<close>

section \<open>Machine integers and bytes\<close>

type_synonym u8 = "8 word"
type_synonym u16 = "16 word"
type_synonym u32 = "32 word"
type_synonym u64 = "64 word"
type_synonym bytes = "u8 list"

unbundle bit_operations_syntax

named_theorems rust_arith \<open>unfolding rules for Rust's checked and saturating arithmetic\<close>
named_theorems rust_str \<open>unfolding rules for the modelled string operations\<close>

text \<open>\<^verbatim>\<open>checked_add\<close>, \<^verbatim>\<open>checked_mul\<close> and \<^verbatim>\<open>saturating_sub\<close> of the unsigned
  integer types: \<open>None\<close> on overflow, zero below zero.\<close>

definition checked_add :: "'a::len word \<Rightarrow> 'a word \<Rightarrow> 'a word option" where
  "checked_add a b = (if unat a + unat b < 2 ^ LENGTH('a) then Some (a + b) else None)"

definition checked_mul :: "'a::len word \<Rightarrow> 'a word \<Rightarrow> 'a word option" where
  "checked_mul a b = (if unat a * unat b < 2 ^ LENGTH('a) then Some (a * b) else None)"

definition saturating_sub :: "'a::len word \<Rightarrow> 'a word \<Rightarrow> 'a word" where
  "saturating_sub a b = (if b \<le> a then a - b else 0)"

definition saturating_add :: "'a::len word \<Rightarrow> 'a word \<Rightarrow> 'a word" where
  "saturating_add a b = (if unat a + unat b < 2 ^ LENGTH('a) then a + b else - 1)"

lemma unat_u32: "unat (w :: u32) < 2 ^ 32" and unat_u64: "unat (v :: u64) < 2 ^ 64"
  using unsigned_less [of w] unsigned_less [of v] by simp_all

lemma checked_add_SomeD:
  assumes "checked_add a b = Some c"
  shows "unat c = unat a + unat b" and "a \<le> c" and "b \<le> c"
proof -
  from assms have lt: "unat a + unat b < 2 ^ LENGTH('a)" and c: "c = a + b"
    by (auto simp: checked_add_def split: if_splits)
  then show eq: "unat c = unat a + unat b"
    by (simp add: unat_add_lem)
  show "a \<le> c" and "b \<le> c"
    using eq by (simp_all add: word_le_nat_alt)
qed

lemma checked_mul_SomeD:
  fixes a b c :: "'a::len word"
  assumes "checked_mul a b = Some c"
  shows "unat c = unat a * unat b"
proof -
  from assms have lt: "unat a * unat b < 2 ^ LENGTH('a)" and c: "c = a * b"
    by (auto simp: checked_mul_def split: if_splits)
  then show ?thesis by (simp add: unat_mult_lem)
qed

lemma checked_add_one:
  "checked_add a 1 = (if a = - 1 then None else Some (a + 1))"
proof (cases "a = - 1")
  case True
  then show ?thesis by (simp add: checked_add_def unsigned_minus_1_eq_mask mask_eq_exp_minus_1)
next
  case False
  then have "1 + a \<noteq> 0"
    by (metis add.commute eq_neg_iff_add_eq_0)
  then have "unat (1 + a) = Suc (unat a)" by (rule unatSuc)
  moreover have "unat (1 + a) < 2 ^ LENGTH('a)" by (rule unsigned_less)
  ultimately show ?thesis using False by (simp add: checked_add_def)
qed

lemma unat_saturating_sub: "unat (saturating_sub a b) = unat a - unat b"
  by (auto simp: saturating_sub_def unat_sub word_le_nat_alt)

lemma unat_saturating_add:
  "unat a + unat b < 2 ^ LENGTH('a) \<Longrightarrow> unat (saturating_add a (b :: 'a::len word)) = unat a + unat b"
  by (simp add: saturating_add_def unat_add_lem)

section \<open>Rust strings as UTF-8 bytes\<close>

text \<open>
  A \<^verbatim>\<open>str\<close> is its UTF-8 bytes, one \<^typ>\<open>char\<close> each, so \<^verbatim>\<open>len()\<close> is \<^const>\<open>length\<close>.
  \<^verbatim>\<open>str::trim\<close> removes characters with the Unicode property White_Space: the six
  ASCII ones and, in UTF-8, two of two bytes and seventeen of three bytes.
  \<open>ws_len s\<close> is the number of bytes of a White_Space character that opens \<open>s\<close>
  (0 when none does); \<open>ws_len_rev\<close> reads the same characters from the end.
\<close>

definition is_ascii_ws :: "nat \<Rightarrow> bool" where
  "is_ascii_ws c \<longleftrightarrow> (9 \<le> c \<and> c \<le> 13) \<or> c = 32"

definition is_ws3 :: "nat \<Rightarrow> nat \<Rightarrow> nat \<Rightarrow> bool" where
  "is_ws3 a b c \<longleftrightarrow>
     (a = 225 \<and> b = 154 \<and> c = 128) \<or>
     (a = 226 \<and> b = 128 \<and> ((128 \<le> c \<and> c \<le> 138) \<or> c = 168 \<or> c = 169 \<or> c = 175)) \<or>
     (a = 226 \<and> b = 129 \<and> c = 159) \<or>
     (a = 227 \<and> b = 128 \<and> c = 128)"

definition ws_len :: "nat list \<Rightarrow> nat" where
  "ws_len s = (case s of
      [] \<Rightarrow> 0
    | a # s1 \<Rightarrow> if is_ascii_ws a then 1 else (case s1 of
        [] \<Rightarrow> 0
      | b # s2 \<Rightarrow> if a = 194 \<and> (b = 133 \<or> b = 160) then 2 else (case s2 of
          [] \<Rightarrow> 0
        | c # _ \<Rightarrow> if is_ws3 a b c then 3 else 0)))"

definition ws_len_rev :: "nat list \<Rightarrow> nat" where
  "ws_len_rev s = (case s of
      [] \<Rightarrow> 0
    | c # s1 \<Rightarrow> if is_ascii_ws c then 1 else (case s1 of
        [] \<Rightarrow> 0
      | b # s2 \<Rightarrow> if b = 194 \<and> (c = 133 \<or> c = 160) then 2 else (case s2 of
          [] \<Rightarrow> 0
        | a # _ \<Rightarrow> if is_ws3 a b c then 3 else 0)))"

function trim_front :: "nat list \<Rightarrow> nat list" where
  "trim_front s = (if ws_len s = 0 then s else trim_front (drop (ws_len s) s))"
  by pat_completeness auto
termination
proof (relation "measure length")
  fix s assume "ws_len s \<noteq> 0"
  then show "(drop (ws_len s) s, s) \<in> measure length"
    by (cases s) (auto simp: ws_len_def)
qed simp

function trim_back_rev :: "nat list \<Rightarrow> nat list" where
  "trim_back_rev s = (if ws_len_rev s = 0 then s else trim_back_rev (drop (ws_len_rev s) s))"
  by pat_completeness auto
termination
proof (relation "measure length")
  fix s assume "ws_len_rev s \<noteq> 0"
  then show "(drop (ws_len_rev s) s, s) \<in> measure length"
    by (cases s) (auto simp: ws_len_rev_def)
qed simp

declare trim_front.simps [simp del] trim_back_rev.simps [simp del]

definition codes :: "string \<Rightarrow> nat list" where
  "codes s = map of_char s"

definition trim :: "nat list \<Rightarrow> nat list" where
  "trim s = rev (trim_back_rev (rev (trim_front s)))"

definition ascii_lower :: "nat list \<Rightarrow> nat list" where
  "ascii_lower s = map (\<lambda>c. if 65 \<le> c \<and> c \<le> 90 then c + 32 else c) s"

lemmas trim_simps [rust_str] = trim_front.simps trim_back_rev.simps ws_len_def ws_len_rev_def
  is_ascii_ws_def is_ws3_def codes_def trim_def ascii_lower_def

text \<open>Trimming is idempotent at the front: nothing it leaves opens with white space.\<close>

lemma ws_len_trim_front [simp]: "ws_len (trim_front s) = 0"
proof (induction s rule: trim_front.induct)
  case (1 s)
  then show ?case
    by (cases "ws_len s = 0") (simp_all add: trim_front.simps [of s])
qed

section \<open>Vec operations\<close>

text \<open>\<^verbatim>\<open>iter().position\<close> and \<^verbatim>\<open>Vec::swap_remove\<close>: the element at \<open>i\<close> is replaced
  by the last one, so the order of the rest may change but not its multiset.\<close>

fun position :: "('a \<Rightarrow> bool) \<Rightarrow> 'a list \<Rightarrow> nat option" where
  "position P [] = None"
| "position P (x # xs) = (if P x then Some 0 else map_option Suc (position P xs))"

definition swap_remove :: "nat \<Rightarrow> 'a list \<Rightarrow> 'a list" where
  "swap_remove i xs = (if i < length xs then butlast (xs[i := last xs]) else xs)"

lemma position_SomeD: "position P xs = Some i \<Longrightarrow> i < length xs \<and> P (xs ! i)"
  by (induction xs arbitrary: i) (auto split: if_splits)

lemma position_None_iff [simp]: "position P xs = None \<longleftrightarrow> (\<forall>x\<in>set xs. \<not> P x)"
  by (induction xs) auto

lemma mset_swap_remove:
  assumes "i < length xs"
  shows "mset (swap_remove i xs) = mset xs - {#xs ! i#}"
proof -
  from assms have ne: "xs[i := last xs] \<noteq> []" by auto
  have last_upd: "last (xs[i := last xs]) = last xs"
    using assms by (cases xs rule: rev_cases) (auto simp: list_update_append split: nat.splits)
  have "mset (xs[i := last xs]) = add_mset (last xs) (mset xs - {#xs ! i#})"
    using assms by (simp add: mset_update)
  moreover have "mset (xs[i := last xs]) = add_mset (last xs) (mset (butlast (xs[i := last xs])))"
    using ne last_upd by (metis append_butlast_last_id mset_append mset.simps add_mset_add_single)
  ultimately show ?thesis
    using assms by (simp add: swap_remove_def)
qed

section \<open>Ordered maps\<close>

text \<open>A \<^verbatim>\<open>BTreeMap\<close> is its entries in key order. \<open>bt_ok\<close> is that order; an update keeps
  the place of a key it finds and inserts a new one where it belongs. \<open>min_by_key\<close> is
  \<^verbatim>\<open>Iterator::min_by_key\<close>, which returns the first of several minima.\<close>

fun bt_update :: "'k::linorder \<Rightarrow> 'v \<Rightarrow> ('k \<times> 'v) list \<Rightarrow> ('k \<times> 'v) list" where
  "bt_update k v [] = [(k, v)]"
| "bt_update k v ((k', v') # m) =
     (if k < k' then (k, v) # (k', v') # m
      else if k = k' then (k, v) # m
      else (k', v') # bt_update k v m)"

definition bt_remove :: "'k \<Rightarrow> ('k \<times> 'v) list \<Rightarrow> ('k \<times> 'v) list" where
  "bt_remove k m = filter (\<lambda>e. fst e \<noteq> k) m"

definition bt_ok :: "('k::linorder \<times> 'v) list \<Rightarrow> bool" where
  "bt_ok m \<longleftrightarrow> sorted_wrt (<) (map fst m)"

fun min_by_key :: "('a \<Rightarrow> 'b::linorder) \<Rightarrow> 'a list \<Rightarrow> 'a option" where
  "min_by_key f [] = None"
| "min_by_key f (x # xs) = (case min_by_key f xs of
      None \<Rightarrow> Some x
    | Some y \<Rightarrow> if f x \<le> f y then Some x else Some y)"

lemma map_of_bt_update [simp]: "map_of (bt_update k v m) = (map_of m)(k \<mapsto> v)"
  by (induction k v m rule: bt_update.induct) (auto simp: fun_eq_iff)

lemma map_of_bt_remove [simp]: "map_of (bt_remove k m) = (map_of m)(k := None)"
  by (induction m) (auto simp: bt_remove_def fun_eq_iff)

lemma set_fst_bt_update: "fst ` set (bt_update k v m) = insert k (fst ` set m)"
  by (induction k v m rule: bt_update.induct) auto

lemma bt_ok_update: "bt_ok m \<Longrightarrow> bt_ok (bt_update k v m)"
proof (induction k v m rule: bt_update.induct)
  case (2 k v k' v' m)
  have "\<forall>x\<in>fst ` set (bt_update k v m). k' < x" if "k' < k" "\<forall>x\<in>fst ` set m. k' < x"
    using that by (simp add: set_fst_bt_update)
  with 2 show ?case by (auto simp: bt_ok_def dest: less_trans)
qed (simp add: bt_ok_def)

lemma bt_ok_remove: "bt_ok m \<Longrightarrow> bt_ok (bt_remove k m)"
  by (induction m) (auto simp: bt_ok_def bt_remove_def)

lemma bt_ok_distinct: "bt_ok m \<Longrightarrow> distinct (map fst m)"
  by (simp add: bt_ok_def strict_sorted_iff)

lemma length_bt_update:
  "bt_ok m \<Longrightarrow> length (bt_update k v m) = (if k \<in> fst ` set m then length m else Suc (length m))"
proof (induction k v m rule: bt_update.induct)
  case (2 k v k' v' m)
  then show ?case by (auto simp: bt_ok_def)
qed simp

lemma min_by_key_mem: "min_by_key f xs = Some x \<Longrightarrow> x \<in> set xs"
  by (induction xs arbitrary: x) (auto split: option.splits if_splits)

lemma min_by_key_None [simp]: "min_by_key f xs = None \<longleftrightarrow> xs = []"
  by (induction xs) (auto split: option.splits)

text \<open>\<^verbatim>\<open>sort\<close> followed by \<^verbatim>\<open>dedup\<close>, which is also what collecting into a \<^verbatim>\<open>BTreeSet\<close> and
  iterating it gives.\<close>

definition sort_dedup :: "'a::linorder list \<Rightarrow> 'a list" where
  "sort_dedup xs = remdups_adj (sort xs)"

lemma set_sort_dedup [simp]: "set (sort_dedup xs) = set xs"
  by (simp add: sort_dedup_def)

lemma remdups_adj_strict: "sorted xs \<Longrightarrow> sorted_wrt (<) (remdups_adj xs)"
  by (induction xs rule: remdups_adj.induct) (auto simp: order.strict_iff_order)

lemma sort_dedup_strict: "sorted_wrt (<) (sort_dedup xs)"
  by (simp add: sort_dedup_def remdups_adj_strict)

lemma distinct_sort_dedup [simp]: "distinct (sort_dedup xs)"
  using sort_dedup_strict [of xs] by (simp add: strict_sorted_iff)

lemma bt_remove_set: "set (bt_remove k m) = {e \<in> set m. fst e \<noteq> k}"
  by (auto simp: bt_remove_def)

lemma bt_update_set: "bt_ok m \<Longrightarrow> set (bt_update k v m) = insert (k, v) {e \<in> set m. fst e \<noteq> k}"
proof (induction k v m rule: bt_update.induct)
  case (2 k v k' v' m)
  then show ?case by (auto simp: bt_ok_def)
qed simp

lemma bt_ok_mem: "bt_ok m \<Longrightarrow> (k, v) \<in> set m \<longleftrightarrow> map_of m k = Some v"
  by (simp add: bt_ok_distinct)

text \<open>A derived \<^verbatim>\<open>Ord\<close> compares the fields in the order they are declared: it is the order of
  a tuple the value is determined by.\<close>

lemma linorder_by_rank:
  fixes f :: "'a \<Rightarrow> 'b::linorder"
  assumes "inj f"
  shows "class.linorder (\<lambda>x y. f x \<le> f y) (\<lambda>x y. f x < f y)"
  using assms by unfold_locales (auto simp: inj_eq dest: antisym)

section \<open>Transition systems\<close>

text \<open>
  The contract of a component whose state is changed step by step, by any thread in
  any order: the steps, the states it may start in, and an invariant every step
  keeps. What follows from it once, for every component that interprets it, is that
  the invariant holds after any run.
\<close>

locale transition_system =
  fixes init :: "'s \<Rightarrow> bool"
    and step :: "'s \<Rightarrow> 's \<Rightarrow> bool"
    and inv :: "'s \<Rightarrow> bool"
  assumes inv_init: "init s \<Longrightarrow> inv s"
    and inv_step: "step s t \<Longrightarrow> inv s \<Longrightarrow> inv t"
begin

lemma inv_run: "rtranclp step s t \<Longrightarrow> inv s \<Longrightarrow> inv t"
  by (induction rule: rtranclp_induct) (auto intro: inv_step)

lemma inv_reachable: "init s \<Longrightarrow> rtranclp step s t \<Longrightarrow> inv t"
  by (blast intro: inv_run inv_init)

end

text \<open>
  A transition system with a relation between an earlier and a later state: what every
  step keeps of the state before it, every run keeps of the state it started in.
\<close>

locale history_system = transition_system +
  fixes later :: "'s \<Rightarrow> 's \<Rightarrow> bool"
  assumes later_refl: "later s s"
    and later_trans: "later s t \<Longrightarrow> later t u \<Longrightarrow> later s u"
    and later_step: "step s t \<Longrightarrow> inv s \<Longrightarrow> later s t"
begin

lemma later_run: "rtranclp step s t \<Longrightarrow> inv s \<Longrightarrow> later s t"
proof (induction rule: rtranclp_induct)
  case base
  show ?case by (rule later_refl)
next
  case (step t u)
  from step.hyps(1) step.prems have "inv t" by (rule inv_run)
  with step.hyps(2) have "later t u" by (rule later_step)
  with step.IH step.prems show ?case by (blast intro: later_trans)
qed

end

text \<open>
  In particular a measure which no step lets fall: it is at least as high at the end of a
  run as at its start.
\<close>

locale monotone_system = transition_system +
  fixes rank :: "'s \<Rightarrow> 'r::preorder"
  assumes rank_step: "step s t \<Longrightarrow> inv s \<Longrightarrow> rank s \<le> rank t"

sublocale monotone_system < history_system init step inv "\<lambda>s t. rank s \<le> rank t"
  by unfold_locales (auto intro: order_trans rank_step)

context monotone_system begin

lemma rank_run: "rtranclp step s t \<Longrightarrow> inv s \<Longrightarrow> rank s \<le> rank t"
  by (rule later_run)

end

end
