(* ===== verification/Service_Policy.thy ===== *)
theory Service_Policy
  imports Prelude
begin

text \<open>
  What a PAM service name is (\<^verbatim>\<open>irlume-common/src/pam_service.rs\<close>) and what a face
  match may do for it (\<^verbatim>\<open>irlume-core/src/biopolicy.rs\<close>): the shared service table,
  its lookup, the operation class split by session state, and the decision that
  releases a sealed credential, only verifies, or refuses.
\<close>

section \<open>The service table\<close>

datatype ServiceKind = ScreenUnlock | Greeter | Elevation | AppConsent | Remote

definition SERVICES :: "(string \<times> ServiceKind) list" where
  "SERVICES = [
    (''kde'', ScreenUnlock),
    (''kde-fingerprint'', ScreenUnlock),
    (''kscreensaver'', ScreenUnlock),
    (''xscreensaver'', ScreenUnlock),
    (''gnome-screensaver'', ScreenUnlock),
    (''swaylock'', ScreenUnlock),
    (''i3lock'', ScreenUnlock),
    (''hyprlock'', ScreenUnlock),
    (''gtklock'', ScreenUnlock),
    (''waylock'', ScreenUnlock),
    (''omarchy-lock-face'', ScreenUnlock),
    (''omarchy-lock-password'', ScreenUnlock),
    (''cinnamon-screensaver'', ScreenUnlock),
    (''sddm'', Greeter),
    (''sddm-greeter'', Greeter),
    (''plasmalogin'', Greeter),
    (''gdm-password'', Greeter),
    (''gdm-fingerprint'', Greeter),
    (''gdm'', Greeter),
    (''gdm3'', Greeter),
    (''lightdm'', Greeter),
    (''login'', Greeter),
    (''greetd'', Greeter),
    (''ly'', Greeter),
    (''cosmic-greeter'', Greeter),
    (''sudo'', Elevation),
    (''sudo-i'', Elevation),
    (''su'', Elevation),
    (''su-l'', Elevation),
    (''runuser'', Elevation),
    (''runuser-l'', Elevation),
    (''doas'', Elevation),
    (''polkit-1'', AppConsent),
    (''polkit'', AppConsent),
    (''sshd'', Remote),
    (''remote'', Remote),
    (''cockpit'', Remote)]"

definition classify_service :: "string \<Rightarrow> ServiceKind option" where
  "classify_service service =
     (let s = ascii_lower (trim (codes service))
      in map_option snd (find (\<lambda>(name, _). codes name = s) SERVICES))"

primrec requires_face_intent_confirmation :: "ServiceKind \<Rightarrow> bool" where
  "requires_face_intent_confirmation ScreenUnlock = False"
| "requires_face_intent_confirmation Greeter = False"
| "requires_face_intent_confirmation Elevation = True"
| "requires_face_intent_confirmation AppConsent = True"
| "requires_face_intent_confirmation Remote = False"

primrec wants_short_grace :: "ServiceKind \<Rightarrow> bool" where
  "wants_short_grace ScreenUnlock = False"
| "wants_short_grace Greeter = False"
| "wants_short_grace Elevation = True"
| "wants_short_grace AppConsent = True"
| "wants_short_grace Remote = False"

primrec wants_consent_instruction :: "ServiceKind \<Rightarrow> bool" where
  "wants_consent_instruction ScreenUnlock = False"
| "wants_consent_instruction Greeter = False"
| "wants_consent_instruction Elevation = False"
| "wants_consent_instruction AppConsent = True"
| "wants_consent_instruction Remote = False"

section \<open>Operation classes and the tiered decision\<close>

datatype Tier = Convenience | Secure

datatype OperationClass = OpScreenUnlock | OpLogin | OpElevation | OpAppConsent | OpRemote | OpUnknown

datatype Action = Verify | Unseal | Deny

datatype SessionState = Warm | Cold

definition classify_operation :: "string \<Rightarrow> SessionState \<Rightarrow> OperationClass" where
  "classify_operation service session = (case classify_service service of
      Some ScreenUnlock \<Rightarrow> OpScreenUnlock
    | Some Greeter \<Rightarrow> (case session of Warm \<Rightarrow> OpScreenUnlock | Cold \<Rightarrow> OpLogin)
    | Some Elevation \<Rightarrow> OpElevation
    | Some AppConsent \<Rightarrow> OpAppConsent
    | Some Remote \<Rightarrow> OpRemote
    | None \<Rightarrow> OpUnknown)"

fun decide :: "OperationClass \<Rightarrow> Tier \<Rightarrow> Action" where
  "decide OpRemote tier = Deny"
| "decide OpUnknown tier = Deny"
| "decide OpScreenUnlock tier = Verify"
| "decide OpAppConsent tier = (case tier of Secure \<Rightarrow> Verify | Convenience \<Rightarrow> Deny)"
| "decide OpLogin tier = (case tier of Secure \<Rightarrow> Unseal | Convenience \<Rightarrow> Deny)"
| "decide OpElevation tier = (case tier of Secure \<Rightarrow> Unseal | Convenience \<Rightarrow> Deny)"

section \<open>Lemmas\<close>

lemma SERVICES_distinct: "distinct (map fst SERVICES)"
  by (simp add: SERVICES_def)

lemma inj_codes: "codes a = codes b \<longleftrightarrow> a = b"
  by (simp add: codes_def inj_map_eq_map inj_def)

text \<open>A name already trimmed and lower case is looked up as it stands.\<close>

lemma find_table: "distinct (map fst t) \<Longrightarrow>
    map_option snd (find (\<lambda>(name, _). codes name = codes s) t) = map_of t s"
  by (induction t) (auto simp: inj_codes)

definition normal_name :: "string \<Rightarrow> bool" where
  "normal_name s \<longleftrightarrow> ascii_lower (trim (codes s)) = codes s"

lemma classify_service_normal:
  "normal_name s \<Longrightarrow> classify_service s = map_of SERVICES s"
  unfolding classify_service_def normal_name_def Let_def
  using find_table [OF SERVICES_distinct] by simp

lemma SERVICES_normal: "list_all normal_name (map fst SERVICES)"
  by (simp add: SERVICES_def normal_name_def rust_str)

section \<open>Properties\<close>

text \<open>The service table answers each listed name with its own row, in any ASCII case and with
  any White_Space around it, and answers no other name.\<close>

theorem classify_service_exact:
  "classify_service service = Some k \<longleftrightarrow>
     (\<exists>name. (name, k) \<in> set SERVICES \<and> ascii_lower (trim (codes service)) = codes name)"
proof -
  let ?s = "ascii_lower (trim (codes service))"
  have "classify_service service = Some k \<longleftrightarrow>
      (\<exists>row. find (\<lambda>(name, _). codes name = ?s) SERVICES = Some row \<and> snd row = k)"
    by (auto simp: classify_service_def Let_def)
  also have "\<dots> \<longleftrightarrow> (\<exists>name. (name, k) \<in> set SERVICES \<and> ?s = codes name)"
  proof
    assume "\<exists>row. find (\<lambda>(name, _). codes name = ?s) SERVICES = Some row \<and> snd row = k"
    then obtain n where "find (\<lambda>(name, _). codes name = ?s) SERVICES = Some (n, k)" by force
    then show "\<exists>name. (name, k) \<in> set SERVICES \<and> ?s = codes name"
      by (auto simp: find_Some_iff) (metis nth_mem)
  next
    assume "\<exists>name. (name, k) \<in> set SERVICES \<and> ?s = codes name"
    then obtain n where n: "(n, k) \<in> set SERVICES" "?s = codes n" by blast
    then have "map_option snd (find (\<lambda>(name, _). codes name = ?s) SERVICES) = Some k"
      using find_table [OF SERVICES_distinct, of n] SERVICES_distinct by simp
    then show "\<exists>row. find (\<lambda>(name, _). codes name = ?s) SERVICES = Some row \<and> snd row = k" by auto
  qed
  finally show ?thesis .
qed

end
