(* ===== verification/Request_Types.thy ===== *)
theory Request_Types
  imports Prelude
begin

text \<open>
  The wire requests of the daemon socket (\<^verbatim>\<open>irlume_common::Request\<close>), one constructor
  per variant with the variant's fields in order. Payloads the daemon's admission
  tables never look into (a displayed camera choice, a split-pair guard, a wallet
  salt, a secret) are the bytes they arrive as; the two \<^verbatim>\<open>f32\<close> fields of the
  retired closure calibration are their bit patterns.
\<close>

type_synonym payload = bytes

datatype IntentAttestation = PamConversation | PolicyWaived

datatype SelfTestKind = AlignmentIdentity | Liveness

datatype (plugins only: code) Request =
    Authenticate bool string "string option" "IntentAttestation option"
  | Enroll string "string option" "nat option" bool
  | EnrollOn string "string option" "nat option" bool payload
  | EnrollSplitOn string "string option" "nat option" bool payload
  | EnrollmentSession string "string option" nat bool
  | Identify
  | SetCameras string string
  | SetCamerasIfCurrent string string payload
  | AddScan string string "nat option" bool
  | AddCameraGroup string "string option" "nat option"
  | AddCameraGroupOn string "string option" "nat option" payload
  | AddSplitCameraGroupOn string "string option" "nat option" payload
  | RemoveCameraGroup string string
  | ListProfiles string bool bool
  | DeleteProfile string string
  | DeleteScan string string string
  | ForgetRecognizer string string
  | RenameProfile string string string
  | RenameScan string string string string
  | SetRequireEyesOpen string bool
  | CaptureEarMedian string
  | SetClosureCalibration string u32 u32
  | SetupIrEmitter bool
  | TuneCaptureMode "nat option" "string option"
  | CaptureModeStatus
  | FaceSensorStatus "string option"
  | LastAttempts string
  | IdentifyFor string
  | PreferencesStatus
  | SelfTest SelfTestKind
  | ListCameras
  | CameraDiagnostics
  | SupportSnapshot u64
  | LiveStatus
  | SupportProbe u64
  | TraceSubscribe u64 "u32 option"
  | Ping
  | Health
  | PositionSample "string option"
  | PositionSession "string option"
  | SealPassword string payload "payload option" "payload option" bool
  | UnsealPassword string "string option"
  | UnsealKeyring string "string option" bool bool
  | HasSealedPassword string
  | KeyringMetadata string
  | SealedStorage
  | TpmReadiness
  | TpmEndorsement
  | KeyringInfo string
  | ForgetPassword string
  | ReleaseTokenForDisarm string payload
  | ResealPassword string payload "payload option" bool
  | RecoverySetup string payload
  | RecoveryRestore string payload
  | RecoveryStatus string
  | RecoveryForget string
  | RetryStatus string
  | RetryReset string payload
  | ListSplitAuthorizations
  | SplitStatus
  | AddSplitAuthorization payload payload payload
  | RemoveSplitAuthorization string
  | SelectSplitPair payload string

end
