(* ===== verification/Daemon_Types.thy ===== *)
theory Daemon_Types
  imports Prelude
begin

text \<open>
  The daemon's shared categories: the scheduling class of a request
  (\<^verbatim>\<open>irlume-daemon/src/arbiter.rs\<close>), the work kinds live status reports (\<^verbatim>\<open>irlume-common/src/live.rs\<close>) and whose history an
  operation is (\<^verbatim>\<open>Owner\<close> in \<^verbatim>\<open>irlume-daemon/src/diagnostics.rs\<close>), which decides who
  may read it.
\<close>

datatype Class = ClassAuth | ClassCamera | ClassPlain | ClassStatus

datatype LiveStage = StageStarting | StageReady | StageRebuilding | StageStopping | StageUnknown

datatype LiveOperationKind =
    KAuthentication | KWalletAuthentication | KEnrollment | KFraming | KIdentification
  | KCameraEnumeration | KCameraSetup | KCaptureQualification | KCameraDiagnostics
  | KProfileRead | KProfileUpdate | KSensorReadiness | KWalletRead | KWalletUpdate
  | KRecoveryUpdate | KCompatibility | KStatus | KUnknown

datatype Owner = OwnerDaemon | OwnerAccount u32 | OwnerUnresolved

primrec visible_to :: "Owner \<Rightarrow> u32 \<Rightarrow> bool" where
  "visible_to OwnerDaemon uid \<longleftrightarrow> True"
| "visible_to (OwnerAccount a) uid \<longleftrightarrow> uid = 0 \<or> a = uid"
| "visible_to OwnerUnresolved uid \<longleftrightarrow> uid = 0"

lemma visible_to_root [simp]: "visible_to ow 0"
  by (cases ow) simp_all


section \<open>Order of the map keys\<close>

text \<open>Both types derive \<^verbatim>\<open>Ord\<close> in declaration order; they are the keys of the ordered
  maps live status and the event rings keep.\<close>

primrec kind_rank :: "LiveOperationKind \<Rightarrow> nat" where
  "kind_rank KAuthentication = 0"
| "kind_rank KWalletAuthentication = 1"
| "kind_rank KEnrollment = 2"
| "kind_rank KFraming = 3"
| "kind_rank KIdentification = 4"
| "kind_rank KCameraEnumeration = 5"
| "kind_rank KCameraSetup = 6"
| "kind_rank KCaptureQualification = 7"
| "kind_rank KCameraDiagnostics = 8"
| "kind_rank KProfileRead = 9"
| "kind_rank KProfileUpdate = 10"
| "kind_rank KSensorReadiness = 11"
| "kind_rank KWalletRead = 12"
| "kind_rank KWalletUpdate = 13"
| "kind_rank KRecoveryUpdate = 14"
| "kind_rank KCompatibility = 15"
| "kind_rank KStatus = 16"
| "kind_rank KUnknown = 17"

definition ALL_KINDS :: "LiveOperationKind list" where
  "ALL_KINDS = [KAuthentication, KWalletAuthentication, KEnrollment, KFraming, KIdentification,
     KCameraEnumeration, KCameraSetup, KCaptureQualification, KCameraDiagnostics, KProfileRead,
     KProfileUpdate, KSensorReadiness, KWalletRead, KWalletUpdate, KRecoveryUpdate, KCompatibility,
     KStatus, KUnknown]"

lemma ALL_KINDS_rank: "ALL_KINDS ! kind_rank k = k"
  by (cases k) (simp_all add: ALL_KINDS_def)

lemma kind_rank_inj: "kind_rank k = kind_rank k' \<longleftrightarrow> k = k'"
  by (metis ALL_KINDS_rank)

instantiation LiveOperationKind :: linorder
begin

definition less_eq_LiveOperationKind :: "LiveOperationKind \<Rightarrow> LiveOperationKind \<Rightarrow> bool" where
  "less_eq_LiveOperationKind a b \<longleftrightarrow> kind_rank a \<le> kind_rank b"

definition less_LiveOperationKind :: "LiveOperationKind \<Rightarrow> LiveOperationKind \<Rightarrow> bool" where
  "less_LiveOperationKind a b \<longleftrightarrow> kind_rank a < kind_rank b"

instance
  by standard (auto simp: less_eq_LiveOperationKind_def less_LiveOperationKind_def kind_rank_inj)

end

primrec owner_rank :: "Owner \<Rightarrow> nat" where
  "owner_rank OwnerDaemon = 0"
| "owner_rank (OwnerAccount u) = 1 + unat u"
| "owner_rank OwnerUnresolved = 1 + 2 ^ 32"

lemma owner_rank_inj: "owner_rank a = owner_rank b \<longleftrightarrow> a = b"
proof -
  have "unat u < 2 ^ 32" for u :: u32 using unsigned_less [of u] by simp
  then have "unat u \<noteq> 2 ^ 32" for u :: u32 by (metis less_irrefl)
  then show ?thesis by (cases a; cases b) (auto simp: word_unat_eq_iff)
qed

instantiation Owner :: linorder
begin

definition less_eq_Owner :: "Owner \<Rightarrow> Owner \<Rightarrow> bool" where
  "less_eq_Owner a b \<longleftrightarrow> owner_rank a \<le> owner_rank b"

definition less_Owner :: "Owner \<Rightarrow> Owner \<Rightarrow> bool" where
  "less_Owner a b \<longleftrightarrow> owner_rank a < owner_rank b"

instance
  by standard (auto simp: less_eq_Owner_def less_Owner_def owner_rank_inj)

end

end
