(* ===== verification/Request_Tables.thy ===== *)
theory Request_Tables
  imports Request_Types Daemon_Types
begin

text \<open>
  The four tables the daemon keeps over its request catalogue, each exhaustive and
  without a wildcard in the source: the security posture (\<^verbatim>\<open>posture\<close> in
  \<^verbatim>\<open>irlume-daemon/src/main.rs\<close>), the arbiter's scheduling class (\<^verbatim>\<open>arbiter.rs\<close>), the
  operations that need an OS approval (\<^verbatim>\<open>operation_authorization.rs\<close>) and the
  live-status kind (\<^verbatim>\<open>live.rs\<close>), with the lemmas that tie the tables to each
  other. An arm with several alternatives is one equation per alternative.
\<close>

section \<open>Security posture\<close>

datatype Privilege = AnyPeer | RootOrTarget string | RootOnly string

datatype EnrollmentEffect = Reads | Mutates | AddsTrust

datatype CameraUse = NoCapture | Captures

record RequestPosture =
  privilege :: Privilege
  p_user :: "string option"
  enrollment :: EnrollmentEffect
  camera :: CameraUse

abbreviation posture_row ::
    "Privilege \<Rightarrow> string option \<Rightarrow> EnrollmentEffect \<Rightarrow> CameraUse \<Rightarrow> RequestPosture" where
  "posture_row pv u e c \<equiv> \<lparr> privilege = pv, p_user = u, enrollment = e, camera = c \<rparr>"

primrec posture :: "Request \<Rightarrow> RequestPosture" where
  "posture (DeleteProfile u x1) = posture_row (RootOrTarget ''modify'') (Some u) Mutates NoCapture"
| "posture (DeleteScan u x1 x2) = posture_row (RootOrTarget ''modify'') (Some u) Mutates NoCapture"
| "posture (ForgetRecognizer u x1) = posture_row (RootOrTarget ''modify'') (Some u) Mutates NoCapture"
| "posture (RenameProfile u x1 x2) = posture_row (RootOrTarget ''modify'') (Some u) Mutates NoCapture"
| "posture (RenameScan u x1 x2 x3) = posture_row (RootOrTarget ''modify'') (Some u) Mutates NoCapture"
| "posture (SetRequireEyesOpen u x1) = posture_row (RootOrTarget ''modify'') (Some u) Mutates NoCapture"
| "posture (AddScan u x1 x2 x3) = posture_row (RootOrTarget ''modify'') (Some u) AddsTrust Captures"
| "posture (Enroll u x1 x2 x3) = posture_row (RootOrTarget ''enroll'') (Some u) AddsTrust Captures"
| "posture (EnrollOn u x1 x2 x3 x4) = posture_row (RootOrTarget ''enroll'') (Some u) AddsTrust Captures"
| "posture (EnrollSplitOn u x1 x2 x3 x4) = posture_row (RootOrTarget ''enroll'') (Some u) AddsTrust Captures"
| "posture (EnrollmentSession u x1 x2 x3) = posture_row (RootOrTarget ''enroll'') (Some u) AddsTrust Captures"
| "posture (AddCameraGroup u x1 x2) = posture_row (RootOrTarget ''enroll'') (Some u) AddsTrust Captures"
| "posture (AddCameraGroupOn u x1 x2 x3) = posture_row (RootOrTarget ''enroll'') (Some u) AddsTrust Captures"
| "posture (AddSplitCameraGroupOn u x1 x2 x3) = posture_row (RootOrTarget ''enroll'') (Some u) AddsTrust Captures"
| "posture (RemoveCameraGroup u x1) = posture_row (RootOrTarget ''modify'') (Some u) Mutates NoCapture"
| "posture (RecoverySetup u x1) = posture_row (RootOrTarget ''set recovery for'') (Some u) Mutates NoCapture"
| "posture (RecoveryRestore u x1) = posture_row (RootOrTarget ''restore recovery for'') (Some u) Mutates NoCapture"
| "posture (RecoveryForget u) = posture_row (RootOrTarget ''forget recovery for'') (Some u) Mutates NoCapture"
| "posture (Authenticate x0 u x2 x3) = posture_row (RootOrTarget ''authenticate'') (Some u) Reads Captures"
| "posture (ListProfiles u x1 x2) = posture_row (RootOrTarget ''list'') (Some u) Reads NoCapture"
| "posture (SetClosureCalibration u x1 x2) = posture_row (RootOrTarget ''modify'') (Some u) Reads NoCapture"
| "posture (RetryReset u x1) = posture_row (RootOrTarget ''manage retry state for'') (Some u) Reads NoCapture"
| "posture (RetryStatus u) = posture_row (RootOrTarget ''manage retry state for'') (Some u) Reads NoCapture"
| "posture ListSplitAuthorizations = posture_row AnyPeer None Reads NoCapture"
| "posture TpmReadiness = posture_row (RootOnly ''TPM readiness'') None Reads NoCapture"
| "posture TpmEndorsement = posture_row (RootOnly ''TPM endorsement'') None Reads NoCapture"
| "posture SplitStatus = posture_row (RootOnly ''split_status'') None Reads NoCapture"
| "posture (AddSplitAuthorization x0 x1 x2) = posture_row (RootOnly ''split_add'') None Reads NoCapture"
| "posture (RemoveSplitAuthorization x0) = posture_row (RootOnly ''split_remove'') None Reads NoCapture"
| "posture (SelectSplitPair x0 x1) = posture_row (RootOnly ''split_select'') None Reads NoCapture"
| "posture (HasSealedPassword u) = posture_row (RootOrTarget ''query'') (Some u) Reads NoCapture"
| "posture (KeyringMetadata u) = posture_row (RootOrTarget ''query'') (Some u) Reads NoCapture"
| "posture (KeyringInfo u) = posture_row (RootOrTarget ''query'') (Some u) Reads NoCapture"
| "posture (RecoveryStatus u) = posture_row (RootOrTarget ''query'') (Some u) Reads NoCapture"
| "posture (SealPassword u x1 x2 x3 x4) = posture_row (RootOrTarget ''seal password for'') (Some u) Reads NoCapture"
| "posture (ForgetPassword u) = posture_row (RootOrTarget ''forget password for'') (Some u) Reads NoCapture"
| "posture (ReleaseTokenForDisarm u x1) = posture_row (RootOrTarget ''release the keyring token for'') (Some u) Reads NoCapture"
| "posture (ResealPassword u x1 x2 x3) = posture_row (RootOnly ''reseal_password'') (Some u) Reads NoCapture"
| "posture (UnsealPassword u x1) = posture_row (RootOnly ''unseal_password'') (Some u) Reads Captures"
| "posture (UnsealKeyring u x1 x2 x3) = posture_row (RootOnly ''unseal_keyring'') (Some u) Reads NoCapture"
| "posture (CaptureEarMedian u) = posture_row (RootOnly ''capture_ear_median'') (Some u) Reads NoCapture"
| "posture (SetCameras x0 x1) = posture_row (RootOnly ''set_cameras'') None Reads NoCapture"
| "posture (SetCamerasIfCurrent x0 x1 x2) = posture_row (RootOnly ''set_cameras'') None Reads NoCapture"
| "posture (TuneCaptureMode x0 x1) = posture_row (RootOnly ''camera-tune'') None Reads Captures"
| "posture (SelfTest x0) = posture_row (RootOnly ''self_test'') None Reads Captures"
| "posture (SupportProbe x0) = posture_row (RootOnly ''support-report --probe'') None Reads Captures"
| "posture (TraceSubscribe x0 x1) = posture_row (RootOnly ''trace record'') None Reads NoCapture"
| "posture (SetupIrEmitter dry_run) = posture_row (if dry_run then AnyPeer else RootOnly ''setup_ir_emitter'') None Reads (if dry_run then NoCapture else Captures)"
| "posture (PositionSample user) = posture_row AnyPeer user Reads Captures"
| "posture (PositionSession user) = posture_row AnyPeer user Reads Captures"
| "posture (FaceSensorStatus user) = posture_row (if user \<noteq> None then RootOrTarget ''query'' else AnyPeer) user Reads NoCapture"
| "posture (LastAttempts u) = posture_row (RootOrTarget ''query'') (Some u) Reads NoCapture"
| "posture (IdentifyFor u) = posture_row (RootOrTarget ''test recognition for'') (Some u) Reads Captures"
| "posture Identify = posture_row AnyPeer None Reads Captures"
| "posture CameraDiagnostics = posture_row AnyPeer None Reads Captures"
| "posture Ping = posture_row AnyPeer None Reads NoCapture"
| "posture PreferencesStatus = posture_row AnyPeer None Reads NoCapture"
| "posture SealedStorage = posture_row AnyPeer None Reads NoCapture"
| "posture Health = posture_row AnyPeer None Reads NoCapture"
| "posture ListCameras = posture_row AnyPeer None Reads NoCapture"
| "posture CaptureModeStatus = posture_row AnyPeer None Reads NoCapture"
| "posture (SupportSnapshot x0) = posture_row AnyPeer None Reads NoCapture"
| "posture LiveStatus = posture_row AnyPeer None Reads NoCapture"

section \<open>Scheduling class\<close>

primrec classify :: "Request \<Rightarrow> Class" where
  "classify (Authenticate x0 x1 x2 x3) = ClassAuth"
| "classify (UnsealPassword x0 x1) = ClassAuth"
| "classify (UnsealKeyring x0 x1 x2 x3) = ClassAuth"
| "classify Ping = ClassStatus"
| "classify Health = ClassStatus"
| "classify PreferencesStatus = ClassStatus"
| "classify SealedStorage = ClassStatus"
| "classify (LastAttempts x0) = ClassStatus"
| "classify (FaceSensorStatus user) = (case user of None \<Rightarrow> ClassStatus | Some _ \<Rightarrow> ClassPlain)"
| "classify (HasSealedPassword x0) = ClassStatus"
| "classify (KeyringMetadata x0) = ClassStatus"
| "classify (RecoveryStatus x0) = ClassStatus"
| "classify (RetryStatus x0) = ClassStatus"
| "classify (RetryReset x0 x1) = ClassStatus"
| "classify (ListProfiles x0 x1 x2) = ClassStatus"
| "classify (SupportSnapshot x0) = ClassStatus"
| "classify LiveStatus = ClassStatus"
| "classify (TraceSubscribe x0 x1) = ClassStatus"
| "classify ListSplitAuthorizations = ClassStatus"
| "classify SplitStatus = ClassStatus"
| "classify (PositionSample x0) = ClassCamera"
| "classify (PositionSession x0) = ClassCamera"
| "classify Identify = ClassCamera"
| "classify (IdentifyFor x0) = ClassCamera"
| "classify (Enroll x0 x1 x2 x3) = ClassCamera"
| "classify (EnrollOn x0 x1 x2 x3 x4) = ClassCamera"
| "classify (EnrollSplitOn x0 x1 x2 x3 x4) = ClassCamera"
| "classify (EnrollmentSession x0 x1 x2 x3) = ClassCamera"
| "classify (AddScan x0 x1 x2 x3) = ClassCamera"
| "classify (AddCameraGroup x0 x1 x2) = ClassCamera"
| "classify (AddCameraGroupOn x0 x1 x2 x3) = ClassCamera"
| "classify (AddSplitCameraGroupOn x0 x1 x2 x3) = ClassCamera"
| "classify (SetupIrEmitter x0) = ClassCamera"
| "classify (TuneCaptureMode x0 x1) = ClassCamera"
| "classify CaptureModeStatus = ClassCamera"
| "classify (SelfTest x0) = ClassCamera"
| "classify CameraDiagnostics = ClassCamera"
| "classify (SupportProbe x0) = ClassCamera"
| "classify ListCameras = ClassCamera"
| "classify (SetCameras x0 x1) = ClassPlain"
| "classify (SetCamerasIfCurrent x0 x1 x2) = ClassPlain"
| "classify (AddSplitAuthorization x0 x1 x2) = ClassPlain"
| "classify (RemoveSplitAuthorization x0) = ClassPlain"
| "classify (SelectSplitPair x0 x1) = ClassPlain"
| "classify (DeleteProfile x0 x1) = ClassPlain"
| "classify (DeleteScan x0 x1 x2) = ClassPlain"
| "classify (ForgetRecognizer x0 x1) = ClassPlain"
| "classify (RenameProfile x0 x1 x2) = ClassPlain"
| "classify (RenameScan x0 x1 x2 x3) = ClassPlain"
| "classify (SetRequireEyesOpen x0 x1) = ClassPlain"
| "classify (RemoveCameraGroup x0 x1) = ClassPlain"
| "classify (CaptureEarMedian x0) = ClassPlain"
| "classify (SetClosureCalibration x0 x1 x2) = ClassPlain"
| "classify (SealPassword x0 x1 x2 x3 x4) = ClassPlain"
| "classify TpmReadiness = ClassPlain"
| "classify TpmEndorsement = ClassPlain"
| "classify (KeyringInfo x0) = ClassPlain"
| "classify (ForgetPassword x0) = ClassPlain"
| "classify (ReleaseTokenForDisarm x0 x1) = ClassPlain"
| "classify (RecoverySetup x0 x1) = ClassPlain"
| "classify (RecoveryRestore x0 x1) = ClassPlain"
| "classify (RecoveryForget x0) = ClassPlain"
| "classify (ResealPassword x0 x1 x2 x3) = ClassPlain"

section \<open>Operations that need an OS approval\<close>

definition ACTION :: string where
  "ACTION = ''org.irlume.enroll''"

primrec approval_operation :: "Request \<Rightarrow> (string \<times> string) option" where
  "approval_operation (Enroll x0 x1 x2 reset) = (if reset then Some (ACTION, ''replace enrolled faces'') else Some (ACTION, ''enroll a face''))"
| "approval_operation (EnrollOn x0 x1 x2 reset x4) = (if reset then Some (ACTION, ''replace enrolled faces'') else Some (ACTION, ''enroll a face''))"
| "approval_operation (EnrollSplitOn x0 x1 x2 reset x4) = (if reset then Some (ACTION, ''replace enrolled faces'') else Some (ACTION, ''enroll a face''))"
| "approval_operation (EnrollmentSession x0 x1 x2 improve) = (if improve then Some (ACTION, ''add face scans'') else Some (ACTION, ''enroll a face''))"
| "approval_operation (AddCameraGroup x0 x1 x2) = Some (ACTION, ''enroll a face on another camera'')"
| "approval_operation (AddCameraGroupOn x0 x1 x2 x3) = Some (ACTION, ''enroll a face on another camera'')"
| "approval_operation (AddSplitCameraGroupOn x0 x1 x2 x3) = Some (ACTION, ''enroll a face on another camera'')"
| "approval_operation (RemoveCameraGroup x0 x1) = Some (ACTION, ''remove an enrolled camera'')"
| "approval_operation (AddScan x0 x1 x2 x3) = Some (ACTION, ''add face scans'')"
| "approval_operation (DeleteProfile x0 x1) = Some (ACTION, ''delete a face profile'')"
| "approval_operation (ForgetRecognizer x0 x1) = Some (ACTION, ''remove a recognizer'' @ [CHR 0x27] @ ''s face data'')"
| "approval_operation (RecoverySetup x0 x1) = Some (''org.irlume.recovery-manage'', ''set or replace the recovery passphrase'')"
| "approval_operation (RecoveryForget x0) = Some (''org.irlume.recovery-manage'', ''erase the recovery passphrase'')"
| "approval_operation (Authenticate x0 x1 x2 x3) = None"
| "approval_operation Identify = None"
| "approval_operation (SetCameras x0 x1) = None"
| "approval_operation (SetCamerasIfCurrent x0 x1 x2) = None"
| "approval_operation (ListProfiles x0 x1 x2) = None"
| "approval_operation (DeleteScan x0 x1 x2) = None"
| "approval_operation (RenameProfile x0 x1 x2) = None"
| "approval_operation (RenameScan x0 x1 x2 x3) = None"
| "approval_operation (SetRequireEyesOpen x0 x1) = None"
| "approval_operation (CaptureEarMedian x0) = None"
| "approval_operation (SetClosureCalibration x0 x1 x2) = None"
| "approval_operation (SetupIrEmitter x0) = None"
| "approval_operation (TuneCaptureMode x0 x1) = None"
| "approval_operation CaptureModeStatus = None"
| "approval_operation (FaceSensorStatus x0) = None"
| "approval_operation (LastAttempts x0) = None"
| "approval_operation (IdentifyFor x0) = None"
| "approval_operation PreferencesStatus = None"
| "approval_operation SealedStorage = None"
| "approval_operation TpmReadiness = None"
| "approval_operation TpmEndorsement = None"
| "approval_operation (SelfTest x0) = None"
| "approval_operation ListCameras = None"
| "approval_operation CameraDiagnostics = None"
| "approval_operation (SupportSnapshot x0) = None"
| "approval_operation LiveStatus = None"
| "approval_operation (SupportProbe x0) = None"
| "approval_operation (TraceSubscribe x0 x1) = None"
| "approval_operation Ping = None"
| "approval_operation Health = None"
| "approval_operation (PositionSample x0) = None"
| "approval_operation (PositionSession x0) = None"
| "approval_operation (SealPassword x0 x1 x2 x3 x4) = None"
| "approval_operation (UnsealPassword x0 x1) = None"
| "approval_operation (UnsealKeyring x0 x1 x2 x3) = None"
| "approval_operation (HasSealedPassword x0) = None"
| "approval_operation (KeyringMetadata x0) = None"
| "approval_operation (KeyringInfo x0) = None"
| "approval_operation (ForgetPassword x0) = None"
| "approval_operation (ReleaseTokenForDisarm x0 x1) = None"
| "approval_operation (ResealPassword x0 x1 x2 x3) = None"
| "approval_operation (RecoveryRestore x0 x1) = None"
| "approval_operation (RecoveryStatus x0) = None"
| "approval_operation (RetryStatus x0) = None"
| "approval_operation (RetryReset x0 x1) = None"
| "approval_operation ListSplitAuthorizations = None"
| "approval_operation SplitStatus = None"
| "approval_operation (AddSplitAuthorization x0 x1 x2) = None"
| "approval_operation (RemoveSplitAuthorization x0) = None"
| "approval_operation (SelectSplitPair x0 x1) = None"

definition approval_required :: "Request \<Rightarrow> u32 \<Rightarrow> bool" where
  "approval_required req peer_uid \<longleftrightarrow> peer_uid \<noteq> 0 \<and> approval_operation req \<noteq> None"

section \<open>Live-status kinds\<close>

primrec request_kind :: "Request \<Rightarrow> (LiveOperationKind \<times> bool) option" where
  "request_kind (Authenticate x0 x1 x2 x3) = Some (KAuthentication, False)"
| "request_kind (UnsealPassword x0 x1) = Some (KWalletAuthentication, False)"
| "request_kind (UnsealKeyring x0 x1 x2 x3) = Some (KWalletAuthentication, False)"
| "request_kind (ReleaseTokenForDisarm x0 x1) = Some (KWalletAuthentication, False)"
| "request_kind (Enroll x0 x1 x2 x3) = Some (KEnrollment, True)"
| "request_kind (EnrollOn x0 x1 x2 x3 x4) = Some (KEnrollment, True)"
| "request_kind (EnrollSplitOn x0 x1 x2 x3 x4) = Some (KEnrollment, True)"
| "request_kind (EnrollmentSession x0 x1 x2 x3) = Some (KEnrollment, True)"
| "request_kind (AddScan x0 x1 x2 x3) = Some (KEnrollment, True)"
| "request_kind (AddCameraGroup x0 x1 x2) = Some (KEnrollment, True)"
| "request_kind (AddCameraGroupOn x0 x1 x2 x3) = Some (KEnrollment, True)"
| "request_kind (AddSplitCameraGroupOn x0 x1 x2 x3) = Some (KEnrollment, True)"
| "request_kind (PositionSample x0) = Some (KFraming, False)"
| "request_kind (PositionSession x0) = Some (KFraming, False)"
| "request_kind Identify = Some (KIdentification, False)"
| "request_kind (IdentifyFor x0) = Some (KIdentification, False)"
| "request_kind ListCameras = Some (KCameraEnumeration, False)"
| "request_kind (SetCameras x0 x1) = Some (KCameraSetup, True)"
| "request_kind (SetCamerasIfCurrent x0 x1 x2) = Some (KCameraSetup, True)"
| "request_kind (AddSplitAuthorization x0 x1 x2) = Some (KCameraSetup, True)"
| "request_kind (RemoveSplitAuthorization x0) = Some (KCameraSetup, True)"
| "request_kind (SelectSplitPair x0 x1) = Some (KCameraSetup, True)"
| "request_kind ListSplitAuthorizations = None"
| "request_kind SplitStatus = None"
| "request_kind (SetupIrEmitter dry_run) = Some (KCameraSetup, \<not> dry_run)"
| "request_kind (TuneCaptureMode x0 x1) = Some (KCaptureQualification, True)"
| "request_kind CaptureModeStatus = Some (KCameraDiagnostics, False)"
| "request_kind CameraDiagnostics = Some (KCameraDiagnostics, False)"
| "request_kind (SelfTest x0) = Some (KCameraDiagnostics, False)"
| "request_kind (SupportProbe x0) = Some (KCameraDiagnostics, False)"
| "request_kind (ListProfiles x0 x1 x2) = Some (KProfileRead, False)"
| "request_kind (DeleteProfile x0 x1) = Some (KProfileUpdate, True)"
| "request_kind (DeleteScan x0 x1 x2) = Some (KProfileUpdate, True)"
| "request_kind (ForgetRecognizer x0 x1) = Some (KProfileUpdate, True)"
| "request_kind (RenameProfile x0 x1 x2) = Some (KProfileUpdate, True)"
| "request_kind (RemoveCameraGroup x0 x1) = Some (KProfileUpdate, True)"
| "request_kind (RenameScan x0 x1 x2 x3) = Some (KProfileUpdate, True)"
| "request_kind (SetRequireEyesOpen x0 x1) = Some (KProfileUpdate, True)"
| "request_kind (FaceSensorStatus user) = (case user of Some _ \<Rightarrow> Some (KSensorReadiness, False) | None \<Rightarrow> None)"
| "request_kind (KeyringInfo x0) = Some (KWalletRead, False)"
| "request_kind (SealPassword x0 x1 x2 x3 x4) = Some (KWalletUpdate, True)"
| "request_kind (ResealPassword x0 x1 x2 x3) = Some (KWalletUpdate, True)"
| "request_kind (ForgetPassword x0) = Some (KWalletUpdate, True)"
| "request_kind (RecoverySetup x0 x1) = Some (KRecoveryUpdate, True)"
| "request_kind (RecoveryRestore x0 x1) = Some (KRecoveryUpdate, True)"
| "request_kind (RecoveryForget x0) = Some (KRecoveryUpdate, True)"
| "request_kind (CaptureEarMedian x0) = Some (KCompatibility, False)"
| "request_kind (SetClosureCalibration x0 x1 x2) = Some (KCompatibility, False)"
| "request_kind LiveStatus = None"
| "request_kind (SupportSnapshot x0) = None"
| "request_kind (TraceSubscribe x0 x1) = None"
| "request_kind Ping = None"
| "request_kind Health = None"
| "request_kind PreferencesStatus = None"
| "request_kind SealedStorage = None"
| "request_kind TpmReadiness = None"
| "request_kind TpmEndorsement = None"
| "request_kind (LastAttempts x0) = None"
| "request_kind (HasSealedPassword x0) = None"
| "request_kind (KeyringMetadata x0) = None"
| "request_kind (RecoveryStatus x0) = None"
| "request_kind (RetryStatus x0) = None"
| "request_kind (RetryReset x0 x1) = None"

section \<open>How the tables agree\<close>

text \<open>The account whose published enrollment summary a request invalidates.\<close>

definition enrollment_mutating_user :: "Request \<Rightarrow> string option" where
  "enrollment_mutating_user req =
     (case enrollment (posture req) of Reads \<Rightarrow> None | Mutates \<Rightarrow> p_user (posture req)
      | AddsTrust \<Rightarrow> p_user (posture req))"

lemma posture_target_named:
  "privilege (posture req) = RootOrTarget verb \<Longrightarrow> p_user (posture req) \<noteq> None"
  by (cases req) (simp_all split: if_splits)

lemma captures_class:
  "camera (posture req) = Captures \<Longrightarrow> classify req = ClassAuth \<or> classify req = ClassCamera"
  by (cases req) simp_all

lemma approval_posture:
  "approval_operation req \<noteq> None \<Longrightarrow>
     (\<exists>verb. privilege (posture req) = RootOrTarget verb) \<and> enrollment (posture req) \<noteq> Reads"
  by (cases req) simp_all

lemma adds_trust_approval:
  "enrollment (posture req) = AddsTrust \<Longrightarrow> approval_operation req \<noteq> None"
  by (cases req) simp_all

lemma adds_trust_captures:
  "enrollment (posture req) = AddsTrust \<Longrightarrow> camera (posture req) = Captures"
  by (cases req) simp_all

lemma writes_named:
  "enrollment (posture req) \<noteq> Reads \<Longrightarrow> p_user (posture req) \<noteq> None"
  by (cases req) simp_all

lemma writes_advance:
  "enrollment (posture req) \<noteq> Reads \<Longrightarrow> \<exists>k. request_kind req = Some (k, True)"
  by (cases req) simp_all

lemma status_posture:
  "classify req = ClassStatus \<Longrightarrow> camera (posture req) = NoCapture \<and> enrollment (posture req) = Reads"
  by (cases req) simp_all

lemma status_live:
  "classify req = ClassStatus \<Longrightarrow>
     request_kind req = None \<or> request_kind req = Some (KProfileRead, False)"
  by (cases req) (simp_all split: option.splits)

section \<open>Properties\<close>

text \<open>The tables agree on every request that adds a trusted template: it names an account, only
  root or that account may send it, it needs an OS approval unless the peer is root, it
  turns a camera on (so the seat rule applies), the worker serves it as camera work, it
  invalidates the account's published summary and it moves the live revision.\<close>

theorem trust_adding_requests_are_guarded:
  assumes "enrollment (posture req) = AddsTrust"
  shows "(\<exists>verb u. privilege (posture req) = RootOrTarget verb \<and> p_user (posture req) = Some u \<and>
            enrollment_mutating_user req = Some u) \<and>
         (approval_required req uid \<longleftrightarrow> uid \<noteq> 0) \<and>
         camera (posture req) = Captures \<and> classify req = ClassCamera \<and>
         request_kind req = Some (KEnrollment, True)"
  using assms by (cases req) (simp_all add: approval_required_def enrollment_mutating_user_def)

theorem trust_adding_requests_are_guarded_witness:
  "approval_required (AddScan ''ann'' ''face'' None False) 1000"
  using trust_adding_requests_are_guarded [of "AddScan ''ann'' ''face'' None False" 1000] by simp

text \<open>What the daemon answers on a connection thread is a read: a request of the status class
  turns no camera on, leaves every enrollment alone, needs no approval and never moves the
  live revision; and every request that turns a camera on is served by the worker as
  authentication or camera work.\<close>

theorem status_requests_only_read:
  "(classify req = ClassStatus \<longrightarrow>
      camera (posture req) = NoCapture \<and> enrollment_mutating_user req = None \<and>
      approval_operation req = None \<and> (\<forall>k b. request_kind req = Some (k, b) \<longrightarrow> \<not> b)) \<and>
   (camera (posture req) = Captures \<longrightarrow> classify req = ClassAuth \<or> classify req = ClassCamera)"
proof (intro conjI impI)
  assume st: "classify req = ClassStatus"
  from status_posture [OF st] show "camera (posture req) = NoCapture"
    and "enrollment_mutating_user req = None"
    by (simp_all add: enrollment_mutating_user_def)
  from approval_posture [of req] status_posture [OF st] show "approval_operation req = None" by blast
  from status_live [OF st] show "\<forall>k b. request_kind req = Some (k, b) \<longrightarrow> \<not> b" by auto
qed (rule captures_class)

theorem status_requests_only_read_witness:
  "camera (posture (ListProfiles ''ann'' True False)) = NoCapture"
  using status_requests_only_read [of "ListProfiles ''ann'' True False"] by simp

end
