(* ===== verification/Rust_Text.thy ===== *)
theory Rust_Text
  imports Prelude
begin

text \<open>
  The parts of Rust's text library the components share: decimal numbers, lines, prefixes and
  separators, the classification of bytes and well-formed UTF-8, each as the standard library
  defines it on the bytes of a \<^verbatim>\<open>str\<close>. The last section is the contract of a canonical
  encoding, interpreted wherever the code promises that a text has one spelling.
\<close>

section \<open>Decimal numbers\<close>

fun dec :: "nat \<Rightarrow> string" where
  "dec n = (if n < 10 then [char_of (48 + n)] else dec (n div 10) @ [char_of (48 + n mod 10)])"

declare dec.simps [simp del]

primrec parse_digits :: "nat \<Rightarrow> nat list \<Rightarrow> nat option" where
  "parse_digits acc [] = Some acc"
| "parse_digits acc (c # cs) =
     (if 48 \<le> c \<and> c \<le> 57 then parse_digits (10 * acc + (c - 48)) cs else None)"

definition is_ascii_alphanumeric :: "nat \<Rightarrow> bool" where
  "is_ascii_alphanumeric b \<longleftrightarrow> (48 \<le> b \<and> b \<le> 57) \<or> (65 \<le> b \<and> b \<le> 90) \<or> (97 \<le> b \<and> b \<le> 122)"

definition is_digit :: "char \<Rightarrow> bool" where
  "is_digit c \<longleftrightarrow> 48 \<le> (of_char c :: nat) \<and> (of_char c :: nat) \<le> 57"

text \<open>\<^verbatim>\<open>u32::from_str\<close>: an optional plus sign, at least one digit, no overflow.\<close>

definition parse_u32 :: "nat list \<Rightarrow> u32 option" where
  "parse_u32 s =
     (let ds = (case s of c # cs \<Rightarrow> if c = 43 then cs else s | [] \<Rightarrow> s)
      in if ds = [] then None
         else case parse_digits 0 ds of
             None \<Rightarrow> None
           | Some n \<Rightarrow> if n < 2 ^ 32 then Some (word_of_nat n) else None)"

lemma parse_digits_append:
  "parse_digits acc (xs @ ys) = Option.bind (parse_digits acc xs) (\<lambda>a. parse_digits a ys)"
  by (induction xs arbitrary: acc) auto

lemma parse_digits_dec: "parse_digits 0 (codes (dec n)) = Some n"
proof (induction n rule: dec.induct)
  case (1 n)
  then show ?case
    by (subst dec.simps) (auto simp: codes_def parse_digits_append of_char_of)
qed

lemma codes_dec_digits: "\<forall>c\<in>set (codes (dec n)). 48 \<le> c \<and> c \<le> 57"
proof (induction n rule: dec.induct)
  case (1 n)
  then show ?case
    by (subst dec.simps) (auto simp: codes_def of_char_of)
qed

lemma dec_not_Nil: "dec n \<noteq> []"
  by (subst dec.simps) simp

lemma parse_u32_dec: "parse_u32 (codes (dec (unat w))) = Some w"
proof -
  obtain c cs where cs: "codes (dec (unat w)) = c # cs"
    using dec_not_Nil by (cases "dec (unat w)") (auto simp: codes_def)
  moreover have "c \<noteq> 43" using codes_dec_digits [of "unat w"] cs by auto
  moreover have "unat w < 2 ^ 32" using unsigned_less [of w] by simp
  ultimately show ?thesis
    using parse_digits_dec [of "unat w"] by (simp add: parse_u32_def)
qed

text \<open>White space never opens or closes a run of digits, so trimming keeps it.\<close>

lemma trim_digits:
  assumes "\<forall>c\<in>set s. 48 \<le> c \<and> c \<le> 57"
  shows "trim s = s"
proof -
  have "ws_len t = 0 \<and> ws_len_rev t = 0" if "\<forall>c\<in>set t. 48 \<le> c \<and> c \<le> 57" for t
    using that by (cases t; cases "tl t"; cases "tl (tl t)")
      (auto simp: ws_len_def ws_len_rev_def is_ascii_ws_def is_ws3_def)
  from this [of s] this [of "rev s"] assms show ?thesis
    by (simp add: trim_def trim_front.simps trim_back_rev.simps)
qed

section \<open>Lines and prefixes\<close>

definition strip_cr :: "string \<Rightarrow> string" where
  "strip_cr l = (if l \<noteq> [] \<and> last l = CHR 0x0D then butlast l else l)"

primrec lines_from :: "string \<Rightarrow> string \<Rightarrow> string list" where
  "lines_from cur [] = (if cur = [] then [] else [cur])"
| "lines_from cur (c # s) =
     (if c = CHR 0x0A then strip_cr cur # lines_from [] s else lines_from (cur @ [c]) s)"

definition lines :: "string \<Rightarrow> string list" where
  "lines s = lines_from [] s"

definition strip_prefix :: "string \<Rightarrow> string \<Rightarrow> string option" where
  "strip_prefix p s = (if take (length p) s = p then Some (drop (length p) s) else None)"

primrec find_map :: "('a \<Rightarrow> 'b option) \<Rightarrow> 'a list \<Rightarrow> 'b option" where
  "find_map f [] = None"
| "find_map f (x # xs) = (case f x of Some y \<Rightarrow> Some y | None \<Rightarrow> find_map f xs)"

lemma find_map_append:
  "find_map f (xs @ ys) = (case find_map f xs of Some y \<Rightarrow> Some y | None \<Rightarrow> find_map f ys)"
  by (induction xs) (auto split: option.splits)

lemma lines_from_line:
  "CHR 0x0A \<notin> set l \<Longrightarrow> lines_from cur (l @ CHR 0x0A # s) = strip_cr (cur @ l) # lines_from [] s"
  by (induction l arbitrary: cur) auto

text \<open>A text of whole lines.\<close>

definition line_text :: "string list \<Rightarrow> string" where
  "line_text ls = concat (map (\<lambda>l. l @ [CHR 0x0A]) ls)"

lemma lines_line_text:
  assumes "\<forall>l\<in>set ls. CHR 0x0A \<notin> set l"
  shows "lines (line_text ls @ s) = map strip_cr ls @ lines s"
  using assms
proof (induction ls)
  case (Cons l ls)
  have "lines (line_text (l # ls) @ s) = lines_from [] (l @ CHR 0x0A # (line_text ls @ s))"
    by (simp add: lines_def line_text_def)
  also have "\<dots> = strip_cr l # lines (line_text ls @ s)"
    using Cons.prems by (simp add: lines_from_line lines_def)
  finally show ?case using Cons by simp
qed (simp add: line_text_def)

lemma strip_prefix_append: "strip_prefix p (p @ s) = Some s"
  by (simp add: strip_prefix_def)

lemma digits_no_newline: "CHR 0x0A \<notin> set (dec n) \<and> CHR 0x0D \<notin> set (dec n)"
  using codes_dec_digits [of n] by (force simp: codes_def)

section \<open>Separators and control characters\<close>

text \<open>\<^verbatim>\<open>str::split\<close> on a one-byte separator: a text with \<open>n\<close> separators has \<open>n + 1\<close> parts.\<close>

fun split_on :: "char \<Rightarrow> string \<Rightarrow> string list" where
  "split_on c [] = [[]]"
| "split_on c (x # xs) =
     (if x = c then [] # split_on c xs
      else (case split_on c xs of [] \<Rightarrow> [[x]] | p # ps \<Rightarrow> (x # p) # ps))"

definition starts_with :: "string \<Rightarrow> string \<Rightarrow> bool" where
  "starts_with s p \<longleftrightarrow> take (length p) s = p"

definition is_ascii_control :: "char \<Rightarrow> bool" where
  "is_ascii_control c \<longleftrightarrow> of_char c < (32 :: nat) \<or> of_char c = (127 :: nat)"

text \<open>\<^verbatim>\<open>char::is_control\<close> is the category Cc: the ASCII controls and U+0080 to U+009F, which are two
  bytes in UTF-8.\<close>

fun has_control :: "nat list \<Rightarrow> bool" where
  "has_control [] = False"
| "has_control (b # bs) =
     (b < 32 \<or> b = 127 \<or> (b = 194 \<and> (case bs of c # _ \<Rightarrow> 128 \<le> c \<and> c \<le> 159 | [] \<Rightarrow> False)) \<or> has_control bs)"

section \<open>UTF-8\<close>

text \<open>\<open>second_ok\<close> is the range of the second byte after a lead byte, \<open>utf8_len\<close> the length a
  lead byte announces (0 when it may not lead).\<close>

definition utf8_len :: "nat \<Rightarrow> nat" where
  "utf8_len b = (if b < 0x80 then 1 else if 0xC2 \<le> b \<and> b \<le> 0xDF then 2 else if 0xE0 \<le> b \<and> b \<le> 0xEF then 3
     else if 0xF0 \<le> b \<and> b \<le> 0xF4 then 4 else 0)"

definition second_ok :: "nat \<Rightarrow> nat \<Rightarrow> bool" where
  "second_ok b c \<longleftrightarrow> (if b = 0xE0 then 0xA0 else if b = 0xF0 then 0x90 else 0x80) \<le> c \<and>
     c \<le> (if b = 0xED then 0x9F else if b = 0xF4 then 0x8F else 0xBF)"

definition cont :: "nat \<Rightarrow> bool" where
  "cont c \<longleftrightarrow> 0x80 \<le> c \<and> c \<le> 0xBF"

text \<open>How many of the bytes belong to the first character or ill-formed part, and its scalar
  value if it is well formed.\<close>

definition utf8_first :: "nat \<Rightarrow> nat list \<Rightarrow> nat \<times> nat option" where
  "utf8_first b cs =
     (let n = utf8_len b in
      if n = 1 then (1, Some b)
      else if n = 0 \<or> cs = [] \<or> \<not> second_ok b (cs ! 0) then (1, None)
      else if n = 2 then (2, Some ((b - 0xC0) * 64 + (cs ! 0 - 0x80)))
      else if length cs < 2 \<or> \<not> cont (cs ! 1) then (2, None)
      else if n = 3 then (3, Some ((b - 0xE0) * 4096 + (cs ! 0 - 0x80) * 64 + (cs ! 1 - 0x80)))
      else if length cs < 3 \<or> \<not> cont (cs ! 2) then (3, None)
      else (4, Some ((b - 0xF0) * 262144 + (cs ! 0 - 0x80) * 4096 + (cs ! 1 - 0x80) * 64 + (cs ! 2 - 0x80))))"

text \<open>\<^verbatim>\<open>String::from_utf8_lossy\<close>: each maximal part of an ill-formed sequence is one U+FFFD. On the
  bytes of a \<^verbatim>\<open>str\<close> there is none, and the result is \<^verbatim>\<open>chars()\<close>.\<close>

function utf8_lossy :: "nat list \<Rightarrow> nat list" where
  "utf8_lossy [] = []"
| "utf8_lossy (b # cs) = (case utf8_first b cs of (n, c) \<Rightarrow>
     (case c of Some v \<Rightarrow> v | None \<Rightarrow> 0xFFFD) # utf8_lossy (drop (n - 1) cs))"
  by pat_completeness auto
termination by (relation "measure length") auto

text \<open>\<^verbatim>\<open>String::from_utf8\<close> succeeds exactly on these bytes; every \<^verbatim>\<open>str\<close> has them.\<close>

function is_utf8 :: "nat list \<Rightarrow> bool" where
  "is_utf8 [] = True"
| "is_utf8 (b # cs) = (case utf8_first b cs of (n, c) \<Rightarrow> c \<noteq> None \<and> is_utf8 (drop (n - 1) cs))"
  by pat_completeness auto
termination by (relation "measure length") auto

definition is_text :: "string \<Rightarrow> bool" where
  "is_text s \<longleftrightarrow> is_utf8 (codes s)"

lemma is_utf8_ascii: "\<forall>b\<in>set bs. b < 128 \<Longrightarrow> is_utf8 bs"
  by (induction bs) (simp_all add: utf8_first_def utf8_len_def)

section \<open>Splitting at a separator\<close>

text \<open>\<^verbatim>\<open>str::split_once\<close> on a one-byte separator.\<close>

fun split_once :: "char \<Rightarrow> string \<Rightarrow> (string \<times> string) option" where
  "split_once c [] = None"
| "split_once c (x # xs) =
     (if x = c then Some ([], xs) else map_option (\<lambda>(a, b). (x # a, b)) (split_once c xs))"

fun join :: "char \<Rightarrow> string list \<Rightarrow> string" where
  "join c [] = []"
| "join c [p] = p"
| "join c (p # q # ps) = p @ c # join c (q # ps)"

text \<open>Text from its bytes, and the searches of \<^verbatim>\<open>str\<close> on a needle that is text.\<close>

definition text_of :: "nat list \<Rightarrow> string" where
  "text_of bs = map char_of bs"

definition trim_text :: "string \<Rightarrow> string" where
  "trim_text s = text_of (trim (codes s))"

definition eq_ignore_ascii_case :: "string \<Rightarrow> string \<Rightarrow> bool" where
  "eq_ignore_ascii_case a b \<longleftrightarrow> ascii_lower (codes a) = ascii_lower (codes b)"

definition strip_suffix :: "string \<Rightarrow> string \<Rightarrow> string option" where
  "strip_suffix p s = map_option rev (strip_prefix (rev p) (rev s))"

definition rsplit_once :: "char \<Rightarrow> string \<Rightarrow> (string \<times> string) option" where
  "rsplit_once c s = map_option (\<lambda>(a, b). (rev b, rev a)) (split_once c (rev s))"

definition contains_text :: "string \<Rightarrow> string \<Rightarrow> bool" where
  "contains_text s p \<longleftrightarrow> list_ex (\<lambda>i. starts_with (drop i s) p) [0..<Suc (length s)]"

lemma strip_suffix_append: "strip_suffix p (s @ p) = Some s"
  by (simp add: strip_suffix_def strip_prefix_def)

lemma split_once_Some:
  "split_once c t = Some (a, b) \<longleftrightarrow> c \<notin> set a \<and> t = a @ c # b"
proof (induction c t arbitrary: a b rule: split_once.induct)
  case (2 c x xs)
  then show ?case by (cases a) auto
qed simp

lemma split_on_Cons_sep: "c \<notin> set p \<Longrightarrow> split_on c (p @ c # t) = p # split_on c t"
  by (induction p) auto

lemma split_on_no_sep: "c \<notin> set p \<Longrightarrow> split_on c p = [p]"
  by (induction p) auto

lemma split_on_not_Nil [simp]: "split_on c t \<noteq> []"
  by (induction c t rule: split_on.induct) (auto split: list.splits)

lemma split_on_parts: "p \<in> set (split_on c t) \<Longrightarrow> c \<notin> set p"
  by (induction c t arbitrary: p rule: split_on.induct) (auto split: list.splits if_splits)

lemma join_split_on: "join c (split_on c t) = t"
proof (induction c t rule: split_on.induct)
  case (2 c x xs)
  obtain p ps where ps: "split_on c xs = p # ps" by (cases "split_on c xs") simp_all
  have "join c ((x # p) # ps) = x # join c (p # ps)" by (cases ps) simp_all
  with 2 ps show ?case by auto
qed simp

lemma split_on_join:
  "ps \<noteq> [] \<Longrightarrow> \<forall>p\<in>set ps. c \<notin> set p \<Longrightarrow> split_on c (join c ps) = ps"
  by (induction c ps rule: join.induct) (simp_all add: split_on_no_sep split_on_Cons_sep)

text \<open>So a text is exactly one list of parts.\<close>

lemma split_on_iff:
  "split_on c t = ps \<longleftrightarrow> ps \<noteq> [] \<and> (\<forall>p\<in>set ps. c \<notin> set p) \<and> join c ps = t"
  by (metis join_split_on split_on_join split_on_not_Nil split_on_parts)

lemma set_join: "set (join c ps) \<subseteq> insert c (\<Union> (set ` set ps))"
  by (induction c ps rule: join.induct) auto

section \<open>Canonical encodings\<close>

text \<open>
  The contract of an encoding in which every value has one text and every text stands for at
  most one value: the decoder answers exactly on the texts the encoder writes.
\<close>

locale canonical_codec =
  fixes ok :: "'a \<Rightarrow> bool"
    and enc :: "'a \<Rightarrow> 't"
    and dec :: "'t \<Rightarrow> 'a option"
  assumes dec_iff: "dec t = Some a \<longleftrightarrow> ok a \<and> enc a = t"
begin

lemma dec_enc: "ok a \<Longrightarrow> dec (enc a) = Some a"
  by (simp add: dec_iff)

lemma enc_inj: "ok a \<Longrightarrow> ok b \<Longrightarrow> enc a = enc b \<longleftrightarrow> a = b"
  by (metis dec_enc option.inject)

lemma dec_None: "dec t = None \<longleftrightarrow> (\<forall>a. ok a \<longrightarrow> enc a \<noteq> t)"
  by (metis dec_iff option.exhaust option.distinct(1))

end

end
