(* ===== verification/Seat_State.thy ===== *)
theory Seat_State
  imports Rust_Text
begin

text \<open>
  The seat rule's reading of logind's state directory
  (\<^verbatim>\<open>irlume-daemon/src/attempt_record.rs\<close>): the scan of one state directory and the
  decision whether a uid holds the active session on a seat. The directory is
  given as what the operating system answers for each entry.
\<close>

section \<open>One seat file, and the directory of seats\<close>

definition seat_is_held_by :: "string \<Rightarrow> u32 \<Rightarrow> bool" where
  "seat_is_held_by facts uid \<longleftrightarrow>
     Option.bind (find_map (strip_prefix ''ACTIVE_UID='') (lines facts))
       (\<lambda>v. parse_u32 (trim (codes v))) = Some uid"

text \<open>What reading one directory entry answers: the entry itself or its type cannot be
  read, it is no regular file, its text, it is gone, or it cannot be read.\<close>

datatype dirent =
    EntryErr | TypeErr | NotRegular | FileText string | FileGone | FileErr

primrec scan_entry :: "(string \<Rightarrow> bool) \<Rightarrow> dirent \<Rightarrow> bool \<times> bool \<Rightarrow> bool \<times> bool" where
  "scan_entry m EntryErr acc = (fst acc, True)"
| "scan_entry m TypeErr acc = (fst acc, True)"
| "scan_entry m NotRegular acc = acc"
| "scan_entry m (FileText facts) acc = (fst acc \<or> m facts, snd acc)"
| "scan_entry m FileGone acc = acc"
| "scan_entry m FileErr acc = (fst acc, True)"

definition scan_logind_dir :: "dirent list option \<Rightarrow> (string \<Rightarrow> bool) \<Rightarrow> bool option" where
  "scan_logind_dir dir m = (case dir of
      None \<Rightarrow> None
    | Some entries \<Rightarrow>
        (case fold (scan_entry m) entries (False, False) of
          (found, unknown) \<Rightarrow> if found then Some True else if unknown then None else Some False))"

definition holds_an_active_seat :: "dirent list option \<Rightarrow> u32 \<Rightarrow> bool option" where
  "holds_an_active_seat seats uid = scan_logind_dir seats (\<lambda>facts. seat_is_held_by facts uid)"

text \<open>The uncertain answers of a directory.\<close>

definition unreadable :: "dirent \<Rightarrow> bool" where
  "unreadable e \<longleftrightarrow> e = EntryErr \<or> e = TypeErr \<or> e = FileErr"

lemma fold_scan_entry:
  "fold (scan_entry m) es acc =
     (fst acc \<or> (\<exists>t. FileText t \<in> set es \<and> m t), snd acc \<or> (\<exists>e\<in>set es. unreadable e))"
proof (induction es arbitrary: acc)
  case (Cons e es)
  then show ?case by (cases e) (auto simp: unreadable_def)
qed simp

lemma holds_an_active_seat_True:
  "holds_an_active_seat seats uid = Some True \<longleftrightarrow>
     (\<exists>es t. seats = Some es \<and> FileText t \<in> set es \<and> seat_is_held_by t uid)"
  by (auto simp: holds_an_active_seat_def scan_logind_dir_def fold_scan_entry split: option.splits)

lemma holds_an_active_seat_False:
  "holds_an_active_seat seats uid = Some False \<longleftrightarrow>
     (\<exists>es. seats = Some es \<and> (\<forall>e\<in>set es. \<not> unreadable e) \<and>
           (\<forall>t. FileText t \<in> set es \<longrightarrow> \<not> seat_is_held_by t uid))"
  by (auto simp: holds_an_active_seat_def scan_logind_dir_def fold_scan_entry split: option.splits)

lemma seat_is_held_by_unique:
  "seat_is_held_by t uid \<Longrightarrow> seat_is_held_by t uid' \<Longrightarrow> uid = uid'"
  by (simp add: seat_is_held_by_def)

text \<open>A seat file as logind writes it: lines that are no \<^verbatim>\<open>ACTIVE_UID\<close> assignment, then
  the assignment, then anything.\<close>

lemma seat_file_reads_back:
  assumes "\<forall>l\<in>set ls. CHR 0x0A \<notin> set l"
    and "\<forall>l\<in>set ls. strip_prefix ''ACTIVE_UID='' (strip_cr l) = None"
  shows "seat_is_held_by (line_text ls @ (''ACTIVE_UID='' @ dec (unat w)) @ CHR 0x0A # rest) uid \<longleftrightarrow> uid = w"
proof -
  have none: "find_map (strip_prefix ''ACTIVE_UID='') (map strip_cr ls) = None"
    using assms(2) by (induction ls) auto
  have last: "last (''ACTIVE_UID='' @ dec (unat w)) \<noteq> CHR 0x0D"
    using digits_no_newline [of "unat w"] dec_not_Nil [of "unat w"]
    by (auto simp: last_append dest: last_in_set)
  have nn: "CHR 0x0A \<notin> set (''ACTIVE_UID='' @ dec (unat w))"
    using digits_no_newline [of "unat w"] by auto
  have "lines ((''ACTIVE_UID='' @ dec (unat w)) @ CHR 0x0A # rest) =
      (''ACTIVE_UID='' @ dec (unat w)) # lines rest"
    unfolding lines_def using lines_from_line [OF nn, of "[]" rest] last
    by (simp add: strip_cr_def)
  then have "find_map (strip_prefix ''ACTIVE_UID='')
      (lines (line_text ls @ (''ACTIVE_UID='' @ dec (unat w)) @ CHR 0x0A # rest)) = Some (dec (unat w))"
    using none by (simp only: lines_line_text [OF assms(1)] find_map_append option.case
        find_map.simps strip_prefix_append)
  then show ?thesis
    by (auto simp: seat_is_held_by_def trim_digits [OF codes_dec_digits] parse_u32_dec)
qed

end
