(* ===== verification/Account_Holds.thy ===== *)
theory Account_Holds
  imports Seat_State
begin

text \<open>
  The account a per-account record belongs to (\<^verbatim>\<open>irlume-core/src/account.rs\<close>): the
  table of uids requests hold for account names, name resolution through it, the
  ownership check of a stored record and the uid a write records. The account
  database itself (NSS) is the argument \<open>nss\<close>.
\<close>

datatype Resolution = Uid u32 | NoAccount | UnknownAccount

datatype Kind = Held | StoodIn

record Remembered =
  rm_id :: u64
  rm_kind :: Kind
  rm_user :: string
  rm_resolution :: Resolution

record accounts =
  remembered :: "Remembered list"
  next_id :: u64

text \<open>The crate's error type, as far as this module tells its variants apart.\<close>

datatype Error = Policy string | OtherError string

type_synonym 'a fallible = "Error + 'a"

section \<open>Holding and resolving\<close>

definition latest :: "accounts \<Rightarrow> Kind \<Rightarrow> string \<Rightarrow> Resolution option" where
  "latest t k user =
     map_option rm_resolution (find (\<lambda>e. rm_kind e = k \<and> rm_user e = user) (rev (remembered t)))"

definition held :: "accounts \<Rightarrow> string \<Rightarrow> Resolution option" where
  "held t user = latest t Held user"

definition stood_in :: "accounts \<Rightarrow> string \<Rightarrow> Resolution option" where
  "stood_in t user = latest t StoodIn user"

definition resolve_fresh :: "(string \<Rightarrow> Resolution) \<Rightarrow> accounts \<Rightarrow> string \<Rightarrow> Resolution" where
  "resolve_fresh nss t user = (case stood_in t user of Some r \<Rightarrow> r | None \<Rightarrow> nss user)"

definition resolve :: "(string \<Rightarrow> Resolution) \<Rightarrow> accounts \<Rightarrow> string \<Rightarrow> Resolution" where
  "resolve nss t user = (case held t user of Some r \<Rightarrow> r | None \<Rightarrow> resolve_fresh nss t user)"

definition hold :: "accounts \<Rightarrow> string \<Rightarrow> u32 \<Rightarrow> u64 fallible \<times> accounts" where
  "hold t user uid =
     (if list_ex (\<lambda>e. rm_kind e = Held \<and> rm_user e = user \<and> rm_resolution e \<noteq> Uid uid) (remembered t)
      then (Inl (Policy (''a request irlumed is serving holds another uid for '' @ [CHR 0x27] @ user
              @ [CHR 0x27] @ '', so this request is refused; try again when that request ends'')), t)
      else (Inr (next_id t),
            t\<lparr> remembered := remembered t @
                 [\<lparr> rm_id = next_id t, rm_kind = Held, rm_user = user, rm_resolution = Uid uid \<rparr>],
               next_id := next_id t + 1 \<rparr>))"

definition remember_resolution :: "accounts \<Rightarrow> string \<Rightarrow> Resolution \<Rightarrow> u64 \<times> accounts" where
  "remember_resolution t user r =
     (next_id t,
      t\<lparr> remembered := remembered t @
           [\<lparr> rm_id = next_id t, rm_kind = StoodIn, rm_user = user, rm_resolution = r \<rparr>],
         next_id := next_id t + 1 \<rparr>)"

definition drop_remembered :: "u64 \<Rightarrow> accounts \<Rightarrow> accounts" where
  "drop_remembered i t = t\<lparr> remembered := filter (\<lambda>e. rm_id e \<noteq> i) (remembered t) \<rparr>"

text \<open>What the rest of the program can do to the table, in any order.\<close>

datatype account_op = OpHold string u32 | OpRemember string Resolution | OpDrop u64

primrec account_step :: "account_op \<Rightarrow> accounts \<Rightarrow> accounts" where
  "account_step (OpHold user uid) t = snd (hold t user uid)"
| "account_step (OpRemember user r) t = snd (remember_resolution t user r)"
| "account_step (OpDrop i) t = drop_remembered i t"

text \<open>The invariant the comment on \<^verbatim>\<open>held\<close> relies on: every hold of a name holds the
  same uid.\<close>

definition holds_agree :: "accounts \<Rightarrow> bool" where
  "holds_agree t \<longleftrightarrow>
     (\<forall>e\<in>set (remembered t). rm_kind e = Held \<longrightarrow> (\<exists>u. rm_resolution e = Uid u)) \<and>
     (\<forall>e\<in>set (remembered t). \<forall>e'\<in>set (remembered t).
        rm_kind e = Held \<and> rm_kind e' = Held \<and> rm_user e = rm_user e' \<longrightarrow>
        rm_resolution e = rm_resolution e')"

lemma holds_agree_alt:
  "holds_agree t \<longleftrightarrow>
     (\<exists>f. \<forall>e\<in>set (remembered t). rm_kind e = Held \<longrightarrow> rm_resolution e = Uid (f (rm_user e)))"
    (is "_ \<longleftrightarrow> (\<exists>f. ?agrees f)")
proof
  assume h: "holds_agree t"
  define f where "f user = (SOME u. \<exists>e\<in>set (remembered t).
      rm_kind e = Held \<and> rm_user e = user \<and> rm_resolution e = Uid u)" for user
  have "rm_resolution e = Uid (f (rm_user e))"
    if e: "e \<in> set (remembered t)" "rm_kind e = Held" for e
  proof -
    from h e have "\<exists>u. \<exists>e'\<in>set (remembered t).
        rm_kind e' = Held \<and> rm_user e' = rm_user e \<and> rm_resolution e' = Uid u"
      unfolding holds_agree_def by blast
    from someI_ex [OF this] obtain e' where e': "e' \<in> set (remembered t)" "rm_kind e' = Held"
      "rm_user e' = rm_user e" "rm_resolution e' = Uid (f (rm_user e))"
      unfolding f_def by blast
    have "rm_resolution e = rm_resolution e'"
      using h e e'(1-3) unfolding holds_agree_def by (metis (no_types, lifting))
    then show ?thesis by (simp only: e'(4))
  qed
  then show "\<exists>f. ?agrees f" by blast
next
  assume "\<exists>f. ?agrees f"
  then show "holds_agree t" unfolding holds_agree_def by auto
qed

lemma holds_agree_hold:
  assumes "holds_agree t"
  shows "holds_agree (snd (hold t user uid))"
proof -
  from assms obtain f where
    "\<forall>e\<in>set (remembered t). rm_kind e = Held \<longrightarrow> rm_resolution e = Uid (f (rm_user e))"
    by (auto simp: holds_agree_alt)
  then have "\<forall>e\<in>set (remembered (snd (hold t user uid))). rm_kind e = Held \<longrightarrow>
      rm_resolution e = Uid ((if fst (hold t user uid) = Inr (next_id t) then f(user := uid) else f) (rm_user e))"
    by (auto simp: hold_def list_ex_iff)
  then show ?thesis by (simp only: holds_agree_alt) blast
qed

lemma holds_agree_step:
  assumes "holds_agree t"
  shows "holds_agree (account_step op t)"
proof (cases op)
  case (OpRemember user r)
  from assms show ?thesis
    unfolding holds_agree_alt by (auto simp: OpRemember remember_resolution_def)
next
  case (OpDrop i)
  from assms show ?thesis
    unfolding holds_agree_alt by (auto simp: OpDrop drop_remembered_def)
qed (simp add: assms holds_agree_hold)

interpretation accounts: transition_system
  "\<lambda>t. t = \<lparr> remembered = [], next_id = 0 \<rparr>" "\<lambda>t t'. \<exists>op. t' = account_step op t" holds_agree
  by unfold_locales (auto simp: holds_agree_step, simp add: holds_agree_def)

text \<open>The table answers a held name with the held uid, whatever else is registered.\<close>

definition holding :: "accounts \<Rightarrow> u64 \<Rightarrow> string \<Rightarrow> u32 \<Rightarrow> bool" where
  "holding t i user uid \<longleftrightarrow>
     (\<exists>e\<in>set (remembered t). rm_id e = i \<and> rm_kind e = Held \<and> rm_user e = user \<and>
        rm_resolution e = Uid uid)"

lemma holding_resolve:
  assumes "holds_agree t" "holding t i user uid"
  shows "resolve nss t user = Uid uid"
proof -
  let ?P = "\<lambda>e. rm_kind e = Held \<and> rm_user e = user"
  from assms(2) obtain e where e: "e \<in> set (remembered t)" "?P e" "rm_resolution e = Uid uid"
    unfolding holding_def by blast
  have "find ?P (rev (remembered t)) \<noteq> None"
    using e by (auto simp: find_None_iff)
  then obtain e' where e': "find ?P (rev (remembered t)) = Some e'" by blast
  then have "e' \<in> set (remembered t)" and "?P e'"
    by (auto simp: find_Some_iff) (metis length_rev nth_mem set_rev)
  with e assms(1) have "rm_resolution e' = Uid uid"
    unfolding holds_agree_def by metis
  with e' show ?thesis
    by (simp add: resolve_def held_def latest_def)
qed

lemma holding_step:
  "holding t i user uid \<Longrightarrow> op \<noteq> OpDrop i \<Longrightarrow> holding (account_step op t) i user uid"
  by (cases op) (auto simp: holding_def hold_def remember_resolution_def drop_remembered_def)

lemma holding_run:
  assumes "holding t i user uid" "holds_agree t" "OpDrop i \<notin> set ops"
  shows "holding (fold account_step ops t) i user uid \<and> holds_agree (fold account_step ops t)"
  using assms by (induction ops arbitrary: t) (auto simp: holding_step holds_agree_step)

lemma hold_Inr:
  "hold t user uid = (Inr i, t') \<Longrightarrow> holding t' i user uid"
  by (auto simp: hold_def holding_def split: if_splits)

lemma hold_conflict:
  assumes "holding t i user uid" "uid' \<noteq> uid"
  shows "\<exists>msg. hold t user uid' = (Inl (Policy msg), t)"
  using assms by (auto simp: hold_def holding_def list_ex_iff)

section \<open>Ownership of a stored record\<close>

datatype RecordOwner = Unrecorded | Current | OtherAccount u32 "u32 option" | UnknownOwner u32

definition owner_usable :: "RecordOwner \<Rightarrow> bool" where
  "owner_usable ow \<longleftrightarrow> ow = Unrecorded \<or> ow = Current"

definition owner_of :: "u32 option \<Rightarrow> Resolution \<Rightarrow> RecordOwner" where
  "owner_of recorded r = (case recorded of
      None \<Rightarrow> Unrecorded
    | Some rec \<Rightarrow> (case r of
        Uid cur \<Rightarrow> if cur = rec then Current else OtherAccount rec (Some cur)
      | NoAccount \<Rightarrow> OtherAccount rec None
      | UnknownAccount \<Rightarrow> UnknownOwner rec))"

datatype RecordKind = EnrollmentRecord | TemplateKey | SealedSecret | KeyringToken | RecoveryRecord

fun noun :: "RecordKind \<Rightarrow> string" where
  "noun EnrollmentRecord = ''face enrollment''"
| "noun TemplateKey = ''template key''"
| "noun SealedSecret = ''sealed secret''"
| "noun KeyringToken = ''keyring token''"
| "noun RecoveryRecord = ''recovery envelope''"

definition backtick :: "string \<Rightarrow> string" where
  "backtick s = [CHR 0x60] @ s @ [CHR 0x60]"

fun next_step :: "RecordKind \<Rightarrow> string" where
  "next_step EnrollmentRecord = ''run '' @ backtick ''irlume enroll'' @ '' to enroll again''"
| "next_step TemplateKey = ''run '' @ backtick ''irlume enroll'' @ '' to enroll again''"
| "next_step SealedSecret = ''run '' @ backtick ''irlume keyring arm'' @ '' to arm keyring unlock again''"
| "next_step KeyringToken = ''remove it with '' @ backtick ''irlume keyring forget --force''
     @ '', then run '' @ backtick ''irlume keyring arm''"
| "next_step RecoveryRecord = ''run '' @ backtick ''irlume enroll'' @ '' to enroll again, then ''
     @ backtick ''irlume recovery setup'' @ '' to set a new recovery passphrase''"

definition quoted :: "string \<Rightarrow> string" where
  "quoted s = [CHR 0x27] @ s @ [CHR 0x27]"

definition refusal_message :: "string \<Rightarrow> RecordKind \<Rightarrow> RecordOwner \<Rightarrow> string option" where
  "refusal_message user record ow = (case ow of
      Unrecorded \<Rightarrow> None
    | Current \<Rightarrow> None
    | OtherAccount rec (Some cur) \<Rightarrow> Some (''the '' @ noun record @ '' stored for '' @ quoted user
        @ '' was recorded for uid '' @ dec (unat rec) @ '', but '' @ quoted user @ '' is now uid ''
        @ dec (unat cur) @ '', so it is not used; '' @ next_step record)
    | OtherAccount rec None \<Rightarrow> Some (''the '' @ noun record @ '' stored for '' @ quoted user
        @ '' was recorded for uid '' @ dec (unat rec) @ '', but no account named '' @ quoted user
        @ '' exists now, so it is not used'')
    | UnknownOwner rec \<Rightarrow> Some (''the '' @ noun record @ '' stored for '' @ quoted user
        @ '' was recorded for uid '' @ dec (unat rec) @ '', but the current uid of '' @ quoted user
        @ '' could not be resolved, so it is not used''))"

text \<open>One operation's view of an account: it resolves the name at most once.
  The argument \<open>look\<close> of each operation is what \<^const>\<open>resolve\<close> would answer now.\<close>

record Account =
  a_user :: string
  a_resolution :: "Resolution option"
  a_other :: "string option"

definition account_new :: "string \<Rightarrow> Account" where
  "account_new user = \<lparr> a_user = user, a_resolution = None, a_other = None \<rparr>"

definition resolution :: "(string \<Rightarrow> Resolution) \<Rightarrow> Account \<Rightarrow> Resolution \<times> Account" where
  "resolution look a = (case a_resolution a of
      Some r \<Rightarrow> (r, a)
    | None \<Rightarrow> (let r = look (a_user a) in (r, a\<lparr> a_resolution := Some r \<rparr>)))"

definition account_owner ::
    "(string \<Rightarrow> Resolution) \<Rightarrow> u32 option \<Rightarrow> Account \<Rightarrow> RecordOwner \<times> Account" where
  "account_owner look recorded a = (case recorded of
      None \<Rightarrow> (Unrecorded, a)
    | Some rec \<Rightarrow> (let (r, a') = resolution look a in (owner_of (Some rec) r, a')))"

definition require ::
    "(string \<Rightarrow> Resolution) \<Rightarrow> RecordKind \<Rightarrow> u32 option \<Rightarrow> Account \<Rightarrow> unit fallible \<times> Account" where
  "require look record recorded a =
     (let (ow, a') = account_owner look recorded a
      in case refusal_message (a_user a') record ow of
          None \<Rightarrow> (Inr (), a')
        | Some msg \<Rightarrow>
            (Inl (Policy msg),
             case ow of OtherAccount _ _ \<Rightarrow> a'\<lparr> a_other := Some msg \<rparr> | _ \<Rightarrow> a'))"

definition found_other :: "Account \<Rightarrow> bool" where
  "found_other a \<longleftrightarrow> a_other a \<noteq> None"

definition current_uid :: "(string \<Rightarrow> Resolution) \<Rightarrow> Account \<Rightarrow> u32 option \<times> Account" where
  "current_uid look a =
     (let (r, a') = resolution look a in (case r of Uid u \<Rightarrow> Some u | _ \<Rightarrow> None, a'))"

definition changed_owner :: "Account \<Rightarrow> RecordKind \<Rightarrow> u32 \<Rightarrow> u32 option \<Rightarrow> Error" where
  "changed_owner a record rec cur = Policy (case cur of
      Some c \<Rightarrow> ''the '' @ noun record @ '' of '' @ quoted (a_user a) @ '' belongs to uid ''
        @ dec (unat rec) @ '', but '' @ quoted (a_user a) @ '' is now uid '' @ dec (unat c)
        @ '', so nothing was written; '' @ next_step record
    | None \<Rightarrow> ''the '' @ noun record @ '' of '' @ quoted (a_user a) @ '' belongs to uid ''
        @ dec (unat rec) @ '', but no account named '' @ quoted (a_user a)
        @ '' exists now, so nothing was written'')"

definition uid_to_record ::
    "(string \<Rightarrow> Resolution) \<Rightarrow> RecordKind \<Rightarrow> u32 option \<Rightarrow> Account \<Rightarrow>
       u32 option fallible \<times> Account" where
  "uid_to_record look record existing a =
     (let (r, a') = resolution look a
      in (case (r, existing) of
            (Uid uid, None) \<Rightarrow> Inr (Some uid)
          | (Uid uid, Some rec) \<Rightarrow>
              if uid = rec then Inr existing else Inl (changed_owner a' record rec (Some uid))
          | (NoAccount, Some rec) \<Rightarrow> Inl (changed_owner a' record rec None)
          | (NoAccount, None) \<Rightarrow> Inr existing
          | (UnknownAccount, Some _) \<Rightarrow> Inr existing
          | (UnknownAccount, None) \<Rightarrow>
              Inl (Policy (''the current uid of '' @ quoted (a_user a')
                @ '' could not be resolved, so the '' @ noun record
                @ '' was not written; try again when the account resolves'')),
          a'))"

definition absent_if_other :: "Account \<Rightarrow> 'a fallible \<Rightarrow> 'a option fallible" where
  "absent_if_other a result = (case result of
      Inr v \<Rightarrow> Inr (Some v)
    | Inl (Policy msg) \<Rightarrow> (if a_other a = Some msg then Inr None else Inl (Policy msg))
    | Inl e \<Rightarrow> Inl e)"

lemma refusal_message_usable: "refusal_message user record ow = None \<longleftrightarrow> owner_usable ow"
  by (auto simp: refusal_message_def owner_usable_def split: RecordOwner.splits option.splits)

lemma resolution_cached:
  "resolution look a = (r, a') \<Longrightarrow> a_resolution a' = Some r \<and> a_user a' = a_user a \<and> a_other a' = a_other a"
  by (auto simp: resolution_def Let_def split: option.splits)

lemma resolution_again: "a_resolution a = Some r \<Longrightarrow> resolution look a = (r, a)"
  by (simp add: resolution_def)

lemma require_Inr:
  assumes "require look record (Some rec) a = (Inr (), a')"
  shows "a_resolution a' = Some (Uid rec) \<and> a_user a' = a_user a"
proof -
  obtain r b where b: "resolution look a = (r, b)" by fastforce
  with assms have "owner_usable (owner_of (Some rec) r)" and "a' = b"
    by (auto simp: require_def account_owner_def Let_def split: option.splits
        dest: refusal_message_usable [THEN iffD1])
  then show ?thesis using resolution_cached [OF b]
    by (auto simp: owner_usable_def owner_of_def split: Resolution.splits if_splits)
qed

lemma uid_to_record_cached:
  "a_resolution a = Some (Uid u) \<Longrightarrow>
     uid_to_record look record existing a =
       ((case existing of None \<Rightarrow> Inr (Some u)
         | Some rec \<Rightarrow> if u = rec then Inr (Some rec) else Inl (changed_owner a record rec (Some u))), a)"
  by (auto simp: uid_to_record_def resolution_again split: option.splits)

section \<open>Properties\<close>

text \<open>C32: A write never hands a record to another account: a record that carries a uid is
  written with that same uid or not at all, whatever the account database answers. And an
  operation whose load accepted a record for a uid goes on to write for that uid even when
  the database changes its answer in between.\<close>

theorem record_never_rebound:
  "(uid_to_record look rk (Some rec) a = (Inr written, a') \<longrightarrow> written = Some rec) \<and>
   (require early rk (Some rec) a = (Inr (), a1) \<longrightarrow>
      fst (uid_to_record late rk' (Some rec) a1) = Inr (Some rec) \<and>
      fst (uid_to_record late rk' None a1) = Inr (Some rec))"
proof (intro conjI impI)
  assume "uid_to_record look rk (Some rec) a = (Inr written, a')"
  then show "written = Some rec"
    by (auto simp: uid_to_record_def Let_def split: prod.splits Resolution.splits if_splits)
next
  assume "require early rk (Some rec) a = (Inr (), a1)"
  then have "a_resolution a1 = Some (Uid rec)" by (simp add: require_Inr)
  then show "fst (uid_to_record late rk' (Some rec) a1) = Inr (Some rec)"
    and "fst (uid_to_record late rk' None a1) = Inr (Some rec)"
    by (simp_all add: uid_to_record_cached)
qed

theorem record_never_rebound_witness:
  "fst (uid_to_record (\<lambda>_. Uid 1002) EnrollmentRecord None
      (snd (require (\<lambda>_. Uid 1001) EnrollmentRecord (Some 1001) (account_new ''ann'')))) = Inr (Some 1001)"
proof -
  have "require (\<lambda>_. Uid 1001) EnrollmentRecord (Some 1001) (account_new ''ann'') =
      (Inr (), snd (require (\<lambda>_. Uid 1001) EnrollmentRecord (Some 1001) (account_new ''ann'')))"
    by (simp add: require_def account_owner_def resolution_def account_new_def owner_of_def
        refusal_message_def Let_def)
  with record_never_rebound [where rk = EnrollmentRecord and rec = 1001 and early = "\<lambda>_. Uid 1001"
      and late = "\<lambda>_. Uid 1002" and rk' = EnrollmentRecord and a = "account_new ''ann''"]
  show ?thesis by blast
qed

text \<open>A stored record is used exactly when it carries no uid or the uid the account has now;
  a failed lookup never lets a record that carries a uid be used.\<close>

theorem record_used_exactly_for_its_account:
  "fst (require look rk recorded (account_new user)) = Inr () \<longleftrightarrow>
     (case recorded of None \<Rightarrow> True | Some rec \<Rightarrow> look user = Uid rec)"
  by (auto simp: require_def account_owner_def resolution_def account_new_def owner_of_def
      refusal_message_def Let_def split: option.splits Resolution.splits if_splits)

end
