(* ===== verification/Request_Gate.thy ===== *)
theory Request_Gate
  imports Request_Tables Service_Policy Seat_State Account_Holds
begin

text \<open>
  The gate every request passes before any handler runs
  (\<^verbatim>\<open>pregate\<close> in \<^verbatim>\<open>irlume-daemon/src/main.rs\<close>): the user name screen, the intent
  confirmation of privileged face authentication, the privilege the posture table
  declares and the seat rule for requests that turn a camera on; then the uid an
  admitted request holds for the account it names. What the host answers (the
  account database, the machine's consent policy and logind's seat directory) is the
  record \<open>host\<close>; the replies the gate can send are the constructors of \<open>Response\<close>,
  and its effects (the thread's reply facts and the once-per-uid journal notices) are
  the record \<open>gate_state\<close>.
\<close>

section \<open>Peers, replies and effects\<close>

record Peer =
  peer_uid :: u32
  peer_gid :: u32
  peer_pid :: int

record host =
  h_uid_of :: "string \<Rightarrow> u32 option"
  h_seats :: "dirent list option"
  h_consent_required :: bool

datatype OutcomeCause =
    NoFace | LivenessRefused | BelowThreshold | PrivacyShutter | CameraUnavailable
  | NotEnrolledOnThisCamera | SetupUnavailable | Cancelled | TimedOut | MethodNotAvailable
  | PolicyCause | Configuration | RetryThrottled | DaemonStarting | OtherCause | UnknownCause

datatype OperationErrorCode =
    NotAuthorized | OperationFailed | CameraBusy | DeadlineExpired | UnknownCode

datatype EarlyRefusal =
    ErMethodNotAvailable | ErPolicy | ErConfiguration | ErRetryThrottled | ErDaemonStarting

primrec early_cause :: "EarlyRefusal \<Rightarrow> OutcomeCause" where
  "early_cause ErMethodNotAvailable = MethodNotAvailable"
| "early_cause ErPolicy = PolicyCause"
| "early_cause ErConfiguration = Configuration"
| "early_cause ErRetryThrottled = RetryThrottled"
| "early_cause ErDaemonStarting = DaemonStarting"

text \<open>\<open>AuthResult\<close> carries granted, the bits of the score, live, the reason, declined by
  gesture, refused by policy, the situation and the cause.\<close>

datatype Response =
    RError string
  | UnsealUnavailable string
  | OperationError OperationErrorCode bool "OutcomeCause option"
  | AuthResult bool u32 bool string bool bool string "OutcomeCause option"

record ReplyFacts =
  rf_cause :: "OutcomeCause option"
  rf_decided :: bool
  rf_pre_camera :: bool

datatype notice = UnsealRefusedNotice u32 | ResealRefusedNotice u32 | SeatRefusedNotice u32 bool

record gate_state =
  reply_facts :: "ReplyFacts option"
  seen_unseal :: "u32 list"
  seen_reseal :: "u32 list"
  seen_seat :: "(u32 \<times> bool) list"
  journal :: "notice list"

definition note_pre_camera :: "OutcomeCause \<Rightarrow> gate_state \<Rightarrow> gate_state" where
  "note_pre_camera c g =
     g\<lparr> reply_facts := Some \<lparr> rf_cause = Some c, rf_decided = True, rf_pre_camera = True \<rparr> \<rparr>"

definition early_refusal :: "EarlyRefusal \<Rightarrow> string \<Rightarrow> gate_state \<Rightarrow> Response \<times> gate_state" where
  "early_refusal er reason g =
     (AuthResult False 0 False reason False True [] (Some (early_cause er)),
      note_pre_camera (early_cause er) g)"

definition note_unseal_password_refusal :: "u32 \<Rightarrow> gate_state \<Rightarrow> gate_state" where
  "note_unseal_password_refusal uid g =
     (if uid \<in> set (seen_unseal g) then g
      else g\<lparr> seen_unseal := uid # seen_unseal g, journal := journal g @ [UnsealRefusedNotice uid] \<rparr>)"

definition note_reseal_password_refusal :: "u32 \<Rightarrow> gate_state \<Rightarrow> gate_state" where
  "note_reseal_password_refusal uid g =
     (if uid \<in> set (seen_reseal g) then g
      else g\<lparr> seen_reseal := uid # seen_reseal g, journal := journal g @ [ResealRefusedNotice uid] \<rparr>)"

definition note_camera_seat_refusal :: "u32 \<Rightarrow> bool \<Rightarrow> gate_state \<Rightarrow> gate_state" where
  "note_camera_seat_refusal uid unknown g =
     (if (uid, unknown) \<in> set (seen_seat g) then g
      else g\<lparr> seen_seat := (uid, unknown) # seen_seat g,
              journal := journal g @ [SeatRefusedNotice uid unknown] \<rparr>)"

section \<open>The checks\<close>

definition valid_username :: "string \<Rightarrow> bool" where
  "valid_username u \<longleftrightarrow>
     u \<noteq> [] \<and> length u \<le> 64 \<and> hd u \<notin> set ''-.'' \<and>
     list_all (\<lambda>b. is_ascii_alphanumeric (of_char b) \<or> b \<in> set ''_-.$'') u"

definition authorized_for :: "host \<Rightarrow> Peer \<Rightarrow> string \<Rightarrow> bool" where
  "authorized_for h peer target \<longleftrightarrow>
     peer_uid peer = 0 \<or> h_uid_of h target = Some (peer_uid peer)"

definition peer_may_file_for :: "host \<Rightarrow> Request \<Rightarrow> Peer \<Rightarrow> bool" where
  "peer_may_file_for h req peer = (case req of
      UnsealPassword _ _ \<Rightarrow> peer_uid peer = 0
    | _ \<Rightarrow> (case p_user (posture req) of Some user \<Rightarrow> authorized_for h peer user | None \<Rightarrow> False))"

definition not_authorized :: "Request \<Rightarrow> string \<Rightarrow> string \<Rightarrow> Response" where
  "not_authorized req verb user =
     (let prose = RError (''not authorized to '' @ verb @ '' '' @ quoted user)
      in case req of
          ListProfiles _ structured_errors _ \<Rightarrow>
            if structured_errors then OperationError NotAuthorized False None else prose
        | Authenticate structured_errors _ _ _ \<Rightarrow>
            if structured_errors then OperationError NotAuthorized False (Some PolicyCause) else prose
        | _ \<Rightarrow> prose)"

definition requires_confirmation :: "string option \<Rightarrow> bool" where
  "requires_confirmation service =
     (case Option.bind service classify_service of
        None \<Rightarrow> False | Some k \<Rightarrow> requires_face_intent_confirmation k)"

definition has_trusted_confirmation :: "host \<Rightarrow> Peer \<Rightarrow> IntentAttestation option \<Rightarrow> bool" where
  "has_trusted_confirmation h peer ic \<longleftrightarrow>
     peer_uid peer = 0 \<and>
     (case ic of
        Some PamConversation \<Rightarrow> True
      | Some PolicyWaived \<Rightarrow> \<not> h_consent_required h
      | None \<Rightarrow> False)"

definition intent_confirmation_gate ::
    "host \<Rightarrow> Request \<Rightarrow> Peer \<Rightarrow> gate_state \<Rightarrow> Response option \<times> gate_state" where
  "intent_confirmation_gate h req peer g = (case req of
      Authenticate _ _ service intent_confirmation \<Rightarrow>
        (let valid = (if requires_confirmation service
                      then has_trusted_confirmation h peer intent_confirmation
                      else intent_confirmation = None)
         in if valid then (None, g)
            else apfst Some (early_refusal ErPolicy
              ''privileged face authentication requires PAM conversation confirmation'' g))
    | _ \<Rightarrow> (None, g))"

definition CAMERA_SEAT_REFUSED :: string where
  "CAMERA_SEAT_REFUSED = ''irlumed turns the camera on for an account'' @ [CHR 0x27]
     @ ''s own request only while that account holds the active local session on a seat; run this from that session, or as root''"

definition CAMERA_SEAT_UNKNOWN :: string where
  "CAMERA_SEAT_UNKNOWN = ''irlumed turns the camera on for an account'' @ [CHR 0x27]
     @ ''s own request only while that account holds the active local session on a seat, and the seat state could not be read; run this as root''"

definition camera_seat_gate ::
    "host \<Rightarrow> Request \<Rightarrow> CameraUse \<Rightarrow> Peer \<Rightarrow> gate_state \<Rightarrow> Response option \<times> gate_state" where
  "camera_seat_gate h req cam peer g =
     (if cam = NoCapture \<or> peer_uid peer = 0 then (None, g)
      else let held = holds_an_active_seat (h_seats h) (peer_uid peer)
      in if held = Some True then (None, g)
      else let unknown = (held = None);
               g' = note_camera_seat_refusal (peer_uid peer) unknown g;
               reason = (if unknown then CAMERA_SEAT_UNKNOWN else CAMERA_SEAT_REFUSED)
      in case req of
          Authenticate structured_errors _ _ _ \<Rightarrow>
            if structured_errors
            then (Some (OperationError NotAuthorized False (Some PolicyCause)), g')
            else apfst Some (early_refusal ErPolicy reason g')
        | _ \<Rightarrow> (Some (RError reason), g'))"

definition MAX_SCANS_PER_PROFILE :: nat where
  "MAX_SCANS_PER_PROFILE = 30"

definition guided_enrollment_invalid :: "Request \<Rightarrow> bool" where
  "guided_enrollment_invalid req = (case req of
      EnrollmentSession _ profile scans improve \<Rightarrow>
        \<not> (1 \<le> scans \<and> scans \<le> MAX_SCANS_PER_PROFILE) \<or>
        (improve \<and> (case profile of None \<Rightarrow> True | Some name \<Rightarrow> name = []))
    | _ \<Rightarrow> False)"

definition requires_root :: "string \<Rightarrow> Peer \<Rightarrow> string" where
  "requires_root command peer =
     command @ '' requires root (peer uid '' @ dec (unat (peer_uid peer)) @ '')''"

definition root_only_refusal ::
    "Request \<Rightarrow> string \<Rightarrow> Peer \<Rightarrow> gate_state \<Rightarrow> Response option \<times> gate_state" where
  "root_only_refusal req command peer g = (case req of
      UnsealPassword _ _ \<Rightarrow>
        (Some (UnsealUnavailable (requires_root command peer)),
         note_unseal_password_refusal (peer_uid peer) g)
    | ResealPassword _ _ _ _ \<Rightarrow>
        (Some (RError (requires_root command peer)),
         note_reseal_password_refusal (peer_uid peer) g)
    | _ \<Rightarrow> (Some (RError (requires_root command peer)), g))"

definition pregate :: "host \<Rightarrow> Request \<Rightarrow> Peer \<Rightarrow> gate_state \<Rightarrow> Response option \<times> gate_state" where
  "pregate h req peer g =
     (if guided_enrollment_invalid req
      then (Some (RError ''invalid guided enrollment scan count or target''), g)
      else let p = posture req
      in if (case p_user p of Some u \<Rightarrow> \<not> valid_username u | None \<Rightarrow> False)
      then (Some (RError ''invalid username''), g)
      else case intent_confirmation_gate h req peer g of
          (Some response, g') \<Rightarrow> (Some response, g')
        | (None, g) \<Rightarrow>
      (case privilege p of
          AnyPeer \<Rightarrow> camera_seat_gate h req (camera p) peer g
        | RootOrTarget verb \<Rightarrow> (case p_user p of
              None \<Rightarrow> (Some (RError ''request names no account to authorize against''), g)
            | Some user \<Rightarrow>
                if authorized_for h peer user then camera_seat_gate h req (camera p) peer g
                else (Some (not_authorized req verb user), g))
        | RootOnly command \<Rightarrow>
            if peer_uid peer = 0 then camera_seat_gate h req (camera p) peer g
            else root_only_refusal req command peer g))"

section \<open>When a request is admitted\<close>

definition privilege_met :: "host \<Rightarrow> Request \<Rightarrow> Peer \<Rightarrow> bool" where
  "privilege_met h req peer = (case privilege (posture req) of
      AnyPeer \<Rightarrow> True
    | RootOrTarget _ \<Rightarrow>
        (case p_user (posture req) of Some u \<Rightarrow> authorized_for h peer u | None \<Rightarrow> False)
    | RootOnly _ \<Rightarrow> peer_uid peer = 0)"

definition intent_met :: "host \<Rightarrow> Request \<Rightarrow> Peer \<Rightarrow> bool" where
  "intent_met h req peer = (case req of
      Authenticate _ _ service ic \<Rightarrow>
        if requires_confirmation service then has_trusted_confirmation h peer ic else ic = None
    | _ \<Rightarrow> True)"

definition seat_met :: "host \<Rightarrow> Request \<Rightarrow> Peer \<Rightarrow> bool" where
  "seat_met h req peer \<longleftrightarrow>
     camera (posture req) = NoCapture \<or> peer_uid peer = 0 \<or>
     holds_an_active_seat (h_seats h) (peer_uid peer) = Some True"

definition name_met :: "Request \<Rightarrow> bool" where
  "name_met req = (case p_user (posture req) of Some u \<Rightarrow> valid_username u | None \<Rightarrow> True)"

lemma intent_confirmation_gate_None:
  "fst (intent_confirmation_gate h req peer g) = None \<longleftrightarrow> intent_met h req peer"
  by (cases req) (simp_all add: intent_confirmation_gate_def intent_met_def early_refusal_def)

lemma intent_confirmation_gate_None_state:
  "fst (intent_confirmation_gate h req peer g) = None \<Longrightarrow>
     snd (intent_confirmation_gate h req peer g) = g"
  by (cases req) (simp_all add: intent_confirmation_gate_def early_refusal_def Let_def split: if_splits)

lemma camera_seat_gate_None:
  "fst (camera_seat_gate h req (camera (posture req)) peer g) = None \<longleftrightarrow> seat_met h req peer"
proof (cases "seat_met h req peer")
  case True
  then show ?thesis by (auto simp: camera_seat_gate_def seat_met_def)
next
  case False
  then show ?thesis
    by (cases req) (auto simp: camera_seat_gate_def seat_met_def early_refusal_def Let_def)
qed

lemma camera_seat_gate_None_state:
  "fst (camera_seat_gate h req cam peer g) = None \<Longrightarrow> camera_seat_gate h req cam peer g = (None, g)"
  by (cases req) (auto simp: camera_seat_gate_def early_refusal_def Let_def split: if_splits)

lemma pregate_None:
  "fst (pregate h req peer g) = None \<longleftrightarrow>
     \<not> guided_enrollment_invalid req \<and> name_met req \<and> intent_met h req peer \<and>
     privilege_met h req peer \<and> seat_met h req peer"
proof -
  let ?base = "\<not> guided_enrollment_invalid req \<and> name_met req"
  let ?rest = "fst (camera_seat_gate h req (camera (posture req)) peer g) = None"
  have name: "name_met req \<longleftrightarrow>
      \<not> (case p_user (posture req) of Some u \<Rightarrow> \<not> valid_username u | None \<Rightarrow> False)"
    by (simp add: name_met_def split: option.splits)
  have unseal: "fst (root_only_refusal req c peer g) \<noteq> None" for c
    by (cases req) (simp_all add: root_only_refusal_def)
  obtain ir g' where ir: "intent_confirmation_gate h req peer g = (ir, g')" by fastforce
  show ?thesis
  proof (cases "?base \<and> ir = None")
    case False
    then show ?thesis
      using ir intent_confirmation_gate_None [of h req peer g] name
      by (auto simp: pregate_def Let_def)
  next
    case True
    with ir intent_confirmation_gate_None_state [of h req peer g] have "g' = g" by simp
    then have "fst (pregate h req peer g) = None \<longleftrightarrow> privilege_met h req peer \<and> ?rest"
      using True ir name unseal
      by (auto simp: pregate_def Let_def privilege_met_def split: Privilege.splits option.splits)
    then show ?thesis
      using True ir intent_confirmation_gate_None [of h req peer g]
      by (simp add: camera_seat_gate_None)
  qed
qed

text \<open>The fields the once-per-uid notices keep: nothing is in the journal twice.\<close>

definition gate_inv :: "gate_state \<Rightarrow> bool" where
  "gate_inv g \<longleftrightarrow>
     distinct (journal g) \<and>
     set (journal g) = UnsealRefusedNotice ` set (seen_unseal g)
       \<union> ResealRefusedNotice ` set (seen_reseal g) \<union> case_prod SeatRefusedNotice ` set (seen_seat g)"

lemma gate_inv_notes:
  assumes "gate_inv g"
  shows "gate_inv (note_unseal_password_refusal uid g)"
    and "gate_inv (note_reseal_password_refusal uid g)"
    and "gate_inv (note_camera_seat_refusal uid unknown g)"
    and "gate_inv (note_pre_camera c g)"
  using assms
  by (auto simp: gate_inv_def note_unseal_password_refusal_def note_reseal_password_refusal_def
      note_camera_seat_refusal_def note_pre_camera_def)

lemma gate_inv_seat: "gate_inv g \<Longrightarrow> gate_inv (snd (camera_seat_gate h req cam peer g))"
  by (cases req) (simp_all add: camera_seat_gate_def early_refusal_def Let_def gate_inv_notes)

lemma gate_inv_intent: "gate_inv g \<Longrightarrow> gate_inv (snd (intent_confirmation_gate h req peer g))"
  by (cases req) (simp_all add: intent_confirmation_gate_def early_refusal_def Let_def gate_inv_notes)

lemma gate_inv_pregate:
  assumes "gate_inv g"
  shows "gate_inv (snd (pregate h req peer g))"
proof -
  obtain ir g' where ir: "intent_confirmation_gate h req peer g = (ir, g')" by fastforce
  with gate_inv_intent [OF assms, of h req peer] have g': "gate_inv g'" by simp
  have root: "gate_inv (snd (root_only_refusal req c peer g'))" for c
    using g' by (cases req) (simp_all add: root_only_refusal_def gate_inv_notes)
  show ?thesis
    using assms g' ir root gate_inv_seat [OF g']
    by (simp add: pregate_def Let_def split: Privilege.split option.split)
qed

definition gate_step :: "gate_state \<Rightarrow> gate_state \<Rightarrow> bool" where
  "gate_step g g' \<longleftrightarrow> (\<exists>h req peer. g' = snd (pregate h req peer g))"

interpretation gate: transition_system
  "\<lambda>g. journal g = [] \<and> seen_unseal g = [] \<and> seen_reseal g = [] \<and> seen_seat g = []"
  gate_step gate_inv
  by unfold_locales (simp add: gate_inv_def, auto simp: gate_step_def gate_inv_pregate)

section \<open>The uid an admitted request holds\<close>

definition gate_account_uid ::
    "accounts \<Rightarrow> Request \<Rightarrow> Peer \<Rightarrow> u64 option fallible \<times> accounts" where
  "gate_account_uid t req peer =
     (case (privilege (posture req), p_user (posture req)) of
        (RootOrTarget _, Some user) \<Rightarrow>
          if peer_uid peer \<noteq> 0
          then apfst (map_sum id Some) (hold t user (peer_uid peer))
          else (Inr None, t)
      | _ \<Rightarrow> (Inr None, t))"

definition diagnostic_owner :: "(string \<Rightarrow> Resolution) \<Rightarrow> accounts \<Rightarrow> Request \<Rightarrow> Peer \<Rightarrow> Owner" where
  "diagnostic_owner nss t req peer =
     (if peer_uid peer \<noteq> 0 then OwnerAccount (peer_uid peer)
      else case p_user (posture req) of
          None \<Rightarrow> OwnerDaemon
        | Some user \<Rightarrow>
            if \<not> valid_username user then OwnerUnresolved
            else (case resolve_fresh nss t user of
                Uid uid \<Rightarrow> OwnerAccount uid
              | NoAccount \<Rightarrow> OwnerUnresolved
              | UnknownAccount \<Rightarrow> OwnerUnresolved))"

definition request_account_uid :: "Peer \<Rightarrow> Owner \<Rightarrow> u32 option" where
  "request_account_uid peer ow =
     (if peer_uid peer \<noteq> 0 then Some (peer_uid peer)
      else case ow of OwnerAccount uid \<Rightarrow> Some uid | _ \<Rightarrow> None)"

definition worker_account_uid ::
    "accounts \<Rightarrow> Request \<Rightarrow> Peer \<Rightarrow> Owner \<Rightarrow> u64 option fallible \<times> accounts" where
  "worker_account_uid t req peer ow =
     (if peer_uid peer \<noteq> 0 then gate_account_uid t req peer
      else case (p_user (posture req), request_account_uid peer ow) of
          (Some user, Some uid) \<Rightarrow> apfst (map_sum id Some) (hold t user uid)
        | _ \<Rightarrow> (case req of
              UnsealKeyring _ _ _ _ \<Rightarrow>
                (Inl (Policy ''the keyring account did not resolve when this request was registered, so nothing was released; retry when the account resolves''), t)
            | _ \<Rightarrow> (Inr None, t)))"

definition refuse_moved_account ::
    "(string \<Rightarrow> Resolution) \<Rightarrow> accounts \<Rightarrow> string \<Rightarrow> Response option" where
  "refuse_moved_account nss t user =
     (if resolve nss t user = resolve_fresh nss t user then None
      else Some (RError (quoted user @ '' now resolves to another account than the one this request was made for, so its password was not checked and nothing was changed; try again'')))"

primrec error_text :: "Error \<Rightarrow> string" where
  "error_text (Policy s) = ''policy: '' @ s"
| "error_text (OtherError s) = s"

definition held_account_reply :: "Request \<Rightarrow> Error \<Rightarrow> Response" where
  "held_account_reply req e = (case req of
      ListProfiles _ structured_errors _ \<Rightarrow>
        if structured_errors then OperationError OperationFailed True None else RError (error_text e)
    | _ \<Rightarrow> RError (error_text e))"

definition held_account_refusal :: "Request \<Rightarrow> Error \<Rightarrow> gate_state \<Rightarrow> Response \<times> gate_state" where
  "held_account_refusal req e g = (case req of
      Authenticate _ _ _ _ \<Rightarrow> early_refusal ErPolicy (error_text e) g
    | _ \<Rightarrow> (held_account_reply req e, note_pre_camera PolicyCause g))"

lemma map_hold_Inr:
  "apfst (map_sum id Some) (hold t user uid) = (Inr (Some i), t') \<Longrightarrow> hold t user uid = (Inr i, t')"
  by (cases "hold t user uid") (auto simp: map_sum_def split: sum.splits)

lemma gate_account_uid_Some:
  assumes "gate_account_uid t req peer = (Inr (Some i), t')"
  shows "\<exists>user verb. privilege (posture req) = RootOrTarget verb \<and> p_user (posture req) = Some user \<and>
           peer_uid peer \<noteq> 0 \<and> hold t user (peer_uid peer) = (Inr i, t')"
  using assms
  by (auto simp: gate_account_uid_def map_hold_Inr split: Privilege.splits option.splits if_splits)

lemma requires_confirmation_iff:
  "requires_confirmation service \<longleftrightarrow> (\<exists>s. service = Some s \<and>
     (classify_service s = Some Elevation \<or> classify_service s = Some AppConsent))"
proof -
  have "requires_face_intent_confirmation k \<longleftrightarrow> k = Elevation \<or> k = AppConsent" for k
    by (cases k) simp_all
  then show ?thesis
    by (cases service) (auto simp: requires_confirmation_def split: option.splits)
qed

text \<open>Which replies each check can give.\<close>

definition asked_for_types :: "Request \<Rightarrow> bool" where
  "asked_for_types req = (case req of
      Authenticate structured_errors _ _ _ \<Rightarrow> structured_errors
    | ListProfiles _ structured_errors _ \<Rightarrow> structured_errors
    | _ \<Rightarrow> False)"

definition typed :: "Response option \<Rightarrow> bool" where
  "typed r = (case r of Some (OperationError _ _ _) \<Rightarrow> True | _ \<Rightarrow> False)"

lemma typed_checks:
  "\<not> typed (fst (intent_confirmation_gate h req peer g))"
  "\<not> typed (fst (root_only_refusal req command peer g))"
  "typed (fst (camera_seat_gate h req cam peer g)) \<Longrightarrow> asked_for_types req"
  "typed (Some (not_authorized req verb user)) \<Longrightarrow> asked_for_types req"
  by (cases req; simp add: intent_confirmation_gate_def early_refusal_def root_only_refusal_def
      camera_seat_gate_def not_authorized_def typed_def asked_for_types_def Let_def split: if_splits)+

lemma typed_pregate:
  assumes "typed (fst (pregate h req peer g))"
  shows "asked_for_types req"
proof -
  obtain ir g' where ir: "intent_confirmation_gate h req peer g = (ir, g')" by fastforce
  with typed_checks(1) [of h req peer g] have "\<not> typed ir" by simp
  moreover have "\<not> typed (Some (RError m))" for m by (simp add: typed_def)
  ultimately show ?thesis
    using assms ir typed_checks(2-4)
    by (auto simp: pregate_def Let_def split: if_splits option.splits Privilege.splits)
qed

section \<open>Properties\<close>

text \<open>C2: A peer that is not root is only ever served for itself. When the gate admits its
  request, the request is none of the root-only ones (so no sealed credential is released
  to it), an account the request is privileged to act for is one the account database maps
  to the peer's own uid, and a camera is turned on only while a readable logind seat file
  names the peer's uid as that seat's active user.\<close>

theorem non_root_is_served_for_itself:
  assumes "fst (pregate h req peer g) = None" and "peer_uid peer \<noteq> 0"
  shows "(\<forall>command. privilege (posture req) \<noteq> RootOnly command) \<and>
         (\<forall>verb. privilege (posture req) = RootOrTarget verb \<longrightarrow>
            (\<exists>u. p_user (posture req) = Some u \<and> h_uid_of h u = Some (peer_uid peer))) \<and>
         (camera (posture req) = Captures \<longrightarrow>
            (\<exists>es facts. h_seats h = Some es \<and> FileText facts \<in> set es \<and>
               seat_is_held_by facts (peer_uid peer)))"
proof -
  from assms(1) have met: "privilege_met h req peer" "seat_met h req peer"
    by (simp_all add: pregate_None)
  with assms(2) show ?thesis
    by (auto simp: privilege_met_def seat_met_def authorized_for_def holds_an_active_seat_True
        split: option.splits Privilege.splits)
qed

definition seated_host :: host where
  "seated_host = \<lparr> h_uid_of = (\<lambda>u. if u = ''ann'' then Some 1000 else None),
     h_seats = Some [FileText (line_text [''IS_SEAT0=1'', ''ACTIVE_UID=1000''])],
     h_consent_required = True \<rparr>"

definition ann_peer :: Peer where
  "ann_peer = \<lparr> peer_uid = 1000, peer_gid = 1000, peer_pid = 77 \<rparr>"

definition quiet_gate :: gate_state where
  "quiet_gate = \<lparr> reply_facts = None, seen_unseal = [], seen_reseal = [], seen_seat = [], journal = [] \<rparr>"

definition ann_request :: Request where
  "ann_request = Authenticate True ''ann'' (Some ''kde'') None"

lemma ann_seated: "seat_is_held_by (line_text [''IS_SEAT0=1'', ''ACTIVE_UID=1000'']) 1000"
  by (simp add: seat_is_held_by_def line_text_def lines_def strip_cr_def strip_prefix_def
      parse_u32_def rust_str)

lemma ann_admitted: "fst (pregate seated_host ann_request ann_peer g) = None"
proof -
  have "classify_service ''kde'' = Some ScreenUnlock"
    by (simp add: classify_service_normal normal_name_def rust_str SERVICES_def)
  moreover have "holds_an_active_seat (h_seats seated_host) 1000 = Some True"
    by (auto simp: holds_an_active_seat_True seated_host_def ann_seated)
  ultimately show ?thesis
    by (simp add: pregate_None ann_request_def ann_peer_def seated_host_def guided_enrollment_invalid_def
        name_met_def valid_username_def is_ascii_alphanumeric_def intent_met_def
        requires_confirmation_def privilege_met_def authorized_for_def seat_met_def)
qed

theorem non_root_is_served_for_itself_witness:
  "h_uid_of seated_host ''ann'' = Some 1000"
  using non_root_is_served_for_itself [OF ann_admitted]
  by (simp add: ann_request_def ann_peer_def)

text \<open>The name of an admitted request can be put into a state path: it is a non-empty file
  name of at most 64 bytes with no slash and no NUL, and it does not begin with a dot or a
  dash, so it is neither a dot entry nor read as an option.\<close>

theorem admitted_name_stays_in_its_directory:
  assumes "fst (pregate h req peer g) = None" and "p_user (posture req) = Some u"
  shows "u \<noteq> [] \<and> length u \<le> 64 \<and> CHR 0x2F \<notin> set u \<and> CHR 0x00 \<notin> set u \<and>
         hd u \<noteq> CHR 0x2E \<and> hd u \<noteq> CHR 0x2D"
proof -
  from assms have "valid_username u" by (simp add: pregate_None name_met_def)
  then show ?thesis
    by (auto simp: valid_username_def is_ascii_alphanumeric_def list_all_iff Let_def)
qed

theorem admitted_name_stays_in_its_directory_witness:
  "CHR 0x2F \<notin> set ''ann''"
  using admitted_name_stays_in_its_directory [OF ann_admitted, of "''ann''"]
  by (simp add: ann_request_def)

text \<open>C7: A face authentication for a privileged service (sudo, su, polkit, ...) is admitted only
  from root and only with a confirmation: the PAM conversation itself, or a waiver that the
  machine's own consent policy agrees with. For every other service an offered attestation
  is refused.\<close>

theorem privileged_face_needs_confirmation:
  assumes "fst (pregate h (Authenticate structured user service ic) peer g) = None"
  shows "if (\<exists>s. service = Some s \<and>
               (classify_service s = Some Elevation \<or> classify_service s = Some AppConsent))
         then peer_uid peer = 0 \<and>
              (ic = Some PamConversation \<or> (ic = Some PolicyWaived \<and> \<not> h_consent_required h))
         else ic = None"
proof -
  have req: "requires_confirmation service \<longleftrightarrow> (\<exists>s. service = Some s \<and>
      (classify_service s = Some Elevation \<or> classify_service s = Some AppConsent))"
    by (simp add: requires_confirmation_iff)
  from assms have "intent_met h (Authenticate structured user service ic) peer"
    by (simp add: pregate_None)
  then show ?thesis
    unfolding req [symmetric]
    by (auto simp: intent_met_def has_trusted_confirmation_def
        split: if_splits option.splits IntentAttestation.splits)
qed

definition root_peer :: Peer where
  "root_peer = \<lparr> peer_uid = 0, peer_gid = 0, peer_pid = 1 \<rparr>"

definition sudo_request :: "IntentAttestation option \<Rightarrow> Request" where
  "sudo_request ic = Authenticate False ''ann'' (Some ''sudo'') ic"

lemma classify_sudo: "classify_service ''sudo'' = Some Elevation"
  by (simp add: classify_service_normal normal_name_def rust_str SERVICES_def)

lemma sudo_admitted:
  "fst (pregate seated_host (sudo_request (Some PamConversation)) root_peer g) = None"
  by (simp add: pregate_None sudo_request_def root_peer_def guided_enrollment_invalid_def
      name_met_def valid_username_def is_ascii_alphanumeric_def intent_met_def
      requires_confirmation_def classify_sudo has_trusted_confirmation_def
      privilege_met_def authorized_for_def seat_met_def)

theorem privileged_face_needs_confirmation_witness:
  "peer_uid root_peer = 0 \<and> classify_service ''sudo'' = Some Elevation"
proof -
  have "\<exists>s. Some ''sudo'' = Some s \<and>
      (classify_service s = Some Elevation \<or> classify_service s = Some AppConsent)"
    using classify_sudo by blast
  then show ?thesis
    using privileged_face_needs_confirmation [OF sudo_admitted [unfolded sudo_request_def]] classify_sudo
    by metis
qed

text \<open>Typed errors go only to clients that asked for them: the gate answers with the newer
  error shape only a request that set \<^verbatim>\<open>structured_errors\<close>, so an older client never
  gets a reply it cannot decode.\<close>

theorem typed_errors_only_when_asked:
  assumes "fst (pregate h req peer g) = Some (OperationError code retryable cause)"
  shows "(\<exists>user service ic. req = Authenticate True user service ic) \<or>
         (\<exists>user handles. req = ListProfiles user True handles)"
proof -
  have "typed (fst (pregate h req peer g))" using assms by (simp add: typed_def)
  then have "asked_for_types req" by (rule typed_pregate)
  then show ?thesis by (cases req) (simp_all add: asked_for_types_def)
qed

theorem typed_errors_only_when_asked_witness:
  "\<exists>user service ic. Authenticate True ''bob'' None None = Authenticate True user service ic"
proof -
  have "fst (pregate seated_host (Authenticate True ''bob'' None None) ann_peer
      quiet_gate) = Some (OperationError NotAuthorized False (Some PolicyCause))"
    by (simp add: pregate_def guided_enrollment_invalid_def valid_username_def
        is_ascii_alphanumeric_def intent_confirmation_gate_def requires_confirmation_def
        authorized_for_def seated_host_def ann_peer_def not_authorized_def Let_def)
  from typed_errors_only_when_asked [OF this] show ?thesis by simp
qed

text \<open>However many requests are refused, the journal explains each account's refusals once
  per cause: no notice is written twice in the daemon's lifetime.\<close>

theorem refusal_notices_written_once:
  assumes "journal g = []" "seen_unseal g = []" "seen_reseal g = []" "seen_seat g = []"
    and "rtranclp gate_step g g'"
  shows "distinct (journal g')"
  using gate.inv_reachable [of g g'] assms by (simp add: gate_inv_def)

definition refuse_once :: "gate_state \<Rightarrow> gate_state" where
  "refuse_once g = snd (pregate seated_host (UnsealPassword ''ann'' None) ann_peer g)"

theorem refusal_notices_written_once_witness: "distinct (journal (refuse_once (refuse_once quiet_gate)))"
proof (rule refusal_notices_written_once)
  have step: "gate_step g (refuse_once g)" for g
    unfolding refuse_once_def gate_step_def by blast
  from r_into_rtranclp [of gate_step, OF step] step
  show "rtranclp gate_step quiet_gate (refuse_once (refuse_once quiet_gate))"
    by (rule rtranclp.rtrancl_into_rtrancl)
qed (simp_all add: quiet_gate_def)

end
