(* ===== verification/Connection_Slots.thy ===== *)
theory Connection_Slots
  imports Prelude
begin

text \<open>
  The bounded pools of the daemon: the connection slots taken at accept
  (\<^verbatim>\<open>connection_slots.rs\<close>), the pending OS approvals (\<^verbatim>\<open>Pending\<close> in
  \<^verbatim>\<open>operation_authorization.rs\<close>) and the pending password checks
  (\<^verbatim>\<open>Slot\<close> in \<^verbatim>\<open>retry_recovery.rs\<close>). All three keep one contract, the locale
  \<open>slot_pool\<close>: a slot is taken or refused, given back when its guard drops, never
  more than the limit are out, and a pool whose slots have all come back is as new.
\<close>

section \<open>The contract of a slot pool\<close>

text \<open>One step of a pool shared by any number of threads: a slot is taken, a request
  for one is refused, or a slot that is out is given back. The multiset holds the
  keys of the slots that are out.\<close>

inductive pool_step ::
    "('s \<Rightarrow> 'k \<Rightarrow> bool \<times> 's) \<Rightarrow> ('s \<Rightarrow> 'k \<Rightarrow> 's) \<Rightarrow> 's \<times> 'k multiset \<Rightarrow> 's \<times> 'k multiset \<Rightarrow> bool"
  for acquire release where
  taken: "acquire s k = (True, t) \<Longrightarrow> pool_step acquire release (s, M) (t, add_mset k M)"
| refused: "acquire s k = (False, t) \<Longrightarrow> pool_step acquire release (s, M) (t, M)"
| released: "k \<in># M \<Longrightarrow> pool_step acquire release (s, M) (release s k, M - {#k#})"

inductive_cases pool_stepE: "pool_step acquire release p q"

locale slot_pool =
  fixes acquire :: "'s \<Rightarrow> 'k \<Rightarrow> bool \<times> 's"
    and release :: "'s \<Rightarrow> 'k \<Rightarrow> 's"
    and empty :: 's
    and out :: "'s \<Rightarrow> 'k multiset \<Rightarrow> bool"
    and limit :: nat
  assumes out_empty: "out s {#} \<longleftrightarrow> s = empty"
    and out_taken: "out s M \<Longrightarrow> acquire s k = (True, t) \<Longrightarrow> out t (add_mset k M)"
    and out_refused: "out s M \<Longrightarrow> acquire s k = (False, t) \<Longrightarrow> t = s"
    and out_released: "out s M \<Longrightarrow> k \<in># M \<Longrightarrow> out (release s k) (M - {#k#})"
    and out_limit: "out s M \<Longrightarrow> size M \<le> limit"

sublocale slot_pool \<subseteq> pool: transition_system
  "\<lambda>p. p = (empty, {#})" "pool_step acquire release" "\<lambda>(s, M). out s M"
  by unfold_locales
    (auto simp: out_empty elim!: pool_stepE intro: out_taken out_released dest: out_refused)

context slot_pool
begin

text \<open>Whatever the threads do, the pool describes exactly the slots that are out, they
  stay within the limit, and once all are back the pool is the empty one.\<close>

lemma pool_describes:
  assumes "rtranclp (pool_step acquire release) (empty, {#}) (s, M)"
  shows "out s M" and "size M \<le> limit" and "M = {#} \<Longrightarrow> s = empty"
proof -
  show "out s M" using pool.inv_reachable [OF refl assms] by simp
  then show "size M \<le> limit" and "M = {#} \<Longrightarrow> s = empty"
    using out_limit out_empty by auto
qed

lemma pool_refusal_keeps:
  assumes "rtranclp (pool_step acquire release) (empty, {#}) (s, M)"
    and "acquire s k = (False, t)"
  shows "t = s"
  using out_refused [OF pool_describes(1) [OF assms(1)] assms(2)] .

end

section \<open>Connection slots\<close>

definition TOTAL :: nat where "TOTAL = 64"
definition ROOT_RESERVED :: nat where "ROOT_RESERVED = 16"
definition PER_ACCOUNT :: nat where "PER_ACCOUNT = 12"

datatype SlotRefusal = PoolFull | AccountFull

primrec slot_refusal_message :: "SlotRefusal \<Rightarrow> string" where
  "slot_refusal_message PoolFull = ''daemon busy: too many open connections''"
| "slot_refusal_message AccountFull = ''daemon busy: too many open connections from this user''"

record HeldSlots =
  held_all :: nat
  by_uid :: "u32 \<rightharpoonup> nat"

record ConnectionSlots =
  cs_total :: nat
  cs_root_reserved :: nat
  cs_per_account :: nat
  cs_held :: HeldSlots

definition slots_with_limits :: "nat \<Rightarrow> nat \<Rightarrow> nat \<Rightarrow> ConnectionSlots" where
  "slots_with_limits pool reserved per_account =
     \<lparr> cs_total = pool, cs_root_reserved = min reserved pool, cs_per_account = per_account,
       cs_held = \<lparr> held_all = 0, by_uid = (\<lambda>_. None) \<rparr> \<rparr>"

definition slots_new :: ConnectionSlots where
  "slots_new = slots_with_limits TOTAL ROOT_RESERVED PER_ACCOUNT"

definition slot_account :: "u32 option \<Rightarrow> u32 option" where
  "slot_account uid = (case uid of None \<Rightarrow> None | Some u \<Rightarrow> if u = 0 then None else Some u)"

text \<open>\<^verbatim>\<open>take\<close>; the slot it returns is the account the guard will give back. A uid
  that is refused for its own limit leaves the entry the lookup made.\<close>

definition slots_take ::
    "ConnectionSlots \<Rightarrow> u32 option \<Rightarrow> (SlotRefusal + u32 option) \<times> ConnectionSlots" where
  "slots_take s uid =
     (let held = cs_held s;
          ceiling = (if uid = Some 0 then cs_total s else cs_total s - cs_root_reserved s)
      in if held_all held \<ge> ceiling then (Inl PoolFull, s)
      else case slot_account uid of
          None \<Rightarrow> (Inr None, s\<lparr> cs_held := held\<lparr> held_all := held_all held + 1 \<rparr> \<rparr>)
        | Some u \<Rightarrow>
            (let n = (case by_uid held u of None \<Rightarrow> 0 | Some n \<Rightarrow> n)
             in if n \<ge> cs_per_account s
                then (Inl AccountFull, s\<lparr> cs_held := held\<lparr> by_uid := (by_uid held)(u \<mapsto> n) \<rparr> \<rparr>)
                else (Inr (Some u),
                      s\<lparr> cs_held := held\<lparr> held_all := held_all held + 1,
                                          by_uid := (by_uid held)(u \<mapsto> n + 1) \<rparr> \<rparr>)))"

definition slots_drop :: "u32 option \<Rightarrow> ConnectionSlots \<Rightarrow> ConnectionSlots" where
  "slots_drop account s =
     (let held = (cs_held s)\<lparr> held_all := held_all (cs_held s) - 1 \<rparr>
      in s\<lparr> cs_held := (case account of
            None \<Rightarrow> held
          | Some u \<Rightarrow> (case by_uid held u of
              None \<Rightarrow> held
            | Some n \<Rightarrow> held\<lparr> by_uid := (by_uid held)(u := if n - 1 = 0 then None else Some (n - 1)) \<rparr>)) \<rparr>)"

text \<open>What the counters mean: the keys of the slots that are out are the uids the
  peers had when they took them.\<close>

definition non_root :: "u32 option multiset \<Rightarrow> u32 option multiset" where
  "non_root M = filter_mset (\<lambda>k. k \<noteq> Some 0) M"

definition slot_counts :: "u32 option multiset \<Rightarrow> u32 \<rightharpoonup> nat" where
  "slot_counts M u = (if u = 0 \<or> count M (Some u) = 0 then None else Some (count M (Some u)))"

definition slots_out :: "ConnectionSlots \<Rightarrow> u32 option multiset \<Rightarrow> bool" where
  "slots_out s M \<longleftrightarrow>
     cs_total s = TOTAL \<and> cs_root_reserved s = ROOT_RESERVED \<and> cs_per_account s = PER_ACCOUNT \<and>
     held_all (cs_held s) = size M \<and>
     by_uid (cs_held s) = slot_counts M \<and>
     (\<forall>u. u \<noteq> 0 \<longrightarrow> count M (Some u) \<le> PER_ACCOUNT) \<and>
     size (non_root M) \<le> TOTAL - ROOT_RESERVED \<and> size M \<le> TOTAL"

definition slots_acquire :: "ConnectionSlots \<Rightarrow> u32 option \<Rightarrow> bool \<times> ConnectionSlots" where
  "slots_acquire s uid = (case slots_take s uid of (r, t) \<Rightarrow> (\<not> isl r, t))"

definition slots_release :: "ConnectionSlots \<Rightarrow> u32 option \<Rightarrow> ConnectionSlots" where
  "slots_release s uid = slots_drop (slot_account uid) s"

lemmas slot_limits = TOTAL_def ROOT_RESERVED_def PER_ACCOUNT_def

lemma non_root_add:
  "non_root (add_mset k M) = (if k = Some 0 then non_root M else add_mset k (non_root M))"
  by (simp add: non_root_def)

lemma size_non_root: "size (non_root M) \<le> size M"
  by (simp add: non_root_def size_filter_mset_lesseq)

lemma slot_counts_default:
  "u \<noteq> 0 \<Longrightarrow> (case slot_counts M u of None \<Rightarrow> 0 | Some n \<Rightarrow> n) = count M (Some u)"
  by (simp add: slot_counts_def)

lemma slot_counts_add:
  "slot_counts (add_mset k M) =
     (case slot_account k of None \<Rightarrow> slot_counts M
      | Some u \<Rightarrow> (slot_counts M)(u \<mapsto> count M (Some u) + 1))"
  by (auto simp: slot_counts_def slot_account_def fun_eq_iff count_eq_zero_iff split: option.splits)

lemma slot_account_simps [simp]:
  "slot_account None = None" "slot_account (Some u) = (if u = 0 then None else Some u)"
  by (simp_all add: slot_account_def)

lemma slot_account_Some: "slot_account k = Some u \<longleftrightarrow> k = Some u \<and> u \<noteq> 0"
  by (auto simp: slot_account_def split: option.splits if_splits)

lemma slots_take_refused:
  assumes out: "slots_out s M" and take: "slots_take s uid = (Inl r, t)"
  shows "t = s"
proof (cases "slot_account uid")
  case None
  with take show ?thesis by (auto simp: slots_take_def Let_def split: if_splits)
next
  case (Some u)
  then have u: "uid = Some u" "u \<noteq> 0" by (auto simp: slot_account_Some)
  have "slot_counts M u = Some (count M (Some u))" if "PER_ACCOUNT \<le> count M (Some u)"
    using that u by (auto simp: slot_counts_def slot_limits)
  with out take u show ?thesis
    by (auto simp: slots_take_def slots_out_def Let_def slot_counts_default
        fun_upd_idem split: if_splits)
qed

lemma slots_take_taken:
  assumes out: "slots_out s M" and take: "slots_take s uid = (Inr a, t)"
  shows "slots_out t (add_mset uid M)" and "a = slot_account uid"
proof -
  show "a = slot_account uid"
    using take by (auto simp: slots_take_def Let_def split: if_splits option.splits)
  show "slots_out t (add_mset uid M)"
  proof (cases "slot_account uid")
    case None
    then have "uid = Some 0 \<or> uid = None"
      by (auto simp: slot_account_def split: option.splits if_splits)
    with None out take size_non_root [of M] show ?thesis
      by (auto simp: slots_take_def slots_out_def Let_def non_root_add slot_counts_add slot_limits
          split: if_splits)
  next
    case (Some u)
    then have "uid = Some u" "u \<noteq> 0" by (auto simp: slot_account_Some)
    with out take size_non_root [of M] show ?thesis
      by (auto simp: slots_take_def slots_out_def Let_def non_root_add slot_counts_add
          slot_counts_default slot_limits split: if_splits)
  qed
qed

lemma slots_drop_out:
  assumes out: "slots_out s M" and "uid \<in># M"
  shows "slots_out (slots_drop (slot_account uid) s) (M - {#uid#})"
proof -
  from assms(2) obtain N where M: "M = add_mset uid N" by (blast dest: multi_member_split)
  have "count N (Some u) \<le> count M (Some u)" for u by (simp add: M)
  with out have counts: "\<forall>v. v \<noteq> 0 \<longrightarrow> count N (Some v) \<le> PER_ACCOUNT"
    unfolding slots_out_def using order_trans by blast
  show ?thesis
  proof (cases "slot_account uid")
    case None
    with out M counts show ?thesis
      by (simp add: slots_drop_def slots_out_def Let_def non_root_add slot_counts_add split: if_splits)
  next
    case (Some u)
    then have u: "uid = Some u" "u \<noteq> 0" by (auto simp: slot_account_Some)
    have "count N (Some u) = 0 \<longrightarrow> (slot_counts N)(u := None) = slot_counts N"
      and "Some u \<in># N \<longrightarrow> (slot_counts N)(u \<mapsto> count N (Some u)) = slot_counts N"
      using u by (auto simp: slot_counts_def count_eq_zero_iff intro!: fun_upd_idem)
    with u out M counts show ?thesis
      by (simp add: slots_drop_def slots_out_def Let_def non_root_add slot_counts_add)
  qed
qed

lemma slots_out_empty: "slots_out s {#} \<longleftrightarrow> s = slots_new"
proof
  assume "slots_out s {#}"
  then show "s = slots_new"
    by (cases s; cases "cs_held s")
      (auto simp: slots_out_def slots_new_def slots_with_limits_def slot_limits slot_counts_def fun_eq_iff)
next
  assume "s = slots_new"
  then show "slots_out s {#}"
    by (simp add: slots_out_def slots_new_def slots_with_limits_def slot_limits non_root_def slot_counts_def fun_eq_iff)
qed

interpretation connections: slot_pool slots_acquire slots_release slots_new slots_out TOTAL
proof unfold_locales
  fix s t :: ConnectionSlots and M k
  assume out: "slots_out s M"
  show "slots_acquire s k = (True, t) \<Longrightarrow> slots_out t (add_mset k M)"
    using slots_take_taken(1) [OF out, of k]
    by (auto simp: slots_acquire_def isl_def split: prod.splits) (metis sum.exhaust)
  show "slots_acquire s k = (False, t) \<Longrightarrow> t = s"
    using slots_take_refused [OF out, of k]
    by (auto simp: slots_acquire_def isl_def split: prod.splits)
  show "k \<in># M \<Longrightarrow> slots_out (slots_release s k) (M - {#k#})"
    using slots_drop_out [OF out] by (simp add: slots_release_def)
  show "size M \<le> TOTAL" using out by (simp add: slots_out_def)
qed (rule slots_out_empty)

section \<open>Pending OS approvals\<close>

definition pending_acquire :: "u32 list \<Rightarrow> u32 \<Rightarrow> bool \<times> u32 list" where
  "pending_acquire pending uid =
     (if length pending \<ge> 8 \<or> uid \<in> set pending then (False, pending) else (True, uid # pending))"

definition pending_drop :: "u32 list \<Rightarrow> u32 \<Rightarrow> u32 list" where
  "pending_drop pending uid = removeAll uid pending"

definition pending_out :: "u32 list \<Rightarrow> u32 multiset \<Rightarrow> bool" where
  "pending_out pending M \<longleftrightarrow> mset pending = M \<and> distinct pending \<and> length pending \<le> 8"

lemma mset_removeAll_distinct: "distinct xs \<Longrightarrow> mset (removeAll x xs) = mset xs - {#x#}"
  by (simp add: distinct_remove1_removeAll [symmetric])

interpretation approvals: slot_pool pending_acquire pending_drop "[]" pending_out 8
proof unfold_locales
  fix s t :: "u32 list" and M k
  assume out: "pending_out s M"
  show "pending_acquire s k = (True, t) \<Longrightarrow> pending_out t (add_mset k M)"
    using out by (auto simp: pending_acquire_def pending_out_def split: if_splits)
  show "pending_acquire s k = (False, t) \<Longrightarrow> t = s"
    by (auto simp: pending_acquire_def split: if_splits)
  show "k \<in># M \<Longrightarrow> pending_out (pending_drop s k) (M - {#k#})"
    using out le_trans [OF length_removeAll_less_eq [of k s]]
    by (auto simp: pending_drop_def pending_out_def mset_removeAll_distinct distinct_removeAll)
  show "size M \<le> 8" using out by (auto simp: pending_out_def)
qed (auto simp: pending_out_def)

section \<open>Pending password checks\<close>

definition check_acquire :: "nat \<Rightarrow> unit \<Rightarrow> bool \<times> nat" where
  "check_acquire n k = (if n \<ge> 8 then (False, n) else (True, n + 1))"

definition check_drop :: "nat \<Rightarrow> unit \<Rightarrow> nat" where
  "check_drop n k = n - 1"

interpretation password_checks: slot_pool check_acquire check_drop 0 "\<lambda>n M. n = size M \<and> n \<le> 8" 8
  by unfold_locales
    (auto simp: check_acquire_def check_drop_def size_Diff_singleton split: if_splits)

section \<open>Properties\<close>

text \<open>Root stays answerable. In every reachable state of the connection slots, whatever the
  other accounts hold, root gets a slot as long as it holds fewer than the sixteen
  reserved for it.\<close>

theorem root_gets_a_slot:
  assumes "rtranclp (pool_step slots_acquire slots_release) (slots_new, {#}) (s, M)"
    and "count M (Some 0) < ROOT_RESERVED"
  shows "\<exists>t. slots_take s (Some 0) = (Inr None, t)"
proof -
  have out: "slots_out s M" using connections.pool_describes(1) [OF assms(1)] .
  have "M = replicate_mset (count M (Some 0)) (Some 0) + non_root M"
    by (intro multiset_eqI) (simp add: non_root_def)
  then have "size M = count M (Some 0) + size (non_root M)"
    by (metis size_replicate_mset size_union)
  with out assms(2) have "held_all (cs_held s) < cs_total s"
    by (simp add: slots_out_def slot_limits)
  then show ?thesis by (simp add: slots_take_def Let_def)
qed

theorem root_gets_a_slot_witness:
  "\<exists>t. slots_take (snd (slots_acquire slots_new (Some 1000))) (Some 0) = (Inr None, t)"
proof (rule root_gets_a_slot)
  show "rtranclp (pool_step slots_acquire slots_release) (slots_new, {#})
      (snd (slots_acquire slots_new (Some 1000)), {#Some 1000#})"
    by (intro r_into_rtranclp pool_step.taken)
      (simp add: slots_acquire_def slots_take_def slots_new_def slots_with_limits_def slot_limits Let_def)
  show "count {#Some 1000#} (Some (0::u32)) < ROOT_RESERVED" by (simp add: slot_limits)
qed

text \<open>The limits hold at every moment: no account other than root has more than twelve
  connections open, all of them together have at most forty-eight, and with root's at
  most sixty-four; and once every connection has ended the counters are those of a new
  pool.\<close>

theorem connection_limits_hold:
  assumes "rtranclp (pool_step slots_acquire slots_release) (slots_new, {#}) (s, M)"
  shows "(u \<noteq> 0 \<longrightarrow> count M (Some u) \<le> PER_ACCOUNT) \<and>
         size (filter_mset (\<lambda>k. k \<noteq> Some 0) M) \<le> TOTAL - ROOT_RESERVED \<and>
         size M \<le> TOTAL \<and> held_all (cs_held s) = size M \<and> (M = {#} \<longrightarrow> s = slots_new)"
  using connections.pool_describes [OF assms] by (simp add: slots_out_def non_root_def)

theorem connection_limits_hold_witness:
  "count {#Some (1000::u32)#} (Some 1000) \<le> PER_ACCOUNT \<and>
   held_all (cs_held (snd (slots_acquire slots_new (Some 1000)))) = size {#Some (1000::u32)#}"
proof -
  have "rtranclp (pool_step slots_acquire slots_release) (slots_new, {#})
      (snd (slots_acquire slots_new (Some 1000)), {#Some 1000#})"
    by (intro r_into_rtranclp pool_step.taken)
      (simp add: slots_acquire_def slots_take_def slots_new_def slots_with_limits_def slot_limits Let_def)
  from connection_limits_hold [OF this, of 1000] show ?thesis by simp
qed

text \<open>At most eight OS approvals are pending at once and never two for one account, whatever
  the order in which requests ask, are refused and finish.\<close>

theorem one_pending_approval_per_account:
  assumes "rtranclp (pool_step pending_acquire pending_drop) ([], {#}) (pending, M)"
  shows "count M uid \<le> 1 \<and> size M \<le> 8 \<and>
         (fst (pending_acquire pending uid) \<longleftrightarrow> size M < 8 \<and> uid \<notin># M)"
proof -
  have "pending_out pending M" and "size M \<le> 8"
    using approvals.pool_describes [OF assms] by auto
  moreover from this have "count M uid \<le> 1"
    by (cases "uid \<in> set pending") (auto simp: pending_out_def distinct_count_atmost_1 count_eq_zero_iff)
  ultimately show ?thesis
    by (auto simp: pending_out_def pending_acquire_def split: if_splits)
qed

theorem one_pending_approval_per_account_witness:
  "\<not> fst (pending_acquire [1000] 1000) \<and> fst (pending_acquire [1000] 1001)"
proof -
  have "rtranclp (pool_step pending_acquire pending_drop) ([], {#}) ([1000], {#1000#})"
    by (intro r_into_rtranclp pool_step.taken) (simp add: pending_acquire_def)
  from one_pending_approval_per_account [OF this, of 1000]
    one_pending_approval_per_account [OF this, of 1001]
  show ?thesis by simp
qed

end
