(* ===== verification/Arbiter.thy ===== *)
theory Arbiter
  imports Daemon_Types
begin

text \<open>
  Who gets the camera next (\<^verbatim>\<open>irlume-daemon/src/arbiter.rs\<close>): the queue that
  decides admission and the order in which the one worker serves requests. A call
  that takes the queue's lock is one step; the worker's wait on the condition
  variable is the answer \<open>Wait\<close>. The second half runs the queue with its worker
  (the loop in \<^verbatim>\<open>main.rs\<close>), so that what is queued, running and served can be
  compared along any interleaving.
\<close>

section \<open>The stop signal\<close>

record CancelToken =
  yield_requested :: bool
  cancel_requested :: bool

definition token_new :: CancelToken where
  "token_new = \<lparr> yield_requested = False, cancel_requested = False \<rparr>"

definition request_stop :: "CancelToken \<Rightarrow> CancelToken" where
  "request_stop c = c\<lparr> yield_requested := True \<rparr>"

definition request_cancel :: "CancelToken \<Rightarrow> CancelToken" where
  "request_cancel c = c\<lparr> cancel_requested := True \<rparr>"

definition stop_requested :: "CancelToken \<Rightarrow> bool" where
  "stop_requested c \<longleftrightarrow> yield_requested c \<or> cancel_requested c"

definition token_reset :: "CancelToken \<Rightarrow> CancelToken" where
  "token_reset c = c\<lparr> yield_requested := False, cancel_requested := False \<rparr>"

section \<open>The queue\<close>

datatype Refusal = Busy | AlreadyHoldsSlot | ShuttingDown

primrec refusal_text :: "Refusal \<Rightarrow> string" where
  "refusal_text Busy = ''camera busy: other work is in progress; retry in a moment''"
| "refusal_text AlreadyHoldsSlot =
     ''camera busy: this account already has a camera operation in flight''"
| "refusal_text ShuttingDown = ''the daemon is shutting down; retry after it restarts''"

record 'a Job =
  job_class :: Class
  job_uid :: u32
  job_payload :: 'a

datatype ('a, 'b) Work = WorkJob "'a Job" | WorkBackground 'b

record ('a, 'b) Arbiter =
  auth :: "'a Job list"
  other :: "'a Job list"
  background :: "'b list"
  camera_slots :: "u32 list"
  auth_running :: bool
  closed :: bool
  cancel :: CancelToken

definition arbiter_new :: "('a, 'b) Arbiter" where
  "arbiter_new = \<lparr> auth = [], other = [], background = [], camera_slots = [],
     auth_running = False, closed = False, cancel = token_new \<rparr>"

definition auth_pending :: "('a, 'b) Arbiter \<Rightarrow> bool" where
  "auth_pending a \<longleftrightarrow> auth_running a \<or> auth a \<noteq> []"

definition make_job :: "Class \<Rightarrow> u32 \<Rightarrow> 'a \<Rightarrow> 'a Job" where
  "make_job c uid x = \<lparr> job_class = c, job_uid = uid, job_payload = x \<rparr>"

definition submit ::
    "('a, 'b) Arbiter \<Rightarrow> Class \<Rightarrow> u32 \<Rightarrow> 'a \<Rightarrow> Refusal option \<times> ('a, 'b) Arbiter" where
  "submit a c uid x =
     (if closed a then (Some ShuttingDown, a)
      else case c of
          ClassAuth \<Rightarrow>
            (None, a\<lparr> cancel := request_stop (cancel a), auth := auth a @ [make_job c uid x] \<rparr>)
        | ClassCamera \<Rightarrow>
            if auth_pending a then (Some Busy, a)
            else if uid \<noteq> 0 \<and> uid \<in> set (camera_slots a) then (Some AlreadyHoldsSlot, a)
            else (None, a\<lparr> camera_slots := camera_slots a @ (if uid \<noteq> 0 then [uid] else []),
                            other := other a @ [make_job c uid x] \<rparr>)
        | ClassPlain \<Rightarrow> (None, a\<lparr> other := other a @ [make_job c uid x] \<rparr>)
        | ClassStatus \<Rightarrow> (None, a\<lparr> other := other a @ [make_job c uid x] \<rparr>))"

definition submit_background :: "('a, 'b) Arbiter \<Rightarrow> 'b \<Rightarrow> Refusal option \<times> ('a, 'b) Arbiter" where
  "submit_background a task =
     (if closed a then (Some ShuttingDown, a)
      else if auth_pending a then (Some Busy, a)
      else (None, a\<lparr> background := background a @ [task] \<rparr>))"

datatype ('a, 'b) Taken = Take "('a, 'b) Work" | Drained | Wait

definition take_work :: "('a, 'b) Arbiter \<Rightarrow> ('a, 'b) Taken \<times> ('a, 'b) Arbiter" where
  "take_work a = (case auth a of
      j # js \<Rightarrow>
        (Take (WorkJob j), a\<lparr> auth := js, auth_running := True, cancel := token_reset (cancel a) \<rparr>)
    | [] \<Rightarrow> (case other a of
        j # js \<Rightarrow> (Take (WorkJob j), a\<lparr> other := js, cancel := token_reset (cancel a) \<rparr>)
      | [] \<Rightarrow>
          if closed a then (Drained, a)
          else (case background a of
              t # ts \<Rightarrow>
                (Take (WorkBackground t), a\<lparr> background := ts, cancel := token_reset (cancel a) \<rparr>)
            | [] \<Rightarrow> (Wait, a))))"

definition finish :: "Class \<Rightarrow> u32 \<Rightarrow> ('a, 'b) Arbiter \<Rightarrow> ('a, 'b) Arbiter" where
  "finish c uid a =
     (let a1 = (if c = ClassAuth then a\<lparr> auth_running := False \<rparr> else a)
      in case position (\<lambda>u. u = uid) (camera_slots a1) of
          Some i \<Rightarrow> a1\<lparr> camera_slots := swap_remove i (camera_slots a1) \<rparr>
        | None \<Rightarrow> a1)"

definition close :: "('a, 'b) Arbiter \<Rightarrow> ('a, 'b) Arbiter" where
  "close a = a\<lparr> closed := True \<rparr>"

section \<open>The queue and its worker\<close>

text \<open>\<open>running\<close> is what the worker is serving; \<open>admitted\<close> and \<open>served\<close> are the
  jobs ever admitted and ever taken, kept for the statements.\<close>

record ('a, 'b) Daemon =
  arb :: "('a, 'b) Arbiter"
  running :: "('a, 'b) Work option"
  admitted :: "'a Job list"
  served :: "'a Job list"

definition daemon_new :: "('a, 'b) Daemon" where
  "daemon_new = \<lparr> arb = arbiter_new, running = None, admitted = [], served = [] \<rparr>"

datatype ('a, 'b) Event =
    Submit Class u32 'a
  | SubmitBackground 'b
  | WorkerTake
  | WorkerFinish
  | ClientLeft
  | Close

primrec daemon_step :: "('a, 'b) Event \<Rightarrow> ('a, 'b) Daemon \<Rightarrow> ('a, 'b) Daemon" where
  "daemon_step (Submit c uid x) d =
     (case submit (arb d) c uid x of
        (None, a) \<Rightarrow> d\<lparr> arb := a, admitted := admitted d @ [make_job c uid x] \<rparr>
      | (Some _, a) \<Rightarrow> d\<lparr> arb := a \<rparr>)"
| "daemon_step (SubmitBackground t) d = d\<lparr> arb := snd (submit_background (arb d) t) \<rparr>"
| "daemon_step WorkerTake d =
     (if running d \<noteq> None then d
      else case take_work (arb d) of
          (Take w, a) \<Rightarrow>
            d\<lparr> arb := a, running := Some w,
               served := served d @ (case w of WorkJob j \<Rightarrow> [j] | WorkBackground _ \<Rightarrow> []) \<rparr>
        | (_, a) \<Rightarrow> d\<lparr> arb := a \<rparr>)"
| "daemon_step WorkerFinish d = (case running d of
      None \<Rightarrow> d
    | Some (WorkJob j) \<Rightarrow>
        d\<lparr> arb := finish (job_class j) (job_uid j) (arb d), running := None \<rparr>
    | Some (WorkBackground _) \<Rightarrow> d\<lparr> arb := finish ClassCamera 0 (arb d), running := None \<rparr>)"
| "daemon_step ClientLeft d =
     (if running d = None then d
      else d\<lparr> arb := (arb d)\<lparr> cancel := request_cancel (cancel (arb d)) \<rparr> \<rparr>)"
| "daemon_step Close d = d\<lparr> arb := close (arb d) \<rparr>"

definition running_jobs :: "('a, 'b) Daemon \<Rightarrow> 'a Job list" where
  "running_jobs d = (case running d of Some (WorkJob j) \<Rightarrow> [j] | _ \<Rightarrow> [])"

definition pending_jobs :: "('a, 'b) Daemon \<Rightarrow> 'a Job list" where
  "pending_jobs d = running_jobs d @ auth (arb d) @ other (arb d)"

section \<open>Facts about the steps\<close>

lemma finish_simps [simp]:
  "auth (finish c u a) = auth a" "other (finish c u a) = other a"
  "background (finish c u a) = background a" "closed (finish c u a) = closed a"
  "cancel (finish c u a) = cancel a"
  "auth_running (finish c u a) = (c \<noteq> ClassAuth \<and> auth_running a)"
  by (simp_all add: finish_def Let_def split: option.split)

lemma finish_slots: "mset (camera_slots (finish c u a)) = mset (camera_slots a) - {#u#}"
proof (cases "position (\<lambda>v. v = u) (camera_slots a)")
  case None
  then have "u \<notin># mset (camera_slots a)" by auto
  then have "mset (camera_slots a) - {#u#} = mset (camera_slots a)" by (rule diff_single_trivial)
  with None show ?thesis by (simp add: finish_def Let_def del: position_None_iff)
next
  case (Some i)
  with position_SomeD [OF Some] show ?thesis by (simp add: finish_def Let_def mset_swap_remove)
qed

lemma submit_cases:
  obtains (refused) r where "submit a c uid x = (Some r, a)"
  | (auth) "c = ClassAuth" "\<not> closed a"
      "submit a c uid x = (None, a\<lparr> cancel := request_stop (cancel a), auth := auth a @ [make_job c uid x] \<rparr>)"
  | (camera) "c = ClassCamera" "\<not> closed a" "\<not> auth_pending a" "uid = 0 \<or> uid \<notin> set (camera_slots a)"
      "submit a c uid x = (None, a\<lparr> camera_slots := camera_slots a @ (if uid \<noteq> 0 then [uid] else []),
          other := other a @ [make_job c uid x] \<rparr>)"
  | (plain) "c = ClassPlain \<or> c = ClassStatus" "\<not> closed a"
      "submit a c uid x = (None, a\<lparr> other := other a @ [make_job c uid x] \<rparr>)"
  by (cases "closed a"; cases c; cases "auth_pending a"; cases "uid \<noteq> 0 \<and> uid \<in> set (camera_slots a)")
    (auto simp: submit_def)

lemma take_work_cases:
  obtains (auth) j js where "auth a = j # js"
      "take_work a = (Take (WorkJob j), a\<lparr> auth := js, auth_running := True, cancel := token_reset (cancel a) \<rparr>)"
  | (other) j js where "auth a = []" "other a = j # js"
      "take_work a = (Take (WorkJob j), a\<lparr> other := js, cancel := token_reset (cancel a) \<rparr>)"
  | (drained) "auth a = []" "other a = []" "closed a" "take_work a = (Drained, a)"
  | (background) t ts where "auth a = []" "other a = []" "\<not> closed a" "background a = t # ts"
      "take_work a = (Take (WorkBackground t), a\<lparr> background := ts, cancel := token_reset (cancel a) \<rparr>)"
  | (wait) "auth a = []" "other a = []" "\<not> closed a" "background a = []" "take_work a = (Wait, a)"
proof (cases "auth a")
  case Nil
  show ?thesis
  proof (cases "other a")
    case other: Nil
    show ?thesis
    proof (cases "closed a")
      case True
      with Nil other show ?thesis by (intro drained) (simp_all add: take_work_def)
    next
      case opened: False
      show ?thesis
      proof (cases "background a")
        case bg: Nil
        with Nil other opened show ?thesis by (intro wait) (simp_all add: take_work_def)
      next
        case (Cons t ts)
        with Nil other opened show ?thesis by (intro background) (simp_all add: take_work_def)
      qed
    qed
  next
    case (Cons j js)
    with Nil show ?thesis by (intro other) (simp_all add: take_work_def)
  qed
next
  case (Cons j js)
  then show ?thesis by (intro auth) (simp_all add: take_work_def)
qed

section \<open>The invariant of the running daemon\<close>

definition is_auth :: "'a Job \<Rightarrow> bool" where
  "is_auth j \<longleftrightarrow> job_class j = ClassAuth"

definition camera_job_of :: "u32 \<Rightarrow> 'a Job \<Rightarrow> bool" where
  "camera_job_of u j \<longleftrightarrow> job_class j = ClassCamera \<and> job_uid j = u"

definition queues_ok :: "('a, 'b) Daemon \<Rightarrow> bool" where
  "queues_ok d \<longleftrightarrow>
     list_all is_auth (auth (arb d)) \<and> list_all (\<lambda>j. \<not> is_auth j) (other (arb d)) \<and>
     (auth_running (arb d) \<longleftrightarrow> list_ex is_auth (running_jobs d))"

definition slots_ok :: "('a, 'b) Daemon \<Rightarrow> bool" where
  "slots_ok d \<longleftrightarrow>
     distinct (camera_slots (arb d)) \<and> 0 \<notin> set (camera_slots (arb d)) \<and>
     (\<forall>u\<in>set (camera_slots (arb d)). \<exists>j\<in>set (pending_jobs d). camera_job_of u j)"

definition history_ok :: "('a, 'b) Daemon \<Rightarrow> bool" where
  "history_ok d \<longleftrightarrow>
     filter is_auth (admitted d) = filter is_auth (served d) @ auth (arb d) \<and>
     filter (\<lambda>j. \<not> is_auth j) (admitted d) = filter (\<lambda>j. \<not> is_auth j) (served d) @ other (arb d)"

definition daemon_inv :: "('a, 'b) Daemon \<Rightarrow> bool" where
  "daemon_inv d \<longleftrightarrow> queues_ok d \<and> slots_ok d \<and> history_ok d"

lemmas job_defs = is_auth_def camera_job_of_def make_job_def running_jobs_def pending_jobs_def

lemma is_auth_make_job [simp]: "is_auth (make_job c u x) \<longleftrightarrow> c = ClassAuth"
  by (simp add: job_defs)

lemma finish_slots_set:
  assumes "distinct (camera_slots a)"
  shows "set (camera_slots (finish c u a)) = set (camera_slots a) - {u}"
    and "distinct (camera_slots (finish c u a))"
proof -
  have eq: "mset (camera_slots (finish c u a)) = mset (remove1 u (camera_slots a))"
    by (simp add: finish_slots)
  show "set (camera_slots (finish c u a)) = set (camera_slots a) - {u}"
    using mset_eq_setD [OF eq] assms by simp
  show "distinct (camera_slots (finish c u a))"
    using mset_eq_imp_distinct_iff [OF eq] assms by simp
qed

lemma daemon_inv_frame:
  assumes "daemon_inv d"
    and "auth (arb d') = auth (arb d)" "other (arb d') = other (arb d)"
      "camera_slots (arb d') = camera_slots (arb d)" "auth_running (arb d') = auth_running (arb d)"
      "running_jobs d' = running_jobs d" "admitted d' = admitted d" "served d' = served d"
  shows "daemon_inv d'"
  using assms by (simp add: daemon_inv_def queues_ok_def slots_ok_def history_ok_def pending_jobs_def)

lemma slots_ok_mono:
  assumes "slots_ok d" "camera_slots (arb d') = camera_slots (arb d)"
    and "set (pending_jobs d) \<subseteq> set (pending_jobs d')"
  shows "slots_ok d'"
  using assms unfolding slots_ok_def by (simp, blast)

lemma step_Submit:
  assumes inv: "daemon_inv d"
  shows "daemon_inv (daemon_step (Submit c uid x) d)" (is "daemon_inv ?d")
proof -
  have slots: "slots_ok d" using inv by (simp add: daemon_inv_def)
  show ?thesis
  proof (cases rule: submit_cases [of "arb d" c uid x])
    case (refused r)
    then show ?thesis by (intro daemon_inv_frame [OF inv]) (simp_all add: running_jobs_def)
  next
    case auth
    then have "slots_ok ?d"
      by (intro slots_ok_mono [OF slots]) (auto simp: pending_jobs_def running_jobs_def)
    with auth inv show ?thesis
      by (simp add: daemon_inv_def queues_ok_def history_ok_def running_jobs_def)
  next
    case camera
    then have "slots_ok ?d"
      using inv by (auto simp: daemon_inv_def slots_ok_def pending_jobs_def running_jobs_def
          camera_job_of_def make_job_def)
    with camera inv show ?thesis
      by (simp add: daemon_inv_def queues_ok_def history_ok_def running_jobs_def)
  next
    case plain
    then have "slots_ok ?d"
      by (intro slots_ok_mono [OF slots]) (auto simp: pending_jobs_def running_jobs_def)
    with plain inv show ?thesis
      by (auto simp: daemon_inv_def queues_ok_def history_ok_def running_jobs_def)
  qed
qed

lemma step_Take:
  assumes inv: "daemon_inv d"
  shows "daemon_inv (daemon_step WorkerTake d)" (is "daemon_inv ?d")
proof (cases "running d = None")
  case idle: True
  have slots: "slots_ok d" using inv by (simp add: daemon_inv_def)
  show ?thesis
  proof (cases rule: take_work_cases [of "arb d"])
    case (auth j js)
    with idle have "slots_ok ?d"
      by (intro slots_ok_mono [OF slots]) (auto simp: pending_jobs_def running_jobs_def)
    with auth inv idle show ?thesis
      by (simp add: daemon_inv_def queues_ok_def history_ok_def running_jobs_def)
  next
    case (other j js)
    with idle have "slots_ok ?d"
      by (intro slots_ok_mono [OF slots]) (auto simp: pending_jobs_def running_jobs_def)
    with other inv idle show ?thesis
      by (simp add: daemon_inv_def queues_ok_def history_ok_def running_jobs_def)
  next
    case drained
    with idle show ?thesis by (intro daemon_inv_frame [OF inv]) (simp_all add: running_jobs_def)
  next
    case (background t ts)
    with idle show ?thesis by (intro daemon_inv_frame [OF inv]) (simp_all add: running_jobs_def)
  next
    case wait
    with idle show ?thesis by (intro daemon_inv_frame [OF inv]) (simp_all add: running_jobs_def)
  qed
qed (use inv in simp)

lemma step_Finish:
  assumes inv: "daemon_inv d"
  shows "daemon_inv (daemon_step WorkerFinish d)" (is "daemon_inv ?d")
proof (cases "running d")
  case (Some w)
  have slots: "slots_ok d" and dist: "distinct (camera_slots (arb d))"
    using inv by (simp_all add: daemon_inv_def slots_ok_def)
  show ?thesis
  proof (cases w)
    case (WorkJob j)
    with Some have jobs: "pending_jobs d = j # pending_jobs ?d"
      by (simp add: pending_jobs_def running_jobs_def)
    have "set (camera_slots (arb ?d)) = set (camera_slots (arb d)) - {job_uid j}"
      and "distinct (camera_slots (arb ?d))"
      using WorkJob Some finish_slots_set [OF dist] by simp_all
    with slots jobs have "slots_ok ?d"
      by (auto simp: slots_ok_def camera_job_of_def)
    with WorkJob inv Some show ?thesis
      by (simp add: daemon_inv_def queues_ok_def history_ok_def running_jobs_def is_auth_def)
  next
    case (WorkBackground t)
    with Some have jobs: "pending_jobs d = pending_jobs ?d"
      by (simp add: pending_jobs_def running_jobs_def)
    have "set (camera_slots (arb ?d)) = set (camera_slots (arb d)) - {0}"
      and "distinct (camera_slots (arb ?d))"
      using WorkBackground Some finish_slots_set [OF dist] by simp_all
    with slots jobs have "slots_ok ?d"
      by (auto simp: slots_ok_def)
    with WorkBackground inv Some show ?thesis
      by (simp add: daemon_inv_def queues_ok_def history_ok_def running_jobs_def)
  qed
qed (use inv in simp)

lemma daemon_inv_step:
  assumes inv: "daemon_inv d"
  shows "daemon_inv (daemon_step e d)"
proof (cases e)
  case (SubmitBackground t)
  then show ?thesis
    by (intro daemon_inv_frame [OF inv]) (simp_all add: submit_background_def running_jobs_def)
next
  case ClientLeft
  then show ?thesis by (intro daemon_inv_frame [OF inv]) (simp_all add: running_jobs_def)
next
  case Close
  then show ?thesis by (intro daemon_inv_frame [OF inv]) (simp_all add: close_def running_jobs_def)
qed (simp_all only: step_Submit step_Take step_Finish inv)

lemma daemon_inv_new: "daemon_inv daemon_new"
  by (simp add: daemon_inv_def daemon_new_def arbiter_new_def queues_ok_def slots_ok_def
      history_ok_def running_jobs_def)

interpretation daemon: transition_system
  "\<lambda>d. d = daemon_new" "\<lambda>d d'. \<exists>e. d' = daemon_step e d" daemon_inv
  by unfold_locales (auto simp: daemon_inv_new daemon_inv_step)

lemma daemon_run: "rtranclp (\<lambda>d d'. \<exists>e. d' = daemon_step e d) d (fold daemon_step es d)"
proof (induction es arbitrary: d)
  case (Cons e es)
  have "(\<lambda>d d'. \<exists>e. d' = daemon_step e d) d (daemon_step e d)" by blast
  with Cons [of "daemon_step e d"] show ?case
    by (simp add: converse_rtranclp_into_rtranclp)
qed simp

lemma daemon_inv_run: "daemon_inv (fold daemon_step es daemon_new)"
  using daemon.inv_reachable [OF refl daemon_run] .

section \<open>Order of service\<close>

lemma take_served:
  assumes "running d = None" "auth (arb d) = j # js"
  shows "served (daemon_step WorkerTake d) = served d @ [j]"
    and "auth (arb (daemon_step WorkerTake d)) = js"
  using assms by (simp_all add: take_work_def)

lemma step_auth_queue:
  assumes "e \<noteq> WorkerTake \<or> running d \<noteq> None"
  shows "\<exists>new. auth (arb (daemon_step e d)) = auth (arb d) @ new \<and> served (daemon_step e d) = served d"
proof (cases e)
  case (Submit c uid x)
  then show ?thesis by (cases rule: submit_cases [of "arb d" c uid x]) simp_all
qed (use assms in \<open>auto simp: submit_background_def close_def split: option.splits Work.splits\<close>)

lemma served_grows: "\<exists>zs. served (fold daemon_step es d) = served d @ zs"
proof (induction es arbitrary: d)
  case (Cons e es)
  have "\<exists>zs. served (daemon_step e d) = served d @ zs"
    by (cases e) (auto simp: submit_background_def close_def
        split: option.splits Work.splits prod.splits Taken.splits)
  with Cons [of "daemon_step e d"] show ?case by auto
qed simp

text \<open>The next jobs the worker takes are the queued authentications, in their order.\<close>

lemma auth_served_next:
  assumes "n \<le> length (auth (arb d))"
    and "n \<le> length (served (fold daemon_step es d)) - length (served d)"
  shows "take n (drop (length (served d)) (served (fold daemon_step es d))) = take n (auth (arb d))"
  using assms
proof (induction es arbitrary: d n)
  case (Cons e es)
  let ?d = "daemon_step e d"
  show ?case
  proof (cases "e \<noteq> WorkerTake \<or> running d \<noteq> None \<or> n = 0")
    case True
    then have "n = 0 \<or> (\<exists>new. auth (arb ?d) = auth (arb d) @ new \<and> served ?d = served d)"
      using step_auth_queue [of e d] by blast
    then show ?thesis
    proof
      assume "\<exists>new. auth (arb ?d) = auth (arb d) @ new \<and> served ?d = served d"
      then obtain new where "auth (arb ?d) = auth (arb d) @ new" "served ?d = served d" by blast
      with Cons.IH [of n ?d] Cons.prems show ?thesis by simp
    qed simp
  next
    case False
    then obtain m where m: "n = Suc m" and e: "e = WorkerTake" and idle: "running d = None"
      by (cases n) auto
    from m Cons.prems(1) obtain j js where q: "auth (arb d) = j # js"
      by (cases "auth (arb d)") auto
    note d = take_served [OF idle q, folded e]
    from served_grows [of es ?d] obtain zs where zs: "served (fold daemon_step es ?d) = (served d @ [j]) @ zs"
      using d by auto
    have "take m zs = take m js"
      using Cons.IH [of m ?d] Cons.prems zs d m q by simp
    with zs m q show ?thesis by simp
  qed
qed simp

section \<open>One camera job per account\<close>

text \<open>The account \<open>u\<close> has only submitted camera work.\<close>

definition camera_only :: "u32 \<Rightarrow> ('a, 'b) Event list \<Rightarrow> bool" where
  "camera_only u es \<longleftrightarrow> list_all (\<lambda>e. case e of Submit c v _ \<Rightarrow> v = u \<longrightarrow> c = ClassCamera | _ \<Rightarrow> True) es"

definition slot_exact :: "u32 \<Rightarrow> ('a, 'b) Daemon \<Rightarrow> bool" where
  "slot_exact u d \<longleftrightarrow>
     list_all (\<lambda>j. job_uid j = u \<longrightarrow> job_class j = ClassCamera) (pending_jobs d) \<and>
     length (filter (\<lambda>j. job_uid j = u) (pending_jobs d)) =
       (if u \<in> set (camera_slots (arb d)) then 1 else 0)"

lemma slot_exact_frame:
  assumes "slot_exact u d" "mset (pending_jobs d') = mset (pending_jobs d)"
    "camera_slots (arb d') = camera_slots (arb d)"
  shows "slot_exact u d'"
proof -
  have "set (pending_jobs d') = set (pending_jobs d)"
    using assms(2) by (rule mset_eq_setD)
  moreover have "length (filter P (pending_jobs d')) = length (filter P (pending_jobs d))" for P
    using assms(2) by (metis mset_filter size_mset)
  ultimately show ?thesis
    using assms(1,3) by (simp add: slot_exact_def list_all_iff)
qed

lemma slot_exact_step:
  assumes ex: "slot_exact u d" and inv: "daemon_inv d" and u: "u \<noteq> 0"
    and only: "camera_only u [e]"
  shows "slot_exact u (daemon_step e d)" (is "slot_exact u ?d")
proof (cases e)
  case (Submit c uid x)
  show ?thesis
  proof (cases rule: submit_cases [of "arb d" c uid x])
    case (refused r)
    with Submit show ?thesis
      by (intro slot_exact_frame [OF ex]) (simp_all add: pending_jobs_def running_jobs_def)
  next
    case camera
    with Submit ex u show ?thesis
      by (auto simp: slot_exact_def pending_jobs_def running_jobs_def make_job_def)
  next
    case auth
    with Submit ex only show ?thesis
      by (auto simp: slot_exact_def pending_jobs_def running_jobs_def make_job_def camera_only_def)
  next
    case plain
    with Submit ex only show ?thesis
      by (auto simp: slot_exact_def pending_jobs_def running_jobs_def make_job_def camera_only_def)
  qed
next
  case (SubmitBackground t)
  then show ?thesis
    by (intro slot_exact_frame [OF ex]) (simp_all add: submit_background_def pending_jobs_def running_jobs_def)
next
  case WorkerTake
  show ?thesis
  proof (cases "running d = None")
    case True
    with WorkerTake show ?thesis
      by (cases rule: take_work_cases [of "arb d"])
        (intro slot_exact_frame [OF ex]; simp add: pending_jobs_def running_jobs_def)+
  qed (use WorkerTake ex in simp)
next
  case WorkerFinish
  have dist: "distinct (camera_slots (arb d))" using inv by (simp add: daemon_inv_def slots_ok_def)
  show ?thesis
  proof (cases "running d")
    case (Some w)
    show ?thesis
    proof (cases w)
      case (WorkJob j)
      with Some WorkerFinish have "pending_jobs d = j # pending_jobs ?d"
        and "set (camera_slots (arb ?d)) = set (camera_slots (arb d)) - {job_uid j}"
        by (simp_all add: pending_jobs_def running_jobs_def finish_slots_set [OF dist])
      with ex show ?thesis by (auto simp: slot_exact_def split: if_splits)
    next
      case (WorkBackground t)
      with Some WorkerFinish have "pending_jobs d = pending_jobs ?d"
        and "set (camera_slots (arb ?d)) = set (camera_slots (arb d)) - {0}"
        by (simp_all add: pending_jobs_def running_jobs_def finish_slots_set [OF dist])
      with ex u show ?thesis by (auto simp: slot_exact_def)
    qed
  qed (use WorkerFinish ex in simp)
next
  case ClientLeft
  then show ?thesis
    by (intro slot_exact_frame [OF ex]) (simp_all add: pending_jobs_def running_jobs_def)
next
  case Close
  then show ?thesis
    by (intro slot_exact_frame [OF ex]) (simp_all add: close_def pending_jobs_def running_jobs_def)
qed

lemma slot_exact_run:
  "slot_exact u d \<Longrightarrow> daemon_inv d \<Longrightarrow> u \<noteq> 0 \<Longrightarrow> camera_only u es \<Longrightarrow>
     slot_exact u (fold daemon_step es d)"
proof (induction es arbitrary: d)
  case (Cons e es)
  then have "camera_only u [e]" "camera_only u es" by (simp_all add: camera_only_def)
  with Cons show ?case by (simp add: slot_exact_step daemon_inv_step)
qed simp

section \<open>The stop signal reaches what is running\<close>

definition yield_ok :: "('a, 'b) Daemon \<Rightarrow> bool" where
  "yield_ok d \<longleftrightarrow>
     (case running d of
        Some (WorkJob j) \<Rightarrow> \<not> is_auth j \<and> auth (arb d) \<noteq> [] \<longrightarrow> yield_requested (cancel (arb d))
      | Some (WorkBackground _) \<Rightarrow> auth (arb d) \<noteq> [] \<longrightarrow> yield_requested (cancel (arb d))
      | None \<Rightarrow> True)"

lemma yield_ok_step:
  assumes y: "yield_ok d" and inv: "daemon_inv d"
  shows "yield_ok (daemon_step e d)"
proof (cases e)
  case (Submit c uid x)
  with y show ?thesis
    by (cases rule: submit_cases [of "arb d" c uid x])
      (auto simp: yield_ok_def request_stop_def split: option.splits Work.splits)
next
  case WorkerTake
  with y inv show ?thesis
    by (cases rule: take_work_cases [of "arb d"])
      (auto simp: yield_ok_def daemon_inv_def queues_ok_def split: option.splits Work.splits)
qed (use y in \<open>auto simp: yield_ok_def submit_background_def request_cancel_def close_def
       split: option.splits Work.splits\<close>)

lemma yield_ok_run: "yield_ok d \<Longrightarrow> daemon_inv d \<Longrightarrow> yield_ok (fold daemon_step es d)"
  by (induction es arbitrary: d) (simp_all add: yield_ok_step daemon_inv_step)

section \<open>Draining\<close>

definition drain :: "nat \<Rightarrow> ('a, 'b) Event list" where
  "drain n = concat (replicate n [WorkerTake, WorkerFinish])"

lemma drain_serves:
  assumes "running d = None" "closed (arb d)"
    and "auth (arb d) @ other (arb d) = jobs"
  shows "served (fold daemon_step (drain (length jobs)) d) = served d @ jobs \<and>
         take_work (arb (fold daemon_step (drain (length jobs)) d)) =
           (Drained, arb (fold daemon_step (drain (length jobs)) d))"
  using assms
proof (induction jobs arbitrary: d)
  case Nil
  then show ?case by (simp add: drain_def take_work_def)
next
  case (Cons j jobs)
  let ?d = "daemon_step WorkerFinish (daemon_step WorkerTake d)"
  have "running ?d = None \<and> closed (arb ?d) \<and> auth (arb ?d) @ other (arb ?d) = jobs \<and>
      served ?d = served d @ [j]"
    using Cons.prems by (cases rule: take_work_cases [of "arb d"]) auto
  with Cons.IH [of ?d] show ?case by (simp add: drain_def)
qed

section \<open>Properties\<close>

text \<open>C25: Nothing is lost, invented or reordered between admission and the worker. After any
  interleaving of submissions, worker steps, departures and a close, the authentications
  admitted so far are exactly those served so far, in order, followed by those still
  queued, and the same holds of all other requests.\<close>

theorem arbiter_serves_in_order:
  "let d = fold daemon_step es daemon_new in
     filter is_auth (admitted d) = filter is_auth (served d) @ auth (arb d) \<and>
     filter (\<lambda>j. \<not> is_auth j) (admitted d) = filter (\<lambda>j. \<not> is_auth j) (served d) @ other (arb d)"
  using daemon_inv_run [of es] by (simp add: daemon_inv_def history_ok_def Let_def)

text \<open>C24: Authentication goes first. While the queue is open an authentication is always
  admitted, and whatever else is queued, submitted, cancelled or closed afterwards, the
  next jobs the worker takes are the authentications queued before it, in order, and then
  this one.\<close>

theorem authentication_goes_first:
  assumes "\<not> closed (arb d)"
    and "d1 = daemon_step (Submit ClassAuth uid x) d"
    and "d2 = fold daemon_step es d1"
    and "length (auth (arb d)) < length (served d2) - length (served d1)"
  shows "fst (submit (arb d) ClassAuth uid x) = None \<and>
         take (Suc (length (auth (arb d)))) (drop (length (served d1)) (served d2)) =
           auth (arb d) @ [make_job ClassAuth uid x]"
proof -
  have "auth (arb d1) = auth (arb d) @ [make_job ClassAuth uid x]"
    and "fst (submit (arb d) ClassAuth uid x) = None"
    using assms(1) by (simp_all add: assms(2) submit_def)
  with auth_served_next [of "Suc (length (auth (arb d)))" d1 es] assms(3,4)
  show ?thesis by simp
qed

definition busy_daemon :: "(nat, unit) Daemon" where
  "busy_daemon = fold daemon_step [Submit ClassCamera 1000 1, WorkerTake, Submit ClassPlain 1000 2,
     Submit ClassAuth 0 3] daemon_new"

definition later_events :: "(nat, unit) Event list" where
  "later_events = [WorkerFinish, Submit ClassPlain 1002 5, WorkerTake, WorkerFinish, WorkerTake]"

theorem authentication_goes_first_witness:
  "take 2 (drop 1 (served (fold daemon_step later_events
       (daemon_step (Submit ClassAuth 1001 4) busy_daemon)))) =
     [make_job ClassAuth 0 3, make_job ClassAuth 1001 4]"
proof -
  have "auth (arb busy_daemon) = [make_job ClassAuth 0 3]" by code_simp
  moreover have "length (served (daemon_step (Submit ClassAuth 1001 4) busy_daemon)) = 1" by code_simp
  moreover have "\<not> closed (arb busy_daemon)" by code_simp
  moreover have "length (served (fold daemon_step later_events
       (daemon_step (Submit ClassAuth 1001 4) busy_daemon))) = 3" by code_simp
  ultimately show ?thesis
    using authentication_goes_first [of busy_daemon _ 1001 4 _ later_events, OF _ refl refl]
    by (simp add: eval_nat_numeral)
qed

text \<open>An account whose requests are all camera requests never has more than one of them
  queued or running, whatever other accounts and the worker do.\<close>

theorem one_camera_job_per_account:
  assumes "u \<noteq> 0" "camera_only u es"
  shows "length (filter (camera_job_of u) (pending_jobs (fold daemon_step es daemon_new))) \<le> 1"
proof -
  let ?d = "fold daemon_step es (daemon_new :: ('a, 'b) Daemon)"
  have "slot_exact u (daemon_new :: ('a, 'b) Daemon)"
    by (simp add: slot_exact_def daemon_new_def arbiter_new_def pending_jobs_def running_jobs_def)
  then have "slot_exact u ?d"
    using assms by (simp add: slot_exact_run daemon_inv_new)
  then have "length (filter (\<lambda>j. job_uid j = u) (pending_jobs ?d)) \<le> 1"
    by (simp add: slot_exact_def)
  moreover have "length (filter (camera_job_of u) js) \<le> length (filter (\<lambda>j. job_uid j = u) js)"
    for js :: "'a Job list"
    by (induction js) (auto simp: camera_job_of_def)
  ultimately show ?thesis by (rule order_trans [rotated])
qed

theorem one_camera_job_per_account_witness:
  "length (filter (camera_job_of 1000) (pending_jobs (fold daemon_step
     [Submit ClassCamera 1000 (1::nat), Submit ClassCamera 1000 2, Submit ClassPlain 1001 3, WorkerTake]
     (daemon_new :: (nat, unit) Daemon)))) \<le> 1"
  by (rule one_camera_job_per_account) (simp_all add: camera_only_def)

text \<open>The single-slot rule does not survive other work of the same account. The worker
  releases the account's camera slot when any of its jobs finishes (\<^verbatim>\<open>finish\<close> looks at
  the uid only), so an account that queues a plain request before a camera request holds
  two camera jobs at once after the plain one finishes.\<close>

theorem plain_job_frees_camera_slot:
  "let d = fold daemon_step
       [Submit ClassPlain 1000 (1::nat), Submit ClassCamera 1000 2, WorkerTake, WorkerFinish,
        Submit ClassCamera 1000 3] (daemon_new :: (nat, unit) Daemon)
   in filter (camera_job_of 1000) (pending_jobs d) =
        [make_job ClassCamera 1000 2, make_job ClassCamera 1000 3]"
  by (simp add: Let_def daemon_new_def arbiter_new_def submit_def take_work_def finish_def
      auth_pending_def make_job_def swap_remove_def camera_job_of_def pending_jobs_def running_jobs_def)

text \<open>No account is locked out of the camera: in every reachable state of an open queue with
  no authentication pending, an account with no camera job queued or running is admitted.\<close>

theorem camera_slot_never_leaks:
  assumes "d = fold daemon_step es daemon_new"
    and "\<not> closed (arb d)" "\<not> auth_pending (arb d)"
    and "list_all (\<lambda>j. \<not> camera_job_of u j) (pending_jobs d)"
  shows "fst (submit (arb d) ClassCamera u x) = None"
proof -
  have "u \<notin> set (camera_slots (arb d))"
    using daemon_inv_run [of es] assms(1,4)
    by (auto simp: daemon_inv_def slots_ok_def list_all_iff)
  with assms(2,3) show ?thesis by (simp add: submit_def)
qed

theorem camera_slot_never_leaks_witness:
  "fst (submit (arb (fold daemon_step [Submit ClassCamera 1000 (1::nat), WorkerTake, WorkerFinish]
      (daemon_new :: (nat, unit) Daemon))) ClassCamera 1000 2) = None"
  by (rule camera_slot_never_leaks [OF refl])
    (simp_all add: daemon_new_def arbiter_new_def submit_def take_work_def finish_def
      auth_pending_def make_job_def swap_remove_def camera_job_of_def pending_jobs_def running_jobs_def)

text \<open>Work that is not an authentication learns that it is wanted elsewhere: in every
  reachable state in which it runs while an authentication is queued, the stop signal it
  polls is raised.\<close>

theorem authentication_asks_running_work_to_stop:
  assumes "d = fold daemon_step es daemon_new"
    and "running d = Some w" "\<forall>j. w = WorkJob j \<longrightarrow> \<not> is_auth j"
    and "auth (arb d) \<noteq> []"
  shows "stop_requested (cancel (arb d))"
proof -
  have "yield_ok (daemon_new :: ('a, 'b) Daemon)"
    by (simp add: yield_ok_def daemon_new_def)
  with assms(1) have "yield_ok d" by (simp add: yield_ok_run daemon_inv_new)
  with assms(2-4) show ?thesis
    by (cases w) (simp_all add: yield_ok_def stop_requested_def)
qed

theorem authentication_asks_running_work_to_stop_witness:
  "stop_requested (cancel (arb (fold daemon_step
     [Submit ClassCamera 1000 (1::nat), WorkerTake, Submit ClassAuth 0 2] (daemon_new :: (nat, unit) Daemon))))"
  by (rule authentication_asks_running_work_to_stop [OF refl, where w = "WorkJob (make_job ClassCamera 1000 1)"])
    (simp_all add: daemon_new_def arbiter_new_def submit_def take_work_def auth_pending_def
      make_job_def is_auth_def)

text \<open>Closing loses no admitted request and the worker ends: once closed, an idle worker
  serves every queued authentication and then every other queued request, each once and in
  order, and then finds the queue drained, whatever background work is left.\<close>

theorem close_drains_the_queue:
  assumes "running d = None" "closed (arb d)"
    and "n = length (auth (arb d)) + length (other (arb d))"
  shows "let d' = fold daemon_step (drain n) d in
           served d' = served d @ auth (arb d) @ other (arb d) \<and> fst (take_work (arb d')) = Drained"
  using drain_serves [OF assms(1,2) refl] assms(3) by (simp add: Let_def)

theorem close_drains_the_queue_witness:
  "let d = fold daemon_step [Submit ClassPlain 1000 (1::nat), Submit ClassAuth 0 2,
       SubmitBackground (), Close] (daemon_new :: (nat, unit) Daemon);
       d' = fold daemon_step (drain 2) d
   in served d' = [make_job ClassAuth 0 2, make_job ClassPlain 1000 1] \<and>
      fst (take_work (arb d')) = Drained"
  using close_drains_the_queue [of "fold daemon_step [Submit ClassPlain 1000 (1::nat), Submit ClassAuth 0 2,
       SubmitBackground (), Close] (daemon_new :: (nat, unit) Daemon)" 2]
  by (simp add: Let_def daemon_new_def arbiter_new_def submit_def submit_background_def close_def
      auth_pending_def)

end
