(* ===== verification/Live_State.thy ===== *)
theory Live_State
  imports Arbiter "HOL-Library.Product_Lexorder"
begin

text \<open>
  Live status (\<^verbatim>\<open>irlume-daemon/src/live.rs\<close>): the copied observations of what the worker
  runs and what waits, the revision counters clients poll, and the view each reader
  gets. A method that takes the state's lock is one step; the clock is an argument.
  The registrations of a run are a list, and a guard is an index into it.
\<close>

type_synonym OperationId = "128 word"

section \<open>State\<close>

record Worker =
  w_id :: OperationId
  w_kind :: LiveOperationKind
  w_owner :: Owner
  w_started_ms :: u64
  w_cancelled :: bool

record AccountRevision =
  changes :: u64
  latest_change :: u64

record Inner =
  stage :: LiveStage
  revision :: u64
  shared_revision :: u64
  account_revisions :: "(u32 \<times> AccountRevision) list"
  waiting :: "((LiveOperationKind \<times> Owner) \<times> u64) list"
  worker :: "Worker option"
  background_tasks :: "Worker list"
  available :: bool

definition MAX_REVISION_ACCOUNTS :: nat where
  "MAX_REVISION_ACCOUNTS = 1024"

definition MAX_BACKGROUND_OPERATIONS :: nat where
  "MAX_BACKGROUND_OPERATIONS = 4"

definition live_new :: Inner where
  "live_new = \<lparr> stage = StageStarting, revision = 0, shared_revision = 0, account_revisions = [],
     waiting = [], worker = None, background_tasks = [], available = True \<rparr>"

datatype ChangeReaders = EveryReader | AccountReader u32 | RootReader

definition change_readers :: "LiveOperationKind \<Rightarrow> Owner \<Rightarrow> ChangeReaders" where
  "change_readers kind ow =
     (if kind = KCameraSetup \<or> kind = KCaptureQualification then EveryReader
      else case ow of
          OwnerDaemon \<Rightarrow> EveryReader
        | OwnerUnresolved \<Rightarrow> EveryReader
        | OwnerAccount uid \<Rightarrow> if uid = 0 then RootReader else AccountReader uid)"

section \<open>Revisions\<close>

text \<open>The account counts make room: at the bound, the account whose latest change is oldest
  moves its count into the shared one.\<close>

definition make_room :: "u32 \<Rightarrow> Inner \<Rightarrow> Inner" where
  "make_room uid s =
     (if map_of (account_revisions s) uid = None \<and>
         length (account_revisions s) = MAX_REVISION_ACCOUNTS
      then case min_by_key (\<lambda>e. latest_change (snd e)) (account_revisions s) of
          None \<Rightarrow> s
        | Some (evicted, account) \<Rightarrow>
            s\<lparr> account_revisions := bt_remove evicted (account_revisions s),
               shared_revision := shared_revision s + changes account \<rparr>
      else s)"

definition count_change :: "u32 \<Rightarrow> u64 \<Rightarrow> Inner \<Rightarrow> Inner" where
  "count_change uid now s =
     (let account = (case map_of (account_revisions s) uid of
                       None \<Rightarrow> \<lparr> changes = 0, latest_change = 0 \<rparr> | Some a \<Rightarrow> a)
      in s\<lparr> account_revisions := bt_update uid
              \<lparr> changes = changes account + 1, latest_change = now \<rparr> (account_revisions s) \<rparr>)"

definition note_change :: "LiveOperationKind \<Rightarrow> Owner \<Rightarrow> Inner \<Rightarrow> Inner" where
  "note_change kind ow s = (case checked_add (revision s) 1 of
      None \<Rightarrow> s\<lparr> available := False \<rparr>
    | Some now \<Rightarrow>
        (let s1 = s\<lparr> revision := now \<rparr>
         in case change_readers kind ow of
             EveryReader \<Rightarrow> s1\<lparr> shared_revision := shared_revision s1 + 1 \<rparr>
           | AccountReader uid \<Rightarrow> count_change uid now (make_room uid s1)
           | RootReader \<Rightarrow> s1))"

definition revision_for :: "Inner \<Rightarrow> u32 \<Rightarrow> u64" where
  "revision_for s peer =
     (if peer = 0 then revision s
      else shared_revision s +
        (case map_of (account_revisions s) peer of None \<Rightarrow> 0 | Some a \<Rightarrow> changes a))"

definition shows_unknown_work :: "Inner \<Rightarrow> u32 \<Rightarrow> bool" where
  "shows_unknown_work s peer \<longleftrightarrow>
     (case worker s of None \<Rightarrow> False | Some w \<Rightarrow> \<not> visible_to (w_owner w) peer) \<or>
     list_ex (\<lambda>t. \<not> visible_to (w_owner t) peer) (background_tasks s) \<or>
     list_ex (\<lambda>e. \<not> visible_to (snd (fst e)) peer) (waiting s)"

definition set_stage :: "LiveStage \<Rightarrow> Inner \<Rightarrow> Inner" where
  "set_stage st s = (if stage s \<noteq> StageStopping then s\<lparr> stage := st \<rparr> else s)"

definition note_shared_change :: "Inner \<Rightarrow> Inner" where
  "note_shared_change s = note_change KCaptureQualification OwnerDaemon s"

section \<open>Registrations\<close>

datatype Phase = Created | Waiting | Running | Finished | Untracked

datatype Lane = WorkerLane | BackgroundLane

record Registration =
  r_id :: OperationId
  r_kind :: LiveOperationKind
  r_owner :: Owner
  r_changes_state :: bool
  r_lane :: Lane
  r_phase :: Phase

definition register_in_lane ::
    "OperationId \<Rightarrow> LiveOperationKind \<Rightarrow> bool \<Rightarrow> Owner \<Rightarrow> Lane \<Rightarrow> Registration" where
  "register_in_lane i kind changes_state ow lane =
     \<lparr> r_id = i, r_kind = kind, r_owner = ow, r_changes_state = changes_state, r_lane = lane,
       r_phase = Created \<rparr>"

definition register :: "OperationId \<Rightarrow> LiveOperationKind \<Rightarrow> bool \<Rightarrow> Owner \<Rightarrow> Registration" where
  "register i kind changes_state ow = register_in_lane i kind changes_state ow WorkerLane"

definition register_background :: "OperationId \<Rightarrow> Registration" where
  "register_background i = register_in_lane i KCaptureQualification True OwnerDaemon BackgroundLane"

definition guard_waiting :: "Registration \<Rightarrow> Inner \<Rightarrow> Registration \<times> Inner" where
  "guard_waiting r s =
     (if r_phase r \<noteq> Created then (r, s)
      else if r_lane r \<noteq> WorkerLane then (r, s\<lparr> available := False \<rparr>)
      else let key = (r_kind r, r_owner r);
               count = (case map_of (waiting s) key of None \<Rightarrow> 0 | Some n \<Rightarrow> n)
      in (r\<lparr> r_phase := Waiting \<rparr>,
          case checked_add count 1 of
            Some n \<Rightarrow> s\<lparr> waiting := bt_update key n (waiting s) \<rparr>
          | None \<Rightarrow> s\<lparr> waiting := bt_update key count (waiting s), available := False \<rparr>))"

definition remove_waiter :: "LiveOperationKind \<Rightarrow> Owner \<Rightarrow> Inner \<Rightarrow> Inner" where
  "remove_waiter kind ow s = (case map_of (waiting s) (kind, ow) of
      Some n \<Rightarrow>
        if n > 1 then s\<lparr> waiting := bt_update (kind, ow) (n - 1) (waiting s) \<rparr>
        else s\<lparr> waiting := bt_remove (kind, ow) (waiting s) \<rparr>
    | None \<Rightarrow> s\<lparr> available := False \<rparr>)"

definition start_running :: "u64 \<Rightarrow> Registration \<Rightarrow> Inner \<Rightarrow> Registration \<times> Inner" where
  "start_running now_ms r s =
     (let duplicate_id = ((case worker s of None \<Rightarrow> False | Some w \<Rightarrow> w_id w = r_id r) \<or>
            list_ex (\<lambda>t. w_id t = r_id r) (background_tasks s));
          full = (case r_lane r of
             WorkerLane \<Rightarrow> worker s \<noteq> None
           | BackgroundLane \<Rightarrow> length (background_tasks s) = MAX_BACKGROUND_OPERATIONS);
          w = \<lparr> w_id = r_id r, w_kind = r_kind r, w_owner = r_owner r, w_started_ms = now_ms,
                w_cancelled = False \<rparr>
      in if duplicate_id \<or> full then (r\<lparr> r_phase := Untracked \<rparr>, s\<lparr> available := False \<rparr>)
         else (r\<lparr> r_phase := Running \<rparr>,
               case r_lane r of
                 WorkerLane \<Rightarrow> s\<lparr> worker := Some w \<rparr>
               | BackgroundLane \<Rightarrow> s\<lparr> background_tasks := background_tasks s @ [w] \<rparr>))"

definition guard_running :: "u64 \<Rightarrow> Registration \<Rightarrow> Inner \<Rightarrow> Registration \<times> Inner" where
  "guard_running now_ms r s = (case r_phase r of
      Waiting \<Rightarrow> start_running now_ms r (remove_waiter (r_kind r) (r_owner r) s)
    | Created \<Rightarrow> start_running now_ms r s
    | _ \<Rightarrow> (r, s))"

fun cancel_first :: "OperationId \<Rightarrow> Worker list \<Rightarrow> Worker list" where
  "cancel_first i [] = []"
| "cancel_first i (w # ws) =
     (if w_id w = i then w\<lparr> w_cancelled := True \<rparr> # ws else w # cancel_first i ws)"

definition guard_cancel :: "Registration \<Rightarrow> Inner \<Rightarrow> Inner" where
  "guard_cancel r s =
     (if r_phase r = Running
      then case r_lane r of
          WorkerLane \<Rightarrow> s\<lparr> worker := map_option
            (\<lambda>w. if w_id w = r_id r then w\<lparr> w_cancelled := True \<rparr> else w) (worker s) \<rparr>
        | BackgroundLane \<Rightarrow> s\<lparr> background_tasks := cancel_first (r_id r) (background_tasks s) \<rparr>
      else s)"

definition leave_lane :: "Registration \<Rightarrow> Inner \<Rightarrow> Inner" where
  "leave_lane r s = (case r_lane r of
      WorkerLane \<Rightarrow>
        if (case worker s of None \<Rightarrow> False | Some w \<Rightarrow> w_id w = r_id r)
        then s\<lparr> worker := None \<rparr> else s\<lparr> available := False \<rparr>
    | BackgroundLane \<Rightarrow> (case position (\<lambda>t. w_id t = r_id r) (background_tasks s) of
          Some i \<Rightarrow> s\<lparr> background_tasks := swap_remove i (background_tasks s) \<rparr>
        | None \<Rightarrow> s\<lparr> available := False \<rparr>))"

definition registration_finish :: "Registration \<Rightarrow> Inner \<Rightarrow> Registration \<times> Inner" where
  "registration_finish r s =
     (r\<lparr> r_phase := Finished \<rparr>,
      case r_phase r of
        Waiting \<Rightarrow> remove_waiter (r_kind r) (r_owner r) s
      | Running \<Rightarrow>
          (let s1 = leave_lane r s
           in if r_changes_state r then note_change (r_kind r) (r_owner r) s1 else s1)
      | Untracked \<Rightarrow> if r_changes_state r then note_change (r_kind r) (r_owner r) s else s
      | _ \<Rightarrow> s)"

section \<open>What a reader sees\<close>

definition visible_kind :: "LiveOperationKind \<Rightarrow> Owner \<Rightarrow> u32 \<Rightarrow> LiveOperationKind" where
  "visible_kind kind ow peer = (if visible_to ow peer then kind else KUnknown)"

definition live_stop_requested :: "CancelToken \<Rightarrow> LiveOperationKind \<Rightarrow> Owner \<Rightarrow> u32 \<Rightarrow> bool" where
  "live_stop_requested token kind ow peer =
     (let yield_shown = (peer = 0 \<or> ow = OwnerAccount peer)
      in if kind = KAuthentication \<or> kind = KWalletAuthentication \<or> kind = KUnknown
         then cancel_requested token
         else if yield_shown then stop_requested token
         else cancel_requested token)"

record LiveWorkerOperation =
  lo_id :: OperationId
  lo_kind :: LiveOperationKind
  lo_elapsed_ms :: u64
  lo_cancellation_requested :: bool

record LiveStatusSnapshot =
  ls_uptime_ms :: u64
  ls_state_revision :: u64
  ls_stage :: LiveStage
  ls_worker :: "LiveWorkerOperation option"
  ls_background :: "LiveWorkerOperation list"
  ls_waiting :: "(LiveOperationKind \<times> u64) list"
  ls_tracking_available :: bool

definition add_waiting_row ::
    "u32 \<Rightarrow> (LiveOperationKind \<times> Owner) \<times> u64 \<Rightarrow> (LiveOperationKind \<times> u64) list \<Rightarrow>
       (LiveOperationKind \<times> u64) list" where
  "add_waiting_row peer e rows =
     (let k = visible_kind (fst (fst e)) (snd (fst e)) peer;
          row = (case map_of rows k of None \<Rightarrow> 0 | Some n \<Rightarrow> n)
      in bt_update k (saturating_add row (snd e)) rows)"

definition snapshot_for :: "u64 \<Rightarrow> CancelToken option \<Rightarrow> Inner \<Rightarrow> u32 \<Rightarrow> LiveStatusSnapshot" where
  "snapshot_for now_ms token s peer =
     \<lparr> ls_uptime_ms = now_ms,
       ls_state_revision = revision_for s peer,
       ls_stage = stage s,
       ls_worker = map_option (\<lambda>w.
          let kind = visible_kind (w_kind w) (w_owner w) peer;
              requested = (case token of None \<Rightarrow> False
                 | Some t \<Rightarrow> live_stop_requested t kind (w_owner w) peer)
          in \<lparr> lo_id = w_id w, lo_kind = kind,
               lo_elapsed_ms = saturating_sub now_ms (w_started_ms w),
               lo_cancellation_requested = w_cancelled w \<or> requested \<rparr>) (worker s),
       ls_background = map (\<lambda>t.
          \<lparr> lo_id = w_id t, lo_kind = visible_kind (w_kind t) (w_owner t) peer,
            lo_elapsed_ms = saturating_sub now_ms (w_started_ms t),
            lo_cancellation_requested = w_cancelled t \<rparr>) (background_tasks s),
       ls_waiting = fold (add_waiting_row peer) (waiting s) [],
       ls_tracking_available = available s \<rparr>"

section \<open>The counters add up\<close>

definition own_changes :: "Inner \<Rightarrow> u32 \<Rightarrow> nat" where
  "own_changes s p = (case map_of (account_revisions s) p of None \<Rightarrow> 0 | Some a \<Rightarrow> unat (changes a))"

definition counted :: "Inner \<Rightarrow> nat" where
  "counted s = unat (shared_revision s) +
     sum_list (map (\<lambda>e. unat (changes (snd e))) (account_revisions s))"

definition revision_ok :: "Inner \<Rightarrow> bool" where
  "revision_ok s \<longleftrightarrow>
     bt_ok (account_revisions s) \<and> length (account_revisions s) \<le> MAX_REVISION_ACCOUNTS \<and>
     counted s \<le> unat (revision s)"

lemma sum_bt_remove:
  assumes "distinct (map fst m)"
  shows "sum_list (map (\<lambda>e. f (snd e)) (bt_remove k m)) +
     (case map_of m k of None \<Rightarrow> 0 | Some v \<Rightarrow> f v) = (sum_list (map (\<lambda>e. f (snd e)) m) :: nat)"
  using assms
proof (induction m)
  case (Cons e m)
  have "bt_remove k m = m" if "k \<notin> fst ` set m"
    using that by (auto simp: bt_remove_def filter_id_conv)
  with Cons show ?case
    by (cases e) (auto simp: bt_remove_def map_of_eq_None_iff split: option.splits)
qed (simp add: bt_remove_def)

lemma sum_bt_update:
  assumes "bt_ok m"
  shows "sum_list (map (\<lambda>e. f (snd e)) (bt_update k v m)) +
     (case map_of m k of None \<Rightarrow> 0 | Some v \<Rightarrow> f v) = (sum_list (map (\<lambda>e. f (snd e)) m) + f v :: nat)"
  using assms
proof (induction k v m rule: bt_update.induct)
  case (2 k v k' v' m)
  have "map_of m k = None" if "k < k'"
    using 2(2) that by (force simp: bt_ok_def map_of_eq_None_iff)
  with 2 show ?case by (auto simp: bt_ok_def split: option.splits)
qed simp

lemma own_changes_le: "revision_ok s \<Longrightarrow> own_changes s p \<le> counted s - unat (shared_revision s)"
  using sum_bt_remove [OF bt_ok_distinct, of "account_revisions s" "\<lambda>a. unat (changes a)" p]
  by (simp add: revision_ok_def own_changes_def counted_def)

lemma revision_for_unat:
  assumes "revision_ok s" "p \<noteq> 0"
  shows "unat (revision_for s p) = unat (shared_revision s) + own_changes s p"
proof -
  have "unat (shared_revision s) + own_changes s p \<le> unat (revision s)"
    using own_changes_le [OF assms(1), of p] assms(1) by (simp add: revision_ok_def counted_def)
  also have "\<dots> < 2 ^ 64" by (rule unat_u64)
  finally show ?thesis
    using assms(2) by (auto simp: revision_for_def own_changes_def unat_add_lem [THEN iffD1] split: option.splits)
qed

text \<open>Making room keeps the total, gives the evicted account its count back through the
  shared one, and leaves a place for the account that needs it.\<close>

lemma make_room:
  assumes ok: "revision_ok s"
  shows "revision_ok (make_room uid s)" (is ?a)
    and "counted (make_room uid s) = counted s" (is ?b)
    and "revision (make_room uid s) = revision s" (is ?c)
    and "unat (shared_revision s) + own_changes s p
           \<le> unat (shared_revision (make_room uid s)) + own_changes (make_room uid s) p" (is ?d)
    and "map_of (account_revisions (make_room uid s)) uid \<noteq> None \<or>
         length (account_revisions (make_room uid s)) < MAX_REVISION_ACCOUNTS" (is ?e)
proof -
  show ?c by (simp add: make_room_def split: option.split)
  have "?a \<and> ?b \<and> ?d \<and> ?e"
  proof (cases "map_of (account_revisions s) uid = None \<and> length (account_revisions s) = MAX_REVISION_ACCOUNTS")
    case False
    then have "make_room uid s = s" by (auto simp: make_room_def)
    with ok False show ?thesis by (auto simp: revision_ok_def)
  next
    case True
    then have "account_revisions s \<noteq> []" by (auto simp: MAX_REVISION_ACCOUNTS_def)
    then obtain ev ac where
      m: "min_by_key (\<lambda>e. latest_change (snd e)) (account_revisions s) = Some (ev, ac)"
      by (metis min_by_key_None not_None_eq surj_pair)
    have bt: "bt_ok (account_revisions s)" using ok by (simp add: revision_ok_def)
    from min_by_key_mem [OF m] have ev: "map_of (account_revisions s) ev = Some ac"
      using bt_ok_distinct [OF bt] by simp
    let ?s = "make_room uid s"
    have s: "?s = s\<lparr> account_revisions := bt_remove ev (account_revisions s),
        shared_revision := shared_revision s + changes ac \<rparr>"
      using True m by (simp add: make_room_def)
    note sums = sum_bt_remove [OF bt_ok_distinct [OF bt], of "\<lambda>a. unat (changes a)" ev]
    have "unat (shared_revision s) + unat (changes ac) \<le> counted s"
      using sums ev by (simp add: counted_def)
    also have "\<dots> < 2 ^ 64"
      using ok unat_u64 [of "revision s"] by (simp add: revision_ok_def)
    finally have sh: "unat (shared_revision s + changes ac) = unat (shared_revision s) + unat (changes ac)"
      by (simp add: unat_add_lem [THEN iffD1])
    have len: "length (account_revisions ?s) < MAX_REVISION_ACCOUNTS"
      using True length_filter_less [OF min_by_key_mem [OF m], of "\<lambda>e. fst e \<noteq> ev"]
      by (simp add: s bt_remove_def)
    have cnt: "counted ?s = counted s" using sums ev by (simp add: s counted_def sh)
    have "own_changes ?s p = (if p = ev then 0 else own_changes s p)"
      by (simp add: s own_changes_def)
    moreover have "own_changes s ev = unat (changes ac)" using ev by (simp add: own_changes_def)
    ultimately have ?d by (auto simp: s sh)
    with len cnt ok bt show ?thesis by (simp add: revision_ok_def bt_ok_remove s)
  qed
  then show ?a ?b ?d ?e by blast+
qed

lemma count_change:
  assumes ok: "revision_ok s" and lt: "counted s < unat (revision s)"
    and room: "map_of (account_revisions s) uid \<noteq> None \<or> length (account_revisions s) < MAX_REVISION_ACCOUNTS"
  shows "revision_ok (count_change uid now s)"
    and "own_changes (count_change uid now s) p = own_changes s p + (if p = uid then 1 else 0)"
    and "shared_revision (count_change uid now s) = shared_revision s"
    and "revision (count_change uid now s) = revision s"
proof -
  have bt: "bt_ok (account_revisions s)" using ok by (simp add: revision_ok_def)
  let ?a = "case map_of (account_revisions s) uid of
      None \<Rightarrow> \<lparr> changes = 0, latest_change = 0 \<rparr> | Some a \<Rightarrow> a"
  have old: "unat (changes ?a) = own_changes s uid"
    by (simp add: own_changes_def split: option.split)
  have "own_changes s uid < unat (revision s)"
    using own_changes_le [OF ok, of uid] lt by (simp add: counted_def)
  then have "unat (changes ?a) + 1 < 2 ^ 64" using old unat_u64 [of "revision s"] by linarith
  then have new: "unat (changes ?a + 1) = own_changes s uid + 1"
    using old by (simp add: unat_add_lem [THEN iffD1])
  show own: "own_changes (count_change uid now s) p = own_changes s p + (if p = uid then 1 else 0)"
    using new by (simp add: count_change_def own_changes_def Let_def)
  show "shared_revision (count_change uid now s) = shared_revision s"
    and "revision (count_change uid now s) = revision s"
    by (simp_all add: count_change_def Let_def)
  note sums = sum_bt_update [OF bt, of "\<lambda>a. unat (changes a)" uid
      "\<lparr> changes = changes ?a + 1, latest_change = now \<rparr>"]
  have "counted (count_change uid now s) + own_changes s uid = counted s + (own_changes s uid + 1)"
    using sums new by (simp add: counted_def count_change_def Let_def own_changes_def)
  then have "counted (count_change uid now s) \<le> unat (revision s)" using lt by simp
  moreover have "length (account_revisions (count_change uid now s)) \<le> MAX_REVISION_ACCOUNTS"
  proof (cases "uid \<in> fst ` set (account_revisions s)")
    case True
    with ok bt show ?thesis
      by (simp add: count_change_def Let_def length_bt_update revision_ok_def)
  next
    case False
    then have "map_of (account_revisions s) uid = None" by (simp add: map_of_eq_None_iff)
    with False room bt show ?thesis by (simp add: count_change_def Let_def length_bt_update)
  qed
  ultimately show "revision_ok (count_change uid now s)"
    using bt by (simp add: revision_ok_def count_change_def Let_def bt_ok_update)
qed

text \<open>One completed change: the counters still add up, no reader's revision falls, every
  reader the change concerns sees it move, and no other reader's moves unless the table of
  account counts was full.\<close>

definition concerns :: "ChangeReaders \<Rightarrow> u32 \<Rightarrow> bool" where
  "concerns cr p \<longleftrightarrow> p = 0 \<or> cr = EveryReader \<or> cr = AccountReader p"

definition table_full :: "ChangeReaders \<Rightarrow> Inner \<Rightarrow> bool" where
  "table_full cr s = (case cr of
      AccountReader u \<Rightarrow> map_of (account_revisions s) u = None \<and>
        length (account_revisions s) = MAX_REVISION_ACCOUNTS
    | _ \<Rightarrow> False)"

lemma change_readers_nonroot: "change_readers kind ow = AccountReader u \<Longrightarrow> u \<noteq> 0"
  by (auto simp: change_readers_def split: if_splits Owner.splits)

lemma note_change_shape:
  assumes "revision s \<noteq> - 1"
  shows "note_change kind ow s =
     (let s1 = s\<lparr> revision := revision s + 1 \<rparr>
      in case change_readers kind ow of
          EveryReader \<Rightarrow> s1\<lparr> shared_revision := shared_revision s1 + 1 \<rparr>
        | AccountReader uid \<Rightarrow> count_change uid (revision s + 1) (make_room uid s1)
        | RootReader \<Rightarrow> s1)"
  using assms by (simp add: note_change_def checked_add_one)

lemma note_change_ok:
  assumes ok: "revision_ok s" and rev: "revision s \<noteq> - 1"
  shows "revision_ok (note_change kind ow s)"
    and "unat (revision_for s p) + (if concerns (change_readers kind ow) p then 1 else 0)
           \<le> unat (revision_for (note_change kind ow s) p)"
    and "\<not> concerns (change_readers kind ow) p \<Longrightarrow> \<not> table_full (change_readers kind ow) s \<Longrightarrow>
           revision_for (note_change kind ow s) p = revision_for s p"
proof -
  let ?s = "note_change kind ow s"
  let ?s1 = "s\<lparr> revision := revision s + 1 \<rparr>"
  have up: "unat (revision s + 1) = unat (revision s) + 1"
    using checked_add_SomeD(1) [of "revision s" 1] rev by (simp add: checked_add_one)
  have ok1: "revision_ok ?s1" and lt1: "counted ?s1 < unat (revision ?s1)"
    using ok up by (auto simp: revision_ok_def counted_def)
  have "revision_ok ?s \<and> revision ?s = revision s + 1 \<and>
     (p \<noteq> 0 \<longrightarrow> unat (shared_revision s) + own_changes s p +
        (if concerns (change_readers kind ow) p then 1 else 0)
          \<le> unat (shared_revision ?s) + own_changes ?s p) \<and>
     (\<not> concerns (change_readers kind ow) p \<longrightarrow> \<not> table_full (change_readers kind ow) s \<longrightarrow>
        unat (shared_revision ?s) + own_changes ?s p = unat (shared_revision s) + own_changes s p)"
  proof (cases "change_readers kind ow")
    case EveryReader
    then have s: "?s = ?s1\<lparr> shared_revision := shared_revision s + 1 \<rparr>"
      by (simp add: note_change_shape [OF rev] Let_def)
    have "unat (shared_revision s) < unat (revision ?s1)" using lt1 by (simp add: counted_def)
    then have "unat (shared_revision s) + 1 < 2 ^ 64" using unat_u64 [of "revision ?s1"] by linarith
    then have sh: "unat (shared_revision s + 1) = unat (shared_revision s) + 1"
      by (simp add: unat_add_lem [THEN iffD1])
    show ?thesis
      using ok1 lt1 unfolding s EveryReader
      by (simp add: revision_ok_def counted_def own_changes_def sh concerns_def)
  next
    case RootReader
    then have s: "?s = ?s1" by (simp add: note_change_shape [OF rev])
    show ?thesis using ok1 unfolding s RootReader by (simp add: own_changes_def concerns_def)
  next
    case (AccountReader u)
    let ?m = "make_room u ?s1"
    have s: "?s = count_change u (revision s + 1) ?m"
      using AccountReader by (simp add: note_change_shape [OF rev] Let_def)
    note room = make_room [OF ok1, where uid = u]
    have "counted ?m < unat (revision ?m)" using lt1 room(2,3) by simp
    note cc = count_change [OF room(1) this room(5), where now = "revision s + 1"]
    have "unat (shared_revision s) + own_changes s p \<le> unat (shared_revision ?m) + own_changes ?m p"
      using room(4) [where p = p] by (simp add: own_changes_def)
    moreover have "?m = ?s1" if "\<not> table_full (AccountReader u) s"
      using that by (auto simp: table_full_def make_room_def)
    ultimately show ?thesis
      unfolding s AccountReader using cc room(3)
      by (auto simp: concerns_def own_changes_def)
  qed
  then have ok': "revision_ok ?s" and r: "revision ?s = revision s + 1"
    and grow: "p \<noteq> 0 \<longrightarrow> unat (shared_revision s) + own_changes s p +
        (if concerns (change_readers kind ow) p then 1 else 0)
          \<le> unat (shared_revision ?s) + own_changes ?s p"
    and same: "\<not> concerns (change_readers kind ow) p \<longrightarrow> \<not> table_full (change_readers kind ow) s \<longrightarrow>
        unat (shared_revision ?s) + own_changes ?s p = unat (shared_revision s) + own_changes s p"
    by blast+
  show "revision_ok ?s" by (rule ok')
  show "unat (revision_for s p) + (if concerns (change_readers kind ow) p then 1 else 0)
           \<le> unat (revision_for ?s p)"
  proof (cases "p = 0")
    case True
    then show ?thesis using r up by (simp add: revision_for_def concerns_def)
  next
    case False
    with grow show ?thesis by (simp add: revision_for_unat [OF ok] revision_for_unat [OF ok'])
  qed
  show "revision_for ?s p = revision_for s p"
    if "\<not> concerns (change_readers kind ow) p" "\<not> table_full (change_readers kind ow) s"
  proof -
    from that(1) have "p \<noteq> 0" by (simp add: concerns_def)
    with same that revision_for_unat [OF ok] revision_for_unat [OF ok'] show ?thesis
      by (simp add: word_unat_eq_iff)
  qed
qed

lemma note_change_exhausted: "revision s = - 1 \<Longrightarrow> note_change kind ow s = s\<lparr> available := False \<rparr>"
  by (simp add: note_change_def checked_add_one)

section \<open>The tracker and its guards\<close>

record Live =
  inner :: Inner
  regs :: "Registration list"

definition live_start :: Live where
  "live_start = \<lparr> inner = live_new, regs = [] \<rparr>"

datatype LiveEvent =
    LRegister OperationId LiveOperationKind bool Owner
  | LRegisterBackground OperationId
  | LWaiting nat
  | LRunning nat u64
  | LCancel nat
  | LFinish nat
  | LSharedChange
  | LStage LiveStage

definition on_guard :: "nat \<Rightarrow> (Registration \<Rightarrow> Inner \<Rightarrow> Registration \<times> Inner) \<Rightarrow> Live \<Rightarrow> Live" where
  "on_guard i f L =
     (if i < length (regs L)
      then case f (regs L ! i) (inner L) of
          (r, s) \<Rightarrow> L\<lparr> inner := s, regs := (regs L)[i := r] \<rparr>
      else L)"

primrec live_step :: "LiveEvent \<Rightarrow> Live \<Rightarrow> Live" where
  "live_step (LRegister i k c ow) L = L\<lparr> regs := regs L @ [register i k c ow] \<rparr>"
| "live_step (LRegisterBackground i) L = L\<lparr> regs := regs L @ [register_background i] \<rparr>"
| "live_step (LWaiting i) L = on_guard i guard_waiting L"
| "live_step (LRunning i now) L = on_guard i (guard_running now) L"
| "live_step (LCancel i) L = on_guard i (\<lambda>r s. (r, guard_cancel r s)) L"
| "live_step (LFinish i) L = on_guard i registration_finish L"
| "live_step LSharedChange L = L\<lparr> inner := note_shared_change (inner L) \<rparr>"
| "live_step (LStage st) L = L\<lparr> inner := set_stage st (inner L) \<rparr>"

section \<open>Revisions along a run\<close>

definition rev_part :: "Inner \<Rightarrow> u64 \<times> u64 \<times> (u32 \<times> AccountRevision) list" where
  "rev_part s = (revision s, shared_revision s, account_revisions s)"

lemma rev_part_ops [simp]:
  "rev_part (snd (guard_waiting r s)) = rev_part s"
  "rev_part (remove_waiter k ow s) = rev_part s"
  "rev_part (snd (start_running now r s)) = rev_part s"
  "rev_part (guard_cancel r s) = rev_part s"
  "rev_part (leave_lane r s) = rev_part s"
  "rev_part (set_stage st s) = rev_part s"
  by (auto simp: rev_part_def guard_waiting_def remove_waiter_def start_running_def guard_cancel_def
      leave_lane_def set_stage_def Let_def split: option.splits Lane.splits)

lemma rev_part_running [simp]: "rev_part (snd (guard_running now r s)) = rev_part s"
  by (simp add: guard_running_def split: Phase.split)

lemma inner_on_guard:
  "inner (on_guard i f L) = (if i < length (regs L) then snd (f (regs L ! i) (inner L)) else inner L)"
  by (simp add: on_guard_def split: prod.split)

lemma regs_on_guard:
  "regs (on_guard i f L) =
     (if i < length (regs L) then (regs L)[i := fst (f (regs L ! i) (inner L))] else regs L)"
  by (simp add: on_guard_def split: prod.split)

text \<open>Whatever a step does, its effect on the counters is nothing or one \<^const>\<open>note_change\<close>.\<close>

lemma finish_rev_part:
  "rev_part (snd (registration_finish r s)) = rev_part s \<or>
   (\<exists>k ow s1. rev_part s1 = rev_part s \<and>
      rev_part (snd (registration_finish r s)) = rev_part (note_change k ow s1))"
proof (cases "r_changes_state r \<and> (r_phase r = Running \<or> r_phase r = Untracked)")
  case True
  then have "snd (registration_finish r s) = note_change (r_kind r) (r_owner r)
      (if r_phase r = Running then leave_lane r s else s)"
    by (auto simp: registration_finish_def Let_def)
  moreover have "rev_part (if r_phase r = Running then leave_lane r s else s) = rev_part s" by simp
  ultimately show ?thesis by metis
next
  case False
  then show ?thesis
    by (cases "r_phase r") (simp_all add: registration_finish_def Let_def)
qed

lemma step_rev_part:
  "rev_part (inner (live_step e L)) = rev_part (inner L) \<or>
   (\<exists>k ow s. rev_part s = rev_part (inner L) \<and>
      rev_part (inner (live_step e L)) = rev_part (note_change k ow s))"
proof (cases e)
  case (LFinish i)
  then show ?thesis using finish_rev_part by (simp add: inner_on_guard)
next
  case LSharedChange
  then show ?thesis by (auto simp: note_shared_change_def)
qed (simp_all add: inner_on_guard)

lemma revision_ok_rev_part: "rev_part s = rev_part t \<Longrightarrow> revision_ok s = revision_ok t"
  and revision_for_rev_part: "rev_part s = rev_part t \<Longrightarrow> revision_for s p = revision_for t p"
  by (simp_all add: rev_part_def revision_ok_def counted_def revision_for_def)

lemma note_change_any:
  assumes "revision_ok s"
  shows "revision_ok (note_change k ow s) \<and> revision_for s p \<le> revision_for (note_change k ow s) p"
proof (cases "revision s = - 1")
  case True
  then have "rev_part (note_change k ow s) = rev_part s"
    by (simp add: note_change_exhausted rev_part_def)
  with assms revision_ok_rev_part revision_for_rev_part show ?thesis by (metis order_refl)
next
  case False
  from note_change_ok(1) [OF assms this, of k ow] note_change_ok(2) [OF assms this, of p k ow]
  show ?thesis by (simp add: word_le_nat_alt)
qed

lemma revision_step:
  assumes "revision_ok (inner L)"
  shows "revision_ok (inner (live_step e L)) \<and>
         revision_for (inner L) p \<le> revision_for (inner (live_step e L)) p"
  using step_rev_part [of e L]
proof
  assume "rev_part (inner (live_step e L)) = rev_part (inner L)"
  with assms revision_ok_rev_part revision_for_rev_part show ?thesis by (metis order_refl)
next
  assume "\<exists>k ow s. rev_part s = rev_part (inner L) \<and>
      rev_part (inner (live_step e L)) = rev_part (note_change k ow s)"
  then obtain k ow s where s: "rev_part s = rev_part (inner L)"
    and t: "rev_part (inner (live_step e L)) = rev_part (note_change k ow s)" by blast
  from note_change_any [of s k ow p] assms revision_ok_rev_part [OF s] revision_for_rev_part [OF s, of p]
    revision_ok_rev_part [OF t] revision_for_rev_part [OF t, of p]
  show ?thesis by simp
qed

interpretation live: monotone_system
  "\<lambda>L. L = live_start" "\<lambda>L L'. \<exists>e. L' = live_step e L" "\<lambda>L. revision_ok (inner L)"
  "\<lambda>L. revision_for (inner L)"
proof unfold_locales
  fix L assume "L = live_start"
  then show "revision_ok (inner L)"
    by (simp add: live_start_def live_new_def revision_ok_def bt_ok_def counted_def)
qed (auto simp: revision_step le_fun_def)

lemma live_run: "rtranclp (\<lambda>L L'. \<exists>e. L' = live_step e L) L (fold live_step es L)"
proof (induction es arbitrary: L)
  case (Cons e es)
  have "(\<lambda>L L'. \<exists>e. L' = live_step e L) L (live_step e L)" by blast
  with Cons [of "live_step e L"] show ?case by (simp add: converse_rtranclp_into_rtranclp)
qed simp

section \<open>The waiting counts are the waiting requests\<close>

definition waits_as :: "LiveOperationKind \<times> Owner \<Rightarrow> Registration \<Rightarrow> bool" where
  "waits_as key r \<longleftrightarrow> r_phase r = Waiting \<and> (r_kind r, r_owner r) = key"

definition wait_count :: "Registration list \<Rightarrow> LiveOperationKind \<times> Owner \<Rightarrow> nat" where
  "wait_count rs key = length (filter (waits_as key) rs)"

definition waiting_ok :: "Live \<Rightarrow> bool" where
  "waiting_ok L \<longleftrightarrow> bt_ok (waiting (inner L)) \<and>
     (\<forall>key. map_of (waiting (inner L)) key =
        (if wait_count (regs L) key = 0 then None else Some (word_of_nat (wait_count (regs L) key))))"

lemma filter_update_length:
  "i < length xs \<Longrightarrow> length (filter P (xs[i := y])) + (if P (xs ! i) then 1 else 0) =
     length (filter P xs) + (if P y then 1 else 0)"
proof (induction xs arbitrary: i)
  case (Cons x xs)
  then show ?case by (cases i) auto
qed simp

lemma wait_count_update:
  "i < length rs \<Longrightarrow> wait_count (rs[i := r]) key + (if waits_as key (rs ! i) then 1 else 0) =
     wait_count rs key + (if waits_as key r then 1 else 0)"
  unfolding wait_count_def by (rule filter_update_length)

lemma wait_count_le: "wait_count rs key \<le> length rs"
  by (simp add: wait_count_def)

lemma wait_count_pos: "i < length rs \<Longrightarrow> waits_as key (rs ! i) \<Longrightarrow> 0 < wait_count rs key"
  by (auto simp: wait_count_def filter_empty_conv)

lemma wait_count_less:
  assumes "i < length rs" "\<not> waits_as key (rs ! i)"
  shows "wait_count rs key < length rs"
  using length_filter_less [OF nth_mem [OF assms(1)], of "waits_as key"] assms(2)
  by (simp add: wait_count_def)

lemma unat_word_of_nat_u64: "n < 2 ^ 64 \<Longrightarrow> unat (word_of_nat n :: u64) = n"
  by (simp add: unsigned_of_nat take_bit_nat_eq_self)

lemma waiting_lookup:
  "waiting_ok L \<Longrightarrow> map_of (waiting (inner L)) key =
     (if wait_count (regs L) key = 0 then None else Some (word_of_nat (wait_count (regs L) key)))"
  unfolding waiting_ok_def by blast

lemma waiting_okI:
  assumes "bt_ok (waiting (inner L))"
    and "\<And>key. map_of (waiting (inner L)) key =
      (if wait_count (regs L) key = 0 then None else Some (word_of_nat (wait_count (regs L) key)))"
  shows "waiting_ok L"
  using assms unfolding waiting_ok_def by blast

lemma waiting_default:
  "waiting_ok L \<Longrightarrow> (case map_of (waiting (inner L)) key of None \<Rightarrow> 0 | Some n \<Rightarrow> n) =
     word_of_nat (wait_count (regs L) key)"
  by (simp add: waiting_lookup)

lemma guard_waiting_enters:
  assumes ok: "waiting_ok L" and i: "i < length (regs L)" "length (regs L) < 2 ^ 64"
    and r: "r_phase (regs L ! i) = Created" "r_lane (regs L ! i) = WorkerLane"
    and key: "key = (r_kind (regs L ! i), r_owner (regs L ! i))"
  shows "guard_waiting (regs L ! i) (inner L) =
     ((regs L ! i)\<lparr> r_phase := Waiting \<rparr>, (inner L)\<lparr> waiting :=
        bt_update key (word_of_nat (wait_count (regs L) key + 1)) (waiting (inner L)) \<rparr>)"
proof -
  let ?c = "wait_count (regs L) key"
  have "?c < length (regs L)" using i(1) r by (intro wait_count_less [of i]) (simp_all add: waits_as_def)
  with i(2) have c: "?c + 1 < 2 ^ 64" by linarith
  then have "unat (word_of_nat ?c :: u64) + unat (1 :: u64) < 2 ^ LENGTH(64)"
    using unat_word_of_nat_u64 [of ?c] by simp
  moreover have "(word_of_nat ?c :: u64) + 1 = word_of_nat (?c + 1)"
    by (simp add: add.commute)
  ultimately have "checked_add (word_of_nat ?c :: u64) 1 = Some (word_of_nat (?c + 1))"
    unfolding checked_add_def by (simp only: if_True)
  with r show ?thesis
    by (simp add: guard_waiting_def Let_def key [symmetric] waiting_default [OF ok])
qed

lemma remove_waiter_leaves:
  assumes ok: "waiting_ok L" and i: "i < length (regs L)" "length (regs L) < 2 ^ 64"
    and r: "r_phase (regs L ! i) = Waiting"
    and key: "key = (r_kind (regs L ! i), r_owner (regs L ! i))"
  shows "remove_waiter (fst key) (snd key) (inner L) = (inner L)\<lparr> waiting :=
       if wait_count (regs L) key = 1 then bt_remove key (waiting (inner L))
       else bt_update key (word_of_nat (wait_count (regs L) key - 1)) (waiting (inner L)) \<rparr>"
proof -
  let ?c = "wait_count (regs L) key"
  have pos: "0 < ?c" using i(1) r key by (intro wait_count_pos [of i]) (simp_all add: waits_as_def)
  have "?c < 2 ^ 64" using wait_count_le [of "regs L" key] i(2) by linarith
  then have u: "unat (word_of_nat ?c :: u64) = ?c" by (rule unat_word_of_nat_u64)
  have gt: "(word_of_nat ?c :: u64) > 1 \<longleftrightarrow> ?c \<noteq> 1"
    using u pos by (auto simp: word_less_nat_alt)
  have m: "map_of (waiting (inner L)) key = Some (word_of_nat ?c)"
    using pos by (simp add: waiting_lookup [OF ok])
  show ?thesis
    using m gt pos by (cases key) (simp add: remove_waiter_def of_nat_diff)
qed

lemma waiting_ok_change:
  assumes ok: "waiting_ok L" and i: "i < length (regs L)"
    and r': "regs L' = (regs L)[i := r']" and bt: "bt_ok (waiting (inner L'))"
    and same: "r_kind r' = r_kind (regs L ! i)" "r_owner r' = r_owner (regs L ! i)"
    and key: "key = (r_kind r', r_owner r')"
    and m: "map_of (waiting (inner L')) = (map_of (waiting (inner L)))(key :=
       if wait_count (regs L') key = 0 then None else Some (word_of_nat (wait_count (regs L') key)))"
  shows "waiting_ok L'"
proof -
  have "wait_count (regs L') k = wait_count (regs L) k" if "k \<noteq> key" for k
    using wait_count_update [OF i, of r' k] that same by (auto simp: r' key waits_as_def)
  with bt m show ?thesis by (intro waiting_okI) (simp_all add: waiting_lookup [OF ok])
qed

lemma waiting_ok_frame:
  assumes "waiting_ok L" "i < length (regs L)" "waiting (inner L') = waiting (inner L)"
    and "regs L' = (regs L)[i := r']"
    and "\<And>key. waits_as key r' = waits_as key (regs L ! i)"
  shows "waiting_ok L'"
proof -
  have "wait_count (regs L') key = wait_count (regs L) key" for key
    using wait_count_update [OF assms(2), of r' key] assms(4,5) by simp
  with assms(1,3) show ?thesis
    by (intro waiting_okI) (simp_all add: waiting_lookup [OF assms(1)] waiting_ok_def)
qed

lemma waiting_enter_ok:
  assumes ok: "waiting_ok L" and i: "i < length (regs L)" "length (regs L) < 2 ^ 64"
  shows "waiting_ok (on_guard i guard_waiting L)" (is "waiting_ok ?L")
proof (cases "r_phase (regs L ! i) = Created \<and> r_lane (regs L ! i) = WorkerLane")
  case True
  let ?r = "regs L ! i"
  define key where key: "key = (r_kind ?r, r_owner ?r)"
  from True have "guard_waiting ?r (inner L) = (?r\<lparr> r_phase := Waiting \<rparr>, (inner L)\<lparr> waiting :=
        bt_update key (word_of_nat (wait_count (regs L) key + 1)) (waiting (inner L)) \<rparr>)"
    by (intro guard_waiting_enters [OF ok i]) (simp_all add: key)
  then have L: "?L = L\<lparr> inner := (inner L)\<lparr> waiting :=
        bt_update key (word_of_nat (wait_count (regs L) key + 1)) (waiting (inner L)) \<rparr>,
      regs := (regs L)[i := ?r\<lparr> r_phase := Waiting \<rparr>] \<rparr>"
    using i by (simp add: on_guard_def)
  have c: "wait_count (regs ?L) key = wait_count (regs L) key + 1"
    using wait_count_update [OF i(1), of "?r\<lparr> r_phase := Waiting \<rparr>" key] True
    by (simp add: L waits_as_def key)
  show ?thesis
  proof (rule waiting_ok_change [OF ok i(1)])
    show "regs ?L = (regs L)[i := ?r\<lparr> r_phase := Waiting \<rparr>]" by (simp add: L)
    show "bt_ok (waiting (inner ?L))" using ok by (simp add: L bt_ok_update waiting_ok_def)
    show "map_of (waiting (inner ?L)) = (map_of (waiting (inner L)))(key :=
       if wait_count (regs ?L) key = 0 then None else Some (word_of_nat (wait_count (regs ?L) key)))"
      unfolding c by (simp add: L)
  qed (simp_all add: key)
next
  case False
  then have "guard_waiting (regs L ! i) (inner L) = (regs L ! i, inner L) \<or>
      guard_waiting (regs L ! i) (inner L) = (regs L ! i, (inner L)\<lparr> available := False \<rparr>)"
    by (simp add: guard_waiting_def)
  then show ?thesis
    using i by (intro waiting_ok_frame [OF ok i(1), of _ "regs L ! i"]) (auto simp: on_guard_def)
qed

lemma waiting_leave_ok:
  assumes ok: "waiting_ok L" and i: "i < length (regs L)" "length (regs L) < 2 ^ 64"
    and r: "r_phase (regs L ! i) = Waiting" and r': "r_phase r' \<noteq> Waiting"
    and same: "r_kind r' = r_kind (regs L ! i)" "r_owner r' = r_owner (regs L ! i)"
    and L': "regs L' = (regs L)[i := r']"
    and w': "waiting (inner L') = waiting (remove_waiter (r_kind r') (r_owner r') (inner L))"
  shows "waiting_ok L'"
proof -
  define key where key: "key = (r_kind (regs L ! i), r_owner (regs L ! i))"
  have rem: "waiting (inner L') = (if wait_count (regs L) key = 1 then bt_remove key (waiting (inner L))
       else bt_update key (word_of_nat (wait_count (regs L) key - 1)) (waiting (inner L)))"
    using remove_waiter_leaves [OF ok i r key] w' same key by simp
  have c: "wait_count (regs L') key + 1 = wait_count (regs L) key"
    using wait_count_update [OF i(1), of r' key] r r' by (simp add: L' waits_as_def key)
  then have cut: "wait_count (regs L) key = 1 \<longleftrightarrow> wait_count (regs L') key = 0"
    "wait_count (regs L) key - 1 = wait_count (regs L') key" by linarith+
  show ?thesis
  proof (rule waiting_ok_change [OF ok i(1) L'])
    show "bt_ok (waiting (inner L'))"
      using ok by (simp add: rem bt_ok_update bt_ok_remove waiting_ok_def)
    show "map_of (waiting (inner L')) = (map_of (waiting (inner L)))(key :=
       if wait_count (regs L') key = 0 then None else Some (word_of_nat (wait_count (regs L') key)))"
      unfolding rem cut by simp
  qed (simp_all add: same key)
qed

end
