(* ===== verification/Live_Views.thy ===== *)
theory Live_Views
  imports Live_State
begin

text \<open>
  What a reader of live status can learn. The waiting rows of a snapshot count exactly
  the waiting requests by the kind the reader may see; a change moves the revision of those
  who read it, and no revision falls; and a camera request is refused for hidden work exactly when the reader's snapshot already
  shows unknown work.
\<close>

section \<open>The waiting counts along a run\<close>

lemma on_guard_out: "\<not> i < length (regs L) \<Longrightarrow> on_guard i f L = L"
  by (simp add: on_guard_def)

lemma waiting_ok_bt: "waiting_ok L \<Longrightarrow> bt_ok (waiting (inner L))"
  by (simp add: waiting_ok_def)

lemma waiting_ops [simp]:
  "waiting (guard_cancel r s) = waiting s"
  "waiting (leave_lane r s) = waiting s"
  "waiting (note_change k ow s) = waiting s"
  "waiting (set_stage st s) = waiting s"
  "waiting (snd (start_running now r s)) = waiting s"
  by (auto simp: guard_cancel_def leave_lane_def note_change_def set_stage_def start_running_def
      make_room_def count_change_def Let_def split: option.splits Lane.splits ChangeReaders.splits)

lemma start_running_reg:
  "fst (start_running now r s) = r\<lparr> r_phase := r_phase (fst (start_running now r s)) \<rparr>"
  "r_phase (fst (start_running now r s)) = Running \<or> r_phase (fst (start_running now r s)) = Untracked"
  by (simp_all add: start_running_def Let_def)

lemma waiting_running_ok:
  assumes ok: "waiting_ok L" and i: "i < length (regs L)" "length (regs L) < 2 ^ 64"
  shows "waiting_ok (on_guard i (guard_running now) L)"
proof -
  let ?r = "regs L ! i" and ?s = "inner L"
  show ?thesis
  proof (cases "r_phase ?r")
    case Waiting
    let ?t = "remove_waiter (r_kind ?r) (r_owner ?r) ?s"
    let ?r' = "fst (start_running now ?r ?t)"
    have kind: "r_kind ?r' = r_kind ?r" "r_owner ?r' = r_owner ?r"
      using start_running_reg(1) [of now ?r ?t] by (metis Registration.select_convs(2,3) Registration.surjective Registration.update_convs(6))+
    show ?thesis
      using start_running_reg(2) [of now ?r ?t] Waiting i
      by (intro waiting_leave_ok [OF ok i Waiting, of ?r'])
        (auto simp: kind inner_on_guard regs_on_guard guard_running_def)
  next
    case Created
    let ?r' = "fst (start_running now ?r ?s)"
    show ?thesis
      using start_running_reg(2) [of now ?r ?s] Created i
      by (intro waiting_ok_frame [OF ok i(1), of _ ?r'])
        (auto simp: inner_on_guard regs_on_guard guard_running_def waits_as_def)
  qed (use ok i in \<open>simp_all add: on_guard_def guard_running_def\<close>)
qed

lemma waiting_finish_ok:
  assumes ok: "waiting_ok L" and i: "i < length (regs L)" "length (regs L) < 2 ^ 64"
  shows "waiting_ok (on_guard i registration_finish L)"
proof (cases "r_phase (regs L ! i) = Waiting")
  case True
  then show ?thesis
    using i by (intro waiting_leave_ok [OF ok i True, of "(regs L ! i)\<lparr> r_phase := Finished \<rparr>"])
      (simp_all add: inner_on_guard regs_on_guard registration_finish_def)
next
  case False
  then show ?thesis
    using i by (intro waiting_ok_frame [OF ok i(1), of _ "(regs L ! i)\<lparr> r_phase := Finished \<rparr>"])
      (auto simp: inner_on_guard regs_on_guard registration_finish_def waits_as_def Let_def
        split: Phase.split)
qed

lemma waiting_ok_append:
  assumes "waiting_ok L" "r_phase r = Created"
  shows "waiting_ok (L\<lparr> regs := regs L @ [r] \<rparr>)"
proof -
  have "wait_count (regs L @ [r]) key = wait_count (regs L) key" for key
    using assms(2) by (simp add: wait_count_def waits_as_def)
  then show ?thesis
    by (intro waiting_okI) (simp_all add: waiting_lookup [OF assms(1)] waiting_ok_bt [OF assms(1)])
qed

lemma waiting_ok_step:
  assumes ok: "waiting_ok L" and len: "length (regs L) < 2 ^ 64"
  shows "waiting_ok (live_step e L)"
proof (cases e)
  case (LRegister i k c ow)
  then show ?thesis by (simp add: waiting_ok_append [OF ok] register_def register_in_lane_def)
next
  case (LRegisterBackground i)
  then show ?thesis
    by (simp add: waiting_ok_append [OF ok] register_background_def register_in_lane_def)
next
  case (LWaiting i)
  then show ?thesis
    using ok len waiting_enter_ok by (cases "i < length (regs L)") (simp_all add: on_guard_out)
next
  case (LRunning i now)
  then show ?thesis
    using ok len waiting_running_ok by (cases "i < length (regs L)") (simp_all add: on_guard_out)
next
  case (LCancel i)
  show ?thesis
  proof (cases "i < length (regs L)")
    case True
    then show ?thesis
      by (intro waiting_ok_frame [OF ok True, of _ "regs L ! i"])
        (simp_all add: LCancel inner_on_guard regs_on_guard)
  qed (use ok LCancel in \<open>simp add: on_guard_def\<close>)
next
  case (LFinish i)
  then show ?thesis
    using ok len waiting_finish_ok by (cases "i < length (regs L)") (simp_all add: on_guard_out)
next
  case LSharedChange
  then show ?thesis
    by (intro waiting_okI) (simp_all add: note_shared_change_def waiting_lookup [OF ok] waiting_ok_bt [OF ok])
next
  case (LStage st)
  then show ?thesis
    by (intro waiting_okI) (simp_all add: waiting_lookup [OF ok] waiting_ok_bt [OF ok])
qed

section \<open>The rows a reader sees\<close>

definition entry_kind :: "u32 \<Rightarrow> (LiveOperationKind \<times> Owner) \<times> u64 \<Rightarrow> LiveOperationKind" where
  "entry_kind p e = visible_kind (fst (fst e)) (snd (fst e)) p"

definition row_sum :: "u32 \<Rightarrow> LiveOperationKind \<Rightarrow> ((LiveOperationKind \<times> Owner) \<times> u64) list \<Rightarrow> nat" where
  "row_sum p k es = sum_list (map (\<lambda>e. unat (snd e)) (filter (\<lambda>e. entry_kind p e = k) es))"

lemma add_waiting_row_map:
  assumes "unat (case map_of rows k of None \<Rightarrow> 0 | Some n \<Rightarrow> n) + unat (snd e) < 2 ^ 64"
  shows "map_of (add_waiting_row p e rows) k =
    (if entry_kind p e = k
     then Some (word_of_nat (unat (case map_of rows k of None \<Rightarrow> 0 | Some n \<Rightarrow> n) + unat (snd e)))
     else map_of rows k)"
proof -
  let ?n = "case map_of rows k of None \<Rightarrow> 0 | Some n \<Rightarrow> n"
  have "saturating_add ?n (snd e) = word_of_nat (unat ?n + unat (snd e))"
    using assms by (simp add: saturating_add_def)
  then show ?thesis
    by (auto simp: add_waiting_row_def entry_kind_def Let_def)
qed

lemma rows_fold:
  assumes "unat (case map_of rows k of None \<Rightarrow> 0 | Some n \<Rightarrow> n) + row_sum p k es < 2 ^ 64"
  shows "map_of (fold (add_waiting_row p) es rows) k =
    (if \<exists>e\<in>set es. entry_kind p e = k
     then Some (word_of_nat (unat (case map_of rows k of None \<Rightarrow> 0 | Some n \<Rightarrow> n) + row_sum p k es))
     else map_of rows k)"
  using assms
proof (induction es arbitrary: rows)
  case (Cons e es)
  let ?d = "\<lambda>rows. unat (case map_of rows k of None \<Rightarrow> 0 | Some n \<Rightarrow> n)"
  let ?rows = "add_waiting_row p e rows"
  show ?case
  proof (cases "entry_kind p e = k")
    case True
    then have sum: "row_sum p k (e # es) = unat (snd e) + row_sum p k es" by (simp add: row_sum_def)
    then have "?d rows + unat (snd e) < 2 ^ 64" using Cons.prems by linarith
    then have r: "map_of ?rows k = Some (word_of_nat (?d rows + unat (snd e)))"
      using add_waiting_row_map [of rows k e p] True by (simp only: refl if_True)
    with \<open>?d rows + unat (snd e) < 2 ^ 64\<close> have d: "?d ?rows = ?d rows + unat (snd e)"
      by (simp only: option.case unat_word_of_nat_u64)
    have "?d ?rows + row_sum p k es < 2 ^ 64" using Cons.prems sum d by simp
    from Cons.IH [OF this] True r d sum show ?thesis
      by (cases "\<exists>e\<in>set es. entry_kind p e = k")
        (simp_all add: row_sum_def [of p k es] add.assoc filter_empty_conv)
  next
    case False
    then have sum: "row_sum p k (e # es) = row_sum p k es" by (simp add: row_sum_def)
    have "map_of ?rows k = map_of rows k"
      using False by (simp add: add_waiting_row_def entry_kind_def Let_def)
    with Cons.IH [of ?rows] Cons.prems False sum show ?thesis by simp
  qed
qed (simp add: row_sum_def)

lemma rows_bt_ok: "bt_ok rows \<Longrightarrow> bt_ok (fold (add_waiting_row p) es rows)"
  by (induction es arbitrary: rows) (simp_all add: add_waiting_row_def bt_ok_update Let_def)

lemma bt_ok_eqI:
  assumes "bt_ok m" "bt_ok m'" "map_of m = map_of m'"
  shows "m = m'"
proof -
  have keys: "map fst m = map fst m'"
    using assms by (intro sorted_distinct_set_unique)
      (auto simp: bt_ok_def strict_sorted_iff dom_map_of_conv_image_fst [symmetric])
  have "map (\<lambda>k. (k, the (map_of n k))) (map fst n) = n" if "bt_ok n" for n :: "('a \<times> 'b) list"
    using bt_ok_distinct [OF that] by (auto simp: list.map_comp intro!: map_idI)
  from this [OF assms(1)] this [OF assms(2)] keys assms(3) show ?thesis by metis
qed

text \<open>The requests that wait and that reader \<open>p\<close> sees under kind \<open>k\<close>.\<close>

definition seen_waiting :: "u32 \<Rightarrow> LiveOperationKind \<Rightarrow> Registration list \<Rightarrow> nat" where
  "seen_waiting p k rs =
     length (filter (\<lambda>r. r_phase r = Waiting \<and> visible_kind (r_kind r) (r_owner r) p = k) rs)"

lemma length_filter_partition:
  assumes "finite S" "\<forall>x\<in>set xs. P x \<longrightarrow> g x \<in> S"
  shows "length (filter P xs) = (\<Sum>k\<in>S. length (filter (\<lambda>x. P x \<and> g x = k) xs))"
  using assms(2)
proof (induction xs)
  case (Cons x xs)
  have "(\<Sum>k\<in>S. length (filter (\<lambda>y. P y \<and> g y = k) (x # xs))) =
      (\<Sum>k\<in>S. (if P x \<and> g x = k then 1 else 0) + length (filter (\<lambda>y. P y \<and> g y = k) xs))"
    by (intro sum.cong) auto
  also have "\<dots> = (\<Sum>k\<in>S. if P x \<and> g x = k then 1 else 0) + length (filter P xs)"
    using Cons by (simp add: sum.distrib)
  also have "(\<Sum>k\<in>S. if P x \<and> g x = k then 1 else 0) = (if P x then 1 else 0 :: nat)"
    using Cons.prems assms(1) by (cases "P x") (simp_all add: sum.delta)
  finally show ?case by simp
qed simp

lemma row_sum_waiting:
  assumes ok: "waiting_ok L" and len: "length (regs L) < 2 ^ 64"
  shows "row_sum p k (waiting (inner L)) = seen_waiting p k (regs L)"
proof -
  let ?Q = "\<lambda>key. visible_kind (fst key) (snd key) p = k"
  let ?W = "filter (\<lambda>e. ?Q (fst e)) (waiting (inner L))"
  have dk: "distinct (map fst (waiting (inner L)))"
    using ok by (simp add: waiting_ok_bt bt_ok_distinct)
  then have d: "distinct ?W" and inj: "inj_on fst (set ?W)"
    by (auto simp: distinct_map inj_on_def)
  have n: "unat (snd e) = wait_count (regs L) (fst e)" if "e \<in> set (waiting (inner L))" for e
  proof -
    from that dk have "map_of (waiting (inner L)) (fst e) = Some (snd e)" by simp
    then have "snd e = word_of_nat (wait_count (regs L) (fst e))"
      by (simp add: waiting_lookup [OF ok] split: if_splits)
    then show ?thesis
      using wait_count_le [of "regs L" "fst e"] len by (simp add: unat_word_of_nat_u64)
  qed
  have "row_sum p k (waiting (inner L)) = (\<Sum>e\<in>set ?W. unat (snd e))"
    using d by (simp add: row_sum_def entry_kind_def sum_list_distinct_conv_sum_set)
  also have "\<dots> = (\<Sum>e\<in>set ?W. wait_count (regs L) (fst e))" using n by (intro sum.cong) auto
  also have "\<dots> = (\<Sum>key\<in>fst ` set ?W. wait_count (regs L) key)"
    using inj by (simp add: sum.reindex)
  also have "\<dots> = (\<Sum>key\<in>fst ` set ?W. length (filter (\<lambda>r. (r_phase r = Waiting \<and>
      visible_kind (r_kind r) (r_owner r) p = k) \<and> (r_kind r, r_owner r) = key) (regs L)))"
    by (intro sum.cong refl) (auto simp: wait_count_def waits_as_def intro!: arg_cong [of _ _ length] filter_cong)
  also have "\<dots> = seen_waiting p k (regs L)"
    unfolding seen_waiting_def
  proof (rule length_filter_partition [symmetric], simp, intro ballI impI)
    fix r assume r: "r \<in> set (regs L)"
      "r_phase r = Waiting \<and> visible_kind (r_kind r) (r_owner r) p = k"
    let ?key = "(r_kind r, r_owner r)"
    from r have "0 < wait_count (regs L) ?key"
      by (auto simp: wait_count_def waits_as_def filter_empty_conv)
    then have "map_of (waiting (inner L)) ?key \<noteq> None" by (simp add: waiting_lookup [OF ok])
    then obtain v where "(?key, v) \<in> set (waiting (inner L))" by (auto dest: map_of_SomeD)
    with r(2) show "?key \<in> fst ` set ?W" by force
  qed
  finally show ?thesis .
qed

lemma waiting_rows:
  assumes ok: "waiting_ok L" and len: "length (regs L) < 2 ^ 64"
  shows "map_of (ls_waiting (snapshot_for now token (inner L) p)) k =
     (if seen_waiting p k (regs L) = 0 then None else Some (word_of_nat (seen_waiting p k (regs L))))"
proof -
  have le: "seen_waiting p k (regs L) \<le> length (regs L)" by (simp add: seen_waiting_def)
  have sum: "row_sum p k (waiting (inner L)) = seen_waiting p k (regs L)"
    by (rule row_sum_waiting [OF ok len])
  have "(\<exists>e\<in>set (waiting (inner L)). entry_kind p e = k) \<longleftrightarrow> seen_waiting p k (regs L) \<noteq> 0"
  proof
    assume "\<exists>e\<in>set (waiting (inner L)). entry_kind p e = k"
    then obtain key n where e: "(key, n) \<in> set (waiting (inner L))" "entry_kind p (key, n) = k" by auto
    then have "map_of (waiting (inner L)) key = Some n"
      using ok by (simp add: waiting_ok_bt bt_ok_distinct)
    then have "wait_count (regs L) key \<noteq> 0" by (auto simp: waiting_lookup [OF ok] split: if_splits)
    then show "seen_waiting p k (regs L) \<noteq> 0"
      using e(2) by (auto simp: wait_count_def waits_as_def seen_waiting_def filter_empty_conv entry_kind_def)
  next
    assume "seen_waiting p k (regs L) \<noteq> 0"
    then have "row_sum p k (waiting (inner L)) \<noteq> 0" by (simp add: sum)
    then show "\<exists>e\<in>set (waiting (inner L)). entry_kind p e = k"
      by (auto simp: row_sum_def filter_empty_conv)
  qed
  with rows_fold [of "[]" k p "waiting (inner L)"] sum le len show ?thesis
    by (simp add: snapshot_for_def)
qed

lemma rev_part_fields:
  "rev_part s = rev_part s' \<longleftrightarrow> revision s = revision s' \<and>
     shared_revision s = shared_revision s' \<and> account_revisions s = account_revisions s'"
  by (auto simp: rev_part_def)

lemma note_change_frame:
  "stage (note_change k ow s) = stage s" "worker (note_change k ow s) = worker s"
  "background_tasks (note_change k ow s) = background_tasks s"
  by (auto simp: note_change_def make_room_def count_change_def Let_def
      split: option.splits ChangeReaders.splits)

lemma regs_grow: "length (regs (live_step e L)) \<le> Suc (length (regs L))"
  by (cases e) (simp_all add: regs_on_guard)

section \<open>Known kinds\<close>

text \<open>No request registers under the kind a reader is shown for hidden work.\<close>

definition known_event :: "LiveEvent \<Rightarrow> bool" where
  "known_event e = (case e of LRegister _ k _ _ \<Rightarrow> k \<noteq> KUnknown | _ \<Rightarrow> True)"

definition kinds_known :: "Live \<Rightarrow> bool" where
  "kinds_known L \<longleftrightarrow>
     (\<forall>r\<in>set (regs L). r_kind r \<noteq> KUnknown) \<and>
     (\<forall>w. worker (inner L) = Some w \<longrightarrow> w_kind w \<noteq> KUnknown) \<and>
     (\<forall>t\<in>set (background_tasks (inner L)). w_kind t \<noteq> KUnknown)"

definition lanes_known :: "Inner \<Rightarrow> bool" where
  "lanes_known s \<longleftrightarrow> (\<forall>w. worker s = Some w \<longrightarrow> w_kind w \<noteq> KUnknown) \<and>
     (\<forall>t\<in>set (background_tasks s). w_kind t \<noteq> KUnknown)"

lemma lanes_known_frame:
  "worker s' = worker s \<Longrightarrow> background_tasks s' = background_tasks s \<Longrightarrow> lanes_known s' = lanes_known s"
  by (simp add: lanes_known_def)

lemma set_swap_remove: "set (swap_remove i xs) \<subseteq> set xs"
proof (cases "i < length xs")
  case True
  then have "mset (swap_remove i xs) \<subseteq># mset xs" by (simp add: mset_swap_remove)
  then show ?thesis by (metis set_mset_mono set_mset_mset)
qed (simp add: swap_remove_def)

lemma set_cancel_first: "t \<in> set (cancel_first i ws) \<Longrightarrow> \<exists>w\<in>set ws. w_kind t = w_kind w"
  by (induction ws) (auto split: if_splits)

lemma lanes_known_ops:
  assumes "lanes_known s"
  shows "lanes_known (snd (guard_waiting r s))" "lanes_known (remove_waiter k ow s)"
    "lanes_known (note_change k ow s)" "lanes_known (set_stage st s)"
    "lanes_known (guard_cancel r s)" "lanes_known (leave_lane r s)"
    "r_kind r \<noteq> KUnknown \<Longrightarrow> lanes_known (snd (start_running now r s))"
proof -
  show "lanes_known (guard_cancel r s)"
    using assms by (auto simp: lanes_known_def guard_cancel_def split: Lane.splits dest!: set_cancel_first)
  show "lanes_known (leave_lane r s)"
    using assms set_swap_remove by (auto simp: lanes_known_def leave_lane_def split: Lane.splits option.splits dest!: subsetD [OF set_swap_remove])
  show "r_kind r \<noteq> KUnknown \<Longrightarrow> lanes_known (snd (start_running now r s))"
    using assms by (auto simp: lanes_known_def start_running_def Let_def split: Lane.splits)
qed (use assms in \<open>simp_all add: lanes_known_def guard_waiting_def remove_waiter_def set_stage_def
      note_change_frame Let_def split: option.splits\<close>)

lemma guard_kinds:
  "r_kind (fst (guard_waiting r s)) = r_kind r" "r_kind (fst (guard_running now r s)) = r_kind r"
  "r_kind (fst (registration_finish r s)) = r_kind r"
  by (simp_all add: guard_waiting_def guard_running_def start_running_def registration_finish_def Let_def
      split: Phase.split)

lemma kinds_known_step:
  assumes "kinds_known L" "known_event e"
  shows "kinds_known (live_step e L)"
proof -
  have s: "lanes_known (inner L)" and r: "\<forall>r\<in>set (regs L). r_kind r \<noteq> KUnknown"
    using assms(1) by (auto simp: kinds_known_def lanes_known_def)
  have regs: "\<forall>r\<in>set (regs (live_step e L)). r_kind r \<noteq> KUnknown"
    using r assms(2)
    by (cases e) (auto simp: known_event_def regs_on_guard register_def register_background_def
        register_in_lane_def guard_kinds dest!: set_update_subset_insert [THEN subsetD])
  have "lanes_known (inner (live_step e L))"
    using s r lanes_known_ops
    by (cases e) (auto simp: inner_on_guard note_shared_change_def guard_running_def
        registration_finish_def Let_def split: Phase.split)
  with regs show ?thesis by (auto simp: kinds_known_def lanes_known_def)
qed

lemma kinds_known_run:
  "kinds_known L \<Longrightarrow> list_all known_event es \<Longrightarrow> kinds_known (fold live_step es L)"
  by (induction es arbitrary: L) (simp_all add: kinds_known_step)

lemma waiting_ok_run:
  "waiting_ok L \<Longrightarrow> length (regs L) + length es < 2 ^ 64 \<Longrightarrow>
     waiting_ok (fold live_step es L) \<and> length (regs (fold live_step es L)) < 2 ^ 64"
proof (induction es arbitrary: L)
  case (Cons e es)
  have "length (regs (live_step e L)) + length es < 2 ^ 64"
    using regs_grow [of e L] Cons.prems(2) by simp
  moreover have "waiting_ok (live_step e L)"
    using Cons.prems by (intro waiting_ok_step) simp_all
  ultimately show ?case using Cons.IH by simp
qed simp

lemma waiting_ok_start: "waiting_ok live_start"
  by (intro waiting_okI) (simp_all add: live_start_def live_new_def wait_count_def bt_ok_def)

section \<open>Properties\<close>

definition history_of :: "LiveOperationKind \<Rightarrow> LiveEvent list" where
  "history_of k = [LRegister 1 k True (OwnerAccount 1001), LRegister 2 KFraming False (OwnerAccount 1000),
     LWaiting 0, LWaiting 1, LRunning 0 5]"

text \<open>C37: The waiting rows of a snapshot are exact: after any run, the row a reader finds under a
  kind counts the requests that are waiting and that it sees under that kind, and a kind with
  no such request has no row.\<close>

theorem waiting_rows_count_the_waiting:
  assumes "length es < 2 ^ 64" "L = fold live_step es live_start"
  shows "map_of (ls_waiting (snapshot_for now token (inner L) p)) k =
     (let n = length (filter (\<lambda>r. r_phase r = Waiting \<and> visible_kind (r_kind r) (r_owner r) p = k) (regs L))
      in if n = 0 then None else Some (word_of_nat n))"
  using waiting_rows [of L now token p k] waiting_ok_run [OF waiting_ok_start, of es] assms
  by (simp add: live_start_def seen_waiting_def Let_def)

theorem waiting_rows_count_the_waiting_witness:
  "map_of (ls_waiting (snapshot_for 9 None (inner (fold live_step (history_of KEnrollment) live_start)) 1000))
     KFraming = Some 1"
  using waiting_rows_count_the_waiting [of "history_of KEnrollment" _ 9 None 1000 KFraming, OF _ refl]
  by (simp add: history_of_def live_start_def live_new_def on_guard_def guard_waiting_def guard_running_def
      register_def register_in_lane_def visible_kind_def checked_add_def start_running_def
      remove_waiter_def Let_def)

text \<open>A reader's revision never goes back within a daemon's lifetime, whatever completes in
  between and however often the table of account counts evicts an account.\<close>

theorem revision_never_falls:
  "revision_for (inner (fold live_step es live_start)) p \<le>
     revision_for (inner (fold live_step (es @ es') live_start)) p"
proof -
  let ?L = "fold live_step es live_start"
  have "revision_ok (inner ?L)" using live.inv_reachable [OF refl live_run] .
  then have "revision_for (inner ?L) \<le> revision_for (inner (fold live_step es' ?L))"
    by (rule live.rank_run [OF live_run])
  then show ?thesis by (simp add: le_fun_def)
qed

text \<open>A completed change moves the revision of exactly the readers it concerns. When a tracked or
  untracked operation that may have changed state finishes, root and every reader the change
  concerns see a larger revision; every other reader's stays where it was, unless the table of
  account counts was full and had to evict one.\<close>

theorem change_moves_its_readers_revision:
  assumes "L = fold live_step es live_start" "i < length (regs L)" "r = regs L ! i"
    and "r_phase r = Running \<or> r_phase r = Untracked" "r_changes_state r"
    and "revision (inner L) \<noteq> - 1"
  shows "(concerns (change_readers (r_kind r) (r_owner r)) p \<longrightarrow>
            revision_for (inner L) p < revision_for (inner (live_step (LFinish i) L)) p) \<and>
         (\<not> concerns (change_readers (r_kind r) (r_owner r)) p \<and>
          \<not> table_full (change_readers (r_kind r) (r_owner r)) (inner L) \<longrightarrow>
            revision_for (inner (live_step (LFinish i) L)) p = revision_for (inner L) p)"
proof -
  define s where "s = (if r_phase r = Running then leave_lane r (inner L) else inner L)"
  have rp: "rev_part s = rev_part (inner L)" by (simp add: s_def)
  have "revision_ok (inner L)" using live.inv_reachable [OF refl live_run] assms(1) by simp
  with revision_ok_rev_part [OF rp] have ok: "revision_ok s" by simp
  have eq: "revision s = revision (inner L)" "account_revisions s = account_revisions (inner L)"
    using rp unfolding rev_part_fields by blast+
  have rev: "revision s \<noteq> - 1" unfolding eq by (rule assms(6))
  have full: "table_full cr s = table_full cr (inner L)" for cr
    unfolding table_full_def eq ..
  have "inner (live_step (LFinish i) L) = note_change (r_kind r) (r_owner r) s"
    using assms(2-5) by (auto simp: inner_on_guard registration_finish_def Let_def s_def)
  with note_change_ok(2) [OF ok rev, of p "r_kind r" "r_owner r"]
    note_change_ok(3) [OF ok rev, of "r_kind r" "r_owner r" p] revision_for_rev_part [OF rp, of p] full
  show ?thesis by (auto simp: word_less_nat_alt)
qed

lemma history_state:
  "fold live_step (history_of KEnrollment) live_start =
     \<lparr> inner = live_new\<lparr> waiting := [((KFraming, OwnerAccount 1000), 1)],
        worker := Some \<lparr> w_id = 1, w_kind = KEnrollment, w_owner = OwnerAccount 1001, w_started_ms = 5,
          w_cancelled = False \<rparr> \<rparr>,
      regs = [(register 1 KEnrollment True (OwnerAccount 1001))\<lparr> r_phase := Running \<rparr>,
        (register 2 KFraming False (OwnerAccount 1000))\<lparr> r_phase := Waiting \<rparr>] \<rparr>"
  by (simp add: history_of_def live_start_def live_new_def on_guard_def guard_waiting_def
      guard_running_def register_def register_in_lane_def checked_add_def start_running_def
      remove_waiter_def bt_remove_def less_prod_simp less_LiveOperationKind_def Let_def)

theorem change_moves_its_readers_revision_witness:
  "revision_for (inner (live_step (LFinish 0) (fold live_step (history_of KEnrollment) live_start))) 1000 =
   revision_for (inner (fold live_step (history_of KEnrollment) live_start)) 1000"
  using change_moves_its_readers_revision [of "fold live_step (history_of KEnrollment) live_start"
      "history_of KEnrollment" 0 "regs (fold live_step (history_of KEnrollment) live_start) ! 0" 1000]
  by (simp add: history_state concerns_def change_readers_def table_full_def live_new_def
      MAX_REVISION_ACCOUNTS_def register_def register_in_lane_def del: live_step.simps)

text \<open>Refusing camera work for hidden work reveals nothing new: the condition on which the daemon
  refuses a peer is exactly that the peer's own snapshot shows unknown work, running, in the
  background or waiting.\<close>

theorem hidden_work_refusal_shows_in_the_snapshot:
  assumes "length es < 2 ^ 64" "list_all known_event es" "s = inner (fold live_step es live_start)"
  shows "shows_unknown_work s p \<longleftrightarrow>
     (let v = snapshot_for now token s p in
        (\<exists>w. ls_worker v = Some w \<and> lo_kind w = KUnknown) \<or>
        (\<exists>w\<in>set (ls_background v). lo_kind w = KUnknown) \<or>
        KUnknown \<in> fst ` set (ls_waiting v))"
proof -
  let ?L = "fold live_step es live_start"
  have known: "kinds_known ?L"
    using assms(2) by (intro kinds_known_run) (simp_all add: kinds_known_def live_start_def live_new_def)
  have ok: "waiting_ok ?L" and len: "length (regs ?L) < 2 ^ 64"
    using waiting_ok_run [OF waiting_ok_start, of es] assms(1) by (simp_all add: live_start_def)
  have vk: "visible_kind k ow p = KUnknown \<longleftrightarrow> \<not> visible_to ow p" if "k \<noteq> KUnknown" for k ow
    using that by (simp add: visible_kind_def)
  have "KUnknown \<in> fst ` set (ls_waiting (snapshot_for now token (inner ?L) p)) \<longleftrightarrow>
      seen_waiting p KUnknown (regs ?L) \<noteq> 0"
    using waiting_rows [OF ok len, of now token p KUnknown]
      map_of_eq_None_iff [of "ls_waiting (snapshot_for now token (inner ?L) p)" KUnknown]
    by (cases "seen_waiting p KUnknown (regs ?L) = 0") simp_all
  also have "\<dots> \<longleftrightarrow> (\<exists>r\<in>set (regs ?L). r_phase r = Waiting \<and> \<not> visible_to (r_owner r) p)"
    using known vk by (auto simp: seen_waiting_def filter_empty_conv kinds_known_def)
  also have "\<dots> \<longleftrightarrow> list_ex (\<lambda>e. \<not> visible_to (snd (fst e)) p) (waiting (inner ?L))"
  proof
    assume "\<exists>r\<in>set (regs ?L). r_phase r = Waiting \<and> \<not> visible_to (r_owner r) p"
    then obtain r where r: "r \<in> set (regs ?L)" "r_phase r = Waiting" "\<not> visible_to (r_owner r) p" by blast
    then have "wait_count (regs ?L) (r_kind r, r_owner r) \<noteq> 0"
      by (auto simp: wait_count_def waits_as_def filter_empty_conv)
    then have "map_of (waiting (inner ?L)) (r_kind r, r_owner r) \<noteq> None"
      by (simp add: waiting_lookup [OF ok])
    with r(3) show "list_ex (\<lambda>e. \<not> visible_to (snd (fst e)) p) (waiting (inner ?L))"
      by (force simp: list_ex_iff dest: map_of_SomeD)
  next
    assume "list_ex (\<lambda>e. \<not> visible_to (snd (fst e)) p) (waiting (inner ?L))"
    then obtain k ow n where e: "((k, ow), n) \<in> set (waiting (inner ?L))" "\<not> visible_to ow p"
      by (force simp: list_ex_iff)
    then have "map_of (waiting (inner ?L)) (k, ow) = Some n"
      using ok by (simp add: waiting_ok_bt bt_ok_distinct)
    then have "wait_count (regs ?L) (k, ow) \<noteq> 0" by (auto simp: waiting_lookup [OF ok] split: if_splits)
    with e(2) show "\<exists>r\<in>set (regs ?L). r_phase r = Waiting \<and> \<not> visible_to (r_owner r) p"
      by (auto simp: wait_count_def waits_as_def filter_empty_conv)
  qed
  finally have waiting_part: "KUnknown \<in> fst ` set (ls_waiting (snapshot_for now token (inner ?L) p)) \<longleftrightarrow>
      list_ex (\<lambda>e. \<not> visible_to (snd (fst e)) p) (waiting (inner ?L))" .
  have bg: "(\<exists>w\<in>set (ls_background (snapshot_for now token (inner ?L) p)). lo_kind w = KUnknown) \<longleftrightarrow>
      list_ex (\<lambda>t. \<not> visible_to (w_owner t) p) (background_tasks (inner ?L))"
    using known vk by (auto simp: snapshot_for_def list_ex_iff kinds_known_def)
  have wk: "(\<exists>w. ls_worker (snapshot_for now token (inner ?L) p) = Some w \<and> lo_kind w = KUnknown) \<longleftrightarrow>
      (case worker (inner ?L) of None \<Rightarrow> False | Some w \<Rightarrow> \<not> visible_to (w_owner w) p)"
    using known vk by (auto simp: snapshot_for_def kinds_known_def Let_def split: option.splits)
  show ?thesis
    unfolding assms(3) Let_def shows_unknown_work_def wk bg waiting_part ..
qed

theorem hidden_work_refusal_shows_in_the_snapshot_witness:
  "(let v = snapshot_for 9 None (inner (fold live_step (history_of KEnrollment) live_start)) 1000 in
     (\<exists>w. ls_worker v = Some w \<and> lo_kind w = KUnknown) \<or>
     (\<exists>w\<in>set (ls_background v). lo_kind w = KUnknown) \<or> KUnknown \<in> fst ` set (ls_waiting v))"
proof -
  have "shows_unknown_work (inner (fold live_step (history_of KEnrollment) live_start)) 1000"
    by (simp add: history_state shows_unknown_work_def)
  then show ?thesis
    using hidden_work_refusal_shows_in_the_snapshot [of "history_of KEnrollment" _ 1000 9 None, OF _ _ refl]
    by (simp add: history_of_def known_event_def)
qed

end
