(* ===== verification/Fallible.thy ===== *)
theory Fallible
  imports Main
begin

text \<open>
  Operations on a store that may fail: what Rust's \<^verbatim>\<open>Result\<close> and \<^verbatim>\<open>?\<close> do, over an explicit
  state, since the steps before a failure have happened. Two ways to reason about a run of
  them are shared by the stores of the program: a relation every step keeps, and triples.
\<close>

section \<open>Fallible operations on the disk\<close>

datatype IoErr = InvalidData | OsError

type_synonym 'a io = "IoErr + 'a"
type_synonym ('s, 'e, 'a) op = "'s \<Rightarrow> ('e + 'a) \<times> 's"
type_synonym ('s, 'a) io_op = "('s, IoErr, 'a) op"

definition io_bind :: "('s, 'e, 'a) op \<Rightarrow> ('a \<Rightarrow> ('s, 'e, 'b) op) \<Rightarrow> ('s, 'e, 'b) op" where
  "io_bind m f s = (case m s of (Inl e, t) \<Rightarrow> (Inl e, t) | (Inr x, t) \<Rightarrow> f x t)"

definition io_return :: "'a \<Rightarrow> ('s, 'e, 'a) op" where
  "io_return x s = (Inr x, s)"

definition io_lift :: "'e + 'a \<Rightarrow> ('s, 'e, 'a) op" where
  "io_lift r s = (r, s)"

definition io_require :: "bool \<Rightarrow> ('s, unit) io_op" where
  "io_require b = io_lift (if b then Inr () else Inl InvalidData)"

text \<open>\<^verbatim>\<open>map_err\<close> with a fixed message.\<close>

definition map_err :: "'f \<Rightarrow> ('s, 'e, 'a) op \<Rightarrow> ('s, 'f, 'a) op" where
  "map_err f m s = (case m s of (Inl _, t) \<Rightarrow> (Inl f, t) | (Inr x, t) \<Rightarrow> (Inr x, t))"

definition or_invalid :: "'a option \<Rightarrow> 'a io" where
  "or_invalid x = (case x of None \<Rightarrow> Inl InvalidData | Some y \<Rightarrow> Inr y)"

lemma io_bind_Inr:
  "io_bind m f s = (Inr y, t) \<longleftrightarrow> (\<exists>x u. m s = (Inr x, u) \<and> f x u = (Inr y, t))"
  by (auto simp: io_bind_def split: prod.splits sum.splits)

lemma io_bind_assoc: "io_bind (io_bind m f) g = io_bind m (\<lambda>x. io_bind (f x) g)"
  by (rule ext) (simp add: io_bind_def split: prod.split sum.split)

lemma io_lift_Inr [simp]: "io_lift r s = (Inr x, t) \<longleftrightarrow> r = Inr x \<and> t = s"
  by (auto simp: io_lift_def)

lemma io_return_Inr [simp]: "io_return x s = (Inr y, t) \<longleftrightarrow> y = x \<and> t = s"
  by (auto simp: io_return_def)

lemma io_require_Inr [simp]: "io_require b s = (Inr x, t) \<longleftrightarrow> b \<and> t = s"
  by (simp add: io_require_def)

lemma or_invalid_Inr [simp]: "or_invalid x = Inr y \<longleftrightarrow> x = Some y"
  by (simp add: or_invalid_def split: option.splits)

text \<open>What a run of operations does to the disk, whether it ends well or not.\<close>

definition keeps :: "('s \<Rightarrow> 's \<Rightarrow> bool) \<Rightarrow> ('s, 'e, 'a) op \<Rightarrow> bool" where
  "keeps R m \<longleftrightarrow> (\<forall>s. R s (snd (m s)))"

lemma snd_io_simps [simp]:
  "snd (io_lift r s) = s" "snd (io_return x s) = s" "snd (io_require b s) = s"
  by (simp_all add: io_lift_def io_return_def io_require_def)

lemma keeps_pure [intro, simp]:
  "reflp R \<Longrightarrow> keeps R (io_lift r)" "reflp R \<Longrightarrow> keeps R (io_return x)"
  "reflp R \<Longrightarrow> keeps R (io_require b)"
  by (simp_all add: keeps_def io_lift_def io_return_def io_require_def reflp_def)

lemma snd_map_err [simp]: "snd (map_err f m s) = snd (m s)"
  by (simp add: map_err_def split: prod.split sum.split)

lemma map_err_Inr [simp]: "fst (map_err f m s) = Inr x \<longleftrightarrow> fst (m s) = Inr x"
  by (simp add: map_err_def split: prod.split sum.split)

lemma keeps_map_err [simp]: "keeps R (map_err f m) \<longleftrightarrow> keeps R m"
  by (simp add: keeps_def)

lemma keeps_bind:
  assumes "transp R" "keeps R m" "\<And>x s. fst (m s) = Inr x \<Longrightarrow> R (snd (m s)) (snd (f x (snd (m s))))"
  shows "keeps R (io_bind m f)"
  unfolding keeps_def
proof
  fix s
  obtain r u where m: "m s = (r, u)" by fastforce
  have mu: "R s u" using assms(2) m unfolding keeps_def by (metis snd_conv)
  show "R s (snd (io_bind m f s))"
  proof (cases r)
    case (Inl e)
    with m mu show ?thesis by (simp add: io_bind_def)
  next
    case (Inr x)
    with m assms(3) [of s x] have "R u (snd (f x u))" by simp
    with mu assms(1) have "R s (snd (f x u))" by (blast dest: transpD)
    with Inr m show ?thesis by (simp add: io_bind_def)
  qed
qed

text \<open>Triples: from a state that satisfies the first assertion, an operation that succeeds
  ends in the second and one that fails in the third.\<close>

definition triple :: "('s \<Rightarrow> bool) \<Rightarrow> ('s, 'e, 'a) op \<Rightarrow> ('a \<Rightarrow> 's \<Rightarrow> bool) \<Rightarrow> ('s \<Rightarrow> bool) \<Rightarrow> bool" where
  "triple P m Q E \<longleftrightarrow> (\<forall>s. P s \<longrightarrow> (case m s of (Inl _, t) \<Rightarrow> E t | (Inr x, t) \<Rightarrow> Q x t))"

lemma triple_bind:
  "triple P m Q E \<Longrightarrow> (\<And>x. triple (Q x) (f x) R E) \<Longrightarrow> triple P (io_bind m f) R E"
  by (fastforce simp: triple_def io_bind_def split: prod.splits sum.splits)

lemma triple_pure:
  "(\<And>s. P s \<Longrightarrow> Q x s) \<Longrightarrow> triple P (io_return x) Q E"
  "(\<And>s y. P s \<Longrightarrow> r = Inr y \<Longrightarrow> Q y s) \<Longrightarrow> (\<And>s. P s \<Longrightarrow> E s) \<Longrightarrow> triple P (io_lift r) Q E"
  by (auto simp: triple_def io_return_def io_lift_def split: sum.splits)

lemma triple_map_err [simp]: "triple P (map_err f m) Q E \<longleftrightarrow> triple P m Q E"
  by (auto simp: triple_def map_err_def split: prod.splits sum.splits)

lemma triple_if:
  "(b \<Longrightarrow> triple P m Q E) \<Longrightarrow> (\<not> b \<Longrightarrow> triple P n Q E) \<Longrightarrow> triple P (if b then m else n) Q E"
  by simp

lemma triple_weaken:
  "triple P m Q E \<Longrightarrow> (\<And>s. P' s \<Longrightarrow> P s) \<Longrightarrow> (\<And>x s. Q x s \<Longrightarrow> Q' x s) \<Longrightarrow> (\<And>s. E s \<Longrightarrow> E' s) \<Longrightarrow>
    triple P' m Q' E'"
  by (fastforce simp: triple_def split: prod.splits sum.splits)

lemma triple_pre: "triple P m Q E \<Longrightarrow> (\<And>s. P' s \<Longrightarrow> P s) \<Longrightarrow> triple P' m Q E"
  by (simp add: triple_def)

lemma tripleD: "triple P m Q E \<Longrightarrow> P s \<Longrightarrow> m s = (r, t) \<Longrightarrow> (case r of Inl _ \<Rightarrow> E t | Inr x \<Rightarrow> Q x t)"
  by (auto simp: triple_def split: sum.splits)

end
