(* ===== verification/Retry_Store.thy ===== *)
theory Retry_Store
  imports Seat_State Fallible
begin

text \<open>
  The durable store under the retry accounting (\<^verbatim>\<open>Store\<close> in
  \<^verbatim>\<open>irlume-daemon/src/retry_throttle.rs\<close> and \<^verbatim>\<open>write_atomic_reporting\<close> in
  \<^verbatim>\<open>irlume-common/src/lib.rs\<close>): the directory as two maps, what a reader sees now
  and what would survive a power loss, with the answers of the operating system for one
  critical section as an argument. The bytes of a file have an arbitrary type; only
  their length is looked at here.

  The second part is the specification both budgets of the program are proved against: a
  counter that is charged durably before the work it pays for.
\<close>

section \<open>Directories and files\<close>

record dir_meta =
  dm_uid :: u32
  dm_is_dir :: bool
  dm_mode :: u32

definition open_dir :: "dir_meta io \<Rightarrow> u32 \<Rightarrow> bool \<Rightarrow> unit io" where
  "open_dir opened owner_uid private = (case opened of
      Inl e \<Rightarrow> Inl e
    | Inr m \<Rightarrow>
        (let mode = dm_mode m AND 0xFFF
         in if dm_uid m \<noteq> owner_uid \<or> \<not> dm_is_dir m \<or>
               (if private then mode \<noteq> 0x1C0 else mode AND 0x12 \<noteq> 0)
            then Inl InvalidData else Inr ()))"

datatype mkdir_result = MkdirOk | MkdirExists | MkdirFailed IoErr

record lock_env =
  le_parent :: "dir_meta io"
  le_mkdir :: mkdir_result
  le_dir :: "dir_meta io"
  le_sync :: "unit io"
  le_flock :: "unit io"

record Store =
  st_owner :: u32

definition store_lock :: "Store \<Rightarrow> lock_env \<Rightarrow> unit io" where
  "store_lock st e = (case open_dir (le_parent e) (st_owner st) False of
      Inl x \<Rightarrow> Inl x
    | Inr _ \<Rightarrow> (case le_mkdir e of
        MkdirFailed x \<Rightarrow> Inl x
      | _ \<Rightarrow> (case open_dir (le_dir e) (st_owner st) True of
          Inl x \<Rightarrow> Inl x
        | Inr _ \<Rightarrow> (case le_sync e of Inl x \<Rightarrow> Inl x | Inr _ \<Rightarrow> le_flock e))))"

record 'b rfile =
  f_is_file :: bool
  f_uid :: u32
  f_mode :: u32
  f_nlink :: u64
  f_bytes :: 'b

datatype path = RecordPath u32 | ResetPath u32

record 'b disk =
  visible :: "path \<rightharpoonup> 'b rfile"
  durable :: "path \<rightharpoonup> 'b rfile"

definition sync_dir :: "'b disk \<Rightarrow> 'b disk" where
  "sync_dir d = d\<lparr> durable := visible d \<rparr>"

definition publish :: "path \<Rightarrow> 'b rfile \<Rightarrow> 'b disk \<Rightarrow> 'b disk" where
  "publish p f d = d\<lparr> visible := (visible d)(p \<mapsto> f) \<rparr>"

definition MAX_RECORD :: nat where
  "MAX_RECORD = 4096"

text \<open>The answers of the system inside one critical section: taking the lock, opening a
  file for a reason other than its absence, reading it, making it durable.\<close>

record io_env =
  ie_lock :: lock_env
  ie_open :: "unit io"
  ie_read :: "unit io"
  ie_sync :: "unit io"

definition read_bytes ::
    "('b \<Rightarrow> nat) \<Rightarrow> Store \<Rightarrow> io_env \<Rightarrow> path \<Rightarrow> ('b disk, 'b option) io_op" where
  "read_bytes blen st e p d = (case ie_open e of
      Inl x \<Rightarrow> (Inl x, d)
    | Inr _ \<Rightarrow> (case visible d p of
        None \<Rightarrow> (Inr None, d)
      | Some f \<Rightarrow>
          if \<not> f_is_file f \<or> f_uid f \<noteq> st_owner st \<or> f_mode f AND 0xFFF \<noteq> 0x180 \<or>
             f_nlink f \<noteq> 1 \<or> blen (f_bytes f) > MAX_RECORD
          then (Inl InvalidData, d)
          else (case ie_read e of
              Inl x \<Rightarrow> (Inl x, d)
            | Inr _ \<Rightarrow> (case ie_sync e of
                Inl x \<Rightarrow> (Inl x, d)
              | Inr _ \<Rightarrow> (Inr (Some (f_bytes f)), sync_dir d)))))"

section \<open>The atomic writer\<close>

text \<open>Each step of the writer either succeeds or fails: the temporary file (with one
  retry after a stale one is removed), writing and syncing it, the rename, and the sync
  of the directory. Nothing is visible before the rename, and everything is after it.\<close>

datatype create_result = TmpCreated | TmpExists | TmpFailed IoErr

record write_env =
  we_create :: create_result
  we_remove :: "unit io"
  we_create_again :: create_result
  we_write :: "unit io"
  we_sync_file :: "unit io"
  we_rename :: "unit io"
  we_sync_dir :: "unit io"

datatype AtomicWrite = Durable | VisibleNotDurable IoErr

definition open_tmp :: "write_env \<Rightarrow> unit io" where
  "open_tmp w = (case we_create w of
      TmpCreated \<Rightarrow> Inr ()
    | TmpFailed e \<Rightarrow> Inl e
    | TmpExists \<Rightarrow> (case we_remove w of
        Inl e \<Rightarrow> Inl e
      | Inr _ \<Rightarrow> (case we_create_again w of
          TmpCreated \<Rightarrow> Inr () | TmpExists \<Rightarrow> Inl OsError | TmpFailed e \<Rightarrow> Inl e)))"

definition write_atomic_reporting ::
    "Store \<Rightarrow> write_env \<Rightarrow> path \<Rightarrow> 'b \<Rightarrow> u32 \<Rightarrow> ('b disk, AtomicWrite) io_op" where
  "write_atomic_reporting st w p bytes mode d =
     (case open_tmp w of
        Inl e \<Rightarrow> (Inl e, d)
      | Inr _ \<Rightarrow> (case we_write w of
          Inl e \<Rightarrow> (Inl e, d)
        | Inr _ \<Rightarrow> (case we_sync_file w of
            Inl e \<Rightarrow> (Inl e, d)
          | Inr _ \<Rightarrow> (case we_rename w of
              Inl e \<Rightarrow> (Inl e, d)
            | Inr _ \<Rightarrow>
                (let f = \<lparr> f_is_file = True, f_uid = st_owner st, f_mode = mode, f_nlink = 1, f_bytes = bytes \<rparr>;
                     d' = publish p f d
                 in case we_sync_dir w of
                     Inr _ \<Rightarrow> (Inr Durable, sync_dir d')
                   | Inl e \<Rightarrow> (Inr (VisibleNotDurable e), d'))))))"

lemma read_bytes_effect:
  "snd (read_bytes blen st e p d) = d \<or> snd (read_bytes blen st e p d) = sync_dir d"
  by (simp add: read_bytes_def split: sum.split option.split)

lemma read_bytes_Inr:
  assumes "read_bytes blen st e p d = (Inr r, d')"
  shows "r = map_option f_bytes (visible d p)" and "visible d' = visible d"
    and "d' = (if visible d p = None then d else sync_dir d)"
  using assms by (auto simp: read_bytes_def sync_dir_def split: sum.splits option.splits if_splits)

lemma write_effect:
  obtains (failed) x where "write_atomic_reporting st w p bytes mode d = (Inl x, d)"
  | (seen) x where "write_atomic_reporting st w p bytes mode d =
      (Inr (VisibleNotDurable x), publish p \<lparr> f_is_file = True, f_uid = st_owner st, f_mode = mode,
         f_nlink = 1, f_bytes = bytes \<rparr> d)"
  | (kept) "write_atomic_reporting st w p bytes mode d =
      (Inr Durable, sync_dir (publish p \<lparr> f_is_file = True, f_uid = st_owner st, f_mode = mode,
         f_nlink = 1, f_bytes = bytes \<rparr> d))"
proof (cases "open_tmp w")
  case (Inl x)
  then show ?thesis by (intro failed) (simp add: write_atomic_reporting_def)
next
  case tmp: (Inr u)
  show ?thesis
  proof (cases "we_write w")
    case (Inl x)
    with tmp show ?thesis by (intro failed) (simp add: write_atomic_reporting_def)
  next
    case written: (Inr u)
    show ?thesis
    proof (cases "we_sync_file w")
      case (Inl x)
      with tmp written show ?thesis by (intro failed) (simp add: write_atomic_reporting_def)
    next
      case synced: (Inr u)
      show ?thesis
      proof (cases "we_rename w")
        case (Inl x)
        with tmp written synced show ?thesis by (intro failed) (simp add: write_atomic_reporting_def)
      next
        case renamed: (Inr u)
        show ?thesis
        proof (cases "we_sync_dir w")
          case (Inl x)
          with tmp written synced renamed show ?thesis
            by (intro seen) (simp add: write_atomic_reporting_def)
        next
          case (Inr u)
          with tmp written synced renamed show ?thesis
            by (intro kept) (simp add: write_atomic_reporting_def)
        qed
      qed
    qed
  qed
qed

section \<open>Specification: charged before use\<close>

text \<open>
  A budget of \<open>limit\<close> charges. The state is the count a reader sees, the count that would
  survive a power loss, and the number of charges that paid for work since the last time
  the budget was earned back. A charge pays for work only once it is durable; a power loss
  may bring the visible count back to the durable one; the budget is cleared only after it
  has been earned back.
\<close>

inductive charge_step :: "nat \<Rightarrow> nat \<times> nat \<times> nat \<Rightarrow> nat \<times> nat \<times> nat \<Rightarrow> bool" for limit where
  charge: "v < limit \<Longrightarrow> charge_step limit (v, d, g) (Suc v, Suc v, Suc g)"
| unconfirmed: "v < limit \<Longrightarrow> charge_step limit (v, d, g) (Suc v, d, g)"
| flush: "charge_step limit (v, d, g) (v, v, g)"
| power_loss: "charge_step limit (v, d, g) (d, d, g)"
| earned: "charge_step limit (v, d, g) (v, d, 0)"
| cleared: "charge_step limit (v, d, 0) (0, d, 0)"

definition charge_ok :: "nat \<Rightarrow> nat \<times> nat \<times> nat \<Rightarrow> bool" where
  "charge_ok limit s = (case s of (v, d, g) \<Rightarrow> g \<le> v \<and> g \<le> d \<and> v \<le> limit \<and> d \<le> limit)"

lemma charge_ok_step: "charge_step limit s t \<Longrightarrow> charge_ok limit s \<Longrightarrow> charge_ok limit t"
  by (induction rule: charge_step.induct) (auto simp: charge_ok_def)

text \<open>A component that keeps such a budget: its states, how a state is read as a budget, and
  that every step it takes is a run of steps of the specification. What follows is the
  bound, along every run of the component.\<close>

locale charged_budget =
  fixes limit :: nat
    and start :: "'s \<Rightarrow> bool"
    and move :: "'s \<Rightarrow> 's \<Rightarrow> bool"
    and budget :: "'s \<Rightarrow> nat \<times> nat \<times> nat"
  assumes starts_empty: "start s \<Longrightarrow> budget s = (0, 0, 0)"
    and refines: "move s t \<Longrightarrow> charge_ok limit (budget s) \<Longrightarrow>
      rtranclp (charge_step limit) (budget s) (budget t)"

sublocale charged_budget \<subseteq> spec: transition_system
  "\<lambda>s. s = (0, 0, 0)" "charge_step limit" "charge_ok limit"
  by unfold_locales (simp add: charge_ok_def, rule charge_ok_step)

sublocale charged_budget \<subseteq> impl: transition_system start move "\<lambda>s. charge_ok limit (budget s)"
proof unfold_locales
  fix s assume "start s"
  then show "charge_ok limit (budget s)" by (simp add: starts_empty charge_ok_def)
next
  fix s t assume "move s t" and ok: "charge_ok limit (budget s)"
  then have "rtranclp (charge_step limit) (budget s) (budget t)" by (rule refines)
  then show "charge_ok limit (budget t)" using ok by (rule spec.inv_run)
qed

context charged_budget
begin

lemma bounded_work:
  assumes "start s" "rtranclp move s t" "budget t = (v, d, g)"
  shows "g \<le> limit" and "g \<le> v" and "g \<le> d"
  using impl.inv_reachable [OF assms(1,2)] assms(3) by (auto simp: charge_ok_def)

end

end
