(* ===== verification/Retry_Throttle.thy ===== *)
theory Retry_Throttle
  imports Retry_Store
begin

text \<open>
  The face retry accounting of \<^verbatim>\<open>irlume-daemon/src/retry_throttle.rs\<close>: the policy, the
  record of one account with its strikes, cooldown and lifetime budget, and the
  operations that read, settle, charge and reset it on disk. The JSON text of a record is
  a parameter: a codec whose encoder and decoder undo each other.
\<close>

section \<open>Policy and clock\<close>

definition NANOS :: u64 where
  "NANOS = 1000000000"

definition FACE_LIMIT :: u32 where
  "FACE_LIMIT = 50"

record Account =
  a_uid :: u32
  a_name :: string

record Policy =
  limit :: u32
  seconds :: u64

definition parse_u64 :: "nat list \<Rightarrow> u64 option" where
  "parse_u64 s =
     (let ds = (case s of c # cs \<Rightarrow> if c = 43 then cs else s | [] \<Rightarrow> s)
      in if ds = [] then None
         else case parse_digits 0 ds of
             None \<Rightarrow> None
           | Some n \<Rightarrow> if n < 2 ^ 64 then Some (word_of_nat n) else None)"

definition opt_filter :: "('a \<Rightarrow> bool) \<Rightarrow> 'a option \<Rightarrow> 'a option" where
  "opt_filter P x = (case x of Some y \<Rightarrow> if P y then Some y else None | None \<Rightarrow> None)"

definition policy_parse :: "string \<Rightarrow> string \<Rightarrow> Policy \<times> bool" where
  "policy_parse l s =
     (let l' = opt_filter (\<lambda>n. 1 \<le> n \<and> n \<le> 5) (parse_u32 (codes l));
          s' = opt_filter (\<lambda>n. 30 \<le> n \<and> n \<le> 86400) (parse_u64 (codes s))
      in (\<lparr> limit = (case l' of Some n \<Rightarrow> n | None \<Rightarrow> 5),
            seconds = (case s' of Some n \<Rightarrow> n | None \<Rightarrow> 30) \<rparr>,
          l' = None \<or> s' = None))"

record Tick =
  t_boot :: string
  t_nanos :: u64

definition is_hex :: "nat \<Rightarrow> bool" where
  "is_hex c \<longleftrightarrow> (48 \<le> c \<and> c \<le> 57) \<or> (65 \<le> c \<and> c \<le> 70) \<or> (97 \<le> c \<and> c \<le> 102)"

definition valid_boot :: "string \<Rightarrow> bool" where
  "valid_boot boot \<longleftrightarrow> length boot = 36 \<and>
     list_all (\<lambda>(i, b). if i = 8 \<or> i = 13 \<or> i = 18 \<or> i = 23 then b = 45 else is_hex b)
       (enumerate 0 (codes boot))"

text \<open>\<^verbatim>\<open>linux_clock\<close>, from what the boot identifier file holds and what
  \<^verbatim>\<open>clock_gettime\<close> answers.\<close>

definition linux_clock :: "string io \<Rightarrow> (u64 \<times> u64) io \<Rightarrow> Tick io" where
  "linux_clock boot_id ts = (case boot_id of
      Inl e \<Rightarrow> Inl e
    | Inr text \<Rightarrow>
        (let boot = map char_of (trim (codes text))
         in if \<not> valid_boot boot then Inl InvalidData
            else (case ts of
                Inl e \<Rightarrow> Inl e
              | Inr (sec, nsec) \<Rightarrow>
                  if sint sec < 0 \<or> sint nsec < 0 \<or> nsec \<ge> NANOS then Inl InvalidData
                  else (case Option.bind (checked_mul sec NANOS)
                               (\<lambda>n. checked_add n nsec) of
                      None \<Rightarrow> Inl InvalidData
                    | Some n \<Rightarrow> Inr \<lparr> t_boot = boot, t_nanos = n \<rparr>))))"

section \<open>The record of an account\<close>

record Cooldown =
  boot_id :: string
  deadline_nanos :: u64
  duration_nanos :: u64

record FaceBudget =
  unsuccessful_requests :: u32
  fb_pending :: bool

record Record =
  r_version :: u32
  r_uid :: u32
  r_account :: string
  r_strikes :: u32
  r_cooldown :: "Cooldown option"
  r_budget :: "FaceBudget option"

definition Record_empty :: "Account \<Rightarrow> Record" where
  "Record_empty a = \<lparr> r_version = 1, r_uid = a_uid a, r_account = a_name a, r_strikes = 0,
     r_cooldown = None, r_budget = None \<rparr>"

definition initialize_budget :: "Record \<Rightarrow> Record" where
  "initialize_budget r = r\<lparr> r_version := 2,
     r_budget := Some \<lparr> unsuccessful_requests = 0, fb_pending = False \<rparr> \<rparr>"

definition Record_reset :: "Account \<Rightarrow> Record" where
  "Record_reset a = initialize_budget (Record_empty a)"

definition Record_validate :: "Record \<Rightarrow> Account \<Rightarrow> bool" where
  "Record_validate r a \<longleftrightarrow> \<not>
     (\<not> ((r_version r = 1 \<and> r_budget r = None) \<or> (r_version r = 2 \<and> r_budget r \<noteq> None)) \<or>
      (case r_budget r of None \<Rightarrow> False | Some b \<Rightarrow>
         unsuccessful_requests b > FACE_LIMIT \<or> (fb_pending b \<and> unsuccessful_requests b = 0)) \<or>
      r_uid r \<noteq> a_uid a \<or> r_account r \<noteq> a_name a \<or> r_account r = [] \<or> length (r_account r) > 256 \<or>
      has_control (codes (r_account r)) \<or>
      (case r_cooldown r of None \<Rightarrow> False | Some c \<Rightarrow>
         \<not> valid_boot (boot_id c) \<or> deadline_nanos c < duration_nanos c \<or> r_strikes r \<noteq> 0))"

definition arm :: "Tick \<Rightarrow> u64 \<Rightarrow> Record \<Rightarrow> Record option" where
  "arm now duration r = Option.bind (checked_add (t_nanos now) duration) (\<lambda>deadline.
     Some (r\<lparr> r_cooldown := Some \<lparr> boot_id = t_boot now, deadline_nanos = deadline,
                duration_nanos = duration \<rparr>, r_strikes := 0 \<rparr>))"

definition strike :: "Policy \<Rightarrow> Tick \<Rightarrow> Record \<Rightarrow> Record option" where
  "strike policy now r =
     (if r_cooldown r = None
      then Option.bind (checked_add (r_strikes r) 1) (\<lambda>n.
             (let r' = r\<lparr> r_strikes := n \<rparr>
              in if n \<ge> limit policy
                 then Option.bind (checked_mul (seconds policy) NANOS) (\<lambda>d. arm now d r')
                 else Some r'))
      else Some r)"

definition settle_abandoned :: "Policy \<Rightarrow> Tick \<Rightarrow> Record \<Rightarrow> Record option" where
  "settle_abandoned policy now r = (case r_budget r of
      None \<Rightarrow> Some r
    | Some b \<Rightarrow> if fb_pending b
        then strike policy now (r\<lparr> r_budget := Some (b\<lparr> fb_pending := False \<rparr>) \<rparr>)
        else Some r)"

section \<open>Reading and committing\<close>

text \<open>What the code uses of \<^verbatim>\<open>serde_json\<close>: the length of a text, whether it is JSON and then
  whether it claims version 1 and names a budget, and the two decoders and encoders.\<close>

record Attempts =
  at_version :: u32
  at_uid :: u32
  at_account :: string
  at_failures :: u32
  at_pending :: bool
  at_cooldown :: "Cooldown option"

record 'b codec =
  cd_len :: "'b \<Rightarrow> nat"
  cd_shape :: "'b \<Rightarrow> bool option"
  cd_dec :: "'b \<Rightarrow> Record option"
  cd_enc :: "Record \<Rightarrow> 'b option"
  cd_dec_reset :: "'b \<Rightarrow> Attempts option"
  cd_enc_reset :: "Attempts \<Rightarrow> 'b option"

definition codec_ok :: "'b codec \<Rightarrow> bool" where
  "codec_ok cd \<longleftrightarrow>
     (\<forall>r b. cd_enc cd r = Some b \<longrightarrow>
        cd_dec cd b = Some r \<and> cd_shape cd b = Some (r_version r = 1 \<and> r_budget r \<noteq> None)) \<and>
     (\<forall>a b. cd_enc_reset cd a = Some b \<longrightarrow> cd_dec_reset cd b = Some a)"

definition store_read :: "'b codec \<Rightarrow> Store \<Rightarrow> io_env \<Rightarrow> Account \<Rightarrow> ('b disk, Record) io_op" where
  "store_read cd st e a =
     io_bind (read_bytes (cd_len cd) st e (RecordPath (a_uid a))) (\<lambda>bytes. case bytes of
         None \<Rightarrow> io_return (Record_empty a)
       | Some b \<Rightarrow>
           io_bind (io_lift (or_invalid (cd_shape cd b))) (\<lambda>legacy_budget.
           io_bind (io_require (\<not> legacy_budget)) (\<lambda>_.
           io_bind (io_lift (or_invalid (cd_dec cd b))) (\<lambda>r.
           io_bind (io_require (Record_validate r a)) (\<lambda>_. io_return r)))))"

definition finish_write :: "AtomicWrite \<Rightarrow> ('b disk, unit) io_op" where
  "finish_write w = io_lift (case w of Durable \<Rightarrow> Inr () | VisibleNotDurable e \<Rightarrow> Inl e)"

definition store_commit :: "'b codec \<Rightarrow> Store \<Rightarrow> write_env \<Rightarrow> Record \<Rightarrow> ('b disk, unit) io_op" where
  "store_commit cd st w r =
     (let a = \<lparr> a_uid = r_uid r, a_name = r_account r \<rparr>
      in io_bind (io_require (Record_validate r a)) (\<lambda>_.
         io_bind (io_lift (or_invalid (cd_enc cd r))) (\<lambda>bytes.
         io_bind (io_require (cd_len cd bytes \<le> MAX_RECORD)) (\<lambda>_.
         io_bind (write_atomic_reporting st w (RecordPath (a_uid a)) bytes 0x180) finish_write))))"

text \<open>The account's operation lock. Whether another holder has it is an argument; the
  remaining answers are the system's.\<close>

record op_meta =
  om_is_file :: bool
  om_uid :: u32
  om_mode :: u32
  om_nlink :: u64
  om_len :: u64

record op_env =
  oe_lock :: lock_env
  oe_file :: "op_meta io"
  oe_flock :: "unit io"
  oe_sync :: "unit io"

definition store_operation :: "Store \<Rightarrow> op_env \<Rightarrow> bool \<Rightarrow> ('b disk, unit) io_op" where
  "store_operation st e held =
     io_bind (io_lift (store_lock st (oe_lock e))) (\<lambda>_.
     io_bind (io_lift (oe_file e)) (\<lambda>m.
     io_bind (io_require (om_is_file m \<and> om_uid m = st_owner st \<and> om_mode m AND 0xFFF = 0x180 \<and>
                          om_nlink m = 1 \<and> om_len m = 0)) (\<lambda>_.
     io_bind (io_lift (if held then Inl OsError else oe_flock e)) (\<lambda>_ d.
       case oe_sync e of Inl x \<Rightarrow> (Inl x, d) | Inr _ \<Rightarrow> (Inr (), sync_dir d)))))"

section \<open>Checking and charging an attempt\<close>

definition check_record :: "Policy \<Rightarrow> Tick \<Rightarrow> Record \<Rightarrow> Record option" where
  "check_record policy now r0 = Option.bind (settle_abandoned policy now r0) (\<lambda>r.
     case r_cooldown r of
       Some c \<Rightarrow>
         if boot_id c \<noteq> t_boot now then arm now (duration_nanos c) r
         else if saturating_sub (deadline_nanos c) (t_nanos now) > duration_nanos c then None
         else if t_nanos now \<ge> deadline_nanos c then Some (r\<lparr> r_cooldown := None, r_strikes := 0 \<rparr>)
         else Some r
     | None \<Rightarrow>
         if r_strikes r \<ge> limit policy
         then Option.bind (checked_mul (seconds policy) NANOS) (\<lambda>d. arm now d r)
         else Some r)"

definition refuses :: "Tick \<Rightarrow> Record \<Rightarrow> bool" where
  "refuses now r \<longleftrightarrow>
     (case r_budget r of None \<Rightarrow> False | Some b \<Rightarrow> unsuccessful_requests b \<ge> FACE_LIMIT) \<or>
     (case r_cooldown r of None \<Rightarrow> False | Some c \<Rightarrow> t_nanos now < deadline_nanos c)"

definition store_check ::
    "'b codec \<Rightarrow> Store \<Rightarrow> Account \<Rightarrow> Policy \<Rightarrow> Tick io \<Rightarrow> io_env \<Rightarrow> write_env \<Rightarrow> ('b disk, bool) io_op" where
  "store_check cd st a policy clock e w =
     io_bind (io_lift clock) (\<lambda>now.
     io_bind (io_require (valid_boot (t_boot now))) (\<lambda>_.
     io_bind (io_lift (store_lock st (ie_lock e))) (\<lambda>_.
     io_bind (store_read cd st e a) (\<lambda>before.
     io_bind (io_lift (or_invalid (check_record policy now before))) (\<lambda>r.
     io_bind (if r \<noteq> before then store_commit cd st w r else io_return ()) (\<lambda>_.
       io_return (refuses now r)))))))"

record begin_env =
  be_operation :: op_env
  be_clock :: "Tick io"
  be_check :: io_env
  be_check_write :: write_env
  be_charge :: io_env
  be_charge_write :: write_env

text \<open>The charge itself: \<open>None\<close> when the budget is spent.\<close>

definition charge_record :: "Record \<Rightarrow> Record option io" where
  "charge_record r0 =
     (let r = (if r_budget r0 = None then initialize_budget r0 else r0)
      in case r_budget r of
          None \<Rightarrow> Inl InvalidData
        | Some b \<Rightarrow>
            if unsuccessful_requests b \<ge> FACE_LIMIT then Inr None
            else (case checked_add (unsuccessful_requests b) 1 of
                None \<Rightarrow> Inl InvalidData
              | Some n \<Rightarrow> Inr (Some (r\<lparr> r_budget := Some \<lparr> unsuccessful_requests = n, fb_pending = True \<rparr> \<rparr>))))"

definition face_charge ::
    "'b codec \<Rightarrow> Store \<Rightarrow> Account \<Rightarrow> io_env \<Rightarrow> write_env \<Rightarrow> ('b disk, bool) io_op" where
  "face_charge cd st a e w =
     io_bind (io_lift (store_lock st (ie_lock e))) (\<lambda>_.
     io_bind (store_read cd st e a) (\<lambda>r.
     io_bind (io_lift (charge_record r)) (\<lambda>charged. case charged of
         None \<Rightarrow> io_return False
       | Some r' \<Rightarrow> io_bind (store_commit cd st w r') (\<lambda>_. io_return True))))"

definition face_begin ::
    "'b codec \<Rightarrow> Store \<Rightarrow> Account \<Rightarrow> Policy \<Rightarrow> begin_env \<Rightarrow> bool \<Rightarrow> ('b disk, bool) io_op" where
  "face_begin cd st a policy e held =
     io_bind (store_operation st (be_operation e) held) (\<lambda>_.
     io_bind (store_check cd st a policy (be_clock e) (be_check e) (be_check_write e)) (\<lambda>refused.
       if refused then io_return False
       else face_charge cd st a (be_charge e) (be_charge_write e)))"

datatype face_refusal = UNAVAILABLE | LIMITED

definition for_account ::
    "'b codec \<Rightarrow> Store io \<Rightarrow> (u32 \<Rightarrow> string option) \<Rightarrow> u32 option \<Rightarrow> Policy \<Rightarrow> begin_env \<Rightarrow> (u32 \<Rightarrow> bool) \<Rightarrow>
      'b disk \<Rightarrow> (face_refusal + Account) \<times> 'b disk" where
  "for_account cd production_store name_for_uid uid policy e held d =
     (case uid of
        None \<Rightarrow> (Inl UNAVAILABLE, d)
      | Some u \<Rightarrow> (case name_for_uid u of
          None \<Rightarrow> (Inl UNAVAILABLE, d)
        | Some name \<Rightarrow> (case production_store of
            Inl _ \<Rightarrow> (Inl UNAVAILABLE, d)
          | Inr st \<Rightarrow>
              (let a = \<lparr> a_uid = u, a_name = name \<rparr>
               in case face_begin cd st a policy e (held u) d of
                   (Inr True, d') \<Rightarrow> (Inr a, d')
                 | (Inr False, d') \<Rightarrow> (Inl LIMITED, d')
                 | (Inl _, d') \<Rightarrow> (Inl UNAVAILABLE, d')))))"

section \<open>Settling an attempt\<close>

datatype OutcomeKind = Granted | NoFace | Uncertain | RgbPadPending | SpoofNoIrFace | Spoof
  | BelowThreshold | SetupUnavailable | DeadlineExpired | RuntimeUnavailable | OtherDeny

record Outcome =
  granted :: bool
  oc_kind :: OutcomeKind

fun counts_as_strike :: "OutcomeKind \<Rightarrow> bool" where
  "counts_as_strike NoFace = False"
| "counts_as_strike Uncertain = False"
| "counts_as_strike RgbPadPending = False"
| "counts_as_strike SpoofNoIrFace = False"
| "counts_as_strike SetupUnavailable = False"
| "counts_as_strike Granted = True"
| "counts_as_strike Spoof = True"
| "counts_as_strike BelowThreshold = True"
| "counts_as_strike DeadlineExpired = True"
| "counts_as_strike RuntimeUnavailable = True"
| "counts_as_strike OtherDeny = True"

record settle_env =
  se_clock :: "Tick io"
  se_io :: io_env
  se_write :: write_env

definition denied_inner ::
    "'b codec \<Rightarrow> Store \<Rightarrow> Account \<Rightarrow> Policy \<Rightarrow> Outcome \<Rightarrow> settle_env \<Rightarrow> ('b disk, unit) io_op" where
  "denied_inner cd st a policy outcome e =
     io_bind (io_require (\<not> granted outcome)) (\<lambda>_.
     io_bind (io_lift (store_lock st (ie_lock (se_io e)))) (\<lambda>_.
     io_bind (store_read cd st (se_io e) a) (\<lambda>r.
     io_bind (io_lift (or_invalid (r_budget r))) (\<lambda>b.
     io_bind (io_require (fb_pending b)) (\<lambda>_.
     io_bind (if counts_as_strike (oc_kind outcome)
              then io_bind (io_lift (se_clock e)) (\<lambda>now.
                   io_bind (io_require (valid_boot (t_boot now))) (\<lambda>_.
                     io_lift (or_invalid (strike policy now (r\<lparr> r_budget := Some (b\<lparr> fb_pending := False \<rparr>) \<rparr>)))))
              else io_return (r\<lparr> r_budget := Some (b\<lparr> fb_pending := False \<rparr>) \<rparr>)) (\<lambda>r'.
       store_commit cd st (se_write e) r'))))))"

definition delivered :: "'b codec \<Rightarrow> Store \<Rightarrow> Account \<Rightarrow> settle_env \<Rightarrow> ('b disk, unit) io_op" where
  "delivered cd st a e =
     io_bind (io_lift (store_lock st (ie_lock (se_io e)))) (\<lambda>_.
     io_bind (store_read cd st (se_io e) a) (\<lambda>r.
     io_bind (io_require (case r_budget r of None \<Rightarrow> False | Some b \<Rightarrow> fb_pending b)) (\<lambda>_.
       store_commit cd st (se_write e) (Record_reset a))))"


section \<open>What the operations leave on the disk\<close>

definition budget_count :: "Record \<Rightarrow> nat" where
  "budget_count r = (case r_budget r of None \<Rightarrow> 0 | Some b \<Rightarrow> unat (unsuccessful_requests b))"

definition count_at :: "'b codec \<Rightarrow> (path \<rightharpoonup> 'b rfile) \<Rightarrow> u32 \<Rightarrow> nat" where
  "count_at cd files u = (case files (RecordPath u) of
      None \<Rightarrow> 0
    | Some f \<Rightarrow> (case cd_dec cd (f_bytes f) of None \<Rightarrow> 0 | Some r \<Rightarrow> budget_count r))"

definition failures_at :: "'b codec \<Rightarrow> (path \<rightharpoonup> 'b rfile) \<Rightarrow> u32 \<Rightarrow> nat" where
  "failures_at cd files u = (case files (ResetPath u) of
      None \<Rightarrow> 0
    | Some f \<Rightarrow> (case cd_dec_reset cd (f_bytes f) of None \<Rightarrow> 0 | Some a \<Rightarrow> unat (at_failures a)))"

text \<open>A quiet operation leaves what a reader sees of a count alone; the durable count stays
  or catches up. The count is any reading of the files.\<close>

definition calm :: "((path \<rightharpoonup> 'b rfile) \<Rightarrow> nat) \<Rightarrow> 'b disk \<Rightarrow> 'b disk \<Rightarrow> bool" where
  "calm cnt d d' \<longleftrightarrow> cnt (visible d') = cnt (visible d) \<and>
     (cnt (durable d') = cnt (durable d) \<or> cnt (durable d') = cnt (visible d))"

lemma calm_refl [simp]: "calm cnt d d"
  by (simp add: calm_def)

lemma reflp_calm [simp]: "reflp (calm cnt)" and transp_calm [simp]: "transp (calm cnt)"
  by (auto simp: reflp_def transp_def calm_def)

lemma calm_trans: "calm cnt d d' \<Longrightarrow> calm cnt d' d'' \<Longrightarrow> calm cnt d d''"
  by (auto simp: calm_def)

lemma sync_dir_sel [simp]: "visible (sync_dir d) = visible d" "durable (sync_dir d) = visible d"
  by (simp_all add: sync_dir_def)

lemma publish_sel [simp]: "visible (publish p f d) = (visible d)(p \<mapsto> f)" "durable (publish p f d) = durable d"
  by (simp_all add: publish_def)

lemma calm_sync [simp]: "calm cnt d (sync_dir d)"
  by (simp add: calm_def)

lemma calm_steps:
  assumes "calm cnt d d'"
  shows "(charge_step l)\<^sup>*\<^sup>* (cnt (visible d), cnt (durable d), g) (cnt (visible d'), cnt (durable d'), g)"
  using assms r_into_rtranclp [of "charge_step l", OF charge_step.flush [of l "cnt (visible d)" "cnt (durable d)" g]]
  by (auto simp: calm_def)

text \<open>An operation that is quiet for a count, wherever it stops.\<close>

abbreviation quiet :: "((path \<rightharpoonup> 'b rfile) \<Rightarrow> nat) \<Rightarrow> ('b disk, 'e, 'a) op \<Rightarrow> bool" where
  "quiet cnt m \<equiv> keeps (calm cnt) m"

lemma quiet_bind: "quiet cnt m \<Longrightarrow> (\<And>x. quiet cnt (f x)) \<Longrightarrow> quiet cnt (io_bind m f)"
  by (rule keeps_bind) (auto simp: keeps_def)

lemma quiet_pure [simp]: "quiet cnt (io_lift r)" "quiet cnt (io_return x)" "quiet cnt (io_require b)"
  by simp_all

lemma quiet_read_bytes [simp]: "quiet cnt (read_bytes l st e p)"
  unfolding keeps_def using read_bytes_effect [of l st e p] by (metis calm_refl calm_sync)

lemma quiet_store_read [simp]: "quiet cnt (store_read cd st e a)"
  unfolding store_read_def
  by (intro quiet_bind quiet_read_bytes) (auto split: option.split intro!: quiet_bind)

lemma quiet_store_operation [simp]: "quiet cnt (store_operation st e held)"
  unfolding store_operation_def
  by (intro quiet_bind quiet_pure) (simp add: keeps_def split: sum.split)

lemma store_read_Inr:
  assumes "store_read cd st e a d = (Inr r, d')"
  shows "visible d' = visible d" and "budget_count r = count_at cd (visible d) (a_uid a)"
    and "r_uid r = a_uid a" and "r = Record_empty a \<or> Record_validate r a"
    and "visible d (RecordPath (a_uid a)) = None \<Longrightarrow> r = Record_empty a"
    and "visible d (RecordPath (a_uid a)) = Some f \<Longrightarrow>
      cd_dec cd (f_bytes f) = Some r \<and> Record_validate r a \<and> d' = sync_dir d"
proof -
  obtain bytes u where rb: "read_bytes (cd_len cd) st e (RecordPath (a_uid a)) d = (Inr bytes, u)"
    and k: "(case bytes of None \<Rightarrow> io_return (Record_empty a)
       | Some b \<Rightarrow>
           io_bind (io_lift (or_invalid (cd_shape cd b))) (\<lambda>legacy_budget.
           io_bind (io_require (\<not> legacy_budget)) (\<lambda>_.
           io_bind (io_lift (or_invalid (cd_dec cd b))) (\<lambda>r.
           io_bind (io_require (Record_validate r a)) (\<lambda>_. io_return r))))) u = (Inr r, d')"
    using assms unfolding store_read_def io_bind_Inr [where s = d] by blast
  note facts = read_bytes_Inr [OF rb]
  show "visible d' = visible d" "budget_count r = count_at cd (visible d) (a_uid a)"
    "r_uid r = a_uid a" "r = Record_empty a \<or> Record_validate r a"
    "visible d (RecordPath (a_uid a)) = None \<Longrightarrow> r = Record_empty a"
    "visible d (RecordPath (a_uid a)) = Some f \<Longrightarrow>
      cd_dec cd (f_bytes f) = Some r \<and> Record_validate r a \<and> d' = sync_dir d"
    using k facts
    by (auto simp: io_bind_Inr count_at_def budget_count_def Record_empty_def Record_validate_def
        split: option.splits)
qed

text \<open>A commit either leaves the disk alone or publishes exactly its record, and it reports
  success only when the record is durable.\<close>

definition record_file :: "Store \<Rightarrow> 'b \<Rightarrow> 'b rfile" where
  "record_file st b = \<lparr> f_is_file = True, f_uid = st_owner st, f_mode = 0x180, f_nlink = 1, f_bytes = b \<rparr>"

lemma write_then_finish:
  assumes "io_bind (write_atomic_reporting st w p b 0x180) finish_write d = (res, d')"
  obtains (failed) x where "res = Inl x" "d' = d"
  | (seen) x where "res = Inl x" "d' = publish p (record_file st b) d"
  | (kept) "res = Inr ()" "d' = sync_dir (publish p (record_file st b) d)"
  using assms
  by (cases rule: write_effect [of st w p b "0x180" d])
    (auto simp: io_bind_def finish_write_def io_lift_def record_file_def)

lemma store_commit_cases:
  assumes "store_commit cd st w r d = (res, d')"
  obtains (failed) x where "res = Inl x" "d' = d"
  | (seen) x b where "res = Inl x" "cd_enc cd r = Some b" "Record_validate r \<lparr> a_uid = r_uid r, a_name = r_account r \<rparr>"
      "d' = publish (RecordPath (r_uid r)) (record_file st b) d"
  | (kept) b where "res = Inr ()" "cd_enc cd r = Some b" "Record_validate r \<lparr> a_uid = r_uid r, a_name = r_account r \<rparr>"
      "cd_len cd b \<le> MAX_RECORD" "d' = sync_dir (publish (RecordPath (r_uid r)) (record_file st b) d)"
proof (cases "Record_validate r \<lparr> a_uid = r_uid r, a_name = r_account r \<rparr>")
  case valid: True
  show ?thesis
  proof (cases "cd_enc cd r")
    case None
    with valid assms show ?thesis
      by (intro failed) (auto simp: store_commit_def io_bind_def io_lift_def io_require_def or_invalid_def)
  next
    case (Some b)
    show ?thesis
    proof (cases "cd_len cd b \<le> MAX_RECORD")
      case True
      with valid Some assms have
        "io_bind (write_atomic_reporting st w (RecordPath (r_uid r)) b 0x180) finish_write d = (res, d')"
        by (simp add: store_commit_def io_bind_def [of "io_lift _"] io_bind_def [of "io_require _"]
            io_lift_def io_require_def or_invalid_def)
      then show ?thesis
        by (cases rule: write_then_finish) (use valid Some True failed seen kept in blast)+
    next
      case False
      with valid Some assms show ?thesis
        by (intro failed) (auto simp: store_commit_def io_bind_def io_lift_def io_require_def or_invalid_def)
    qed
  qed
next
  case False
  with assms show ?thesis
    by (intro failed) (auto simp: store_commit_def io_bind_def io_lift_def io_require_def)
qed


lemma codec_okD:
  assumes "codec_ok cd"
  shows "cd_enc cd r = Some b \<Longrightarrow> cd_dec cd b = Some r"
    and "cd_enc cd r = Some b \<Longrightarrow> cd_shape cd b = Some (r_version r = 1 \<and> r_budget r \<noteq> None)"
    and "cd_enc_reset cd t = Some b \<Longrightarrow> cd_dec_reset cd b = Some t"
  using assms by (auto simp: codec_ok_def)

lemma count_at_upd:
  "codec_ok cd \<Longrightarrow> cd_enc cd r = Some b \<Longrightarrow>
     count_at cd (files(RecordPath v \<mapsto> record_file st b)) u = (if v = u then budget_count r else count_at cd files u)"
  by (simp add: count_at_def record_file_def codec_okD)

lemma failures_at_upd:
  "codec_ok cd \<Longrightarrow> cd_enc_reset cd t = Some b \<Longrightarrow>
     failures_at cd (files(ResetPath v \<mapsto> record_file st b)) u = (if v = u then unat (at_failures t) else failures_at cd files u)"
  by (simp add: failures_at_def record_file_def codec_okD)

lemma counts_other_path [simp]:
  "count_at cd (files(ResetPath v \<mapsto> f)) u = count_at cd files u"
  "failures_at cd (files(RecordPath v \<mapsto> f)) u = failures_at cd files u"
  by (simp_all add: count_at_def failures_at_def)

lemma calm_store_commit:
  assumes "codec_ok cd" and "u = r_uid r \<Longrightarrow> budget_count r = count_at cd (visible d) u"
  shows "calm (\<lambda>f. count_at cd f u) d (snd (store_commit cd st w r d))"
proof -
  obtain res d' where c: "store_commit cd st w r d = (res, d')" by fastforce
  from c show ?thesis
    by (cases rule: store_commit_cases) (use assms in \<open>auto simp: calm_def count_at_upd c\<close>)
qed

lemma quiet_failures_commit [simp]: "quiet (\<lambda>f. failures_at cd f u) (store_commit cd st w r)"
  unfolding keeps_def
proof
  fix d
  obtain res d' where c: "store_commit cd st w r d = (res, d')" by fastforce
  from c show "calm (\<lambda>f. failures_at cd f u) d (snd (store_commit cd st w r d))"
    by (cases rule: store_commit_cases) (auto simp: calm_def c)
qed

section \<open>The pure transitions of a record\<close>

lemma arm_keeps:
  assumes "arm now n r = Some r'"
  shows "r_uid r' = r_uid r" "r_account r' = r_account r" "r_budget r' = r_budget r" "r_version r' = r_version r"
  using assms by (auto simp: arm_def split: Option.bind_splits)

lemma strike_keeps:
  assumes "strike policy now r = Some r'"
  shows "r_uid r' = r_uid r" "r_account r' = r_account r" "r_budget r' = r_budget r" "r_version r' = r_version r"
  using assms by (auto simp: strike_def Let_def dest: arm_keeps split: Option.bind_splits if_splits)

lemma settle_keeps:
  assumes "settle_abandoned policy now r = Some r'"
  shows "r_uid r' = r_uid r" "r_account r' = r_account r" "budget_count r' = budget_count r"
    and "r_version r' = r_version r"
proof -
  have "r_uid r' = r_uid r \<and> r_account r' = r_account r \<and> budget_count r' = budget_count r \<and> r_version r' = r_version r"
  proof (cases "r_budget r")
    case (Some b)
    then show ?thesis
      using assms strike_keeps [of policy now "r\<lparr> r_budget := Some (b\<lparr> fb_pending := False \<rparr>) \<rparr>" r']
      by (cases "fb_pending b") (simp_all add: settle_abandoned_def budget_count_def)
  qed (use assms in \<open>simp add: settle_abandoned_def\<close>)
  then show "r_uid r' = r_uid r" "r_account r' = r_account r" "budget_count r' = budget_count r"
    "r_version r' = r_version r" by simp_all
qed

lemma check_record_keeps:
  assumes "check_record policy now r = Some r'"
  shows "r_uid r' = r_uid r" "r_account r' = r_account r" "budget_count r' = budget_count r"
proof -
  from assms obtain s where s: "settle_abandoned policy now r = Some s"
    by (auto simp: check_record_def split: Option.bind_splits)
  with assms have "r_uid r' = r_uid s" "r_account r' = r_account s" "r_budget r' = r_budget s"
    by (auto simp: check_record_def dest: arm_keeps split: Option.bind_splits option.splits if_splits)
  with settle_keeps [OF s] show "r_uid r' = r_uid r" "r_account r' = r_account r" "budget_count r' = budget_count r"
    by (simp_all add: budget_count_def)
qed

lemma quiet_store_check:
  assumes "codec_ok cd"
  shows "quiet (\<lambda>f. count_at cd f u) (store_check cd st a policy clock e w)"
  unfolding store_check_def
proof (rule quiet_bind, simp, rule quiet_bind, simp, rule quiet_bind, simp)
  fix now
  show "quiet (\<lambda>f. count_at cd f u) (io_bind (store_read cd st e a) (\<lambda>before.
     io_bind (io_lift (or_invalid (check_record policy now before))) (\<lambda>r.
     io_bind (if r \<noteq> before then store_commit cd st w r else io_return ()) (\<lambda>_.
       io_return (refuses now r)))))"
  proof (rule keeps_bind)
    fix before d
    assume read: "fst (store_read cd st e a d) = Inr before"
    define d' where "d' = snd (store_read cd st e a d)"
    have rd: "store_read cd st e a d = (Inr before, d')" using read by (simp add: d'_def prod_eq_iff)
    have "calm (\<lambda>f. count_at cd f u) d' (snd (store_commit cd st w r d'))"
      if "check_record policy now before = Some r" for r
      by (rule calm_store_commit [OF assms])
        (use that store_read_Inr [OF rd] check_record_keeps [of policy now before r] in auto)
    then show "calm (\<lambda>f. count_at cd f u) (snd (store_read cd st e a d)) (snd ((io_bind
        (io_lift (or_invalid (check_record policy now before))) (\<lambda>r.
        io_bind (if r \<noteq> before then store_commit cd st w r else io_return ()) (\<lambda>_.
          io_return (refuses now r)))) (snd (store_read cd st e a d))))"
      unfolding d'_def [symmetric]
      by (auto simp: io_bind_def io_lift_def io_return_def or_invalid_def split: prod.split sum.split option.split)
  qed simp_all
qed

section \<open>One attempt as a run of the budget\<close>

abbreviation face_view :: "'b codec \<Rightarrow> u32 \<Rightarrow> 'b disk \<Rightarrow> nat \<Rightarrow> nat \<times> nat \<times> nat" where
  "face_view cd u d g \<equiv> (count_at cd (visible d) u, count_at cd (durable d) u, g)"

lemma charge_record_Some:
  assumes "charge_record r = Inr (Some r')"
  shows "budget_count r < 50" and "budget_count r' = Suc (budget_count r)" and "r_uid r' = r_uid r"
proof -
  have arith: "unat n = Suc (unat m)" if "checked_add m 1 = Some n" for m n :: u32
    using checked_add_SomeD(1) [OF that] by simp
  have lt: "unat m < 50" if "\<not> FACE_LIMIT \<le> m" for m :: u32
    using that by (simp add: FACE_LIMIT_def word_le_nat_alt)
  show "budget_count r < 50" "budget_count r' = Suc (budget_count r)" "r_uid r' = r_uid r"
    using assms
    by (auto simp: charge_record_def Let_def initialize_budget_def budget_count_def
        dest!: arith lt split: option.splits if_splits)
qed

lemma face_charge_steps:
  assumes ok: "codec_ok cd" and run: "face_charge cd st a e w d = (res, d')"
  shows "(charge_step 50)\<^sup>*\<^sup>* (face_view cd u d g)
    (face_view cd u d' (if res = Inr True \<and> u = a_uid a then Suc g else g))"
proof -
  have calm: "(charge_step 50)\<^sup>*\<^sup>* (face_view cd u d g) (face_view cd u d'' g)"
    if "calm (\<lambda>f. count_at cd f u) d d''" for d''
    using calm_steps [OF that] by simp
  show ?thesis
  proof (cases "store_lock st (ie_lock e)")
    case (Inl x)
    with run show ?thesis by (auto simp: face_charge_def io_bind_def io_lift_def)
  next
    case lock: (Inr x)
    obtain rr d1 where rd: "store_read cd st e a d = (rr, d1)" by fastforce
    have d1: "calm (\<lambda>f. count_at cd f u) d d1"
      using quiet_store_read [of "\<lambda>f. count_at cd f u" cd st e a] rd unfolding keeps_def by (metis snd_conv)
    show ?thesis
    proof (cases "\<exists>r r'. rr = Inr r \<and> charge_record r = Inr (Some r')")
      case False
      with run lock rd have "res \<noteq> Inr True \<and> d' = d1"
        by (auto simp: face_charge_def io_bind_def io_lift_def io_return_def split: sum.splits option.splits)
      with calm [OF d1] show ?thesis by simp
    next
      case True
      then obtain r r' where rr: "rr = Inr r" and ch: "charge_record r = Inr (Some r')" by blast
      note r = store_read_Inr [OF rd [unfolded rr]] and c = charge_record_Some [OF ch]
      obtain cr d2 where cm: "store_commit cd st w r' d1 = (cr, d2)" by fastforce
      with run lock rd rr ch have res: "d' = d2" "res = (case cr of Inl x \<Rightarrow> Inl x | Inr _ \<Rightarrow> Inr True)"
        by (auto simp: face_charge_def io_bind_def io_lift_def io_return_def split: sum.splits)
      show ?thesis
      proof (cases "u = a_uid a")
        case False
        then have "calm (\<lambda>f. count_at cd f u) d1 d2"
          using calm_store_commit [OF ok, of u r' d1 st w] cm c r by simp
        with False res calm [OF calm_trans [OF d1]] show ?thesis by simp
      next
        case True
        then have v: "count_at cd (visible d1) u = budget_count r" and uid: "r_uid r' = u"
          using r c by simp_all
        from cm have "(charge_step 50)\<^sup>*\<^sup>* (face_view cd u d1 g) (face_view cd u d2 (if res = Inr True then Suc g else g))"
        proof (cases rule: store_commit_cases)
          case (failed x)
          with res show ?thesis by simp
        next
          case (seen x b)
          with res v uid c ok show ?thesis
            using charge_step.unconfirmed [of "budget_count r" 50 "count_at cd (durable d1) u" g]
            by (simp add: count_at_upd)
        next
          case (kept b)
          with res v uid c ok show ?thesis
            using charge_step.charge [of "budget_count r" 50 "count_at cd (durable d1) u" g]
            by (simp add: count_at_upd)
        qed
        with True calm [OF d1] res show ?thesis by simp
      qed
    qed
  qed
qed

lemma face_begin_split:
  assumes "codec_ok cd" and "face_begin cd st a policy e held d = (res, d')"
  shows "\<exists>d1. (\<forall>u. calm (\<lambda>f. count_at cd f u) d d1) \<and>
    (res \<noteq> Inr True \<and> d' = d1 \<or>
     face_charge cd st a (be_charge e) (be_charge_write e) d1 = (res, d'))"
proof -
  obtain ro d1 where op: "store_operation st (be_operation e) held d = (ro, d1)" by fastforce
  obtain rc d2 where ck: "store_check cd st a policy (be_clock e) (be_check e) (be_check_write e) d1 = (rc, d2)"
    by fastforce
  have c1: "calm (\<lambda>f. count_at cd f u) d d1" for u
    using quiet_store_operation [of "\<lambda>f. count_at cd f u" st "be_operation e" held] op
    unfolding keeps_def by (metis snd_conv)
  have c2: "calm (\<lambda>f. count_at cd f u) d1 d2" for u
    using quiet_store_check [OF assms(1), of u st a policy "be_clock e" "be_check e" "be_check_write e"] ck
    unfolding keeps_def by (metis snd_conv)
  have c: "calm (\<lambda>f. count_at cd f u) d d2" for u
    by (rule calm_trans [OF c1 c2])
  show ?thesis
  proof (cases "ro = Inr () \<and> rc = Inr False")
    case True
    with assms(2) op ck have "face_charge cd st a (be_charge e) (be_charge_write e) d2 = (res, d')"
      by (simp add: face_begin_def io_bind_def)
    with c show ?thesis by blast
  next
    case False
    with assms(2) op ck have "res \<noteq> Inr True \<and> (d' = d1 \<or> d' = d2)"
      by (auto simp: face_begin_def io_bind_def io_return_def split: sum.splits if_splits)
    with c c1 show ?thesis by blast
  qed
qed

lemma face_begin_steps:
  assumes "codec_ok cd" and "face_begin cd st a policy e held d = (res, d')"
  shows "(charge_step 50)\<^sup>*\<^sup>* (face_view cd u d g)
    (face_view cd u d' (if res = Inr True \<and> u = a_uid a then Suc g else g))"
proof -
  obtain d1 where d1: "calm (\<lambda>f. count_at cd f u) d d1"
    and rest: "res \<noteq> Inr True \<and> d' = d1 \<or> face_charge cd st a (be_charge e) (be_charge_write e) d1 = (res, d')"
    using face_begin_split [OF assms] by blast
  have "(charge_step 50)\<^sup>*\<^sup>* (face_view cd u d g) (face_view cd u d1 g)"
    using calm_steps [OF d1] by simp
  moreover have "(charge_step 50)\<^sup>*\<^sup>* (face_view cd u d1 g)
    (face_view cd u d' (if res = Inr True \<and> u = a_uid a then Suc g else g))"
    using rest
  proof
    assume "res \<noteq> Inr True \<and> d' = d1"
    then show ?thesis by simp
  qed (rule face_charge_steps [OF assms(1)])
  ultimately show ?thesis by (rule rtranclp_trans)
qed

lemma quiet_denied:
  assumes ok: "codec_ok cd"
  shows "quiet (\<lambda>f. count_at cd f u) (denied_inner cd st a policy outcome e)"
  unfolding denied_inner_def
proof (rule quiet_bind, simp, rule quiet_bind, simp, rule keeps_bind)
  let ?done = "\<lambda>r b. r\<lparr> r_budget := Some (b\<lparr> fb_pending := False \<rparr>) \<rparr>"
  fix r d
  assume read: "fst (store_read cd st (se_io e) a d) = Inr r"
  define d' where "d' = snd (store_read cd st (se_io e) a d)"
  have rd: "store_read cd st (se_io e) a d = (Inr r, d')" using read by (simp add: d'_def prod_eq_iff)
  have cm: "calm (\<lambda>f. count_at cd f u) d' (snd (store_commit cd st (se_write e) r' d'))"
    if "r_budget r = Some b" "r' = ?done r b \<or> strike policy now (?done r b) = Some r'" for b r' now
    by (rule calm_store_commit [OF ok])
      (use that store_read_Inr [OF rd] strike_keeps [of policy now "?done r b" r'] in
        \<open>auto simp: budget_count_def\<close>)
  show "calm (\<lambda>f. count_at cd f u) (snd (store_read cd st (se_io e) a d)) (snd
    (io_bind (io_lift (or_invalid (r_budget r))) (\<lambda>b.
     io_bind (io_require (fb_pending b)) (\<lambda>_.
     io_bind (if counts_as_strike (oc_kind outcome)
              then io_bind (io_lift (se_clock e)) (\<lambda>now.
                   io_bind (io_require (valid_boot (t_boot now))) (\<lambda>_.
                     io_lift (or_invalid (strike policy now (?done r b)))))
              else io_return (?done r b)) (\<lambda>r'.
       store_commit cd st (se_write e) r')))
     (snd (store_read cd st (se_io e) a d))))"
    unfolding d'_def [symmetric] using cm
    by (auto simp: io_bind_def io_lift_def io_return_def io_require_def or_invalid_def
        split: prod.split sum.split option.split)
qed simp_all

lemma reset_count [simp]: "budget_count (Record_reset a) = 0" "r_uid (Record_reset a) = a_uid a"
  by (simp_all add: Record_reset_def initialize_budget_def budget_count_def Record_empty_def)

text \<open>Committing a cleared record, once the budget has been earned back.\<close>

lemma reset_commit_steps:
  assumes ok: "codec_ok cd" and cm: "store_commit cd st w (Record_reset a) d = (res, d')"
  shows "(charge_step l)\<^sup>*\<^sup>* (face_view cd u d (if u = a_uid a then 0 else g))
    (face_view cd u d' (if u = a_uid a then 0 else g))"
proof (cases "u = a_uid a")
  case False
  then have "calm (\<lambda>f. count_at cd f u) d d'"
    using calm_store_commit [OF ok, of u "Record_reset a" d st w] cm by simp
  from calm_steps [OF this] False show ?thesis by simp
next
  case True
  from cm show ?thesis
  proof (cases rule: store_commit_cases)
    case (failed x)
    then show ?thesis by simp
  next
    case (seen x b)
    with True ok show ?thesis
      using charge_step.cleared [of l "count_at cd (visible d) u" "count_at cd (durable d) u"]
      by (simp add: count_at_upd)
  next
    case (kept b)
    have "(charge_step l)\<^sup>*\<^sup>* (face_view cd u d 0) (0, 0, 0)"
      by (rule converse_rtranclp_into_rtranclp [of "charge_step l", OF charge_step.cleared])
        (rule r_into_rtranclp [of "charge_step l", OF charge_step.flush])
    with True ok kept show ?thesis by (simp add: count_at_upd)
  qed
qed

lemma earned_step: "(charge_step l)\<^sup>*\<^sup>* (v, dd, g) (v, dd, if b then 0 else g)"
  using r_into_rtranclp [of "charge_step l", OF charge_step.earned [of l v dd g]] by simp

lemma delivered_steps:
  assumes ok: "codec_ok cd" and run: "delivered cd st a e d = (res, d')"
  shows "(charge_step l)\<^sup>*\<^sup>* (face_view cd u d g) (face_view cd u d' (if u = a_uid a then 0 else g))"
proof -
  let ?g = "if u = a_uid a then 0 else g"
  obtain rr d1 where rd: "store_read cd st (se_io e) a d = (rr, d1)" by fastforce
  have d1: "calm (\<lambda>f. count_at cd f u) d d1"
    using quiet_store_read [of "\<lambda>f. count_at cd f u" cd st "se_io e" a] rd unfolding keeps_def by (metis snd_conv)
  have to_d1: "(charge_step l)\<^sup>*\<^sup>* (face_view cd u d g) (face_view cd u d1 ?g)"
    by (rule rtranclp_trans [OF earned_step [of l _ _ g "u = a_uid a"]]) (rule calm_steps [OF d1])
  have "d' = d \<or> d' = d1 \<or> store_commit cd st (se_write e) (Record_reset a) d1 = (res, d')"
    using run rd by (auto simp: delivered_def io_bind_def io_lift_def io_require_def split: sum.splits if_splits)
  then show ?thesis
  proof (elim disjE)
    assume "d' = d"
    then show ?thesis by (simp add: earned_step)
  next
    assume "d' = d1"
    with to_d1 show ?thesis by simp
  next
    assume "store_commit cd st (se_write e) (Record_reset a) d1 = (res, d')"
    from rtranclp_trans [OF to_d1 reset_commit_steps [OF ok this]] show ?thesis .
  qed
qed

section \<open>Cooldowns\<close>

lemma arm_Some:
  assumes "arm now n r = Some r'"
  obtains c where "r_cooldown r' = Some c" "boot_id c = t_boot now" "duration_nanos c = n"
    "unat (deadline_nanos c) = unat (t_nanos now) + unat n" "r_strikes r' = 0"
  using assms by (auto simp: arm_def dest: checked_add_SomeD split: Option.bind_splits)

definition cooling :: "Tick \<Rightarrow> Cooldown \<Rightarrow> bool" where
  "cooling now c \<longleftrightarrow> (if boot_id c = t_boot now then t_nanos now < deadline_nanos c else duration_nanos c > 0)"

lemma settle_cooldown:
  "settle_abandoned policy now r = Some r' \<Longrightarrow> r_cooldown r = Some c \<Longrightarrow> r_cooldown r' = Some c"
  by (auto simp: settle_abandoned_def strike_def split: option.splits if_splits)

lemma check_record_cooling:
  assumes "check_record policy now r = Some r'" "r_cooldown r = Some c" "cooling now c"
  shows "refuses now r'"
proof -
  from assms(1) obtain s where s: "settle_abandoned policy now r = Some s"
    by (auto simp: check_record_def split: Option.bind_splits)
  then have c: "r_cooldown s = Some c" using assms(2) by (rule settle_cooldown)
  show ?thesis
  proof (cases "boot_id c = t_boot now")
    case True
    with s c assms have "r' = s" by (auto simp: check_record_def cooling_def split: if_splits)
    with c True assms(3) show ?thesis by (simp add: refuses_def cooling_def)
  next
    case False
    with s c assms(1) have arm: "arm now (duration_nanos c) s = Some r'" by (simp add: check_record_def)
    have "unat (duration_nanos c) > 0" using False assms(3) by (simp add: cooling_def word_less_nat_alt)
    with arm show ?thesis by (auto elim!: arm_Some simp: refuses_def word_less_nat_alt)
  qed
qed

text \<open>Reading one record of the disk.\<close>

definition record_at :: "'b codec \<Rightarrow> (path \<rightharpoonup> 'b rfile) \<Rightarrow> u32 \<Rightarrow> Record option" where
  "record_at cd files u = Option.bind (files (RecordPath u)) (\<lambda>f. cd_dec cd (f_bytes f))"

lemma begin_blocked:
  assumes "record_at cd (visible d) (a_uid a) = Some r"
    and "\<And>now r'. be_clock e = Inr now \<Longrightarrow> check_record policy now r = Some r' \<Longrightarrow> refuses now r'"
  shows "fst (face_begin cd st a policy e held d) \<noteq> Inr True"
proof
  assume "fst (face_begin cd st a policy e held d) = Inr True"
  then obtain d' where run: "face_begin cd st a policy e held d = (Inr True, d')" by (metis prod.collapse)
  obtain d1 where op: "store_operation st (be_operation e) held d = (Inr (), d1)"
    using run unfolding face_begin_def io_bind_Inr [where s = d] by auto
  have v1: "visible d1 = visible d"
    using op by (auto simp: store_operation_def io_bind_Inr split: sum.splits)
  from run op obtain d2 where ck: "store_check cd st a policy (be_clock e) (be_check e) (be_check_write e) d1 = (Inr False, d2)"
    by (auto simp: face_begin_def io_bind_def io_return_def split: prod.splits sum.splits if_splits)
  then obtain now before d3 r' where clock: "be_clock e = Inr now"
    and rd: "store_read cd st (be_check e) a d1 = (Inr before, d3)"
    and chk: "check_record policy now before = Some r'" and ref: "\<not> refuses now r'"
    by (auto simp: store_check_def io_bind_Inr)
  from assms(1) v1 obtain f where f: "visible d1 (RecordPath (a_uid a)) = Some f" and df: "cd_dec cd (f_bytes f) = Some r"
    by (auto simp: record_at_def split: Option.bind_splits)
  from store_read_Inr(6) [OF rd f] df have "before = r" by simp
  with assms(2) clock chk ref show False by blast
qed

text \<open>A system in which every call of a critical section succeeds.\<close>

definition io_works :: "Store \<Rightarrow> io_env \<Rightarrow> bool" where
  "io_works st e \<longleftrightarrow> store_lock st (ie_lock e) = Inr () \<and> ie_open e = Inr () \<and> ie_read e = Inr () \<and> ie_sync e = Inr ()"

definition write_works :: "write_env \<Rightarrow> bool" where
  "write_works w \<longleftrightarrow> open_tmp w = Inr () \<and> we_write w = Inr () \<and> we_sync_file w = Inr () \<and>
     we_rename w = Inr () \<and> we_sync_dir w = Inr ()"

definition op_works :: "Store \<Rightarrow> op_env \<Rightarrow> bool" where
  "op_works st e \<longleftrightarrow> store_lock st (oe_lock e) = Inr () \<and> oe_flock e = Inr () \<and> oe_sync e = Inr () \<and>
     (case oe_file e of Inl _ \<Rightarrow> False | Inr m \<Rightarrow>
        om_is_file m \<and> om_uid m = st_owner st \<and> om_mode m AND 0xFFF = 0x180 \<and> om_nlink m = 1 \<and> om_len m = 0)"

definition stores :: "'b codec \<Rightarrow> Store \<Rightarrow> (path \<rightharpoonup> 'b rfile) \<Rightarrow> Record \<Rightarrow> bool" where
  "stores cd st files r \<longleftrightarrow> (\<exists>b. cd_enc cd r = Some b \<and> cd_len cd b \<le> MAX_RECORD \<and>
     files (RecordPath (r_uid r)) = Some (record_file st b))"

lemma store_read_works:
  assumes "codec_ok cd" "io_works st e" "stores cd st (visible d) r" "Record_validate r a"
  shows "store_read cd st e a d = (Inr r, sync_dir d)"
proof -
  from assms(3) obtain b where b: "cd_enc cd r = Some b" "cd_len cd b \<le> MAX_RECORD"
    "visible d (RecordPath (r_uid r)) = Some (record_file st b)" by (auto simp: stores_def)
  have uid: "r_uid r = a_uid a" and ver: "\<not> (r_version r = 1 \<and> r_budget r \<noteq> None)"
    using assms(4) by (auto simp: Record_validate_def)
  have rb: "read_bytes (cd_len cd) st e (RecordPath (a_uid a)) d = (Inr (Some b), sync_dir d)"
    using b uid assms(2) by (simp add: read_bytes_def record_file_def io_works_def)
  show ?thesis
    using rb codec_okD(1,2) [OF assms(1) b(1)] ver assms(4)
    by (simp add: store_read_def io_bind_def io_lift_def io_require_def io_return_def or_invalid_def)
qed

lemma store_commit_works:
  assumes "write_works w" "cd_enc cd r = Some b" "cd_len cd b \<le> MAX_RECORD"
    and "Record_validate r \<lparr> a_uid = r_uid r, a_name = r_account r \<rparr>"
  shows "store_commit cd st w r d = (Inr (), sync_dir (publish (RecordPath (r_uid r)) (record_file st b) d))"
  using assms
  by (simp add: store_commit_def io_bind_def io_lift_def io_require_def or_invalid_def write_works_def
      write_atomic_reporting_def finish_write_def record_file_def)

lemma validate_self: "Record_validate r a \<Longrightarrow> Record_validate r \<lparr> a_uid = r_uid r, a_name = r_account r \<rparr>"
  by (simp add: Record_validate_def)

lemma charge_record_validate:
  assumes "Record_validate r a" "charge_record r = Inr (Some r')"
  shows "Record_validate r' a"
proof -
  have pos: "n \<noteq> 0 \<and> \<not> FACE_LIMIT < n" if "checked_add m 1 = Some n" "\<not> FACE_LIMIT \<le> m" for m n :: u32
  proof -
    have "unat n = unat m + 1" using checked_add_SomeD(1) [OF that(1)] by simp
    with that(2) show ?thesis by (auto simp: FACE_LIMIT_def word_le_nat_alt word_less_nat_alt)
  qed
  obtain s where s: "s = (if r_budget r = None then initialize_budget r else r)" by simp
  with assms(2) obtain b n where b: "r_budget s = Some b" and n: "checked_add (unsuccessful_requests b) 1 = Some n"
    "\<not> FACE_LIMIT \<le> unsuccessful_requests b"
    and r': "r' = s\<lparr> r_budget := Some \<lparr> unsuccessful_requests = n, fb_pending = True \<rparr> \<rparr>"
    by (auto simp: charge_record_def Let_def split: option.splits if_splits)
  have "r_version s = 2" using s assms(1) b
    by (cases "r_budget r") (auto simp: initialize_budget_def Record_validate_def)
  with s r' pos [OF n] assms(1) show ?thesis
    by (auto simp: Record_validate_def initialize_budget_def split: option.splits if_splits)
qed

text \<open>A codec that keeps the record itself, and a system that answers every call, for the
  concrete instances below.\<close>

definition plain_codec :: "(Record + Attempts) codec" where
  "plain_codec = \<lparr> cd_len = (\<lambda>_. 200),
     cd_shape = (\<lambda>b. Some (case b of Inl r \<Rightarrow> r_version r = 1 \<and> r_budget r \<noteq> None | Inr _ \<Rightarrow> False)),
     cd_dec = (\<lambda>b. case b of Inl r \<Rightarrow> Some r | Inr _ \<Rightarrow> None),
     cd_enc = (\<lambda>r. Some (Inl r)),
     cd_dec_reset = (\<lambda>b. case b of Inl _ \<Rightarrow> None | Inr t \<Rightarrow> Some t),
     cd_enc_reset = (\<lambda>t. Some (Inr t)) \<rparr>"

definition root_store :: Store where
  "root_store = \<lparr> st_owner = 0 \<rparr>"

definition good_lock :: lock_env where
  "good_lock = \<lparr> le_parent = Inr \<lparr> dm_uid = 0, dm_is_dir = True, dm_mode = 0x1C0 \<rparr>, le_mkdir = MkdirExists,
     le_dir = Inr \<lparr> dm_uid = 0, dm_is_dir = True, dm_mode = 0x1C0 \<rparr>, le_sync = Inr (), le_flock = Inr () \<rparr>"

definition good_io :: io_env where
  "good_io = \<lparr> ie_lock = good_lock, ie_open = Inr (), ie_read = Inr (), ie_sync = Inr () \<rparr>"

definition good_write :: write_env where
  "good_write = \<lparr> we_create = TmpCreated, we_remove = Inr (), we_create_again = TmpCreated, we_write = Inr (),
     we_sync_file = Inr (), we_rename = Inr (), we_sync_dir = Inr () \<rparr>"

definition good_op :: op_env where
  "good_op = \<lparr> oe_lock = good_lock,
     oe_file = Inr \<lparr> om_is_file = True, om_uid = 0, om_mode = 0x180, om_nlink = 1, om_len = 0 \<rparr>,
     oe_flock = Inr (), oe_sync = Inr () \<rparr>"

definition good_boot :: string where
  "good_boot = ''01234567-89ab-cdef-0123-456789abcdef''"

definition good_begin :: "u64 \<Rightarrow> begin_env" where
  "good_begin n = \<lparr> be_operation = good_op, be_clock = Inr \<lparr> t_boot = good_boot, t_nanos = n \<rparr>,
     be_check = good_io, be_check_write = good_write, be_charge = good_io, be_charge_write = good_write \<rparr>"

definition alice :: Account where
  "alice = \<lparr> a_uid = 1000, a_name = ''alice'' \<rparr>"

definition alice_record :: "u32 \<Rightarrow> u32 \<Rightarrow> bool \<Rightarrow> Record" where
  "alice_record strikes n pending = \<lparr> r_version = 2, r_uid = 1000, r_account = ''alice'', r_strikes = strikes,
     r_cooldown = None, r_budget = Some \<lparr> unsuccessful_requests = n, fb_pending = pending \<rparr> \<rparr>"

definition alice_disk :: "Record \<Rightarrow> (Record + Attempts) disk" where
  "alice_disk r = sync_dir (publish (RecordPath 1000) (record_file root_store (Inl r))
     \<lparr> visible = Map.empty, durable = Map.empty \<rparr>)"

lemma plain_codec_ok: "codec_ok plain_codec"
  by (simp add: codec_ok_def plain_codec_def)

lemma good_lock_works: "store_lock root_store good_lock = Inr ()"
  by (simp add: store_lock_def good_lock_def open_dir_def root_store_def)

lemma good_works: "io_works root_store good_io" "write_works good_write" "op_works root_store good_op"
  by (simp_all add: io_works_def write_works_def op_works_def good_io_def good_write_def good_op_def
      good_lock_works open_tmp_def) (simp add: root_store_def)

lemma good_boot_valid: "valid_boot good_boot"
  by code_simp

lemma alice_record_valid:
  "n \<le> FACE_LIMIT \<Longrightarrow> (pending \<Longrightarrow> n \<noteq> 0) \<Longrightarrow> Record_validate (alice_record strikes n pending) alice"
  by (auto simp: Record_validate_def alice_record_def alice_def codes_def)

lemma alice_stored:
  "stores plain_codec root_store (visible (alice_disk (alice_record strikes n pending))) (alice_record strikes n pending)"
  by (simp add: stores_def alice_disk_def plain_codec_def MAX_RECORD_def alice_record_def)

definition good_settle :: settle_env where
  "good_settle = \<lparr> se_clock = Inr \<lparr> t_boot = good_boot, t_nanos = 7 \<rparr>, se_io = good_io, se_write = good_write \<rparr>"

definition alice_locked :: Record where
  "alice_locked = \<lparr> r_version = 2, r_uid = 1000, r_account = ''alice'', r_strikes = 0,
     r_cooldown = Some \<lparr> boot_id = good_boot, deadline_nanos = 30000000007, duration_nanos = 30000000000 \<rparr>,
     r_budget = Some \<lparr> unsuccessful_requests = 5, fb_pending = False \<rparr> \<rparr>"

lemma alice_fifth_strike:
  "strike \<lparr> limit = 5, seconds = 30 \<rparr> \<lparr> t_boot = good_boot, t_nanos = 7 \<rparr> (alice_record 4 5 False) = Some alice_locked"
  by (simp add: strike_def arm_def alice_record_def alice_locked_def checked_add_def checked_mul_def NANOS_def)

lemma alice_locked_valid: "Record_validate alice_locked alice"
  using good_boot_valid
  by (simp add: Record_validate_def alice_locked_def alice_def codes_def FACE_LIMIT_def)

lemma alice_denied:
  "denied_inner plain_codec root_store alice \<lparr> limit = 5, seconds = 30 \<rparr>
     \<lparr> granted = False, oc_kind = BelowThreshold \<rparr> good_settle (alice_disk (alice_record 4 5 True)) =
   (Inr (), sync_dir (publish (RecordPath 1000) (record_file root_store (Inl alice_locked))
      (sync_dir (alice_disk (alice_record 4 5 True)))))"
proof -
  have rd: "store_read plain_codec root_store good_io alice (alice_disk (alice_record 4 5 True)) =
      (Inr (alice_record 4 5 True), sync_dir (alice_disk (alice_record 4 5 True)))"
    by (intro store_read_works plain_codec_ok good_works alice_stored alice_record_valid)
      (simp_all add: FACE_LIMIT_def)
  have cm: "store_commit plain_codec root_store good_write alice_locked dd =
      (Inr (), sync_dir (publish (RecordPath 1000) (record_file root_store (Inl alice_locked)) dd))" for dd
    using store_commit_works [OF good_works(2), of plain_codec alice_locked "Inl alice_locked" root_store dd]
      validate_self [OF alice_locked_valid]
    by (simp add: plain_codec_def MAX_RECORD_def alice_locked_def)
  have upd: "alice_record 4 5 True\<lparr> r_budget := Some \<lparr> unsuccessful_requests = 5, fb_pending = False \<rparr> \<rparr> = alice_record 4 5 False"
    "r_budget (alice_record 4 5 True) = Some \<lparr> unsuccessful_requests = 5, fb_pending = True \<rparr>"
    by (simp_all add: alice_record_def)
  show ?thesis
    using rd upd
    by (simp add: denied_inner_def io_bind_def io_lift_def io_require_def io_return_def or_invalid_def
        good_settle_def good_io_def good_lock_works good_boot_valid alice_fifth_strike cm)
qed

lemma begin_admits:
  assumes ok: "codec_ok cd" and enc: "\<And>x. \<exists>b. cd_enc cd x = Some b \<and> cd_len cd b \<le> MAX_RECORD"
    and stored: "stores cd st (visible d) r" "Record_validate r a"
    and r: "r_cooldown r = None" "r_strikes r < limit policy" "budget_count r < 50"
      "r_budget r = Some b" "\<not> fb_pending b"
    and env: "op_works st (be_operation e)" "be_clock e = Inr now" "valid_boot (t_boot now)"
      "io_works st (be_check e)" "io_works st (be_charge e)" "write_works (be_charge_write e)"
  shows "\<exists>d'. face_begin cd st a policy e False d = (Inr True, d') \<and>
    record_at cd (durable d') (a_uid a) =
      Some (r\<lparr> r_budget := Some \<lparr> unsuccessful_requests = unsuccessful_requests b + 1, fb_pending = True \<rparr> \<rparr>)"
proof -
  let ?r' = "r\<lparr> r_budget := Some \<lparr> unsuccessful_requests = unsuccessful_requests b + 1, fb_pending = True \<rparr> \<rparr>"
  have small: "unat (unsuccessful_requests b) < 50" using r(3,4) by (simp add: budget_count_def)
  then have open_budget: "\<not> FACE_LIMIT \<le> unsuccessful_requests b" by (simp add: FACE_LIMIT_def word_le_nat_alt)
  have ch: "charge_record r = Inr (Some ?r')"
    using r(4) small open_budget by (simp add: charge_record_def checked_add_def)
  have chk: "check_record policy now r = Some r" "\<not> refuses now r"
    using r open_budget leD [of "limit policy" "r_strikes r"]
    by (auto simp: check_record_def settle_abandoned_def refuses_def)
  have op: "store_operation st (be_operation e) False d = (Inr (), sync_dir d)"
    using env(1) by (auto simp: store_operation_def op_works_def io_bind_def io_lift_def io_require_def split: sum.splits)
  have rd: "store_read cd st e' a (sync_dir dd) = (Inr r, sync_dir dd)"
    if "io_works st e'" "visible dd = visible d" for e' dd
    using store_read_works [OF ok that(1) _ stored(2), of "sync_dir dd"] stored(1) that(2) by (simp add: sync_dir_def)
  have ck: "store_check cd st a policy (be_clock e) (be_check e) (be_check_write e) (sync_dir d) = (Inr False, sync_dir d)"
    using env(2-4) chk rd [OF env(4)]
    by (simp add: store_check_def io_bind_def io_lift_def io_require_def io_return_def or_invalid_def io_works_def)
  obtain bytes where by': "cd_enc cd ?r' = Some bytes" "cd_len cd bytes \<le> MAX_RECORD" using enc by blast
  have valid: "Record_validate ?r' a" by (rule charge_record_validate [OF stored(2) ch])
  have uid: "r_uid r = a_uid a" using stored(2) by (simp add: Record_validate_def)
  define d' where "d' = sync_dir (publish (RecordPath (r_uid r)) (record_file st bytes) (sync_dir d))"
  have "face_charge cd st a (be_charge e) (be_charge_write e) (sync_dir d) = (Inr True, d')"
    using store_commit_works [OF env(6) by' validate_self [OF valid], of st "sync_dir d"]
      rd [OF env(5), of d] ch env(5)
    by (simp add: face_charge_def io_bind_def io_lift_def io_return_def io_works_def d'_def)
  with op ck have "face_begin cd st a policy e False d = (Inr True, d')"
    by (simp add: face_begin_def io_bind_def)
  moreover have "record_at cd (durable d') (a_uid a) = Some ?r'"
    using uid codec_okD(1) [OF ok by'(1)] by (simp add: d'_def record_at_def record_file_def)
  ultimately show ?thesis by blast
qed

section \<open>Properties\<close>

text \<open>However the two settings are spelled, the policy in force allows one to five
  strikes and a cooldown of thirty seconds to one day, whose length in nanoseconds does not
  overflow; the invalid flag is raised exactly when one of the two texts is not a number
  in its range, and a text that is one is the value in force.\<close>

theorem policy_is_always_bounded:
  fixes l s :: string
  defines "p \<equiv> fst (policy_parse l s)"
  shows "1 \<le> unat (limit p) \<and> unat (limit p) \<le> 5 \<and> 30 \<le> unat (seconds p) \<and> unat (seconds p) \<le> 86400 \<and>
    checked_mul (seconds p) NANOS = Some (seconds p * NANOS) \<and>
    (snd (policy_parse l s) \<longleftrightarrow>
       \<not> ((\<exists>n. parse_u32 (codes l) = Some n \<and> 1 \<le> unat n \<and> unat n \<le> 5) \<and>
          (\<exists>n. parse_u64 (codes s) = Some n \<and> 30 \<le> unat n \<and> unat n \<le> 86400))) \<and>
    (\<not> snd (policy_parse l s) \<longrightarrow>
       parse_u32 (codes l) = Some (limit p) \<and> parse_u64 (codes s) = Some (seconds p))"
proof -
  have lim: "1 \<le> unat (limit p) \<and> unat (limit p) \<le> 5" and sec: "30 \<le> unat (seconds p) \<and> unat (seconds p) \<le> 86400"
    by (auto simp: p_def policy_parse_def opt_filter_def Let_def word_le_nat_alt split: option.split)
  moreover have "unat (seconds p) * unat NANOS < 2 ^ 64"
  proof -
    have "unat NANOS = 1000000000" by (simp add: NANOS_def)
    moreover have "unat (seconds p) * 1000000000 \<le> 86400 * 1000000000" using sec by (intro mult_le_mono) simp_all
    ultimately show ?thesis by simp
  qed
  then have "checked_mul (seconds p) NANOS = Some (seconds p * NANOS)" by (simp add: checked_mul_def)
  moreover have "snd (policy_parse l s) \<longleftrightarrow>
       \<not> ((\<exists>n. parse_u32 (codes l) = Some n \<and> 1 \<le> unat n \<and> unat n \<le> 5) \<and>
          (\<exists>n. parse_u64 (codes s) = Some n \<and> 30 \<le> unat n \<and> unat n \<le> 86400))"
    "\<not> snd (policy_parse l s) \<longrightarrow>
       parse_u32 (codes l) = Some (limit p) \<and> parse_u64 (codes s) = Some (seconds p)"
    by (auto simp: p_def policy_parse_def opt_filter_def Let_def word_le_nat_alt split: option.splits if_splits)
  ultimately show ?thesis by blast
qed

theorem policy_is_always_bounded_witness:
  "snd (policy_parse ''3'' ''60'') = False \<and> unat (limit (fst (policy_parse ''3'' ''60''))) = 3"
proof -
  have "parse_u32 (codes ''3'') = Some 3" "parse_u64 (codes ''60'') = Some 60"
    by (simp_all add: parse_u32_def parse_u64_def codes_def)
  with policy_is_always_bounded [of "''3''" "''60''"] show ?thesis by auto
qed

text \<open>Once fifty requests stand uncleared on the account's record, no attempt is
  admitted, whatever the settings, the clock and the operating system answer.\<close>

theorem spent_budget_admits_nothing:
  assumes "codec_ok cd" "count_at cd (visible d) (a_uid a) \<ge> 50"
  shows "fst (face_begin cd st a policy e held d) \<noteq> Inr True"
proof
  assume "fst (face_begin cd st a policy e held d) = Inr True"
  then obtain d' where run: "face_begin cd st a policy e held d = (Inr True, d')" by (metis prod.collapse)
  obtain d1 where d1: "\<forall>u. calm (\<lambda>f. count_at cd f u) d d1"
    and ch: "face_charge cd st a (be_charge e) (be_charge_write e) d1 = (Inr True, d')"
    using face_begin_split [OF assms(1) run] by blast
  from ch obtain r r' d2 where "store_read cd st (be_charge e) a d1 = (Inr r, d2)"
    and "charge_record r = Inr (Some r')"
    by (auto simp: face_charge_def io_bind_Inr split: option.splits)
  then have "count_at cd (visible d1) (a_uid a) < 50"
    using store_read_Inr(2) charge_record_Some(1) by metis
  moreover have "count_at cd (visible d1) (a_uid a) = count_at cd (visible d) (a_uid a)"
    using d1 by (simp add: calm_def)
  ultimately show False using assms(2) by simp
qed

theorem spent_budget_admits_nothing_witness:
  "fst (face_begin plain_codec root_store alice \<lparr> limit = 5, seconds = 30 \<rparr> (good_begin 7) False
     (alice_disk (alice_record 0 50 False))) \<noteq> Inr True"
  by (rule spent_budget_admits_nothing [OF plain_codec_ok])
    (simp add: count_at_def alice_disk_def record_file_def plain_codec_def alice_def alice_record_def budget_count_def)

text \<open>A refusal that counts and reaches the strike limit locks the account out: once it
  is recorded, no attempt is admitted before the cooldown has run, under any settings, also
  after a power loss, and on another boot the cooldown starts again.\<close>

theorem counted_refusal_locks_out:
  assumes ok: "codec_ok cd"
    and before: "record_at cd (visible d) (a_uid a) = Some r" "r_cooldown r = None"
      "unat (r_strikes r) + 1 \<ge> unat (limit policy)" "seconds policy > 0"
    and denied: "counts_as_strike (oc_kind outcome)" "se_clock e = Inr now"
      "denied_inner cd st a policy outcome e d = (Inr (), d')"
    and later: "visible d'' = visible d' \<or> visible d'' = durable d'" "be_clock e' = Inr later_tick"
      "t_boot later_tick = t_boot now \<longrightarrow>
         unat (t_nanos later_tick) < unat (t_nanos now) + unat (seconds policy) * 1000000000"
  shows "fst (face_begin cd st a policy' e' held d'') \<noteq> Inr True"
proof -
  let ?done = "\<lambda>b. r\<lparr> r_budget := Some (b\<lparr> fb_pending := False \<rparr>) \<rparr>"
  obtain s d1 where rd: "store_read cd st (se_io e) a d = (Inr s, d1)"
    and tail: "\<exists>b r'. r_budget s = Some b \<and> strike policy now (s\<lparr> r_budget := Some (b\<lparr> fb_pending := False \<rparr>) \<rparr>) = Some r' \<and>
      store_commit cd st (se_write e) r' d1 = (Inr (), d')"
    using denied by (auto simp: denied_inner_def io_bind_Inr)
  from before(1) obtain f where f: "visible d (RecordPath (a_uid a)) = Some f" "cd_dec cd (f_bytes f) = Some r"
    by (auto simp: record_at_def split: Option.bind_splits)
  with store_read_Inr(6) [OF rd f(1)] have s: "s = r" by simp
  with store_read_Inr(3) [OF rd] have uid: "r_uid r = a_uid a" by simp
  from tail s obtain b r' where st: "strike policy now (?done b) = Some r'"
    and cm: "store_commit cd st (se_write e) r' d1 = (Inr (), d')" by blast
  obtain n where n: "checked_add (r_strikes r) 1 = Some n"
    using st before(2) by (auto simp: strike_def split: Option.bind_splits)
  with before(3) have "n \<ge> limit policy" using checked_add_SomeD(1) [OF n] by (simp add: word_le_nat_alt)
  with st n before(2) obtain m where m: "checked_mul (seconds policy) NANOS = Some m"
    and arm: "arm now m ((?done b)\<lparr> r_strikes := n \<rparr>) = Some r'"
    by (auto simp: strike_def Let_def split: Option.bind_splits)
  have m_val: "unat m = unat (seconds policy) * 1000000000"
    using checked_mul_SomeD [OF m] by (simp add: NANOS_def)
  obtain c where c: "r_cooldown r' = Some c" "boot_id c = t_boot now" "duration_nanos c = m"
      "unat (deadline_nanos c) = unat (t_nanos now) + unat m"
    using arm by (rule arm_Some)
  have m_pos: "m > 0" using m_val before(4) by (simp add: word_less_nat_alt)
  have cool: "cooling later_tick c"
    using c later(3) m_pos m_val by (auto simp: cooling_def word_less_nat_alt)
  have "r_uid r' = a_uid a" using strike_keeps(1) [OF st] uid by simp
  with cm ok have "record_at cd (visible d') (a_uid a) = Some r'" "durable d' = visible d'"
    by (cases rule: store_commit_cases, simp_all add: record_at_def record_file_def codec_okD)+
  with later(1) have "record_at cd (visible d'') (a_uid a) = Some r'" by auto
  then show ?thesis
    by (rule begin_blocked) (use later(2) c(1) cool check_record_cooling in auto)
qed

theorem counted_refusal_locks_out_witness:
  "fst (face_begin plain_codec root_store alice \<lparr> limit = 3, seconds = 60 \<rparr> (good_begin 30000000006) False
     (snd (denied_inner plain_codec root_store alice \<lparr> limit = 5, seconds = 30 \<rparr>
        \<lparr> granted = False, oc_kind = BelowThreshold \<rparr> good_settle (alice_disk (alice_record 4 5 True))))) \<noteq> Inr True"
  by (rule counted_refusal_locks_out [OF plain_codec_ok _ _ _ _ _ _ alice_denied, where r = "alice_record 4 5 True"
        and now = "\<lparr> t_boot = good_boot, t_nanos = 7 \<rparr>"
        and later_tick = "\<lparr> t_boot = good_boot, t_nanos = 30000000006 \<rparr>"], unfold alice_denied snd_conv)
    (simp_all add: record_at_def alice_disk_def record_file_def plain_codec_def alice_def alice_record_def
      good_settle_def good_begin_def word_less_nat_alt)

text \<open>Under settings within their bounds, an account with budget left, no strike at the
  limit and no cooldown is admitted whenever the system answers every call, and it is
  admitted only with its charge on the disk for good: one more request, marked pending.\<close>

theorem open_account_is_charged_then_admitted:
  assumes ok: "codec_ok cd" and enc: "\<And>x. \<exists>b. cd_enc cd x = Some b \<and> cd_len cd b \<le> MAX_RECORD"
    and stored: "stores cd st (visible d) r" "Record_validate r a"
    and r: "r_cooldown r = None" "r_strikes r < limit policy" "budget_count r < 50"
      "r_budget r = Some b" "\<not> fb_pending b"
    and env: "op_works st (be_operation e)" "be_clock e = Inr now" "valid_boot (t_boot now)"
      "io_works st (be_check e)" "io_works st (be_charge e)" "write_works (be_charge_write e)"
  shows "\<exists>d'. face_begin cd st a policy e False d = (Inr True, d') \<and>
    record_at cd (durable d') (a_uid a) =
      Some (r\<lparr> r_budget := Some \<lparr> unsuccessful_requests = unsuccessful_requests b + 1, fb_pending = True \<rparr> \<rparr>)"
  by (rule begin_admits [OF assms])

theorem open_account_is_charged_then_admitted_witness:
  "\<exists>d'. face_begin plain_codec root_store alice \<lparr> limit = 5, seconds = 30 \<rparr> (good_begin 7) False
      (alice_disk (alice_record 2 9 False)) = (Inr True, d') \<and>
    record_at plain_codec (durable d') 1000 = Some (alice_record 2 10 True)"
proof -
  have eq: "alice_record 2 9 False\<lparr> r_budget := Some \<lparr> unsuccessful_requests = 9 + 1, fb_pending = True \<rparr> \<rparr> = alice_record 2 10 True"
    "a_uid alice = 1000"
    by (simp_all add: alice_record_def alice_def)
  have "\<exists>d'. face_begin plain_codec root_store alice \<lparr> limit = 5, seconds = 30 \<rparr> (good_begin 7) False
      (alice_disk (alice_record 2 9 False)) = (Inr True, d') \<and>
    record_at plain_codec (durable d') (a_uid alice) = Some (alice_record 2 9 False\<lparr> r_budget := Some
      \<lparr> unsuccessful_requests = unsuccessful_requests \<lparr> unsuccessful_requests = 9, fb_pending = False \<rparr> + 1, fb_pending = True \<rparr> \<rparr>)"
    by (rule open_account_is_charged_then_admitted [OF plain_codec_ok _ alice_stored,
          where now = "\<lparr> t_boot = good_boot, t_nanos = 7 \<rparr>"])
      (simp_all add: plain_codec_def MAX_RECORD_def alice_record_valid good_begin_def good_works good_boot_valid
        FACE_LIMIT_def, simp_all add: alice_record_def budget_count_def)
  then show ?thesis unfolding FaceBudget.select_convs eq .
qed

end
