(* ===== verification/Retry_Recovery.thy ===== *)
theory Retry_Recovery
  imports Retry_Throttle
begin

text \<open>
  Recovery from a spent retry budget (\<^verbatim>\<open>irlume-daemon/src/retry_throttle/recovery.rs\<close>):
  the account's own file of reset attempts, its status, and the reset that clears the face
  budget after a verified password. A reset charges one attempt durably before the password
  is verified, so the guesses it allows are bounded too.

  The last part puts the two files, every operation on them, writes of the page cache and
  power losses into one step relation and proves both bounds on every run of it, through
  the specification of a charged budget.
\<close>

section \<open>Reset attempts\<close>

definition RESET_LIMIT :: u32 where
  "RESET_LIMIT = 50"

definition DELAY_AFTER :: u32 where
  "DELAY_AFTER = 5"

definition DELAY :: u64 where
  "DELAY = 30 * NANOS"

definition Attempts_empty :: "Account \<Rightarrow> Attempts" where
  "Attempts_empty a = \<lparr> at_version = 1, at_uid = a_uid a, at_account = a_name a, at_failures = 0,
     at_pending = False, at_cooldown = None \<rparr>"

definition Attempts_validate :: "Attempts \<Rightarrow> Account \<Rightarrow> bool" where
  "Attempts_validate t a \<longleftrightarrow> \<not>
     (at_version t \<noteq> 1 \<or> at_uid t \<noteq> a_uid a \<or> at_account t \<noteq> a_name a \<or> at_failures t > RESET_LIMIT \<or>
      (at_pending t \<and> at_failures t = 0) \<or>
      (case at_cooldown t of None \<Rightarrow> False | Some c \<Rightarrow>
         \<not> valid_boot (boot_id c) \<or> duration_nanos c \<noteq> DELAY \<or> deadline_nanos c < DELAY \<or>
         at_failures t < DELAY_AFTER))"

text \<open>\<^verbatim>\<open>settle\<close> returns the attempts and whether they changed.\<close>

definition settle :: "Tick \<Rightarrow> Attempts \<Rightarrow> (Attempts \<times> bool) option" where
  "settle now t =
     (if at_pending t \<or> (case at_cooldown t of None \<Rightarrow> False | Some c \<Rightarrow> boot_id c \<noteq> t_boot now)
      then if at_failures t \<ge> DELAY_AFTER
           then Option.bind (checked_add (t_nanos now) DELAY) (\<lambda>deadline.
                  Some (t\<lparr> at_pending := False,
                           at_cooldown := Some \<lparr> boot_id = t_boot now, deadline_nanos = deadline,
                             duration_nanos = DELAY \<rparr> \<rparr>, True))
           else Some (t\<lparr> at_pending := False \<rparr>, True)
      else (case at_cooldown t of
          None \<Rightarrow> Some (t, False)
        | Some c \<Rightarrow>
            if saturating_sub (deadline_nanos c) (t_nanos now) > DELAY then None
            else if t_nanos now \<ge> deadline_nanos c then Some (t\<lparr> at_cooldown := None \<rparr>, True)
            else Some (t, False)))"

definition recovery_now :: "Tick io \<Rightarrow> ('s, Tick) io_op" where
  "recovery_now clock = io_bind (io_lift clock) (\<lambda>t.
     io_bind (io_require (valid_boot (t_boot t))) (\<lambda>_. io_return t))"

definition recovery_read :: "'b codec \<Rightarrow> Store \<Rightarrow> io_env \<Rightarrow> Account \<Rightarrow> ('b disk, Attempts) io_op" where
  "recovery_read cd st e a =
     io_bind (read_bytes (cd_len cd) st e (ResetPath (a_uid a))) (\<lambda>bytes.
     io_bind (case bytes of
         Some b \<Rightarrow> io_lift (or_invalid (cd_dec_reset cd b))
       | None \<Rightarrow> io_return (Attempts_empty a)) (\<lambda>t.
     io_bind (io_require (Attempts_validate t a)) (\<lambda>_. io_return t)))"

definition recovery_commit ::
    "'b codec \<Rightarrow> Store \<Rightarrow> write_env \<Rightarrow> Account \<Rightarrow> Attempts \<Rightarrow> ('b disk, unit) io_op" where
  "recovery_commit cd st w a t =
     io_bind (io_require (Attempts_validate t a)) (\<lambda>_.
     io_bind (io_lift (or_invalid (cd_enc_reset cd t))) (\<lambda>bytes.
     io_bind (io_require (cd_len cd bytes \<le> MAX_RECORD)) (\<lambda>_.
     io_bind (write_atomic_reporting st w (ResetPath (a_uid a)) bytes 0x180) finish_write)))"

section \<open>Status\<close>

record Status =
  s_requests :: "u32 option"
  s_limit :: u32
  s_reset_required :: bool
  s_failures :: u32
  s_cooldown_seconds :: u64
  s_recovery_failures :: u32
  s_recovery_cooldown_seconds :: u64
  s_recovery_required :: bool

definition div_ceil :: "u64 \<Rightarrow> u64 \<Rightarrow> u64" where
  "div_ceil n m = (if n mod m = 0 then n div m else n div m + 1)"

definition remaining :: "Tick \<Rightarrow> Cooldown option \<Rightarrow> u64" where
  "remaining now c = (case c of
      None \<Rightarrow> 0
    | Some c \<Rightarrow> div_ceil (if boot_id c = t_boot now then saturating_sub (deadline_nanos c) (t_nanos now)
                          else duration_nanos c) NANOS)"

record status_env =
  ss_clock :: "Tick io"
  ss_io :: io_env
  ss_io_reset :: io_env
  ss_write :: write_env
  ss_write_reset :: write_env

definition status_inner ::
    "'b codec \<Rightarrow> Store \<Rightarrow> Account \<Rightarrow> Policy \<Rightarrow> status_env \<Rightarrow> ('b disk, Status) io_op" where
  "status_inner cd st a policy e =
     io_bind (io_lift (store_lock st (ie_lock (ss_io e)))) (\<lambda>_.
     io_bind (store_read cd st (ss_io e) a) (\<lambda>before.
     io_bind (recovery_read cd st (ss_io_reset e) a) (\<lambda>recovery.
     io_bind (recovery_now (ss_clock e)) (\<lambda>now.
     io_bind (io_lift (or_invalid (settle_abandoned policy now before))) (\<lambda>face.
     io_bind (if face \<noteq> before then store_commit cd st (ss_write e) face else io_return ()) (\<lambda>_.
     io_bind (io_lift (or_invalid (settle now recovery))) (\<lambda>(recovery', changed).
     io_bind (if changed then recovery_commit cd st (ss_write_reset e) a recovery' else io_return ()) (\<lambda>_.
       io_return \<lparr> s_requests = map_option unsuccessful_requests (r_budget face),
         s_limit = FACE_LIMIT,
         s_reset_required = (case r_budget face of None \<Rightarrow> False | Some b \<Rightarrow> unsuccessful_requests b \<ge> FACE_LIMIT),
         s_failures = r_strikes face,
         s_cooldown_seconds = remaining now (r_cooldown face),
         s_recovery_failures = at_failures recovery',
         s_recovery_cooldown_seconds = remaining now (at_cooldown recovery'),
         s_recovery_required = (at_failures recovery' \<ge> RESET_LIMIT) \<rparr>))))))))"

section \<open>Reset\<close>

datatype reset_refusal = RESET_UNAVAILABLE | REFUSED | UNCONFIRMED | BLOCKED

record charge_env =
  ce_active :: bool
  ce_clock :: "Tick io"
  ce_io :: io_env
  ce_io_reset :: io_env
  ce_write_settle :: write_env
  ce_write :: write_env

text \<open>The first critical section of \<^verbatim>\<open>reset\<close>: an account that is not an administrator's
  request pays one attempt before its password is looked at.\<close>

definition reset_charge ::
    "'b codec \<Rightarrow> Store \<Rightarrow> Account \<Rightarrow> bool \<Rightarrow> charge_env \<Rightarrow> ('b disk, reset_refusal, unit) op" where
  "reset_charge cd st a admin e =
     (if \<not> ce_active e then io_lift (Inl REFUSED)
      else
        io_bind (map_err RESET_UNAVAILABLE (io_lift (store_lock st (ie_lock (ce_io e))))) (\<lambda>_.
        io_bind (map_err RESET_UNAVAILABLE (store_read cd st (ce_io e) a)) (\<lambda>_.
        io_bind (map_err RESET_UNAVAILABLE (recovery_read cd st (ce_io_reset e) a)) (\<lambda>t.
          if admin then io_return ()
          else
            io_bind (map_err RESET_UNAVAILABLE (recovery_now (ce_clock e))) (\<lambda>now.
            io_bind (map_err RESET_UNAVAILABLE (io_lift (or_invalid (settle now t)))) (\<lambda>(t', changed).
            io_bind (if changed then map_err RESET_UNAVAILABLE (recovery_commit cd st (ce_write_settle e) a t')
                     else io_return ()) (\<lambda>_.
              if at_failures t' \<ge> RESET_LIMIT \<or> at_cooldown t' \<noteq> None then io_lift (Inl BLOCKED)
              else map_err RESET_UNAVAILABLE (recovery_commit cd st (ce_write e) a
                     (t'\<lparr> at_failures := at_failures t' + 1, at_pending := True \<rparr>)))))))))"

record clear_env =
  cl_io :: io_env
  cl_io_reset :: io_env
  cl_active_before :: bool
  cl_write :: write_env
  cl_active_between :: bool
  cl_write_reset :: write_env
  cl_active_after :: bool

text \<open>The second one, reached only by an administrator or a verified password: the face
  record is cleared first, then the attempts.\<close>

definition reset_clear ::
    "'b codec \<Rightarrow> Store \<Rightarrow> Account \<Rightarrow> clear_env \<Rightarrow> ('b disk, reset_refusal, unit) op" where
  "reset_clear cd st a e =
     io_bind (map_err RESET_UNAVAILABLE (io_lift (store_lock st (ie_lock (cl_io e))))) (\<lambda>_.
     io_bind (map_err RESET_UNAVAILABLE (store_read cd st (cl_io e) a)) (\<lambda>_.
     io_bind (map_err RESET_UNAVAILABLE (recovery_read cd st (cl_io_reset e) a)) (\<lambda>_.
       if \<not> cl_active_before e then io_lift (Inl REFUSED)
       else
         io_bind (map_err UNCONFIRMED (store_commit cd st (cl_write e) (Record_reset a))) (\<lambda>_.
           if \<not> cl_active_between e then io_lift (Inl UNCONFIRMED)
           else
             io_bind (map_err UNCONFIRMED (recovery_commit cd st (cl_write_reset e) a (Attempts_empty a))) (\<lambda>_.
               if \<not> cl_active_after e then io_lift (Inl UNCONFIRMED) else io_return ())))))"

definition reset_refused ::
    "'b codec \<Rightarrow> Store \<Rightarrow> Account \<Rightarrow> Policy \<Rightarrow> status_env \<Rightarrow> ('b disk, reset_refusal, unit) op" where
  "reset_refused cd st a policy e =
     io_bind (map_err RESET_UNAVAILABLE (status_inner cd st a policy e)) (\<lambda>_. io_lift (Inl REFUSED))"

definition recovery_reset ::
    "'b codec \<Rightarrow> Store \<Rightarrow> Account \<Rightarrow> Policy \<Rightarrow> bool \<Rightarrow> bool \<Rightarrow> bool \<Rightarrow> charge_env \<Rightarrow> status_env \<Rightarrow> clear_env \<Rightarrow>
      ('b disk, reset_refusal, unit) op" where
  "recovery_reset cd st a policy admin active verified ce se cl =
     io_bind (reset_charge cd st a admin ce) (\<lambda>_.
       if \<not> admin \<and> (\<not> active \<or> \<not> verified) then reset_refused cd st a policy se
       else reset_clear cd st a cl)"

section \<open>What the operations leave on the disk\<close>

lemma quiet_recovery_read [simp]: "quiet cnt (recovery_read cd st e a)"
  unfolding recovery_read_def
  by (intro quiet_bind quiet_read_bytes) (auto split: option.split intro!: quiet_bind)

lemma quiet_recovery_now [simp]: "quiet cnt (recovery_now clock)"
  unfolding recovery_now_def by (intro quiet_bind quiet_pure)

lemma recovery_read_Inr:
  assumes "recovery_read cd st e a d = (Inr t, d')"
  shows "visible d' = visible d" and "unat (at_failures t) = failures_at cd (visible d) (a_uid a)"
    and "Attempts_validate t a"
proof -
  obtain bytes u where rb: "read_bytes (cd_len cd) st e (ResetPath (a_uid a)) d = (Inr bytes, u)"
    and k: "(io_bind (case bytes of
         Some b \<Rightarrow> io_lift (or_invalid (cd_dec_reset cd b))
       | None \<Rightarrow> io_return (Attempts_empty a)) (\<lambda>t.
     io_bind (io_require (Attempts_validate t a)) (\<lambda>_. io_return t))) u = (Inr t, d')"
    using assms unfolding recovery_read_def io_bind_Inr [where s = d] by blast
  show "visible d' = visible d" "unat (at_failures t) = failures_at cd (visible d) (a_uid a)" "Attempts_validate t a"
    using k read_bytes_Inr [OF rb]
    by (auto simp: io_bind_Inr failures_at_def Attempts_empty_def split: option.splits)
qed

lemma recovery_commit_cases:
  assumes "recovery_commit cd st w a t d = (res, d')"
  obtains (failed) x where "res = Inl x" "d' = d"
  | (seen) x b where "res = Inl x" "cd_enc_reset cd t = Some b" "Attempts_validate t a"
      "d' = publish (ResetPath (a_uid a)) (record_file st b) d"
  | (kept) b where "res = Inr ()" "cd_enc_reset cd t = Some b" "Attempts_validate t a"
      "d' = sync_dir (publish (ResetPath (a_uid a)) (record_file st b) d)"
proof (cases "Attempts_validate t a")
  case valid: True
  show ?thesis
  proof (cases "\<exists>b. cd_enc_reset cd t = Some b \<and> cd_len cd b \<le> MAX_RECORD")
    case True
    then obtain b where b: "cd_enc_reset cd t = Some b" "cd_len cd b \<le> MAX_RECORD" by blast
    with valid assms have
      "io_bind (write_atomic_reporting st w (ResetPath (a_uid a)) b 0x180) finish_write d = (res, d')"
      by (simp add: recovery_commit_def io_bind_def [of "io_lift _"] io_bind_def [of "io_require _"]
          io_lift_def io_require_def or_invalid_def)
    then show ?thesis
      by (cases rule: write_then_finish) (use valid b failed seen kept in blast)+
  next
    case False
    with valid assms show ?thesis
      by (intro failed) (auto simp: recovery_commit_def io_bind_def io_lift_def io_require_def or_invalid_def
          split: option.splits)
  qed
next
  case False
  with assms show ?thesis
    by (intro failed) (auto simp: recovery_commit_def io_bind_def io_lift_def io_require_def)
qed

lemma quiet_count_recovery_commit [simp]: "quiet (\<lambda>f. count_at cd f u) (recovery_commit cd st w a t)"
  unfolding keeps_def
proof
  fix d
  obtain res d' where c: "recovery_commit cd st w a t d = (res, d')" by fastforce
  from c show "calm (\<lambda>f. count_at cd f u) d (snd (recovery_commit cd st w a t d))"
    by (cases rule: recovery_commit_cases) (auto simp: calm_def c)
qed

lemma calm_recovery_commit:
  assumes "codec_ok cd" "u = a_uid a \<Longrightarrow> unat (at_failures t) = failures_at cd (visible d) u"
  shows "calm (\<lambda>f. failures_at cd f u) d (snd (recovery_commit cd st w a t d))"
proof -
  obtain res d' where c: "recovery_commit cd st w a t d = (res, d')" by fastforce
  from c show ?thesis
    by (cases rule: recovery_commit_cases) (use assms in \<open>auto simp: calm_def failures_at_upd c\<close>)
qed

lemma quietD: "quiet cnt m \<Longrightarrow> calm cnt d (snd (m d))"
  by (simp add: keeps_def)

lemma settle_keeps_failures:
  "settle now t = Some (t', changed) \<Longrightarrow> at_failures t' = at_failures t"
  by (auto simp: settle_def split: option.splits if_splits Option.bind_splits)

text \<open>Two assertions on a disk reached from \<open>d0\<close>: it is quiet for a count, and what a reader
  sees satisfies \<open>F\<close>.\<close>

definition since :: "((path \<rightharpoonup> 'b rfile) \<Rightarrow> nat) \<Rightarrow> 'b disk \<Rightarrow> ((path \<rightharpoonup> 'b rfile) \<Rightarrow> bool) \<Rightarrow> 'b disk \<Rightarrow> bool" where
  "since cnt d0 F d \<longleftrightarrow> calm cnt d0 d \<and> F (visible d)"

definition only_syncs :: "('b disk, 'e, 'a) op \<Rightarrow> bool" where
  "only_syncs m \<longleftrightarrow> (\<forall>d. visible (snd (m d)) = visible d \<and> (snd (m d) = d \<or> snd (m d) = sync_dir d))"

lemma sync_dir_idem: "sync_dir (sync_dir d) = sync_dir d"
  by (simp add: sync_dir_def)

lemma only_syncs_bind: "only_syncs m \<Longrightarrow> (\<And>x. only_syncs (f x)) \<Longrightarrow> only_syncs (io_bind m f)"
  unfolding only_syncs_def io_bind_def
  by (auto split: prod.split sum.split) (metis snd_conv sync_dir_idem)+

lemma only_syncs_pure [simp]: "only_syncs (io_lift r)" "only_syncs (io_return x)" "only_syncs (io_require b)"
  by (simp_all add: only_syncs_def)

lemma only_syncs_read_bytes [simp]: "only_syncs (read_bytes l st e p)"
  unfolding only_syncs_def
proof
  fix d
  show "visible (snd (read_bytes l st e p d)) = visible d \<and>
    (snd (read_bytes l st e p d) = d \<or> snd (read_bytes l st e p d) = sync_dir d)"
    using read_bytes_effect [of l st e p d] by auto
qed

lemma only_syncs_store_read [simp]: "only_syncs (store_read cd st e a)"
  unfolding store_read_def
  by (intro only_syncs_bind only_syncs_read_bytes) (auto split: option.split intro!: only_syncs_bind)

lemma only_syncs_recovery_read [simp]: "only_syncs (recovery_read cd st e a)"
  unfolding recovery_read_def
  by (intro only_syncs_bind only_syncs_read_bytes) (auto split: option.split intro!: only_syncs_bind)

lemma only_syncs_recovery_now [simp]: "only_syncs (recovery_now clock)"
  unfolding recovery_now_def by (intro only_syncs_bind) simp_all

lemma triple_syncs:
  assumes "only_syncs m"
    and "\<And>x d d'. m d = (Inr x, d') \<Longrightarrow> visible d' = visible d \<Longrightarrow> F (visible d) \<Longrightarrow> G x (visible d)"
  shows "triple (since cnt d0 F) m (\<lambda>x. since cnt d0 (G x)) (calm cnt d0)"
  unfolding triple_def
proof (intro allI impI)
  fix d
  assume P: "since cnt d0 F d"
  obtain r d' where m: "m d = (r, d')" by fastforce
  with assms(1) have v: "visible d' = visible d" and e: "d' = d \<or> d' = sync_dir d"
    unfolding only_syncs_def by (metis snd_conv)+
  have "calm cnt d d'" using e by auto
  with P have "calm cnt d0 d'" unfolding since_def by (blast intro: calm_trans)
  with P v m assms(2) [of d _ d'] show "case m d of (Inl _, t) \<Rightarrow> calm cnt d0 t | (Inr x, t) \<Rightarrow> since cnt d0 (G x) t"
    by (auto simp: since_def split: sum.split)
qed

lemma triple_frame: "only_syncs m \<Longrightarrow> triple (since cnt d0 F) m (\<lambda>_. since cnt d0 F) (calm cnt d0)"
  by (rule triple_syncs) auto

lemma triple_store_read:
  "triple (since cnt d0 F) (store_read cd st e a)
     (\<lambda>r. since cnt d0 (\<lambda>v. F v \<and> r_uid r = a_uid a \<and> budget_count r = count_at cd v (a_uid a))) (calm cnt d0)"
  by (rule triple_syncs) (auto dest: store_read_Inr)

lemma triple_recovery_read:
  "triple (since cnt d0 F) (recovery_read cd st e a)
     (\<lambda>t. since cnt d0 (\<lambda>v. F v \<and> unat (at_failures t) = failures_at cd v (a_uid a))) (calm cnt d0)"
  by (rule triple_syncs) (auto dest: recovery_read_Inr)

lemma triple_pure_fact:
  "triple (since cnt d0 F) (io_lift (or_invalid x)) (\<lambda>y. since cnt d0 (\<lambda>v. F v \<and> x = Some y)) (calm cnt d0)"
  by (rule triple_syncs) (auto simp: io_lift_def or_invalid_def split: option.splits)

lemma triple_quiet:
  assumes "\<And>d. F (visible d) \<Longrightarrow> calm cnt d (snd (m d))"
  shows "triple (since cnt d0 F) m (\<lambda>_. since cnt d0 (\<lambda>_. True)) (calm cnt d0)"
  unfolding triple_def since_def using assms by (fastforce dest: calm_trans split: prod.split sum.split)

lemma quiet_triple:
  assumes "\<And>d0. triple (since cnt d0 (\<lambda>_. True)) m (\<lambda>_. since cnt d0 (\<lambda>_. True)) (calm cnt d0)"
  shows "quiet cnt m"
  unfolding keeps_def
proof
  fix d
  obtain r d' where m: "m d = (r, d')" by fastforce
  have "case r of Inl _ \<Rightarrow> calm cnt d d' | Inr x \<Rightarrow> since cnt d (\<lambda>_. True) d'"
    by (rule tripleD [OF assms [of d] _ m]) (simp add: since_def)
  with m show "calm cnt d (snd (m d))" by (simp add: since_def split: sum.splits)
qed


text \<open>The status call is quiet for both counts.\<close>

lemma triple_done: "triple (since cnt d0 F) (io_return x) (\<lambda>_. since cnt d0 (\<lambda>_. True)) (calm cnt d0)"
  by (rule triple_pure) (simp add: since_def)

lemma triple_true:
  assumes "quiet cnt m"
  shows "triple (since cnt d0 F) m (\<lambda>_. since cnt d0 (\<lambda>_. True)) (calm cnt d0)"
  by (rule triple_quiet) (use assms in \<open>simp add: keeps_def\<close>)

lemma quiet_count_status:
  assumes ok: "codec_ok cd"
  shows "quiet (\<lambda>f. count_at cd f u) (status_inner cd st a policy e)"
  unfolding status_inner_def
proof (rule quiet_bind, simp, rule quiet_triple, rule triple_bind, rule triple_store_read,
    rule triple_bind, rule triple_frame, simp, rule triple_bind, rule triple_frame, simp,
    rule triple_bind, rule triple_pure_fact, rule triple_bind, rule triple_if)
  fix before now face d0
  show "triple (since (\<lambda>f. count_at cd f u) d0 (\<lambda>v. (True \<and> r_uid before = a_uid a \<and>
      budget_count before = count_at cd v (a_uid a)) \<and> settle_abandoned policy now before = Some face))
    (store_commit cd st (ss_write e) face) (\<lambda>_. since (\<lambda>f. count_at cd f u) d0 (\<lambda>_. True)) (calm (\<lambda>f. count_at cd f u) d0)"
    by (rule triple_quiet, rule calm_store_commit [OF ok]) (use settle_keeps [of policy now before face] in auto)
qed (auto intro!: triple_done triple_true quiet_bind split: prod.split)

lemma triple_commit_frame:
  assumes "\<And>v x f. F v \<Longrightarrow> F (v(RecordPath x \<mapsto> f))"
  shows "triple (since (\<lambda>f. failures_at cd f u) d0 F) (store_commit cd st w r)
    (\<lambda>_. since (\<lambda>f. failures_at cd f u) d0 F) (calm (\<lambda>f. failures_at cd f u) d0)"
  unfolding triple_def
proof (intro allI impI)
  fix d
  assume P: "since (\<lambda>f. failures_at cd f u) d0 F d"
  obtain res d' where cm: "store_commit cd st w r d = (res, d')" by fastforce
  have "calm (\<lambda>f. failures_at cd f u) d d'"
    using quietD [OF quiet_failures_commit [of cd u st w r], of d] cm by simp
  with P have "calm (\<lambda>f. failures_at cd f u) d0 d'" unfolding since_def by (blast intro: calm_trans)
  moreover have "F (visible d')" if "res = Inr x" for x
    using cm P that by (cases rule: store_commit_cases) (auto simp: since_def assms)
  ultimately show "case store_commit cd st w r d of (Inl _, t) \<Rightarrow> calm (\<lambda>f. failures_at cd f u) d0 t
    | (Inr x, t) \<Rightarrow> since (\<lambda>f. failures_at cd f u) d0 F t"
    using cm by (auto simp: since_def split: sum.split)
qed

lemma triple_recovery_commit:
  assumes ok: "codec_ok cd" and "\<And>v. F v \<Longrightarrow> unat (at_failures t) = failures_at cd v (a_uid a)"
  shows "triple (since (\<lambda>f. failures_at cd f u) d0 F) (recovery_commit cd st w a t)
    (\<lambda>_. since (\<lambda>f. failures_at cd f u) d0 (\<lambda>v. unat (at_failures t) = failures_at cd v (a_uid a)))
    (calm (\<lambda>f. failures_at cd f u) d0)"
  unfolding triple_def
proof (intro allI impI)
  fix d
  assume P: "since (\<lambda>f. failures_at cd f u) d0 F d"
  obtain res d' where cm: "recovery_commit cd st w a t d = (res, d')" by fastforce
  have F: "unat (at_failures t) = failures_at cd (visible d) (a_uid a)"
    using P assms(2) by (simp add: since_def)
  have "calm (\<lambda>f. failures_at cd f u) d d'"
    using calm_recovery_commit [OF ok, of u a t d st w] F cm by simp
  with P have "calm (\<lambda>f. failures_at cd f u) d0 d'" unfolding since_def by (blast intro: calm_trans)
  moreover have "unat (at_failures t) = failures_at cd (visible d') (a_uid a)" if "res = Inr x" for x
    using cm F that by (cases rule: recovery_commit_cases) (auto simp: failures_at_upd ok)
  ultimately show "case recovery_commit cd st w a t d of (Inl _, s) \<Rightarrow> calm (\<lambda>f. failures_at cd f u) d0 s
    | (Inr x, s) \<Rightarrow> since (\<lambda>f. failures_at cd f u) d0 (\<lambda>v. unat (at_failures t) = failures_at cd v (a_uid a)) s"
    using cm by (auto simp: since_def split: sum.split)
qed

lemma triple_settled_commit:
  assumes ok: "codec_ok cd"
  shows "triple (since (\<lambda>f. failures_at cd f u) d0 (\<lambda>v. unat (at_failures t) = failures_at cd v (a_uid a) \<and>
      settle now t = Some (t', changed)))
    (if changed then recovery_commit cd st w a t' else io_return ())
    (\<lambda>_. since (\<lambda>f. failures_at cd f u) d0 (\<lambda>v. unat (at_failures t') = failures_at cd v (a_uid a)))
    (calm (\<lambda>f. failures_at cd f u) d0)"
  by (rule triple_if, rule triple_recovery_commit [OF ok])
    (auto simp: since_def dest!: settle_keeps_failures intro!: triple_pure)

lemma quiet_failures_status:
  assumes ok: "codec_ok cd"
  shows "quiet (\<lambda>f. failures_at cd f u) (status_inner cd st a policy e)"
  unfolding status_inner_def
proof (rule quiet_bind, simp, rule quiet_bind, simp, rule quiet_triple, rule triple_bind, rule triple_recovery_read,
    rule triple_bind, rule triple_frame, simp, rule triple_bind, rule triple_frame, simp, rule triple_bind)
  fix before t face d0
  show "triple (since (\<lambda>f. failures_at cd f u) d0 (\<lambda>v. True \<and> unat (at_failures t) = failures_at cd v (a_uid a)))
    (if face \<noteq> before then store_commit cd st (ss_write e) face else io_return ())
    (\<lambda>_. since (\<lambda>f. failures_at cd f u) d0 (\<lambda>v. unat (at_failures t) = failures_at cd v (a_uid a)))
    (calm (\<lambda>f. failures_at cd f u) d0)"
    by (rule triple_if, rule triple_weaken [OF triple_commit_frame])
      (auto simp: since_def fun_upd_def [symmetric] intro!: triple_pure)
next
  fix t now face d0
  show "triple (since (\<lambda>f. failures_at cd f u) d0 (\<lambda>v. unat (at_failures t) = failures_at cd v (a_uid a)))
    (io_bind (io_lift (or_invalid (settle now t))) (\<lambda>(recovery', changed).
     io_bind (if changed then recovery_commit cd st (ss_write_reset e) a recovery' else io_return ()) (\<lambda>_.
       io_return \<lparr> s_requests = map_option unsuccessful_requests (r_budget face),
         s_limit = FACE_LIMIT,
         s_reset_required = (case r_budget face of None \<Rightarrow> False | Some b \<Rightarrow> unsuccessful_requests b \<ge> FACE_LIMIT),
         s_failures = r_strikes face,
         s_cooldown_seconds = remaining now (r_cooldown face),
         s_recovery_failures = at_failures recovery',
         s_recovery_cooldown_seconds = remaining now (at_cooldown recovery'),
         s_recovery_required = (at_failures recovery' \<ge> RESET_LIMIT) \<rparr>)))
    (\<lambda>_. since (\<lambda>f. failures_at cd f u) d0 (\<lambda>_. True)) (calm (\<lambda>f. failures_at cd f u) d0)"
    by (rule triple_bind, rule triple_pure_fact, split prod.split, intro allI impI, hypsubst,
        rule triple_bind, rule triple_settled_commit [OF ok], rule triple_done)
qed

section \<open>A reset as a run of the two budgets\<close>

abbreviation reset_view :: "'b codec \<Rightarrow> u32 \<Rightarrow> 'b disk \<Rightarrow> nat \<Rightarrow> nat \<times> nat \<times> nat" where
  "reset_view cd u d g \<equiv> (failures_at cd (visible d) u, failures_at cd (durable d) u, g)"

text \<open>The charge of a reset on top of a quiet prefix.\<close>

lemma reset_charge_commit:
  assumes ok: "codec_ok cd" and start: "calm (\<lambda>f. failures_at cd f u) d0 d"
    and t: "unat (at_failures t) = failures_at cd (visible d) (a_uid a)" "\<not> at_failures t \<ge> RESET_LIMIT"
    and cm: "recovery_commit cd st w a (t\<lparr> at_failures := at_failures t + 1, at_pending := True \<rparr>) d = (res, d')"
  shows "(charge_step 50)\<^sup>*\<^sup>* (reset_view cd u d0 g)
    (reset_view cd u d' (if res = Inr () \<and> u = a_uid a then Suc g else g))"
proof -
  have small: "unat (at_failures t) < 50" using t(2) by (simp add: RESET_LIMIT_def word_le_nat_alt)
  then have suc: "unat (at_failures t + 1) = Suc (unat (at_failures t))"
    using unat_add_lem [of "at_failures t" 1] by simp
  have "(charge_step 50)\<^sup>*\<^sup>* (reset_view cd u d g) (reset_view cd u d' (if res = Inr () \<and> u = a_uid a then Suc g else g))"
  proof (cases "u = a_uid a")
    case False
    then have "calm (\<lambda>f. failures_at cd f u) d d'"
      using calm_recovery_commit [OF ok, of u a "t\<lparr> at_failures := at_failures t + 1, at_pending := True \<rparr>" d st w] cm by simp
    from calm_steps [OF this] False show ?thesis by simp
  next
    case True
    let ?v = "unat (at_failures t)"
    from cm show ?thesis
    proof (cases rule: recovery_commit_cases)
      case (failed x)
      then show ?thesis by simp
    next
      case (seen x b)
      with True t suc small ok show ?thesis
        using r_into_rtranclp [of "charge_step 50", OF charge_step.unconfirmed [of ?v 50 "failures_at cd (durable d) u" g]]
        by (simp add: failures_at_upd)
    next
      case (kept b)
      with True t suc small ok show ?thesis
        using r_into_rtranclp [of "charge_step 50", OF charge_step.charge [of ?v 50 "failures_at cd (durable d) u" g]]
        by (simp add: failures_at_upd)
    qed
  qed
  with calm_steps [OF start] show ?thesis by (blast intro: rtranclp_trans)
qed

text \<open>Everything a reset does before its last commit, as one quiet operation that hands the
  settled attempts on. \<open>None\<close> is an administrator's reset, which pays nothing.\<close>

definition reset_prepare ::
    "'b codec \<Rightarrow> Store \<Rightarrow> Account \<Rightarrow> bool \<Rightarrow> charge_env \<Rightarrow> ('b disk, reset_refusal, Attempts option) op" where
  "reset_prepare cd st a admin e =
     (if \<not> ce_active e then io_lift (Inl REFUSED)
      else
        io_bind (map_err RESET_UNAVAILABLE (io_lift (store_lock st (ie_lock (ce_io e))))) (\<lambda>_.
        io_bind (map_err RESET_UNAVAILABLE (store_read cd st (ce_io e) a)) (\<lambda>_.
        io_bind (map_err RESET_UNAVAILABLE (recovery_read cd st (ce_io_reset e) a)) (\<lambda>t.
          if admin then io_return None
          else
            io_bind (map_err RESET_UNAVAILABLE (recovery_now (ce_clock e))) (\<lambda>now.
            io_bind (map_err RESET_UNAVAILABLE (io_lift (or_invalid (settle now t)))) (\<lambda>(t', changed).
            io_bind (map_err RESET_UNAVAILABLE
                (if changed then recovery_commit cd st (ce_write_settle e) a t' else io_return ())) (\<lambda>_.
              if at_failures t' \<ge> RESET_LIMIT \<or> at_cooldown t' \<noteq> None then io_lift (Inl BLOCKED)
              else io_return (Some t'))))))))"

lemma io_bind_simps [simp]:
  "io_bind (io_return x) f = f x" "io_bind (io_lift (Inl e)) f = io_lift (Inl e)"
  "io_bind (if b then m else n) f = (if b then io_bind m f else io_bind n f)"
  by (auto simp: io_bind_def io_return_def io_lift_def)

lemma map_err_simps [simp]:
  "map_err e (if b then m else n) = (if b then map_err e m else map_err e n)"
  "map_err e (io_return y) = io_return y"
  by (auto simp: io_return_def map_err_def)

lemma reset_charge_alt:
  "reset_charge cd st a admin e = io_bind (reset_prepare cd st a admin e) (\<lambda>x. case x of
     None \<Rightarrow> io_return ()
   | Some t \<Rightarrow> map_err RESET_UNAVAILABLE (recovery_commit cd st (ce_write e) a
        (t\<lparr> at_failures := at_failures t + 1, at_pending := True \<rparr>)))"
  by (simp add: reset_charge_def reset_prepare_def io_bind_assoc if_distrib [of "\<lambda>m. io_bind m _"] case_prod_unfold
      cong: if_cong)

lemma triple_reset_prepare:
  assumes ok: "codec_ok cd"
  shows "triple (since (\<lambda>f. failures_at cd f u) d0 (\<lambda>_. True)) (reset_prepare cd st a admin e)
    (\<lambda>x. since (\<lambda>f. failures_at cd f u) d0 (\<lambda>v. case x of None \<Rightarrow> admin | Some t \<Rightarrow> \<not> admin \<and>
       unat (at_failures t) = failures_at cd v (a_uid a) \<and> \<not> at_failures t \<ge> RESET_LIMIT \<and> at_cooldown t = None))
    (calm (\<lambda>f. failures_at cd f u) d0)"
  unfolding reset_prepare_def
proof (rule triple_if, rule triple_pure, simp, simp add: since_def,
    rule triple_bind, simp only: triple_map_err, rule triple_frame, simp,
    rule triple_bind, simp only: triple_map_err, rule triple_frame, simp,
    rule triple_bind, simp only: triple_map_err, rule triple_recovery_read,
    rule triple_if, rule triple_pure, simp add: since_def,
    rule triple_bind, simp only: triple_map_err, rule triple_frame, simp,
    rule triple_bind, simp only: triple_map_err, rule triple_pure_fact,
    split prod.split, intro allI impI, hypsubst,
    rule triple_bind, simp only: triple_map_err, rule triple_pre [OF triple_settled_commit [OF ok]])
qed (auto simp: since_def intro!: triple_if triple_pure)


lemma reset_charge_steps:
  assumes ok: "codec_ok cd" and run: "reset_charge cd st a admin e d = (res, d')"
  shows "(charge_step 50)\<^sup>*\<^sup>* (reset_view cd u d g)
    (reset_view cd u d' (if res = Inr () \<and> \<not> admin \<and> u = a_uid a then Suc g else g))"
proof -
  obtain x d1 where p: "reset_prepare cd st a admin e d = (x, d1)" by fastforce
  have fact: "case x of Inl _ \<Rightarrow> calm (\<lambda>f. failures_at cd f u) d d1
    | Inr y \<Rightarrow> since (\<lambda>f. failures_at cd f u) d (\<lambda>v. case y of None \<Rightarrow> admin | Some t \<Rightarrow> \<not> admin \<and>
       unat (at_failures t) = failures_at cd v (a_uid a) \<and> \<not> at_failures t \<ge> RESET_LIMIT \<and> at_cooldown t = None) d1"
    by (rule tripleD [OF triple_reset_prepare [OF ok] _ p]) (simp add: since_def)
  show ?thesis
  proof (cases "\<exists>t. x = Inr (Some t)")
    case False
    with fact have c: "calm (\<lambda>f. failures_at cd f u) d d1" and "x = Inr None \<Longrightarrow> admin"
      by (auto simp: since_def split: sum.splits option.splits)
    moreover have "d' = d1" "res = Inr () \<Longrightarrow> x = Inr None"
      using run p False by (auto simp: reset_charge_alt io_bind_def io_return_def split: sum.splits option.splits)
    ultimately show ?thesis using calm_steps [OF c] by auto
  next
    case True
    then obtain t where x: "x = Inr (Some t)" by blast
    define t' where "t' = t\<lparr> at_failures := at_failures t + 1, at_pending := True \<rparr>"
    obtain cr d2 where cm: "recovery_commit cd st (ce_write e) a t' d1 = (cr, d2)" by fastforce
    have "d' = d2" "res = Inr () \<longleftrightarrow> cr = Inr ()"
      using run p x cm
      by (auto simp: reset_charge_alt io_bind_def map_err_def t'_def split: sum.splits)
    moreover have "\<not> admin" using fact x by (simp add: since_def)
    ultimately show ?thesis
      using reset_charge_commit [OF ok, of u d d1 t a st "ce_write e" cr d2 g] fact x cm
      by (simp add: since_def t'_def)
  qed
qed

lemma quiet_count_reset_charge: "quiet (\<lambda>f. count_at cd f u) (reset_charge cd st a admin e)"
  unfolding reset_charge_def
  by (auto intro!: quiet_bind split: prod.split)

lemma quiet_count_reset_refused: "codec_ok cd \<Longrightarrow> quiet (\<lambda>f. count_at cd f u) (reset_refused cd st a policy e)"
  unfolding reset_refused_def by (intro quiet_bind) (simp_all add: quiet_count_status)

lemma quiet_failures_reset_refused: "codec_ok cd \<Longrightarrow> quiet (\<lambda>f. failures_at cd f u) (reset_refused cd st a policy e)"
  unfolding reset_refused_def by (intro quiet_bind) (simp_all add: quiet_failures_status)

text \<open>Clearing: reads first, then the face record, then the attempts.\<close>

lemma reset_clear_parts:
  assumes "reset_clear cd st a e d = (res, d')"
  obtains (reads) "\<And>cnt. calm cnt d d'"
  | (face) d1 r where "\<And>cnt. calm cnt d d1" "store_commit cd st (cl_write e) (Record_reset a) d1 = (r, d')"
  | (both) d1 r d2 r' where "\<And>cnt. calm cnt d d1" "store_commit cd st (cl_write e) (Record_reset a) d1 = (r, d2)"
      "recovery_commit cd st (cl_write_reset e) a (Attempts_empty a) d2 = (r', d')"
proof -
  obtain x1 d1 where rd: "store_read cd st (cl_io e) a d = (x1, d1)" by fastforce
  obtain x2 d2 where rr: "recovery_read cd st (cl_io_reset e) a d1 = (x2, d2)" by fastforce
  obtain r d3 where cm: "store_commit cd st (cl_write e) (Record_reset a) d2 = (r, d3)" by fastforce
  obtain r' d4 where rc: "recovery_commit cd st (cl_write_reset e) a (Attempts_empty a) d3 = (r', d4)" by fastforce
  have c1: "calm cnt d d1" for cnt using quietD [OF quiet_store_read [of cnt cd st "cl_io e" a], of d] rd by simp
  have "calm cnt d1 d2" for cnt using quietD [OF quiet_recovery_read [of cnt cd st "cl_io_reset e" a], of d1] rr by simp
  then have c2: "calm cnt d d2" for cnt using c1 by (blast intro: calm_trans)
  have "d' = d \<or> d' = d1 \<or> d' = d2 \<or> d' = d3 \<or> d' = d4"
    using assms rd rr cm rc
    by (auto simp: reset_clear_def io_bind_def io_lift_def io_return_def map_err_def split: sum.splits if_splits)
  then show ?thesis
    using c1 c2 cm rc reads face both calm_refl by (elim disjE) blast+
qed

lemma clear_attempts_steps:
  assumes ok: "codec_ok cd" and cm: "recovery_commit cd st w a (Attempts_empty a) d = (res, d')"
  shows "(charge_step l)\<^sup>*\<^sup>* (reset_view cd u d (if u = a_uid a then 0 else g))
    (reset_view cd u d' (if u = a_uid a then 0 else g))"
proof (cases "u = a_uid a")
  case False
  then have "calm (\<lambda>f. failures_at cd f u) d d'"
    using calm_recovery_commit [OF ok, of u a "Attempts_empty a" d st w] cm by simp
  from calm_steps [OF this] False show ?thesis by simp
next
  case True
  have zero: "at_failures (Attempts_empty a) = 0" by (simp add: Attempts_empty_def)
  from cm show ?thesis
  proof (cases rule: recovery_commit_cases)
    case (failed x)
    then show ?thesis by simp
  next
    case (seen x b)
    with True ok zero show ?thesis
      using r_into_rtranclp [of "charge_step l", OF charge_step.cleared]
      by (simp add: failures_at_upd)
  next
    case (kept b)
    have "(charge_step l)\<^sup>*\<^sup>* (reset_view cd u d 0) (0, 0, 0)"
      by (rule converse_rtranclp_into_rtranclp [of "charge_step l", OF charge_step.cleared])
        (rule r_into_rtranclp [of "charge_step l", OF charge_step.flush])
    with True ok kept zero show ?thesis by (simp add: failures_at_upd)
  qed
qed

lemma earned_then_calm:
  assumes "calm cnt d d'"
  shows "(charge_step l)\<^sup>*\<^sup>* (cnt (visible d), cnt (durable d), g) (cnt (visible d'), cnt (durable d'), if b then 0 else g)"
  by (rule rtranclp_trans [OF earned_step [of l _ _ g b]]) (rule calm_steps [OF assms])

lemma reset_clear_steps:
  assumes ok: "codec_ok cd" and run: "reset_clear cd st a e d = (res, d')"
  shows "(charge_step l)\<^sup>*\<^sup>* (face_view cd u d g) (face_view cd u d' (if u = a_uid a then 0 else g))"
    and "(charge_step l)\<^sup>*\<^sup>* (reset_view cd u d g) (reset_view cd u d' (if u = a_uid a then 0 else g))"
proof -
  note counts = earned_then_calm [where cnt = "\<lambda>f. count_at cd f u" and l = l and g = g and b = "u = a_uid a"]
  note fails = earned_then_calm [where cnt = "\<lambda>f. failures_at cd f u" and l = l and g = g and b = "u = a_uid a"]
  let ?g = "if u = a_uid a then 0 else g"
  have attempts: "(charge_step l)\<^sup>*\<^sup>* (face_view cd u d1 ?g) (face_view cd u d2 ?g)"
    if "recovery_commit cd st w a t d1 = (r, d2)" for w t d1 r d2
    using calm_steps [OF quietD [OF quiet_count_recovery_commit [of cd u st w a t]], of l d1 ?g] that by simp
  have record_: "(charge_step l)\<^sup>*\<^sup>* (reset_view cd u d1 ?g) (reset_view cd u d2 ?g)"
    if "store_commit cd st w r d1 = (x, d2)" for w r d1 x d2
    using calm_steps [OF quietD [OF quiet_failures_commit [of cd u st w r]], of l d1 ?g] that by simp
  from run have "(charge_step l)\<^sup>*\<^sup>* (face_view cd u d g) (face_view cd u d' ?g) \<and>
    (charge_step l)\<^sup>*\<^sup>* (reset_view cd u d g) (reset_view cd u d' ?g)"
  proof (cases rule: reset_clear_parts)
    case reads
    then show ?thesis using counts fails by blast
  next
    case (face d1 r)
    then show ?thesis
      using counts [OF face(1)] fails [OF face(1)] reset_commit_steps [OF ok face(2), of l u g] record_ [OF face(2)]
      by (meson rtranclp_trans)
  next
    case (both d1 r d2 r')
    then show ?thesis
      using counts [OF both(1)] fails [OF both(1)] reset_commit_steps [OF ok both(2), of l u g] record_ [OF both(2)]
        attempts [OF both(3)] clear_attempts_steps [OF ok both(3), of l u g]
      by (meson rtranclp_trans)
  qed
  then show "(charge_step l)\<^sup>*\<^sup>* (face_view cd u d g) (face_view cd u d' ?g)"
    "(charge_step l)\<^sup>*\<^sup>* (reset_view cd u d g) (reset_view cd u d' ?g)" by blast+
qed

section \<open>The daemon's retry state over time\<close>

text \<open>Who holds an account's operation lock: a face attempt, an open recovery, or a recovery
  that has paid for a password verification.\<close>

datatype holder = FaceAttempt Account | Recovery Account | Charged Account

text \<open>The disk, the holders, and two counts that exist only in the specification: the face
  attempts admitted and the password verifications paid for, for each account, since the
  last delivered grant, verified reset or administrator's reset.\<close>

record 'b world =
  w_disk :: "'b disk"
  w_held :: "u32 \<rightharpoonup> holder"
  w_face :: "u32 \<Rightarrow> nat"
  w_verify :: "u32 \<Rightarrow> nat"

inductive retry_step :: "'b codec \<Rightarrow> Store \<Rightarrow> 'b world \<Rightarrow> 'b world \<Rightarrow> bool" for cd st where
  attempt: "face_begin cd st a policy e (w_held w (a_uid a) \<noteq> None) (w_disk w) = (res, d) \<Longrightarrow>
    retry_step cd st w (if res = Inr True
      then w\<lparr> w_disk := d, w_held := (w_held w)(a_uid a \<mapsto> FaceAttempt a),
              w_face := (w_face w)(a_uid a := Suc (w_face w (a_uid a))) \<rparr>
      else w\<lparr> w_disk := d \<rparr>)"
| denial: "w_held w (a_uid a) = Some (FaceAttempt a) \<Longrightarrow>
    denied_inner cd st a policy outcome e (w_disk w) = (res', d) \<Longrightarrow>
    retry_step cd st w (w\<lparr> w_disk := d, w_held := (w_held w)(a_uid a := None) \<rparr>)"
| delivery: "w_held w (a_uid a) = Some (FaceAttempt a) \<Longrightarrow>
    delivered cd st a e' (w_disk w) = (res', d) \<Longrightarrow>
    retry_step cd st w (w\<lparr> w_disk := d, w_held := (w_held w)(a_uid a := None), w_face := (w_face w)(a_uid a := 0) \<rparr>)"
| release: "retry_step cd st w (w\<lparr> w_held := (w_held w)(u := None) \<rparr>)"
| recover: "store_operation st oe (w_held w (a_uid a) \<noteq> None) (w_disk w) = (res', d) \<Longrightarrow>
    retry_step cd st w (if res' = Inr () then w\<lparr> w_disk := d, w_held := (w_held w)(a_uid a \<mapsto> Recovery a) \<rparr>
      else w\<lparr> w_disk := d \<rparr>)"
| status: "w_held w (a_uid a) = Some (Recovery a) \<Longrightarrow> status_inner cd st a policy se (w_disk w) = (sres, d) \<Longrightarrow>
    retry_step cd st w (w\<lparr> w_disk := d \<rparr>)"
| pay: "w_held w (a_uid a) = Some (Recovery a) \<Longrightarrow> reset_charge cd st a False ce (w_disk w) = (rres, d) \<Longrightarrow>
    retry_step cd st w (if rres = Inr ()
      then w\<lparr> w_disk := d, w_held := (w_held w)(a_uid a \<mapsto> Charged a),
              w_verify := (w_verify w)(a_uid a := Suc (w_verify w (a_uid a))) \<rparr>
      else w\<lparr> w_disk := d \<rparr>)"
| refused: "w_held w (a_uid a) = Some (Charged a) \<Longrightarrow> reset_refused cd st a policy se (w_disk w) = (rres, d) \<Longrightarrow>
    retry_step cd st w (w\<lparr> w_disk := d, w_held := (w_held w)(a_uid a \<mapsto> Recovery a) \<rparr>)"
| verified: "w_held w (a_uid a) = Some (Charged a) \<Longrightarrow> reset_clear cd st a cl (w_disk w) = (rres, d) \<Longrightarrow>
    retry_step cd st w (w\<lparr> w_disk := d, w_held := (w_held w)(a_uid a \<mapsto> Recovery a),
      w_face := (w_face w)(a_uid a := 0), w_verify := (w_verify w)(a_uid a := 0) \<rparr>)"
| admin: "w_held w (a_uid a) = Some (Recovery a) \<Longrightarrow>
    recovery_reset cd st a policy True active verified ce se cl (w_disk w) = (rres, d) \<Longrightarrow>
    retry_step cd st w (w\<lparr> w_disk := d,
      w_face := (w_face w)(a_uid a := 0), w_verify := (w_verify w)(a_uid a := 0) \<rparr>)"
| writeback: "retry_step cd st w (w\<lparr> w_disk := (w_disk w)\<lparr>
      durable := (\<lambda>p. if P p then visible (w_disk w) p else durable (w_disk w) p) \<rparr> \<rparr>)"
| power_loss: "retry_step cd st w (w\<lparr> w_disk := (w_disk w)\<lparr> visible := durable (w_disk w) \<rparr>, w_held := Map.empty \<rparr>)"

definition fresh :: "'b codec \<Rightarrow> 'b world \<Rightarrow> bool" where
  "fresh cd w \<longleftrightarrow> (\<forall>u. w_face w u = 0 \<and> w_verify w u = 0 \<and>
     count_at cd (visible (w_disk w)) u = 0 \<and> count_at cd (durable (w_disk w)) u = 0 \<and>
     failures_at cd (visible (w_disk w)) u = 0 \<and> failures_at cd (durable (w_disk w)) u = 0)"

text \<open>A step of a daemon whose codec keeps its promise.\<close>

definition sound_step :: "'b codec \<Rightarrow> Store \<Rightarrow> 'b world \<Rightarrow> 'b world \<Rightarrow> bool" where
  "sound_step cd st w w' \<longleftrightarrow> codec_ok cd \<and> retry_step cd st w w'"

definition face_budget :: "'b codec \<Rightarrow> u32 \<Rightarrow> 'b world \<Rightarrow> nat \<times> nat \<times> nat" where
  "face_budget cd u w = face_view cd u (w_disk w) (w_face w u)"

definition verify_budget :: "'b codec \<Rightarrow> u32 \<Rightarrow> 'b world \<Rightarrow> nat \<times> nat \<times> nat" where
  "verify_budget cd u w = reset_view cd u (w_disk w) (w_verify w u)"

lemma quiet_failures_face:
  "quiet (\<lambda>f. failures_at cd f u) (face_begin cd st a policy e held)"
  "quiet (\<lambda>f. failures_at cd f u) (denied_inner cd st a policy outcome e')"
  "quiet (\<lambda>f. failures_at cd f u) (delivered cd st a e')"
  unfolding face_begin_def face_charge_def store_check_def denied_inner_def delivered_def
  by (auto intro!: quiet_bind split: option.split)

lemma calm_disk_events:
  "calm (\<lambda>f. count_at cd f u) d (d\<lparr> durable := (\<lambda>p. if P p then visible d p else durable d p) \<rparr>)"
  "calm (\<lambda>f. failures_at cd f u) d (d\<lparr> durable := (\<lambda>p. if P p then visible d p else durable d p) \<rparr>)"
  by (simp_all add: calm_def count_at_def failures_at_def)

lemma calm_run:
  assumes "calm cnt d d'"
  shows "(charge_step 50)\<^sup>*\<^sup>* (cnt (visible d), cnt (durable d), g) (cnt (visible d'), cnt (durable d'), g)"
  by (rule calm_steps [OF assms])

lemma loss_step: "(charge_step 50)\<^sup>*\<^sup>* (v, dd, g) (dd, dd, g)"
  by (rule r_into_rtranclp [of "charge_step 50", OF charge_step.power_loss])

lemma admin_reset_steps:
  assumes ok: "codec_ok cd" and run: "recovery_reset cd st a policy True active verified ce se cl d = (res, d')"
  shows "(charge_step 50)\<^sup>*\<^sup>* (face_view cd u d g) (face_view cd u d' (if u = a_uid a then 0 else g))"
    and "(charge_step 50)\<^sup>*\<^sup>* (reset_view cd u d g) (reset_view cd u d' (if u = a_uid a then 0 else g))"
proof -
  let ?g = "if u = a_uid a then 0 else g"
  obtain x d1 where ch: "reset_charge cd st a True ce d = (x, d1)" by fastforce
  have cases: "d' = d1 \<or> (\<exists>r. reset_clear cd st a cl d1 = (r, d'))"
    using run ch by (auto simp: recovery_reset_def io_bind_def split: sum.splits)
  have f: "(charge_step 50)\<^sup>*\<^sup>* (face_view cd u d g) (face_view cd u d1 g)"
    using calm_run [OF quietD [OF quiet_count_reset_charge [of cd u st a True ce]], of d] ch by simp
  have r: "(charge_step 50)\<^sup>*\<^sup>* (reset_view cd u d g) (reset_view cd u d1 g)"
    using reset_charge_steps [OF ok ch, of u g] by simp
  show "(charge_step 50)\<^sup>*\<^sup>* (face_view cd u d g) (face_view cd u d' ?g)"
    using cases f earned_step reset_clear_steps(1) [OF ok] by (meson rtranclp_trans)
  show "(charge_step 50)\<^sup>*\<^sup>* (reset_view cd u d g) (reset_view cd u d' ?g)"
    using cases r earned_step reset_clear_steps(2) [OF ok] by (meson rtranclp_trans)
qed

lemma face_refines:
  assumes ok: "codec_ok cd" and step: "retry_step cd st w w'"
  shows "(charge_step 50)\<^sup>*\<^sup>* (face_budget cd u w) (face_budget cd u w')"
proof -
  have quiet: "(charge_step 50)\<^sup>*\<^sup>* (face_view cd u d g) (face_view cd u d' g)"
    if "quiet (\<lambda>f. count_at cd f u) m" "m d = (x, d')" for m d x d' g
    using calm_run [OF quietD [OF that(1), of d]] that(2) by simp
  from step show ?thesis
  proof (cases rule: retry_step.cases)
    case (attempt a policy e res d)
    from face_begin_steps [OF ok attempt(2), of u "w_face w u"] attempt(1) show ?thesis
      by (auto simp: face_budget_def split: if_splits)
  next
    case (denial a policy outcome e res d)
    with quiet [OF quiet_denied [OF ok] denial(3)] show ?thesis by (simp add: face_budget_def)
  next
    case (delivery a e res d)
    from delivered_steps [OF ok delivery(3), of 50 u "w_face w u"] delivery(1) show ?thesis
      by (simp add: face_budget_def split: if_splits)
  next
    case (release u)
    then show ?thesis by (simp add: face_budget_def)
  next
    case (recover oe a res d)
    with quiet [OF quiet_store_operation recover(2)] show ?thesis by (simp add: face_budget_def)
  next
    case (status a policy se sres d)
    with quiet [OF quiet_count_status [OF ok] status(3)] show ?thesis by (simp add: face_budget_def)
  next
    case (pay a ce rres d)
    with quiet [OF quiet_count_reset_charge pay(3)] show ?thesis by (simp add: face_budget_def)
  next
    case (refused a policy se rres d)
    with quiet [OF quiet_count_reset_refused [OF ok] refused(3)] show ?thesis by (simp add: face_budget_def)
  next
    case (verified a cl rres d)
    from reset_clear_steps(1) [OF ok verified(3), of 50 u "w_face w u"] verified(1) show ?thesis
      by (simp add: face_budget_def split: if_splits)
  next
    case (admin a policy active verified ce se cl rres d)
    from admin_reset_steps(1) [OF ok admin(3), of u "w_face w u"] admin(1) show ?thesis
      by (simp add: face_budget_def split: if_splits)
  next
    case (writeback P)
    with calm_run [OF calm_disk_events(1)] show ?thesis by (simp add: face_budget_def)
  next
    case power_loss
    with loss_step show ?thesis by (simp add: face_budget_def)
  qed
qed

lemma verify_refines:
  assumes ok: "codec_ok cd" and step: "retry_step cd st w w'"
  shows "(charge_step 50)\<^sup>*\<^sup>* (verify_budget cd u w) (verify_budget cd u w')"
proof -
  have quiet: "(charge_step 50)\<^sup>*\<^sup>* (reset_view cd u d g) (reset_view cd u d' g)"
    if "quiet (\<lambda>f. failures_at cd f u) m" "m d = (x, d')" for m d x d' g
    using calm_run [OF quietD [OF that(1), of d]] that(2) by simp
  from step show ?thesis
  proof (cases rule: retry_step.cases)
    case (attempt a policy e res d)
    with quiet [OF quiet_failures_face(1) attempt(2)] show ?thesis by (simp add: verify_budget_def)
  next
    case (denial a policy outcome e res d)
    with quiet [OF quiet_failures_face(2) denial(3)] show ?thesis by (simp add: verify_budget_def)
  next
    case (delivery a e res d)
    with quiet [OF quiet_failures_face(3) delivery(3)] show ?thesis by (simp add: verify_budget_def)
  next
    case (release u)
    then show ?thesis by (simp add: verify_budget_def)
  next
    case (recover oe a res d)
    with quiet [OF quiet_store_operation recover(2)] show ?thesis by (simp add: verify_budget_def)
  next
    case (status a policy se sres d)
    with quiet [OF quiet_failures_status [OF ok] status(3)] show ?thesis by (simp add: verify_budget_def)
  next
    case (pay a ce rres d)
    from reset_charge_steps [OF ok pay(3), of u "w_verify w u"] pay(1) show ?thesis
      by (auto simp: verify_budget_def split: if_splits)
  next
    case (refused a policy se rres d)
    with quiet [OF quiet_failures_reset_refused [OF ok] refused(3)] show ?thesis by (simp add: verify_budget_def)
  next
    case (verified a cl rres d)
    from reset_clear_steps(2) [OF ok verified(3), of 50 u "w_verify w u"] verified(1) show ?thesis
      by (simp add: verify_budget_def split: if_splits)
  next
    case (admin a policy active verified ce se cl rres d)
    from admin_reset_steps(2) [OF ok admin(3), of u "w_verify w u"] admin(1) show ?thesis
      by (simp add: verify_budget_def split: if_splits)
  next
    case (writeback P)
    with calm_run [OF calm_disk_events(2)] show ?thesis by (simp add: verify_budget_def)
  next
    case power_loss
    with loss_step show ?thesis by (simp add: verify_budget_def)
  qed
qed

interpretation face: charged_budget 50 "fresh cd" "sound_step cd st" "face_budget cd u" for cd st u
  by unfold_locales (simp add: fresh_def face_budget_def, metis sound_step_def face_refines)

interpretation verify: charged_budget 50 "fresh cd" "sound_step cd st" "verify_budget cd u" for cd st u
  by unfold_locales (simp add: fresh_def verify_budget_def, metis sound_step_def verify_refines)

lemma sound_run: "codec_ok cd \<Longrightarrow> (retry_step cd st)\<^sup>*\<^sup>* w w' \<Longrightarrow> (sound_step cd st)\<^sup>*\<^sup>* w w'"
  by (rule rtranclp_mono [THEN predicate2D, rotated]) (auto simp: sound_step_def)

section \<open>Properties\<close>

text \<open>C10: Along every run of the retry store, with writes that fail halfway, writes seen but not
  durable, daemon restarts, power losses and concurrent work for other accounts, at most fifty face attempts are
  admitted for an account between two delivered grants, verified resets or administrator's
  resets, and at most fifty password verifications are paid for between two verified or
  administrator's resets; both numbers stand on the disk already, durably.\<close>

theorem retry_limits_survive_crashes:
  assumes "codec_ok cd" "fresh cd w0" "(retry_step cd st)\<^sup>*\<^sup>* w0 w"
  shows "w_face w u \<le> 50 \<and> w_verify w u \<le> 50 \<and>
    w_face w u \<le> count_at cd (durable (w_disk w)) u \<and> w_verify w u \<le> failures_at cd (durable (w_disk w)) u"
  using face.bounded_work [OF assms(2) sound_run [OF assms(1,3)] face_budget_def, of u]
    verify.bounded_work [OF assms(2) sound_run [OF assms(1,3)] verify_budget_def, of u]
  by simp

definition alice_world :: "(Record + Attempts) world" where
  "alice_world = \<lparr> w_disk = alice_disk (alice_record 0 0 False), w_held = Map.empty, w_face = (\<lambda>_. 0), w_verify = (\<lambda>_. 0) \<rparr>"

lemma alice_world_fresh: "fresh plain_codec alice_world"
  by (auto simp: fresh_def alice_world_def alice_disk_def count_at_def failures_at_def record_file_def plain_codec_def
      alice_record_def budget_count_def)

lemma alice_attempts: "\<exists>w. (retry_step plain_codec root_store)\<^sup>*\<^sup>* alice_world w \<and> w_face w 1000 = 1"
proof -
  have "\<exists>d'. face_begin plain_codec root_store alice \<lparr> limit = 5, seconds = 30 \<rparr> (good_begin 7) False
      (alice_disk (alice_record 0 0 False)) = (Inr True, d') \<and>
    record_at plain_codec (durable d') (a_uid alice) = Some (alice_record 0 0 False\<lparr> r_budget := Some
      \<lparr> unsuccessful_requests = unsuccessful_requests \<lparr> unsuccessful_requests = 0, fb_pending = False \<rparr> + 1, fb_pending = True \<rparr> \<rparr>)"
    by (rule begin_admits [OF plain_codec_ok _ alice_stored, where now = "\<lparr> t_boot = good_boot, t_nanos = 7 \<rparr>"])
      (simp_all add: plain_codec_def MAX_RECORD_def alice_record_valid good_begin_def good_works good_boot_valid
        FACE_LIMIT_def, simp_all add: alice_record_def budget_count_def word_less_nat_alt)
  then obtain d' where "face_begin plain_codec root_store alice \<lparr> limit = 5, seconds = 30 \<rparr> (good_begin 7)
      (w_held alice_world (a_uid alice) \<noteq> None) (w_disk alice_world) = (Inr True, d')"
    by (auto simp: alice_world_def)
  from retry_step.attempt [OF this] show ?thesis
    by (intro exI conjI, rule r_into_rtranclp) (simp_all add: alice_world_def alice_def)
qed

theorem retry_limits_survive_crashes_witness:
  "\<exists>w. (retry_step plain_codec root_store)\<^sup>*\<^sup>* alice_world w \<and> w_face w 1000 = 1 \<and>
    count_at plain_codec (durable (w_disk w)) 1000 \<ge> 1"
proof -
  obtain w where w: "(retry_step plain_codec root_store)\<^sup>*\<^sup>* alice_world w" "w_face w 1000 = 1"
    using alice_attempts by blast
  with retry_limits_survive_crashes [OF plain_codec_ok alice_world_fresh w(1), of 1000] show ?thesis by auto
qed

end
