(* ===== verification/Event_Log.thy ===== *)
theory Event_Log
  imports Rust_Text
begin

text \<open>
  The firmware's TCG event log (\<^verbatim>\<open>irlume-common/src/event_log.rs\<close>): a reader over a
  shrinking slice and the parser of a crypto-agile log. The parser is proved against the
  format itself, written as an encoder: it accepts exactly the encodings, and returns what
  was encoded.
\<close>

section \<open>Reading bytes\<close>

type_synonym 'a reader = "bytes \<Rightarrow> ('a \<times> bytes) option"

definition rd_take :: "nat \<Rightarrow> bytes reader" where
  "rd_take n r = (if length r < n then None else Some (take n r, drop n r))"

definition rd_bind :: "'a reader \<Rightarrow> ('a \<Rightarrow> 'b reader) \<Rightarrow> 'b reader" where
  "rd_bind m f r = (case m r of None \<Rightarrow> None | Some (x, r') \<Rightarrow> f x r')"

definition rd_return :: "'a \<Rightarrow> 'a reader" where
  "rd_return x r = Some (x, r)"

definition rd_require :: "bool \<Rightarrow> unit reader" where
  "rd_require b r = (if b then Some ((), r) else None)"

primrec from_le :: "bytes \<Rightarrow> nat" where
  "from_le [] = 0"
| "from_le (b # bs) = unat b + 256 * from_le bs"

primrec to_le :: "nat \<Rightarrow> nat \<Rightarrow> bytes" where
  "to_le 0 v = []"
| "to_le (Suc n) v = word_of_nat (v mod 256) # to_le n (v div 256)"

definition rd_le :: "nat \<Rightarrow> nat reader" where
  "rd_le n = rd_bind (rd_take n) (\<lambda>bs. rd_return (from_le bs))"

definition rd_u16 :: "u16 reader" where
  "rd_u16 = rd_bind (rd_le 2) (\<lambda>n. rd_return (word_of_nat n))"

definition rd_u32 :: "u32 reader" where
  "rd_u32 = rd_bind (rd_le 4) (\<lambda>n. rd_return (word_of_nat n))"

definition rd_u64 :: "u64 reader" where
  "rd_u64 = rd_bind (rd_le 8) (\<lambda>n. rd_return (word_of_nat n))"

lemma length_to_le [simp]: "length (to_le n v) = n"
  by (induction n arbitrary: v) auto

lemma from_to_le: "v < 256 ^ n \<Longrightarrow> from_le (to_le n v) = v"
proof (induction n arbitrary: v)
  case (Suc n)
  then have "v div 256 < 256 ^ n" by (simp add: less_mult_imp_div_less mult.commute)
  with Suc.IH show ?case by (simp add: unsigned_of_nat take_bit_eq_mod)
qed simp

lemma from_le_less: "from_le bs < 256 ^ length bs"
proof (induction bs)
  case (Cons b bs)
  have "unat b < 256" using unsigned_less [of b] by simp
  with Cons show ?case by simp
qed simp

lemma to_from_le: "to_le (length bs) (from_le bs) = bs"
proof (induction bs)
  case (Cons b bs)
  have "unat b < 256" using unsigned_less [of b] by simp
  with Cons show ?case by simp
qed simp

lemma rd_take_Some: "rd_take n r = Some (x, r') \<longleftrightarrow> r = x @ r' \<and> length x = n"
  by (auto simp: rd_take_def)

lemma rd_bind_Some:
  "rd_bind m f r = Some (y, r'') \<longleftrightarrow> (\<exists>x r'. m r = Some (x, r') \<and> f x r' = Some (y, r''))"
  by (auto simp: rd_bind_def split: option.splits)

lemma rd_return_Some [simp]: "rd_return x r = Some (y, r') \<longleftrightarrow> y = x \<and> r' = r"
  by (auto simp: rd_return_def)

lemma rd_require_Some [simp]: "rd_require b r = Some (y, r') \<longleftrightarrow> b \<and> r' = r"
  by (auto simp: rd_require_def)

lemma rd_le_Some: "rd_le n r = Some (v, r') \<longleftrightarrow> r = to_le n v @ r' \<and> v < 256 ^ n"
proof
  assume "rd_le n r = Some (v, r')"
  then obtain x where x: "r = x @ r'" "length x = n" "v = from_le x"
    by (auto simp: rd_le_def rd_bind_Some rd_take_Some)
  then show "r = to_le n v @ r' \<and> v < 256 ^ n" using to_from_le [of x] from_le_less [of x] by simp
next
  assume "r = to_le n v @ r' \<and> v < 256 ^ n"
  then show "rd_le n r = Some (v, r')"
    by (auto simp: rd_le_def rd_bind_Some rd_take_Some from_to_le)
qed

lemma rd_word_Some:
  "rd_u16 r = Some (w, r') \<longleftrightarrow> r = to_le 2 (unat w) @ r'"
  "rd_u32 r = Some (x, r') \<longleftrightarrow> r = to_le 4 (unat x) @ r'"
  "rd_u64 r = Some (y, r') \<longleftrightarrow> r = to_le 8 (unat y) @ r'"
proof -
  have bounds: "unat w < 65536" "unat x < 4294967296" "unat y < 18446744073709551616"
    using unsigned_less [of w] unsigned_less [of x] unsigned_less [of y] by simp_all
  show "rd_u16 r = Some (w, r') \<longleftrightarrow> r = to_le 2 (unat w) @ r'"
    using bounds by (auto simp: rd_u16_def rd_bind_Some rd_le_Some unsigned_of_nat take_bit_eq_mod intro!: exI [of _ "unat w"])
  show "rd_u32 r = Some (x, r') \<longleftrightarrow> r = to_le 4 (unat x) @ r'"
    using bounds by (auto simp: rd_u32_def rd_bind_Some rd_le_Some unsigned_of_nat take_bit_eq_mod intro!: exI [of _ "unat x"])
  show "rd_u64 r = Some (y, r') \<longleftrightarrow> r = to_le 8 (unat y) @ r'"
    using bounds by (auto simp: rd_u64_def rd_bind_Some rd_le_Some unsigned_of_nat take_bit_eq_mod intro!: exI [of _ "unat y"])
qed

lemmas reads = rd_bind_Some rd_take_Some rd_word_Some

text \<open>The same facts in the direction of evaluation.\<close>

lemma rd_forward:
  "rd_u16 (to_le 2 (unat w) @ r) = Some (w, r)"
  "rd_u32 (to_le 4 (unat x) @ r) = Some (x, r)"
  "n < 2 ^ 32 \<Longrightarrow> rd_u32 (to_le 4 n @ r) = Some (word_of_nat n, r)"
  "length bs = m \<Longrightarrow> rd_take m (bs @ r) = Some (bs, r)"
proof -
  assume "n < 2 ^ 32"
  then have "unat (word_of_nat n :: u32) = n" by (simp add: unsigned_of_nat take_bit_eq_mod)
  then show "rd_u32 (to_le 4 n @ r) = Some (word_of_nat n, r)" by (simp add: reads)
qed (simp_all add: reads)

lemma rd_bind_step: "m r = Some (x, r') \<Longrightarrow> rd_bind m f r = f x r'"
  by (simp add: rd_bind_def)

lemmas reading = rd_bind_step rd_forward

section \<open>Constants of the format\<close>

definition EV_NO_ACTION :: u32 where "EV_NO_ACTION = 0x00000003"
definition EV_SEPARATOR :: u32 where "EV_SEPARATOR = 0x00000004"
definition EV_EFI_VARIABLE_DRIVER_CONFIG :: u32 where "EV_EFI_VARIABLE_DRIVER_CONFIG = 0x80000001"
definition EV_EFI_BOOT_SERVICES_APPLICATION :: u32 where "EV_EFI_BOOT_SERVICES_APPLICATION = 0x80000003"
definition EV_EFI_BOOT_SERVICES_DRIVER :: u32 where "EV_EFI_BOOT_SERVICES_DRIVER = 0x80000004"
definition EV_EFI_RUNTIME_SERVICES_DRIVER :: u32 where "EV_EFI_RUNTIME_SERVICES_DRIVER = 0x80000005"
definition EV_EFI_ACTION :: u32 where "EV_EFI_ACTION = 0x80000007"
definition EV_EFI_VARIABLE_AUTHORITY :: u32 where "EV_EFI_VARIABLE_AUTHORITY = 0x800000e0"
definition TPM_ALG_SHA256 :: u16 where "TPM_ALG_SHA256 = 0x000b"

lemmas event_kinds = EV_NO_ACTION_def EV_SEPARATOR_def EV_EFI_VARIABLE_DRIVER_CONFIG_def
  EV_EFI_BOOT_SERVICES_APPLICATION_def EV_EFI_BOOT_SERVICES_DRIVER_def EV_EFI_RUNTIME_SERVICES_DRIVER_def
  EV_EFI_ACTION_def EV_EFI_VARIABLE_AUTHORITY_def

definition guid :: "nat \<Rightarrow> nat \<Rightarrow> nat \<Rightarrow> bytes \<Rightarrow> bytes" where
  "guid a b c d = to_le 4 a @ to_le 2 b @ to_le 2 c @ d"

definition EFI_GLOBAL_VARIABLE :: bytes where
  "EFI_GLOBAL_VARIABLE = guid 0x8be4df61 0x93ca 0x11d2 [0xaa, 0x0d, 0x00, 0xe0, 0x98, 0x03, 0x2b, 0x8c]"

definition EFI_IMAGE_SECURITY_DATABASE :: bytes where
  "EFI_IMAGE_SECURITY_DATABASE = guid 0xd719b2cb 0x3d3a 0x4596 [0xa3, 0xbc, 0xda, 0xd0, 0x0e, 0x67, 0x65, 0x6f]"

definition SHIM_LOCK :: bytes where
  "SHIM_LOCK = guid 0x605dab50 0xe046 0x4300 [0xab, 0xb6, 0x3d, 0xd8, 0x10, 0xdd, 0x8b, 0x23]"

definition MAX_ALGORITHMS :: nat where "MAX_ALGORITHMS = 64"
definition MAX_OTHER_KINDS :: nat where "MAX_OTHER_KINDS = 8"
definition MAX_EVENTS :: nat where "MAX_EVENTS = 100000"

definition SPEC_ID_EVENT03 :: bytes where
  "SPEC_ID_EVENT03 = map (\<lambda>c. word_of_nat (of_char c)) ''Spec ID Event03'' @ [0]"

section \<open>The parser\<close>

record Event =
  e_pcr :: u32
  e_kind :: u32
  e_sha256 :: "bytes option"
  e_data :: bytes

primrec rd_algorithms :: "nat \<Rightarrow> (u16 \<times> nat) list \<Rightarrow> (u16 \<times> nat) list reader" where
  "rd_algorithms 0 sizes = rd_return sizes"
| "rd_algorithms (Suc n) sizes =
     rd_bind rd_u16 (\<lambda>i. rd_bind rd_u16 (\<lambda>s.
       if i \<in> fst ` set sizes then (\<lambda>_. None) else rd_algorithms n (sizes @ [(i, unat s)])))"

text \<open>The digests of one event: the mask of algorithms seen and the SHA-256 digest so far.\<close>

primrec rd_digests :: "nat \<Rightarrow> (u16 \<times> nat) list \<Rightarrow> u64 \<Rightarrow> bytes option \<Rightarrow> bytes option reader" where
  "rd_digests 0 sizes seen sha256 = rd_return sha256"
| "rd_digests (Suc n) sizes seen sha256 =
     rd_bind rd_u16 (\<lambda>algorithm.
       case position (\<lambda>x. fst x = algorithm) sizes of
         None \<Rightarrow> (\<lambda>_. None)
       | Some index \<Rightarrow>
           (let bit = push_bit index (1 :: u64)
            in if seen AND bit \<noteq> 0 then (\<lambda>_. None)
               else
                 (let size = snd (sizes ! index)
                  in rd_bind (rd_take size) (\<lambda>digest.
                       rd_digests n sizes (seen OR bit)
                         (if algorithm = TPM_ALG_SHA256 \<and> size = 32 then Some digest else sha256)))))"

definition event2 :: "(u16 \<times> nat) list \<Rightarrow> Event reader" where
  "event2 sizes =
     rd_bind rd_u32 (\<lambda>pcr. rd_bind rd_u32 (\<lambda>kind. rd_bind rd_u32 (\<lambda>count.
     rd_bind (rd_require (unat count = length sizes)) (\<lambda>_.
     rd_bind (rd_digests (unat count) sizes 0 None) (\<lambda>sha256.
     rd_bind rd_u32 (\<lambda>size. rd_bind (rd_take (unat size)) (\<lambda>data.
       rd_return \<lparr> e_pcr = pcr, e_kind = kind, e_sha256 = sha256, e_data = data \<rparr>)))))))"

text \<open>The header's own reader runs over the Spec ID event data.\<close>

definition rd_spec :: "(u16 \<times> nat) list reader" where
  "rd_spec =
     rd_bind (rd_take 16) (\<lambda>signature.
     rd_bind (rd_require (signature = SPEC_ID_EVENT03)) (\<lambda>_.
     rd_bind (rd_take 4) (\<lambda>_.
     rd_bind (rd_take 4) (\<lambda>version.
     rd_bind (rd_require (\<not> version ! 1 < 2 \<and> (version ! 3 = 1 \<or> version ! 3 = 2))) (\<lambda>_.
     rd_bind rd_u32 (\<lambda>count.
     rd_bind (rd_require (unat count \<noteq> 0 \<and> unat count \<le> MAX_ALGORITHMS)) (\<lambda>_.
     rd_bind (rd_algorithms (unat count) []) (\<lambda>sizes.
     rd_bind (rd_take 1) (\<lambda>vendor_info.
     rd_bind (rd_take (unat (vendor_info ! 0))) (\<lambda>_.
       rd_return sizes))))))))))"

definition rd_header :: "(u16 \<times> nat) list reader" where
  "rd_header =
     rd_bind rd_u32 (\<lambda>pcr. rd_bind rd_u32 (\<lambda>kind. rd_bind (rd_take 20) (\<lambda>digest.
     rd_bind rd_u32 (\<lambda>size. rd_bind (rd_take (unat size)) (\<lambda>spec.
     rd_bind (rd_require (pcr = 0 \<and> kind = EV_NO_ACTION \<and> list_all (\<lambda>b. b = 0) digest)) (\<lambda>_.
       case rd_spec spec of
         Some (sizes, []) \<Rightarrow> rd_return sizes
       | _ \<Rightarrow> (\<lambda>_. None)))))))"

text \<open>The loop over the events. Every event takes at least sixteen bytes.\<close>

lemma rd_digests_Suc:
  assumes "rd_digests (Suc n) sizes seen sha t = Some (x, t')"
  obtains algorithm index digest u where "position (\<lambda>y. fst y = algorithm) sizes = Some index"
    "t = to_le 2 (unat algorithm) @ digest @ u" "length digest = snd (sizes ! index)"
    "seen AND push_bit index 1 = 0"
    "rd_digests n sizes (seen OR push_bit index 1)
       (if algorithm = TPM_ALG_SHA256 \<and> snd (sizes ! index) = 32 then Some digest else sha) u = Some (x, t')"
proof -
  obtain algorithm u where alg: "t = to_le 2 (unat algorithm) @ u"
    and rest: "(case position (\<lambda>y. fst y = algorithm) sizes of
         None \<Rightarrow> (\<lambda>_. None)
       | Some index \<Rightarrow>
           (let bit = push_bit index (1 :: u64)
            in if seen AND bit \<noteq> 0 then (\<lambda>_. None)
               else
                 (let size = snd (sizes ! index)
                  in rd_bind (rd_take size) (\<lambda>digest.
                       rd_digests n sizes (seen OR bit)
                         (if algorithm = TPM_ALG_SHA256 \<and> size = 32 then Some digest else sha))))) u = Some (x, t')"
    using assms by (auto simp: reads)
  from rest obtain index where "position (\<lambda>y. fst y = algorithm) sizes = Some index"
    by (cases "position (\<lambda>y. fst y = algorithm) sizes") auto
  with rest alg that show ?thesis by (auto simp: Let_def reads split: if_splits)
qed

lemma rd_digests_shrinks: "rd_digests n ss seen sha t = Some (x, t') \<Longrightarrow> length t' \<le> length t"
proof (induction n arbitrary: seen sha t)
  case (Suc n)
  from Suc.prems show ?case by (rule rd_digests_Suc) (use Suc.IH in fastforce)
qed simp

lemma event2_shrinks: "event2 sizes r = Some (e, r') \<Longrightarrow> length r' < length r"
  by (auto simp: event2_def reads dest!: rd_digests_shrinks)

function read_events :: "(u16 \<times> nat) list \<Rightarrow> Event list \<Rightarrow> bytes \<Rightarrow> Event list \<times> bool" where
  "read_events sizes out r =
     (if r = [] then (out, True)
      else if length out \<ge> MAX_EVENTS then (out, False)
      else (case event2 sizes r of
          None \<Rightarrow> (out, False)
        | Some (e, r') \<Rightarrow> read_events sizes (out @ [e]) r'))"
  by pat_completeness auto
termination
  by (relation "measure (\<lambda>(sizes, out, r). length r)") (auto dest: event2_shrinks)

declare read_events.simps [simp del]

definition events :: "bytes \<Rightarrow> (Event list \<times> bool) option" where
  "events log = (case rd_header log of None \<Rightarrow> None | Some (sizes, r) \<Rightarrow> Some (read_events sizes [] r))"

section \<open>The format, as an encoder\<close>

record raw_event =
  x_pcr :: u32
  x_kind :: u32
  x_digests :: "(u16 \<times> bytes) list"
  x_data :: bytes

record raw_header =
  h_platform :: bytes
  h_version :: bytes
  h_algorithms :: "(u16 \<times> u16) list"
  h_vendor :: bytes

definition enc_digests :: "(u16 \<times> bytes) list \<Rightarrow> bytes" where
  "enc_digests ds = concat (map (\<lambda>(i, d). to_le 2 (unat i) @ d) ds)"

definition enc_event :: "raw_event \<Rightarrow> bytes" where
  "enc_event x = to_le 4 (unat (x_pcr x)) @ to_le 4 (unat (x_kind x)) @ to_le 4 (length (x_digests x)) @
     enc_digests (x_digests x) @ to_le 4 (length (x_data x)) @ x_data x"

definition enc_algorithms :: "(u16 \<times> u16) list \<Rightarrow> bytes" where
  "enc_algorithms as = concat (map (\<lambda>(i, s). to_le 2 (unat i) @ to_le 2 (unat s)) as)"

definition enc_spec :: "raw_header \<Rightarrow> bytes" where
  "enc_spec h = SPEC_ID_EVENT03 @ h_platform h @ h_version h @ to_le 4 (length (h_algorithms h)) @
     enc_algorithms (h_algorithms h) @ [word_of_nat (length (h_vendor h))] @ h_vendor h"

definition enc_log :: "raw_header \<Rightarrow> raw_event list \<Rightarrow> bytes" where
  "enc_log h xs = to_le 4 0 @ to_le 4 (unat EV_NO_ACTION) @ replicate 20 0 @
     to_le 4 (length (enc_spec h)) @ enc_spec h @ concat (map enc_event xs)"

definition sizes_of :: "raw_header \<Rightarrow> (u16 \<times> nat) list" where
  "sizes_of h = map (\<lambda>(i, s). (i, unat s)) (h_algorithms h)"

definition wf_header :: "raw_header \<Rightarrow> bool" where
  "wf_header h \<longleftrightarrow> length (h_platform h) = 4 \<and> length (h_version h) = 4 \<and>
     \<not> h_version h ! 1 < 2 \<and> (h_version h ! 3 = 1 \<or> h_version h ! 3 = 2) \<and>
     h_algorithms h \<noteq> [] \<and> length (h_algorithms h) \<le> 64 \<and> distinct (map fst (h_algorithms h)) \<and>
     length (h_vendor h) \<le> 255"

text \<open>An event carries each declared algorithm once, in any order, with a digest of the declared
  length.\<close>

definition wf_event :: "(u16 \<times> nat) list \<Rightarrow> raw_event \<Rightarrow> bool" where
  "wf_event sizes x \<longleftrightarrow> length (x_digests x) = length sizes \<and> distinct (map fst (x_digests x)) \<and>
     (\<forall>(i, d) \<in> set (x_digests x). (i, length d) \<in> set sizes) \<and> length (x_data x) < 2 ^ 32"

definition opt_32 :: "bytes option \<Rightarrow> bytes option" where
  "opt_32 d = (case d of Some b \<Rightarrow> if length b = 32 then Some b else None | None \<Rightarrow> None)"

definition sha256_digest :: "(u16 \<times> bytes) list \<Rightarrow> bytes option" where
  "sha256_digest ds = opt_32 (map_of ds TPM_ALG_SHA256)"

definition view :: "raw_event \<Rightarrow> Event" where
  "view x = \<lparr> e_pcr = x_pcr x, e_kind = x_kind x, e_sha256 = sha256_digest (x_digests x), e_data = x_data x \<rparr>"

section \<open>The parser reads exactly the format\<close>

lemma and_push_bit:
  assumes "j < 64"
  shows "(seen :: u64) AND push_bit j 1 = 0 \<longleftrightarrow> \<not> bit seen j"
proof -
  have "bit (seen AND push_bit j 1) k \<longleftrightarrow> k = j \<and> bit seen j" for k
    using assms by (auto simp: bit_simps)
  then show ?thesis by (metis bit_0_eq bit_eqI bot_apply bot_bool_def)
qed

lemma bit_or_push_bit:
  "j < 64 \<Longrightarrow> k < 64 \<Longrightarrow> bit ((seen :: u64) OR push_bit j 1) k \<longleftrightarrow> bit seen k \<or> k = j"
  by (auto simp: bit_simps)

lemmas bit_or_power = bit_or_push_bit [unfolded push_bit_of_1]

text \<open>The mask holds the positions of the algorithms seen so far.\<close>

definition mask_holds :: "(u16 \<times> nat) list \<Rightarrow> u64 \<Rightarrow> u16 set \<Rightarrow> bool" where
  "mask_holds sizes seen S \<longleftrightarrow> (\<forall>j<length sizes. bit seen j \<longleftrightarrow> fst (sizes ! j) \<in> S)"

lemma position_key:
  assumes "distinct (map fst sizes)"
  shows "position (\<lambda>y. fst y = i) sizes = Some j \<longleftrightarrow> j < length sizes \<and> fst (sizes ! j) = i"
proof
  assume "position (\<lambda>y. fst y = i) sizes = Some j"
  then show "j < length sizes \<and> fst (sizes ! j) = i" by (rule position_SomeD)
next
  assume j: "j < length sizes \<and> fst (sizes ! j) = i"
  then have "sizes ! j \<in> set sizes" "fst (sizes ! j) = i" by simp_all
  then have "position (\<lambda>y. fst y = i) sizes \<noteq> None" by auto
  then obtain k where k: "position (\<lambda>y. fst y = i) sizes = Some k" by blast
  then have "k < length sizes" "fst (sizes ! k) = i" using position_SomeD [OF k] by auto
  with j have "map fst sizes ! k = map fst sizes ! j" by simp
  with j assms \<open>k < length sizes\<close> have "k = j" by (simp only: nth_eq_iff_index_eq length_map)
  with k show "position (\<lambda>y. fst y = i) sizes = Some j" by simp
qed

definition digests_ok :: "(u16 \<times> nat) list \<Rightarrow> u16 set \<Rightarrow> (u16 \<times> bytes) list \<Rightarrow> bool" where
  "digests_ok sizes S ds \<longleftrightarrow> distinct (map fst ds) \<and> (\<forall>(i, d) \<in> set ds. (i, length d) \<in> set sizes \<and> i \<notin> S)"

definition sha_after :: "(u16 \<times> bytes) list \<Rightarrow> bytes option \<Rightarrow> bytes option" where
  "sha_after ds sha = (case sha256_digest ds of None \<Rightarrow> sha | Some d \<Rightarrow> Some d)"

lemma sha_after_Cons:
  assumes "i \<notin> fst ` set ds"
  shows "sha_after ((i, d) # ds) sha = sha_after ds (if i = TPM_ALG_SHA256 \<and> length d = 32 then Some d else sha)"
proof (cases "i = TPM_ALG_SHA256")
  case True
  with assms have "map_of ds TPM_ALG_SHA256 = None" by (simp add: map_of_eq_None_iff)
  with True show ?thesis by (simp add: sha_after_def sha256_digest_def opt_32_def)
qed (simp add: sha_after_def sha256_digest_def)

lemma size_key:
  assumes "distinct (map fst sizes)" "j < length sizes"
  shows "(fst (sizes ! j), n) \<in> set sizes \<longleftrightarrow> n = snd (sizes ! j)"
proof -
  have "(fst (sizes ! j), snd (sizes ! j)) \<in> set sizes" using assms(2) by simp
  then show ?thesis using eq_key_imp_eq_value [OF assms(1)] by blast
qed

lemma rd_digests_exact:
  assumes "distinct (map fst sizes)" "length sizes \<le> 64" "mask_holds sizes seen S"
  shows "rd_digests n sizes seen sha t = Some (x, t') \<longleftrightarrow>
    (\<exists>ds. length ds = n \<and> t = enc_digests ds @ t' \<and> digests_ok sizes S ds \<and> x = sha_after ds sha)"
  using assms(3)
proof (induction n arbitrary: seen sha t S)
  case 0
  show ?case by (auto simp: enc_digests_def digests_ok_def sha_after_def sha256_digest_def opt_32_def)
next
  case (Suc n)
  have mask: "mask_holds sizes (seen OR push_bit j 1) (insert (fst (sizes ! j)) S)" if "j < length sizes" for j
    unfolding mask_holds_def
  proof (intro allI impI)
    fix k assume k: "k < length sizes"
    have "fst (sizes ! k) = fst (sizes ! j) \<longleftrightarrow> k = j"
      using nth_eq_iff_index_eq [OF assms(1), of k j] k that by simp
    with Suc.prems k that assms(2) show "bit (seen OR push_bit j 1) k \<longleftrightarrow> fst (sizes ! k) \<in> insert (fst (sizes ! j)) S"
      by (auto simp: mask_holds_def bit_or_power)
  qed
  show ?case
  proof
    assume "rd_digests (Suc n) sizes seen sha t = Some (x, t')"
    then obtain i j digest u where pos: "position (\<lambda>y. fst y = i) sizes = Some j"
      and t: "t = to_le 2 (unat i) @ digest @ u" and len: "length digest = snd (sizes ! j)"
      and free: "seen AND push_bit j 1 = 0"
      and rest: "rd_digests n sizes (seen OR push_bit j 1)
         (if i = TPM_ALG_SHA256 \<and> snd (sizes ! j) = 32 then Some digest else sha) u = Some (x, t')"
      by (rule rd_digests_Suc)
    have j: "j < length sizes" "fst (sizes ! j) = i" using pos assms(1) by (simp_all add: position_key)
    with free assms(2) Suc.prems have fresh: "i \<notin> S"
      using and_push_bit [of j seen] by (auto simp: mask_holds_def)
    from rest Suc.IH [OF mask [OF j(1)]] obtain ds where ds: "length ds = n" "u = enc_digests ds @ t'"
      "digests_ok sizes (insert i S) ds"
      "x = sha_after ds (if i = TPM_ALG_SHA256 \<and> snd (sizes ! j) = 32 then Some digest else sha)"
      using j(2) by auto
    have "digests_ok sizes S ((i, digest) # ds)"
      using ds(3) fresh len size_key [OF assms(1) j(1)] j(2) by (auto simp: digests_ok_def)
    moreover have "i \<notin> fst ` set ds" using ds(3) by (auto simp: digests_ok_def)
    then have "x = sha_after ((i, digest) # ds) sha" using ds(4) len by (simp add: sha_after_Cons)
    ultimately show "\<exists>ds. length ds = Suc n \<and> t = enc_digests ds @ t' \<and> digests_ok sizes S ds \<and> x = sha_after ds sha"
      using ds(1,2) t by (intro exI [of _ "(i, digest) # ds"]) (simp add: enc_digests_def)
  next
    assume "\<exists>ds. length ds = Suc n \<and> t = enc_digests ds @ t' \<and> digests_ok sizes S ds \<and> x = sha_after ds sha"
    then obtain all where all: "length all = Suc n" "t = enc_digests all @ t'" "digests_ok sizes S all" "x = sha_after all sha"
      by blast
    then obtain i digest ds where "all = (i, digest) # ds" by (cases all) auto
    with all have ds: "length ds = n" "t = enc_digests ((i, digest) # ds) @ t'"
      "digests_ok sizes S ((i, digest) # ds)" "x = sha_after ((i, digest) # ds) sha" by simp_all
    have i: "(i, length digest) \<in> set sizes" "i \<notin> S" "i \<notin> fst ` set ds" "digests_ok sizes (insert i S) ds"
      using ds(3) by (auto simp: digests_ok_def image_iff)
    then obtain j where j: "j < length sizes" "sizes ! j = (i, length digest)" by (auto simp: in_set_conv_nth)
    then have pos: "position (\<lambda>y. fst y = i) sizes = Some j" using assms(1) by (simp add: position_key)
    have free: "seen AND push_bit j 1 = 0"
      using and_push_bit [of j seen] Suc.prems j i(2) assms(2) by (auto simp: mask_holds_def)
    have "rd_digests n sizes (seen OR push_bit j 1)
        (if i = TPM_ALG_SHA256 \<and> length digest = 32 then Some digest else sha) (enc_digests ds @ t') = Some (x, t')"
      using Suc.IH [OF mask [OF j(1)]] ds(1,4) i(3,4) j(2) by (auto simp: sha_after_Cons)
    moreover have "rd_u16 t = Some (i, digest @ enc_digests ds @ t')" using ds(2) by (simp add: reads enc_digests_def)
    moreover have "rd_take (length digest) (digest @ enc_digests ds @ t') = Some (digest, enc_digests ds @ t')"
      by (simp add: rd_take_Some)
    ultimately show "rd_digests (Suc n) sizes seen sha t = Some (x, t')"
      using pos free j(2) by (simp add: rd_bind_def Let_def)
  qed
qed


lemma event2_exact:
  assumes "distinct (map fst sizes)" "length sizes \<le> 64"
  shows "event2 sizes r = Some (e, r') \<longleftrightarrow> (\<exists>x. wf_event sizes x \<and> r = enc_event x @ r' \<and> e = view x)"
proof -
  have start: "mask_holds sizes 0 {}" by (simp add: mask_holds_def)
  note dig = rd_digests_exact [OF assms start]
  show ?thesis
  proof
    assume "event2 sizes r = Some (e, r')"
    then obtain pcr kind sha data t and count size :: u32 where
      r: "r = to_le 4 (unat pcr) @ to_le 4 (unat kind) @ to_le 4 (unat count) @ t" "unat count = length sizes"
      "rd_digests (length sizes) sizes 0 None t = Some (sha, to_le 4 (unat size) @ data @ r')" "length data = unat size"
      "e = \<lparr> e_pcr = pcr, e_kind = kind, e_sha256 = sha, e_data = data \<rparr>"
      by (auto simp: event2_def reads)
    from r(3) dig obtain ds where ds: "length ds = length sizes" "t = enc_digests ds @ to_le 4 (unat size) @ data @ r'"
      "digests_ok sizes {} ds" "sha = sha_after ds None" by auto
    have "wf_event sizes \<lparr> x_pcr = pcr, x_kind = kind, x_digests = ds, x_data = data \<rparr>"
      using ds r(4) unsigned_less [of size] by (simp add: wf_event_def digests_ok_def)
    with r ds show "\<exists>x. wf_event sizes x \<and> r = enc_event x @ r' \<and> e = view x"
      by (intro exI [of _ "\<lparr> x_pcr = pcr, x_kind = kind, x_digests = ds, x_data = data \<rparr>"])
        (simp add: enc_event_def view_def sha_after_def split: option.split)
  next
    assume "\<exists>x. wf_event sizes x \<and> r = enc_event x @ r' \<and> e = view x"
    then obtain x where x: "wf_event sizes x" "r = enc_event x @ r'" "e = view x" by blast
    let ?n = "length (x_digests x)" and ?m = "length (x_data x)"
    have n: "?n = length sizes" "?n \<le> 64" and m: "?m < 2 ^ 32" using x(1) assms(2) by (simp_all add: wf_event_def)
    have "rd_digests ?n sizes 0 None (enc_digests (x_digests x) @ to_le 4 ?m @ x_data x @ r') =
        Some (sha256_digest (x_digests x), to_le 4 ?m @ x_data x @ r')"
      unfolding dig using x(1)
      by (intro exI [of _ "x_digests x"]) (auto simp: wf_event_def digests_ok_def sha_after_def split: option.split)
    moreover have "unat (word_of_nat ?n :: u32) = ?n" "unat (word_of_nat ?m :: u32) = ?m"
      using n m by (simp_all add: unsigned_of_nat take_bit_eq_mod)
    ultimately show "event2 sizes r = Some (e, r')"
      using x n m
      by (simp add: event2_def enc_event_def view_def reading rd_require_def rd_return_def)
  qed
qed


lemma read_events_exact:
  assumes "distinct (map fst sizes)" "length sizes \<le> 64"
  shows "read_events sizes out r = (es, True) \<longleftrightarrow>
    (\<exists>xs. list_all (wf_event sizes) xs \<and> r = concat (map enc_event xs) \<and> es = out @ map view xs \<and>
       (xs \<noteq> [] \<longrightarrow> length out + length xs \<le> MAX_EVENTS))"
  using assms
proof (induction sizes out r rule: read_events.induct)
  case (1 sizes out r)
  note ev = event2_exact [OF 1(2,3)]
  have nonempty: "enc_event x \<noteq> []" for x by (simp add: enc_event_def length_0_conv [symmetric] del: length_0_conv)
  let ?R = "\<exists>xs. list_all (wf_event sizes) xs \<and> r = concat (map enc_event xs) \<and> es = out @ map view xs \<and>
       (xs \<noteq> [] \<longrightarrow> length out + length xs \<le> MAX_EVENTS)"
  show ?case
  proof (cases "r = []")
    case True
    then show ?thesis using nonempty by (auto simp: read_events.simps [of sizes out "[]"] intro!: exI [of _ "[]"])
  next
    case r: False
    have head: "\<exists>x xs. wf_event sizes x \<and> list_all (wf_event sizes) xs \<and> event2 sizes r = Some (view x, concat (map enc_event xs)) \<and>
        es = out @ view x # map view xs \<and> Suc (length out) + length xs \<le> MAX_EVENTS" if ?R
    proof -
      from that obtain all where all: "list_all (wf_event sizes) all" "r = concat (map enc_event all)" "es = out @ map view all"
        "all \<noteq> [] \<longrightarrow> length out + length all \<le> MAX_EVENTS" by blast
      with r obtain x xs where "all = x # xs" by (cases all) auto
      with all have x: "wf_event sizes x" "list_all (wf_event sizes) xs" "r = enc_event x @ concat (map enc_event xs)"
        "es = out @ view x # map view xs" "Suc (length out) + length xs \<le> MAX_EVENTS" by simp_all
      then have "event2 sizes r = Some (view x, concat (map enc_event xs))" using ev by blast
      with x show ?thesis by blast
    qed
    show ?thesis
    proof (cases "length out \<ge> MAX_EVENTS \<or> event2 sizes r = None")
      case True
      then have "read_events sizes out r = (out, False)" using r by (auto simp: read_events.simps [of sizes out r])
      moreover have "\<not> ?R" using head True by fastforce
      ultimately show ?thesis by (simp only: prod.inject simp_thms)
    next
      case False
      then obtain e r' where e: "event2 sizes r = Some (e, r')" by auto
      then have step: "read_events sizes out r = read_events sizes (out @ [e]) r'"
        using False r by (simp add: read_events.simps [of sizes out r])
      from e ev obtain x where x: "wf_event sizes x" "r = enc_event x @ r'" "e = view x" by blast
      have IH: "read_events sizes (out @ [e]) r' = (es, True) \<longleftrightarrow>
          (\<exists>xs. list_all (wf_event sizes) xs \<and> r' = concat (map enc_event xs) \<and> es = (out @ [e]) @ map view xs \<and>
             (xs \<noteq> [] \<longrightarrow> length (out @ [e]) + length xs \<le> MAX_EVENTS))"
        using 1(1) [OF r _ e refl 1(2,3)] False by simp
      show ?thesis
      proof
        assume "read_events sizes out r = (es, True)"
        with step IH obtain xs where xs: "list_all (wf_event sizes) xs" "r' = concat (map enc_event xs)"
          "es = (out @ [e]) @ map view xs" "xs \<noteq> [] \<longrightarrow> length (out @ [e]) + length xs \<le> MAX_EVENTS" by auto
        with x False show ?R by (intro exI [of _ "x # xs"]) (cases xs; auto)
      next
        assume ?R
        with head e have "\<exists>xs. list_all (wf_event sizes) xs \<and> r' = concat (map enc_event xs) \<and> es = (out @ [e]) @ map view xs \<and>
             (xs \<noteq> [] \<longrightarrow> length (out @ [e]) + length xs \<le> MAX_EVENTS)" by fastforce
        with step IH show "read_events sizes out r = (es, True)" by simp
      qed
    qed
  qed
qed


lemma rd_algorithms_exact:
  "rd_algorithms n seen r = Some (sizes, r') \<longleftrightarrow>
    (\<exists>as. length as = n \<and> r = enc_algorithms as @ r' \<and> sizes = seen @ map (\<lambda>(i, s). (i, unat s)) as \<and>
       distinct (map fst as) \<and> fst ` set as \<inter> fst ` set seen = {})"
proof (induction n arbitrary: seen r)
  case 0
  show ?case by (auto simp: enc_algorithms_def)
next
  case (Suc n)
  have step: "rd_algorithms (Suc n) seen r = Some (sizes, r') \<longleftrightarrow>
      (\<exists>i (s :: u16) t. r = to_le 2 (unat i) @ to_le 2 (unat s) @ t \<and> i \<notin> fst ` set seen \<and>
         rd_algorithms n (seen @ [(i, unat s)]) t = Some (sizes, r'))"
    by (auto simp: reads split: if_splits)
  show ?case
  proof
    assume "rd_algorithms (Suc n) seen r = Some (sizes, r')"
    with step obtain i t and s :: u16 where i: "r = to_le 2 (unat i) @ to_le 2 (unat s) @ t" "i \<notin> fst ` set seen"
      "rd_algorithms n (seen @ [(i, unat s)]) t = Some (sizes, r')" by blast
    from i(3) Suc.IH obtain as where "length as = n" "t = enc_algorithms as @ r'"
      "sizes = (seen @ [(i, unat s)]) @ map (\<lambda>(i, s). (i, unat s)) as" "distinct (map fst as)"
      "fst ` set as \<inter> fst ` set (seen @ [(i, unat s)]) = {}" by blast
    with i show "\<exists>as. length as = Suc n \<and> r = enc_algorithms as @ r' \<and> sizes = seen @ map (\<lambda>(i, s). (i, unat s)) as \<and>
       distinct (map fst as) \<and> fst ` set as \<inter> fst ` set seen = {}"
      by (intro exI [of _ "(i, s) # as"]) (auto simp: enc_algorithms_def)
  next
    assume "\<exists>as. length as = Suc n \<and> r = enc_algorithms as @ r' \<and> sizes = seen @ map (\<lambda>(i, s). (i, unat s)) as \<and>
       distinct (map fst as) \<and> fst ` set as \<inter> fst ` set seen = {}"
    then obtain all where all: "length all = Suc n" "r = enc_algorithms all @ r'" "sizes = seen @ map (\<lambda>(i, s). (i, unat s)) all"
      "distinct (map fst all)" "fst ` set all \<inter> fst ` set seen = {}" by blast
    then obtain i s as where split: "all = (i, s) # as" by (cases all) auto
    have "rd_algorithms n (seen @ [(i, unat s)]) (enc_algorithms as @ r') = Some (sizes, r')"
      unfolding Suc.IH using all split by (intro exI [of _ as]) auto
    with all split show "rd_algorithms (Suc n) seen r = Some (sizes, r')"
      unfolding step by (intro exI [of _ i] exI [of _ s] exI [of _ "enc_algorithms as @ r'"]) (auto simp: enc_algorithms_def)
  qed
qed

lemma rd_one: "rd_take 1 r = Some (x, r') \<longleftrightarrow> (\<exists>b. x = [b] \<and> r = b # r')"
  by (auto simp: rd_take_Some length_Suc_conv)

lemma rd_spec_exact:
  "rd_spec r = Some (sizes, []) \<longleftrightarrow> (\<exists>h. wf_header h \<and> r = enc_spec h \<and> sizes = sizes_of h)"
proof
  assume "rd_spec r = Some (sizes, [])"
  then obtain platform version as len vendor and count :: u32 where
    r: "r = SPEC_ID_EVENT03 @ platform @ version @ to_le 4 (unat count) @ enc_algorithms as @ len @ vendor"
    and wf: "length platform = 4" "length version = 4" "\<not> version ! 1 < 2" "version ! 3 = 1 \<or> version ! 3 = 2"
      "unat count \<noteq> 0" "unat count \<le> 64" "length as = unat count" "distinct (map fst as)" "length vendor = unat (len ! 0)"
      "sizes = map (\<lambda>(i, s). (i, unat s)) as" and len: "length len = 1"
    unfolding rd_spec_def MAX_ALGORITHMS_def by (auto simp: reads rd_algorithms_exact)
  obtain b where "len = [b]" using len by (auto simp: length_Suc_conv)
  with r wf(9) have r: "r = SPEC_ID_EVENT03 @ platform @ version @ to_le 4 (unat count) @ enc_algorithms as @ b # vendor"
    and vendor: "length vendor = unat b" by simp_all
  define h where "h = \<lparr> h_platform = platform, h_version = version, h_algorithms = as, h_vendor = vendor \<rparr>"
  have "length vendor \<le> 255" "word_of_nat (length vendor) = b" using vendor unsigned_less [of b, where ?'a = nat] by simp_all
  then have "wf_header h \<and> r = enc_spec h \<and> sizes = sizes_of h"
    using r wf by (auto simp: h_def wf_header_def enc_spec_def sizes_of_def)
  then show "\<exists>h. wf_header h \<and> r = enc_spec h \<and> sizes = sizes_of h" by blast
next
  assume "\<exists>h. wf_header h \<and> r = enc_spec h \<and> sizes = sizes_of h"
  then obtain h where h: "wf_header h" "r = enc_spec h" "sizes = sizes_of h" by blast
  let ?n = "length (h_algorithms h)" and ?v = "length (h_vendor h)"
  have n: "?n < 2 ^ 32" "?n \<le> 64" "0 < ?n" using h(1) by (auto simp: wf_header_def)
  have un: "unat (word_of_nat ?n :: u32) = ?n" "unat (word_of_nat ?v :: u8) = ?v"
    using h(1) by (simp_all add: wf_header_def unsigned_of_nat take_bit_eq_mod)
  have algs: "rd_algorithms ?n [] (enc_algorithms (h_algorithms h) @ t) = Some (sizes_of h, t)" for t
    unfolding rd_algorithms_exact using h(1) by (intro exI [of _ "h_algorithms h"]) (auto simp: wf_header_def sizes_of_def)
  have parts: "rd_take 16 (SPEC_ID_EVENT03 @ t) = Some (SPEC_ID_EVENT03, t)" "rd_take 4 (h_platform h @ t) = Some (h_platform h, t)"
    "rd_take 4 (h_version h @ t) = Some (h_version h, t)" "rd_u32 (to_le 4 ?n @ t) = Some (word_of_nat ?n, t)"
    "rd_take (Suc 0) (b # t) = Some ([b], t)" "rd_take ?v (h_vendor h) = Some (h_vendor h, [])" for t b
    using h(1) n by (simp_all add: rd_forward wf_header_def SPEC_ID_EVENT03_def) (simp_all add: rd_take_def)
  have guards: "\<not> h_version h ! Suc 0 < 2 \<and> (h_version h ! 3 = 1 \<or> h_version h ! 3 = 2)"
    using h(1) by (simp add: wf_header_def)
  show "rd_spec r = Some (sizes, [])"
    unfolding h(2,3) enc_spec_def rd_spec_def rd_bind_def
    using guards n(2,3) by (simp add: parts algs un rd_require_def rd_return_def MAX_ALGORITHMS_def)
qed


lemma length_enc_spec: "wf_header h \<Longrightarrow> length (enc_spec h) < 2 ^ 32"
proof -
  assume h: "wf_header h"
  have "length (enc_algorithms as) = 4 * length as" for as
    by (induction as) (auto simp: enc_algorithms_def)
  with h show ?thesis by (simp add: enc_spec_def wf_header_def SPEC_ID_EVENT03_def)
qed

definition header_bytes :: "raw_header \<Rightarrow> bytes" where
  "header_bytes h = to_le 4 0 @ to_le 4 (unat EV_NO_ACTION) @ replicate 20 0 @ to_le 4 (length (enc_spec h)) @ enc_spec h"

lemma spec_case:
  "(case x of None \<Rightarrow> (\<lambda>_. None) | Some (sz, []) \<Rightarrow> rd_return sz | Some (sz, b # bs) \<Rightarrow> (\<lambda>_. None)) r = Some (sizes, r') \<longleftrightarrow>
    x = Some (sizes, []) \<and> r' = r"
  by (cases x) (auto split: prod.split list.split)

lemma rd_header_exact:
  "rd_header log = Some (sizes, r) \<longleftrightarrow> (\<exists>h. wf_header h \<and> log = header_bytes h @ r \<and> sizes = sizes_of h)"
proof
  assume "rd_header log = Some (sizes, r)"
  then obtain pcr kind :: u32 and digest spec and size :: u32 where
    log: "log = to_le 4 (unat pcr) @ to_le 4 (unat kind) @ digest @ to_le 4 (unat size) @ spec @ r"
    and wf: "length digest = 20" "length spec = unat size" "pcr = 0" "kind = EV_NO_ACTION" "list_all (\<lambda>b. b = 0) digest"
      "rd_spec spec = Some (sizes, [])"
    unfolding rd_header_def by (auto simp: reads spec_case)
  from wf(1,5) have "digest = replicate 20 0" by (auto simp: list_all_iff intro!: replicate_eqI)
  moreover from wf(6) obtain h where "wf_header h" "spec = enc_spec h" "sizes = sizes_of h" by (auto simp: rd_spec_exact)
  ultimately show "\<exists>h. wf_header h \<and> log = header_bytes h @ r \<and> sizes = sizes_of h"
    using log wf by (intro exI [of _ h]) (simp add: header_bytes_def)
next
  assume "\<exists>h. wf_header h \<and> log = header_bytes h @ r \<and> sizes = sizes_of h"
  then obtain h where h: "wf_header h" "log = header_bytes h @ r" "sizes = sizes_of h" by blast
  let ?n = "length (enc_spec h)"
  have n: "?n < 2 ^ 32" using h(1) by (rule length_enc_spec)
  then have un: "unat (word_of_nat ?n :: u32) = ?n" by (simp add: unsigned_of_nat take_bit_eq_mod)
  have spec: "rd_spec (enc_spec h) = Some (sizes_of h, [])" using h(1) by (auto simp: rd_spec_exact)
  have parts: "rd_u32 (to_le 4 0 @ t) = Some (0, t)" "rd_u32 (to_le 4 (unat EV_NO_ACTION) @ t) = Some (EV_NO_ACTION, t)"
    "rd_take 20 (replicate 20 0 @ t) = Some (replicate 20 0, t)" "rd_u32 (to_le 4 ?n @ t) = Some (word_of_nat ?n, t)"
    "rd_take ?n (enc_spec h @ t) = Some (enc_spec h, t)" for t
    using n rd_forward(2) [of 0 t] by (simp_all add: rd_forward)
  show "rd_header log = Some (sizes, r)"
    unfolding h(2,3) header_bytes_def rd_header_def rd_bind_def
    by (simp add: parts un spec rd_require_def rd_return_def list_all_iff)
qed

lemma sizes_of_facts: "wf_header h \<Longrightarrow> distinct (map fst (sizes_of h)) \<and> length (sizes_of h) \<le> 64"
  by (simp add: wf_header_def sizes_of_def case_prod_unfold comp_def)

lemma events_complete:
  "events log = Some (es, True) \<longleftrightarrow>
    (\<exists>h xs. wf_header h \<and> list_all (wf_event (sizes_of h)) xs \<and> length xs \<le> MAX_EVENTS \<and>
       log = enc_log h xs \<and> es = map view xs)"
proof
  assume "events log = Some (es, True)"
  then obtain sizes r where hd: "rd_header log = Some (sizes, r)" and ev: "read_events sizes [] r = (es, True)"
    by (auto simp: events_def split: option.splits)
  from hd obtain h where h: "wf_header h" "log = header_bytes h @ r" "sizes = sizes_of h" by (auto simp: rd_header_exact)
  with ev obtain xs where "list_all (wf_event (sizes_of h)) xs" "r = concat (map enc_event xs)" "es = map view xs"
    "xs \<noteq> [] \<longrightarrow> length xs \<le> MAX_EVENTS"
    using read_events_exact [of "sizes_of h" "[]" r es] sizes_of_facts [OF h(1)] by auto
  with h show "\<exists>h xs. wf_header h \<and> list_all (wf_event (sizes_of h)) xs \<and> length xs \<le> MAX_EVENTS \<and>
       log = enc_log h xs \<and> es = map view xs"
    by (intro exI [of _ h] exI [of _ xs]) (cases xs; simp add: enc_log_def header_bytes_def)
next
  assume "\<exists>h xs. wf_header h \<and> list_all (wf_event (sizes_of h)) xs \<and> length xs \<le> MAX_EVENTS \<and>
       log = enc_log h xs \<and> es = map view xs"
  then obtain h xs where h: "wf_header h" "list_all (wf_event (sizes_of h)) xs" "length xs \<le> MAX_EVENTS"
    "log = enc_log h xs" "es = map view xs" by blast
  have "rd_header log = Some (sizes_of h, concat (map enc_event xs))"
    using h(1,4) by (auto simp: rd_header_exact enc_log_def header_bytes_def)
  moreover have "read_events (sizes_of h) [] (concat (map enc_event xs)) = (es, True)"
    using read_events_exact [of "sizes_of h" "[]" "concat (map enc_event xs)" es] sizes_of_facts [OF h(1)] h by auto
  ultimately show "events log = Some (es, True)" by (simp add: events_def)
qed

section \<open>Properties\<close>

text \<open>C34: The event log parser reads exactly the crypto-agile format. A log is read completely
  if and only if it is the encoding of a header the profile allows and of events that each carry every
  declared algorithm once, in any order, with a digest of the declared length; the events
  returned are then the encoded ones, in order, with their SHA-256 digest.\<close>

theorem event_log_is_read_exactly:
  "events log = Some (es, True) \<longleftrightarrow>
    (\<exists>h xs. wf_header h \<and> list_all (wf_event (sizes_of h)) xs \<and> length xs \<le> MAX_EVENTS \<and>
       log = enc_log h xs \<and> es = map view xs)"
  by (rule events_complete)

end
