(* ===== verification/Boot_Account.thy ===== *)
theory Boot_Account
  imports Event_Log
begin

text \<open>
  What the event log says of PCR 7 (\<^verbatim>\<open>irlume-common/src/event_log.rs\<close>): the replay of a
  PCR, the account of PCR 7 and the checks that admit it. SHA-256 is a parameter: any
  function from bytes to bytes. The account is proved against what a hash can promise: where
  two logs replay to one value, they carry the same digests or exhibit a collision.
\<close>

section \<open>Replaying a PCR\<close>

definition extended :: "u32 \<Rightarrow> Event list \<Rightarrow> Event list" where
  "extended pcr es = filter (\<lambda>e. e_pcr e = pcr \<and> e_kind e \<noteq> EV_NO_ACTION) es"

primrec replay_from :: "(bytes \<Rightarrow> bytes) \<Rightarrow> bytes \<Rightarrow> Event list \<Rightarrow> bytes option" where
  "replay_from sha256 val [] = Some val"
| "replay_from sha256 val (e # es) = (case e_sha256 e of
     None \<Rightarrow> None
   | Some digest \<Rightarrow> replay_from sha256 (sha256 (val @ digest)) es)"

definition replay :: "(bytes \<Rightarrow> bytes) \<Rightarrow> Event list \<Rightarrow> u32 \<Rightarrow> bytes option" where
  "replay sha256 es pcr = replay_from sha256 (replicate 32 0) (extended pcr es)"

section \<open>Variables and text\<close>

text \<open>A \<^verbatim>\<open>String\<close> decoded here is the list of its Unicode scalar values.\<close>

type_synonym ustring = "nat list"

fun from_utf16 :: "nat list \<Rightarrow> ustring option" where
  "from_utf16 [] = Some []"
| "from_utf16 (u # us) =
     (if u < 0xD800 \<or> u > 0xDFFF then map_option ((#) u) (from_utf16 us)
      else if u \<ge> 0xDC00 then None
      else (case us of
          [] \<Rightarrow> None
        | v # vs \<Rightarrow>
            if 0xDC00 \<le> v \<and> v \<le> 0xDFFF
            then map_option ((#) (0x10000 + (u - 0xD800) * 1024 + (v - 0xDC00))) (from_utf16 vs)
            else None))"

fun chunks2 :: "bytes \<Rightarrow> nat list" where
  "chunks2 (a # b # bs) = from_le [a, b] # chunks2 bs"
| "chunks2 _ = []"

definition variable :: "bytes \<Rightarrow> (bytes \<times> ustring \<times> bytes) option" where
  "variable data =
     (case rd_bind (rd_take 16) (\<lambda>g. rd_bind rd_u64 (\<lambda>name_len. rd_bind rd_u64 (\<lambda>data_len.
           rd_bind (rd_require (2 * unat name_len < 2 ^ 64)) (\<lambda>_.
           rd_bind (rd_take (2 * unat name_len)) (\<lambda>name. rd_bind (rd_take (unat data_len)) (\<lambda>d.
             rd_return (g, name, d))))))) data of
        Some ((g, name, d), []) \<Rightarrow> map_option (\<lambda>n. (g, n, d)) (from_utf16 (chunks2 name))
      | _ \<Rightarrow> None)"

primrec trim_zeros_rev :: "bytes \<Rightarrow> bytes" where
  "trim_zeros_rev [] = []"
| "trim_zeros_rev (b # bs) = (if b = 0 then trim_zeros_rev bs else b # bs)"

definition action_text :: "bytes \<Rightarrow> ustring" where
  "action_text data = utf8_lossy (map unat (rev (trim_zeros_rev (rev data))))"

section \<open>The account of PCR 7\<close>

record Authority =
  au_guid :: bytes
  au_variable :: ustring
  au_data :: bytes

definition verifies_images :: "Authority \<Rightarrow> bool" where
  "verifies_images a =
     (if au_variable a = codes ''db'' \<or> au_variable a = codes ''vendor_db''
      then au_guid a = EFI_IMAGE_SECURITY_DATABASE \<and> length (au_data a) > 16
      else if au_variable a = codes ''MokListRT'' then au_guid a = SHIM_LOCK \<and> length (au_data a) > 16
      else if au_variable a = codes ''Shim'' then au_guid a = SHIM_LOCK \<and> au_data a \<noteq> []
      else False)"

definition disables_validation :: "Authority \<Rightarrow> bool" where
  "disables_validation a \<longleftrightarrow> au_variable a = codes ''MokSBState'' \<and> au_guid a = SHIM_LOCK"

definition authority_certificate :: "Authority \<Rightarrow> bytes option" where
  "authority_certificate a = (if length (au_data a) < 16 \<or> drop 16 (au_data a) = [] then None
     else Some (drop 16 (au_data a)))"

record Setting =
  s_guid :: bytes
  s_name :: ustring
  s_data :: bool

record Pcr7 =
  secure_boot :: "bool option"
  configuration :: "Setting list"
  leading_configuration :: nat
  authorities :: "Authority list"
  actions :: "ustring list"
  separator_errors :: nat
  extraneous :: nat
  other_events :: nat
  other_kinds :: "u32 list"
  unverified :: nat
  malformed :: nat

definition Pcr7_default :: Pcr7 where
  "Pcr7_default = \<lparr> secure_boot = None, configuration = [], leading_configuration = 0, authorities = [], actions = [],
     separator_errors = 0, extraneous = 0, other_events = 0, other_kinds = [], unverified = 0, malformed = 0 \<rparr>"

definition error_separator :: "(bytes \<Rightarrow> bytes) \<Rightarrow> Event \<Rightarrow> bool" where
  "error_separator sha256 e \<longleftrightarrow> e_kind e = EV_SEPARATOR \<and> e_sha256 e = Some (sha256 (to_le 4 1))"

definition read_kind :: "u32 \<Rightarrow> bool" where
  "read_kind k \<longleftrightarrow> k = EV_EFI_VARIABLE_DRIVER_CONFIG \<or> k = EV_SEPARATOR \<or> k = EV_EFI_VARIABLE_AUTHORITY \<or> k = EV_EFI_ACTION"

definition payload_unverified :: "(bytes \<Rightarrow> bytes) \<Rightarrow> Event \<Rightarrow> bool" where
  "payload_unverified sha256 e \<longleftrightarrow>
     read_kind (e_kind e) \<and> \<not> error_separator sha256 e \<and> e_sha256 e \<noteq> Some (sha256 (e_data e))"

definition read_configuration :: "bytes \<Rightarrow> Pcr7 \<Rightarrow> Pcr7" where
  "read_configuration data out = (case variable data of
      None \<Rightarrow> out\<lparr> malformed := malformed out + 1 \<rparr>
    | Some (g, name, d) \<Rightarrow>
        (let out' = (if name = codes ''SecureBoot'' \<and> g = EFI_GLOBAL_VARIABLE
                     then if d = [] \<or> d = [0] then out\<lparr> secure_boot := Some False \<rparr>
                          else if d = [1] then out\<lparr> secure_boot := Some True \<rparr>
                          else out\<lparr> malformed := malformed out + 1 \<rparr>
                     else out)
         in out'\<lparr> configuration := configuration out' @ [\<lparr> s_guid = g, s_name = name, s_data = list_ex (\<lambda>b. b \<noteq> 0) d \<rparr>] \<rparr>))"

definition read_authority :: "bytes \<Rightarrow> Pcr7 \<Rightarrow> Pcr7" where
  "read_authority data out = (case variable data of
      None \<Rightarrow> out\<lparr> malformed := malformed out + 1 \<rparr>
    | Some (g, name, d) \<Rightarrow>
        out\<lparr> authorities := authorities out @ [\<lparr> au_guid = g, au_variable = name, au_data = d \<rparr>] \<rparr>)"

definition read_event :: "(bytes \<Rightarrow> bytes) \<Rightarrow> Event \<Rightarrow> Pcr7 \<Rightarrow> Pcr7" where
  "read_event sha256 e out =
     (if e_kind e = EV_EFI_VARIABLE_DRIVER_CONFIG then read_configuration (e_data e) out
      else if e_kind e = EV_EFI_VARIABLE_AUTHORITY then read_authority (e_data e) out
      else if e_kind e = EV_EFI_ACTION then out\<lparr> actions := actions out @ [action_text (e_data e)] \<rparr>
      else if error_separator sha256 e then out\<lparr> separator_errors := separator_errors out + 1 \<rparr>
      else if e_kind e = EV_SEPARATOR
      then if e_data e = [0, 0, 0, 0] \<or> e_data e = [0xff, 0xff, 0xff, 0xff] then out
           else out\<lparr> malformed := malformed out + 1 \<rparr>
      else if e_kind e = EV_EFI_BOOT_SERVICES_APPLICATION \<or> e_kind e = EV_EFI_BOOT_SERVICES_DRIVER \<or>
              e_kind e = EV_EFI_RUNTIME_SERVICES_DRIVER
      then out\<lparr> extraneous := extraneous out + 1 \<rparr>
      else out\<lparr> other_events := other_events out + 1,
        other_kinds := (if length (other_kinds out) < MAX_OTHER_KINDS \<and> e_kind e \<notin> set (other_kinds out)
          then other_kinds out @ [e_kind e] else other_kinds out) \<rparr>)"

definition pcr7_event :: "(bytes \<Rightarrow> bytes) \<Rightarrow> Pcr7 \<times> bool \<Rightarrow> Event \<Rightarrow> Pcr7 \<times> bool" where
  "pcr7_event sha256 st e =
     (let leading = snd st \<and> e_kind e = EV_EFI_VARIABLE_DRIVER_CONFIG;
          out = fst st;
          out = (if leading then out\<lparr> leading_configuration := leading_configuration out + 1 \<rparr> else out);
          out = (if payload_unverified sha256 e then out\<lparr> unverified := unverified out + 1 \<rparr> else out)
      in (read_event sha256 e out, leading))"

definition pcr7 :: "(bytes \<Rightarrow> bytes) \<Rightarrow> Event list \<Rightarrow> Pcr7" where
  "pcr7 sha256 es = fst (foldl (pcr7_event sha256) (Pcr7_default, True) (extended 7 es))"

datatype Untrusted = NotCryptoAgile | Incomplete | NoSha256 | Replay | Payload nat | Malformed nat

definition verified_pcr7 :: "(bytes \<Rightarrow> bytes) \<Rightarrow> bytes \<Rightarrow> bytes \<Rightarrow> Untrusted + Pcr7" where
  "verified_pcr7 sha256 log value = (case events log of
      None \<Rightarrow> Inl NotCryptoAgile
    | Some (es, complete) \<Rightarrow>
        if \<not> complete then Inl Incomplete
        else (case replay sha256 es 7 of
            None \<Rightarrow> Inl NoSha256
          | Some v \<Rightarrow>
              if v \<noteq> value then Inl Replay
              else (let p = pcr7 sha256 es
                    in if unverified p > 0 then Inl (Payload (unverified p))
                       else if malformed p > 0 then Inl (Malformed (malformed p))
                       else Inr p)))"

definition hex_digit :: "nat \<Rightarrow> nat option" where
  "hex_digit c = (if 48 \<le> c \<and> c \<le> 57 then Some (c - 48) else if 97 \<le> c \<and> c \<le> 102 then Some (c - 87)
     else if 65 \<le> c \<and> c \<le> 70 then Some (c - 55) else None)"

text \<open>\<^verbatim>\<open>u8::from_str_radix(_, 16)\<close> on two characters: a plus sign may stand in the first place.\<close>

definition hex_pair :: "nat \<Rightarrow> nat \<Rightarrow> u8 option" where
  "hex_pair a b = (case hex_digit b of
      None \<Rightarrow> None
    | Some lo \<Rightarrow> if a = 43 then Some (word_of_nat lo)
        else map_option (\<lambda>hi. word_of_nat (16 * hi + lo)) (hex_digit a))"

fun hex_pairs :: "nat list \<Rightarrow> bytes option" where
  "hex_pairs (a # b # cs) = Option.bind (hex_pair a b) (\<lambda>x. map_option ((#) x) (hex_pairs cs))"
| "hex_pairs _ = Some []"

definition pcr_value :: "string \<Rightarrow> bytes option" where
  "pcr_value text =
     (let t = trim (codes text)
      in if length t \<noteq> 64 \<or> list_ex (\<lambda>c. c \<ge> 128) t then None else hex_pairs t)"

lemma pcr_value_reads_signs: "pcr_value (concat (replicate 32 ''+f'')) = Some (replicate 32 15)"
  by code_simp

section \<open>What an admitted account says\<close>

definition is_setting :: "Event \<Rightarrow> Setting \<Rightarrow> bool" where
  "is_setting e s \<longleftrightarrow> (\<exists>g name d. variable (e_data e) = Some (g, name, d) \<and>
     s = \<lparr> s_guid = g, s_name = name, s_data = list_ex (\<lambda>b. b \<noteq> 0) d \<rparr>)"

definition is_authority :: "Event \<Rightarrow> Authority \<Rightarrow> bool" where
  "is_authority e a \<longleftrightarrow> (\<exists>g name d. variable (e_data e) = Some (g, name, d) \<and>
     a = \<lparr> au_guid = g, au_variable = name, au_data = d \<rparr>)"

abbreviation of_kind :: "u32 \<Rightarrow> Event list \<Rightarrow> Event list" where
  "of_kind k es \<equiv> filter (\<lambda>e. e_kind e = k) es"

lemma read_configuration_fields [simp]:
  "unverified (read_configuration d out) = unverified out" "actions (read_configuration d out) = actions out"
  "authorities (read_configuration d out) = authorities out"
  "separator_errors (read_configuration d out) = separator_errors out" "extraneous (read_configuration d out) = extraneous out"
  by (simp_all add: read_configuration_def Let_def split: option.split prod.split)

lemma read_authority_fields [simp]:
  "unverified (read_authority d out) = unverified out" "actions (read_authority d out) = actions out"
  "configuration (read_authority d out) = configuration out"
  "separator_errors (read_authority d out) = separator_errors out" "extraneous (read_authority d out) = extraneous out"
  by (simp_all add: read_authority_def split: option.split prod.split)

lemma read_configuration_cases:
  assumes "malformed (read_configuration (e_data e) out) = malformed out"
  shows "\<exists>s. is_setting e s \<and> configuration (read_configuration (e_data e) out) = configuration out @ [s]"
proof (cases "variable (e_data e)")
  case (Some v)
  obtain g name d where "v = (g, name, d)" by (cases v)
  with Some show ?thesis by (auto simp: read_configuration_def is_setting_def Let_def)
qed (use assms in \<open>simp add: read_configuration_def\<close>)

lemma read_authority_cases:
  assumes "malformed (read_authority (e_data e) out) = malformed out"
  shows "\<exists>a. is_authority e a \<and> authorities (read_authority (e_data e) out) = authorities out @ [a]"
proof (cases "variable (e_data e)")
  case (Some v)
  obtain g name d where "v = (g, name, d)" by (cases v)
  with Some show ?thesis by (auto simp: read_authority_def is_authority_def)
qed (use assms in \<open>simp add: read_authority_def\<close>)

lemma malformed_grows [simp]:
  "malformed out \<le> malformed (read_configuration d out)" "malformed out \<le> malformed (read_authority d out)"
  by (simp_all add: read_configuration_def read_authority_def Let_def split: option.split prod.split)

lemma kind_facts:
  "EV_EFI_VARIABLE_AUTHORITY \<noteq> EV_EFI_VARIABLE_DRIVER_CONFIG" "EV_EFI_ACTION \<noteq> EV_EFI_VARIABLE_DRIVER_CONFIG"
  "EV_EFI_ACTION \<noteq> EV_EFI_VARIABLE_AUTHORITY"
  by (simp_all add: event_kinds)

lemma error_separator_kind:
  "error_separator sha256 e \<Longrightarrow> e_kind e \<noteq> EV_EFI_VARIABLE_DRIVER_CONFIG \<and> e_kind e \<noteq> EV_EFI_VARIABLE_AUTHORITY \<and>
     e_kind e \<noteq> EV_EFI_ACTION"
  by (auto simp: error_separator_def event_kinds)

lemma read_event_unverified [simp]: "unverified (read_event sha256 e out) = unverified out"
  by (simp add: read_event_def)

lemma read_event_malformed: "malformed out \<le> malformed (read_event sha256 e out)"
  by (simp add: read_event_def)

lemma read_event_actions:
  "actions (read_event sha256 e out) = actions out @ (if e_kind e = EV_EFI_ACTION then [action_text (e_data e)] else [])"
  by (simp add: read_event_def kind_facts)

lemma read_event_configuration:
  assumes "malformed (read_event sha256 e out) = malformed out"
  shows "if e_kind e = EV_EFI_VARIABLE_DRIVER_CONFIG
    then \<exists>s. is_setting e s \<and> configuration (read_event sha256 e out) = configuration out @ [s]
    else configuration (read_event sha256 e out) = configuration out"
proof (cases "e_kind e = EV_EFI_VARIABLE_DRIVER_CONFIG")
  case True
  then have "read_event sha256 e out = read_configuration (e_data e) out" by (simp add: read_event_def)
  with assms True read_configuration_cases [of e out] show ?thesis by simp
qed (simp add: read_event_def)

lemma read_event_authorities:
  assumes "malformed (read_event sha256 e out) = malformed out"
  shows "if e_kind e = EV_EFI_VARIABLE_AUTHORITY
    then \<exists>a. is_authority e a \<and> authorities (read_event sha256 e out) = authorities out @ [a]
    else authorities (read_event sha256 e out) = authorities out"
proof (cases "e_kind e = EV_EFI_VARIABLE_AUTHORITY")
  case True
  then have "read_event sha256 e out = read_authority (e_data e) out" by (simp add: read_event_def kind_facts)
  with assms True read_authority_cases [of e out] show ?thesis by simp
qed (simp add: read_event_def)

lemma read_event_separator_errors:
  "separator_errors (read_event sha256 e out) = separator_errors out + (if error_separator sha256 e then 1 else 0)"
  using error_separator_kind [of sha256 e] by (auto simp: read_event_def)

lemma read_event_extraneous:
  "extraneous (read_event sha256 e out) = extraneous out + (if e_kind e = EV_EFI_BOOT_SERVICES_APPLICATION \<or>
     e_kind e = EV_EFI_BOOT_SERVICES_DRIVER \<or> e_kind e = EV_EFI_RUNTIME_SERVICES_DRIVER then 1 else 0)"
proof (cases "e_kind e = EV_EFI_BOOT_SERVICES_APPLICATION \<or> e_kind e = EV_EFI_BOOT_SERVICES_DRIVER \<or>
    e_kind e = EV_EFI_RUNTIME_SERVICES_DRIVER")
  case True
  then have "e_kind e \<noteq> EV_EFI_VARIABLE_DRIVER_CONFIG" "e_kind e \<noteq> EV_EFI_VARIABLE_AUTHORITY" "e_kind e \<noteq> EV_EFI_ACTION"
    "e_kind e \<noteq> EV_SEPARATOR" by (auto simp: event_kinds)
  with True show ?thesis by (simp add: read_event_def error_separator_def)
qed (simp add: read_event_def)

lemmas read_event_counts = read_event_separator_errors read_event_extraneous

text \<open>The account after a list of events, field by field. A step changes the count of leading
  configuration and of unverified events before it reads the event.\<close>

definition account :: "(bytes \<Rightarrow> bytes) \<Rightarrow> Event list \<Rightarrow> Pcr7" where
  "account sha256 es = fst (foldl (pcr7_event sha256) (Pcr7_default, True) es)"

lemma account_Nil [simp]: "account sha256 [] = Pcr7_default"
  by (simp add: account_def)

lemma account_snoc:
  obtains out where "account sha256 (es @ [e]) = read_event sha256 e out"
    "malformed out = malformed (account sha256 es)" "actions out = actions (account sha256 es)"
    "configuration out = configuration (account sha256 es)" "authorities out = authorities (account sha256 es)"
    "separator_errors out = separator_errors (account sha256 es)" "extraneous out = extraneous (account sha256 es)"
    "unverified out = unverified (account sha256 es) + (if payload_unverified sha256 e then 1 else 0)"
  by (rule that [of "(let st = foldl (pcr7_event sha256) (Pcr7_default, True) es;
        out = (if snd st \<and> e_kind e = EV_EFI_VARIABLE_DRIVER_CONFIG
               then (fst st)\<lparr> leading_configuration := leading_configuration (fst st) + 1 \<rparr> else fst st)
        in if payload_unverified sha256 e then out\<lparr> unverified := unverified out + 1 \<rparr> else out)"])
    (simp_all add: account_def pcr7_event_def Let_def)

lemma account_facts:
  "unverified (account sha256 es) = length (filter (payload_unverified sha256) es)"
  "actions (account sha256 es) = map (action_text \<circ> e_data) (of_kind EV_EFI_ACTION es)"
  "separator_errors (account sha256 es) = length (filter (error_separator sha256) es)"
  "extraneous (account sha256 es) = length (filter (\<lambda>e. e_kind e = EV_EFI_BOOT_SERVICES_APPLICATION \<or>
     e_kind e = EV_EFI_BOOT_SERVICES_DRIVER \<or> e_kind e = EV_EFI_RUNTIME_SERVICES_DRIVER) es)"
proof -
  show "unverified (account sha256 es) = length (filter (payload_unverified sha256) es)"
  proof (induction es rule: rev_induct)
    case (snoc e es)
    show ?case by (rule account_snoc [of sha256 es e]) (use snoc in simp)
  qed (simp add: Pcr7_default_def)
  show "actions (account sha256 es) = map (action_text \<circ> e_data) (of_kind EV_EFI_ACTION es)"
  proof (induction es rule: rev_induct)
    case (snoc e es)
    show ?case by (rule account_snoc [of sha256 es e]) (use snoc in \<open>simp add: read_event_actions\<close>)
  qed (simp add: Pcr7_default_def)
  show "separator_errors (account sha256 es) = length (filter (error_separator sha256) es)"
  proof (induction es rule: rev_induct)
    case (snoc e es)
    show ?case by (rule account_snoc [of sha256 es e]) (use snoc in \<open>simp add: read_event_counts\<close>)
  qed (simp add: Pcr7_default_def)
  show "extraneous (account sha256 es) = length (filter (\<lambda>e. e_kind e = EV_EFI_BOOT_SERVICES_APPLICATION \<or>
     e_kind e = EV_EFI_BOOT_SERVICES_DRIVER \<or> e_kind e = EV_EFI_RUNTIME_SERVICES_DRIVER) es)"
  proof (induction es rule: rev_induct)
    case (snoc e es)
    show ?case by (rule account_snoc [of sha256 es e]) (use snoc in \<open>simp add: read_event_counts\<close>)
  qed (simp add: Pcr7_default_def)
qed

lemma account_lists:
  "malformed (account sha256 es) = 0 \<Longrightarrow>
    list_all2 is_setting (of_kind EV_EFI_VARIABLE_DRIVER_CONFIG es) (configuration (account sha256 es)) \<and>
    list_all2 is_authority (of_kind EV_EFI_VARIABLE_AUTHORITY es) (authorities (account sha256 es))"
proof (induction es rule: rev_induct)
  case Nil
  show ?case by (simp add: Pcr7_default_def)
next
  case (snoc e es)
  obtain out where out: "account sha256 (es @ [e]) = read_event sha256 e out"
    "malformed out = malformed (account sha256 es)"
    "configuration out = configuration (account sha256 es)" "authorities out = authorities (account sha256 es)"
    by (rule account_snoc)
  with snoc.prems read_event_malformed [of out sha256 e] have "malformed out = 0" "malformed (read_event sha256 e out) = 0"
    by simp_all
  with snoc.IH out read_event_configuration [of sha256 e out] read_event_authorities [of sha256 e out] show ?case
    by (auto split: if_splits intro: list_all2_appendI)
qed

section \<open>What the replayed value binds\<close>

definition collides :: "(bytes \<Rightarrow> bytes) \<Rightarrow> bool" where
  "collides sha256 \<longleftrightarrow> (\<exists>x y. x \<noteq> y \<and> sha256 x = sha256 y)"

definition reaches_zero :: "(bytes \<Rightarrow> bytes) \<Rightarrow> bool" where
  "reaches_zero sha256 \<longleftrightarrow> (\<exists>x. sha256 x = replicate 32 0)"

lemma replay_from_snoc:
  "replay_from sha256 v (es @ [e]) = (case replay_from sha256 v es of
     None \<Rightarrow> None | Some w \<Rightarrow> map_option (\<lambda>d. sha256 (w @ d)) (e_sha256 e))"
  by (induction es arbitrary: v) (auto split: option.split)

definition digests_32 :: "Event list \<Rightarrow> bool" where
  "digests_32 es \<longleftrightarrow> (\<forall>e\<in>set es. \<forall>d. e_sha256 e = Some d \<longrightarrow> length d = 32)"

lemma replay_binds_digests:
  assumes "replay_from sha256 (replicate 32 0) es = Some v" "replay_from sha256 (replicate 32 0) es' = Some v"
    and "digests_32 es" "digests_32 es'" "\<not> collides sha256" "\<not> reaches_zero sha256"
  shows "map e_sha256 es = map e_sha256 es'"
  using assms(1-4)
proof (induction es arbitrary: es' v rule: rev_induct)
  case Nil
  show ?case
  proof (cases es' rule: rev_cases)
    case (snoc ys y)
    with Nil.prems have "reaches_zero sha256"
      by (auto simp: replay_from_snoc reaches_zero_def split: option.splits)
    with assms(6) show ?thesis by simp
  qed simp
next
  case (snoc e es)
  from snoc.prems(1) obtain w d where w: "replay_from sha256 (replicate 32 0) es = Some w" "e_sha256 e = Some d"
    "v = sha256 (w @ d)" by (auto simp: replay_from_snoc split: option.splits)
  show ?case
  proof (cases es' rule: rev_cases)
    case Nil
    with snoc.prems(2) w have "reaches_zero sha256" by (auto simp: reaches_zero_def)
    with assms(6) show ?thesis by simp
  next
    case (snoc ys y)
    with snoc.prems(2) obtain w' d' where w': "replay_from sha256 (replicate 32 0) ys = Some w'" "e_sha256 y = Some d'"
      "v = sha256 (w' @ d')" by (auto simp: replay_from_snoc split: option.splits)
    have "w @ d = w' @ d'" using w(3) w'(3) assms(5) unfolding collides_def by metis
    moreover have "length d = 32" "length d' = 32"
      using snoc.prems(3,4) snoc w(2) w'(2) by (auto simp: digests_32_def)
    ultimately have "w = w'" "d = d'" by simp_all
    with snoc.IH [OF w(1), of ys] w' snoc.prems(3,4) snoc w(2) show ?thesis by (auto simp: digests_32_def)
  qed
qed

text \<open>Two events the account cannot tell apart.\<close>

definition reads_alike :: "(bytes \<Rightarrow> bytes) \<Rightarrow> Event \<Rightarrow> Event \<Rightarrow> bool" where
  "reads_alike sha256 e e' \<longleftrightarrow> e_kind e = e_kind e' \<and> e_sha256 e = e_sha256 e' \<and>
     (read_kind (e_kind e) \<and> \<not> error_separator sha256 e \<longrightarrow> e_data e = e_data e')"

lemma reads_alike_step:
  assumes "reads_alike sha256 e e'"
  shows "pcr7_event sha256 st e = pcr7_event sha256 st e'"
proof -
  have sep: "error_separator sha256 e = error_separator sha256 e'" and kind: "e_kind e = e_kind e'"
    and sha: "e_sha256 e = e_sha256 e'"
    using assms by (auto simp: reads_alike_def error_separator_def)
  have pay: "payload_unverified sha256 e = payload_unverified sha256 e'"
    using assms sep sha by (auto simp: payload_unverified_def reads_alike_def)
  have "read_event sha256 e out = read_event sha256 e' out" for out
  proof (cases "read_kind (e_kind e) \<and> \<not> error_separator sha256 e")
    case True
    with assms have "e_data e = e_data e'" by (simp add: reads_alike_def)
    with sep kind show ?thesis by (simp add: read_event_def)
  next
    case False
    then have "error_separator sha256 e \<or> \<not> read_kind (e_kind e)" by blast
    with sep kind error_separator_kind [of sha256 e] show ?thesis by (auto simp: read_event_def read_kind_def)
  qed
  with pay kind show ?thesis by (simp add: pcr7_event_def Let_def)
qed

lemma reads_alike_account: "list_all2 (reads_alike sha256) es es' \<Longrightarrow> account sha256 es = account sha256 es'"
proof -
  assume "list_all2 (reads_alike sha256) es es'"
  then have "foldl (pcr7_event sha256) st es = foldl (pcr7_event sha256) st es'" for st
    by (induction arbitrary: st rule: list_all2_induct) (auto simp: reads_alike_step)
  then show ?thesis by (simp add: account_def)
qed

lemma events_digests_32: "events log = Some (es, True) \<Longrightarrow> digests_32 (extended pcr es)"
  by (auto simp: events_complete digests_32_def extended_def view_def sha256_digest_def opt_32_def split: option.splits if_splits)

lemma verified_pcr7_Inr:
  assumes "verified_pcr7 sha256 log v = Inr p"
  obtains es where "events log = Some (es, True)" "replay_from sha256 (replicate 32 0) (extended 7 es) = Some v"
    "p = account sha256 (extended 7 es)" "unverified p = 0" "malformed p = 0"
  using assms
  by (auto simp: verified_pcr7_def replay_def pcr7_def account_def [symmetric] Let_def split: option.splits prod.splits if_splits)

lemma verified_payload:
  assumes "unverified (account sha256 es) = 0" "e \<in> set es" "read_kind (e_kind e)"
  shows "error_separator sha256 e \<or> e_sha256 e = Some (sha256 (e_data e))"
proof -
  from assms(1) have "filter (payload_unverified sha256) es = []" by (simp add: account_facts)
  with assms(2,3) show ?thesis by (auto simp: filter_empty_conv payload_unverified_def)
qed

text \<open>A log of one PCR 7 event: shim's record that its validation is disabled, under an event type
  to be chosen.\<close>

definition mok_name :: bytes where
  "mok_name = concat (map (\<lambda>c. [word_of_nat (of_char c), 0]) ''MokSBState'')"

definition mok_data :: bytes where
  "mok_data = SHIM_LOCK @ to_le 8 10 @ to_le 8 0 @ mok_name"

definition mok_header :: raw_header where
  "mok_header = \<lparr> h_platform = [0, 0, 0, 0], h_version = [0, 2, 0, 2], h_algorithms = [(TPM_ALG_SHA256, 32)], h_vendor = [] \<rparr>"

definition mok_event :: "(bytes \<Rightarrow> bytes) \<Rightarrow> u32 \<Rightarrow> raw_event" where
  "mok_event sha256 k = \<lparr> x_pcr = 7, x_kind = k, x_digests = [(TPM_ALG_SHA256, sha256 mok_data)], x_data = mok_data \<rparr>"

definition mok_log :: "(bytes \<Rightarrow> bytes) \<Rightarrow> u32 \<Rightarrow> bytes" where
  "mok_log sha256 k = enc_log mok_header [mok_event sha256 k]"

definition mok_value :: "(bytes \<Rightarrow> bytes) \<Rightarrow> bytes" where
  "mok_value sha256 = sha256 (replicate 32 0 @ sha256 mok_data)"

lemma mok_variable: "variable mok_data = Some (SHIM_LOCK, codes ''MokSBState'', [])"
proof -
  have u: "rd_u64 (to_le 8 10 @ t) = Some (10, t)" "rd_u64 (to_le 8 0 @ t) = Some (0, t)" for t
    using rd_word_Some(3) [of "to_le 8 10 @ t" 10 t] rd_word_Some(3) [of "to_le 8 0 @ t" 0 t] by simp_all
  have t: "rd_take 16 (SHIM_LOCK @ t) = Some (SHIM_LOCK, t)" "rd_take 20 mok_name = Some (mok_name, [])"
      "rd_take 0 [] = Some ([], [])" for t
    by (simp_all add: rd_take_def SHIM_LOCK_def guid_def mok_name_def)
  have n: "from_utf16 (chunks2 mok_name) = Some (codes ''MokSBState'')"
    by (simp add: mok_name_def codes_def)
  show ?thesis unfolding variable_def rd_bind_def mok_data_def
    by (simp add: u t n rd_require_def rd_return_def)
qed

lemma mok_events:
  assumes "\<And>x. length (sha256 x) = 32"
  shows "events (mok_log sha256 k) = Some ([\<lparr> e_pcr = 7, e_kind = k, e_sha256 = Some (sha256 mok_data), e_data = mok_data \<rparr>], True)"
proof -
  have "wf_header mok_header" by (simp add: wf_header_def mok_header_def)
  moreover have "wf_event (sizes_of mok_header) (mok_event sha256 k)"
    by (simp add: wf_event_def mok_event_def sizes_of_def mok_header_def assms mok_data_def SHIM_LOCK_def guid_def mok_name_def)
  moreover have "view (mok_event sha256 k) = \<lparr> e_pcr = 7, e_kind = k, e_sha256 = Some (sha256 mok_data), e_data = mok_data \<rparr>"
    by (simp add: view_def mok_event_def sha256_digest_def opt_32_def assms)
  ultimately show ?thesis
    unfolding events_complete mok_log_def
    by (intro exI [of _ mok_header] exI [of _ "[mok_event sha256 k]"]) (simp add: MAX_EVENTS_def)
qed

lemma mok_account:
  "account sha256 [\<lparr> e_pcr = 7, e_kind = EV_EFI_VARIABLE_AUTHORITY, e_sha256 = Some (sha256 mok_data), e_data = mok_data \<rparr>] =
     Pcr7_default\<lparr> authorities := [\<lparr> au_guid = SHIM_LOCK, au_variable = codes ''MokSBState'', au_data = [] \<rparr>] \<rparr>"
  "account sha256 [\<lparr> e_pcr = 7, e_kind = 0x1234, e_sha256 = Some (sha256 mok_data), e_data = mok_data \<rparr>] =
     Pcr7_default\<lparr> other_events := 1, other_kinds := [0x1234] \<rparr>"
  by (simp_all add: account_def pcr7_event_def read_event_def read_authority_def mok_variable payload_unverified_def read_kind_def
      error_separator_def event_kinds Pcr7_default_def MAX_OTHER_KINDS_def)

lemma mok_verified:
  assumes "\<And>x. length (sha256 x) = 32"
  shows "verified_pcr7 sha256 (mok_log sha256 EV_EFI_VARIABLE_AUTHORITY) (mok_value sha256) =
      Inr (Pcr7_default\<lparr> authorities := [\<lparr> au_guid = SHIM_LOCK, au_variable = codes ''MokSBState'', au_data = [] \<rparr>] \<rparr>)"
    and "verified_pcr7 sha256 (mok_log sha256 0x1234) (mok_value sha256) =
      Inr (Pcr7_default\<lparr> other_events := 1, other_kinds := [0x1234] \<rparr>)"
  using mok_account
  by (simp_all add: verified_pcr7_def mok_events [OF assms] replay_def extended_def pcr7_def account_def mok_value_def
      Let_def, simp_all add: event_kinds Pcr7_default_def)

section \<open>Properties\<close>

text \<open>C35: An admitted account of PCR 7 says what the log's PCR 7 events say, all of it: the log
  parses completely and replays to the value PCR 7 holds, every configuration, authority,
  action and separator event hashes to its digest (or is the error separator), and the
  account lists every configuration and authority variable and every action, in order, and
  counts every error separator and image load.\<close>

theorem admitted_account_is_complete:
  assumes "verified_pcr7 sha256 log value = Inr p"
  shows "\<exists>es. events log = Some (es, True) \<and> replay sha256 es 7 = Some value \<and>
    (\<forall>e\<in>set (extended 7 es). e_kind e \<in> {EV_EFI_VARIABLE_DRIVER_CONFIG, EV_SEPARATOR, EV_EFI_VARIABLE_AUTHORITY, EV_EFI_ACTION} \<longrightarrow>
       e_kind e = EV_SEPARATOR \<and> e_sha256 e = Some (sha256 (to_le 4 1)) \<or> e_sha256 e = Some (sha256 (e_data e))) \<and>
    list_all2 is_setting (of_kind EV_EFI_VARIABLE_DRIVER_CONFIG (extended 7 es)) (configuration p) \<and>
    list_all2 is_authority (of_kind EV_EFI_VARIABLE_AUTHORITY (extended 7 es)) (authorities p) \<and>
    actions p = map (action_text \<circ> e_data) (of_kind EV_EFI_ACTION (extended 7 es)) \<and>
    separator_errors p = length (filter (error_separator sha256) (extended 7 es)) \<and>
    extraneous p = length (filter (\<lambda>e. e_kind e = EV_EFI_BOOT_SERVICES_APPLICATION \<or>
      e_kind e = EV_EFI_BOOT_SERVICES_DRIVER \<or> e_kind e = EV_EFI_RUNTIME_SERVICES_DRIVER) (extended 7 es))"
proof -
  from assms obtain es where es: "events log = Some (es, True)"
    "replay_from sha256 (replicate 32 0) (extended 7 es) = Some value" "p = account sha256 (extended 7 es)"
    "unverified p = 0" "malformed p = 0" by (rule verified_pcr7_Inr)
  have "e_kind e = EV_SEPARATOR \<and> e_sha256 e = Some (sha256 (to_le 4 1)) \<or> e_sha256 e = Some (sha256 (e_data e))"
    if "e \<in> set (extended 7 es)"
      "e_kind e \<in> {EV_EFI_VARIABLE_DRIVER_CONFIG, EV_SEPARATOR, EV_EFI_VARIABLE_AUTHORITY, EV_EFI_ACTION}" for e
    using verified_payload [OF es(4) [unfolded es(3)] that(1)] that(2) by (auto simp: read_kind_def error_separator_def)
  moreover note account_lists [OF es(5) [unfolded es(3)]]
  ultimately show ?thesis
    using es(1,2) unfolding es(3) by (intro exI [of _ es]) (simp add: replay_def account_facts)
qed

theorem admitted_account_is_complete_witness:
  "\<exists>es. events (mok_log (\<lambda>_. replicate 32 1) EV_EFI_VARIABLE_AUTHORITY) = Some (es, True) \<and>
    list_all2 is_authority (of_kind EV_EFI_VARIABLE_AUTHORITY (extended 7 es))
      [\<lparr> au_guid = SHIM_LOCK, au_variable = codes ''MokSBState'', au_data = [] \<rparr>]"
  using admitted_account_is_complete [OF mok_verified(1), of "\<lambda>_. replicate 32 1"] by auto

text \<open>The value PCR 7 holds, with the types of its events, determines the admitted account:
  two logs admitted for one value whose PCR 7 events have the same types give the same
  account, unless they exhibit two byte strings with one hash, or one that hashes to zero.\<close>

theorem value_determines_the_account:
  assumes "verified_pcr7 sha256 log v = Inr p" "verified_pcr7 sha256 log' v = Inr p'"
    and "events log = Some (es, b)" "events log' = Some (es', b')"
    and "map e_kind (extended 7 es) = map e_kind (extended 7 es')"
  shows "p = p' \<or> collides sha256 \<or> reaches_zero sha256"
proof (rule ccontr)
  assume "\<not> (p = p' \<or> collides sha256 \<or> reaches_zero sha256)"
  then have neq: "p \<noteq> p'" and nc: "\<not> collides sha256" "\<not> reaches_zero sha256" by simp_all
  let ?E = "extended 7 es" and ?E' = "extended 7 es'"
  from assms(1,3) have E: "events log = Some (es, True)" "replay_from sha256 (replicate 32 0) ?E = Some v"
    "p = account sha256 ?E" "unverified p = 0" by (auto elim!: verified_pcr7_Inr)
  from assms(2,4) have E': "events log' = Some (es', True)" "replay_from sha256 (replicate 32 0) ?E' = Some v"
    "p' = account sha256 ?E'" "unverified p' = 0" by (auto elim!: verified_pcr7_Inr)
  have sha: "map e_sha256 ?E = map e_sha256 ?E'"
    by (rule replay_binds_digests [OF E(2) E'(2) events_digests_32 [OF E(1)] events_digests_32 [OF E'(1)] nc])
  have "reads_alike sha256 (?E ! i) (?E' ! i)" if i: "i < length ?E" for i
  proof -
    from i sha have i': "i < length ?E'" by (metis length_map)
    have k: "e_kind (?E ! i) = e_kind (?E' ! i)" and s: "e_sha256 (?E ! i) = e_sha256 (?E' ! i)"
      using assms(5) sha i i' by (metis nth_map)+
    have "e_data (?E ! i) = e_data (?E' ! i)" if r: "read_kind (e_kind (?E ! i))" "\<not> error_separator sha256 (?E ! i)"
    proof -
      have "e_sha256 (?E ! i) = Some (sha256 (e_data (?E ! i)))"
        using verified_payload [of sha256 ?E "?E ! i"] E(3,4) i r by simp
      moreover have "\<not> error_separator sha256 (?E' ! i)" using r(2) k s by (simp add: error_separator_def)
      then have "e_sha256 (?E' ! i) = Some (sha256 (e_data (?E' ! i)))"
        using verified_payload [of sha256 ?E' "?E' ! i"] E'(3,4) i' r(1) k by simp
      ultimately show ?thesis using s nc(1) unfolding collides_def by (metis option.inject)
    qed
    with k s show ?thesis by (simp add: reads_alike_def)
  qed
  then have "list_all2 (reads_alike sha256) ?E ?E'" using sha by (metis length_map list_all2_all_nthI)
  then have "p = p'" unfolding E(3) E'(3) by (rule reads_alike_account)
  with neq show False ..
qed

theorem value_determines_the_account_witness:
  "verified_pcr7 (\<lambda>_. replicate 32 1) (mok_log (\<lambda>_. replicate 32 1) 0x1234) (mok_value (\<lambda>_. replicate 32 1)) =
     Inr (Pcr7_default\<lparr> other_events := 1, other_kinds := [0x1234] \<rparr>) \<and>
   (Pcr7_default\<lparr> other_events := 1, other_kinds := [0x1234] \<rparr> = Pcr7_default\<lparr> other_events := 1, other_kinds := [0x1234] \<rparr> \<or>
     collides (\<lambda>_. replicate 32 1) \<or> reaches_zero (\<lambda>_. replicate 32 1))"
proof
  have len: "length ((\<lambda>_. replicate 32 1) x) = 32" for x :: bytes by simp
  show v: "verified_pcr7 (\<lambda>_. replicate 32 1) (mok_log (\<lambda>_. replicate 32 1) 0x1234) (mok_value (\<lambda>_. replicate 32 1)) =
     Inr (Pcr7_default\<lparr> other_events := 1, other_kinds := [0x1234] \<rparr>)" by (rule mok_verified(2) [OF len])
  show "Pcr7_default\<lparr> other_events := 1, other_kinds := [0x1234] \<rparr> = Pcr7_default\<lparr> other_events := 1, other_kinds := [0x1234] \<rparr> \<or>
     collides (\<lambda>_. replicate 32 1) \<or> reaches_zero (\<lambda>_. replicate 32 1)"
    by (rule value_determines_the_account [OF v v mok_events [OF len] mok_events [OF len] refl])
qed

text \<open>The type of an event is taken on trust. Whatever the hash, a log that records shim's
  validation as disabled and a log that hides it behind an unknown event type are both
  admitted for the same PCR 7 value: only the count of unread events differs.\<close>

theorem event_types_are_not_bound:
  assumes "\<And>x. length (sha256 x) = 32"
  shows "\<exists>p p'. verified_pcr7 sha256 (mok_log sha256 EV_EFI_VARIABLE_AUTHORITY) (mok_value sha256) = Inr p \<and>
    verified_pcr7 sha256 (mok_log sha256 0x1234) (mok_value sha256) = Inr p' \<and>
    list_ex disables_validation (authorities p) \<and> authorities p' = [] \<and> other_events p' = 1"
  using mok_verified [OF assms] by (simp add: disables_validation_def Pcr7_default_def)

theorem event_types_are_not_bound_witness:
  "\<exists>p p'. verified_pcr7 (\<lambda>_. replicate 32 1) (mok_log (\<lambda>_. replicate 32 1) EV_EFI_VARIABLE_AUTHORITY)
      (mok_value (\<lambda>_. replicate 32 1)) = Inr p \<and>
    verified_pcr7 (\<lambda>_. replicate 32 1) (mok_log (\<lambda>_. replicate 32 1) 0x1234) (mok_value (\<lambda>_. replicate 32 1)) = Inr p' \<and>
    list_ex disables_validation (authorities p) \<and> authorities p' = [] \<and> other_events p' = 1"
  by (rule event_types_are_not_bound) simp

end
