(* ===== verification/Camera_Lease.thy ===== *)
theory Camera_Lease
  imports Rust_Text "HOL-Library.List_Lexorder" "HOL-Library.Char_ord"
begin

text \<open>
  The lease authority of the camera crate (\<^verbatim>\<open>irlume-camera/src/lease.rs\<close>): one table of the
  cameras in use and one of the waiting requests, under one mutex, with a condition variable.
  \<^verbatim>\<open>acquire\<close> is cut where it gives the mutex up: it registers, looks, and looks again after
  every wake-up until it is granted, refused or out of time. A world is the table with the
  threads inside \<^verbatim>\<open>acquire\<close> and the permits that are alive; its steps are taken by any thread
  in any order. Each operation also says whether it notified the condition variable.
\<close>

section \<open>Operations and errors\<close>

datatype CameraOperationKind =
  LeaseCapture | LeaseAuthentication | LeaseEnrollment | LeasePreview | LeaseDiagnostics | LeaseSetup

datatype CameraSessionState =
  Acquiring | Acquired | Configured | Streaming | Stopping | Released | ContinuityLost | Fault

datatype CameraLeaseError =
    DeadlineExpired (current_owner: "CameraOperationKind option")
  | TokenExhausted
  | Stale
  | UnknownEndpoint
  | SplitPhysicalCamera nat
  | Poisoned
  | InvalidTransition CameraSessionState CameraSessionState
  | EmptyKey
  | EndpointNotCovered
  | AmbiguousEndpointBinding
  | InvalidEndpoint string
  | SplitActivationDisabled
  | SplitRequiresSequential

text \<open>The split opt-in: a cell written at most once, read by the gate of a split acquisition.\<close>

definition latch_experimental_split_trust :: "bool \<Rightarrow> bool option \<Rightarrow> bool \<times> bool option" where
  "latch_experimental_split_trust enabled cell = (case cell of
      Some b \<Rightarrow> (b, Some b)
    | None \<Rightarrow> (enabled, Some enabled))"

definition experimental_split_trust :: "bool option \<Rightarrow> bool" where
  "experimental_split_trust cell = (case cell of Some b \<Rightarrow> b | None \<Rightarrow> False)"

fun split_trust_admitted :: "bool option \<Rightarrow> CameraOperationKind \<Rightarrow> bool" where
  "split_trust_admitted cell LeaseEnrollment = experimental_split_trust cell"
| "split_trust_admitted cell LeaseAuthentication = experimental_split_trust cell"
| "split_trust_admitted cell _ = False"

definition split_gate :: "bool option \<Rightarrow> CameraOperationKind \<Rightarrow> CameraLeaseError option" where
  "split_gate cell k =
     (if \<not> (k = LeaseDiagnostics \<or> k = LeaseSetup \<or> k = LeasePreview) \<and> \<not> split_trust_admitted cell k
      then Some SplitActivationDisabled else None)"

section \<open>The authority\<close>

type_synonym camera = string

record ActiveLease =
  al_token :: u64
  al_operation :: CameraOperationKind

record LeaseState =
  ls_token :: u64
  ls_waiter :: u64
  ls_active :: "camera \<rightharpoonup> ActiveLease"
  ls_waiters :: "(u64 \<times> camera list) list"

definition LeaseState_default :: LeaseState where
  "LeaseState_default = \<lparr> ls_token = 0, ls_waiter = 0, ls_active = Map.empty, ls_waiters = [] \<rparr>"

record AuthorityPermit =
  pm_token :: u64
  pm_keys :: "camera list"

definition lease_keys :: "camera list \<Rightarrow> camera list" where
  "lease_keys keys = sort_dedup keys"

text \<open>\<^verbatim>\<open>acquire\<close> up to its loop: the keys sorted and without repetition, and a place in the queue.\<close>

definition acquire_register :: "LeaseState \<Rightarrow> camera list \<Rightarrow> (CameraLeaseError + u64 \<times> camera list) \<times> LeaseState" where
  "acquire_register s requested =
     (let keys = lease_keys requested
      in if keys = [] then (Inl EmptyKey, s)
      else case checked_add (ls_waiter s) 1 of
          None \<Rightarrow> (Inl TokenExhausted, s)
        | Some waiter \<Rightarrow>
            (Inr (waiter, keys), s\<lparr> ls_waiter := waiter, ls_waiters := bt_update waiter keys (ls_waiters s) \<rparr>))"

definition earlier_conflict :: "LeaseState \<Rightarrow> u64 \<Rightarrow> camera list \<Rightarrow> bool" where
  "earlier_conflict s waiter keys =
     list_ex (\<lambda>(w, waiting). w < waiter \<and> list_ex (\<lambda>k. k \<in> set keys) waiting) (ls_waiters s)"

definition may_take :: "LeaseState \<Rightarrow> u64 \<Rightarrow> camera list \<Rightarrow> bool" where
  "may_take s waiter keys \<longleftrightarrow> \<not> earlier_conflict s waiter keys \<and> list_all (\<lambda>k. ls_active s k = None) keys"

text \<open>One turn of the loop, before the deadline is looked at: the answer, whether the condition
  variable was notified, and the state.\<close>

datatype look = Waits | Granted AuthorityPermit | Refused CameraLeaseError

definition activate :: "camera list \<Rightarrow> ActiveLease \<Rightarrow> (camera \<rightharpoonup> ActiveLease) \<Rightarrow> (camera \<rightharpoonup> ActiveLease)" where
  "activate keys l m = fold (\<lambda>k m. m(k \<mapsto> l)) keys m"

definition acquire_look :: "LeaseState \<Rightarrow> u64 \<Rightarrow> camera list \<Rightarrow> CameraOperationKind \<Rightarrow> look \<times> bool \<times> LeaseState" where
  "acquire_look s waiter keys operation =
     (if may_take s waiter keys
      then case checked_add (ls_token s) 1 of
          None \<Rightarrow> (Refused TokenExhausted, True, s\<lparr> ls_waiters := bt_remove waiter (ls_waiters s) \<rparr>)
        | Some token \<Rightarrow>
            (Granted \<lparr> pm_token = token, pm_keys = keys \<rparr>, False,
             s\<lparr> ls_token := token, ls_waiters := bt_remove waiter (ls_waiters s),
                ls_active := activate keys \<lparr> al_token = token, al_operation = operation \<rparr> (ls_active s) \<rparr>)
      else (Waits, False, s))"

text \<open>The two ways out on the deadline are the same statements.\<close>

definition acquire_expire :: "LeaseState \<Rightarrow> u64 \<Rightarrow> camera list \<Rightarrow> CameraLeaseError \<times> bool \<times> LeaseState" where
  "acquire_expire s waiter keys =
     (DeadlineExpired (find_map (\<lambda>k. map_option al_operation (ls_active s k)) keys), True,
      s\<lparr> ls_waiters := bt_remove waiter (ls_waiters s) \<rparr>)"

definition release_key :: "u64 \<Rightarrow> camera \<Rightarrow> (camera \<rightharpoonup> ActiveLease) \<Rightarrow> (camera \<rightharpoonup> ActiveLease)" where
  "release_key token k m = (case m k of
      Some a \<Rightarrow> if al_token a = token then m(k := None) else m
    | None \<Rightarrow> m)"

definition permit_drop :: "LeaseState \<Rightarrow> AuthorityPermit \<Rightarrow> bool \<times> LeaseState" where
  "permit_drop s p = (True, s\<lparr> ls_active := fold (release_key (pm_token p)) (pm_keys p) (ls_active s) \<rparr>)"

section \<open>Facts about the operations\<close>

lemma set_lease_keys [simp]: "set (lease_keys keys) = set keys"
  by (simp add: lease_keys_def)

lemma lease_keys_sorted: "sorted_wrt (<) (lease_keys keys)"
  by (simp add: lease_keys_def sort_dedup_strict)

lemma activate_apply: "activate keys l m k = (if k \<in> set keys then Some l else m k)"
  unfolding activate_def by (induction keys arbitrary: m) auto

lemma release_apply:
  "fold (release_key token) keys m k =
    (if k \<in> set keys \<and> (\<exists>a. m k = Some a \<and> al_token a = token) then None else m k)"
proof (induction keys arbitrary: m)
  case (Cons x keys)
  show ?case by (simp add: Cons.IH) (auto simp: release_key_def split: option.splits if_splits)
qed simp

lemma may_take_iff:
  "may_take s waiter keys \<longleftrightarrow>
    (\<forall>(w, ks)\<in>set (ls_waiters s). w < waiter \<longrightarrow> set ks \<inter> set keys = {}) \<and> (\<forall>k\<in>set keys. ls_active s k = None)"
  by (auto simp: may_take_def earlier_conflict_def list_ex_iff list_all_iff)

section \<open>Every interleaving\<close>

text \<open>A waiting thread is its number, its keys and its operation.\<close>

type_synonym waiting = "u64 \<times> camera list \<times> CameraOperationKind"

record lease_world =
  lw_state :: LeaseState
  lw_waiting :: "waiting set"
  lw_permits :: "AuthorityPermit set"

definition lease_start :: lease_world where
  "lease_start = \<lparr> lw_state = LeaseState_default, lw_waiting = {}, lw_permits = {} \<rparr>"

text \<open>A step, with whether it notified. A thread may run out of time whenever it waits: the
  timed wait reports that without another look.\<close>

inductive lease_step :: "lease_world \<Rightarrow> bool \<Rightarrow> lease_world \<Rightarrow> bool" where
  enter: "acquire_register (lw_state w) requested = (Inr (waiter, keys), s) \<Longrightarrow>
     lease_step w False (w\<lparr> lw_state := s, lw_waiting := insert (waiter, keys, op) (lw_waiting w) \<rparr>)"
| grant: "(waiter, keys, op) \<in> lw_waiting w \<Longrightarrow> acquire_look (lw_state w) waiter keys op = (Granted p, n, s) \<Longrightarrow>
     lease_step w n (w\<lparr> lw_state := s, lw_waiting := lw_waiting w - {(waiter, keys, op)},
       lw_permits := insert p (lw_permits w) \<rparr>)"
| refuse: "(waiter, keys, op) \<in> lw_waiting w \<Longrightarrow> acquire_look (lw_state w) waiter keys op = (Refused e, n, s) \<Longrightarrow>
     lease_step w n (w\<lparr> lw_state := s, lw_waiting := lw_waiting w - {(waiter, keys, op)} \<rparr>)"
| expire: "(waiter, keys, op) \<in> lw_waiting w \<Longrightarrow> acquire_expire (lw_state w) waiter keys = (e, n, s) \<Longrightarrow>
     lease_step w n (w\<lparr> lw_state := s, lw_waiting := lw_waiting w - {(waiter, keys, op)} \<rparr>)"
| drop: "p \<in> lw_permits w \<Longrightarrow> permit_drop (lw_state w) p = (n, s) \<Longrightarrow>
     lease_step w n (w\<lparr> lw_state := s, lw_permits := lw_permits w - {p} \<rparr>)"

definition lease_moves :: "lease_world \<Rightarrow> lease_world \<Rightarrow> bool" where
  "lease_moves w w' \<longleftrightarrow> (\<exists>n. lease_step w n w')"

text \<open>The invariant: the queue holds exactly the waiting threads, each under its own number, and
  the table of cameras in use is exactly what the live permits cover.\<close>

definition queued :: "waiting \<Rightarrow> u64 \<times> camera list" where
  "queued t = (fst t, fst (snd t))"

definition queue_ok :: "lease_world \<Rightarrow> bool" where
  "queue_ok w \<longleftrightarrow> bt_ok (ls_waiters (lw_state w)) \<and>
     set (ls_waiters (lw_state w)) = queued ` lw_waiting w \<and>
     inj_on fst (lw_waiting w) \<and> (\<forall>t\<in>lw_waiting w. fst t \<le> ls_waiter (lw_state w))"

definition table_ok :: "lease_world \<Rightarrow> bool" where
  "table_ok w \<longleftrightarrow>
     (\<forall>p\<in>lw_permits w. pm_token p \<le> ls_token (lw_state w) \<and>
        (\<forall>k\<in>set (pm_keys p). \<exists>a. ls_active (lw_state w) k = Some a \<and> al_token a = pm_token p)) \<and>
     inj_on pm_token (lw_permits w) \<and>
     (\<forall>k a. ls_active (lw_state w) k = Some a \<longrightarrow> (\<exists>p\<in>lw_permits w. k \<in> set (pm_keys p) \<and> pm_token p = al_token a))"

definition lease_inv :: "lease_world \<Rightarrow> bool" where
  "lease_inv w \<longleftrightarrow> queue_ok w \<and> table_ok w"

lemma queue_leave:
  assumes "queue_ok w" "t \<in> lw_waiting w"
    and "ls_waiters s = bt_remove (fst t) (ls_waiters (lw_state w))" "ls_waiter s = ls_waiter (lw_state w)"
  shows "queue_ok (w\<lparr> lw_state := s, lw_waiting := lw_waiting w - {t} \<rparr>)"
proof -
  have "queued ` (lw_waiting w - {t}) = {e \<in> queued ` lw_waiting w. fst e \<noteq> fst t}"
  proof (intro set_eqI iffI)
    fix e assume "e \<in> queued ` (lw_waiting w - {t})"
    then obtain u where u: "u \<in> lw_waiting w" "u \<noteq> t" "e = queued u" by blast
    then have "fst u \<noteq> fst t" using assms(1,2) by (auto simp: queue_ok_def dest: inj_onD)
    with u show "e \<in> {e \<in> queued ` lw_waiting w. fst e \<noteq> fst t}" by (auto simp: queued_def)
  qed (auto simp: queued_def)
  moreover have "inj_on fst (lw_waiting w - {t})"
    using assms(1) by (auto simp: queue_ok_def intro: inj_on_subset)
  ultimately show ?thesis
    using assms by (auto simp: queue_ok_def bt_remove_set bt_ok_remove)
qed

lemma queue_enter:
  assumes "queue_ok w" "acquire_register (lw_state w) requested = (Inr (waiter, keys), s)"
  shows "queue_ok (w\<lparr> lw_state := s, lw_waiting := insert (waiter, keys, op) (lw_waiting w) \<rparr>)"
proof -
  from assms(2) have add: "checked_add (ls_waiter (lw_state w)) 1 = Some waiter"
    and s: "s = (lw_state w)\<lparr> ls_waiter := waiter, ls_waiters := bt_update waiter keys (ls_waiters (lw_state w)) \<rparr>"
    by (auto simp: acquire_register_def Let_def split: if_splits option.splits)
  have less: "ls_waiter (lw_state w) < waiter" using checked_add_SomeD(1) [OF add] by (simp add: word_less_nat_alt)
  have fresh: "fst t < waiter" if "t \<in> lw_waiting w" for t using assms(1) that less by (auto simp: queue_ok_def)
  then have new: "waiter \<notin> fst ` lw_waiting w" by force
  then have "\<forall>t\<in>lw_waiting w. fst (queued t) \<noteq> waiter" by (force simp: queued_def)
  then have "{e \<in> set (ls_waiters (lw_state w)). fst e \<noteq> waiter} = queued ` lw_waiting w"
    using assms(1) by (auto simp: queue_ok_def)
  moreover have "inj_on fst (insert (waiter, keys, op) (lw_waiting w))"
    using assms(1) new by (auto simp: queue_ok_def)
  moreover have "fst t \<le> waiter" if "t \<in> lw_waiting w" for t using fresh [OF that] by simp
  ultimately show ?thesis
    using assms(1) unfolding s by (auto simp: queue_ok_def bt_update_set bt_ok_update queued_def)
qed

text \<open>What a grant changes: nothing the waiting threads could be waiting for becomes free.\<close>

lemma look_Granted:
  assumes "acquire_look s waiter keys op = (Granted p, n, s')"
  shows "may_take s waiter keys" "checked_add (ls_token s) 1 = Some (pm_token p)" "pm_keys p = keys" "\<not> n"
    "ls_waiters s' = bt_remove waiter (ls_waiters s)" "ls_waiter s' = ls_waiter s" "ls_token s' = pm_token p"
    "ls_active s' = activate keys \<lparr> al_token = pm_token p, al_operation = op \<rparr> (ls_active s)"
  using assms by (auto simp: acquire_look_def split: if_splits option.splits)

lemma look_Refused:
  assumes "acquire_look s waiter keys op = (Refused e, n, s')"
  shows "n" "s' = s\<lparr> ls_waiters := bt_remove waiter (ls_waiters s) \<rparr>"
  using assms by (auto simp: acquire_look_def split: if_splits option.splits)

lemma table_grant:
  assumes inv: "table_ok w" and look: "acquire_look (lw_state w) waiter keys op = (Granted p, n, s)"
  shows "table_ok (w\<lparr> lw_state := s, lw_waiting := W, lw_permits := insert p (lw_permits w) \<rparr>)"
proof -
  note l = look_Granted [OF look]
  have less: "ls_token (lw_state w) < pm_token p" using checked_add_SomeD(1) [OF l(2)] by (simp add: word_less_nat_alt)
  have old: "pm_token q < pm_token p" if "q \<in> lw_permits w" for q using inv that less by (auto simp: table_ok_def)
  have free: "ls_active (lw_state w) k = None" if "k \<in> set keys" for k using l(1) that by (simp add: may_take_iff)
  have "\<exists>a. ls_active s k = Some a \<and> al_token a = pm_token q" if "q \<in> insert p (lw_permits w)" "k \<in> set (pm_keys q)" for q k
  proof (cases "q = p")
    case True
    with that l(3) show ?thesis unfolding l(8) activate_apply by simp
  next
    case False
    with that inv obtain a where a: "ls_active (lw_state w) k = Some a" "al_token a = pm_token q"
      unfolding table_ok_def by blast
    with free have "k \<notin> set keys" by force
    with a show ?thesis unfolding l(8) activate_apply by simp
  qed
  moreover have "\<exists>q\<in>insert p (lw_permits w). k \<in> set (pm_keys q) \<and> pm_token q = al_token a" if "ls_active s k = Some a" for k a
    using that inv l(3) unfolding l(8) activate_apply by (auto simp: table_ok_def split: if_splits)
  moreover have "pm_token p \<notin> pm_token ` lw_permits w" using old by force
  then have "inj_on pm_token (insert p (lw_permits w))" using inv by (auto simp: table_ok_def)
  moreover have "pm_token q \<le> ls_token s" if "q \<in> insert p (lw_permits w)" for q
    using that old l(7) by (auto intro: less_imp_le)
  ultimately show ?thesis by (simp add: table_ok_def)
qed

lemma table_drop:
  assumes inv: "table_ok w" and p: "p \<in> lw_permits w"
  shows "table_ok (w\<lparr> lw_state := snd (permit_drop (lw_state w) p), lw_permits := lw_permits w - {p} \<rparr>)"
proof -
  have other: "pm_token q \<noteq> pm_token p" if "q \<in> lw_permits w - {p}" for q
    using inv p that by (auto simp: table_ok_def dest: inj_onD)
  have "\<exists>a. ls_active (snd (permit_drop (lw_state w) p)) k = Some a \<and> al_token a = pm_token q"
    if "q \<in> lw_permits w - {p}" "k \<in> set (pm_keys q)" for q k
    using inv that other [OF that(1)] by (fastforce simp: table_ok_def permit_drop_def release_apply)
  moreover have "\<exists>q\<in>lw_permits w - {p}. k \<in> set (pm_keys q) \<and> pm_token q = al_token a"
    if "ls_active (snd (permit_drop (lw_state w) p)) k = Some a" for k a
    using inv that by (fastforce simp: table_ok_def permit_drop_def release_apply split: if_splits)
  moreover have "inj_on pm_token (lw_permits w - {p})"
    using inv by (auto simp: table_ok_def intro: inj_on_subset)
  ultimately show ?thesis using inv by (simp add: table_ok_def permit_drop_def)
qed

lemma lease_inv_step: "lease_step w n w' \<Longrightarrow> lease_inv w \<Longrightarrow> lease_inv w'"
proof (induction rule: lease_step.induct)
  case (enter w requested waiter keys s op)
  then have "ls_active s = ls_active (lw_state w)" "ls_token s = ls_token (lw_state w)"
    by (auto simp: acquire_register_def Let_def split: if_splits option.splits)
  with enter show ?case by (simp add: lease_inv_def queue_enter) (simp add: table_ok_def)
next
  case (grant waiter keys op w p n s)
  note l = look_Granted [OF grant.hyps(2)]
  have "queue_ok (w\<lparr> lw_state := s, lw_waiting := lw_waiting w - {(waiter, keys, op)} \<rparr>)"
    using grant.prems grant.hyps(1) l(5,6) by (intro queue_leave) (simp_all add: lease_inv_def)
  then have "queue_ok (w\<lparr> lw_state := s, lw_waiting := lw_waiting w - {(waiter, keys, op)}, lw_permits := insert p (lw_permits w) \<rparr>)"
    by (simp add: queue_ok_def)
  then show ?case using table_grant [OF _ grant.hyps(2)] grant.prems by (simp add: lease_inv_def)
next
  case (refuse waiter keys op w e n s)
  then show ?case using queue_leave [OF _ refuse.hyps(1), of s] look_Refused(2) [OF refuse.hyps(2)]
    by (simp add: lease_inv_def) (simp add: table_ok_def)
next
  case (expire waiter keys op w e n s)
  then have "s = (lw_state w)\<lparr> ls_waiters := bt_remove waiter (ls_waiters (lw_state w)) \<rparr>"
    by (simp add: acquire_expire_def)
  with expire show ?case using queue_leave [OF _ expire.hyps(1), of s]
    by (simp add: lease_inv_def) (simp add: table_ok_def)
next
  case (drop p w n s)
  then have s: "s = snd (permit_drop (lw_state w) p)" by simp
  have "queue_ok (w\<lparr> lw_state := s, lw_permits := lw_permits w - {p} \<rparr>)"
    using drop.prems by (simp add: s lease_inv_def queue_ok_def permit_drop_def)
  with drop table_drop [of w p] show ?case by (simp add: lease_inv_def s)
qed

interpretation leases: transition_system "\<lambda>w. w = lease_start" lease_moves lease_inv
proof
  show "lease_inv w" if "w = lease_start" for w
    using that by (simp add: lease_inv_def queue_ok_def table_ok_def lease_start_def LeaseState_default_def bt_ok_def)
  show "lease_inv w'" if "lease_moves w w'" "lease_inv w" for w w'
    using that by (auto simp: lease_moves_def lease_inv_step)
qed

text \<open>What the invariant says of one permit and of one waiting thread.\<close>

lemma table_holds:
  "table_ok w \<Longrightarrow> p \<in> lw_permits w \<Longrightarrow> k \<in> set (pm_keys p) \<Longrightarrow>
    map_option al_token (ls_active (lw_state w) k) = Some (pm_token p)"
  unfolding table_ok_def by fastforce

lemma table_free:
  assumes "table_ok w"
  shows "ls_active (lw_state w) k = None \<longleftrightarrow> (\<forall>p\<in>lw_permits w. k \<notin> set (pm_keys p))"
proof
  assume "ls_active (lw_state w) k = None"
  then show "\<forall>p\<in>lw_permits w. k \<notin> set (pm_keys p)" using table_holds [OF assms] by fastforce
next
  assume "\<forall>p\<in>lw_permits w. k \<notin> set (pm_keys p)"
  then show "ls_active (lw_state w) k = None"
    using assms unfolding table_ok_def by (meson not_None_eq)
qed

lemma may_take_waiting:
  assumes "queue_ok w"
  shows "may_take (lw_state w) i ks \<longleftrightarrow>
    (\<forall>t\<in>lw_waiting w. fst t < i \<longrightarrow> set (fst (snd t)) \<inter> set ks = {}) \<and> (\<forall>k\<in>set ks. ls_active (lw_state w) k = None)"
  using assms by (auto simp: may_take_iff queue_ok_def queued_def)

lemma queue_finite: "queue_ok w \<Longrightarrow> finite (lw_waiting w)"
proof -
  assume q: "queue_ok w"
  then have "inj_on queued (lw_waiting w)"
    by (auto simp: queue_ok_def queued_def inj_on_def)
  moreover have "finite (queued ` lw_waiting w)" using q unfolding queue_ok_def by (metis List.finite_set)
  ultimately show ?thesis by (rule finite_imageD [rotated])
qed

text \<open>A run: one request takes a camera, a second one waits for it, the first permit is dropped.\<close>

definition run_entered :: lease_world where
  "run_entered = \<lparr> lw_state = \<lparr> ls_token = 0, ls_waiter = 1, ls_active = Map.empty, ls_waiters = [(1, [''cam''])] \<rparr>,
     lw_waiting = {(1, [''cam''], LeasePreview)}, lw_permits = {} \<rparr>"

definition run_granted :: lease_world where
  "run_granted = \<lparr> lw_state = \<lparr> ls_token = 1, ls_waiter = 1,
       ls_active = [''cam'' \<mapsto> \<lparr> al_token = 1, al_operation = LeasePreview \<rparr>], ls_waiters = [] \<rparr>,
     lw_waiting = {}, lw_permits = {\<lparr> pm_token = 1, pm_keys = [''cam''] \<rparr>} \<rparr>"

definition run_waiting :: lease_world where
  "run_waiting = run_granted\<lparr> lw_state := (lw_state run_granted)\<lparr> ls_waiter := 2, ls_waiters := [(2, [''cam''])] \<rparr>,
     lw_waiting := {(2, [''cam''], LeaseAuthentication)} \<rparr>"

definition run_dropped :: lease_world where
  "run_dropped = run_waiting\<lparr> lw_state := (lw_state run_waiting)\<lparr> ls_active := Map.empty \<rparr>, lw_permits := {} \<rparr>"

lemma run_steps:
  "lease_step lease_start False run_entered" "lease_step run_entered False run_granted"
  "lease_step run_granted False run_waiting" "lease_step run_waiting True run_dropped"
proof -
  have "acquire_register (lw_state lease_start) [''cam''] = (Inr (1, [''cam'']), lw_state run_entered)"
    by (simp add: acquire_register_def Let_def lease_keys_def sort_dedup_def lease_start_def LeaseState_default_def run_entered_def checked_add_one)
  from lease_step.enter [OF this, of LeasePreview] show "lease_step lease_start False run_entered"
    by (simp add: lease_start_def run_entered_def)
  have "acquire_look (lw_state run_entered) 1 [''cam''] LeasePreview =
      (Granted \<lparr> pm_token = 1, pm_keys = [''cam''] \<rparr>, False, lw_state run_granted)"
    by (simp add: acquire_look_def may_take_def earlier_conflict_def run_entered_def run_granted_def checked_add_one
        activate_def bt_remove_def)
  from lease_step.grant [OF _ this] show "lease_step run_entered False run_granted"
    by (simp add: run_entered_def run_granted_def)
  have "acquire_register (lw_state run_granted) [''cam''] = (Inr (2, [''cam'']), lw_state run_waiting)"
    by (simp add: acquire_register_def Let_def lease_keys_def sort_dedup_def run_granted_def run_waiting_def checked_add_one)
  from lease_step.enter [OF this, of LeaseAuthentication] show "lease_step run_granted False run_waiting"
    by (simp add: run_granted_def run_waiting_def)
  have "permit_drop (lw_state run_waiting) \<lparr> pm_token = 1, pm_keys = [''cam''] \<rparr> = (True, lw_state run_dropped)"
    by (simp add: permit_drop_def release_key_def run_granted_def run_waiting_def run_dropped_def)
  from lease_step.drop [OF _ this] show "lease_step run_waiting True run_dropped"
    by (simp add: run_granted_def run_waiting_def run_dropped_def)
qed

lemma run_reachable: "rtranclp lease_moves lease_start run_waiting" "rtranclp lease_moves lease_start run_dropped"
proof -
  have moves: "lease_moves lease_start run_entered" "lease_moves run_entered run_granted"
    "lease_moves run_granted run_waiting" "lease_moves run_waiting run_dropped"
    using run_steps by (auto simp: lease_moves_def)
  show w: "rtranclp lease_moves lease_start run_waiting"
    using moves(1,2,3) by (intro rtranclp.rtrancl_into_rtrancl [OF rtranclp.rtrancl_into_rtrancl [OF r_into_rtranclp]])
  show "rtranclp lease_moves lease_start run_dropped" using w moves(4) by (rule rtranclp.rtrancl_into_rtrancl)
qed

section \<open>Properties\<close>

text \<open>C21: A camera is in use by at most one operation. In every reachable state of the authority no
  two live permits share a camera, and a camera is marked in use exactly while a live permit
  covers it, so nothing stays locked after its permit is gone.\<close>

theorem camera_has_one_holder:
  assumes "rtranclp lease_moves lease_start w"
  shows "(\<forall>p\<in>lw_permits w. \<forall>q\<in>lw_permits w. p \<noteq> q \<longrightarrow> set (pm_keys p) \<inter> set (pm_keys q) = {}) \<and>
    (\<forall>k. ls_active (lw_state w) k \<noteq> None \<longleftrightarrow> (\<exists>p\<in>lw_permits w. k \<in> set (pm_keys p)))"
proof -
  have inv: "table_ok w" using leases.inv_reachable [OF refl assms] by (simp add: lease_inv_def)
  have "set (pm_keys p) \<inter> set (pm_keys q) = {}" if "p \<in> lw_permits w" "q \<in> lw_permits w" "p \<noteq> q" for p q
  proof -
    have "pm_token p \<noteq> pm_token q" using inv that by (auto simp: table_ok_def dest: inj_onD)
    then show ?thesis using table_holds [OF inv that(1)] table_holds [OF inv that(2)] by (metis disjoint_iff option.inject)
  qed
  moreover have "ls_active (lw_state w) k \<noteq> None \<longleftrightarrow> (\<exists>p\<in>lw_permits w. k \<in> set (pm_keys p))" for k
    unfolding table_free [OF inv] by simp
  ultimately show ?thesis by blast
qed

theorem camera_has_one_holder_witness:
  "ls_active (lw_state run_waiting) ''cam'' \<noteq> None \<and> (\<exists>p\<in>lw_permits run_waiting. ''cam'' \<in> set (pm_keys p))"
proof -
  have "ls_active (lw_state run_waiting) ''cam'' \<noteq> None" by (simp add: run_waiting_def run_granted_def)
  with camera_has_one_holder [OF run_reachable(1)] show ?thesis by blast
qed

text \<open>C30: No wake-up is lost. If a step lets a waiting request go ahead that could not before,
  that step notified the condition variable: granting a lease does not, and need not, since
  the cameras it takes keep out exactly the requests its place in the queue kept out.\<close>

theorem unblocking_always_notifies:
  assumes "rtranclp lease_moves lease_start w" "lease_step w notified w'"
    and "(i, ks, op) \<in> lw_waiting w" "(i, ks, op) \<in> lw_waiting w'"
    and "\<not> may_take (lw_state w) i ks" "may_take (lw_state w') i ks"
  shows "notified"
proof -
  have inv: "lease_inv w" by (rule leases.inv_reachable [OF refl assms(1)])
  then have q: "queue_ok w" "queue_ok w'" using lease_inv_step [OF assms(2)] by (simp_all add: lease_inv_def)
  show ?thesis
    using assms(2)
  proof cases
    case (enter requested waiter keys s op')
    then have act: "ls_active s = ls_active (lw_state w)"
      by (auto simp: acquire_register_def Let_def split: if_splits option.splits)
    then show ?thesis using assms(5,6) enter(2) unfolding may_take_waiting [OF q(1)] may_take_waiting [OF q(2)] by simp
  next
    case (grant waiter keys op' p s)
    note l = look_Granted [OF grant(3)]
    have "ls_active s k = None \<longleftrightarrow> k \<notin> set keys \<and> ls_active (lw_state w) k = None" for k
      unfolding l(8) activate_apply by simp
    then show ?thesis
      using assms(5,6) grant(1,2) unfolding may_take_waiting [OF q(1)] may_take_waiting [OF q(2)] by fastforce
  next
    case refuse
    then show ?thesis using look_Refused(1) by metis
  next
    case expire
    then show ?thesis by (simp add: acquire_expire_def)
  next
    case drop
    then show ?thesis by (simp add: permit_drop_def)
  qed
qed

theorem unblocking_always_notifies_witness:
  "\<exists>notified. lease_step run_waiting notified run_dropped \<and> notified"
  using run_steps(4) unblocking_always_notifies [OF run_reachable(1) run_steps(4), of 2 "[''cam'']" LeaseAuthentication]
  by (auto simp: may_take_def earlier_conflict_def run_dropped_def run_waiting_def run_granted_def)

text \<open>Waiting requests are served in the order they came. A waiting request is granted, with
  all its cameras at once, exactly when no live permit covers one of them, no earlier waiting
  request wants one of them, and a token is left; so while tokens last and requests wait with
  no permit alive, one of them is granted at its next look.\<close>

theorem lease_queue_moves_in_order:
  assumes "rtranclp lease_moves lease_start w"
  shows "(\<forall>(i, ks, op)\<in>lw_waiting w.
      (\<exists>p n s. acquire_look (lw_state w) i ks op = (Granted p, n, s) \<and> pm_keys p = ks) \<longleftrightarrow>
      (\<forall>p\<in>lw_permits w. set ks \<inter> set (pm_keys p) = {}) \<and>
      (\<forall>(i', ks', op')\<in>lw_waiting w. i' < i \<longrightarrow> set ks \<inter> set ks' = {}) \<and> ls_token (lw_state w) \<noteq> - 1) \<and>
    (lw_waiting w \<noteq> {} \<and> lw_permits w = {} \<and> ls_token (lw_state w) \<noteq> - 1 \<longrightarrow>
      (\<exists>(i, ks, op)\<in>lw_waiting w. \<exists>p n s. acquire_look (lw_state w) i ks op = (Granted p, n, s)))"
proof -
  have inv: "queue_ok w" "table_ok w" using leases.inv_reachable [OF refl assms] by (simp_all add: lease_inv_def)
  have look: "(\<exists>p n s. acquire_look (lw_state w) i ks op = (Granted p, n, s) \<and> pm_keys p = ks) \<longleftrightarrow>
      may_take (lw_state w) i ks \<and> ls_token (lw_state w) \<noteq> - 1" for i ks op
    by (auto simp: acquire_look_def checked_add_one)
  have take: "may_take (lw_state w) i ks \<longleftrightarrow> (\<forall>p\<in>lw_permits w. set ks \<inter> set (pm_keys p) = {}) \<and>
      (\<forall>(i', ks', op')\<in>lw_waiting w. i' < i \<longrightarrow> set ks \<inter> set ks' = {})" for i ks
    unfolding may_take_waiting [OF inv(1)] table_free [OF inv(2)] by fastforce
  have "\<exists>(i, ks, op)\<in>lw_waiting w. \<exists>p n s. acquire_look (lw_state w) i ks op = (Granted p, n, s)"
    if w: "lw_waiting w \<noteq> {}" "lw_permits w = {}" "ls_token (lw_state w) \<noteq> - 1"
  proof -
    from queue_finite [OF inv(1)] w(1) obtain t where t: "t \<in> lw_waiting w" "\<forall>u\<in>lw_waiting w. fst t \<le> fst u"
      using ex_min_if_finite [of "fst ` lw_waiting w"] by (force simp: not_less)
    obtain i ks op where t': "t = (i, ks, op)" by (cases t) auto
    with t w(2) have "may_take (lw_state w) i ks" by (auto simp: take not_less [symmetric])
    with look [of i ks op] w(3) t(1) t' show ?thesis by blast
  qed
  then show ?thesis using look take by auto
qed

theorem lease_queue_moves_in_order_witness:
  "\<exists>(i, ks, op)\<in>lw_waiting run_dropped. \<exists>p n s. acquire_look (lw_state run_dropped) i ks op = (Granted p, n, s)"
proof -
  have "lw_waiting run_dropped \<noteq> {} \<and> lw_permits run_dropped = {} \<and> ls_token (lw_state run_dropped) \<noteq> - 1"
    by (simp add: run_dropped_def run_waiting_def run_granted_def)
  then show ?thesis using lease_queue_moves_in_order [OF run_reachable(2)] by blast
qed

end
