(* ===== verification/Camera_Types.thy ===== *)
theory Camera_Types
  imports Rust_Text "HOL-Library.List_Lexorder" "HOL-Library.Char_ord"
begin

text \<open>
  The camera evidence contracts (\<^verbatim>\<open>irlume-camera/src/contracts.rs\<close>) and the connection
  inventory as it is published to clients (\<^verbatim>\<open>irlume-common/src/live_camera.rs\<close>): the data
  with the checks their constructors make. Parsing from JSON is not modelled.
\<close>

section \<open>Camera evidence\<close>

datatype BackendKind = UvcV4l2

record PhysicalCameraId =
  topology_path :: string
  ph_serial :: "string option"

datatype IdentityStrength = Ambiguous
datatype StreamRole = StreamRgb | StreamIr
datatype SynchronizationProvenance =
  SyncUnknown | SyncIndependent | HostCorrelated | DeviceCorrelated | HardwareSynchronized
datatype IlluminationProvenance = IllumUnknown | IllumAmbient | ActiveIr

datatype CameraContractError =
    InputTooLarge nat nat
  | UnsupportedSchemaVersion u32
  | InvalidTopologyPath
  | EmptySerial
  | InvalidSerial
  | InvalidCameraInstanceId
  | ZeroGeneration
  | GenerationExhausted
  | DuplicateStreamRole StreamRole
  | DuplicateIllumination IlluminationProvenance
  | ActiveIrRequiresIrStream
  | SynchronizationRequiresMultipleStreams SynchronizationProvenance

definition MAX_TOPOLOGY_PATH_BYTES :: nat where "MAX_TOPOLOGY_PATH_BYTES = 4096"
definition MAX_SERIAL_BYTES :: nat where "MAX_SERIAL_BYTES = 256"
definition CAMERA_INSTANCE_ID_HEX_BYTES :: nat where "CAMERA_INSTANCE_ID_HEX_BYTES = 32"
definition CAMERA_CONTRACT_SCHEMA_VERSION :: u32 where "CAMERA_CONTRACT_SCHEMA_VERSION = 1"

definition validate_topology_path :: "string \<Rightarrow> CameraContractError option" where
  "validate_topology_path v =
     (if starts_with v ''/devices/'' \<and> \<not> (v \<noteq> [] \<and> last v = CHR ''/'') \<and> length v \<le> MAX_TOPOLOGY_PATH_BYTES \<and>
         list_all (\<lambda>c. of_char c < (128 :: nat)) v \<and> \<not> list_ex is_ascii_control v \<and>
         list_all (\<lambda>p. p \<noteq> [] \<and> p \<noteq> ''.'' \<and> p \<noteq> ''..'') (drop 1 (split_on (CHR ''/'') v))
      then None else Some InvalidTopologyPath)"

definition validate_serial :: "string option \<Rightarrow> CameraContractError option" where
  "validate_serial v = (case v of
      None \<Rightarrow> None
    | Some s \<Rightarrow>
        if trim (codes s) = [] then Some EmptySerial
        else if length s > MAX_SERIAL_BYTES \<or> has_control (codes s) then Some InvalidSerial
        else None)"

definition PhysicalCameraId_new :: "string \<Rightarrow> string option \<Rightarrow> CameraContractError + PhysicalCameraId" where
  "PhysicalCameraId_new path sn = (case validate_topology_path path of
      Some e \<Rightarrow> Inl e
    | None \<Rightarrow> (case validate_serial sn of
        Some e \<Rightarrow> Inl e
      | None \<Rightarrow> Inr \<lparr> topology_path = path, ph_serial = sn \<rparr>))"

type_synonym CameraInstanceId = string

definition lower_hex :: "char \<Rightarrow> bool" where
  "lower_hex c \<longleftrightarrow> (let b = of_char c :: nat in (48 \<le> b \<and> b \<le> 57) \<or> (97 \<le> b \<and> b \<le> 102))"

definition CameraInstanceId_new :: "string \<Rightarrow> CameraContractError + CameraInstanceId" where
  "CameraInstanceId_new v =
     (if length v = CAMERA_INSTANCE_ID_HEX_BYTES \<and> list_all lower_hex v \<and> list_ex (\<lambda>c. c \<noteq> CHR ''0'') v
      then Inr v else Inl InvalidCameraInstanceId)"

definition INITIAL :: u64 where "INITIAL = 1"

definition CameraGeneration_new :: "u64 \<Rightarrow> CameraContractError + u64" where
  "CameraGeneration_new v = (if v = 0 then Inl ZeroGeneration else Inr v)"

definition generation_next :: "u64 \<Rightarrow> CameraContractError + u64" where
  "generation_next g = (case checked_add g 1 of Some v \<Rightarrow> Inr v | None \<Rightarrow> Inl GenerationExhausted)"

record CameraCapabilities =
  stream_roles :: "StreamRole list"
  synchronization :: SynchronizationProvenance
  illumination_provenance :: "IlluminationProvenance list"

fun reject_duplicates :: "('a \<Rightarrow> CameraContractError) \<Rightarrow> 'a set \<Rightarrow> 'a list \<Rightarrow> CameraContractError option" where
  "reject_duplicates err seen [] = None"
| "reject_duplicates err seen (x # xs) =
     (if x \<in> seen then Some (err x) else reject_duplicates err (insert x seen) xs)"

definition CameraCapabilities_new ::
    "StreamRole list \<Rightarrow> SynchronizationProvenance \<Rightarrow> IlluminationProvenance list \<Rightarrow>
       CameraContractError + CameraCapabilities" where
  "CameraCapabilities_new rs sync ill =
     (case reject_duplicates DuplicateStreamRole {} rs of Some e \<Rightarrow> Inl e
    | None \<Rightarrow> (case reject_duplicates DuplicateIllumination {} ill of Some e \<Rightarrow> Inl e
    | None \<Rightarrow>
        if ActiveIr \<in> set ill \<and> StreamIr \<notin> set rs then Inl ActiveIrRequiresIrStream
        else if (sync = HostCorrelated \<or> sync = DeviceCorrelated \<or> sync = HardwareSynchronized) \<and> length rs < 2
        then Inl (SynchronizationRequiresMultipleStreams sync)
        else Inr \<lparr> stream_roles = rs, synchronization = sync, illumination_provenance = ill \<rparr>))"

record CameraDescriptor =
  schema_version :: u32
  cd_backend :: BackendKind
  cd_physical_id :: PhysicalCameraId
  identity_strength :: IdentityStrength
  camera_instance_id :: CameraInstanceId
  generation :: u64
  cd_capabilities :: CameraCapabilities

definition CameraDescriptor_new ::
    "BackendKind \<Rightarrow> PhysicalCameraId \<Rightarrow> CameraInstanceId \<Rightarrow> u64 \<Rightarrow> CameraCapabilities \<Rightarrow> CameraDescriptor" where
  "CameraDescriptor_new b ph inst gen caps =
     \<lparr> schema_version = CAMERA_CONTRACT_SCHEMA_VERSION, cd_backend = b, cd_physical_id = ph,
       identity_strength = Ambiguous, camera_instance_id = inst, generation = gen, cd_capabilities = caps \<rparr>"

record FrameMetadata =
  fm_schema_version :: u32
  fm_instance :: CameraInstanceId
  fm_generation :: u64
  fm_role :: StreamRole
  fm_sequence :: "u64 option"
  fm_synchronization :: SynchronizationProvenance
  fm_illumination :: IlluminationProvenance

definition FrameMetadata_new ::
    "CameraInstanceId \<Rightarrow> u64 \<Rightarrow> StreamRole \<Rightarrow> u64 option \<Rightarrow> SynchronizationProvenance \<Rightarrow> IlluminationProvenance \<Rightarrow>
       CameraContractError + FrameMetadata" where
  "FrameMetadata_new inst gen role sq sync ill =
     (if ill = ActiveIr \<and> role = StreamRgb then Inl ActiveIrRequiresIrStream
      else Inr \<lparr> fm_schema_version = CAMERA_CONTRACT_SCHEMA_VERSION, fm_instance = inst, fm_generation = gen,
        fm_role = role, fm_sequence = sq, fm_synchronization = sync, fm_illumination = ill \<rparr>)"

section \<open>The published inventory\<close>

definition MAX_CAMERA_CANDIDATES :: nat where "MAX_CAMERA_CANDIDATES = 32"
definition MAX_CAMERA_ENDPOINTS :: nat where "MAX_CAMERA_ENDPOINTS = 16"
definition MAX_CAMERA_ENDPOINT_BYTES :: nat where "MAX_CAMERA_ENDPOINT_BYTES = 96"

datatype CameraInventoryState = Uninitialized | Current | Refreshing | Unavailable
datatype CameraInventoryReason = Monitor | Snapshot | Inventory | Bounds | WorkerStopped

record CameraCandidate =
  ca_instance :: string
  ca_generation :: u64
  ca_endpoints :: "string list"

record CameraInventorySnapshot =
  sn_state :: CameraInventoryState
  sn_supervisor :: "string option"
  sn_revision :: u64
  sn_observed_ago_ms :: "u64 option"
  sn_reason :: "CameraInventoryReason option"
  sn_candidates :: "CameraCandidate list"

definition Snapshot_default :: CameraInventorySnapshot where
  "Snapshot_default = \<lparr> sn_state = Uninitialized, sn_supervisor = None, sn_revision = 0, sn_observed_ago_ms = None,
     sn_reason = None, sn_candidates = [] \<rparr>"

definition valid_id :: "string \<Rightarrow> bool" where
  "valid_id s \<longleftrightarrow> length s = 32 \<and> list_all lower_hex s \<and> list_ex (\<lambda>c. c \<noteq> CHR ''0'') s"

definition is_alphanumeric :: "char \<Rightarrow> bool" where
  "is_alphanumeric c \<longleftrightarrow>
     (let b = of_char c :: nat in (48 \<le> b \<and> b \<le> 57) \<or> (65 \<le> b \<and> b \<le> 90) \<or> (97 \<le> b \<and> b \<le> 122))"

definition valid_endpoint :: "string \<Rightarrow> bool" where
  "valid_endpoint path \<longleftrightarrow> starts_with path ''/dev/'' \<and>
     (let name = drop 5 path
      in name \<noteq> [] \<and> length path \<le> MAX_CAMERA_ENDPOINT_BYTES \<and>
         list_all (\<lambda>b. is_alphanumeric b \<or> b = CHR ''-'' \<or> b = CHR ''_'' \<or> b = CHR ''.'') name \<and>
         name \<noteq> ''.'' \<and> name \<noteq> ''..'')"

text \<open>The checks of \<^verbatim>\<open>validate\<close> in order: each path by itself, then against the earlier ones.\<close>

definition candidate_validate :: "CameraCandidate \<Rightarrow> string option" where
  "candidate_validate c =
     (if \<not> valid_id (ca_instance c) \<or> ca_generation c = 0 then Some ''invalid camera candidate identity''
      else if ca_endpoints c = [] \<or> length (ca_endpoints c) > MAX_CAMERA_ENDPOINTS then Some ''invalid camera endpoint count''
      else if list_all valid_endpoint (ca_endpoints c) \<and> distinct (ca_endpoints c) then None
      else Some ''invalid camera endpoint'')"

text \<open>The loop over the candidates, with the identities and endpoints seen so far. The set insertion
  stops at the first path already seen.\<close>

fun candidates_validate :: "string set \<Rightarrow> string set \<Rightarrow> CameraCandidate list \<Rightarrow> string option" where
  "candidates_validate ids eps [] = None"
| "candidates_validate ids eps (c # cs) = (case candidate_validate c of
      Some e \<Rightarrow> Some e
    | None \<Rightarrow>
        if ca_instance c \<in> ids \<or> \<not> distinct (ca_endpoints c) \<or> set (ca_endpoints c) \<inter> eps \<noteq> {}
        then Some ''duplicate camera identity or endpoint''
        else candidates_validate (insert (ca_instance c) ids) (set (ca_endpoints c) \<union> eps) cs)"

definition snapshot_validate :: "CameraInventorySnapshot \<Rightarrow> string option" where
  "snapshot_validate s =
     (if length (sn_candidates s) > MAX_CAMERA_CANDIDATES then Some ''too many camera candidates''
      else if (case sn_supervisor s of Some i \<Rightarrow> \<not> valid_id i | None \<Rightarrow> False)
      then Some ''invalid camera supervisor identity''
      else case candidates_validate {} {} (sn_candidates s) of
          Some e \<Rightarrow> Some e
        | None \<Rightarrow> (case sn_state s of
              Uninitialized \<Rightarrow>
                if sn_supervisor s \<noteq> None \<or> sn_revision s \<noteq> 0 \<or> sn_observed_ago_ms s \<noteq> None \<or> sn_reason s \<noteq> None \<or>
                   sn_candidates s \<noteq> []
                then Some ''invalid uninitialized camera inventory'' else None
            | Unavailable \<Rightarrow>
                if sn_reason s = None \<or> sn_candidates s \<noteq> [] then Some ''invalid unavailable camera inventory'' else None
            | _ \<Rightarrow>
                if sn_supervisor s = None \<or> sn_revision s = 0 \<or> sn_reason s \<noteq> None \<or>
                   (sn_state s = Current \<and> sn_observed_ago_ms s = None)
                then Some ''invalid published camera inventory'' else None))"

record CameraSelection =
  se_supervisor :: string
  se_candidate :: CameraCandidate

definition selection_validate :: "CameraSelection \<Rightarrow> string option" where
  "selection_validate s =
     (if \<not> valid_id (se_supervisor s) then Some ''invalid camera supervisor identity''
      else candidate_validate (se_candidate s))"

definition selection_matches :: "CameraSelection \<Rightarrow> CameraInventorySnapshot \<Rightarrow> string \<Rightarrow> string \<Rightarrow> bool" where
  "selection_matches s snap rgb ir \<longleftrightarrow>
     selection_validate s = None \<and> snapshot_validate snap = None \<and> sn_state snap = Current \<and>
     sn_supervisor snap = Some (se_supervisor s) \<and> se_candidate s \<in> set (sn_candidates snap) \<and> rgb \<noteq> ir \<and>
     rgb \<in> set (ca_endpoints (se_candidate s)) \<and> ir \<in> set (ca_endpoints (se_candidate s))"

record EnrollmentCameraChoice =
  ec_rgb :: string
  ec_ir :: string
  ec_expected :: CameraSelection

definition choice_validate :: "EnrollmentCameraChoice \<Rightarrow> string option" where
  "choice_validate c = (case selection_validate (ec_expected c) of
      Some e \<Rightarrow> Some e
    | None \<Rightarrow>
        if ec_rgb c = ec_ir c \<or> ec_rgb c \<notin> set (ca_endpoints (se_candidate (ec_expected c))) \<or>
           ec_ir c \<notin> set (ca_endpoints (se_candidate (ec_expected c)))
        then Some ''enrollment choice needs two distinct displayed endpoints'' else None)"

end
