(* ===== verification/Camera_Inventory.thy ===== *)
theory Camera_Inventory
  imports Camera_Types "HOL-Library.Product_Lexorder"
begin

text \<open>
  The supervisor's camera inventory (\<^verbatim>\<open>irlume-camera/src/inventory.rs\<close>): one entry per topology
  path, with an instance identifier and a generation that say which incarnation of the camera
  it is. A census replaces the entries (\<^verbatim>\<open>reconcile\<close>), events invalidate or retire them, and
  leases, snapshots and recorded roles refer to them. Fresh identifiers are drawn from the
  stream the random source gives, time is an argument, and every public method that changes
  the inventory is a step.
\<close>

section \<open>Observations and entries\<close>

datatype Role = RoleRgb | RoleIr | RoleOther
datatype RootHubDomain = Usb2 | SuperSpeed

record UsbLocation =
  ul_controller :: string
  ul_domain :: RootHubDomain
  ul_ports :: "u8 list"

record UsbDeviceFacts =
  vid_pid :: string
  us_fixed :: bool
  us_location :: "UsbLocation option"

record CameraObservation =
  ob_backend :: BackendKind
  ob_physical_id :: PhysicalCameraId
  ob_capabilities :: CameraCapabilities
  lifecycle_evidence :: "string list"
  endpoint_paths :: "string list"
  metadata_endpoints :: "string list"
  usb_device :: "UsbDeviceFacts option"

definition observation_with_endpoints ::
    "BackendKind \<Rightarrow> PhysicalCameraId \<Rightarrow> CameraCapabilities \<Rightarrow> string list \<Rightarrow> string list \<Rightarrow> CameraObservation" where
  "observation_with_endpoints b ph caps evidence endpoints =
     \<lparr> ob_backend = b, ob_physical_id = ph, ob_capabilities = caps, lifecycle_evidence = sort_dedup evidence,
       endpoint_paths = sort_dedup endpoints, metadata_endpoints = [], usb_device = None \<rparr>"

definition with_metadata_endpoints :: "string list \<Rightarrow> CameraObservation \<Rightarrow> CameraObservation" where
  "with_metadata_endpoints metadata ob =
     ob\<lparr> metadata_endpoints := sort_dedup (filter (\<lambda>p. p \<in> set (endpoint_paths ob)) metadata) \<rparr>"

definition with_usb_device :: "UsbDeviceFacts option \<Rightarrow> CameraObservation \<Rightarrow> CameraObservation" where
  "with_usb_device u ob = ob\<lparr> usb_device := u \<rparr>"

definition ob_topology :: "CameraObservation \<Rightarrow> string" where
  "ob_topology ob = topology_path (ob_physical_id ob)"

definition ob_descriptor :: "CameraObservation \<Rightarrow> CameraInstanceId \<Rightarrow> u64 \<Rightarrow> CameraDescriptor" where
  "ob_descriptor ob inst gen = CameraDescriptor_new (ob_backend ob) (ob_physical_id ob) inst gen (ob_capabilities ob)"

record InventoryEntry =
  en_observation :: CameraObservation
  en_descriptor :: CameraDescriptor

abbreviation en_instance :: "InventoryEntry \<Rightarrow> CameraInstanceId" where
  "en_instance e \<equiv> camera_instance_id (en_descriptor e)"

abbreviation en_generation :: "InventoryEntry \<Rightarrow> u64" where
  "en_generation e \<equiv> generation (en_descriptor e)"

datatype CameraInventoryEvent =
    CameraAdded CameraDescriptor
  | CameraChanged CameraDescriptor CameraDescriptor
  | CameraRemoved CameraDescriptor

fun event_descriptor :: "CameraInventoryEvent \<Rightarrow> CameraDescriptor" where
  "event_descriptor (CameraAdded d) = d"
| "event_descriptor (CameraChanged _ d) = d"
| "event_descriptor (CameraRemoved d) = d"

definition event_topology :: "CameraInventoryEvent \<Rightarrow> string" where
  "event_topology e = topology_path (cd_physical_id (event_descriptor e))"

fun phase_rank :: "CameraInventoryEvent \<Rightarrow> nat" where
  "phase_rank (CameraRemoved _) = 0"
| "phase_rank (CameraChanged _ _) = 1"
| "phase_rank (CameraAdded _) = 2"

datatype CameraInventoryError =
    DuplicateObservation string
  | ForeignInstance
  | UnknownCamera
  | SpansPhysicalCameras nat
  | InvRemoved
  | StaleGeneration
  | InvContinuityLost
  | DescriptorMismatch
  | InstanceIdExhausted
  | InvPoisoned

record CameraInventoryRef =
  rf_descriptor :: CameraDescriptor
  rf_evidence :: "string list"
  rf_endpoints :: "string list"

record EndpointGeneration =
  eg_supervisor :: CameraInstanceId
  eg_instance :: CameraInstanceId
  eg_generation :: u64

record RoleKey =
  rk_supervisor :: CameraInstanceId
  rk_instance :: CameraInstanceId
  rk_generation :: u64
  rk_endpoint :: string

section \<open>The inventory\<close>

text \<open>Time is in nanoseconds of the monotonic clock. \<open>ci_ids\<close> is what the random source answers, \<open>ci_drawn\<close> how many answers were used.\<close>

record CameraInventory =
  ci_active :: "(string \<times> InventoryEntry) list"
  ci_tombstones :: "string set"
  ci_retired :: "CameraInstanceId set"
  ci_invalidated :: "CameraInstanceId set"
  ci_ids :: "nat \<Rightarrow> CameraInstanceId"
  ci_drawn :: nat
  ci_supervisor :: CameraInstanceId
  ci_revision :: u64
  ci_state :: CameraInventoryState
  ci_reason :: "CameraInventoryReason option"
  ci_observed_at :: "nat option"
  ci_roles :: "RoleKey \<rightharpoonup> Role"

definition inventory_new :: "(nat \<Rightarrow> CameraInstanceId) \<Rightarrow> CameraInventory" where
  "inventory_new ids = \<lparr> ci_active = [], ci_tombstones = {}, ci_retired = {}, ci_invalidated = {}, ci_ids = ids,
     ci_drawn = 1, ci_supervisor = ids 0, ci_revision = 0, ci_state = Uninitialized, ci_reason = None,
     ci_observed_at = None, ci_roles = Map.empty \<rparr>"

definition advance_revision :: "CameraInventory \<Rightarrow> CameraInventory" where
  "advance_revision i = (case checked_add (ci_revision i) 1 of
      Some r \<Rightarrow> i\<lparr> ci_revision := r \<rparr>
    | None \<Rightarrow> i\<lparr> ci_supervisor := ci_ids i (ci_drawn i), ci_drawn := ci_drawn i + 1, ci_revision := 1 \<rparr>)"

definition mark_refreshing :: "CameraInventory \<Rightarrow> CameraInventory" where
  "mark_refreshing i = (if ci_state i \<noteq> Refreshing then advance_revision i else i)\<lparr> ci_state := Refreshing, ci_reason := None \<rparr>"

definition active_instances :: "CameraInventory \<Rightarrow> CameraInstanceId set" where
  "active_instances i = set (map (\<lambda>x. en_instance (snd x)) (ci_active i))"

text \<open>The entries a snapshot would publish.\<close>

definition published_entries :: "CameraInventory \<Rightarrow> InventoryEntry list" where
  "published_entries i =
     (let visible = (ci_state i = Current \<or> ci_state i = Refreshing)
      in filter (\<lambda>e. visible \<and> en_instance e \<notin> ci_invalidated i) (map snd (ci_active i)))"

definition entry_generation :: "CameraInventory \<Rightarrow> InventoryEntry \<Rightarrow> EndpointGeneration" where
  "entry_generation i e =
     \<lparr> eg_supervisor = ci_supervisor i, eg_instance = en_instance e, eg_generation = en_generation e \<rparr>"

definition endpoint_claims :: "CameraInventory \<Rightarrow> (string \<times> EndpointGeneration) list" where
  "endpoint_claims i =
     concat (map (\<lambda>e. map (\<lambda>p. (p, entry_generation i e)) (endpoint_paths (en_observation e))) (published_entries i))"

definition claim_endpoint ::
    "string \<times> EndpointGeneration \<Rightarrow> (string \<rightharpoonup> EndpointGeneration) \<times> string set \<Rightarrow>
       (string \<rightharpoonup> EndpointGeneration) \<times> string set" where
  "claim_endpoint c s = ((fst s)(fst c \<mapsto> snd c), if fst s (fst c) \<noteq> None then insert (fst c) (snd s) else snd s)"

definition endpoint_generations :: "CameraInventory \<Rightarrow> string \<rightharpoonup> EndpointGeneration" where
  "endpoint_generations i =
     (let (generations, contested) = fold claim_endpoint (endpoint_claims i) (Map.empty, {})
      in (\<lambda>p. if p \<in> contested then None else generations p))"

definition role_key :: "EndpointGeneration \<Rightarrow> string \<Rightarrow> RoleKey" where
  "role_key g endpoint = \<lparr> rk_supervisor = eg_supervisor g, rk_instance = eg_instance g,
     rk_generation = eg_generation g, rk_endpoint = endpoint \<rparr>"

definition record_role ::
    "(string \<rightharpoonup> EndpointGeneration) \<Rightarrow> (string \<rightharpoonup> EndpointGeneration) \<Rightarrow> string \<times> Role \<Rightarrow>
       (RoleKey \<rightharpoonup> Role) \<Rightarrow> (RoleKey \<rightharpoonup> Role)" where
  "record_role before after c roles = (case (before (fst c), after (fst c)) of
      (Some was, Some now) \<Rightarrow>
        if was \<noteq> now then roles
        else (let key = role_key now (fst c)
              in case roles key of
                  None \<Rightarrow> roles(key \<mapsto> snd c)
                | Some recorded \<Rightarrow> if recorded \<noteq> snd c then roles(key := None) else roles)
    | _ \<Rightarrow> roles)"

definition record_roles ::
    "(string \<rightharpoonup> EndpointGeneration) \<Rightarrow> (string \<times> Role) list \<Rightarrow> CameraInventory \<Rightarrow> CameraInventory" where
  "record_roles before classified i =
     i\<lparr> ci_roles := fold (record_role before (endpoint_generations i)) classified (ci_roles i) \<rparr>"

definition role_is_live :: "(string \<rightharpoonup> EndpointGeneration) \<Rightarrow> RoleKey \<Rightarrow> bool" where
  "role_is_live live key = (case live (rk_endpoint key) of
      None \<Rightarrow> False
    | Some c \<Rightarrow> eg_supervisor c = rk_supervisor key \<and> eg_instance c = rk_instance key \<and> eg_generation c = rk_generation key)"

definition prune_roles :: "CameraInventory \<Rightarrow> CameraInventory" where
  "prune_roles i = (let live = endpoint_generations i
     in i\<lparr> ci_roles := (\<lambda>key. if role_is_live live key then ci_roles i key else None) \<rparr>)"

section \<open>Events that invalidate and retire\<close>

definition mark_unavailable :: "CameraInventoryReason \<Rightarrow> CameraInventory \<Rightarrow> CameraInventory" where
  "mark_unavailable reason i =
     (let i1 = i\<lparr> ci_invalidated := ci_invalidated i \<union> active_instances i \<rparr>;
          i2 = (if ci_state i1 \<noteq> Unavailable \<or> ci_reason i1 \<noteq> Some reason then advance_revision i1 else i1)
      in prune_roles (i2\<lparr> ci_state := Unavailable, ci_reason := Some reason \<rparr>))"

definition invalidate_all :: "CameraInventory \<Rightarrow> CameraInventory" where
  "invalidate_all i = (let i1 = mark_refreshing i in prune_roles (i1\<lparr> ci_invalidated := active_instances i1 \<rparr>))"

definition invalidate_topologies :: "string list \<Rightarrow> CameraInventory \<Rightarrow> CameraInventory" where
  "invalidate_topologies topologies i =
     (let i1 = mark_refreshing i;
          hit = set (map en_instance (List.map_filter (map_of (ci_active i1)) topologies))
      in prune_roles (i1\<lparr> ci_invalidated := ci_invalidated i1 \<union> hit \<rparr>))"

definition retire_one ::
    "string \<Rightarrow> CameraInventory \<times> CameraInventoryEvent list \<Rightarrow> CameraInventory \<times> CameraInventoryEvent list" where
  "retire_one topology s = (case map_of (ci_active (fst s)) topology of
      None \<Rightarrow> s
    | Some entry \<Rightarrow>
        (let i = fst s
         in (i\<lparr> ci_active := bt_remove topology (ci_active i),
                ci_invalidated := ci_invalidated i - {en_instance entry},
                ci_retired := insert (en_instance entry) (ci_retired i),
                ci_tombstones := insert topology (ci_tombstones i) \<rparr>,
             snd s @ [CameraRemoved (en_descriptor entry)])))"

definition retire_topologies ::
    "string list \<Rightarrow> CameraInventory \<Rightarrow> CameraInventory \<times> CameraInventoryEvent list" where
  "retire_topologies topologies i =
     (let i1 = (if list_ex (\<lambda>t. map_of (ci_active i) t \<noteq> None) topologies then mark_refreshing i else i);
          (i2, events) = fold retire_one topologies (i1, [])
      in (prune_roles i2, events))"

definition retire_unavailable :: "CameraInventoryReason \<Rightarrow> CameraInventory \<Rightarrow> CameraInventory" where
  "retire_unavailable reason i = mark_unavailable reason (fst (retire_topologies (map fst (ci_active i)) i))"

section \<open>Reconciliation with a census\<close>

definition MAX_INSTANCE_ID_ATTEMPTS :: nat where "MAX_INSTANCE_ID_ATTEMPTS = 64"

primrec mint ::
    "nat \<Rightarrow> (nat \<Rightarrow> CameraInstanceId) \<Rightarrow> nat \<Rightarrow> (string \<times> InventoryEntry) list \<Rightarrow> CameraInstanceId set \<Rightarrow>
       (CameraInventoryError + CameraInstanceId) \<times> nat" where
  "mint 0 ids n active retired = (Inl InstanceIdExhausted, n)"
| "mint (Suc attempts) ids n active retired =
     (let candidate = ids n
      in if \<not> list_ex (\<lambda>x. en_instance (snd x) = candidate) active \<and> candidate \<notin> retired
         then (Inr candidate, n + 1)
         else mint attempts ids (n + 1) active retired)"

definition mint_unique_instance_id ::
    "(nat \<Rightarrow> CameraInstanceId) \<Rightarrow> nat \<Rightarrow> (string \<times> InventoryEntry) list \<Rightarrow> CameraInstanceId set \<Rightarrow>
       (CameraInventoryError + CameraInstanceId) \<times> nat" where
  "mint_unique_instance_id = mint MAX_INSTANCE_ID_ATTEMPTS"

fun collect_incoming ::
    "(string \<times> CameraObservation) list \<Rightarrow> CameraObservation list \<Rightarrow>
       CameraInventoryError + (string \<times> CameraObservation) list" where
  "collect_incoming incoming [] = Inr incoming"
| "collect_incoming incoming (ob # obs) =
     (if map_of incoming (ob_topology ob) \<noteq> None then Inl (DuplicateObservation (ob_topology ob))
      else collect_incoming (bt_update (ob_topology ob) ob incoming) obs)"

text \<open>The copies a reconciliation works on.\<close>

record draft =
  dr_active :: "(string \<times> InventoryEntry) list"
  dr_tombstones :: "string set"
  dr_retired :: "CameraInstanceId set"
  dr_events :: "CameraInventoryEvent list"
  dr_drawn :: nat

definition draft_remove :: "string \<Rightarrow> InventoryEntry \<Rightarrow> draft \<Rightarrow> draft" where
  "draft_remove key previous d = d\<lparr> dr_active := bt_remove key (dr_active d),
     dr_tombstones := insert key (dr_tombstones d), dr_retired := insert (en_instance previous) (dr_retired d),
     dr_events := dr_events d @ [CameraRemoved (en_descriptor previous)] \<rparr>"

definition draft_put :: "string \<Rightarrow> CameraObservation \<Rightarrow> CameraInstanceId \<Rightarrow> u64 \<Rightarrow> draft \<Rightarrow> draft" where
  "draft_put key ob inst gen d = d\<lparr> dr_active :=
     bt_update key \<lparr> en_observation = ob, en_descriptor = ob_descriptor ob inst gen \<rparr> (dr_active d) \<rparr>"

definition draft_add :: "(nat \<Rightarrow> CameraInstanceId) \<Rightarrow> string \<Rightarrow> CameraObservation \<Rightarrow> draft \<Rightarrow> CameraInventoryError option \<times> draft" where
  "draft_add ids key ob d0 =
     (let d = d0\<lparr> dr_tombstones := dr_tombstones d0 - {key} \<rparr>
      in case mint_unique_instance_id ids (dr_drawn d) (dr_active d) (dr_retired d) of
          (Inl e, n) \<Rightarrow> (Some e, d\<lparr> dr_drawn := n \<rparr>)
        | (Inr inst, n) \<Rightarrow>
            (None, (draft_put key ob inst INITIAL (d\<lparr> dr_drawn := n \<rparr>))\<lparr> dr_events :=
               dr_events d @ [CameraAdded (ob_descriptor ob inst INITIAL)] \<rparr>))"

definition draft_change ::
    "(nat \<Rightarrow> CameraInstanceId) \<Rightarrow> string \<Rightarrow> InventoryEntry \<Rightarrow> CameraObservation \<Rightarrow> draft \<Rightarrow> CameraInventoryError option \<times> draft" where
  "draft_change ids key previous ob d =
     (let changed = (\<lambda>inst gen d. (None, (draft_put key ob inst gen d)\<lparr> dr_events :=
            dr_events d @ [CameraChanged (en_descriptor previous) (ob_descriptor ob inst gen)] \<rparr>))
      in case generation_next (en_generation previous) of
          Inr gen \<Rightarrow> changed (en_instance previous) gen d
        | Inl _ \<Rightarrow>
            (let d' = d\<lparr> dr_retired := insert (en_instance previous) (dr_retired d) \<rparr>
             in case mint_unique_instance_id ids (dr_drawn d') (dr_active d') (dr_retired d') of
                 (Inl e, n) \<Rightarrow> (Some e, d'\<lparr> dr_drawn := n \<rparr>)
               | (Inr inst, n) \<Rightarrow> changed inst INITIAL (d'\<lparr> dr_drawn := n \<rparr>)))"

definition reconcile_key ::
    "(nat \<Rightarrow> CameraInstanceId) \<Rightarrow> CameraInstanceId set \<Rightarrow> (string \<rightharpoonup> CameraObservation) \<Rightarrow> string \<Rightarrow> draft \<Rightarrow>
       CameraInventoryError option \<times> draft" where
  "reconcile_key ids invalidated incoming key d = (case (map_of (dr_active d) key, incoming key) of
      (Some previous, None) \<Rightarrow> (None, draft_remove key previous d)
    | (None, Some ob) \<Rightarrow> draft_add ids key ob d
    | (Some previous, Some ob) \<Rightarrow>
        if en_observation previous = ob \<and> en_instance previous \<notin> invalidated then (None, d)
        else draft_change ids key previous ob d
    | (None, None) \<Rightarrow> (None, d))"

fun reconcile_keys ::
    "(nat \<Rightarrow> CameraInstanceId) \<Rightarrow> CameraInstanceId set \<Rightarrow> (string \<rightharpoonup> CameraObservation) \<Rightarrow> string list \<Rightarrow> draft \<Rightarrow>
       CameraInventoryError option \<times> draft" where
  "reconcile_keys ids invalidated incoming [] d = (None, d)"
| "reconcile_keys ids invalidated incoming (k # ks) d =
     (case reconcile_key ids invalidated incoming k d of
        (Some e, d') \<Rightarrow> (Some e, d')
      | (None, d') \<Rightarrow> reconcile_keys ids invalidated incoming ks d')"

definition reconcile_start :: "CameraInventory \<Rightarrow> draft" where
  "reconcile_start i = \<lparr> dr_active = ci_active i, dr_tombstones = ci_tombstones i, dr_retired = ci_retired i,
     dr_events = [], dr_drawn = ci_drawn i \<rparr>"

definition reconcile_commit :: "nat \<Rightarrow> draft \<Rightarrow> CameraInventoryEvent list \<Rightarrow> CameraInventory \<Rightarrow> CameraInventory" where
  "reconcile_commit now d events i =
     (let i1 = i\<lparr> ci_active := dr_active d, ci_tombstones := dr_tombstones d, ci_retired := dr_retired d,
                  ci_invalidated := {} \<rparr>;
          i2 = (if ci_state i1 \<noteq> Current \<or> events \<noteq> [] then advance_revision i1 else i1)
      in prune_roles (i2\<lparr> ci_state := Current, ci_reason := None, ci_observed_at := Some now \<rparr>))"

definition reconcile_guarded ::
    "CameraObservation list \<Rightarrow> bool \<Rightarrow> nat \<Rightarrow> CameraInventory \<Rightarrow>
       (CameraInventoryError + CameraInventoryEvent list \<times> bool) \<times> CameraInventory" where
  "reconcile_guarded observations quiet now i = (case collect_incoming [] observations of
      Inl e \<Rightarrow> (Inl e, i)
    | Inr incoming \<Rightarrow>
        (let keys = sort_dedup (map fst (ci_active i) @ map fst incoming);
             (err, d) = reconcile_keys (ci_ids i) (ci_invalidated i) (map_of incoming) keys (reconcile_start i);
             i' = i\<lparr> ci_drawn := dr_drawn d \<rparr>
         in case err of
             Some e \<Rightarrow> (Inl e, i')
           | None \<Rightarrow>
               (let events = sort_key (\<lambda>e. (phase_rank e, event_topology e)) (dr_events d)
                in if \<not> quiet then (Inr ([], False), i')
                   else (Inr (events, True), reconcile_commit now d events i'))))"

definition reconcile ::
    "CameraObservation list \<Rightarrow> nat \<Rightarrow> CameraInventory \<Rightarrow> (CameraInventoryError + CameraInventoryEvent list) \<times> CameraInventory" where
  "reconcile observations now i = (case reconcile_guarded observations True now i of
      (Inl e, i') \<Rightarrow> (Inl e, i')
    | (Inr (events, _), i') \<Rightarrow> (Inr events, i'))"

section \<open>References and validation\<close>

definition entry_reference :: "InventoryEntry \<Rightarrow> CameraInventoryRef" where
  "entry_reference e = \<lparr> rf_descriptor = en_descriptor e, rf_evidence = lifecycle_evidence (en_observation e),
     rf_endpoints = endpoint_paths (en_observation e) \<rparr>"

definition active_references :: "CameraInventory \<Rightarrow> CameraInventoryRef list" where
  "active_references i = map entry_reference (filter (\<lambda>e. en_instance e \<notin> ci_invalidated i) (map snd (ci_active i)))"

definition validate_descriptor :: "CameraInventory \<Rightarrow> CameraDescriptor \<Rightarrow> CameraInventoryError option" where
  "validate_descriptor i desc =
     (let key = topology_path (cd_physical_id desc)
      in case map_of (ci_active i) key of
          None \<Rightarrow> Some (if key \<in> ci_tombstones i then InvRemoved else UnknownCamera)
        | Some active \<Rightarrow>
            if camera_instance_id desc \<noteq> en_instance active then Some ForeignInstance
            else if camera_instance_id desc \<in> ci_invalidated i then Some InvContinuityLost
            else if generation desc \<noteq> en_generation active then Some StaleGeneration
            else if desc \<noteq> en_descriptor active then Some DescriptorMismatch
            else None)"

definition validate_reference :: "CameraInventory \<Rightarrow> CameraInventoryRef \<Rightarrow> CameraInventoryError option" where
  "validate_reference i r = (case validate_descriptor i (rf_descriptor r) of
      Some e \<Rightarrow> Some e
    | None \<Rightarrow> (case map_of (ci_active i) (topology_path (cd_physical_id (rf_descriptor r))) of
        None \<Rightarrow> Some UnknownCamera
      | Some active \<Rightarrow>
          if lifecycle_evidence (en_observation active) \<noteq> rf_evidence r then Some DescriptorMismatch
          else if endpoint_paths (en_observation active) \<noteq> rf_endpoints r then Some DescriptorMismatch
          else None))"

definition holds_endpoint :: "string \<Rightarrow> InventoryEntry \<Rightarrow> bool" where
  "holds_endpoint path e \<longleftrightarrow> path \<in> set (endpoint_paths (en_observation e))"

fun uncovered_cameras ::
    "CameraInventory \<Rightarrow> CameraInstanceId set \<Rightarrow> string list \<Rightarrow> CameraInventoryError + CameraInstanceId set" where
  "uncovered_cameras i cameras [] = Inr cameras"
| "uncovered_cameras i cameras (path # paths) =
     (case filter (holds_endpoint path) (map snd (ci_active i)) of
        [entry] \<Rightarrow>
          if en_instance entry \<in> ci_invalidated i then Inl InvContinuityLost
          else uncovered_cameras i (insert (en_instance entry) cameras) paths
      | _ \<Rightarrow> Inl UnknownCamera)"

definition uncovered_endpoints_error :: "CameraInventory \<Rightarrow> string list \<Rightarrow> CameraInventoryError" where
  "uncovered_endpoints_error i requested = (case uncovered_cameras i {} requested of
      Inl e \<Rightarrow> e
    | Inr cameras \<Rightarrow> if card cameras > 1 then SpansPhysicalCameras (card cameras) else UnknownCamera)"

definition reference_for_endpoints :: "CameraInventory \<Rightarrow> string list \<Rightarrow> CameraInventoryError + CameraInventoryRef" where
  "reference_for_endpoints i paths =
     (if paths = [] then Inl UnknownCamera
      else let requested = sort_dedup paths
      in case filter (\<lambda>e. list_all (\<lambda>p. holds_endpoint p e) requested) (map snd (ci_active i)) of
          [] \<Rightarrow> Inl (uncovered_endpoints_error i requested)
        | [entry] \<Rightarrow> if en_instance entry \<in> ci_invalidated i then Inl InvContinuityLost else Inr (entry_reference entry)
        | _ \<Rightarrow> Inl DescriptorMismatch)"

record ClassifiedEndpoint =
  ce_instance :: string
  ce_generation :: u64
  ce_endpoint :: string
  ce_role :: Role
  ce_identity :: string
  ce_controller :: string
  ce_domain :: string
  ce_ports :: "u8 list"

section \<open>The published snapshot\<close>

definition snapshot_bounds :: "CameraInventorySnapshot \<Rightarrow> CameraInventorySnapshot" where
  "snapshot_bounds s = s\<lparr> sn_state := Unavailable, sn_reason := Some Bounds, sn_candidates := [] \<rparr>"

definition entry_candidate :: "InventoryEntry \<Rightarrow> CameraCandidate" where
  "entry_candidate e = \<lparr> ca_instance = en_instance e, ca_generation = en_generation e,
     ca_endpoints = endpoint_paths (en_observation e) \<rparr>"

fun collect_candidates :: "CameraCandidate list \<Rightarrow> InventoryEntry list \<Rightarrow> CameraCandidate list option" where
  "collect_candidates acc [] = Some acc"
| "collect_candidates acc (e # es) =
     (let eps = endpoint_paths (en_observation e)
      in if length acc = MAX_CAMERA_CANDIDATES \<or> length eps > MAX_CAMERA_ENDPOINTS \<or>
            list_ex (\<lambda>p. length p > MAX_CAMERA_ENDPOINT_BYTES) eps
         then None
         else if candidate_validate (entry_candidate e) \<noteq> None then None
         else collect_candidates (acc @ [entry_candidate e]) es)"

definition elapsed_ms :: "nat \<Rightarrow> nat \<Rightarrow> u64" where
  "elapsed_ms now at = word_of_nat (min ((now - at) div 1000000) (2 ^ 64 - 1))"

definition snapshot :: "nat \<Rightarrow> CameraInventory \<Rightarrow> CameraInventorySnapshot" where
  "snapshot now i =
     (if ci_state i = Uninitialized then Snapshot_default
      else let s = \<lparr> sn_state = ci_state i, sn_supervisor = Some (ci_supervisor i), sn_revision = ci_revision i,
                     sn_observed_ago_ms = map_option (elapsed_ms now) (ci_observed_at i), sn_reason = ci_reason i,
                     sn_candidates = [] \<rparr>;
               r = (if sn_state s \<noteq> Unavailable
                    then case collect_candidates [] (filter (\<lambda>e. en_instance e \<notin> ci_invalidated i) (map snd (ci_active i))) of
                        None \<Rightarrow> snapshot_bounds s
                      | Some cs \<Rightarrow> s\<lparr> sn_candidates := cs \<rparr>
                    else s)
           in if snapshot_validate r \<noteq> None then snapshot_bounds r else r)"

end
