(* ===== verification/Camera_Identity.thy ===== *)
theory Camera_Identity
  imports Camera_Inventory
begin

text \<open>
  What the inventory's identifiers are worth. Every public method that changes the inventory is
  a step; along any run an instance identifier stays with one camera until it is retired, its
  generation rises with every change, and a reference, selection or role that stopped being
  current never becomes current again.
\<close>

section \<open>Steps\<close>

inductive inventory_step :: "CameraInventory \<Rightarrow> CameraInventory \<Rightarrow> bool" where
  "inventory_step i (mark_unavailable reason i)"
| "inventory_step i (retire_unavailable reason i)"
| "inventory_step i (invalidate_all i)"
| "inventory_step i (invalidate_topologies topologies i)"
| "inventory_step i (fst (retire_topologies topologies i))"
| "inventory_step i (snd (reconcile_guarded observations quiet now i))"
| "inventory_step i (record_roles before classified i)"

section \<open>What the bookkeeping leaves alone\<close>

lemma prune_roles_fields [simp]:
  "ci_active (prune_roles i) = ci_active i" "ci_retired (prune_roles i) = ci_retired i"
  "ci_invalidated (prune_roles i) = ci_invalidated i" "ci_tombstones (prune_roles i) = ci_tombstones i"
  "ci_ids (prune_roles i) = ci_ids i" "ci_state (prune_roles i) = ci_state i"
  "ci_supervisor (prune_roles i) = ci_supervisor i" "ci_revision (prune_roles i) = ci_revision i"
  by (simp_all add: prune_roles_def Let_def)

lemma advance_revision_fields [simp]:
  "ci_active (advance_revision i) = ci_active i" "ci_retired (advance_revision i) = ci_retired i"
  "ci_invalidated (advance_revision i) = ci_invalidated i" "ci_tombstones (advance_revision i) = ci_tombstones i"
  "ci_ids (advance_revision i) = ci_ids i" "ci_state (advance_revision i) = ci_state i"
  "ci_reason (advance_revision i) = ci_reason i"
  by (simp_all add: advance_revision_def split: option.split)

lemma mark_refreshing_fields [simp]:
  "ci_active (mark_refreshing i) = ci_active i" "ci_retired (mark_refreshing i) = ci_retired i"
  "ci_invalidated (mark_refreshing i) = ci_invalidated i" "ci_tombstones (mark_refreshing i) = ci_tombstones i"
  "ci_ids (mark_refreshing i) = ci_ids i" "ci_state (mark_refreshing i) = Refreshing"
  by (simp_all add: mark_refreshing_def)

lemma record_roles_fields [simp]:
  "ci_active (record_roles b c i) = ci_active i" "ci_retired (record_roles b c i) = ci_retired i"
  "ci_invalidated (record_roles b c i) = ci_invalidated i" "ci_tombstones (record_roles b c i) = ci_tombstones i"
  by (simp_all add: record_roles_def)

lemma active_instances_cong: "ci_active i = ci_active j \<Longrightarrow> active_instances i = active_instances j"
  by (simp add: active_instances_def)

section \<open>The invariant\<close>

text \<open>Each entry sits under its own topology path, its descriptor is made from its observation, and
  no identifier is used twice or was retired.\<close>

definition entry_ok :: "string \<Rightarrow> InventoryEntry \<Rightarrow> bool" where
  "entry_ok k e \<longleftrightarrow> ob_topology (en_observation e) = k \<and>
     en_descriptor e = ob_descriptor (en_observation e) (en_instance e) (en_generation e)"

definition entries_ok :: "(string \<times> InventoryEntry) list \<Rightarrow> CameraInstanceId set \<Rightarrow> bool" where
  "entries_ok act ret \<longleftrightarrow> bt_ok act \<and>
     (\<forall>k e. map_of act k = Some e \<longrightarrow> entry_ok k e \<and> en_instance e \<notin> ret) \<and>
     (\<forall>k k' e e'. map_of act k = Some e \<longrightarrow> map_of act k' = Some e' \<longrightarrow> en_instance e = en_instance e' \<longrightarrow> k = k')"

definition inventory_ok :: "CameraInventory \<Rightarrow> bool" where
  "inventory_ok i \<longleftrightarrow> entries_ok (ci_active i) (ci_retired i)"

lemma entries_okD:
  assumes "entries_ok act ret"
  shows "bt_ok act" "map_of act k = Some e \<Longrightarrow> entry_ok k e" "map_of act k = Some e \<Longrightarrow> en_instance e \<notin> ret"
    "map_of act k = Some e \<Longrightarrow> map_of act k' = Some e' \<Longrightarrow> en_instance e = en_instance e' \<Longrightarrow> k = k'"
  using assms unfolding entries_ok_def by blast+

lemma entries_ok_remove:
  assumes "entries_ok act ret" "map_of act k = Some e"
  shows "entries_ok (bt_remove k act) (insert (en_instance e) ret)"
  using assms unfolding entries_ok_def by (auto simp: bt_ok_remove split: if_splits)

lemma entries_ok_put:
  assumes "entries_ok act ret" "ob_topology ob = k" "inst \<notin> ret"
    and "\<And>k' e'. map_of act k' = Some e' \<Longrightarrow> en_instance e' = inst \<Longrightarrow> k' = k"
  shows "entries_ok (bt_update k \<lparr> en_observation = ob, en_descriptor = ob_descriptor ob inst gen \<rparr> act) ret"
proof -
  let ?e = "\<lparr> en_observation = ob, en_descriptor = ob_descriptor ob inst gen \<rparr>"
  have e: "en_instance ?e = inst" "entry_ok k ?e"
    using assms(2) by (simp_all add: entry_ok_def ob_descriptor_def CameraDescriptor_new_def)
  have "entry_ok k' e' \<and> en_instance e' \<notin> ret" if "((map_of act)(k \<mapsto> ?e)) k' = Some e'" for k' e'
    using that e assms(3) entries_okD(2,3) [OF assms(1)] by (auto split: if_splits)
  moreover have "k1 = k2" if "((map_of act)(k \<mapsto> ?e)) k1 = Some e1" "((map_of act)(k \<mapsto> ?e)) k2 = Some e2"
    "en_instance e1 = en_instance e2" for k1 k2 e1 e2
    using that e assms(4) entries_okD(4) [OF assms(1)] by (auto split: if_splits)
  ultimately show ?thesis
    using entries_okD(1) [OF assms(1)] unfolding entries_ok_def by (simp add: bt_ok_update del: fun_upd_apply)
qed

lemma entries_ok_retire:
  "entries_ok act ret \<Longrightarrow> map_of act k = Some e \<Longrightarrow> ob_topology ob = k \<Longrightarrow> inst \<notin> insert (en_instance e) ret \<Longrightarrow>
    (\<And>k' e'. map_of act k' = Some e' \<Longrightarrow> en_instance e' \<noteq> inst) \<Longrightarrow>
    entries_ok (bt_update k \<lparr> en_observation = ob, en_descriptor = ob_descriptor ob inst gen \<rparr> act) (insert (en_instance e) ret)"
proof -
  assume a: "entries_ok act ret" "map_of act k = Some e" "ob_topology ob = k" "inst \<notin> insert (en_instance e) ret"
    "\<And>k' e'. map_of act k' = Some e' \<Longrightarrow> en_instance e' \<noteq> inst"
  let ?n = "\<lparr> en_observation = ob, en_descriptor = ob_descriptor ob inst gen \<rparr>"
  have put: "entries_ok (bt_update k ?n act) ret"
    using a by (intro entries_ok_put) auto
  have "en_instance e' \<noteq> en_instance e" if "map_of (bt_update k ?n act) k' = Some e'" for k' e'
    using that a(4) entries_okD(4) [OF a(1) _ a(2), of k' e']
    by (auto simp: ob_descriptor_def CameraDescriptor_new_def split: if_splits)
  with put show ?thesis unfolding entries_ok_def by blast
qed

section \<open>Reconciliation, one key at a time\<close>

lemma mint_Inr: "mint n ids m act ret = (Inr c, m') \<Longrightarrow> c \<notin> ret \<and> (\<forall>x\<in>set act. en_instance (snd x) \<noteq> c)"
  by (induction n arbitrary: m) (auto simp: Let_def list_ex_iff split: if_splits)

lemma mint_fresh:
  assumes "mint_unique_instance_id ids m act ret = (Inr c, m')"
  shows "c \<notin> ret" "map_of act k = Some e \<Longrightarrow> en_instance e \<noteq> c"
proof -
  have "c \<notin> ret \<and> (\<forall>x\<in>set act. en_instance (snd x) \<noteq> c)"
    using assms mint_Inr unfolding mint_unique_instance_id_def by blast
  then show "c \<notin> ret" "map_of act k = Some e \<Longrightarrow> en_instance e \<noteq> c" using map_of_SomeD [of act k e] by fastforce+
qed

text \<open>What becomes of one key: the entry before, the observation, the entry after, and the
  retired identifiers after.\<close>

definition key_result ::
    "CameraInstanceId set \<Rightarrow> InventoryEntry option \<Rightarrow> CameraObservation option \<Rightarrow> InventoryEntry option \<Rightarrow>
       CameraInstanceId set \<Rightarrow> bool" where
  "key_result invalidated prev ob next ret = (case ob of
      None \<Rightarrow> next = None \<and> (\<forall>e. prev = Some e \<longrightarrow> en_instance e \<in> ret)
    | Some ob \<Rightarrow> (\<exists>e'. next = Some e' \<and> en_observation e' = ob \<and>
        (case prev of
           None \<Rightarrow> en_generation e' = INITIAL
         | Some e \<Rightarrow>
             if en_observation e = ob \<and> en_instance e \<notin> invalidated then e' = e
             else en_instance e' = en_instance e \<and> generation_next (en_generation e) = Inr (en_generation e') \<or>
                  en_instance e \<in> ret \<and> en_generation e = - 1 \<and> en_generation e' = INITIAL)))"

definition draft_ok :: "draft \<Rightarrow> bool" where
  "draft_ok d \<longleftrightarrow> entries_ok (dr_active d) (dr_retired d)"

lemma generation_next_Inr: "generation_next g = Inr g' \<longleftrightarrow> g \<noteq> - 1 \<and> g' = g + 1"
  by (auto simp: generation_next_def checked_add_one)

lemma generation_next_Inl: "generation_next g = Inl e \<Longrightarrow> g = - 1"
  by (auto simp: generation_next_def checked_add_one split: if_splits)

lemma generation_next_less: "generation_next g = Inr g' \<Longrightarrow> g < g'"
  using checked_add_SomeD(1) [of g 1 g'] by (auto simp: generation_next_def word_less_nat_alt split: option.splits)

lemma ob_descriptor_fields [simp]:
  "camera_instance_id (ob_descriptor ob inst gen) = inst" "generation (ob_descriptor ob inst gen) = gen"
  "cd_physical_id (ob_descriptor ob inst gen) = ob_physical_id ob"
  by (simp_all add: ob_descriptor_def CameraDescriptor_new_def)

lemma draft_add_result:
  assumes "draft_add ids k ob d = (None, d')" "draft_ok d" "ob_topology ob = k" "map_of (dr_active d) k = None"
  shows "draft_ok d'" "dr_retired d' = dr_retired d" "k' \<noteq> k \<Longrightarrow> map_of (dr_active d') k' = map_of (dr_active d) k'"
    "key_result inval None (Some ob) (map_of (dr_active d') k) (dr_retired d')"
proof -
  from assms(1) obtain c n where mint: "mint_unique_instance_id ids (dr_drawn d) (dr_active d) (dr_retired d) = (Inr c, n)"
    and act: "dr_active d' = bt_update k \<lparr> en_observation = ob, en_descriptor = ob_descriptor ob c INITIAL \<rparr> (dr_active d)"
    and ret: "dr_retired d' = dr_retired d"
    by (auto simp: draft_add_def draft_put_def Let_def split: prod.splits sum.splits)
  show "draft_ok d'" unfolding draft_ok_def act ret
    using assms(2,3) mint_fresh [OF mint] by (intro entries_ok_put) (auto simp: draft_ok_def)
  show "dr_retired d' = dr_retired d" by (rule ret)
  show "k' \<noteq> k \<Longrightarrow> map_of (dr_active d') k' = map_of (dr_active d) k'" by (simp add: act)
  show "key_result inval None (Some ob) (map_of (dr_active d') k) (dr_retired d')" by (simp add: act key_result_def)
qed

lemma draft_change_result:
  assumes "draft_change ids k e ob d = (None, d')" "draft_ok d" "ob_topology ob = k" "map_of (dr_active d) k = Some e"
    and "\<not> (en_observation e = ob \<and> en_instance e \<notin> inval)"
  shows "draft_ok d' \<and> dr_retired d \<subseteq> dr_retired d' \<and> (\<forall>k'. k' \<noteq> k \<longrightarrow> map_of (dr_active d') k' = map_of (dr_active d) k') \<and>
    key_result inval (Some e) (Some ob) (map_of (dr_active d') k) (dr_retired d')"
proof (cases "generation_next (en_generation e)")
  case (Inr g)
  then have act: "dr_active d' = bt_update k \<lparr> en_observation = ob, en_descriptor = ob_descriptor ob (en_instance e) g \<rparr> (dr_active d)"
    and ret: "dr_retired d' = dr_retired d"
    using assms(1) by (auto simp: draft_change_def draft_put_def Let_def)
  have d: "entries_ok (dr_active d) (dr_retired d)" using assms(2) by (simp add: draft_ok_def)
  have "k' = k" if "map_of (dr_active d) k' = Some e'" "en_instance e' = en_instance e" for k' e'
    by (rule entries_okD(4) [OF d that(1) assms(4) that(2)])
  then have "draft_ok d'" unfolding draft_ok_def act ret
    by (rule entries_ok_put [OF d assms(3) entries_okD(3) [OF d assms(4)]])
  then show ?thesis
    using Inr assms(5) by (auto simp: act ret key_result_def)
next
  case (Inl err)
  then obtain c n where mint: "mint_unique_instance_id ids (dr_drawn d) (dr_active d) (insert (en_instance e) (dr_retired d)) = (Inr c, n)"
    and act: "dr_active d' = bt_update k \<lparr> en_observation = ob, en_descriptor = ob_descriptor ob c INITIAL \<rparr> (dr_active d)"
    and ret: "dr_retired d' = insert (en_instance e) (dr_retired d)"
    using assms(1) by (auto simp: draft_change_def draft_put_def Let_def split: prod.splits sum.splits)
  have "draft_ok d'" unfolding draft_ok_def act ret
    using assms(2,3,4) mint_fresh [OF mint] by (intro entries_ok_retire) (auto simp: draft_ok_def)
  then show ?thesis
    using generation_next_Inl [OF Inl] assms(5) by (auto simp: act ret key_result_def)
qed

lemma reconcile_key_result:
  assumes "reconcile_key ids inval inc k d = (None, d')" "draft_ok d" "\<And>ob. inc k = Some ob \<Longrightarrow> ob_topology ob = k"
    and "map_of (dr_active d) k \<noteq> None \<or> inc k \<noteq> None"
  shows "draft_ok d' \<and> dr_retired d \<subseteq> dr_retired d' \<and> (\<forall>k'. k' \<noteq> k \<longrightarrow> map_of (dr_active d') k' = map_of (dr_active d) k') \<and>
    key_result inval (map_of (dr_active d) k) (inc k) (map_of (dr_active d') k) (dr_retired d')"
proof (cases "map_of (dr_active d) k")
  case None
  with assms(4) obtain ob where ob: "inc k = Some ob" by blast
  with None assms(1) have "draft_add ids k ob d = (None, d')" by (simp add: reconcile_key_def)
  from draft_add_result [OF this assms(2) assms(3) [OF ob] None] None ob show ?thesis by simp
next
  case (Some e)
  show ?thesis
  proof (cases "inc k")
    case None
    with Some assms(1) have "d' = draft_remove k e d" by (simp add: reconcile_key_def)
    with None Some assms(2) show ?thesis
      by (auto simp: draft_remove_def draft_ok_def key_result_def entries_ok_remove)
  next
    case inc: (Some ob)
    show ?thesis
    proof (cases "en_observation e = ob \<and> en_instance e \<notin> inval")
      case True
      with Some inc assms(1,2) show ?thesis by (auto simp: reconcile_key_def key_result_def)
    next
      case False
      with Some inc assms(1) have "draft_change ids k e ob d = (None, d')"
        by (simp add: reconcile_key_def split: if_splits)
      from draft_change_result [OF this assms(2) assms(3) [OF inc] Some False] Some inc show ?thesis by simp
    qed
  qed
qed

lemma key_result_mono: "key_result inval prev ob next ret \<Longrightarrow> ret \<subseteq> ret' \<Longrightarrow> key_result inval prev ob next ret'"
  by (cases ob; cases prev) (auto simp: key_result_def split: if_splits)

lemma key_result_entry:
  assumes "key_result inval prev (Some ob) next ret"
  shows "\<exists>e'. next = Some e' \<and> en_observation e' = ob \<and>
    (case prev of
       None \<Rightarrow> en_generation e' = 1
     | Some e \<Rightarrow>
         if en_observation e = ob \<and> en_instance e \<notin> inval then e' = e
         else en_instance e' = en_instance e \<and> unat (en_generation e') = unat (en_generation e) + 1 \<or>
              en_instance e \<in> ret \<and> en_generation e = - 1 \<and> en_generation e' = 1)"
proof (cases prev)
  case None
  with assms show ?thesis by (simp add: key_result_def INITIAL_def)
next
  case (Some e)
  with assms obtain e' where e': "next = Some e'" "en_observation e' = ob"
    and r: "if en_observation e = ob \<and> en_instance e \<notin> inval then e' = e
      else en_instance e' = en_instance e \<and> generation_next (en_generation e) = Inr (en_generation e') \<or>
           en_instance e \<in> ret \<and> en_generation e = - 1 \<and> en_generation e' = INITIAL"
    unfolding key_result_def by auto
  have "unat g' = unat g + 1" if "generation_next g = Inr g'" for g g'
    using that checked_add_SomeD(1) [of g 1 g'] by (auto simp: generation_next_def split: option.splits)
  with r have "if en_observation e = ob \<and> en_instance e \<notin> inval then e' = e
      else en_instance e' = en_instance e \<and> unat (en_generation e') = unat (en_generation e) + 1 \<or>
           en_instance e \<in> ret \<and> en_generation e = - 1 \<and> en_generation e' = 1"
    unfolding INITIAL_def by presburger
  with Some e' show ?thesis by simp
qed

text \<open>The loop handles each key once, so at its turn a key still has the entry it started with.\<close>

lemma reconcile_keys_result:
  assumes "reconcile_keys ids inval inc ks d = (None, d')" "draft_ok d" "distinct ks"
    and "\<And>k ob. inc k = Some ob \<Longrightarrow> ob_topology ob = k"
    and "\<And>k. k \<in> set ks \<Longrightarrow> map_of (dr_active d) k \<noteq> None \<or> inc k \<noteq> None"
  shows "draft_ok d' \<and> dr_retired d \<subseteq> dr_retired d' \<and>
    (\<forall>k. k \<notin> set ks \<longrightarrow> map_of (dr_active d') k = map_of (dr_active d) k) \<and>
    (\<forall>k\<in>set ks. key_result inval (map_of (dr_active d) k) (inc k) (map_of (dr_active d') k) (dr_retired d'))"
  using assms(1-3,5)
proof (induction ks arbitrary: d)
  case (Cons k ks)
  obtain d1 where first: "reconcile_key ids inval inc k d = (None, d1)"
    and rest: "reconcile_keys ids inval inc ks d1 = (None, d')"
    using Cons.prems(1) by (auto split: prod.splits option.splits)
  have f: "draft_ok d1" "dr_retired d \<subseteq> dr_retired d1" "\<forall>k'. k' \<noteq> k \<longrightarrow> map_of (dr_active d1) k' = map_of (dr_active d) k'"
    "key_result inval (map_of (dr_active d) k) (inc k) (map_of (dr_active d1) k) (dr_retired d1)"
    using reconcile_key_result [OF first Cons.prems(2)] assms(4) Cons.prems(4) [of k] by auto
  have "map_of (dr_active d1) k' \<noteq> None \<or> inc k' \<noteq> None" if "k' \<in> set ks" for k'
    using that f(3) Cons.prems(3) Cons.prems(4) [of k'] by (metis distinct.simps(2) list.set_intros(2))
  with Cons.IH [OF rest f(1)] Cons.prems(3)
  have r: "draft_ok d'" "dr_retired d1 \<subseteq> dr_retired d'" "\<forall>k. k \<notin> set ks \<longrightarrow> map_of (dr_active d') k = map_of (dr_active d1) k"
    "\<forall>k\<in>set ks. key_result inval (map_of (dr_active d1) k) (inc k) (map_of (dr_active d') k) (dr_retired d')"
    by auto
  have "key_result inval (map_of (dr_active d) k') (inc k') (map_of (dr_active d') k') (dr_retired d')"
    if "k' \<in> set (k # ks)" for k'
  proof (cases "k' = k")
    case True
    with Cons.prems(3) r(3) have "map_of (dr_active d') k' = map_of (dr_active d1) k'" by auto
    with True show ?thesis using key_result_mono [OF f(4) r(2)] by simp
  next
    case False
    with that r(4) f(3) show ?thesis by fastforce
  qed
  with f r show ?case by auto
qed simp

lemma collect_incoming_Inr:
  assumes "collect_incoming inc obs = Inr out" "bt_ok inc" "\<And>k ob. map_of inc k = Some ob \<Longrightarrow> ob_topology ob = k"
  shows "bt_ok out \<and> (\<forall>k ob. map_of out k = Some ob \<longleftrightarrow> map_of inc k = Some ob \<or> ob \<in> set obs \<and> ob_topology ob = k) \<and>
    distinct (map ob_topology obs) \<and> (\<forall>ob\<in>set obs. map_of inc (ob_topology ob) = None)"
  using assms
proof (induction inc obs rule: collect_incoming.induct)
  case more: (2 inc ob obs)
  let ?inc = "bt_update (ob_topology ob) ob inc"
  from more.prems(1) have new: "map_of inc (ob_topology ob) = None" and rest: "collect_incoming ?inc obs = Inr out"
    by (auto split: if_splits)
  have top: "\<And>k ob'. map_of ?inc k = Some ob' \<Longrightarrow> ob_topology ob' = k"
    using more.prems(3) by (auto split: if_splits)
  have "\<not> map_of inc (ob_topology ob) \<noteq> None" using new by simp
  from more.IH [OF this rest bt_ok_update [OF more.prems(2)] top]
  have out: "bt_ok out" "\<forall>k ob'. map_of out k = Some ob' \<longleftrightarrow> map_of ?inc k = Some ob' \<or> ob' \<in> set obs \<and> ob_topology ob' = k"
    "distinct (map ob_topology obs)" "\<forall>ob'\<in>set obs. map_of ?inc (ob_topology ob') = None"
    by blast+
  have other: "\<forall>ob'\<in>set obs. ob_topology ob' \<noteq> ob_topology ob \<and> map_of inc (ob_topology ob') = None"
    using out(4) by (auto split: if_splits)
  have "map_of out k = Some ob' \<longleftrightarrow> map_of inc k = Some ob' \<or> ob' \<in> set (ob # obs) \<and> ob_topology ob' = k" for k ob'
    using out(2) other new by (auto split: if_splits)
  moreover have "distinct (map ob_topology (ob # obs))" using out(3) other by force
  ultimately show ?case using out(1) other new by simp
qed simp

lemma option_eqI: "(\<And>x. a = Some x \<longleftrightarrow> b = Some x) \<Longrightarrow> a = b"
  by (cases a; cases b) auto

text \<open>A reconciliation that does not commit changes nothing but the number of identifiers drawn; one
  that commits replaces every key.\<close>

lemma reconcile_uncommitted:
  assumes "reconcile_guarded obs quiet now i = (r, i')" "\<not> (\<exists>events. r = Inr (events, True))"
  shows "\<exists>n. i' = i\<lparr> ci_drawn := n \<rparr>"
proof (cases "collect_incoming [] obs")
  case (Inl e)
  with assms show ?thesis by (intro exI [of _ "ci_drawn i"]) (simp add: reconcile_guarded_def)
next
  case (Inr inc)
  with assms show ?thesis
    by (auto simp: reconcile_guarded_def Let_def split: prod.splits option.splits if_splits)
qed

lemma reconcile_committed:
  assumes "reconcile_guarded obs quiet now i = (Inr (events, True), i')" "inventory_ok i"
  shows "inventory_ok i' \<and> ci_retired i \<subseteq> ci_retired i' \<and> ci_invalidated i' = {} \<and> ci_state i' = Current \<and>
    distinct (map ob_topology obs) \<and>
    (\<forall>k. key_result (ci_invalidated i) (map_of (ci_active i) k) (map_of (map (\<lambda>ob. (ob_topology ob, ob)) obs) k)
      (map_of (ci_active i') k) (ci_retired i'))"
proof -
  obtain inc where inc: "collect_incoming [] obs = Inr inc"
    using assms(1) by (cases "collect_incoming [] obs") (auto simp: reconcile_guarded_def)
  let ?keys = "sort_dedup (map fst (ci_active i) @ map fst inc)"
  obtain d where d: "reconcile_keys (ci_ids i) (ci_invalidated i) (map_of inc) ?keys (reconcile_start i) = (None, d)"
    and i': "i' = reconcile_commit now d events (i\<lparr> ci_drawn := dr_drawn d \<rparr>)"
    using assms(1) inc by (auto simp: reconcile_guarded_def Let_def split: prod.splits option.splits if_splits)
  have inc': "bt_ok inc" "\<forall>k ob. map_of inc k = Some ob \<longleftrightarrow> ob \<in> set obs \<and> ob_topology ob = k" "distinct (map ob_topology obs)"
    using collect_incoming_Inr [OF inc] by (auto simp: bt_ok_def)
  have inc_obs: "map_of inc = map_of (map (\<lambda>ob. (ob_topology ob, ob)) obs)"
  proof
    fix k
    have "distinct (map fst (map (\<lambda>ob. (ob_topology ob, ob)) obs))" using inc'(3) by (simp add: comp_def)
    then have "map_of (map (\<lambda>ob. (ob_topology ob, ob)) obs) k = Some ob \<longleftrightarrow> ob \<in> set obs \<and> ob_topology ob = k" for ob
      by (subst map_of_eq_Some_iff) auto
    then have "map_of inc k = Some ob \<longleftrightarrow> map_of (map (\<lambda>ob. (ob_topology ob, ob)) obs) k = Some ob" for ob
      using inc'(2) by simp
    then show "map_of inc k = map_of (map (\<lambda>ob. (ob_topology ob, ob)) obs) k" by (rule option_eqI)
  qed
  have start: "draft_ok (reconcile_start i)" using assms(2) by (simp add: draft_ok_def reconcile_start_def inventory_ok_def)
  have "map_of (ci_active i) k \<noteq> None \<or> map_of inc k \<noteq> None" if "k \<in> set ?keys" for k
    using that by (auto simp: map_of_eq_None_iff)
  with reconcile_keys_result [OF d start] inc'(2)
  have r: "draft_ok d" "ci_retired i \<subseteq> dr_retired d"
    "\<forall>k. k \<notin> set ?keys \<longrightarrow> map_of (dr_active d) k = map_of (ci_active i) k"
    "\<forall>k\<in>set ?keys. key_result (ci_invalidated i) (map_of (ci_active i) k) (map_of inc k) (map_of (dr_active d) k) (dr_retired d)"
    by (auto simp: reconcile_start_def)
  have "key_result (ci_invalidated i) (map_of (ci_active i) k) (map_of inc k) (map_of (dr_active d) k) (dr_retired d)" for k
  proof (cases "k \<in> set ?keys")
    case False
    then have "map_of (ci_active i) k = None" "map_of inc k = None" by (auto simp: map_of_eq_None_iff)
    with False r(3) show ?thesis by (simp add: key_result_def)
  qed (use r(4) in blast)
  moreover have "ci_active i' = dr_active d" "ci_retired i' = dr_retired d" "ci_invalidated i' = {}" "ci_state i' = Current"
    unfolding i' by (simp_all add: reconcile_commit_def Let_def)
  ultimately show ?thesis using r(1,2) inc'(3) inc_obs by (simp add: inventory_ok_def draft_ok_def)
qed

section \<open>Retiring and invalidating\<close>

lemma retire_fold:
  assumes "fold retire_one ts (i, events) = (i', events')"
  shows "(\<forall>k. map_of (ci_active i') k = (if k \<in> set ts then None else map_of (ci_active i) k)) \<and>
    ci_retired i' = ci_retired i \<union> {en_instance e |k e. k \<in> set ts \<and> map_of (ci_active i) k = Some e} \<and>
    ci_invalidated i' = ci_invalidated i - {en_instance e |k e. k \<in> set ts \<and> map_of (ci_active i) k = Some e} \<and>
    (inventory_ok i \<longrightarrow> inventory_ok i') \<and> ci_state i' = ci_state i"
  using assms
proof (induction ts arbitrary: i events)
  case (Cons t ts)
  show ?case
  proof (cases "map_of (ci_active i) t")
    case None
    then have "retire_one t (i, events) = (i, events)" by (simp add: retire_one_def)
    then have "fold retire_one ts (i, events) = (i', events')" using Cons.prems by simp
    from Cons.IH [OF this] None show ?thesis by auto
  next
    case (Some e)
    let ?i = "i\<lparr> ci_active := bt_remove t (ci_active i), ci_invalidated := ci_invalidated i - {en_instance e},
      ci_retired := insert (en_instance e) (ci_retired i), ci_tombstones := insert t (ci_tombstones i) \<rparr>"
    have "retire_one t (i, events) = (?i, events @ [CameraRemoved (en_descriptor e)])"
      using Some by (simp add: retire_one_def Let_def)
    then have "fold retire_one ts (?i, events @ [CameraRemoved (en_descriptor e)]) = (i', events')"
      using Cons.prems by simp
    note ih = Cons.IH [OF this]
    have ok: "inventory_ok i \<longrightarrow> inventory_ok ?i" using Some by (simp add: inventory_ok_def entries_ok_remove)
    have sets: "insert (en_instance e) {en_instance e' |k e'. k \<in> set ts \<and> map_of (ci_active ?i) k = Some e'} =
        {en_instance e' |k e'. k \<in> set (t # ts) \<and> map_of (ci_active i) k = Some e'}"
      using Some by (auto, metis option.inject)
    have "ci_retired i' = ci_retired i \<union> {en_instance e' |k e'. k \<in> set (t # ts) \<and> map_of (ci_active i) k = Some e'}"
      unfolding sets [symmetric] using ih by auto
    moreover have "ci_invalidated i' = ci_invalidated i - {en_instance e' |k e'. k \<in> set (t # ts) \<and> map_of (ci_active i) k = Some e'}"
      unfolding sets [symmetric] using ih by auto
    ultimately show ?thesis using ih ok by auto
  qed
qed simp

lemma retire_topologies_result:
  assumes "inventory_ok i" "retire_topologies ts i = (i', events)"
  shows "(\<forall>k. map_of (ci_active i') k = (if k \<in> set ts then None else map_of (ci_active i) k)) \<and>
    ci_retired i' = ci_retired i \<union> {en_instance e |k e. k \<in> set ts \<and> map_of (ci_active i) k = Some e} \<and>
    ci_invalidated i' = ci_invalidated i - {en_instance e |k e. k \<in> set ts \<and> map_of (ci_active i) k = Some e} \<and>
    inventory_ok i'"
proof -
  define i1 where "i1 = (if list_ex (\<lambda>t. map_of (ci_active i) t \<noteq> None) ts then mark_refreshing i else i)"
  have same: "ci_active i1 = ci_active i" "ci_retired i1 = ci_retired i" "ci_invalidated i1 = ci_invalidated i"
    by (auto simp: i1_def)
  obtain i2 where i2: "fold retire_one ts (i1, []) = (i2, events)" "i' = prune_roles i2"
    using assms(2) by (auto simp: retire_topologies_def i1_def Let_def split: prod.splits)
  have "inventory_ok i1" using assms(1) same by (simp add: inventory_ok_def)
  with retire_fold [OF i2(1)] have "inventory_ok i2" by blast
  then have "inventory_ok i'" by (simp add: i2(2) inventory_ok_def)
  with retire_fold [OF i2(1)] show ?thesis unfolding i2(2) same prune_roles_fields by blast
qed

lemma retire_topologies_ok: "inventory_ok i \<Longrightarrow> inventory_ok (fst (retire_topologies ts i))"
  using retire_topologies_result [of i ts "fst (retire_topologies ts i)" "snd (retire_topologies ts i)"] by simp

section \<open>Earlier and later inventories\<close>

definition inventory_later :: "CameraInventory \<Rightarrow> CameraInventory \<Rightarrow> bool" where
  "inventory_later i i' \<longleftrightarrow> ci_retired i \<subseteq> ci_retired i' \<and>
     (\<forall>k e. map_of (ci_active i) k = Some e \<longrightarrow>
        en_instance e \<in> ci_retired i' \<or>
        (\<exists>e'. map_of (ci_active i') k = Some e' \<and> en_instance e' = en_instance e \<and>
           (e' = e \<and> (en_instance e \<in> ci_invalidated i \<longrightarrow> en_instance e \<in> ci_invalidated i') \<or> en_generation e < en_generation e')))"

lemma inventory_later_trans:
  assumes "inventory_later i j" "inventory_later j k"
  shows "inventory_later i k"
proof -
  have "en_instance e \<in> ci_retired k \<or> (\<exists>e'. map_of (ci_active k) t = Some e' \<and> en_instance e' = en_instance e \<and>
      (e' = e \<and> (en_instance e \<in> ci_invalidated i \<longrightarrow> en_instance e \<in> ci_invalidated k) \<or> en_generation e < en_generation e'))"
    if e: "map_of (ci_active i) t = Some e" for t e
  proof (cases "en_instance e \<in> ci_retired j")
    case True
    with assms(2) show ?thesis by (auto simp: inventory_later_def)
  next
    case False
    with assms(1) e obtain f where f: "map_of (ci_active j) t = Some f" "en_instance f = en_instance e"
      "f = e \<and> (en_instance e \<in> ci_invalidated i \<longrightarrow> en_instance e \<in> ci_invalidated j) \<or> en_generation e < en_generation f"
      unfolding inventory_later_def by blast
    with assms(2) have "en_instance f \<in> ci_retired k \<or> (\<exists>g. map_of (ci_active k) t = Some g \<and> en_instance g = en_instance f \<and>
      (g = f \<and> (en_instance f \<in> ci_invalidated j \<longrightarrow> en_instance f \<in> ci_invalidated k) \<or> en_generation f < en_generation g))"
      unfolding inventory_later_def by blast
    with f(2,3) show ?thesis by (auto dest: less_trans)
  qed
  then show ?thesis using assms unfolding inventory_later_def by blast
qed

text \<open>A step that keeps the entries and the retired identifiers and only invalidates.\<close>

lemma inventory_later_same:
  "ci_active i' = ci_active i \<Longrightarrow> ci_retired i' = ci_retired i \<Longrightarrow> ci_invalidated i \<inter> active_instances i \<subseteq> ci_invalidated i' \<Longrightarrow>
    inventory_later i i'"
  unfolding inventory_later_def active_instances_def by (force dest: map_of_SomeD)

lemma key_result_later:
  assumes "key_result inval (Some e) ob next ret"
  shows "en_instance e \<in> ret \<or> (\<exists>e'. next = Some e' \<and> en_instance e' = en_instance e \<and>
    (e' = e \<and> en_instance e \<notin> inval \<or> en_generation e < en_generation e'))"
  using assms by (cases ob) (auto simp: key_result_def split: if_splits dest: generation_next_less)

lemma inventory_later_reconcile:
  assumes "inventory_ok i"
  shows "inventory_later i (snd (reconcile_guarded obs quiet now i))"
proof (cases "\<exists>events. fst (reconcile_guarded obs quiet now i) = Inr (events, True)")
  case True
  then obtain events where "reconcile_guarded obs quiet now i = (Inr (events, True), snd (reconcile_guarded obs quiet now i))"
    by (metis prod.collapse)
  note r = reconcile_committed [OF this assms]
  let ?i = "snd (reconcile_guarded obs quiet now i)"
  have "en_instance e \<in> ci_retired ?i \<or> (\<exists>e'. map_of (ci_active ?i) k = Some e' \<and> en_instance e' = en_instance e \<and>
      (e' = e \<and> en_instance e \<notin> ci_invalidated i \<or> en_generation e < en_generation e'))" if "map_of (ci_active i) k = Some e" for k e
  proof -
    from r have "key_result (ci_invalidated i) (map_of (ci_active i) k) (map_of (map (\<lambda>ob. (ob_topology ob, ob)) obs) k)
      (map_of (ci_active ?i) k) (ci_retired ?i)" by blast
    then show ?thesis unfolding that by (rule key_result_later)
  qed
  then show ?thesis using r unfolding inventory_later_def by blast
next
  case False
  then obtain n where "snd (reconcile_guarded obs quiet now i) = i\<lparr> ci_drawn := n \<rparr>"
    using reconcile_uncommitted [of obs quiet now i] by (metis prod.collapse)
  then show ?thesis by (intro inventory_later_same) simp_all
qed

lemma inventory_later_retire:
  assumes "inventory_ok i" "retire_topologies ts i = (i', events)"
  shows "inventory_later i i'"
proof -
  note r = retire_topologies_result [OF assms]
  have "en_instance e \<in> ci_retired i' \<or> (\<exists>e'. map_of (ci_active i') k = Some e' \<and> en_instance e' = en_instance e \<and>
      (e' = e \<and> (en_instance e \<in> ci_invalidated i \<longrightarrow> en_instance e \<in> ci_invalidated i') \<or> en_generation e < en_generation e'))"
    if "map_of (ci_active i) k = Some e" for k e
  proof (cases "en_instance e \<in> ci_retired i'")
    case False
    with r that have "k \<notin> set ts" "en_instance e \<notin> {en_instance e |k e. k \<in> set ts \<and> map_of (ci_active i) k = Some e}" by auto
    with r that show ?thesis by auto
  qed blast
  with r show ?thesis unfolding inventory_later_def by blast
qed

lemma mark_unavailable_fields [simp]:
  "ci_active (mark_unavailable reason i) = ci_active i" "ci_retired (mark_unavailable reason i) = ci_retired i"
  "ci_invalidated (mark_unavailable reason i) = ci_invalidated i \<union> active_instances i"
  by (simp_all add: mark_unavailable_def Let_def)

lemma inventory_later_step: "inventory_step i i' \<Longrightarrow> inventory_ok i \<Longrightarrow> inventory_later i i'"
proof (induction rule: inventory_step.induct)
  case (1 i reason)
  show ?case by (intro inventory_later_same) auto
next
  case (2 i reason)
  obtain j events where j: "retire_topologies (map fst (ci_active i)) i = (j, events)" by fastforce
  have "inventory_later j (mark_unavailable reason j)" by (intro inventory_later_same) auto
  with inventory_later_trans [OF inventory_later_retire [OF 2 j]] j show ?case by (simp add: retire_unavailable_def)
next
  case (3 i)
  show ?case by (intro inventory_later_same) (auto simp: invalidate_all_def Let_def active_instances_def)
next
  case (4 i topologies)
  show ?case by (intro inventory_later_same) (auto simp: invalidate_topologies_def Let_def)
next
  case (5 i topologies)
  show ?case by (rule inventory_later_retire [OF 5]) (rule prod.collapse [symmetric])
next
  case (6 i observations quiet now)
  then show ?case by (rule inventory_later_reconcile)
next
  case (7 i before classified)
  show ?case by (intro inventory_later_same) auto
qed

lemma inventory_ok_step: "inventory_step i i' \<Longrightarrow> inventory_ok i \<Longrightarrow> inventory_ok i'"
proof (induction rule: inventory_step.induct)
  case (2 i reason)
  from retire_topologies_ok [OF 2] show ?case by (simp add: retire_unavailable_def inventory_ok_def)
next
  case (5 i topologies)
  then show ?case by (rule retire_topologies_ok)
next
  case (6 i obs quiet now)
  show ?case
  proof (cases "\<exists>events. fst (reconcile_guarded obs quiet now i) = Inr (events, True)")
    case True
    with reconcile_committed [OF _ 6] show ?thesis by (metis prod.collapse)
  next
    case False
    with reconcile_uncommitted [of obs quiet now i] 6 show ?thesis by (metis inventory_ok_def prod.collapse
      CameraInventory.select_convs(1,3) CameraInventory.surjective CameraInventory.update_convs(6))
  qed
qed (simp_all add: inventory_ok_def invalidate_all_def invalidate_topologies_def Let_def)

interpretation inventories: history_system
  "\<lambda>i. \<exists>ids. i = inventory_new ids" inventory_step inventory_ok inventory_later
proof
  show "inventory_ok i" if "\<exists>ids. i = inventory_new ids" for i
    using that by (auto simp: inventory_new_def inventory_ok_def entries_ok_def bt_ok_def)
  show "inventory_later i i" for i by (auto simp: inventory_later_def)
qed (fact inventory_ok_step inventory_later_trans inventory_later_step)+

section \<open>References, candidates and roles\<close>

lemma validate_reference_None:
  "validate_reference i r = None \<longleftrightarrow>
    (\<exists>e. map_of (ci_active i) (topology_path (cd_physical_id (rf_descriptor r))) = Some e \<and> en_descriptor e = rf_descriptor r \<and>
       en_instance e \<notin> ci_invalidated i \<and> lifecycle_evidence (en_observation e) = rf_evidence r \<and>
       endpoint_paths (en_observation e) = rf_endpoints r)"
proof (cases "map_of (ci_active i) (topology_path (cd_physical_id (rf_descriptor r)))")
  case None
  then show ?thesis by (simp add: validate_reference_def validate_descriptor_def)
next
  case (Some e)
  then show ?thesis
    by (cases "rf_descriptor r = en_descriptor e") (auto simp: validate_reference_def validate_descriptor_def Let_def)
qed

lemma collect_candidates_Some:
  "collect_candidates acc es = Some cs \<Longrightarrow> cs = acc @ map entry_candidate es"
  by (induction acc es rule: collect_candidates.induct) (auto simp: Let_def split: if_splits)

lemma snapshot_candidate:
  assumes "c \<in> set (sn_candidates (snapshot now i))"
  shows "\<exists>e\<in>snd ` set (ci_active i). c = entry_candidate e \<and> en_instance e \<notin> ci_invalidated i"
proof -
  from assms have "\<exists>cs. collect_candidates [] (filter (\<lambda>e. en_instance e \<notin> ci_invalidated i) (map snd (ci_active i))) = Some cs \<and> c \<in> set cs"
    by (auto simp: snapshot_def Let_def Snapshot_default_def snapshot_bounds_def split: if_splits option.splits)
  then show ?thesis using collect_candidates_Some by fastforce
qed

lemma claims_once:
  assumes "fold claim_endpoint cs (m, c) = (m', c')" "p \<notin> c'" "m' p = Some g"
  shows "p \<notin> c \<and> (case filter (\<lambda>x. fst x = p) cs of [] \<Rightarrow> m p = Some g | [x] \<Rightarrow> m p = None \<and> snd x = g | _ \<Rightarrow> False)"
  using assms
proof (induction cs arbitrary: m c)
  case (Cons x cs)
  let ?m = "m(fst x \<mapsto> snd x)" and ?c = "if m (fst x) \<noteq> None then insert (fst x) c else c"
  have "claim_endpoint x (m, c) = (?m, ?c)" by (simp add: claim_endpoint_def)
  then have "fold claim_endpoint cs (?m, ?c) = (m', c')" using Cons.prems(1) by simp
  from Cons.IH [OF this Cons.prems(2,3)] show ?case
    by (auto split: list.splits if_splits)
qed simp

lemma endpoint_generations_Some:
  assumes "endpoint_generations i p = Some g"
  shows "filter (\<lambda>x. fst x = p) (endpoint_claims i) = [(p, g)]"
proof -
  obtain m c where f: "fold claim_endpoint (endpoint_claims i) (Map.empty, {}) = (m, c)" by fastforce
  with assms have "p \<notin> c" "m p = Some g" by (auto simp: endpoint_generations_def split: if_splits)
  from claims_once [OF f this] obtain x where x: "filter (\<lambda>x. fst x = p) (endpoint_claims i) = [x]" "snd x = g"
    by (auto split: list.splits)
  then have "x \<in> set (filter (\<lambda>x. fst x = p) (endpoint_claims i))" by simp
  then have "fst x = p" by simp
  with x show ?thesis by (cases x) simp
qed

text \<open>An endpoint with a generation belongs to exactly one published entry.\<close>

lemma endpoint_generation_entry:
  assumes "endpoint_generations i p = Some g"
  shows "\<exists>e\<in>set (published_entries i). holds_endpoint p e \<and> g = entry_generation i e"
proof -
  have "(p, g) \<in> set (filter (\<lambda>x. fst x = p) (endpoint_claims i))" using endpoint_generations_Some [OF assms] by simp
  then show ?thesis by (auto simp: endpoint_claims_def holds_endpoint_def)
qed

definition roles_live :: "CameraInventory \<Rightarrow> bool" where
  "roles_live i \<longleftrightarrow> (\<forall>key. ci_roles i key \<noteq> None \<longrightarrow> role_is_live (endpoint_generations i) key)"

lemma endpoint_generations_cong:
  "ci_active i = ci_active j \<Longrightarrow> ci_invalidated i = ci_invalidated j \<Longrightarrow> ci_state i = ci_state j \<Longrightarrow> ci_supervisor i = ci_supervisor j \<Longrightarrow>
    endpoint_generations i = endpoint_generations j"
  by (simp add: endpoint_generations_def endpoint_claims_def published_entries_def entry_generation_def)

lemma roles_live_prune [simp]: "roles_live (prune_roles i)"
proof -
  have "endpoint_generations (prune_roles i) = endpoint_generations i" by (rule endpoint_generations_cong) simp_all
  then show ?thesis by (simp add: roles_live_def) (simp add: prune_roles_def Let_def)
qed

lemma record_role_live:
  assumes "record_role before after c roles key = Some r"
  shows "roles key = Some r \<or>
    (r = snd c \<and> rk_endpoint key = fst c \<and> (\<exists>g. before (fst c) = Some g \<and> after (fst c) = Some g \<and> key = role_key g (fst c)))"
  using assms by (auto simp: record_role_def Let_def role_key_def split: option.splits if_splits)

lemma record_fold_live:
  assumes "fold (record_role before after) cs roles key = Some r"
  shows "roles key = Some r \<or> ((rk_endpoint key, r) \<in> set cs \<and>
    (\<exists>g. before (rk_endpoint key) = Some g \<and> after (rk_endpoint key) = Some g \<and> key = role_key g (rk_endpoint key)))"
  using assms
proof (induction cs arbitrary: roles)
  case (Cons c cs)
  then have "fold (record_role before after) cs (record_role before after c roles) key = Some r" by simp
  from Cons.IH [OF this] show ?case using record_role_live [of before after c roles key r] by (cases c) auto
qed simp

lemma role_key_live: "live p = Some g \<Longrightarrow> role_is_live live (role_key g p)"
  by (simp add: role_is_live_def role_key_def)

lemma roles_live_step: "inventory_step i i' \<Longrightarrow> roles_live i \<Longrightarrow> roles_live i'"
proof (induction rule: inventory_step.induct)
  case (6 i obs quiet now)
  show ?case
  proof (cases "\<exists>events. fst (reconcile_guarded obs quiet now i) = Inr (events, True)")
    case True
    then show ?thesis
      by (auto simp: reconcile_guarded_def reconcile_commit_def Let_def split: sum.splits prod.splits option.splits if_splits)
  next
    case False
    then obtain n where n: "snd (reconcile_guarded obs quiet now i) = i\<lparr> ci_drawn := n \<rparr>"
      using reconcile_uncommitted [of obs quiet now i] by (metis prod.collapse)
    have "endpoint_generations (i\<lparr> ci_drawn := n \<rparr>) = endpoint_generations i" by (rule endpoint_generations_cong) simp_all
    with 6 show ?thesis unfolding n by (simp add: roles_live_def)
  qed
next
  case (7 i before classified)
  have same: "endpoint_generations (record_roles before classified i) = endpoint_generations i"
    by (rule endpoint_generations_cong) (simp_all add: record_roles_def)
  have "role_is_live (endpoint_generations i) key" if "ci_roles (record_roles before classified i) key = Some r" for key r
    using that record_fold_live [of before "endpoint_generations i" classified "ci_roles i" key r] 7 role_key_live
    by (metis option.distinct(1) record_roles_def roles_live_def CameraInventory.select_convs(12) CameraInventory.surjective CameraInventory.update_convs(12))
  then show ?case unfolding roles_live_def same by auto
qed (simp_all add: mark_unavailable_def retire_unavailable_def invalidate_all_def invalidate_topologies_def Let_def
      retire_topologies_def split: prod.splits)

interpretation roles: transition_system "\<lambda>i. \<exists>ids. i = inventory_new ids" inventory_step roles_live
  by unfold_locales (auto simp: roles_live_step, simp add: roles_live_def inventory_new_def)

text \<open>Two entries with one name, in an inventory and a later one.\<close>

lemma same_incarnation:
  assumes "inventory_ok i'" "inventory_later i i'"
    and "map_of (ci_active i) k = Some e" "map_of (ci_active i') k' = Some e'"
    and "en_instance e = en_instance e'" "en_generation e = en_generation e'"
  shows "k = k' \<and> e = e'"
proof -
  note ok' = assms(1) [unfolded inventory_ok_def]
  have "en_instance e \<notin> ci_retired i'" using entries_okD(3) [OF ok' assms(4)] assms(5) by simp
  with assms(2,3) obtain f where
    f: "map_of (ci_active i') k = Some f" "en_instance f = en_instance e" "f = e \<or> en_generation e < en_generation f"
    unfolding inventory_later_def by blast
  have "k = k'" using entries_okD(4) [OF ok' f(1) assms(4)] f(2) assms(5) by simp
  with f assms(4,6) show ?thesis by auto
qed

lemma valid_reference_persists:
  assumes "inventory_ok i2" "inventory_later i0 i1" "inventory_later i1 i2"
    and "validate_reference i0 r = None" "validate_reference i2 r = None"
  shows "validate_reference i1 r = None"
proof -
  let ?k = "topology_path (cd_physical_id (rf_descriptor r))"
  from assms(4) obtain e where e: "map_of (ci_active i0) ?k = Some e" "en_descriptor e = rf_descriptor r"
    "lifecycle_evidence (en_observation e) = rf_evidence r" "endpoint_paths (en_observation e) = rf_endpoints r"
    unfolding validate_reference_None by blast
  from assms(5) obtain e2 where e2: "map_of (ci_active i2) ?k = Some e2" "en_descriptor e2 = rf_descriptor r"
    "en_instance e2 \<notin> ci_invalidated i2" unfolding validate_reference_None by blast
  have live: "en_instance e \<notin> ci_retired i2"
    using entries_okD(3) [OF assms(1) [unfolded inventory_ok_def] e2(1)] e(2) e2(2) by simp
  then have "en_instance e \<notin> ci_retired i1" using assms(3) by (auto simp: inventory_later_def)
  with assms(2) e(1) obtain e1 where e1: "map_of (ci_active i1) ?k = Some e1" "en_instance e1 = en_instance e"
    "e1 = e \<or> en_generation e < en_generation e1" unfolding inventory_later_def by blast
  with assms(3) live e2(1) have "e2 = e1 \<and> (en_instance e1 \<in> ci_invalidated i1 \<longrightarrow> en_instance e1 \<in> ci_invalidated i2) \<or>
      en_generation e1 < en_generation e2"
    unfolding inventory_later_def by (metis option.inject)
  with e1(3) e(2) e2(2,3) have "e1 = e" "en_instance e1 \<notin> ci_invalidated i1" by auto
  with e e1(1) show ?thesis unfolding validate_reference_None by simp
qed

section \<open>A short run\<close>

definition run_ids :: "nat \<Rightarrow> CameraInstanceId" where
  "run_ids n = (if n = 0 then replicate 32 CHR ''a'' else replicate 32 CHR ''b'')"

definition run_observation :: CameraObservation where
  "run_observation = observation_with_endpoints UvcV4l2 \<lparr> topology_path = ''/devices/usb1'', ph_serial = None \<rparr>
     \<lparr> stream_roles = [], synchronization = SyncUnknown, illumination_provenance = [] \<rparr> [] [''/dev/video0'', ''/dev/video2'']"

definition run_entry :: "u64 \<Rightarrow> InventoryEntry" where
  "run_entry g = \<lparr> en_observation = run_observation, en_descriptor = ob_descriptor run_observation (run_ids 1) g \<rparr>"

definition run_seen :: CameraInventory where
  "run_seen = snd (reconcile_guarded [run_observation] True 0 (inventory_new run_ids))"

definition run_again :: CameraInventory where
  "run_again = snd (reconcile_guarded [run_observation] True 5000000 (invalidate_all run_seen))"

lemma mint_first:
  "\<not> list_ex (\<lambda>x. en_instance (snd x) = ids n) act \<Longrightarrow> ids n \<notin> ret \<Longrightarrow>
    mint_unique_instance_id ids n act ret = (Inr (ids n), n + 1)"
proof -
  assume a: "\<not> list_ex (\<lambda>x. en_instance (snd x) = ids n) act" "ids n \<notin> ret"
  have "mint (Suc 63) ids n act ret = (Inr (ids n), n + 1)" using a unfolding mint.simps(2) Let_def by simp
  then show ?thesis by (simp add: mint_unique_instance_id_def MAX_INSTANCE_ID_ATTEMPTS_def)
qed

lemma run_topology: "ob_topology run_observation = ''/devices/usb1''"
  by (simp add: run_observation_def observation_with_endpoints_def ob_topology_def)

lemma run_seen_fields:
  "ci_active run_seen = [(''/devices/usb1'', run_entry INITIAL)]" "ci_invalidated run_seen = {}" "ci_state run_seen = Current"
  "ci_supervisor run_seen = run_ids 0" "ci_revision run_seen = 1" "ci_observed_at run_seen = Some 0" "ci_reason run_seen = None"
  by (simp_all add: run_seen_def reconcile_guarded_def run_topology sort_dedup_def reconcile_key_def inventory_new_def
      reconcile_start_def draft_add_def mint_first draft_put_def reconcile_commit_def advance_revision_def checked_add_one
      prune_roles_def run_entry_def Let_def)

lemma run_again_fields:
  "ci_active run_again = [(''/devices/usb1'', run_entry 2)]" "ci_invalidated run_again = {}"
  by (simp_all add: run_again_def reconcile_guarded_def run_topology sort_dedup_def reconcile_key_def invalidate_all_def
      run_seen_fields active_instances_def reconcile_start_def draft_change_def draft_put_def reconcile_commit_def
      generation_next_def checked_add_one run_entry_def INITIAL_def Let_def)

lemma census_run_steps:
  "rtranclp inventory_step (inventory_new run_ids) run_seen" "rtranclp inventory_step run_seen (invalidate_all run_seen)"
  "rtranclp inventory_step (invalidate_all run_seen) run_again"
  unfolding run_seen_def run_again_def by (auto intro: r_into_rtranclp inventory_step.intros)

section \<open>Properties\<close>

text \<open>C19: A camera incarnation is named once. If an entry of an inventory and an entry of any later
  inventory carry the same instance identifier and the same generation, they are the same
  entry under the same topology path: same observation, same endpoints, same descriptor.
  Removal, replug, invalidation, identifier collisions and generation overflow never make an
  old name current again.\<close>

theorem incarnation_is_named_once:
  assumes "rtranclp inventory_step (inventory_new ids) i" "rtranclp inventory_step i i'"
    and "map_of (ci_active i) k = Some e" "map_of (ci_active i') k' = Some e'"
    and "en_instance e = en_instance e'" "en_generation e = en_generation e'"
  shows "k = k' \<and> e = e'"
proof -
  have ok: "inventory_ok i" using inventories.inv_reachable assms(1) by blast
  show ?thesis
    by (rule same_incarnation [OF inventories.inv_run [OF assms(2) ok] inventories.later_run [OF assms(2) ok] assms(3-6)])
qed

theorem incarnation_is_named_once_witness:
  "\<exists>k k' e e'. map_of (ci_active run_seen) k = Some e \<and> map_of (ci_active (invalidate_all run_seen)) k' = Some e' \<and> k = k' \<and> e = e'"
proof -
  have "map_of (ci_active run_seen) ''/devices/usb1'' = Some (run_entry INITIAL)"
    "map_of (ci_active (invalidate_all run_seen)) ''/devices/usb1'' = Some (run_entry INITIAL)"
    by (simp_all add: run_seen_fields invalidate_all_def Let_def)
  with incarnation_is_named_once [OF census_run_steps(1,2) this refl refl] show ?thesis by blast
qed

text \<open>A reference that lost its camera never gets it back. A reference that was valid once and
  fails validation at a later time fails at every time after that, whatever events and
  censuses happen meanwhile.\<close>

theorem stale_reference_never_revives:
  assumes "rtranclp inventory_step (inventory_new ids) i0" "validate_reference i0 r = None"
    and "rtranclp inventory_step i0 i1" "validate_reference i1 r \<noteq> None" "rtranclp inventory_step i1 i2"
  shows "validate_reference i2 r \<noteq> None"
proof
  assume now: "validate_reference i2 r = None"
  have ok0: "inventory_ok i0" using inventories.inv_reachable assms(1) by blast
  have ok1: "inventory_ok i1" by (rule inventories.inv_run [OF assms(3) ok0])
  have "validate_reference i1 r = None"
    by (rule valid_reference_persists [OF inventories.inv_run [OF assms(5) ok1] inventories.later_run [OF assms(3) ok0]
          inventories.later_run [OF assms(5) ok1] assms(2) now])
  with assms(4) show False by simp
qed

theorem stale_reference_never_revives_witness:
  "validate_reference run_seen (entry_reference (run_entry INITIAL)) = None \<and>
   validate_reference run_again (entry_reference (run_entry INITIAL)) \<noteq> None"
proof -
  have key: "topology_path (cd_physical_id (rf_descriptor (entry_reference (run_entry g)))) = ''/devices/usb1''" for g
    using run_topology by (simp add: entry_reference_def run_entry_def ob_topology_def)
  have a: "validate_reference run_seen (entry_reference (run_entry INITIAL)) = None"
    unfolding validate_reference_None key by (simp add: run_seen_fields entry_reference_def)
  have "validate_reference (invalidate_all run_seen) (entry_reference (run_entry INITIAL)) \<noteq> None"
    unfolding validate_reference_None key by (simp add: run_seen_fields invalidate_all_def active_instances_def Let_def)
  with stale_reference_never_revives [OF census_run_steps(1) a census_run_steps(2) _ census_run_steps(3)] a show ?thesis by blast
qed

text \<open>A confirmed selection is the camera that was shown. When a selection copied from a snapshot
  still matches the snapshot taken later, both snapshots show one and the same entry: the
  topology path, the observation and the descriptor have not changed in between, the entry is
  not invalidated, and it holds both requested endpoints.\<close>

theorem selection_is_the_camera_shown:
  assumes "rtranclp inventory_step (inventory_new ids) i" "rtranclp inventory_step i i'"
    and "se_candidate sel \<in> set (sn_candidates (snapshot now i))" "selection_matches sel (snapshot now' i') rgb ir"
  shows "\<exists>k e. map_of (ci_active i) k = Some e \<and> map_of (ci_active i') k = Some e \<and> se_candidate sel = entry_candidate e \<and>
    en_instance e \<notin> ci_invalidated i' \<and> rgb \<noteq> ir \<and> holds_endpoint rgb e \<and> holds_endpoint ir e"
proof -
  have ok: "inventory_ok i" using inventories.inv_reachable assms(1) by blast
  have ok': "inventory_ok i'" by (rule inventories.inv_run [OF assms(2) ok])
  from snapshot_candidate [OF assms(3)] obtain k e where e: "(k, e) \<in> set (ci_active i)" "se_candidate sel = entry_candidate e" by auto
  have m: "se_candidate sel \<in> set (sn_candidates (snapshot now' i'))" "rgb \<noteq> ir"
    "rgb \<in> set (ca_endpoints (se_candidate sel))" "ir \<in> set (ca_endpoints (se_candidate sel))"
    using assms(4) by (simp_all add: selection_matches_def)
  from snapshot_candidate [OF m(1)] obtain k' e' where e': "(k', e') \<in> set (ci_active i')" "se_candidate sel = entry_candidate e'"
    "en_instance e' \<notin> ci_invalidated i'" by auto
  have at: "map_of (ci_active i) k = Some e" "map_of (ci_active i') k' = Some e'"
    using e(1) e'(1) ok ok' by (simp_all add: inventory_ok_def entries_ok_def bt_ok_mem)
  have "k = k' \<and> e = e'"
    using same_incarnation [OF ok' inventories.later_run [OF assms(2) ok] at] e(2) e'(2) by (simp add: entry_candidate_def)
  with at e(2) e'(3) m(2-4) show ?thesis by (auto simp: entry_candidate_def holds_endpoint_def)
qed

lemma run_snapshot:
  "snapshot 0 run_seen = \<lparr> sn_state = Current, sn_supervisor = Some (run_ids 0), sn_revision = 1, sn_observed_ago_ms = Some 0,
     sn_reason = None, sn_candidates = [entry_candidate (run_entry INITIAL)] \<rparr>"
  "candidate_validate (entry_candidate (run_entry INITIAL)) = None" "valid_id (run_ids 0)"
proof -
  have eps: "endpoint_paths run_observation = [''/dev/video0'', ''/dev/video2'']"
    by (simp add: run_observation_def observation_with_endpoints_def sort_dedup_def)
  have ids: "valid_id (run_ids n)" for n by (simp add: valid_id_def run_ids_def list_all_iff list_ex_iff lower_hex_def)
  have vals: "valid_endpoint ''/dev/video0''" "valid_endpoint ''/dev/video2''" by code_simp+
  show c: "candidate_validate (entry_candidate (run_entry INITIAL)) = None"
    using ids [of 1] vals by (simp add: candidate_validate_def entry_candidate_def run_entry_def eps MAX_CAMERA_ENDPOINTS_def INITIAL_def)
  show "valid_id (run_ids 0)" by (rule ids)
  have "endpoint_paths (en_observation (run_entry INITIAL)) = [''/dev/video0'', ''/dev/video2'']" by (simp add: run_entry_def eps)
  with c ids [of 0] show "snapshot 0 run_seen = \<lparr> sn_state = Current, sn_supervisor = Some (run_ids 0), sn_revision = 1, sn_observed_ago_ms = Some 0,
     sn_reason = None, sn_candidates = [entry_candidate (run_entry INITIAL)] \<rparr>"
    by (simp add: snapshot_def run_seen_fields Let_def snapshot_validate_def MAX_CAMERA_CANDIDATES_def MAX_CAMERA_ENDPOINTS_def
        MAX_CAMERA_ENDPOINT_BYTES_def elapsed_ms_def entry_candidate_def)
qed

text \<open>While the inventory is refreshing, the revision does not follow the candidates: invalidating
  one more camera takes it out of the snapshot under the same supervisor and revision.\<close>

lemma refreshing_keeps_its_revision:
  "\<exists>i i'. rtranclp inventory_step (inventory_new run_ids) i \<and> inventory_step i i' \<and>
     sn_supervisor (snapshot 0 i) = sn_supervisor (snapshot 0 i') \<and> sn_revision (snapshot 0 i) = sn_revision (snapshot 0 i') \<and>
     sn_candidates (snapshot 0 i) = [entry_candidate (run_entry INITIAL)] \<and> sn_candidates (snapshot 0 i') = []"
proof -
  let ?i = "invalidate_topologies [] run_seen" and ?t = "[''/devices/usb1'']"
  have fields: "ci_active ?i = ci_active run_seen" "ci_invalidated ?i = {}" "ci_state ?i = Refreshing" "ci_reason ?i = None"
    "ci_supervisor ?i = run_ids 0" "ci_revision ?i = 2" "ci_observed_at ?i = Some 0"
    by (simp_all add: invalidate_topologies_def mark_refreshing_def advance_revision_def checked_add_one run_seen_fields Let_def
        List.map_filter_def prune_roles_def)
  have fields': "ci_active (invalidate_topologies ?t ?i) = ci_active run_seen" "ci_invalidated (invalidate_topologies ?t ?i) = {run_ids 1}"
    "ci_state (invalidate_topologies ?t ?i) = Refreshing" "ci_reason (invalidate_topologies ?t ?i) = None"
    "ci_supervisor (invalidate_topologies ?t ?i) = run_ids 0" "ci_revision (invalidate_topologies ?t ?i) = 2"
    "ci_observed_at (invalidate_topologies ?t ?i) = Some 0"
    using fields by (simp_all add: invalidate_topologies_def [of ?t] mark_refreshing_def Let_def List.map_filter_def
        run_seen_fields run_entry_def prune_roles_def)
  have ids: "valid_id (run_ids 0)" and c: "candidate_validate (entry_candidate (run_entry INITIAL)) = None"
    by (rule run_snapshot)+
  have eps: "endpoint_paths (en_observation (run_entry INITIAL)) = [''/dev/video0'', ''/dev/video2'']"
    by (simp add: run_entry_def run_observation_def observation_with_endpoints_def sort_dedup_def)
  have s: "snapshot 0 ?i = \<lparr> sn_state = Refreshing, sn_supervisor = Some (run_ids 0), sn_revision = 2, sn_observed_ago_ms = Some 0,
     sn_reason = None, sn_candidates = [entry_candidate (run_entry INITIAL)] \<rparr>"
    using c ids eps fields by (simp add: snapshot_def run_seen_fields Let_def snapshot_validate_def MAX_CAMERA_CANDIDATES_def
        MAX_CAMERA_ENDPOINTS_def MAX_CAMERA_ENDPOINT_BYTES_def elapsed_ms_def entry_candidate_def)
  have s': "snapshot 0 (invalidate_topologies ?t ?i) = \<lparr> sn_state = Refreshing, sn_supervisor = Some (run_ids 0), sn_revision = 2,
     sn_observed_ago_ms = Some 0, sn_reason = None, sn_candidates = [] \<rparr>"
    using ids fields' by (simp add: snapshot_def run_seen_fields Let_def snapshot_validate_def elapsed_ms_def run_entry_def)
  have "rtranclp inventory_step (inventory_new run_ids) ?i"
    using census_run_steps(1) by (rule rtranclp.rtrancl_into_rtrancl) (rule inventory_step.intros)
  moreover have "inventory_step ?i (invalidate_topologies ?t ?i)" by (rule inventory_step.intros)
  ultimately show ?thesis
    by (intro exI [of _ ?i] exI [of _ "invalidate_topologies ?t ?i"]) (simp add: s s')
qed

theorem selection_is_the_camera_shown_witness:
  "\<exists>k e. map_of (ci_active run_seen) k = Some e \<and> se_candidate \<lparr> se_supervisor = run_ids 0, se_candidate = entry_candidate (run_entry INITIAL) \<rparr> =
     entry_candidate e \<and> holds_endpoint ''/dev/video0'' e"
proof -
  let ?sel = "\<lparr> se_supervisor = run_ids 0, se_candidate = entry_candidate (run_entry INITIAL) \<rparr>"
  have eps: "ca_endpoints (entry_candidate (run_entry INITIAL)) = [''/dev/video0'', ''/dev/video2'']"
    by (simp add: entry_candidate_def run_entry_def run_observation_def observation_with_endpoints_def sort_dedup_def)
  have "selection_matches ?sel (snapshot 0 run_seen) ''/dev/video0'' ''/dev/video2''"
    using run_snapshot(2,3) eps
    by (simp add: selection_matches_def selection_validate_def run_snapshot(1) snapshot_validate_def MAX_CAMERA_CANDIDATES_def)
  from selection_is_the_camera_shown [OF census_run_steps(1) rtranclp.rtrancl_refl _ this, of 0] show ?thesis
    by (auto simp: run_snapshot(1))
qed

text \<open>C33: A census is taken over exactly, or not at all. A committed reconciliation leaves one entry
  for each observation and no other, under its topology path; an unchanged and not
  invalidated camera keeps its entry, a changed or invalidated one keeps its identifier with
  the next generation (or, when the generations are used up, is retired and renamed), a new
  one starts at the first generation; nothing stays invalidated and no identifier is lost
  from the retired ones. An error or a census that was not quiet leaves everything as it was.\<close>

theorem census_is_taken_over_exactly:
  assumes "rtranclp inventory_step (inventory_new ids) i" "reconcile_guarded obs quiet now i = (r, i')"
  shows "if \<exists>events. r = Inr (events, True)
    then distinct (map ob_topology obs) \<and> dom (map_of (ci_active i')) = ob_topology ` set obs \<and>
      (\<forall>ob\<in>set obs. \<exists>e'. map_of (ci_active i') (ob_topology ob) = Some e' \<and> en_observation e' = ob \<and>
        (case map_of (ci_active i) (ob_topology ob) of
           None \<Rightarrow> en_generation e' = 1
         | Some e \<Rightarrow>
             if en_observation e = ob \<and> en_instance e \<notin> ci_invalidated i then e' = e
             else en_instance e' = en_instance e \<and> unat (en_generation e') = unat (en_generation e) + 1 \<or>
                  en_instance e \<in> ci_retired i' \<and> en_generation e = - 1 \<and> en_generation e' = 1)) \<and>
      ci_invalidated i' = {} \<and> ci_state i' = Current \<and> ci_retired i \<subseteq> ci_retired i'
    else \<exists>n. i' = i\<lparr> ci_drawn := n \<rparr>"
proof (cases "\<exists>events. r = Inr (events, True)")
  case False
  then show ?thesis using reconcile_uncommitted [OF assms(2)] by simp
next
  case True
  have ok: "inventory_ok i" using inventories.inv_reachable assms(1) by blast
  from True assms(2) obtain events where "reconcile_guarded obs quiet now i = (Inr (events, True), i')" by blast
  note c = reconcile_committed [OF this ok]
  let ?L = "map (\<lambda>ob. (ob_topology ob, ob)) obs"
  have keys: "\<And>k. key_result (ci_invalidated i) (map_of (ci_active i) k) (map_of ?L k) (map_of (ci_active i') k) (ci_retired i')"
    using c by blast
  have "distinct (map fst ?L)" using c by (simp add: comp_def)
  then have L: "map_of ?L (ob_topology ob) = Some ob" if "ob \<in> set obs" for ob using that by (subst map_of_eq_Some_iff) auto
  have "map_of (ci_active i') k = None \<longleftrightarrow> map_of ?L k = None" for k
    using keys [of k] by (cases "map_of ?L k") (auto simp: key_result_def)
  then have "dom (map_of (ci_active i')) = dom (map_of ?L)" by (auto simp: dom_def)
  then have dom: "dom (map_of (ci_active i')) = ob_topology ` set obs" by (simp add: dom_map_of_conv_image_fst image_image)
  have "\<exists>e'. map_of (ci_active i') (ob_topology ob) = Some e' \<and> en_observation e' = ob \<and>
        (case map_of (ci_active i) (ob_topology ob) of
           None \<Rightarrow> en_generation e' = 1
         | Some e \<Rightarrow>
             if en_observation e = ob \<and> en_instance e \<notin> ci_invalidated i then e' = e
             else en_instance e' = en_instance e \<and> unat (en_generation e') = unat (en_generation e) + 1 \<or>
                  en_instance e \<in> ci_retired i' \<and> en_generation e = - 1 \<and> en_generation e' = 1)" if "ob \<in> set obs" for ob
    using keys [of "ob_topology ob"] unfolding L [OF that] by (rule key_result_entry)
  with True c dom show ?thesis by simp
qed

theorem census_is_taken_over_exactly_witness:
  "\<exists>e'. map_of (ci_active run_again) ''/devices/usb1'' = Some e' \<and> en_observation e' = run_observation \<and> unat (en_generation e') = 2"
proof -
  have reach: "rtranclp inventory_step (inventory_new run_ids) (invalidate_all run_seen)"
    using census_run_steps(1,2) by (rule rtranclp_trans)
  let ?r = "reconcile_guarded [run_observation] True 5000000 (invalidate_all run_seen)"
  have committed: "\<exists>events. fst ?r = Inr (events, True)"
    by (simp add: reconcile_guarded_def run_topology sort_dedup_def reconcile_key_def invalidate_all_def
        run_seen_fields active_instances_def reconcile_start_def draft_change_def generation_next_def checked_add_one
        run_entry_def INITIAL_def Let_def)
  have "?r = (fst ?r, run_again)" by (simp add: run_again_def)
  from census_is_taken_over_exactly [OF reach this, unfolded if_P [OF committed]]
  have "\<exists>e'. map_of (ci_active run_again) (ob_topology run_observation) = Some e' \<and> en_observation e' = run_observation" by auto
  then show ?thesis by (simp add: run_topology run_again_fields run_entry_def)
qed

lemma published_active: "e \<in> set (published_entries i) \<Longrightarrow> e \<in> snd ` set (ci_active i) \<and> en_instance e \<notin> ci_invalidated i"
  by (auto simp: published_entries_def Let_def)

text \<open>A role is recorded only for the camera it was asked of. When a classification that started on
  one inventory is recorded in a later one, every role it adds is one of its answers, and it is
  bound to an entry that is the same in both inventories: the node was not renumbered,
  replaced or invalidated in between.\<close>

theorem role_is_recorded_for_the_camera_asked:
  assumes "rtranclp inventory_step (inventory_new ids) i" "rtranclp inventory_step i i'"
    and "ci_roles (record_roles (endpoint_generations i) classified i') key = Some role" "ci_roles i' key \<noteq> Some role"
  shows "(rk_endpoint key, role) \<in> set classified \<and>
    (\<exists>k e. map_of (ci_active i) k = Some e \<and> map_of (ci_active i') k = Some e \<and> holds_endpoint (rk_endpoint key) e \<and>
       rk_instance key = en_instance e \<and> rk_generation key = en_generation e \<and> en_instance e \<notin> ci_invalidated i')"
proof -
  have ok: "inventory_ok i" using inventories.inv_reachable assms(1) by blast
  have ok': "inventory_ok i'" by (rule inventories.inv_run [OF assms(2) ok])
  have "fold (record_role (endpoint_generations i) (endpoint_generations i')) classified (ci_roles i') key = Some role"
    using assms(3) by (simp add: record_roles_def)
  from record_fold_live [OF this] assms(4) obtain g where g: "(rk_endpoint key, role) \<in> set classified"
    "endpoint_generations i (rk_endpoint key) = Some g" "endpoint_generations i' (rk_endpoint key) = Some g"
    "key = role_key g (rk_endpoint key)" by blast
  obtain e where e: "e \<in> set (published_entries i)" "g = entry_generation i e" using endpoint_generation_entry [OF g(2)] by blast
  obtain e' where e': "e' \<in> set (published_entries i')" "holds_endpoint (rk_endpoint key) e'" "g = entry_generation i' e'"
    using endpoint_generation_entry [OF g(3)] by blast
  obtain k k' where k: "(k, e) \<in> set (ci_active i)" "(k', e') \<in> set (ci_active i')" "en_instance e' \<notin> ci_invalidated i'"
    using published_active [OF e(1)] published_active [OF e'(1)] by auto
  have at: "map_of (ci_active i) k = Some e" "map_of (ci_active i') k' = Some e'"
    using k ok ok' by (simp_all add: inventory_ok_def entries_ok_def bt_ok_mem)
  have "eg_instance g = en_instance e" "eg_instance g = en_instance e'" "eg_generation g = en_generation e" "eg_generation g = en_generation e'"
    using e(2) e'(3) by (simp_all add: entry_generation_def)
  with same_incarnation [OF ok' inventories.later_run [OF assms(2) ok] at] have same: "k = k' \<and> e = e'" by simp
  have "rk_instance key = eg_instance g" "rk_generation key = eg_generation g" by (subst g(4), simp add: role_key_def)+
  with g(1) at k(3) same e'(2) \<open>eg_instance g = en_instance e\<close> \<open>eg_generation g = en_generation e\<close> show ?thesis by auto
qed

lemma run_generations: "endpoint_generations run_seen ''/dev/video0'' = Some (entry_generation run_seen (run_entry INITIAL))"
proof -
  have eps: "endpoint_paths (en_observation (run_entry INITIAL)) = [''/dev/video0'', ''/dev/video2'']"
    by (simp add: run_entry_def run_observation_def observation_with_endpoints_def sort_dedup_def)
  show ?thesis
    by (simp add: endpoint_generations_def endpoint_claims_def published_entries_def run_seen_fields eps claim_endpoint_def)
qed

theorem role_is_recorded_for_the_camera_asked_witness:
  "\<exists>k e. map_of (ci_active run_seen) k = Some e \<and> holds_endpoint ''/dev/video0'' e \<and>
     rk_instance (role_key (entry_generation run_seen (run_entry INITIAL)) ''/dev/video0'') = en_instance e"
proof -
  let ?key = "role_key (entry_generation run_seen (run_entry INITIAL)) ''/dev/video0''"
  have none: "ci_roles run_seen key = None" for key
    by (simp add: run_seen_def reconcile_guarded_def run_topology sort_dedup_def reconcile_key_def inventory_new_def
      reconcile_start_def draft_add_def mint_first draft_put_def reconcile_commit_def advance_revision_def checked_add_one
      prune_roles_def Let_def)
  have "ci_roles (record_roles (endpoint_generations run_seen) [(''/dev/video0'', RoleIr)] run_seen) ?key = Some RoleIr"
    by (simp add: record_roles_def record_role_def run_generations none Let_def)
  from role_is_recorded_for_the_camera_asked [OF census_run_steps(1) rtranclp.rtrancl_refl this] show ?thesis
    by (auto simp: none role_key_def)
qed

end
