(* ===== verification/Lease_Session.thy ===== *)
theory Lease_Session
  imports Camera_Lease Camera_Identity
begin

text \<open>
  The life of one camera lease (\<^verbatim>\<open>CameraLease\<close> and \<^verbatim>\<open>CameraOperationSession\<close> in
  \<^verbatim>\<open>irlume-camera/src/lease.rs\<close>). Clones of a lease share one state word and one stream
  counter; every method is a sequence of atomic accesses to them, and threads interleave
  between the accesses. The methods are given whole, for one thread alone, and cut into their
  atomic accesses for the relation of all interleavings. The inventory answers a validation
  with an error or with nothing.
\<close>

section \<open>What a lease is bound to\<close>

record SplitSideExpectation =
  sx_instance :: string
  sx_generation :: u64
  sx_endpoint :: string
  sx_identity :: string
  sx_controller :: string
  sx_domain :: string
  sx_ports :: "u8 list"

record SplitLeaseRequest =
  sr_supervisor :: string
  sr_revision :: u64
  sr_rgb :: SplitSideExpectation
  sr_ir :: SplitSideExpectation

record CameraLeaseInner =
  li_references :: "CameraInventoryRef list"
  li_operation :: CameraOperationKind
  li_split :: "SplitLeaseRequest option"

definition validate_references :: "CameraInventory \<Rightarrow> CameraInventoryRef list \<Rightarrow> CameraLeaseError option" where
  "validate_references i refs =
     (if refs = [] then Some EmptyKey
      else if list_ex (\<lambda>r. validate_reference i r \<noteq> None) refs then Some Stale
      else None)"

definition reference_keys :: "CameraInventoryRef list \<Rightarrow> camera list" where
  "reference_keys refs = map (\<lambda>r. camera_instance_id (rf_descriptor r)) refs"

definition covers_endpoint :: "CameraLeaseInner \<Rightarrow> string \<Rightarrow> bool" where
  "covers_endpoint l path = (case li_split l of
      Some expected \<Rightarrow> path = sx_endpoint (sr_rgb expected) \<or> path = sx_endpoint (sr_ir expected)
    | None \<Rightarrow> list_ex (\<lambda>r. path \<in> set (rf_endpoints r)) (li_references l))"

text \<open>A split lease is checked against one publication: the snapshot and the endpoints that are
  classified under it.\<close>

datatype SplitRevalidationRefusal = PublicationUnavailable | SideMissing | RoleMismatch | FactMismatch

definition side_present :: "CameraInventorySnapshot \<Rightarrow> SplitSideExpectation \<Rightarrow> bool" where
  "side_present snap side = list_ex (\<lambda>c. ca_instance c = sx_instance side \<and> ca_generation c = sx_generation side \<and>
     sx_endpoint side \<in> set (ca_endpoints c)) (sn_candidates snap)"

definition check_side :: "SplitSideExpectation \<Rightarrow> Role \<Rightarrow> ClassifiedEndpoint list \<Rightarrow> SplitRevalidationRefusal option" where
  "check_side side role classified =
     (case find (\<lambda>e. ce_instance e = sx_instance side \<and> ce_generation e = sx_generation side \<and> ce_endpoint e = sx_endpoint side)
        classified of
        None \<Rightarrow> Some SideMissing
      | Some found \<Rightarrow>
          if ce_role found \<noteq> role then Some RoleMismatch
          else if length (filter (\<lambda>c. ce_instance c = sx_instance side \<and> ce_generation c = sx_generation side \<and> ce_role c = role)
            classified) \<noteq> 1 then Some RoleMismatch
          else if ce_identity found \<noteq> sx_identity side \<or> ce_controller found \<noteq> sx_controller side \<or>
            ce_domain found \<noteq> sx_domain side \<or> ce_ports found \<noteq> sx_ports side then Some FactMismatch
          else None)"

definition revalidate_against ::
    "SplitSideExpectation \<Rightarrow> SplitSideExpectation \<Rightarrow> CameraInventorySnapshot \<Rightarrow> ClassifiedEndpoint list \<Rightarrow>
       SplitRevalidationRefusal option" where
  "revalidate_against rgb ir snap classified =
     (if snapshot_validate snap \<noteq> None \<or> sn_state snap \<noteq> Current then Some PublicationUnavailable
      else if \<not> side_present snap rgb \<or> \<not> side_present snap ir then Some SideMissing
      else if sx_instance rgb = sx_instance ir \<or>
        (sx_identity rgb = sx_identity ir \<and> sx_controller rgb = sx_controller ir \<and> sx_domain rgb = sx_domain ir \<and>
         sx_ports rgb = sx_ports ir) then Some FactMismatch
      else case check_side rgb RoleRgb classified of
          Some e \<Rightarrow> Some e
        | None \<Rightarrow> check_side ir RoleIr classified)"

definition validate_split_publication ::
    "nat \<Rightarrow> CameraInventory \<Rightarrow> ClassifiedEndpoint list \<Rightarrow> SplitLeaseRequest \<Rightarrow> bool \<Rightarrow> CameraLeaseError option" where
  "validate_split_publication now i classified expected require_revision =
     (let snap = snapshot now i
      in if sn_supervisor snap \<noteq> Some (sr_supervisor expected) \<or> (require_revision \<and> sn_revision snap \<noteq> sr_revision expected)
         then Some Stale
         else case revalidate_against (sr_rgb expected) (sr_ir expected) snap classified of
             Some _ \<Rightarrow> Some Stale
           | None \<Rightarrow> None)"

text \<open>What the inventory answers a validation of the lease.\<close>

definition lease_verdict :: "nat \<Rightarrow> CameraInventory \<Rightarrow> ClassifiedEndpoint list \<Rightarrow> CameraLeaseInner \<Rightarrow> CameraLeaseError option" where
  "lease_verdict now i classified l = (case li_split l of
      None \<Rightarrow> validate_references i (li_references l)
    | Some expected \<Rightarrow>
        if list_ex (\<lambda>r. validate_reference i r \<noteq> None) (li_references l) then Some Stale
        else validate_split_publication now i classified expected False)"

text \<open>The supervisor's \<^verbatim>\<open>acquire_operation\<close> up to the authority: one reference for all endpoints.\<close>

definition operation_reference :: "CameraInventory \<Rightarrow> string list \<Rightarrow> CameraLeaseError + CameraInventoryRef" where
  "operation_reference i paths = (case reference_for_endpoints i paths of
      Inr r \<Rightarrow> Inr r
    | Inl UnknownCamera \<Rightarrow> Inl UnknownEndpoint
    | Inl (SpansPhysicalCameras n) \<Rightarrow> Inl (SplitPhysicalCamera n)
    | Inl _ \<Rightarrow> Inl Stale)"

section \<open>The state word and the stream counter\<close>

record lease_cell =
  lc_state :: CameraSessionState
  lc_streams :: u64

definition set_state :: "CameraSessionState \<Rightarrow> lease_cell \<Rightarrow> lease_cell" where
  "set_state s c = c\<lparr> lc_state := s \<rparr>"

text \<open>The atomic accesses. \<open>validate_read\<close> is what \<^verbatim>\<open>validate\<close> makes of the state it reads.\<close>

definition validate_read :: "CameraSessionState \<Rightarrow> CameraLeaseError option" where
  "validate_read s =
     (if s = ContinuityLost \<or> s = Released then Some Stale else if s = Fault then Some Poisoned else None)"

definition start_locked :: "bool \<Rightarrow> lease_cell \<Rightarrow> CameraLeaseError option \<times> lease_cell" where
  "start_locked split c =
     (let from = lc_state c
      in if split \<and> lc_streams c \<noteq> 0 then (Some SplitRequiresSequential, c)
      else if \<not> (from = Acquired \<or> from = Configured \<or> from = Streaming \<or> from = Stopping)
      then (Some (InvalidTransition from Streaming), c)
      else (None, c\<lparr> lc_streams := lc_streams c + 1, lc_state := Streaming \<rparr>))"

definition transition_valid :: "CameraSessionState \<Rightarrow> CameraSessionState \<Rightarrow> bool" where
  "transition_valid from to \<longleftrightarrow> (from, to) \<in> {(Acquired, Configured), (Configured, Streaming), (Streaming, Stopping),
     (Stopping, Released), (Acquired, Released), (Configured, Released)}"

definition transition_locked :: "CameraSessionState \<Rightarrow> lease_cell \<Rightarrow> CameraLeaseError option \<times> lease_cell" where
  "transition_locked to c =
     (if transition_valid (lc_state c) to then (None, set_state to c)
      else (Some (InvalidTransition (lc_state c) to), c))"

definition session_over :: "CameraSessionState \<Rightarrow> bool" where
  "session_over s \<longleftrightarrow> s = Fault \<or> s = ContinuityLost \<or> s = Released"

text \<open>The methods, as one thread alone runs them; \<open>verdict\<close> is the answer of the inventory.\<close>

definition lease_validate :: "CameraLeaseError option \<Rightarrow> lease_cell \<Rightarrow> CameraLeaseError option \<times> lease_cell" where
  "lease_validate verdict c = (case validate_read (lc_state c) of
      Some e \<Rightarrow> (Some e, c)
    | None \<Rightarrow> (case verdict of
        Some e \<Rightarrow> (Some e, set_state ContinuityLost c)
      | None \<Rightarrow> (None, c)))"

definition require_endpoint ::
    "CameraLeaseInner \<Rightarrow> CameraLeaseError option \<Rightarrow> string \<Rightarrow> lease_cell \<Rightarrow> CameraLeaseError option \<times> lease_cell" where
  "require_endpoint l verdict path c = (case lease_validate verdict c of
      (Some e, c') \<Rightarrow> (Some e, c')
    | (None, c') \<Rightarrow> (if covers_endpoint l path then None else Some EndpointNotCovered, c'))"

definition require_stream_role ::
    "CameraLeaseInner \<Rightarrow> CameraLeaseError option \<Rightarrow> string \<Rightarrow> StreamRole \<Rightarrow> lease_cell \<Rightarrow> CameraLeaseError option \<times> lease_cell" where
  "require_stream_role l verdict path role c = (case require_endpoint l verdict path c of
      (Some e, c') \<Rightarrow> (Some e, c')
    | (None, c') \<Rightarrow>
        (case li_split l of
           Some expected \<Rightarrow>
             if path = sx_endpoint (sr_rgb expected) \<and> role \<noteq> StreamRgb \<or> path = sx_endpoint (sr_ir expected) \<and> role \<noteq> StreamIr
             then Some EndpointNotCovered else None
         | None \<Rightarrow> None, c'))"

text \<open>The identity a frame is bound to: instance, generation and role.\<close>

definition frame_binding ::
    "CameraLeaseInner \<Rightarrow> CameraLeaseError option \<Rightarrow> string \<Rightarrow> StreamRole \<Rightarrow> lease_cell \<Rightarrow>
       (CameraLeaseError + CameraInstanceId \<times> u64 \<times> StreamRole) \<times> lease_cell" where
  "frame_binding l verdict path role c = (case require_stream_role l verdict path role c of
      (Some e, c') \<Rightarrow> (Inl e, c')
    | (None, c') \<Rightarrow>
        (case filter (\<lambda>r. path \<in> set (rf_endpoints r)) (li_references l) of
           [] \<Rightarrow> Inl EndpointNotCovered
         | [r] \<Rightarrow> Inr (camera_instance_id (rf_descriptor r), generation (rf_descriptor r), role)
         | _ \<Rightarrow> Inl AmbiguousEndpointBinding, c'))"

definition start_stream :: "bool \<Rightarrow> CameraLeaseError option \<Rightarrow> lease_cell \<Rightarrow> CameraLeaseError option \<times> lease_cell" where
  "start_stream split verdict c = (case lease_validate verdict c of
      (Some e, c') \<Rightarrow> (Some e, c')
    | (None, c') \<Rightarrow> start_locked split c')"

definition stop_stream :: "lease_cell \<Rightarrow> lease_cell" where
  "stop_stream c =
     (let previous = lc_streams c;
          c' = c\<lparr> lc_streams := previous - 1 \<rparr>
      in if previous = 0 then set_state Fault (c'\<lparr> lc_streams := 0 \<rparr>)
         else if previous = 1 \<and> lc_state c' = Streaming then set_state Stopping c'
         else c')"

definition transition ::
    "CameraSessionState \<Rightarrow> CameraLeaseError option \<Rightarrow> lease_cell \<Rightarrow> CameraLeaseError option \<times> lease_cell" where
  "transition to verdict c = (case lease_validate verdict c of
      (Some e, c') \<Rightarrow> (Some e, c')
    | (None, c') \<Rightarrow> transition_locked to c')"

definition session_drop :: "bool \<Rightarrow> lease_cell \<Rightarrow> lease_cell" where
  "session_drop release_on_drop c =
     (if \<not> release_on_drop then c else if session_over (lc_state c) then c else set_state Released c)"

section \<open>Every interleaving\<close>

text \<open>Where a thread is inside a method, and what it validates for.\<close>

datatype purpose = ForCheck | ForStart | ForMove CameraSessionState

datatype pc = Idle | AtRead purpose | AtCheck purpose | AtLose | AtStart | AtMove CameraSessionState
  | AtStopZero | AtStopFault | AtStopRead | AtStopWrite | AtDropWrite

text \<open>A step of one thread on its place, the shared words, and the number of streams that were
  started and not yet told to stop. A stream is stopped at most once, by its owner.\<close>

inductive thread_step :: "bool \<Rightarrow> pc \<times> lease_cell \<times> nat \<Rightarrow> pc \<times> lease_cell \<times> nat \<Rightarrow> bool" for split where
  enter: "thread_step split (Idle, c, n) (AtRead p, c, n)"
| read_over: "validate_read (lc_state c) \<noteq> None \<Longrightarrow> thread_step split (AtRead p, c, n) (Idle, c, n)"
| read_live: "validate_read (lc_state c) = None \<Longrightarrow> thread_step split (AtRead p, c, n) (AtCheck p, c, n)"
| stale: "thread_step split (AtCheck p, c, n) (AtLose, c, n)"
| lose: "thread_step split (AtLose, c, n) (Idle, set_state ContinuityLost c, n)"
| checked: "thread_step split (AtCheck ForCheck, c, n) (Idle, c, n)"
| to_start: "thread_step split (AtCheck ForStart, c, n) (AtStart, c, n)"
| to_move: "thread_step split (AtCheck (ForMove to), c, n) (AtMove to, c, n)"
| started: "start_locked split c = (None, c') \<Longrightarrow> thread_step split (AtStart, c, n) (Idle, c', n + 1)"
| not_started: "start_locked split c = (Some e, c') \<Longrightarrow> thread_step split (AtStart, c, n) (Idle, c', n)"
| moved: "transition_locked to c = (r, c') \<Longrightarrow> thread_step split (AtMove to, c, n) (Idle, c', n)"
| stop_none: "n > 0 \<Longrightarrow> lc_streams c = 0 \<Longrightarrow>
    thread_step split (Idle, c, n) (AtStopZero, c\<lparr> lc_streams := lc_streams c - 1 \<rparr>, n - 1)"
| stop_last: "n > 0 \<Longrightarrow> lc_streams c = 1 \<Longrightarrow>
    thread_step split (Idle, c, n) (AtStopRead, c\<lparr> lc_streams := lc_streams c - 1 \<rparr>, n - 1)"
| stop_more: "n > 0 \<Longrightarrow> lc_streams c \<noteq> 0 \<Longrightarrow> lc_streams c \<noteq> 1 \<Longrightarrow>
    thread_step split (Idle, c, n) (Idle, c\<lparr> lc_streams := lc_streams c - 1 \<rparr>, n - 1)"
| stop_zero: "thread_step split (AtStopZero, c, n) (AtStopFault, c\<lparr> lc_streams := 0 \<rparr>, n)"
| stop_fault: "thread_step split (AtStopFault, c, n) (Idle, set_state Fault c, n)"
| stop_read: "thread_step split (AtStopRead, c, n) (if lc_state c = Streaming then AtStopWrite else Idle, c, n)"
| stop_write: "thread_step split (AtStopWrite, c, n) (Idle, set_state Stopping c, n)"
| drop_read: "thread_step split (Idle, c, n) (if session_over (lc_state c) then Idle else AtDropWrite, c, n)"
| drop_write: "thread_step split (AtDropWrite, c, n) (Idle, set_state Released c, n)"
| fault: "thread_step split (Idle, c, n) (Idle, set_state Fault c, n)"

record session_world =
  sw_cell :: lease_cell
  sw_open :: nat
  sw_at :: "nat \<Rightarrow> pc"

inductive session_step :: "bool \<Rightarrow> session_world \<Rightarrow> session_world \<Rightarrow> bool" for split where
  "thread_step split (sw_at w t, sw_cell w, sw_open w) (p, c, n) \<Longrightarrow>
     session_step split w (w\<lparr> sw_cell := c, sw_open := n, sw_at := (sw_at w)(t := p) \<rparr>)"

definition session_start :: session_world where
  "session_start = \<lparr> sw_cell = \<lparr> lc_state = Acquired, lc_streams = 0 \<rparr>, sw_open = 0, sw_at = (\<lambda>_. Idle) \<rparr>"

inductive_cases thread_stepE: "thread_step split (p, c, n) (p', c', n')"

lemma session_stepE:
  assumes "session_step split w w'"
  obtains t p c n where "thread_step split (sw_at w t, sw_cell w, sw_open w) (p, c, n)"
    "w' = w\<lparr> sw_cell := c, sw_open := n, sw_at := (sw_at w)(t := p) \<rparr>"
  using assms by (auto elim: session_step.cases)

text \<open>The counter of a split lease: the number of its streams, which is at most one.\<close>

definition count_ok :: "session_world \<Rightarrow> bool" where
  "count_ok w \<longleftrightarrow> sw_open w \<le> 1 \<and> lc_streams (sw_cell w) = word_of_nat (sw_open w) \<and>
     (\<forall>t. sw_at w t \<noteq> AtStopZero \<and> sw_at w t \<noteq> AtStopFault)"

lemma start_locked_facts:
  "start_locked split c = (None, c') \<Longrightarrow> lc_streams c' = lc_streams c + 1 \<and> (split \<longrightarrow> lc_streams c = 0) \<and>
     lc_state c' = Streaming \<and> \<not> session_over (lc_state c)"
  "start_locked split c = (Some e, c') \<Longrightarrow> c' = c"
  by (auto simp: start_locked_def Let_def session_over_def split: if_splits)

lemma transition_locked_facts:
  "transition_locked to c = (r, c') \<Longrightarrow> lc_streams c' = lc_streams c \<and> (session_over (lc_state c) \<longrightarrow> c' = c)"
  by (auto simp: transition_locked_def transition_valid_def set_state_def session_over_def split: if_splits)

lemma count_thread:
  assumes "thread_step True (p, c, n) (p', c', n')" "n \<le> 1" "lc_streams c = word_of_nat n" "p \<noteq> AtStopZero" "p \<noteq> AtStopFault"
  shows "n' \<le> 1 \<and> lc_streams c' = word_of_nat n' \<and> p' \<noteq> AtStopZero \<and> p' \<noteq> AtStopFault"
proof -
  have n: "n = 0 \<or> n = 1" using assms(2) by auto
  from assms(1) show ?thesis
  proof cases
    case started
    then show ?thesis using start_locked_facts(1) [of True c c'] assms(3) n by auto
  next
    case not_started
    then show ?thesis using start_locked_facts(2) [of True c _ c'] assms(2,3) by auto
  next
    case moved
    then show ?thesis using transition_locked_facts [of _ c _ c'] assms(2,3) by auto
  next
    case stop_none
    then have "n = 1" using n by simp
    with stop_none assms(3) show ?thesis by simp
  next
    case stop_more
    then have "n = 1" using n by simp
    with stop_more assms(3) show ?thesis by simp
  qed (use assms n in \<open>auto simp: set_state_def\<close>)
qed

interpretation split_sessions: transition_system "\<lambda>w. w = session_start" "session_step True" count_ok
proof
  show "count_ok w" if "w = session_start" for w using that by (simp add: count_ok_def session_start_def)
  show "count_ok w'" if "session_step True w w'" "count_ok w" for w w'
    using that(1)
  proof (rule session_stepE)
    fix t p c n
    assume "thread_step True (sw_at w t, sw_cell w, sw_open w) (p, c, n)"
      and w': "w' = w\<lparr> sw_cell := c, sw_open := n, sw_at := (sw_at w)(t := p) \<rparr>"
    from count_thread [OF this(1)] that(2) show "count_ok w'" unfolding w' by (auto simp: count_ok_def)
  qed
qed

text \<open>A session that is over, with no thread about to write that it is stopping.\<close>

definition settled :: "session_world \<Rightarrow> bool" where
  "settled w \<longleftrightarrow> session_over (lc_state (sw_cell w)) \<and> (\<forall>t. sw_at w t \<noteq> AtStopWrite)"

lemma settled_thread:
  assumes "thread_step split (p, c, n) (p', c', n')" "session_over (lc_state c)" "p \<noteq> AtStopWrite"
  shows "session_over (lc_state c') \<and> p' \<noteq> AtStopWrite \<and> n' \<le> n"
proof -
  from assms(1) show ?thesis
  proof cases
    case started
    then show ?thesis using start_locked_facts(1) [of split c c'] assms(2) by auto
  next
    case not_started
    then show ?thesis using start_locked_facts(2) [of split c _ c'] assms(2) by auto
  next
    case moved
    then show ?thesis using transition_locked_facts [of _ c _ c'] assms(2) by auto
  qed (use assms(2,3) in \<open>auto simp: set_state_def session_over_def split: if_splits\<close>)
qed

lemma settled_step:
  assumes "session_step split w w'" "settled w"
  shows "settled w' \<and> sw_open w' \<le> sw_open w"
  using assms(1)
proof (rule session_stepE)
  fix t p c n
  assume "thread_step split (sw_at w t, sw_cell w, sw_open w) (p, c, n)"
    and w': "w' = w\<lparr> sw_cell := c, sw_open := n, sw_at := (sw_at w)(t := p) \<rparr>"
  from settled_thread [OF this(1)] assms(2) show ?thesis unfolding w' by (auto simp: settled_def)
qed

interpretation over: history_system settled "session_step split" settled "\<lambda>w w'. sw_open w' \<le> sw_open w" for split
  by unfold_locales (auto dest: settled_step)

section \<open>A stop that races with a lost camera\<close>

text \<open>Two threads: the first stops the last stream, the second finds the camera lost between the
  first one's reading of the state and its writing. The lease is streaming again afterwards.\<close>

definition duo :: "CameraSessionState \<Rightarrow> u64 \<Rightarrow> nat \<Rightarrow> pc \<Rightarrow> pc \<Rightarrow> session_world" where
  "duo s k n p q = \<lparr> sw_cell = \<lparr> lc_state = s, lc_streams = k \<rparr>, sw_open = n, sw_at = (\<lambda>_. Idle)(0 := p, 1 := q) \<rparr>"

lemma duo_step:
  "thread_step split (p, \<lparr> lc_state = s, lc_streams = k \<rparr>, n) (p', \<lparr> lc_state = s', lc_streams = k' \<rparr>, n') \<Longrightarrow>
    session_step split (duo s k n p q) (duo s' k' n' p' q)"
  "thread_step split (q, \<lparr> lc_state = s, lc_streams = k \<rparr>, n) (q', \<lparr> lc_state = s', lc_streams = k' \<rparr>, n') \<Longrightarrow>
    session_step split (duo s k n p q) (duo s' k' n' p q')"
  using session_step.intros [of split "duo s k n p q" 0 p' "\<lparr> lc_state = s', lc_streams = k' \<rparr>" n']
    session_step.intros [of split "duo s k n p q" 1 q' "\<lparr> lc_state = s', lc_streams = k' \<rparr>" n']
  by (simp_all add: duo_def fun_upd_twist)

lemma duo_start: "session_start = duo Acquired 0 0 Idle Idle"
  by (simp add: session_start_def duo_def fun_eq_iff)

lemma duo_starts:
  assumes "s = Acquired \<or> s = Stopping"
  shows "rtranclp (session_step split) (duo s 0 0 Idle Idle) (duo Streaming 1 1 Idle Idle)"
proof -
  have "validate_read s = None" using assms by (auto simp: validate_read_def)
  then have steps: "session_step split (duo s 0 0 Idle Idle) (duo s 0 0 (AtRead ForStart) Idle)"
    "session_step split (duo s 0 0 (AtRead ForStart) Idle) (duo s 0 0 (AtCheck ForStart) Idle)"
    "session_step split (duo s 0 0 (AtCheck ForStart) Idle) (duo s 0 0 AtStart Idle)"
    by (auto intro!: duo_step(1) thread_step.intros)
  have "start_locked split \<lparr> lc_state = s, lc_streams = 0 \<rparr> = (None, \<lparr> lc_state = Streaming, lc_streams = 1 \<rparr>)"
    using assms by (auto simp: start_locked_def)
  from duo_step(1) [OF thread_step.started [OF this, of 0]]
  have "session_step split (duo s 0 0 AtStart Idle) (duo Streaming 1 1 Idle Idle)" by simp
  with steps show ?thesis by (meson converse_rtranclp_into_rtranclp r_into_rtranclp)
qed

lemma lost_lease_may_stream_again:
  "\<exists>w w'. rtranclp (session_step split) session_start w \<and> lc_state (sw_cell w) = ContinuityLost \<and>
     rtranclp (session_step split) w w' \<and> lc_state (sw_cell w') = Streaming \<and> sw_open w' = 1"
proof -
  have "thread_step split (Idle, \<lparr> lc_state = Streaming, lc_streams = 1 \<rparr>, 1) (AtStopRead, \<lparr> lc_state = Streaming, lc_streams = 0 \<rparr>, 0)"
    using thread_step.stop_last [of 1 "\<lparr> lc_state = Streaming, lc_streams = 1 \<rparr>" split] by simp
  then have stop: "session_step split (duo Streaming 1 1 Idle Idle) (duo Streaming 0 0 AtStopRead Idle)" by (rule duo_step(1))
  have "thread_step split (AtStopRead, \<lparr> lc_state = Streaming, lc_streams = 0 \<rparr>, 0) (AtStopWrite, \<lparr> lc_state = Streaming, lc_streams = 0 \<rparr>, 0)"
    using thread_step.stop_read [of split "\<lparr> lc_state = Streaming, lc_streams = 0 \<rparr>" 0] by simp
  then have read: "session_step split (duo Streaming 0 0 AtStopRead Idle) (duo Streaming 0 0 AtStopWrite Idle)" by (rule duo_step(1))
  have check: "session_step split (duo Streaming 0 0 AtStopWrite Idle) (duo Streaming 0 0 AtStopWrite (AtRead ForCheck))"
    "session_step split (duo Streaming 0 0 AtStopWrite (AtRead ForCheck)) (duo Streaming 0 0 AtStopWrite (AtCheck ForCheck))"
    "session_step split (duo Streaming 0 0 AtStopWrite (AtCheck ForCheck)) (duo Streaming 0 0 AtStopWrite AtLose)"
    by (auto intro!: duo_step(2) thread_step.intros simp: validate_read_def)
  have "thread_step split (AtLose, \<lparr> lc_state = Streaming, lc_streams = 0 \<rparr>, 0) (Idle, \<lparr> lc_state = ContinuityLost, lc_streams = 0 \<rparr>, 0)"
    "thread_step split (AtStopWrite, \<lparr> lc_state = ContinuityLost, lc_streams = 0 \<rparr>, 0) (Idle, \<lparr> lc_state = Stopping, lc_streams = 0 \<rparr>, 0)"
    using thread_step.lose [of split "\<lparr> lc_state = Streaming, lc_streams = 0 \<rparr>" 0]
      thread_step.stop_write [of split "\<lparr> lc_state = ContinuityLost, lc_streams = 0 \<rparr>" 0] by (simp_all add: set_state_def)
  then have lose: "session_step split (duo Streaming 0 0 AtStopWrite AtLose) (duo ContinuityLost 0 0 AtStopWrite Idle)"
    and stops: "session_step split (duo ContinuityLost 0 0 AtStopWrite Idle) (duo Stopping 0 0 Idle Idle)"
    by (auto intro: duo_step)
  have "rtranclp (session_step split) session_start (duo ContinuityLost 0 0 AtStopWrite Idle)"
    using duo_starts [of Acquired split] stop read check lose unfolding duo_start
    by (meson rtranclp.rtrancl_into_rtrancl)
  moreover have "rtranclp (session_step split) (duo ContinuityLost 0 0 AtStopWrite Idle) (duo Streaming 1 1 Idle Idle)"
    using stops duo_starts [of Stopping split] by (meson converse_rtranclp_into_rtranclp)
  ultimately show ?thesis by (force simp: duo_def)
qed

section \<open>Properties\<close>

text \<open>A split lease streams one camera at a time. Along every interleaving of starts, stops,
  validations, transitions and drops on its clones, at most one stream of a split lease is
  open, its counter is exactly the number of open streams, and no stop finds the counter at
  zero.\<close>

theorem split_lease_streams_one_at_a_time:
  assumes "rtranclp (session_step True) session_start w"
  shows "sw_open w \<le> 1 \<and> unat (lc_streams (sw_cell w)) = sw_open w \<and> (\<forall>t. sw_at w t \<noteq> AtStopZero)"
proof -
  have "count_ok w" by (rule split_sessions.inv_reachable [OF refl assms])
  then have "sw_open w = 0 \<or> sw_open w = 1" "lc_streams (sw_cell w) = word_of_nat (sw_open w)"
    "\<forall>t. sw_at w t \<noteq> AtStopZero" by (auto simp: count_ok_def)
  then show ?thesis by auto
qed

theorem split_lease_streams_one_at_a_time_witness: "sw_open (duo Streaming 1 1 Idle Idle) \<le> 1"
  using split_lease_streams_one_at_a_time [of "duo Streaming 1 1 Idle Idle"] duo_starts [of Acquired True]
  by (simp add: duo_start)

text \<open>A session that is over stays over. Once a lease is released, faulted or lost its camera,
  and no thread is about to write that it is stopping, no method of any thread brings it back
  and no further stream is opened on it.\<close>

theorem session_that_is_over_stays_over:
  assumes "session_over (lc_state (sw_cell w))" "\<forall>t. sw_at w t \<noteq> AtStopWrite" "rtranclp (session_step split) w w'"
  shows "session_over (lc_state (sw_cell w')) \<and> sw_open w' \<le> sw_open w"
proof -
  have "settled w" using assms(1,2) by (simp add: settled_def)
  then have "settled w'" "sw_open w' \<le> sw_open w"
    using over.inv_run [OF assms(3)] over.later_run [OF assms(3)] by blast+
  then show ?thesis by (simp add: settled_def)
qed

theorem session_that_is_over_stays_over_witness:
  "session_over (lc_state (sw_cell (duo Released 0 0 (AtRead ForStart) Idle))) \<and> sw_open (duo Released 0 0 (AtRead ForStart) Idle) \<le> 0"
proof -
  have "session_step False (duo Released 0 0 Idle Idle) (duo Released 0 0 (AtRead ForStart) Idle)"
    by (intro duo_step(1) thread_step.enter)
  from session_that_is_over_stays_over [OF _ _ r_into_rtranclp [of "session_step False", OF this]] show ?thesis
    by (simp add: duo_def session_over_def)
qed

text \<open>C20: A lease that lost its camera never streams from it again. When the references of an
  ordinary lease were valid once and a later validation finds one of them gone, every later
  \<^verbatim>\<open>start_stream\<close> is refused, whatever state the threads of the lease left behind and whatever
  the inventory has seen meanwhile, the same camera plugged in again included.\<close>

theorem lost_camera_is_never_streamed_again:
  assumes "rtranclp inventory_step (inventory_new ids) i0" "lease_verdict now0 i0 cl0 l = None" "li_split l = None"
    and "rtranclp inventory_step i0 i1" "lease_verdict now1 i1 cl1 l \<noteq> None" "rtranclp inventory_step i1 i2"
  shows "\<exists>e. fst (start_stream False (lease_verdict now2 i2 cl2 l) c) = Some e"
proof -
  have ok0: "inventory_ok i0" using inventories.inv_reachable assms(1) by blast
  have ok1: "inventory_ok i1" by (rule inventories.inv_run [OF assms(4) ok0])
  from assms(2,3,5) obtain r where r: "r \<in> set (li_references l)" "validate_reference i0 r = None" "validate_reference i1 r \<noteq> None"
    by (auto simp: lease_verdict_def validate_references_def list_ex_iff split: if_splits)
  have "validate_reference i2 r \<noteq> None"
    using valid_reference_persists [OF inventories.inv_run [OF assms(6) ok1] inventories.later_run [OF assms(4) ok0]
        inventories.later_run [OF assms(6) ok1] r(2)] r(3) by blast
  with r(1) assms(3) have "lease_verdict now2 i2 cl2 l = Some Stale"
    by (auto simp: lease_verdict_def validate_references_def list_ex_iff)
  then show ?thesis by (auto simp: start_stream_def lease_validate_def split: option.split)
qed

definition run_lease :: CameraLeaseInner where
  "run_lease = \<lparr> li_references = [entry_reference (run_entry INITIAL)], li_operation = LeaseAuthentication, li_split = None \<rparr>"

theorem lost_camera_is_never_streamed_again_witness:
  "\<exists>e. fst (start_stream False (lease_verdict 9 run_again [] run_lease) \<lparr> lc_state = Acquired, lc_streams = 0 \<rparr>) = Some e"
proof -
  have key: "topology_path (cd_physical_id (rf_descriptor (entry_reference (run_entry g)))) = ''/devices/usb1''" for g
    using run_topology by (simp add: entry_reference_def run_entry_def ob_topology_def)
  have "validate_reference run_seen (entry_reference (run_entry INITIAL)) = None"
    unfolding validate_reference_None key by (simp add: run_seen_fields entry_reference_def)
  then have a: "lease_verdict 0 run_seen [] run_lease = None" by (simp add: lease_verdict_def validate_references_def run_lease_def)
  have "validate_reference (invalidate_all run_seen) (entry_reference (run_entry INITIAL)) \<noteq> None"
    unfolding validate_reference_None key by (simp add: run_seen_fields invalidate_all_def active_instances_def Let_def)
  then have b: "lease_verdict 0 (invalidate_all run_seen) [] run_lease \<noteq> None"
    by (simp add: lease_verdict_def validate_references_def run_lease_def)
  have "li_split run_lease = None" by (simp add: run_lease_def)
  from lost_camera_is_never_streamed_again [OF census_run_steps(1) a this census_run_steps(2) b census_run_steps(3)] show ?thesis by blast
qed

end
