(* ===== verification/Split_Key.thy ===== *)
theory Split_Key
  imports Rust_Text "HOL-Library.List_Lexorder" "HOL-Library.Char_ord" "HOL-Library.Product_Lexorder"
begin

text \<open>
  Keys of camera pairs (\<^verbatim>\<open>irlume-common/src/split_key.rs\<close> and
  \<^verbatim>\<open>irlume-common/src/binding_key.rs\<close>): the canonical text of a split pair with its encoder
  and its decoder, the typed order selection ranks by, and the bindings an account stores,
  with the rules by which a binding matches the cameras that are connected. A
  \<^verbatim>\<open>String\<close> is its bytes; that they are UTF-8 is \<open>is_text\<close>.
\<close>

section \<open>Keys\<close>

datatype SplitDomain = SuperSpeed | Usb2

datatype SplitUnitKey =
  SplitUnitKey (su_identity: string) (su_controller: string) (su_domain: SplitDomain) (su_ports: "u8 list")

datatype SplitPairKey = SplitPairKey (sp_rgb: SplitUnitKey) (sp_ir: SplitUnitKey)

datatype KeyError =
    BadClassTag | BadUnitShape | EmptyField | BadDomain | BadPorts | LowercaseHex | UnnecessaryEscape | BadEscape

section \<open>The canonical text\<close>

definition is_safe_byte :: "char \<Rightarrow> bool" where
  "is_safe_byte c \<longleftrightarrow> is_ascii_alphanumeric (of_char c) \<or> c \<in> {CHR '':'', CHR ''.'', CHR ''_'', CHR ''-''}"

text \<open>One digit of \<^verbatim>\<open>{b:02X}\<close>.\<close>

definition hex_upper :: "nat \<Rightarrow> char" where
  "hex_upper d = char_of (if d < 10 then 48 + d else 55 + d)"

definition percent_byte :: "char \<Rightarrow> string" where
  "percent_byte c =
     (if is_safe_byte c then [c]
      else [CHR ''%'', hex_upper (of_char c div 16), hex_upper (of_char c mod 16)])"

definition percent_encode :: "string \<Rightarrow> string" where
  "percent_encode text = concat (map percent_byte text)"

definition hex_value :: "char \<Rightarrow> nat option" where
  "hex_value c =
     (let b = of_char c :: nat in
      if 48 \<le> b \<and> b \<le> 57 then Some (b - 48)
      else if 65 \<le> b \<and> b \<le> 70 then Some (b - 55)
      else if 97 \<le> b \<and> b \<le> 102 then Some (b - 87) else None)"

definition is_ascii_lowercase :: "char \<Rightarrow> bool" where
  "is_ascii_lowercase c \<longleftrightarrow> 97 \<le> (of_char c :: nat) \<and> (of_char c :: nat) \<le> 122"

fun percent_decode_bytes :: "string \<Rightarrow> KeyError + string" where
  "percent_decode_bytes [] = Inr []"
| "percent_decode_bytes (c # cs) =
     (if c = CHR ''%'' then
        (case cs of
           hi # lo # rest \<Rightarrow>
             (case (hex_value hi, hex_value lo) of
                (Some h, Some l) \<Rightarrow>
                  if is_ascii_lowercase hi \<or> is_ascii_lowercase lo then Inl LowercaseHex
                  else if is_safe_byte (char_of (16 * h + l)) then Inl UnnecessaryEscape
                  else map_sum id ((#) (char_of (16 * h + l))) (percent_decode_bytes rest)
              | _ \<Rightarrow> Inl BadEscape)
         | _ \<Rightarrow> Inl BadEscape)
      else if is_safe_byte c then map_sum id ((#) c) (percent_decode_bytes cs)
      else Inl BadEscape)"

definition percent_decode :: "string \<Rightarrow> KeyError + string" where
  "percent_decode text = (case percent_decode_bytes text of
      Inl e \<Rightarrow> Inl e
    | Inr out \<Rightarrow> if is_text out then Inr out else Inl BadEscape)"

definition format_ports_text :: "u8 list \<Rightarrow> string" where
  "format_ports_text ports = join (CHR ''.'') (map (\<lambda>p. dec (unat p)) ports)"

text \<open>\<^verbatim>\<open>u16::from_str\<close>.\<close>

definition parse_u16 :: "nat list \<Rightarrow> nat option" where
  "parse_u16 s =
     (let ds = (case s of c # cs \<Rightarrow> if c = 43 then cs else s | [] \<Rightarrow> s)
      in if ds = [] then None
         else case parse_digits 0 ds of
             None \<Rightarrow> None
           | Some n \<Rightarrow> if n < 2 ^ 16 then Some n else None)"

definition canonical_decimal :: "string \<Rightarrow> bool" where
  "canonical_decimal s \<longleftrightarrow> s \<noteq> [] \<and> list_all is_digit s \<and> \<not> (length s > 1 \<and> hd s = CHR ''0'')"

definition parse_port :: "string \<Rightarrow> KeyError + u8" where
  "parse_port part =
     (if \<not> canonical_decimal part then Inl BadPorts
      else (case parse_u16 (codes part) of
          None \<Rightarrow> Inl BadPorts
        | Some v \<Rightarrow> if 1 \<le> v \<and> v \<le> 255 then Inr (word_of_nat v) else Inl BadPorts))"

fun parse_ports :: "string list \<Rightarrow> KeyError + u8 list" where
  "parse_ports [] = Inr []"
| "parse_ports (part # parts) = (case parse_port part of
      Inl e \<Rightarrow> Inl e
    | Inr p \<Rightarrow> map_sum id ((#) p) (parse_ports parts))"

definition parse_ports_text :: "string \<Rightarrow> KeyError + u8 list" where
  "parse_ports_text text = parse_ports (split_on (CHR ''.'') text)"

primrec domain_text :: "SplitDomain \<Rightarrow> string" where
  "domain_text SuperSpeed = ''superspeed''"
| "domain_text Usb2 = ''usb2''"

definition domain_parse :: "string \<Rightarrow> KeyError + SplitDomain" where
  "domain_parse text = (if text = ''superspeed'' then Inr SuperSpeed
     else if text = ''usb2'' then Inr Usb2 else Inl BadDomain)"

definition unit_format :: "SplitUnitKey \<Rightarrow> KeyError + string" where
  "unit_format u =
     (if su_identity u = [] \<or> su_controller u = [] then Inl EmptyField
      else if su_ports u = [] \<or> 0 \<in> set (su_ports u) then Inl BadPorts
      else Inr (percent_encode (su_identity u) @ ''|'' @ percent_encode (su_controller u) @ ''|'' @
             domain_text (su_domain u) @ ''|'' @ format_ports_text (su_ports u)))"

definition unit_parse :: "string \<Rightarrow> KeyError + SplitUnitKey" where
  "unit_parse text = (case split_on (CHR ''|'') text of
      [f0, f1, f2, f3] \<Rightarrow>
        (case percent_decode f0 of Inl e \<Rightarrow> Inl e | Inr i \<Rightarrow>
        (case percent_decode f1 of Inl e \<Rightarrow> Inl e | Inr c \<Rightarrow>
           if i = [] \<or> c = [] then Inl EmptyField
           else (case domain_parse f2 of Inl e \<Rightarrow> Inl e | Inr d \<Rightarrow>
                (case parse_ports_text f3 of Inl e \<Rightarrow> Inl e | Inr ps \<Rightarrow>
                   Inr (SplitUnitKey i c d ps)))))
    | _ \<Rightarrow> Inl BadUnitShape)"

definition pair_format :: "SplitPairKey \<Rightarrow> KeyError + string" where
  "pair_format k = (case unit_format (sp_rgb k) of Inl e \<Rightarrow> Inl e | Inr a \<Rightarrow>
     (case unit_format (sp_ir k) of Inl e \<Rightarrow> Inl e | Inr b \<Rightarrow> Inr (''split1;'' @ a @ '';'' @ b)))"

definition pair_parse :: "string \<Rightarrow> KeyError + SplitPairKey" where
  "pair_parse text = (case strip_prefix ''split1;'' text of
      None \<Rightarrow> Inl BadClassTag
    | Some rest \<Rightarrow> (case split_once (CHR '';'') rest of
        None \<Rightarrow> Inl BadUnitShape
      | Some (a, b) \<Rightarrow> (case unit_parse a of Inl e \<Rightarrow> Inl e | Inr rgb \<Rightarrow>
          (case unit_parse b of Inl e \<Rightarrow> Inl e | Inr ir \<Rightarrow> Inr (SplitPairKey rgb ir)))))"

section \<open>Every key has one text\<close>

text \<open>Comparisons of characters are comparisons of their bytes.\<close>

lemma char_code: "c = d \<longleftrightarrow> (of_char c :: nat) = of_char d"
  by simp

lemma hex_upper_value:
  assumes "d < 16"
  shows "hex_value (hex_upper d) = Some d" "\<not> is_ascii_lowercase (hex_upper d)"
  using assms by (auto simp: hex_upper_def hex_value_def is_ascii_lowercase_def Let_def)

lemma hex_value_upper:
  assumes "hex_value c = Some d" "\<not> is_ascii_lowercase c"
  shows "d < 16" "hex_upper d = c"
proof -
  have "48 \<le> (of_char c :: nat) \<and> (of_char c :: nat) \<le> 57 \<and> d = of_char c - 48 \<or>
      65 \<le> (of_char c :: nat) \<and> (of_char c :: nat) \<le> 70 \<and> d = of_char c - 55"
    using assms by (auto simp: hex_value_def is_ascii_lowercase_def Let_def split: if_splits)
  then show "d < 16" "hex_upper d = c" by (auto simp: hex_upper_def)
qed

lemma percent_not_safe [simp]: "\<not> is_safe_byte (CHR ''%'')"
  by (simp add: is_safe_byte_def is_ascii_alphanumeric_def)

lemma percent_decode_byte:
  "percent_decode_bytes (percent_byte c @ t) = map_sum id ((#) c) (percent_decode_bytes t)"
proof (cases "is_safe_byte c")
  case True
  then have "c \<noteq> CHR ''%''" by auto
  with True show ?thesis by (simp add: percent_byte_def)
next
  case False
  have "(of_char c :: nat) div 16 < 16" by (simp add: less_mult_imp_div_less)
  with False show ?thesis by (simp add: percent_byte_def hex_upper_value)
qed

lemma percent_decode_encode: "percent_decode_bytes (percent_encode s) = Inr s"
  by (induction s) (simp_all add: percent_encode_def percent_decode_byte)

lemma map_sum_Inr: "map_sum f g x = Inr y \<longleftrightarrow> (\<exists>z. x = Inr z \<and> y = g z)"
  by (cases x) auto

lemma percent_encode_decode: "percent_decode_bytes t = Inr s \<Longrightarrow> percent_encode s = t"
proof (induction t arbitrary: s rule: percent_decode_bytes.induct)
  case 1
  then show ?case by (simp add: percent_encode_def)
next
  case (2 c cs)
  show ?case
  proof (cases "c = CHR ''%''")
    case False
    with 2 show ?thesis by (auto simp: map_sum_Inr percent_encode_def percent_byte_def split: if_splits)
  next
    case pc: True
    with "2.prems" obtain hi lo rest h l u where cs: "cs = hi # lo # rest"
      and v: "hex_value hi = Some h" "hex_value lo = Some l" "\<not> is_ascii_lowercase hi" "\<not> is_ascii_lowercase lo"
      and ns: "\<not> is_safe_byte (char_of (16 * h + l))" and u: "percent_decode_bytes rest = Inr u"
      and s: "s = char_of (16 * h + l) # u"
      by (auto simp: map_sum_Inr split: list.splits option.splits if_splits)
    note h = hex_value_upper [OF v(1,3)] and l = hex_value_upper [OF v(2,4)]
    have "percent_encode u = rest" using "2.IH"(1) [OF pc cs refl refl v(1,2) _ ns u] v by simp
    moreover have "percent_byte (char_of (16 * h + l)) = [c, hi, lo]"
      using ns h l pc by (simp add: percent_byte_def)
    ultimately show ?thesis using s cs by (simp add: percent_encode_def)
  qed
qed

text \<open>\<^verbatim>\<open>Result::ok\<close>.\<close>

definition ok_of :: "'e + 'a \<Rightarrow> 'a option" where
  "ok_of r = (case r of Inl _ \<Rightarrow> None | Inr a \<Rightarrow> Some a)"

lemma ok_of_simps [simp]: "ok_of (Inl e) = None" "ok_of (Inr a) = Some a"
  by (simp_all add: ok_of_def)

lemma ok_of_Some [simp]: "ok_of r = Some a \<longleftrightarrow> r = Inr a"
  by (cases r) auto

interpretation percent: canonical_codec is_text percent_encode "\<lambda>t. ok_of (percent_decode t)"
proof
  show "ok_of (percent_decode t) = Some a \<longleftrightarrow> is_text a \<and> percent_encode a = t" for t a
    using percent_decode_encode [of a] percent_encode_decode [of t]
    by (auto simp: percent_decode_def split: sum.splits)
qed

lemma percent_encode_safe: "c \<in> set (percent_encode s) \<Longrightarrow> is_safe_byte c \<or> c = CHR ''%''"
proof -
  have "is_safe_byte (hex_upper d)" if "d < 16" for d
    using that by (auto simp: hex_upper_def is_safe_byte_def is_ascii_alphanumeric_def)
  moreover have "(of_char x :: nat) div 16 < 16" for x by (simp add: less_mult_imp_div_less)
  moreover assume "c \<in> set (percent_encode s)"
  ultimately show ?thesis by (auto simp: percent_encode_def percent_byte_def split: if_splits)
qed

text \<open>Decimal numbers without a leading zero.\<close>

lemma is_digit_codes: "list_all is_digit s \<longleftrightarrow> (\<forall>c\<in>set (codes s). 48 \<le> c \<and> c \<le> 57)"
  by (simp add: list_all_iff is_digit_def codes_def)

lemma hd_dec: "0 < n \<Longrightarrow> hd (dec n) \<noteq> CHR ''0''"
proof (induction n rule: dec.induct)
  case (1 n)
  show ?case
  proof (cases "n < 10")
    case True
    with "1.prems" show ?thesis by (subst dec.simps) (simp add: char_code)
  next
    case False
    with "1.IH" show ?thesis by (subst dec.simps) (simp add: dec_not_Nil hd_append)
  qed
qed

lemma canonical_dec: "canonical_decimal (dec n)"
proof (cases "n = 0")
  case True
  then show ?thesis by (simp add: canonical_decimal_def dec.simps is_digit_def)
next
  case False
  then show ?thesis
    using codes_dec_digits [of n] by (simp add: canonical_decimal_def dec_not_Nil hd_dec is_digit_codes)
qed

lemma parse_digits_snoc:
  "parse_digits 0 (xs @ [c]) = Some n \<longleftrightarrow> (\<exists>m. parse_digits 0 xs = Some m \<and> 48 \<le> c \<and> c \<le> 57 \<and> n = 10 * m + (c - 48))"
  by (auto simp: parse_digits_append bind_eq_Some_conv split: if_splits)

lemma dec_of_digits: "canonical_decimal s \<Longrightarrow> parse_digits 0 (codes s) = Some n \<Longrightarrow> dec n = s"
proof (induction s arbitrary: n rule: rev_induct)
  case Nil
  then show ?case by (simp add: canonical_decimal_def)
next
  case (snoc c s)
  then obtain m where m: "parse_digits 0 (codes s) = Some m" "48 \<le> (of_char c :: nat)" "(of_char c :: nat) \<le> 57"
      "n = 10 * m + (of_char c - 48)"
    by (auto simp: codes_def parse_digits_snoc)
  have d: "of_char c - 48 < (10 :: nat)" using m(3) by simp
  then have "n mod 10 = of_char c - 48" "n div 10 = m" using m(4) by simp_all
  with m(2) have c: "char_of (48 + n mod 10) = c" "n div 10 = m" by simp_all
  show ?case
  proof (cases "s = []")
    case True
    with m c d show ?thesis by (subst dec.simps) (simp add: codes_def)
  next
    case False
    with snoc.prems(1) have s: "canonical_decimal s" "hd s \<noteq> CHR ''0''"
      by (auto simp: canonical_decimal_def Suc_lessI)
    have ds: "dec m = s" by (rule snoc.IH [OF s(1) m(1)])
    have "dec 0 = ''0''" by (simp add: dec.simps char_code)
    with ds s(2) have "m \<noteq> 0" by (metis list.sel(1))
    then have "\<not> n < 10" using m(4) by simp
    then show ?thesis using ds c by (subst dec.simps) simp
  qed
qed

lemma parse_u16_digits:
  assumes "list_all is_digit s"
  shows "parse_u16 (codes s) = (if s = [] then None else
    case parse_digits 0 (codes s) of None \<Rightarrow> None | Some n \<Rightarrow> if n < 2 ^ 16 then Some n else None)"
  using assms by (cases s) (auto simp: parse_u16_def codes_def is_digit_def Let_def split: option.splits)

lemma parse_port_Inr: "parse_port t = Inr p \<longleftrightarrow> p \<noteq> 0 \<and> dec (unat p) = t"
proof
  assume "parse_port t = Inr p"
  then obtain n where n: "canonical_decimal t" "parse_u16 (codes t) = Some n" "1 \<le> n" "n \<le> 255" "p = word_of_nat n"
    by (auto simp: parse_port_def split: if_splits option.splits)
  then have "parse_digits 0 (codes t) = Some n"
    by (auto simp: canonical_decimal_def parse_u16_digits split: option.splits if_splits)
  then have "dec n = t" using n(1) by (simp add: dec_of_digits)
  moreover have "unat p = n" using n(4,5) by (simp add: unat_of_nat take_bit_eq_mod)
  ultimately show "p \<noteq> 0 \<and> dec (unat p) = t" using n(3) by auto
next
  assume a: "p \<noteq> 0 \<and> dec (unat p) = t"
  have "unat p < 256" using unsigned_less [of p] by simp
  moreover have "0 < unat p" using a by (simp add: unat_gt_0)
  moreover have "parse_u16 (codes (dec (unat p))) = Some (unat p)"
    using \<open>unat p < 256\<close> canonical_dec [of "unat p"]
    by (simp add: parse_u16_digits canonical_decimal_def parse_digits_dec)
  moreover have "t = dec (unat p)" using a by simp
  ultimately show "parse_port t = Inr p" by (simp add: parse_port_def canonical_dec)
qed

lemma parse_ports_Inr: "parse_ports ts = Inr ps \<longleftrightarrow> 0 \<notin> set ps \<and> map (\<lambda>p. dec (unat p)) ps = ts"
proof (induction ts arbitrary: ps)
  case (Cons t ts)
  have "parse_ports (t # ts) = Inr ps \<longleftrightarrow> (\<exists>p qs. ps = p # qs \<and> parse_port t = Inr p \<and> parse_ports ts = Inr qs)"
    by (auto simp: map_sum_Inr split: sum.split)
  then show ?case unfolding Cons.IH parse_port_Inr by (cases ps) auto
qed auto

interpretation ports: canonical_codec "\<lambda>ps. ps \<noteq> [] \<and> 0 \<notin> set ps" format_ports_text "\<lambda>t. ok_of (parse_ports_text t)"
proof
  fix t ps
  have nodot: "CHR ''.'' \<notin> set (dec n)" for n
    using codes_dec_digits [of n] by (force simp: codes_def)
  have "split_on (CHR ''.'') t = map (\<lambda>p. dec (unat p)) ps \<longleftrightarrow> ps \<noteq> [] \<and> format_ports_text ps = t"
    unfolding split_on_iff format_ports_text_def using nodot by auto
  then show "ok_of (parse_ports_text t) = Some ps \<longleftrightarrow> (ps \<noteq> [] \<and> 0 \<notin> set ps) \<and> format_ports_text ps = t"
    unfolding parse_ports_text_def ok_of_Some parse_ports_Inr by metis
qed

lemma domain_parse_Inr: "domain_parse t = Inr d \<longleftrightarrow> domain_text d = t"
  by (cases d) (auto simp: domain_parse_def)

definition unit_ok :: "SplitUnitKey \<Rightarrow> bool" where
  "unit_ok u \<longleftrightarrow> su_identity u \<noteq> [] \<and> su_controller u \<noteq> [] \<and> su_ports u \<noteq> [] \<and> 0 \<notin> set (su_ports u)"

definition unit_is_text :: "SplitUnitKey \<Rightarrow> bool" where
  "unit_is_text u \<longleftrightarrow> is_text (su_identity u) \<and> is_text (su_controller u)"

definition unit_text :: "SplitUnitKey \<Rightarrow> string" where
  "unit_text u = join (CHR ''|'') [percent_encode (su_identity u), percent_encode (su_controller u),
     domain_text (su_domain u), format_ports_text (su_ports u)]"

lemma unit_format_Inr: "unit_format u = Inr t \<longleftrightarrow> unit_ok u \<and> unit_text u = t"
  by (auto simp: unit_format_def unit_ok_def unit_text_def)

lemma unit_format_cases:
  obtains (fits) "unit_ok u" "unit_format u = Inr (unit_text u)" | (refused) e where "\<not> unit_ok u" "unit_format u = Inl e"
  using unit_format_Inr [of u] by (cases "unit_format u") auto

lemma percent_encode_Nil [simp]: "percent_encode s = [] \<longleftrightarrow> s = []"
  by (cases s) (simp_all add: percent_encode_def percent_byte_def)

lemma unit_fields_plain:
  assumes "c = CHR ''|'' \<or> c = CHR '';''"
  shows "c \<notin> set (percent_encode s)" "c \<notin> set (domain_text d)" "c \<notin> set (format_ports_text ps)"
proof -
  show "c \<notin> set (percent_encode s)"
    using percent_encode_safe [of c s] assms by (auto simp: is_safe_byte_def is_ascii_alphanumeric_def)
  show "c \<notin> set (domain_text d)" using assms by (cases d) auto
  have "c \<notin> set (dec n)" for n using codes_dec_digits [of n] assms by (force simp: codes_def)
  then show "c \<notin> set (format_ports_text ps)"
    using set_join [of "CHR ''.''" "map (\<lambda>p. dec (unat p)) ps"] assms by (auto simp: format_ports_text_def)
qed

interpretation unit_key: canonical_codec "\<lambda>u. unit_ok u \<and> unit_is_text u" unit_text "\<lambda>t. ok_of (unit_parse t)"
proof
  fix t u
  let ?fs = "[percent_encode (su_identity u), percent_encode (su_controller u),
     domain_text (su_domain u), format_ports_text (su_ports u)]"
  have split: "split_on (CHR ''|'') t = ?fs \<longleftrightarrow> unit_text u = t"
    unfolding split_on_iff unit_text_def using unit_fields_plain [of "CHR ''|''"] by simp
  have p: "percent_decode f = Inr s \<longleftrightarrow> is_text s \<and> percent_encode s = f" for f s
    using percent.dec_iff [of f s] by simp
  have q: "parse_ports_text f = Inr ps \<longleftrightarrow> (ps \<noteq> [] \<and> 0 \<notin> set ps) \<and> format_ports_text ps = f" for f ps
    using ports.dec_iff [of f ps] by simp
  have "unit_parse t = Inr u \<longleftrightarrow> (\<exists>f0 f1 f2 f3. split_on (CHR ''|'') t = [f0, f1, f2, f3] \<and>
      percent_decode f0 = Inr (su_identity u) \<and> percent_decode f1 = Inr (su_controller u) \<and>
      su_identity u \<noteq> [] \<and> su_controller u \<noteq> [] \<and> domain_parse f2 = Inr (su_domain u) \<and>
      parse_ports_text f3 = Inr (su_ports u))"
    by (cases u) (auto simp: unit_parse_def split: list.splits sum.splits if_splits)
  also have "\<dots> \<longleftrightarrow> split_on (CHR ''|'') t = ?fs \<and> unit_ok u \<and> unit_is_text u"
    unfolding p q domain_parse_Inr unit_ok_def unit_is_text_def by metis
  finally show "ok_of (unit_parse t) = Some u \<longleftrightarrow> (unit_ok u \<and> unit_is_text u) \<and> unit_text u = t"
    using split by auto
qed

definition pair_is_text :: "SplitPairKey \<Rightarrow> bool" where
  "pair_is_text k \<longleftrightarrow> unit_is_text (sp_rgb k) \<and> unit_is_text (sp_ir k)"

definition pair_text :: "SplitPairKey \<Rightarrow> string" where
  "pair_text k = ''split1;'' @ unit_text (sp_rgb k) @ CHR '';'' # unit_text (sp_ir k)"

lemma pair_format_Inr: "pair_format k = Inr t \<longleftrightarrow> unit_ok (sp_rgb k) \<and> unit_ok (sp_ir k) \<and> pair_text k = t"
  by (cases rule: unit_format_cases [of "sp_rgb k"]; cases rule: unit_format_cases [of "sp_ir k"])
    (auto simp: pair_format_def pair_text_def)

interpretation pair_key: canonical_codec
  "\<lambda>k. (unit_ok (sp_rgb k) \<and> unit_ok (sp_ir k)) \<and> pair_is_text k" pair_text "\<lambda>t. ok_of (pair_parse t)"
proof
  fix t k
  have u: "unit_parse f = Inr v \<longleftrightarrow> (unit_ok v \<and> unit_is_text v) \<and> unit_text v = f" for f v
    using unit_key.dec_iff [of f v] by simp
  have plain: "CHR '';'' \<notin> set (unit_text v)" for v
    using set_join [of "CHR ''|''" "[percent_encode (su_identity v), percent_encode (su_controller v),
       domain_text (su_domain v), format_ports_text (su_ports v)]"] unit_fields_plain [of "CHR '';''"]
    by (auto simp: unit_text_def)
  have "pair_parse t = Inr k \<longleftrightarrow> (\<exists>rest a b. strip_prefix ''split1;'' t = Some rest \<and>
      split_once (CHR '';'') rest = Some (a, b) \<and> unit_parse a = Inr (sp_rgb k) \<and> unit_parse b = Inr (sp_ir k))"
    by (cases k) (auto simp: pair_parse_def split: option.splits sum.splits)
  also have "\<dots> \<longleftrightarrow> strip_prefix ''split1;'' t = Some (unit_text (sp_rgb k) @ CHR '';'' # unit_text (sp_ir k)) \<and>
      (unit_ok (sp_rgb k) \<and> unit_ok (sp_ir k)) \<and> pair_is_text k"
    unfolding u split_once_Some pair_is_text_def using plain by auto
  also have "strip_prefix ''split1;'' t = Some r \<longleftrightarrow> ''split1;'' @ r = t" for r
    by (metis strip_prefix_append strip_prefix_def append_take_drop_id option.distinct(1) option.inject)
  finally show "ok_of (pair_parse t) = Some k \<longleftrightarrow>
      ((unit_ok (sp_rgb k) \<and> unit_ok (sp_ir k)) \<and> pair_is_text k) \<and> pair_text k = t"
    by (auto simp: pair_text_def)
qed

section \<open>The typed order\<close>

text \<open>The derived \<^verbatim>\<open>Ord\<close>: fields in the order they are declared, and a port chain before the
  longer ones it opens.\<close>

definition domain_rank :: "SplitDomain \<Rightarrow> nat" where
  "domain_rank d = (case d of SuperSpeed \<Rightarrow> 0 | Usb2 \<Rightarrow> 1)"

definition unit_rank :: "SplitUnitKey \<Rightarrow> string \<times> string \<times> nat \<times> u8 list" where
  "unit_rank u = (su_identity u, su_controller u, domain_rank (su_domain u), su_ports u)"

lemma unit_rank_inj: "inj unit_rank"
proof (rule injI)
  show "u = v" if "unit_rank u = unit_rank v" for u v
    using that by (cases u; cases v) (auto simp: unit_rank_def domain_rank_def split: SplitDomain.splits)
qed

instantiation SplitUnitKey :: linorder
begin

definition less_eq_SplitUnitKey :: "SplitUnitKey \<Rightarrow> SplitUnitKey \<Rightarrow> bool" where
  "less_eq_SplitUnitKey = (\<lambda>u v. unit_rank u \<le> unit_rank v)"

definition less_SplitUnitKey :: "SplitUnitKey \<Rightarrow> SplitUnitKey \<Rightarrow> bool" where
  "less_SplitUnitKey = (\<lambda>u v. unit_rank u < unit_rank v)"

instance
  by (rule linorder.intro_of_class)
    (simp only: less_eq_SplitUnitKey_def less_SplitUnitKey_def linorder_by_rank unit_rank_inj)

end

definition pair_rank :: "SplitPairKey \<Rightarrow> SplitUnitKey \<times> SplitUnitKey" where
  "pair_rank k = (sp_rgb k, sp_ir k)"

lemma pair_rank_inj: "inj pair_rank"
  by (rule injI) (auto simp: pair_rank_def intro: SplitPairKey.expand)

instantiation SplitPairKey :: linorder
begin

definition less_eq_SplitPairKey :: "SplitPairKey \<Rightarrow> SplitPairKey \<Rightarrow> bool" where
  "less_eq_SplitPairKey = (\<lambda>k l. pair_rank k \<le> pair_rank l)"

definition less_SplitPairKey :: "SplitPairKey \<Rightarrow> SplitPairKey \<Rightarrow> bool" where
  "less_SplitPairKey = (\<lambda>k l. pair_rank k < pair_rank l)"

instance
  by (rule linorder.intro_of_class)
    (simp only: less_eq_SplitPairKey_def less_SplitPairKey_def linorder_by_rank pair_rank_inj)

end

section \<open>Bindings\<close>

datatype PairBinding = OrdinaryBinding "string option" "string option" | SplitBinding SplitPairKey

datatype CompletePairKey = OrdinaryKey string string | SplitKey SplitPairKey

definition key_rank :: "CompletePairKey \<Rightarrow> nat \<times> string list \<times> SplitPairKey list" where
  "key_rank k = (case k of OrdinaryKey rgb ir \<Rightarrow> (0, [rgb, ir], []) | SplitKey p \<Rightarrow> (1, [], [p]))"

lemma key_rank_inj: "inj key_rank"
  by (rule injI) (auto simp: key_rank_def split: CompletePairKey.splits)

instantiation CompletePairKey :: linorder
begin

definition less_eq_CompletePairKey :: "CompletePairKey \<Rightarrow> CompletePairKey \<Rightarrow> bool" where
  "less_eq_CompletePairKey = (\<lambda>k l. key_rank k \<le> key_rank l)"

definition less_CompletePairKey :: "CompletePairKey \<Rightarrow> CompletePairKey \<Rightarrow> bool" where
  "less_CompletePairKey = (\<lambda>k l. key_rank k < key_rank l)"

instance
  by (rule linorder.intro_of_class)
    (simp only: less_eq_CompletePairKey_def less_CompletePairKey_def linorder_by_rank key_rank_inj)

end

definition bounded :: "string \<Rightarrow> bool" where
  "bounded s \<longleftrightarrow> s \<noteq> [] \<and> length s \<le> 256"

definition unit_bounded :: "SplitUnitKey \<Rightarrow> bool" where
  "unit_bounded u \<longleftrightarrow> bounded (su_identity u) \<and> bounded (su_controller u) \<and> length (su_ports u) \<le> 6"

text \<open>\<^verbatim>\<open>PairBinding::validate\<close>, as whether it succeeds.\<close>

definition binding_valid :: "PairBinding \<Rightarrow> bool" where
  "binding_valid b = (case b of
      OrdinaryBinding _ _ \<Rightarrow> True
    | SplitBinding k \<Rightarrow> (case pair_format k of
        Inl _ \<Rightarrow> False
      | Inr _ \<Rightarrow> list_all unit_bounded [sp_rgb k, sp_ir k]))"

definition complete_key :: "PairBinding \<Rightarrow> CompletePairKey option" where
  "complete_key b =
     (if \<not> binding_valid b then None
      else (case b of
          OrdinaryBinding (Some rgb) (Some ir) \<Rightarrow> if rgb \<noteq> [] \<and> ir \<noteq> [] then Some (OrdinaryKey rgb ir) else None
        | SplitBinding k \<Rightarrow> Some (SplitKey k)
        | OrdinaryBinding _ _ \<Rightarrow> None))"

definition side_matches :: "string option \<Rightarrow> string option \<Rightarrow> bool" where
  "side_matches want live = (case want of None \<Rightarrow> True | Some w \<Rightarrow> live = Some w)"

definition binding_matches :: "PairBinding \<Rightarrow> string option \<Rightarrow> string option \<Rightarrow> bool" where
  "binding_matches b live_rgb live_ir = (case b of
      OrdinaryBinding rgb ir \<Rightarrow> binding_valid b \<and> side_matches rgb live_rgb \<and> side_matches ir live_ir
    | SplitBinding _ \<Rightarrow> False)"

fun matches_binding :: "PairBinding \<Rightarrow> PairBinding \<Rightarrow> bool" where
  "matches_binding (OrdinaryBinding a b) (OrdinaryBinding rgb ir) = binding_matches (OrdinaryBinding a b) rgb ir"
| "matches_binding (SplitBinding want) (SplitBinding now) =
     (binding_valid (SplitBinding want) \<and> binding_valid (SplitBinding now) \<and> want = now)"
| "matches_binding (OrdinaryBinding _ _) (SplitBinding _) = False"
| "matches_binding (SplitBinding _) (OrdinaryBinding _ _) = False"

definition key_valid :: "CompletePairKey \<Rightarrow> bool" where
  "key_valid k = (case k of
      OrdinaryKey rgb ir \<Rightarrow> \<not> (rgb = [] \<or> ir = [])
    | SplitKey p \<Rightarrow> binding_valid (SplitBinding p))"

definition matches_key :: "PairBinding \<Rightarrow> CompletePairKey \<Rightarrow> bool" where
  "matches_key b live =
     (if \<not> key_valid live then False
      else (case live of
          OrdinaryKey rgb ir \<Rightarrow> binding_matches b (Some rgb) (Some ir)
        | SplitKey k \<Rightarrow> (case b of
            SplitBinding want \<Rightarrow> binding_valid b \<and> want = k
          | OrdinaryBinding _ _ \<Rightarrow> False)))"

definition rgb_identity :: "PairBinding \<Rightarrow> string option" where
  "rgb_identity b = (case b of OrdinaryBinding rgb _ \<Rightarrow> rgb | SplitBinding k \<Rightarrow> Some (su_identity (sp_rgb k)))"

definition ir_identity :: "PairBinding \<Rightarrow> string option" where
  "ir_identity b = (case b of OrdinaryBinding _ ir \<Rightarrow> ir | SplitBinding k \<Rightarrow> Some (su_identity (sp_ir k)))"

definition binding_of :: "CompletePairKey \<Rightarrow> PairBinding" where
  "binding_of k = (case k of OrdinaryKey rgb ir \<Rightarrow> OrdinaryBinding (Some rgb) (Some ir) | SplitKey p \<Rightarrow> SplitBinding p)"

text \<open>What is written and read: an object with both fields, or a text. Reading an object
  takes a missing field for an absent one.\<close>

datatype BindingValue = OrdinaryValue "string option" "string option" | SplitValue string

definition binding_serialize :: "PairBinding \<Rightarrow> BindingValue option" where
  "binding_serialize b =
     (if \<not> binding_valid b then None
      else (case b of
          OrdinaryBinding rgb ir \<Rightarrow> Some (OrdinaryValue rgb ir)
        | SplitBinding k \<Rightarrow> (case pair_format k of Inl _ \<Rightarrow> None | Inr t \<Rightarrow> Some (SplitValue t))))"

definition binding_deserialize :: "BindingValue \<Rightarrow> PairBinding option" where
  "binding_deserialize v =
     Option.bind (case v of
         OrdinaryValue rgb ir \<Rightarrow> Some (OrdinaryBinding rgb ir)
       | SplitValue t \<Rightarrow> map_option SplitBinding (ok_of (pair_parse t)))
       (\<lambda>b. if binding_valid b then Some b else None)"

definition key_serialize :: "CompletePairKey \<Rightarrow> BindingValue option" where
  "key_serialize k = (if key_valid k then binding_serialize (binding_of k) else None)"

definition key_deserialize :: "BindingValue \<Rightarrow> CompletePairKey option" where
  "key_deserialize v = Option.bind (binding_deserialize v) complete_key"

lemma complete_key_Some: "complete_key b = Some k \<longleftrightarrow> key_valid k \<and> b = binding_of k"
  by (auto simp: complete_key_def key_valid_def binding_of_def binding_valid_def
      split: PairBinding.splits CompletePairKey.splits option.splits if_splits)

text \<open>A complete binding matches by equality of the whole key, whichever way it is asked.\<close>

lemma complete_binding_matches:
  assumes "complete_key b = Some k"
  shows "matches_key b live \<longleftrightarrow> live = k"
    and "complete_key live_b = Some k' \<Longrightarrow> matches_binding b live_b \<longleftrightarrow> k = k'"
  using assms unfolding complete_key_Some
  by (auto simp: matches_key_def binding_of_def binding_matches_def side_matches_def key_valid_def binding_valid_def
      split: CompletePairKey.splits sum.splits)

section \<open>Properties\<close>

lemma pair_parse_iff: "pair_parse t = Inr k \<longleftrightarrow> pair_format k = Inr t \<and> pair_is_text k"
  using pair_key.dec_iff [of t k] by (auto simp: pair_format_Inr)

text \<open>C31: The text of a split pair is canonical: the decoder accepts a text exactly when the
  encoder writes it for the key it returns. So each key has one text, two texts are equal
  exactly when their keys are, and nothing else is accepted.\<close>

theorem split_key_text_is_canonical:
  "pair_parse t = Inr k \<longleftrightarrow> pair_format k = Inr t \<and> pair_is_text k"
  by (rule pair_parse_iff)

text \<open>A stored binding reads back as itself, and what reads back is what was stored; a complete
  key is read exactly from a valid complete binding.\<close>

definition binding_is_text :: "PairBinding \<Rightarrow> bool" where
  "binding_is_text b = (case b of OrdinaryBinding _ _ \<Rightarrow> True | SplitBinding k \<Rightarrow> pair_is_text k)"

lemma binding_serialize_Some: "binding_serialize b = Some v \<longleftrightarrow> binding_valid b \<and> the (binding_serialize b) = v"
  by (auto simp: binding_serialize_def binding_valid_def split: PairBinding.splits sum.splits)

interpretation stored_binding: canonical_codec
  "\<lambda>b. binding_valid b \<and> binding_is_text b" "\<lambda>b. the (binding_serialize b)" binding_deserialize
proof
  fix v b
  have "binding_deserialize v = Some b \<longleftrightarrow> binding_serialize b = Some v \<and> binding_is_text b"
    by (cases v; cases b) (auto simp: binding_deserialize_def binding_serialize_def binding_valid_def binding_is_text_def
        bind_eq_Some_conv pair_parse_iff split: sum.splits if_splits)
  then show "binding_deserialize v = Some b \<longleftrightarrow>
      (binding_valid b \<and> binding_is_text b) \<and> the (binding_serialize b) = v"
    unfolding binding_serialize_Some by blast
qed

lemma stored_key_reads_back:
  "key_deserialize v = Some k \<longleftrightarrow> key_serialize k = Some v \<and> binding_is_text (binding_of k)"
  unfolding key_deserialize_def key_serialize_def bind_eq_Some_conv complete_key_Some stored_binding.dec_iff
  using binding_serialize_Some by (auto split: if_splits)

end
