(* ===== verification/Secondary_Store.thy ===== *)
theory Secondary_Store
  imports Split_Key
begin

text \<open>
  The store of an account's added cameras (\<^verbatim>\<open>irlume-core/src/multi_camera.rs\<close> and
  \<^verbatim>\<open>irlume-core/src/crypto.rs\<close>): its data and the rules it must satisfy as a whole, whether it
  is active for the primary enrollment of the moment, which group a camera pair belongs to,
  the identifier a new group gets, and its file form, plain or encrypted. Embeddings and fitted
  calibrations are never looked into here, so their types \<open>'f\<close> and \<open>'c\<close> are arbitrary. The
  hash, the cipher, base64 and the JSON reader are arguments.
\<close>

section \<open>Data\<close>

record 'f FaceScan =
  sn_name :: string
  sn_rgb :: "'f list"
  sn_ir :: "'f list option"
  sn_ir_space :: "string option"
  sn_embed_space :: "string option"
  sn_ir_center_edge_ratio :: 'f
  sn_ir_brightness :: 'f
  sn_pitch :: 'f
  sn_captured_at :: "u64 option"

record ('f, 'c) SecondaryProfileScans =
  ps_profile :: string
  ps_scans :: "'f FaceScan list"
  ps_ir_calibs :: "(string \<times> 'c) list"

record ('f, 'c) SecondaryGroup =
  sg_id :: string
  sg_pair :: PairBinding
  sg_profiles :: "('f, 'c) SecondaryProfileScans list"

record ('f, 'c) SecondaryStore =
  ss_format_version :: u32
  ss_owner :: string
  ss_generation :: u64
  ss_primary_snapshot_sha256 :: string
  ss_groups :: "('f, 'c) SecondaryGroup list"

definition SECONDARY_STORE_VERSION :: u32 where "SECONDARY_STORE_VERSION = 1"
definition SECONDARY_ENC_ENVELOPE_VERSION :: u64 where "SECONDARY_ENC_ENVELOPE_VERSION = 2"
definition MAX_GROUPS :: nat where "MAX_GROUPS = 8"
definition MAX_SCANS_PER_PROFILE_GROUP :: nat where "MAX_SCANS_PER_PROFILE_GROUP = 30"
definition MAX_TOTAL_SCANS :: nat where "MAX_TOTAL_SCANS = 64"
definition MAX_STORE_BYTES :: nat where "MAX_STORE_BYTES = 8 * 1024 * 1024"
definition MAX_ID_BYTES :: nat where "MAX_ID_BYTES = 256"
definition MAX_CALIB_SPACES_PER_PROFILE_GROUP :: nat where "MAX_CALIB_SPACES_PER_PROFILE_GROUP = 4"

datatype store_rule =
    OwnerBounds | SnapshotNotHex | TooManyGroups | BadBinding | BindsNeitherSide string | IdentityBounds
  | NoProfiles string | ProfileBounds | ScanCount string string | CalibrationSpaces string string
  | RepeatedProfile string string | TooManyScans | DuplicateGroup string | GroupIdBounds
  | StoreTooLarge | SnapshotDisagrees | KeyUnavailable | NoFileStem

datatype SecondaryStoreError =
  Corrupt | IncompatibleVersion u32 | InvalidStore store_rule | StoreIo

definition CameraGroupId_new :: "string \<Rightarrow> SecondaryStoreError + string" where
  "CameraGroupId_new v =
     (if v = [] \<or> length v > MAX_ID_BYTES then Inl (InvalidStore GroupIdBounds) else Inr v)"

section \<open>Validation\<close>

definition lowercase_hex :: "char \<Rightarrow> bool" where
  "lowercase_hex c \<longleftrightarrow> is_digit c \<or> (97 \<le> (of_char c :: nat) \<and> (of_char c :: nat) \<le> 102)"

definition out_of_bounds :: "string \<Rightarrow> bool" where
  "out_of_bounds s \<longleftrightarrow> s = [] \<or> length s > MAX_ID_BYTES"

definition check_pair :: "('f, 'c) SecondaryGroup \<Rightarrow> store_rule option" where
  "check_pair g =
     (if \<not> binding_valid (sg_pair g) then Some BadBinding
      else if rgb_identity (sg_pair g) = None \<and> ir_identity (sg_pair g) = None then Some (BindsNeitherSide (sg_id g))
      else if \<exists>i\<in>set_option (rgb_identity (sg_pair g)) \<union> set_option (ir_identity (sg_pair g)). out_of_bounds i
      then Some IdentityBounds
      else if sg_profiles g = [] then Some (NoProfiles (sg_id g))
      else None)"

fun check_profiles ::
    "string \<Rightarrow> string set \<Rightarrow> nat \<Rightarrow> ('f, 'c) SecondaryProfileScans list \<Rightarrow> store_rule + nat" where
  "check_profiles gid refs total_scans [] = Inr total_scans"
| "check_profiles gid refs total_scans (p # ps) =
     (if out_of_bounds (ps_profile p) then Inl ProfileBounds
      else if ps_scans p = [] \<or> length (ps_scans p) > MAX_SCANS_PER_PROFILE_GROUP
      then Inl (ScanCount gid (ps_profile p))
      else if length (ps_ir_calibs p) > MAX_CALIB_SPACES_PER_PROFILE_GROUP
      then Inl (CalibrationSpaces gid (ps_profile p))
      else if ps_profile p \<in> refs then Inl (RepeatedProfile gid (ps_profile p))
      else check_profiles gid (insert (ps_profile p) refs) (total_scans + length (ps_scans p)) ps)"

fun check_groups :: "nat \<Rightarrow> ('f, 'c) SecondaryGroup list \<Rightarrow> store_rule + nat" where
  "check_groups total_scans [] = Inr total_scans"
| "check_groups total_scans (g # gs) = (case check_pair g of
      Some r \<Rightarrow> Inl r
    | None \<Rightarrow> (case check_profiles (sg_id g) {} total_scans (sg_profiles g) of
        Inl r \<Rightarrow> Inl r
      | Inr n \<Rightarrow> check_groups n gs))"

fun check_ids :: "string set \<Rightarrow> ('f, 'c) SecondaryGroup list \<Rightarrow> store_rule option" where
  "check_ids seen [] = None"
| "check_ids seen (g # gs) =
     (if sg_id g \<in> seen then Some (DuplicateGroup (sg_id g)) else check_ids (insert (sg_id g) seen) gs)"

definition store_validate :: "('f, 'c) SecondaryStore \<Rightarrow> SecondaryStoreError option" where
  "store_validate s =
     (if ss_format_version s \<noteq> SECONDARY_STORE_VERSION then Some (IncompatibleVersion (ss_format_version s))
      else if out_of_bounds (ss_owner s) then Some (InvalidStore OwnerBounds)
      else if length (ss_primary_snapshot_sha256 s) \<noteq> 64 \<or> \<not> list_all lowercase_hex (ss_primary_snapshot_sha256 s)
      then Some (InvalidStore SnapshotNotHex)
      else if length (ss_groups s) > MAX_GROUPS then Some (InvalidStore TooManyGroups)
      else (case check_groups 0 (ss_groups s) of
          Inl r \<Rightarrow> Some (InvalidStore r)
        | Inr total_scans \<Rightarrow>
            if total_scans > MAX_TOTAL_SCANS then Some (InvalidStore TooManyScans)
            else map_option InvalidStore (check_ids {} (ss_groups s))))"

text \<open>What validation accepts, group by group.\<close>

definition group_ok :: "('f, 'c) SecondaryGroup \<Rightarrow> bool" where
  "group_ok g \<longleftrightarrow> binding_valid (sg_pair g) \<and>
     (rgb_identity (sg_pair g) \<noteq> None \<or> ir_identity (sg_pair g) \<noteq> None) \<and>
     (\<forall>i\<in>set_option (rgb_identity (sg_pair g)) \<union> set_option (ir_identity (sg_pair g)). \<not> out_of_bounds i) \<and>
     sg_profiles g \<noteq> [] \<and> distinct (map ps_profile (sg_profiles g)) \<and>
     (\<forall>p\<in>set (sg_profiles g). \<not> out_of_bounds (ps_profile p) \<and> ps_scans p \<noteq> [] \<and>
        length (ps_scans p) \<le> MAX_SCANS_PER_PROFILE_GROUP \<and>
        length (ps_ir_calibs p) \<le> MAX_CALIB_SPACES_PER_PROFILE_GROUP)"

definition group_scans :: "('f, 'c) SecondaryGroup \<Rightarrow> nat" where
  "group_scans g = (\<Sum>p\<leftarrow>sg_profiles g. length (ps_scans p))"

lemma check_profiles_Inr:
  "check_profiles gid refs n ps = Inr m \<longleftrightarrow>
     distinct (map ps_profile ps) \<and> ps_profile ` set ps \<inter> refs = {} \<and>
     (\<forall>p\<in>set ps. \<not> out_of_bounds (ps_profile p) \<and> ps_scans p \<noteq> [] \<and>
        length (ps_scans p) \<le> MAX_SCANS_PER_PROFILE_GROUP \<and>
        length (ps_ir_calibs p) \<le> MAX_CALIB_SPACES_PER_PROFILE_GROUP) \<and>
     m = n + (\<Sum>p\<leftarrow>ps. length (ps_scans p))"
  by (induction ps arbitrary: refs n) auto

lemma check_groups_Inr:
  "check_groups n gs = Inr m \<longleftrightarrow> (\<forall>g\<in>set gs. group_ok g) \<and> m = n + (\<Sum>g\<leftarrow>gs. group_scans g)"
proof (induction gs arbitrary: n)
  case (Cons g gs)
  have "check_groups n (g # gs) = Inr m \<longleftrightarrow>
      check_pair g = None \<and> (\<exists>k. check_profiles (sg_id g) {} n (sg_profiles g) = Inr k \<and> check_groups k gs = Inr m)"
    by (auto split: option.splits sum.splits)
  also have "\<dots> \<longleftrightarrow> group_ok g \<and> check_groups (n + group_scans g) gs = Inr m"
    unfolding check_profiles_Inr group_ok_def group_scans_def by (auto simp: check_pair_def)
  finally show ?case unfolding Cons.IH by auto
qed auto

lemma check_ids_None: "check_ids seen gs = None \<longleftrightarrow> distinct (map sg_id gs) \<and> sg_id ` set gs \<inter> seen = {}"
  by (induction gs arbitrary: seen) auto

definition store_ok :: "('f, 'c) SecondaryStore \<Rightarrow> bool" where
  "store_ok s \<longleftrightarrow> ss_format_version s = SECONDARY_STORE_VERSION \<and> \<not> out_of_bounds (ss_owner s) \<and>
     length (ss_primary_snapshot_sha256 s) = 64 \<and> list_all lowercase_hex (ss_primary_snapshot_sha256 s) \<and>
     length (ss_groups s) \<le> MAX_GROUPS \<and> (\<forall>g\<in>set (ss_groups s). group_ok g) \<and>
     (\<Sum>g\<leftarrow>ss_groups s. group_scans g) \<le> MAX_TOTAL_SCANS \<and> distinct (map sg_id (ss_groups s))"

lemma store_validate_None: "store_validate s = None \<longleftrightarrow> store_ok s"
proof -
  have "store_validate s = None \<longleftrightarrow> ss_format_version s = SECONDARY_STORE_VERSION \<and> \<not> out_of_bounds (ss_owner s) \<and>
     (length (ss_primary_snapshot_sha256 s) = 64 \<and> list_all lowercase_hex (ss_primary_snapshot_sha256 s)) \<and>
     length (ss_groups s) \<le> MAX_GROUPS \<and>
     (\<exists>m. check_groups 0 (ss_groups s) = Inr m \<and> m \<le> MAX_TOTAL_SCANS \<and> check_ids {} (ss_groups s) = None)"
    by (auto simp: store_validate_def split: sum.splits)
  then show ?thesis unfolding check_groups_Inr check_ids_None store_ok_def by auto
qed

section \<open>Activation and lookup\<close>

definition hex_lower :: "nat \<Rightarrow> char" where
  "hex_lower d = char_of (if d < 10 then 48 + d else 87 + d)"

definition sha256_hex :: "(bytes \<Rightarrow> bytes) \<Rightarrow> bytes \<Rightarrow> string" where
  "sha256_hex sha b = concat (map (\<lambda>x. [hex_lower (unat x div 16), hex_lower (unat x mod 16)]) (sha b))"

datatype Activation = Active | InactivePrimaryChanged

definition activation_against ::
    "(bytes \<Rightarrow> bytes) \<Rightarrow> ('f, 'c) SecondaryStore \<Rightarrow> bytes option \<Rightarrow> Activation" where
  "activation_against sha s primary = (case primary of
      None \<Rightarrow> InactivePrimaryChanged
    | Some b \<Rightarrow> if sha256_hex sha b = ss_primary_snapshot_sha256 s then Active else InactivePrimaryChanged)"

definition group_for_pair ::
    "('f, 'c) SecondaryStore \<Rightarrow> string option \<Rightarrow> string option \<Rightarrow> ('f, 'c) SecondaryGroup option" where
  "group_for_pair s live_rgb live_ir = find (\<lambda>g. binding_matches (sg_pair g) live_rgb live_ir) (ss_groups s)"

definition group_for_binding :: "('f, 'c) SecondaryStore \<Rightarrow> PairBinding \<Rightarrow> ('f, 'c) SecondaryGroup option" where
  "group_for_binding s live = find (\<lambda>g. matches_binding (sg_pair g) live) (ss_groups s)"

datatype ('f, 'c) StrictPairMatch =
  MatchNone | MatchOne nat "('f, 'c) SecondaryGroup" | MatchAmbiguous

fun strict_scan ::
    "CompletePairKey \<Rightarrow> nat \<Rightarrow> (nat \<times> ('f, 'c) SecondaryGroup) option \<Rightarrow> ('f, 'c) SecondaryGroup list \<Rightarrow>
       ('f, 'c) StrictPairMatch" where
  "strict_scan key index found [] = (case found of Some (i, g) \<Rightarrow> MatchOne i g | None \<Rightarrow> MatchNone)"
| "strict_scan key index found (g # gs) =
     (if complete_key (sg_pair g) = Some key then
        (if found \<noteq> None then MatchAmbiguous else strict_scan key (Suc index) (Some (index, g)) gs)
      else strict_scan key (Suc index) found gs)"

definition strict_group_for_key :: "('f, 'c) SecondaryStore \<Rightarrow> CompletePairKey \<Rightarrow> ('f, 'c) StrictPairMatch" where
  "strict_group_for_key s key = (if key_valid key then strict_scan key 0 None (ss_groups s) else MatchNone)"

definition strict_group_for_pair :: "('f, 'c) SecondaryStore \<Rightarrow> string \<Rightarrow> string \<Rightarrow> ('f, 'c) StrictPairMatch" where
  "strict_group_for_pair s rgb ir = strict_group_for_key s (OrdinaryKey rgb ir)"

lemma strict_scan_Some:
  "strict_scan key index (Some (i, g)) gs =
     (if \<exists>h\<in>set gs. complete_key (sg_pair h) = Some key then MatchAmbiguous else MatchOne i g)"
  by (induction gs arbitrary: index) auto

lemma strict_scan_None:
  "strict_scan key index None gs = MatchOne i g \<longleftrightarrow>
     (\<exists>j<length gs. i = index + j \<and> g = gs ! j \<and> complete_key (sg_pair g) = Some key \<and>
        (\<forall>k<length gs. complete_key (sg_pair (gs ! k)) = Some key \<longrightarrow> k = j))"
proof (induction gs arbitrary: index)
  case (Cons h gs)
  show ?case
  proof (cases "complete_key (sg_pair h) = Some key")
    case True
    then show ?thesis
      by (auto simp: strict_scan_Some in_set_conv_nth nth_Cons' All_less_Suc2 Ex_less_Suc2 split: if_splits)
        (use Cons in force)+
  next
    case False
    then show ?thesis unfolding strict_scan.simps using Cons.IH [of "Suc index"]
      by (auto simp: All_less_Suc2 Ex_less_Suc2)
  qed
qed simp

text \<open>Exactly one group holds the key, wherever it stands.\<close>

lemma strict_group_One:
  "strict_group_for_key s key = MatchOne i g \<longleftrightarrow>
     key_valid key \<and> i < length (ss_groups s) \<and> g = ss_groups s ! i \<and> complete_key (sg_pair g) = Some key \<and>
     (\<forall>k<length (ss_groups s). complete_key (sg_pair (ss_groups s ! k)) = Some key \<longrightarrow> k = i)"
  by (auto simp: strict_group_for_key_def strict_scan_None)

section \<open>Identifiers of groups\<close>

primrec trim_dashes_front :: "string \<Rightarrow> string" where
  "trim_dashes_front [] = []"
| "trim_dashes_front (c # cs) = (if c = CHR ''-'' then trim_dashes_front cs else c # cs)"

definition trim_dashes :: "string \<Rightarrow> string" where
  "trim_dashes s = rev (trim_dashes_front (rev (trim_dashes_front s)))"

definition id_char :: "nat \<Rightarrow> char" where
  "id_char c = (if is_ascii_alphanumeric c then char_of (if 65 \<le> c \<and> c \<le> 90 then c + 32 else c) else CHR ''-'')"

definition id_stem :: "string option \<Rightarrow> string option \<Rightarrow> string" where
  "id_stem rgb ir =
     (let source = (case rgb of Some r \<Rightarrow> r | None \<Rightarrow> (case ir of Some i \<Rightarrow> i | None \<Rightarrow> ''camera''));
          stem = trim_dashes (take (MAX_ID_BYTES - 16) (map id_char (utf8_lossy (codes source))))
      in if stem = [] then ''camera'' else stem)"

definition id_candidate :: "string \<Rightarrow> nat \<Rightarrow> string" where
  "id_candidate stem suffix = ''cam-'' @ stem @ ''-'' @ dec suffix"

lemma inj_dec: "dec m = dec n \<longleftrightarrow> m = n"
  by (metis parse_digits_dec option.inject)

lemma id_candidate_inj: "id_candidate stem m = id_candidate stem n \<longleftrightarrow> m = n"
  by (simp add: id_candidate_def inj_dec)

lemma finite_candidates: "finite {n. m \<le> n \<and> id_candidate stem n \<in> set ids}"
proof (rule finite_subset)
  show "{n. m \<le> n \<and> id_candidate stem n \<in> set ids} \<subseteq> id_candidate stem -` set ids" by auto
  show "finite (id_candidate stem -` set ids)"
    by (rule finite_vimageI) (auto simp: inj_def id_candidate_inj)
qed

function next_candidate :: "string list \<Rightarrow> string \<Rightarrow> nat \<Rightarrow> string" where
  "next_candidate ids stem suffix =
     (if id_candidate stem suffix \<in> set ids then next_candidate ids stem (suffix + 1) else id_candidate stem suffix)"
  by pat_completeness auto
termination
proof (relation "measure (\<lambda>(ids, stem, suffix). card {n. suffix \<le> n \<and> id_candidate stem n \<in> set ids})")
  fix ids stem suffix
  assume "id_candidate stem suffix \<in> set ids"
  then have "{n. suffix \<le> n \<and> id_candidate stem n \<in> set ids} = insert suffix {n. suffix + 1 \<le> n \<and> id_candidate stem n \<in> set ids}"
    by (auto simp: le_eq_less_or_eq)
  then show "((ids, stem, suffix + 1), ids, stem, suffix) \<in>
      measure (\<lambda>(ids, stem, suffix). card {n. suffix \<le> n \<and> id_candidate stem n \<in> set ids})"
    using finite_candidates [of "suffix + 1"] by simp
qed simp

declare next_candidate.simps [simp del]

definition derive_group_id ::
    "('f, 'c) SecondaryStore \<Rightarrow> string option \<Rightarrow> string option \<Rightarrow> SecondaryStoreError + string" where
  "derive_group_id s rgb ir =
     (let ids = map sg_id (ss_groups s); stem = id_stem rgb ir; candidate = ''cam-'' @ stem
      in CameraGroupId_new (if candidate \<in> set ids then next_candidate ids stem 2 else candidate))"

lemma next_candidate_found:
  obtains m where "next_candidate ids stem k = id_candidate stem m" "id_candidate stem m \<notin> set ids" "m \<le> k + length ids"
proof -
  have "\<exists>m. next_candidate ids stem k = id_candidate stem m \<and> id_candidate stem m \<notin> set ids \<and>
      m \<le> k + card {n. k \<le> n \<and> id_candidate stem n \<in> set ids}"
  proof (induction ids stem k rule: next_candidate.induct)
    case (1 ids stem k)
    show ?case
    proof (cases "id_candidate stem k \<in> set ids")
      case True
      then have "{n. k \<le> n \<and> id_candidate stem n \<in> set ids} = insert k {n. k + 1 \<le> n \<and> id_candidate stem n \<in> set ids}"
        by (auto simp: le_eq_less_or_eq)
      with finite_candidates [of "k + 1"]
      have "card {n. k \<le> n \<and> id_candidate stem n \<in> set ids} = Suc (card {n. k + 1 \<le> n \<and> id_candidate stem n \<in> set ids})"
        by simp
      with "1.IH" [OF True] True show ?thesis by (subst next_candidate.simps) auto
    next
      case False
      then show ?thesis by (subst next_candidate.simps) auto
    qed
  qed
  moreover have "card {n. k \<le> n \<and> id_candidate stem n \<in> set ids} \<le> length ids"
  proof -
    have "card {n. k \<le> n \<and> id_candidate stem n \<in> set ids} =
        card (id_candidate stem ` {n. k \<le> n \<and> id_candidate stem n \<in> set ids})"
      by (rule card_image [symmetric]) (simp add: inj_on_def id_candidate_inj)
    also have "\<dots> \<le> card (set ids)" by (rule card_mono) auto
    also have "\<dots> \<le> length ids" by (rule card_length)
    finally show ?thesis .
  qed
  ultimately show ?thesis using that by (meson add_left_mono order_trans)
qed

lemma length_dec: "n < 10 ^ k \<Longrightarrow> 0 < k \<Longrightarrow> length (dec n) \<le> k"
proof (induction k arbitrary: n)
  case (Suc k)
  show ?case
  proof (cases "n < 10")
    case True
    then show ?thesis by (subst dec.simps) simp
  next
    case False
    with Suc.prems have "n div 10 < 10 ^ k" "0 < k" by (auto simp: less_mult_imp_div_less intro: gr0I)
    with Suc.IH False show ?thesis by (subst dec.simps) simp
  qed
qed simp

lemma length_trim_dashes: "length (trim_dashes s) \<le> length s"
proof -
  have "length (trim_dashes_front r) \<le> length r" for r by (induction r) auto
  then show ?thesis unfolding trim_dashes_def by (metis length_rev order_trans)
qed

lemma length_id_stem: "length (id_stem rgb ir) \<le> 240"
  using length_trim_dashes [of "take (MAX_ID_BYTES - 16) r" for r]
  by (auto simp: id_stem_def Let_def MAX_ID_BYTES_def intro: order_trans)

section \<open>Files\<close>

text \<open>
  A file is parsed in two ways: as a JSON document, of which three members are read, and as a
  store. \<open>sc_store\<close> is the derived reader of the store's structs, which refuses an
  identifier \<^verbatim>\<open>CameraGroupId\<close> refuses. \<open>sc_seal\<close> and \<open>sc_unseal\<close> are AES-256-GCM under a key and
  a nonce.
\<close>

record json_doc =
  jd_format_version :: "u64 option"
  jd_key_id :: "string option"
  jd_enc :: "string option"

record ('f, 'c) store_codec =
  sc_sha256 :: "bytes \<Rightarrow> bytes"
  sc_seal :: "bytes \<Rightarrow> bytes \<Rightarrow> bytes \<Rightarrow> bytes option"
  sc_unseal :: "bytes \<Rightarrow> bytes \<Rightarrow> bytes \<Rightarrow> bytes option"
  sc_b64 :: "bytes \<Rightarrow> string"
  sc_unb64 :: "string \<Rightarrow> bytes option"
  sc_doc :: "bytes \<Rightarrow> json_doc option"
  sc_envelope :: "json_doc \<Rightarrow> bytes option"
  sc_store :: "bytes \<Rightarrow> ('f, 'c) SecondaryStore option"
  sc_print :: "('f, 'c) SecondaryStore \<Rightarrow> bytes option"

definition KEY_LEN :: nat where "KEY_LEN = 32"
definition NONCE_LEN :: nat where "NONCE_LEN = 12"
definition TAG_LEN :: nat where "TAG_LEN = 16"

definition encrypt :: "('f, 'c, 'z) store_codec_scheme \<Rightarrow> bytes \<Rightarrow> bytes \<Rightarrow> bytes \<Rightarrow> bytes option" where
  "encrypt cd nonce key plaintext =
     (if length key \<noteq> KEY_LEN then None else map_option (\<lambda>ct. nonce @ ct) (sc_seal cd key nonce plaintext))"

definition decrypt :: "('f, 'c, 'z) store_codec_scheme \<Rightarrow> bytes \<Rightarrow> bytes \<Rightarrow> bytes option" where
  "decrypt cd key blob =
     (if length key \<noteq> KEY_LEN then None
      else if length blob < NONCE_LEN + TAG_LEN then None
      else sc_unseal cd key (take NONCE_LEN blob) (drop NONCE_LEN blob))"

text \<open>The bytes of the store inside a file: the file itself, or what its envelope opens to.\<close>

definition store_payload ::
    "('f, 'c, 'z) store_codec_scheme \<Rightarrow> bytes \<Rightarrow> bytes option \<Rightarrow> SecondaryStoreError + bytes" where
  "store_payload cd b key = (case sc_doc cd b of
      None \<Rightarrow> Inl Corrupt
    | Some d \<Rightarrow> (case jd_format_version d of
        None \<Rightarrow> Inl Corrupt
      | Some declared \<Rightarrow>
          if declared = ucast SECONDARY_STORE_VERSION then Inr b
          else if declared = SECONDARY_ENC_ENVELOPE_VERSION then
            (case key of
               None \<Rightarrow> Inl (InvalidStore KeyUnavailable)
             | Some k \<Rightarrow>
                 if jd_key_id d \<noteq> Some (sha256_hex (sc_sha256 cd) k) then Inl Corrupt
                 else (case Option.bind (Option.bind (jd_enc d) (sc_unb64 cd)) (decrypt cd k) of
                     None \<Rightarrow> Inl Corrupt
                   | Some plain \<Rightarrow> Inr plain))
          else Inl (IncompatibleVersion (if declared < 2 ^ 32 then ucast declared else - 1))))"

definition parse_store_bytes ::
    "('f, 'c, 'z) store_codec_scheme \<Rightarrow> bytes \<Rightarrow> bytes option \<Rightarrow> SecondaryStoreError + ('f, 'c) SecondaryStore" where
  "parse_store_bytes cd b key = (case store_payload cd b key of
      Inl e \<Rightarrow> Inl e
    | Inr store_bytes \<Rightarrow> (case sc_store cd store_bytes of
        None \<Rightarrow> Inl Corrupt
      | Some s \<Rightarrow> (case store_validate s of Some e \<Rightarrow> Inl e | None \<Rightarrow> Inr s)))"

datatype read_result = ReadOk bytes | ReadMissing | ReadFailed

definition read_bounded :: "read_result \<Rightarrow> SecondaryStoreError + bytes option" where
  "read_bounded r = (case r of
      ReadMissing \<Rightarrow> Inr None
    | ReadFailed \<Rightarrow> Inl StoreIo
    | ReadOk b \<Rightarrow> if length b > MAX_STORE_BYTES then Inl (InvalidStore StoreTooLarge) else Inr (Some b))"

definition load_secondary_with_key ::
    "('f, 'c, 'z) store_codec_scheme \<Rightarrow> read_result \<Rightarrow> bytes option \<Rightarrow> SecondaryStoreError + ('f, 'c) SecondaryStore option" where
  "load_secondary_with_key cd r key = (case read_bounded r of
      Inl e \<Rightarrow> Inl e
    | Inr None \<Rightarrow> Inr None
    | Inr (Some b) \<Rightarrow> map_sum id Some (parse_store_bytes cd b key))"

text \<open>\<^verbatim>\<open>Path::file_stem\<close> of a file name: without its last extension, unless the dot opens it.\<close>

fun rsplit_dot :: "string \<Rightarrow> string option" where
  "rsplit_dot [] = None"
| "rsplit_dot (c # cs) = (case rsplit_dot cs of
      Some s \<Rightarrow> Some (c # s)
    | None \<Rightarrow> if c = CHR ''.'' then Some [] else None)"

definition file_stem :: "string \<Rightarrow> string option" where
  "file_stem name =
     (if name = [] \<or> name = ''..'' then None
      else (case rsplit_dot name of None \<Rightarrow> Some name | Some [] \<Rightarrow> Some name | Some s \<Rightarrow> Some s))"

definition store_user :: "string \<Rightarrow> SecondaryStoreError + string" where
  "store_user name = (case file_stem name of None \<Rightarrow> Inl (InvalidStore NoFileStem) | Some u \<Rightarrow> Inr u)"

text \<open>The key is asked for only when the store is encrypted. \<^verbatim>\<open>load_secondary_resolved\<close> reads the
  file a second time after it has seen the version; \<open>again\<close> is what that read answers.\<close>

definition load_secondary_with_source ::
    "('f, 'c, 'z) store_codec_scheme \<Rightarrow> string \<Rightarrow> read_result \<Rightarrow> (string \<Rightarrow> SecondaryStoreError + bytes option) \<Rightarrow>
       SecondaryStoreError + ('f, 'c) SecondaryStore option" where
  "load_secondary_with_source cd name r keys = (case read_bounded r of
      Inl e \<Rightarrow> Inl e
    | Inr None \<Rightarrow> Inr None
    | Inr (Some b) \<Rightarrow> (case Option.bind (sc_doc cd b) jd_format_version of
        None \<Rightarrow> Inl Corrupt
      | Some declared \<Rightarrow>
          if declared \<noteq> SECONDARY_ENC_ENVELOPE_VERSION then map_sum id Some (parse_store_bytes cd b None)
          else (case store_user name of Inl e \<Rightarrow> Inl e | Inr user \<Rightarrow>
               (case keys user of Inl e \<Rightarrow> Inl e | Inr key \<Rightarrow> map_sum id Some (parse_store_bytes cd b key)))))"

definition load_secondary_resolved ::
    "('f, 'c, 'z) store_codec_scheme \<Rightarrow> string \<Rightarrow> read_result \<Rightarrow> read_result \<Rightarrow> (string \<Rightarrow> SecondaryStoreError + bytes option) \<Rightarrow>
       SecondaryStoreError + ('f, 'c) SecondaryStore option" where
  "load_secondary_resolved cd name r again key_for = (case read_bounded r of
      Inl e \<Rightarrow> Inl e
    | Inr None \<Rightarrow> Inr None
    | Inr (Some b) \<Rightarrow> (case Option.bind (sc_doc cd b) jd_format_version of
        None \<Rightarrow> Inl Corrupt
      | Some declared \<Rightarrow>
          if declared = SECONDARY_ENC_ENVELOPE_VERSION
          then (case store_user name of Inl e \<Rightarrow> Inl e | Inr user \<Rightarrow>
               (case key_for user of Inl e \<Rightarrow> Inl e | Inr key \<Rightarrow> load_secondary_with_key cd again key))
          else load_secondary_with_key cd again None))"

text \<open>The bytes a save writes: the printed store, or the envelope around its encryption.\<close>

definition store_file_bytes ::
    "('f, 'c, 'z) store_codec_scheme \<Rightarrow> bytes \<Rightarrow> ('f, 'c) SecondaryStore \<Rightarrow> bytes option \<Rightarrow> bytes option" where
  "store_file_bytes cd nonce s key = (case sc_print cd s of
      None \<Rightarrow> None
    | Some json \<Rightarrow> (case key of
        None \<Rightarrow> Some json
      | Some k \<Rightarrow> (case encrypt cd nonce k json of
          None \<Rightarrow> None
        | Some blob \<Rightarrow> sc_envelope cd \<lparr> jd_format_version = Some SECONDARY_ENC_ENVELOPE_VERSION,
            jd_key_id = Some (sha256_hex (sc_sha256 cd) k), jd_enc = Some (sc_b64 cd blob) \<rparr>)))"

definition secondary_bytes ::
    "('f, 'c, 'z) store_codec_scheme \<Rightarrow> bytes \<Rightarrow> ('f, 'c) SecondaryStore \<Rightarrow> bytes option \<Rightarrow> SecondaryStoreError + bytes" where
  "secondary_bytes cd nonce s key = (case store_validate s of
      Some e \<Rightarrow> Inl e
    | None \<Rightarrow> (case store_file_bytes cd nonce s key of
        None \<Rightarrow> Inl StoreIo
      | Some b \<Rightarrow> if length b > MAX_STORE_BYTES then Inl (InvalidStore StoreTooLarge) else Inr b))"

text \<open>What is relied on of the hash, the cipher, base64 and the JSON library: digests of 32
  bytes, ciphertexts that carry their tag and open under the key and nonce they were made
  with, and documents and stores that read back as they were printed.\<close>

definition codec_ok :: "('f, 'c, 'z) store_codec_scheme \<Rightarrow> bool" where
  "codec_ok cd \<longleftrightarrow>
     (\<forall>b. length (sc_sha256 cd b) = 32) \<and>
     (\<forall>k n p ct. sc_seal cd k n p = Some ct \<longrightarrow> TAG_LEN \<le> length ct \<and> sc_unseal cd k n ct = Some p) \<and>
     (\<forall>b. sc_unb64 cd (sc_b64 cd b) = Some b) \<and>
     (\<forall>d b. sc_envelope cd d = Some b \<longrightarrow> sc_doc cd b = Some d) \<and>
     (\<forall>s b. sc_print cd s = Some b \<longrightarrow> sc_store cd b = Some s \<and>
        (\<exists>d. sc_doc cd b = Some d \<and> jd_format_version d = Some (ucast (ss_format_version s))))"

text \<open>Nothing is returned that is not valid as a whole, whatever the file holds.\<close>

lemma loaded_store_ok:
  "parse_store_bytes cd b key = Inr s \<Longrightarrow> store_ok s"
  by (auto simp: parse_store_bytes_def store_validate_None split: option.splits sum.splits if_splits)

lemma version_codes: "(ucast SECONDARY_STORE_VERSION :: u64) = 1" "SECONDARY_ENC_ENVELOPE_VERSION \<noteq> 1"
  by (simp_all add: SECONDARY_STORE_VERSION_def SECONDARY_ENC_ENVELOPE_VERSION_def)

lemma decrypt_encrypt:
  assumes "codec_ok cd" "length nonce = NONCE_LEN" "encrypt cd nonce key p = Some blob"
  shows "decrypt cd key blob = Some p" "NONCE_LEN + TAG_LEN \<le> length blob"
proof -
  obtain ct where ct: "length key = KEY_LEN" "sc_seal cd key nonce p = Some ct" "blob = nonce @ ct"
    using assms(3) by (auto simp: encrypt_def split: if_splits)
  then have "TAG_LEN \<le> length ct" "sc_unseal cd key nonce ct = Some p"
    using assms(1) unfolding codec_ok_def by blast+
  with ct assms(2) show "decrypt cd key blob = Some p" "NONCE_LEN + TAG_LEN \<le> length blob"
    by (simp_all add: decrypt_def)
qed

lemma written_store_reads_back:
  assumes ok: "codec_ok cd" and s: "store_ok s" and n: "length nonce = NONCE_LEN"
    and w: "store_file_bytes cd nonce s key = Some b"
  shows "parse_store_bytes cd b key = Inr s"
proof -
  obtain json where p: "sc_print cd s = Some json" using w by (auto simp: store_file_bytes_def split: option.splits)
  then obtain d where "sc_store cd json = Some s" "sc_doc cd json = Some d"
      "jd_format_version d = Some (ucast (ss_format_version s))"
    using ok unfolding codec_ok_def by blast
  moreover have "ss_format_version s = SECONDARY_STORE_VERSION" using s by (simp add: store_ok_def)
  ultimately have j: "sc_print cd s = Some json" "sc_store cd json = Some s" "sc_doc cd json = Some d"
      "jd_format_version d = Some 1" using p version_codes(1) by simp_all
  have v: "store_validate s = None" using s by (simp add: store_validate_None)
  show ?thesis
  proof (cases key)
    case None
    with w j v show ?thesis by (simp add: store_file_bytes_def parse_store_bytes_def store_payload_def version_codes)
  next
    case (Some k)
    with w j(1) obtain blob where blob: "encrypt cd nonce k json = Some blob"
      and b: "sc_envelope cd \<lparr> jd_format_version = Some SECONDARY_ENC_ENVELOPE_VERSION,
            jd_key_id = Some (sha256_hex (sc_sha256 cd) k), jd_enc = Some (sc_b64 cd blob) \<rparr> = Some b"
      by (auto simp: store_file_bytes_def split: option.splits)
    then have "sc_doc cd b = Some \<lparr> jd_format_version = Some SECONDARY_ENC_ENVELOPE_VERSION,
            jd_key_id = Some (sha256_hex (sc_sha256 cd) k), jd_enc = Some (sc_b64 cd blob) \<rparr>"
      "sc_unb64 cd (sc_b64 cd blob) = Some blob" using ok by (auto simp: codec_ok_def)
    with Some j v decrypt_encrypt [OF ok n blob] show ?thesis
      by (simp add: parse_store_bytes_def store_payload_def version_codes)
  qed
qed

text \<open>A new camera group always gets an identifier, within the bound and of no group that
  exists: the search over numbered names ends, and the constructor never refuses its result,
  for every store whose group count leaves the counter in range.\<close>

theorem new_group_gets_a_fresh_identifier:
  assumes "length (ss_groups s) + 2 < 2 ^ 31"
  shows "\<exists>i. derive_group_id s rgb ir = Inr i \<and> i \<notin> sg_id ` set (ss_groups s) \<and> i \<noteq> [] \<and> length i \<le> MAX_ID_BYTES"
proof -
  let ?ids = "map sg_id (ss_groups s)" and ?stem = "id_stem rgb ir"
  obtain m where m: "next_candidate ?ids ?stem 2 = id_candidate ?stem m" "id_candidate ?stem m \<notin> set ?ids"
    "m \<le> 2 + length ?ids" by (rule next_candidate_found)
  have "m < 10 ^ 10" using m(3) assms by simp
  then have "length (dec m) \<le> 10" by (rule length_dec) simp
  then have "length (id_candidate ?stem m) \<le> 256" using length_id_stem [of rgb ir] by (simp add: id_candidate_def)
  moreover have "length (''cam-'' @ ?stem) \<le> 256" using length_id_stem [of rgb ir] by simp
  ultimately show ?thesis
    using m(1,2) by (auto simp: derive_group_id_def CameraGroupId_new_def Let_def MAX_ID_BYTES_def id_candidate_def)
qed

definition example_group :: "string \<Rightarrow> PairBinding \<Rightarrow> (nat, nat) SecondaryGroup" where
  "example_group i b = \<lparr> sg_id = i, sg_pair = b, sg_profiles =
     [\<lparr> ps_profile = ''alice'', ps_scans = [\<lparr> sn_name = ''s'', sn_rgb = [1], sn_ir = None, sn_ir_space = None,
          sn_embed_space = None, sn_ir_center_edge_ratio = 0, sn_ir_brightness = 0, sn_pitch = 0, sn_captured_at = None \<rparr>],
        ps_ir_calibs = [] \<rparr>] \<rparr>"

definition example_store :: "string \<Rightarrow> (nat, nat) SecondaryGroup list \<Rightarrow> (nat, nat) SecondaryStore" where
  "example_store digest gs = \<lparr> ss_format_version = 1, ss_owner = ''alice'', ss_generation = 1,
     ss_primary_snapshot_sha256 = digest, ss_groups = gs \<rparr>"

theorem new_group_gets_a_fresh_identifier_witness:
  "\<exists>i. derive_group_id (example_store [] [example_group ''cam-camera'' (OrdinaryBinding None None)]) None None = Inr i \<and>
     i \<noteq> ''cam-camera'' \<and> length i \<le> MAX_ID_BYTES"
  using new_group_gets_a_fresh_identifier
    [of "example_store [] [example_group ''cam-camera'' (OrdinaryBinding None None)]" None None]
  by (auto simp: example_store_def example_group_def)

end
