(* ===== verification/Camera_Selection.thy ===== *)
theory Camera_Selection
  imports Secondary_Store
begin

text \<open>
  Which connected camera pair a request uses (\<^verbatim>\<open>irlume-core/src/multi_camera/selection.rs\<close>): the
  ranking of an account's enrolled pairs and the ranking of the pairs a first enrollment may
  use. \<open>'k\<close> is the caller's handle of a pair. The caller's answer whether an enrollment can
  serve the request may change its own state, so it is a function from that state.
\<close>

section \<open>Facts and outcomes\<close>

record 'k CandidatePair =
  cp_key :: 'k
  cp_rgb_identity :: string
  cp_ir_identity :: string
  cp_fixed :: bool

record 'k BoundCandidatePair =
  bc_key :: 'k
  bc_pair :: CompletePairKey
  bc_rgb_fixed :: bool
  bc_ir_fixed :: bool

record AccountCameras =
  ac_primary :: "PairBinding option"
  ac_secondary_active :: bool
  ac_secondary_unreadable :: bool
  ac_groups :: "PairBinding list"

datatype ('f, 'c) SecondaryFacts = FactsAbsent | FactsUnreadable | FactsLoaded "('f, 'c) SecondaryStore" Activation

definition from_stores :: "string \<Rightarrow> PairBinding option \<Rightarrow> ('f, 'c) SecondaryFacts \<Rightarrow> AccountCameras" where
  "from_stores user bnd secondary =
     (let (active, unreadable, groups) = (case secondary of
          FactsAbsent \<Rightarrow> (False, False, [])
        | FactsLoaded store act \<Rightarrow>
            if ss_owner store = user then (act = Active, False, map sg_pair (ss_groups store)) else (False, True, [])
        | FactsUnreadable \<Rightarrow> (False, True, []))
      in \<lparr> ac_primary = bnd, ac_secondary_active = active, ac_secondary_unreadable = unreadable, ac_groups = groups \<rparr>)"

datatype CandidateScope = ScopePrimary | ScopeSecondary nat

datatype SkipReason =
  AmbiguousGroups | SecondaryInactive | ExternalForbidden | Indistinguishable | NotEligible

type_synonym Skipped = "CandidateScope \<times> SkipReason"

datatype RefusalCause =
  InvalidBinding | NoEnrolledCameraConnected | SecondaryUnreadable | SkippedFor SkipReason

datatype 'k SelectionOutcome =
    Selected 'k CandidateScope "Skipped list"
  | NotApplicable "Skipped list"
  | Refused RefusalCause "Skipped list"

record ExternalCameraPolicy =
  ep_forbid_external :: bool
  ep_split_built_in_only :: bool

definition policy_excludes :: "ExternalCameraPolicy \<Rightarrow> 'k BoundCandidatePair \<Rightarrow> bool" where
  "policy_excludes p c \<longleftrightarrow>
     (ep_forbid_external p \<or> (ep_split_built_in_only p \<and> (case bc_pair c of SplitKey _ \<Rightarrow> True | OrdinaryKey _ _ \<Rightarrow> False))) \<and>
     \<not> (bc_rgb_fixed c \<and> bc_ir_fixed c)"

section \<open>Choosing among the enrolled pairs\<close>

definition complete_groups :: "AccountCameras \<Rightarrow> (nat \<times> CompletePairKey) list" where
  "complete_groups a =
     sort_key (\<lambda>(i, k). (k, i))
       (List.map_filter (\<lambda>(i, b). map_option (\<lambda>k. (i, k)) (complete_key b)) (enumerate 0 (ac_groups a)))"

definition primary_key :: "AccountCameras \<Rightarrow> CompletePairKey option" where
  "primary_key a = Option.bind (ac_primary a) complete_key"

definition malformed_split :: "AccountCameras \<Rightarrow> bool" where
  "malformed_split a \<longleftrightarrow> primary_key a = None \<and>
     (case ac_primary a of Some (SplitBinding _) \<Rightarrow> True | _ \<Rightarrow> False)"

definition ranked :: "AccountCameras \<Rightarrow> (CandidateScope \<times> CompletePairKey) list" where
  "ranked a =
     (case primary_key a of None \<Rightarrow> [] | Some k \<Rightarrow> [(ScopePrimary, k)]) @
     map (\<lambda>(i, k). (ScopeSecondary i, k)) (complete_groups a)"

fun is_secondary :: "CandidateScope \<Rightarrow> bool" where
  "is_secondary (ScopeSecondary _) = True"
| "is_secondary ScopePrimary = False"

definition allowed_pairs ::
    "'k BoundCandidatePair list \<Rightarrow> ExternalCameraPolicy \<Rightarrow> CompletePairKey \<Rightarrow> 'k BoundCandidatePair list" where
  "allowed_pairs connected external key =
     filter (\<lambda>p. \<not> policy_excludes external p) (filter (\<lambda>p. bc_pair p = key) connected)"

fun select_loop ::
    "'k BoundCandidatePair list \<Rightarrow> AccountCameras \<Rightarrow> ('s \<Rightarrow> CandidateScope \<Rightarrow> bool \<times> 's) \<Rightarrow> ExternalCameraPolicy \<Rightarrow>
     (CandidateScope \<times> CompletePairKey) list \<Rightarrow> ('k \<times> CandidateScope) option \<Rightarrow> Skipped list \<Rightarrow> 's \<Rightarrow>
     ('k \<times> CandidateScope) option \<times> Skipped list \<times> 's" where
  "select_loop connected a eligible external [] chosen skipped st = (chosen, skipped, st)"
| "select_loop connected a eligible external ((scope, key) # rest) chosen skipped st =
     (if filter (\<lambda>p. bc_pair p = key) connected = []
      then select_loop connected a eligible external rest chosen skipped st
      else
        (let (reason, chosen', st') =
           (if is_secondary scope \<and> length (filter (\<lambda>g. snd g = key) (complete_groups a)) > 1
            then (Some AmbiguousGroups, chosen, st)
            else if is_secondary scope \<and> \<not> ac_secondary_active a then (Some SecondaryInactive, chosen, st)
            else (case allowed_pairs connected external key of
                [] \<Rightarrow> (Some ExternalForbidden, chosen, st)
              | [p] \<Rightarrow>
                  if chosen = None then
                    (case eligible st scope of
                       (True, st') \<Rightarrow> (None, Some (bc_key p, scope), st')
                     | (False, st') \<Rightarrow> (Some NotEligible, chosen, st'))
                  else (None, chosen, st)
              | _ \<Rightarrow> (Some Indistinguishable, chosen, st)))
         in select_loop connected a eligible external rest chosen'
              (case reason of None \<Rightarrow> skipped | Some r \<Rightarrow> skipped @ [(scope, r)]) st'))"

definition select_bound_for_account_with ::
    "'k BoundCandidatePair list \<Rightarrow> AccountCameras \<Rightarrow> ('s \<Rightarrow> CandidateScope \<Rightarrow> bool \<times> 's) \<Rightarrow> ExternalCameraPolicy \<Rightarrow> 's \<Rightarrow>
     'k SelectionOutcome \<times> 's" where
  "select_bound_for_account_with connected a eligible external st =
     (if malformed_split a then (Refused InvalidBinding [], st)
      else
        (case select_loop (filter (\<lambda>p. key_valid (bc_pair p)) connected) a eligible external (ranked a) None [] st of
           (Some (key, scope), skipped, st') \<Rightarrow> (Selected key scope skipped, st')
         | (None, skipped, st') \<Rightarrow>
             (if primary_key a = None then NotApplicable skipped
              else Refused
                (case skipped of
                   (_, reason) # _ \<Rightarrow> SkippedFor reason
                 | [] \<Rightarrow> if ac_secondary_unreadable a then SecondaryUnreadable else NoEnrolledCameraConnected) skipped,
              st')))"

definition select_bound_for_account ::
    "'k BoundCandidatePair list \<Rightarrow> AccountCameras \<Rightarrow> ('s \<Rightarrow> CandidateScope \<Rightarrow> bool \<times> 's) \<Rightarrow> bool \<Rightarrow> 's \<Rightarrow>
     'k SelectionOutcome \<times> 's" where
  "select_bound_for_account connected a eligible forbid_external =
     select_bound_for_account_with connected a eligible
       \<lparr> ep_forbid_external = forbid_external, ep_split_built_in_only = forbid_external \<rparr>"

definition select_for_account ::
    "'k CandidatePair list \<Rightarrow> AccountCameras \<Rightarrow> ('s \<Rightarrow> CandidateScope \<Rightarrow> bool \<times> 's) \<Rightarrow> bool \<Rightarrow> 's \<Rightarrow>
     'k SelectionOutcome \<times> 's" where
  "select_for_account connected =
     select_bound_for_account
       (map (\<lambda>p. \<lparr> bc_key = cp_key p, bc_pair = OrdinaryKey (cp_rgb_identity p) (cp_ir_identity p),
                  bc_rgb_fixed = cp_fixed p, bc_ir_fixed = cp_fixed p \<rparr>) connected)"

section \<open>Ranking the pairs of a first enrollment\<close>

datatype CandidateRank = RankOther | RankBuiltIn | RankAllowlisted

primrec rank_order :: "CandidateRank \<Rightarrow> nat" where
  "rank_order RankOther = 0"
| "rank_order RankBuiltIn = 1"
| "rank_order RankAllowlisted = 2"

record 'k EnrollmentCandidate =
  ec_key :: 'k
  ec_rank :: CandidateRank
  ec_shares_identity :: bool

text \<open>Everything before the second colon.\<close>

definition vid_pid :: "string \<Rightarrow> string" where
  "vid_pid i = (case split_once (CHR '':'') i of
      None \<Rightarrow> i
    | Some (vid, rest) \<Rightarrow> (case split_once (CHR '':'') rest of None \<Rightarrow> i | Some (p, _) \<Rightarrow> vid @ '':'' @ p))"

definition listed :: "string list \<Rightarrow> string \<Rightarrow> bool" where
  "listed allowlist i \<longleftrightarrow> list_ex (\<lambda>e. ascii_lower (trim (codes e)) = ascii_lower (codes (vid_pid i))) allowlist"

definition candidate_rank :: "string list \<Rightarrow> 'k CandidatePair \<Rightarrow> CandidateRank" where
  "candidate_rank allowlist p =
     (if listed allowlist (cp_rgb_identity p) \<and> listed allowlist (cp_ir_identity p) then RankAllowlisted
      else if cp_fixed p then RankBuiltIn else RankOther)"

definition enrollment_order ::
    "string list \<Rightarrow> 'k CandidatePair \<Rightarrow> nat \<times> string \<times> string \<times> 'k" where
  "enrollment_order allowlist p =
     (2 - rank_order (candidate_rank allowlist p), cp_rgb_identity p, cp_ir_identity p, cp_key p)"

definition rank_enrollment_candidates ::
    "('k::linorder) CandidatePair list \<Rightarrow> string list \<Rightarrow> bool \<Rightarrow> 'k EnrollmentCandidate list" where
  "rank_enrollment_candidates connected allowlist forbid_external =
     (let allowed = filter (\<lambda>p. cp_fixed p \<or> \<not> forbid_external) connected
      in map (\<lambda>p. \<lparr> ec_key = cp_key p, ec_rank = candidate_rank allowlist p,
               ec_shares_identity = length (filter (\<lambda>q. cp_rgb_identity q = cp_rgb_identity p \<and>
                 cp_ir_identity q = cp_ir_identity p) allowed) > 1 \<rparr>)
           (sort_key (enrollment_order allowlist) allowed))"

section \<open>What a choice is\<close>

text \<open>An enrolled pair, and the connected camera that makes it usable.\<close>

definition enrolled_as :: "AccountCameras \<Rightarrow> CandidateScope \<Rightarrow> CompletePairKey \<Rightarrow> bool" where
  "enrolled_as a sc k = (case sc of
      ScopePrimary \<Rightarrow> primary_key a = Some k
    | ScopeSecondary i \<Rightarrow> i < length (ac_groups a) \<and> complete_key (ac_groups a ! i) = Some k)"

definition usable_as ::
    "'k BoundCandidatePair list \<Rightarrow> AccountCameras \<Rightarrow> ExternalCameraPolicy \<Rightarrow> CandidateScope \<Rightarrow> CompletePairKey \<Rightarrow>
     'k BoundCandidatePair \<Rightarrow> bool" where
  "usable_as connected a external sc k c \<longleftrightarrow> enrolled_as a sc k \<and>
     filter (\<lambda>p. key_valid (bc_pair p) \<and> bc_pair p = k \<and> \<not> policy_excludes external p) connected = [c] \<and>
     (is_secondary sc \<longrightarrow> ac_secondary_active a \<and>
        length (filter (\<lambda>b. complete_key b = Some k) (ac_groups a)) = 1)"

definition preferred :: "CandidateScope \<times> CompletePairKey \<Rightarrow> CandidateScope \<times> CompletePairKey \<Rightarrow> bool" where
  "preferred x y \<longleftrightarrow> fst x = ScopePrimary \<or> (is_secondary (fst y) \<and> snd x \<le> snd y)"

lemma set_complete_groups:
  "(i, k) \<in> set (complete_groups a) \<longleftrightarrow> i < length (ac_groups a) \<and> complete_key (ac_groups a ! i) = Some k"
  by (force simp: complete_groups_def List.map_filter_def in_set_enumerate_eq image_iff)

lemma complete_group_keys: "map snd (complete_groups a) = sort (List.map_filter complete_key (ac_groups a))"
proof -
  have e: "map snd (List.map_filter (\<lambda>(i, b). map_option (\<lambda>k. (i, k)) (complete_key b)) (enumerate n bs)) =
      List.map_filter complete_key bs" for n bs
    by (induction bs arbitrary: n) (auto simp: map_filter_simps split: option.split)
  have s: "sorted (map (\<lambda>(i, k). (k, i)) (complete_groups a))" unfolding complete_groups_def by (rule sorted_sort_key)
  have "sorted_wrt (\<lambda>x y. snd x \<le> snd y) (complete_groups a)"
  proof (rule sorted_wrt_mono_rel [OF _ s [unfolded sorted_map]])
    fix x y :: "nat \<times> CompletePairKey"
    assume "(case x of (i, k) \<Rightarrow> (k, i)) \<le> (case y of (i, k) \<Rightarrow> (k, i))"
    then have "snd x < snd y \<or> snd x \<le> snd y \<and> fst x \<le> fst y" by (simp add: case_prod_beta)
    then show "snd x \<le> snd y" by (elim disjE conjE) (rule less_imp_le)
  qed
  then have "sorted (map snd (complete_groups a))" by (simp add: sorted_map)
  moreover have "mset (map snd (complete_groups a)) = mset (List.map_filter complete_key (ac_groups a))"
    by (simp only: complete_groups_def mset_map mset_sort flip: e [of 0 "ac_groups a"])
  ultimately show ?thesis by (intro properties_for_sort [symmetric]) simp_all
qed

lemma ambiguous_count:
  "length (filter (\<lambda>g. snd g = k) (complete_groups a)) = length (filter (\<lambda>b. complete_key b = Some k) (ac_groups a))"
proof -
  have g: "length (filter (\<lambda>g. snd g = k) gs) = count_list (map snd gs) k" for gs :: "(nat \<times> CompletePairKey) list"
    by (induction gs) auto
  have b: "count_list (List.map_filter complete_key bs) k = length (filter (\<lambda>b. complete_key b = Some k) bs)" for bs
    by (induction bs) (auto simp: map_filter_simps split: option.split)
  show ?thesis unfolding g complete_group_keys b [symmetric] by (metis count_mset mset_sort)
qed

lemma set_ranked: "(sc, k) \<in> set (ranked a) \<longleftrightarrow> enrolled_as a sc k"
  by (cases sc) (force simp: ranked_def enrolled_as_def set_complete_groups [symmetric] image_iff split: option.splits)+

lemma ranked_preferred: "sorted_wrt preferred (ranked a)"
proof -
  have "sorted (map snd (complete_groups a))" unfolding complete_group_keys by simp
  then have "sorted_wrt (\<lambda>x y. snd x \<le> snd y) (complete_groups a)" by (simp add: sorted_map)
  then have "sorted_wrt preferred (map (\<lambda>(i, k). (ScopeSecondary i, k)) (complete_groups a))"
    unfolding sorted_wrt_map by (rule sorted_wrt_mono_rel [rotated]) (simp add: preferred_def case_prod_beta)
  then show ?thesis by (simp add: ranked_def preferred_def split: option.split)
qed

text \<open>The test of one ranked pair, apart from the caller's answer.\<close>

definition scope_usable ::
    "'k BoundCandidatePair list \<Rightarrow> AccountCameras \<Rightarrow> ExternalCameraPolicy \<Rightarrow> CandidateScope \<times> CompletePairKey \<Rightarrow> bool" where
  "scope_usable connected a external x \<longleftrightarrow>
     length (allowed_pairs connected external (snd x)) = 1 \<and>
     (is_secondary (fst x) \<longrightarrow> ac_secondary_active a \<and>
        \<not> length (filter (\<lambda>g. snd g = snd x) (complete_groups a)) > 1)"

abbreviation asking :: "(CandidateScope \<Rightarrow> bool) \<Rightarrow> CandidateScope list \<Rightarrow> CandidateScope \<Rightarrow> bool \<times> CandidateScope list" where
  "asking E \<equiv> (\<lambda>asked sc. (E sc, asked @ [sc]))"

lemma select_loop_chosen:
  "\<exists>sk'. select_loop connected a eligible external xs (Some c) sk st = (Some c, sk', st)"
  by (induction xs arbitrary: sk) (auto simp: Let_def split: list.split)

lemma select_loop_step:
  shows "scope_usable connected a external x \<Longrightarrow> E (fst x) \<Longrightarrow>
      select_loop connected a (asking E) external (x # xs) None sk asked =
        select_loop connected a (asking E) external xs
          (Some (bc_key (hd (allowed_pairs connected external (snd x))), fst x)) sk (asked @ [fst x])"
    and "scope_usable connected a external x \<Longrightarrow> \<not> E (fst x) \<Longrightarrow>
      select_loop connected a (asking E) external (x # xs) None sk asked =
        select_loop connected a (asking E) external xs None (sk @ [(fst x, NotEligible)]) (asked @ [fst x])"
    and "\<not> scope_usable connected a external x \<Longrightarrow>
      \<exists>r. select_loop connected a (asking E) external (x # xs) None sk asked =
        select_loop connected a (asking E) external xs None (sk @ r) asked"
proof -
  let ?A = "allowed_pairs connected external (snd x)"
  have none: "?A = []" if "filter (\<lambda>p. bc_pair p = snd x) connected = []"
    using that by (simp add: allowed_pairs_def)
  have one: "\<exists>p. ?A = [p] \<and> filter (\<lambda>p. bc_pair p = snd x) connected \<noteq> []" if "scope_usable connected a external x"
    using that none by (auto simp: scope_usable_def length_Suc_conv)
  show "select_loop connected a (asking E) external (x # xs) None sk asked =
      select_loop connected a (asking E) external xs (Some (bc_key (hd ?A), fst x)) sk (asked @ [fst x])"
    if "scope_usable connected a external x" "E (fst x)"
    using one [OF that(1)] that by (cases x) (auto simp: scope_usable_def Let_def)
  show "select_loop connected a (asking E) external (x # xs) None sk asked =
      select_loop connected a (asking E) external xs None (sk @ [(fst x, NotEligible)]) (asked @ [fst x])"
    if "scope_usable connected a external x" "\<not> E (fst x)"
    using one [OF that(1)] that by (cases x) (auto simp: scope_usable_def Let_def)
  show "\<exists>r. select_loop connected a (asking E) external (x # xs) None sk asked =
        select_loop connected a (asking E) external xs None (sk @ r) asked"
    if u: "\<not> scope_usable connected a external x"
  proof -
    obtain scope key where x: "x = (scope, key)" by (cases x)
    consider "filter (\<lambda>p. bc_pair p = key) connected = []"
      | "is_secondary scope \<and> length (filter (\<lambda>g. snd g = key) (complete_groups a)) > 1"
      | "is_secondary scope \<and> \<not> ac_secondary_active a" | "?A = []" | p q r where "?A = p # q # r"
      using u x by (cases ?A; cases "tl ?A") (auto simp: scope_usable_def)
    then show ?thesis
    proof cases
      case 1
      then show ?thesis using x by (intro exI [of _ "[]"]) simp
    qed (use x in \<open>auto simp: Let_def intro: exI [of _ "[]"]\<close>)
  qed
qed

definition asked_scopes :: "(CandidateScope \<Rightarrow> bool) \<Rightarrow> (CandidateScope \<times> CompletePairKey) list \<Rightarrow> CandidateScope list" where
  "asked_scopes E us = map fst (takeWhile (\<lambda>x. \<not> E (fst x)) us @ take 1 (dropWhile (\<lambda>x. \<not> E (fst x)) us))"

lemma select_loop_find:
  "\<exists>sk'. select_loop connected a (asking E) external xs None sk asked =
    (map_option (\<lambda>x. (bc_key (hd (allowed_pairs connected external (snd x))), fst x))
       (find (\<lambda>x. scope_usable connected a external x \<and> E (fst x)) xs), sk',
     asked @ asked_scopes E (filter (scope_usable connected a external) xs))"
proof (induction xs arbitrary: sk asked)
  case (Cons x xs)
  consider "scope_usable connected a external x" "E (fst x)" | "scope_usable connected a external x" "\<not> E (fst x)"
    | "\<not> scope_usable connected a external x" by blast
  then show ?case
  proof cases
    case 1
    then show ?thesis using select_loop_chosen unfolding select_loop_step(1) [where E = E, OF 1]
      by (fastforce simp: asked_scopes_def)
  next
    case 2
    then show ?thesis unfolding select_loop_step(2) [where E = E, OF 2]
      using Cons.IH [of "sk @ [(fst x, NotEligible)]" "asked @ [fst x]"] by (auto simp: asked_scopes_def)
  next
    case 3
    obtain r where "select_loop connected a (asking E) external (x # xs) None sk asked =
        select_loop connected a (asking E) external xs None (sk @ r) asked" using select_loop_step(3) [where E = E, OF 3] by blast
    with 3 Cons.IH [of "sk @ r" asked] show ?thesis by auto
  qed
qed (simp add: asked_scopes_def)

lemma allowed_valid:
  "allowed_pairs (filter (\<lambda>p. key_valid (bc_pair p)) connected) external k =
     filter (\<lambda>p. key_valid (bc_pair p) \<and> bc_pair p = k \<and> \<not> policy_excludes external p) connected"
  by (simp add: allowed_pairs_def conj_commute conj_left_commute)

lemma scope_usable_as:
  assumes "enrolled_as a sc k"
  shows "scope_usable (filter (\<lambda>p. key_valid (bc_pair p)) connected) a external (sc, k) \<longleftrightarrow>
    (\<exists>c. usable_as connected a external sc k c)"
proof -
  have "0 < length (filter (\<lambda>b. complete_key b = Some k) (ac_groups a))" if "is_secondary sc"
    using assms that by (cases sc) (auto simp: enrolled_as_def filter_empty_conv)
  then have "\<not> length (filter (\<lambda>b. complete_key b = Some k) (ac_groups a)) > 1 \<longleftrightarrow>
      length (filter (\<lambda>b. complete_key b = Some k) (ac_groups a)) = 1" if "is_secondary sc"
    using that by (metis One_nat_def Suc_lessI less_irrefl)
  then show ?thesis
    using assms by (auto simp: scope_usable_def usable_as_def ambiguous_count allowed_valid length_Suc_conv)
qed

lemma usable_enrolled: "usable_as connected a external sc k c \<Longrightarrow> enrolled_as a sc k"
  by (simp add: usable_as_def)

lemma selection_choice:
  assumes "select_bound_for_account_with connected a (asking E) external asked = (out, asked')"
    and "\<not> malformed_split a"
  shows "(\<exists>h sc sk k c. out = Selected h sc sk \<and> usable_as connected a external sc k c \<and> E sc \<and> bc_key c = h \<and>
       (\<forall>sc' k' c'. usable_as connected a external sc' k' c' \<and> E sc' \<longrightarrow> preferred (sc, k) (sc', k'))) \<or>
     (\<forall>h sc sk. out \<noteq> Selected h sc sk) \<and> (\<forall>sc k c. usable_as connected a external sc k c \<longrightarrow> \<not> E sc)"
proof -
  let ?C = "filter (\<lambda>p. key_valid (bc_pair p)) connected"
  let ?P = "\<lambda>x. scope_usable ?C a external x \<and> E (fst x)"
  obtain sk' where loop: "select_loop ?C a (asking E) external (ranked a) None [] asked =
      (map_option (\<lambda>x. (bc_key (hd (allowed_pairs ?C external (snd x))), fst x)) (find ?P (ranked a)), sk',
       asked @ asked_scopes E (filter (scope_usable ?C a external) (ranked a)))"
    using select_loop_find [of ?C a E external "ranked a" "[]" asked] by blast
  have P: "?P (sc, k) \<longleftrightarrow> (\<exists>c. usable_as connected a external sc k c) \<and> E sc" if "enrolled_as a sc k" for sc k
    using scope_usable_as [OF that, of connected external] by simp
  show ?thesis
  proof (cases "find ?P (ranked a)")
    case None
    then have "\<not> ?P (sc, k)" if "enrolled_as a sc k" for sc k
      using that by (auto simp: find_None_iff set_ranked [symmetric])
    with P have "\<forall>sc k c. usable_as connected a external sc k c \<longrightarrow> \<not> E sc" using usable_enrolled by blast
    moreover have "\<forall>h sc sk. out \<noteq> Selected h sc sk"
      using assms None by (auto simp: select_bound_for_account_with_def loop split: if_splits)
    ultimately show ?thesis by blast
  next
    case (Some x)
    obtain sc k where x: "x = (sc, k)" by (cases x)
    from Some obtain i where i: "i < length (ranked a)" "ranked a ! i = (sc, k)" "?P (sc, k)" "\<forall>j<i. \<not> ?P (ranked a ! j)"
      unfolding x find_Some_iff by metis
    then have en: "enrolled_as a sc k" by (metis nth_mem set_ranked)
    with P i(3) obtain c where c: "usable_as connected a external sc k c" "E sc" by blast
    then have hd: "bc_key (hd (allowed_pairs ?C external k)) = bc_key c" by (simp add: usable_as_def allowed_valid)
    have "preferred (sc, k) (sc', k')" if u: "usable_as connected a external sc' k' c'" and e: "E sc'" for sc' k' c'
    proof -
      have en': "enrolled_as a sc' k'" using u by (simp add: usable_as_def)
      then obtain j where j: "j < length (ranked a)" "ranked a ! j = (sc', k')" by (metis in_set_conv_nth set_ranked)
      have "?P (ranked a ! j)" using P [OF en'] u e j by auto
      with i(4) have "i \<le> j" by (metis not_less)
      then show ?thesis
        using sorted_wrt_nth_less [OF ranked_preferred [of a], of i j] i(1,2) j
        by (cases "i = j"; cases sc) (auto simp: preferred_def)
    qed
    moreover have "\<exists>sk. out = Selected (bc_key c) sc sk"
      using assms Some hd by (auto simp: select_bound_for_account_with_def loop x)
    ultimately show ?thesis using c by blast
  qed
qed

section \<open>Properties\<close>

text \<open>C18: The camera chosen for a request is the best one the account may use: it is enrolled,
  exactly one allowed connected camera carries its whole key, its store is active and no
  other group holds the key, the enrollment can serve the request, and no other such pair
  comes before it, the primary first and then the order of the keys. Nothing is chosen exactly
  when there is no such pair or the primary is a malformed split binding, and an account
  with a complete primary is then refused.\<close>

theorem selection_is_the_best_usable_pair:
  assumes "select_bound_for_account_with connected a (asking E) external asked = (out, asked')"
  shows "case out of
      Selected h sc sk \<Rightarrow> \<exists>k c. usable_as connected a external sc k c \<and> E sc \<and> bc_key c = h \<and>
        (\<forall>sc' k' c'. usable_as connected a external sc' k' c' \<and> E sc' \<longrightarrow> preferred (sc, k) (sc', k'))
    | NotApplicable sk \<Rightarrow> primary_key a = None \<and> \<not> malformed_split a \<and>
        (\<forall>sc k c. usable_as connected a external sc k c \<longrightarrow> \<not> E sc)
    | Refused cause sk \<Rightarrow> malformed_split a \<and> cause = InvalidBinding \<or>
        primary_key a \<noteq> None \<and> (\<forall>sc k c. usable_as connected a external sc k c \<longrightarrow> \<not> E sc)"
proof (cases "malformed_split a")
  case True
  then show ?thesis using assms by (auto simp: select_bound_for_account_with_def)
next
  case False
  have "(\<forall>sk. out = NotApplicable sk \<longrightarrow> primary_key a = None) \<and> (\<forall>c sk. out = Refused c sk \<longrightarrow> primary_key a \<noteq> None)"
    using assms False
    by (auto simp: select_bound_for_account_with_def split: prod.splits option.splits if_splits)
  then show ?thesis using selection_choice [OF assms False] False by (cases out) auto
qed

lemma filter_singleton_mset:
  assumes "mset xs = mset ys" "filter P xs = [c]"
  shows "filter P ys = [c]"
proof -
  have "mset (filter P ys) = mset (filter P xs)" using assms(1) by (simp add: mset_filter)
  then have "mset (filter P ys) = {#c#}" using assms(2) by simp
  then show ?thesis by (simp only: mset_single_iff)
qed

lemma usable_reorder:
  assumes c: "mset connected = mset connected'" and g: "mset (ac_groups a) = mset gs"
    and u: "usable_as connected a external sc k c"
  obtains sc' where "usable_as connected' (a\<lparr> ac_groups := gs \<rparr>) external sc' k c" "is_secondary sc' = is_secondary sc"
    "\<forall>i. sc = ScopeSecondary i \<longrightarrow> i < length gs \<and> (\<exists>j<length gs. sc' = ScopeSecondary j \<and> gs ! j = ac_groups a ! i)"
proof -
  have f: "filter (\<lambda>p. key_valid (bc_pair p) \<and> bc_pair p = k \<and> \<not> policy_excludes external p) connected' = [c]"
    using u by (intro filter_singleton_mset [OF c]) (simp add: usable_as_def)
  have n: "length (filter P (ac_groups a)) = length (filter P gs)" for P
    by (metis g mset_filter size_mset)
  show thesis
  proof (cases sc)
    case ScopePrimary
    then show ?thesis using u f by (intro that [of ScopePrimary]) (auto simp: usable_as_def enrolled_as_def primary_key_def)
  next
    case (ScopeSecondary i)
    then have i: "i < length (ac_groups a)" "complete_key (ac_groups a ! i) = Some k"
      using u by (auto simp: usable_as_def enrolled_as_def)
    then obtain j where j: "j < length gs" "gs ! j = ac_groups a ! i"
      by (metis g in_set_conv_nth mset_eq_setD nth_mem)
    have "length gs = length (ac_groups a)" using g by (metis size_mset)
    then show ?thesis using u f i j n ScopeSecondary
      by (intro that [of "ScopeSecondary j"]) (auto simp: usable_as_def enrolled_as_def)
  qed
qed

text \<open>C36: The order in which an account's groups stand in its store, and the order in which the
  system lists the cameras, never decide which camera is used: removing a group and adding
  it again, or plugging the cameras in again, gives the same camera, as long as eligibility
  is a matter of the enrollment itself.\<close>

theorem store_order_never_decides:
  assumes c: "mset connected = mset connected'" and g: "mset (ac_groups a) = mset gs"
    and e: "E ScopePrimary = E' ScopePrimary"
      "\<And>i. i < length gs \<Longrightarrow> E (ScopeSecondary i) = e (ac_groups a ! i) \<and> E' (ScopeSecondary i) = e (gs ! i)"
    and s: "select_bound_for_account_with connected a (asking E) external [] = (Selected h sc sk, asked)"
  shows "\<exists>sc' sk' asked'. select_bound_for_account_with connected' (a\<lparr> ac_groups := gs \<rparr>) (asking E') external [] =
    (Selected h sc' sk', asked')"
proof -
  let ?a = "a\<lparr> ac_groups := gs \<rparr>"
  have m: "\<not> malformed_split a" using s by (auto simp: select_bound_for_account_with_def)
  then have m': "\<not> malformed_split ?a" by (simp add: malformed_split_def primary_key_def)
  obtain k x where k: "usable_as connected a external sc k x" "E sc" "bc_key x = h"
      "\<And>sc' k' c'. usable_as connected a external sc' k' c' \<Longrightarrow> E sc' \<Longrightarrow> preferred (sc, k) (sc', k')"
    using selection_choice [OF s m] by blast
  have to: "\<exists>sc'. usable_as connected' ?a external sc' k y \<and> E' sc' = E sc \<and> is_secondary sc' = is_secondary sc"
    if u: "usable_as connected a external sc k y" for sc k y
  proof -
    obtain sc' where "usable_as connected' ?a external sc' k y" "is_secondary sc' = is_secondary sc"
      "\<forall>i. sc = ScopeSecondary i \<longrightarrow> i < length gs \<and> (\<exists>j<length gs. sc' = ScopeSecondary j \<and> gs ! j = ac_groups a ! i)"
      by (rule usable_reorder [OF c g u])
    with e show ?thesis by (cases sc; cases sc') auto
  qed
  have fro: "\<exists>sc'. usable_as connected a external sc' k y \<and> E sc' = E' sc \<and> is_secondary sc' = is_secondary sc"
    if u: "usable_as connected' ?a external sc k y" for sc k y
  proof -
    obtain sc' where sc': "usable_as connected (?a\<lparr> ac_groups := ac_groups a \<rparr>) external sc' k y"
      "is_secondary sc' = is_secondary sc"
      "\<forall>i. sc = ScopeSecondary i \<longrightarrow> i < length (ac_groups a) \<and>
         (\<exists>j<length (ac_groups a). sc' = ScopeSecondary j \<and> ac_groups a ! j = ac_groups ?a ! i)"
      by (rule usable_reorder [OF c [symmetric] _ u, of "ac_groups a"]) (use g in auto)
    have "length gs = length (ac_groups a)" using g by (metis size_mset)
    with sc' e show ?thesis by (cases sc; cases sc') auto
  qed
  obtain out asked' where out: "select_bound_for_account_with connected' ?a (asking E') external [] = (out, asked')"
    by fastforce
  obtain sc' where sc': "usable_as connected' ?a external sc' k x" "E' sc'" "is_secondary sc' = is_secondary sc"
    using to [OF k(1)] k(2) by blast
  obtain h2 sc2 sk2 k2 y where b: "out = Selected h2 sc2 sk2" "usable_as connected' ?a external sc2 k2 y" "E' sc2"
      "bc_key y = h2" "preferred (sc2, k2) (sc', k)"
    using selection_choice [OF out m'] sc' by blast
  obtain sc3 where sc3: "usable_as connected a external sc3 k2 y" "E sc3" "is_secondary sc3 = is_secondary sc2"
    using fro [OF b(2)] b(3) by blast
  then have "preferred (sc, k) (sc3, k2)" using k(4) by blast
  then have "k = k2"
    using b(5) sc'(3) sc3 k(1) by (cases sc; cases sc2; cases sc3) (auto simp: preferred_def usable_as_def enrolled_as_def)
  then have "x = y" using k(1) sc3(1) by (simp add: usable_as_def)
  then show ?thesis using out b(1,4) k(3) by auto
qed

text \<open>The rank a place in the order stands for.\<close>

definition rank_at :: "nat \<Rightarrow> CandidateRank" where
  "rank_at n = (if n = 0 then RankAllowlisted else if n = 1 then RankBuiltIn else RankOther)"

lemma rank_at_order: "rank_at (2 - rank_order r) = r"
  by (cases r) (simp_all add: rank_at_def)

lemma sort_key_as_sort: "map f (sort_key f xs) = sort (map f xs)"
  by (rule properties_for_sort [symmetric]) simp_all

text \<open>The cameras offered to a first enrollment are ordered by what they are, never by the
  order they were found in: every order of discovery gives the same list, best first.\<close>

theorem enrollment_order_is_canonical:
  assumes "mset connected = mset connected'"
  shows "rank_enrollment_candidates connected allowlist forbid = rank_enrollment_candidates connected' allowlist forbid \<and>
    sorted (map (\<lambda>c. 2 - rank_order (ec_rank c)) (rank_enrollment_candidates connected allowlist forbid)) \<and>
    mset (map ec_key (rank_enrollment_candidates connected allowlist forbid)) =
      mset (map cp_key (filter (\<lambda>p. cp_fixed p \<or> \<not> forbid) connected))"
proof -
  let ?f = "enrollment_order allowlist"
  let ?A = "\<lambda>cs. filter (\<lambda>p. cp_fixed p \<or> \<not> forbid) cs"
  let ?out = "\<lambda>cs (n, rgb, ir, k). \<lparr> ec_key = k, ec_rank = rank_at n, ec_shares_identity =
     size (filter_mset (\<lambda>q. cp_rgb_identity q = rgb \<and> cp_ir_identity q = ir) (mset (?A cs))) > 1 \<rparr>"
  have eq: "rank_enrollment_candidates cs allowlist forbid = map (?out cs) (sort (map ?f (?A cs)))" for cs
    unfolding sort_key_as_sort [symmetric]
    by (simp add: rank_enrollment_candidates_def Let_def enrollment_order_def rank_at_order o_def flip: mset_filter)
  have A: "mset (?A connected) = mset (?A connected')" using assms by (simp add: mset_filter)
  then have "sort (map ?f (?A connected)) = sort (map ?f (?A connected'))"
    by (intro properties_for_sort) (simp_all only: mset_map mset_sort sorted_sort)
  then have one: "rank_enrollment_candidates connected allowlist forbid = rank_enrollment_candidates connected' allowlist forbid"
    unfolding eq A by simp
  have "sorted (map ?f (sort_key ?f (?A connected)))" by simp
  then have "sorted (map (\<lambda>p. 2 - rank_order (candidate_rank allowlist p)) (sort_key ?f (?A connected)))"
    unfolding sorted_map by (rule sorted_wrt_mono_rel [rotated]) (auto simp: enrollment_order_def)
  then have two: "sorted (map (\<lambda>c. 2 - rank_order (ec_rank c)) (rank_enrollment_candidates connected allowlist forbid))"
    by (simp add: rank_enrollment_candidates_def Let_def o_def)
  have "mset (map ec_key (rank_enrollment_candidates connected allowlist forbid)) =
      mset (map cp_key (sort_key ?f (?A connected)))"
    by (simp add: rank_enrollment_candidates_def Let_def o_def)
  then show ?thesis using one two by (simp only: mset_map mset_sort simp_thms)
qed

section \<open>An example\<close>

text \<open>Two groups, the camera of the second one connected.\<close>

definition desk :: PairBinding where "desk = OrdinaryBinding (Some ''1:1'') (Some ''1:2'')"
definition dock :: PairBinding where "dock = OrdinaryBinding (Some ''2:1'') (Some ''2:2'')"

definition two_groups :: "PairBinding list \<Rightarrow> AccountCameras" where
  "two_groups gs = \<lparr> ac_primary = None, ac_secondary_active = True, ac_secondary_unreadable = False, ac_groups = gs \<rparr>"

definition dock_connected :: "nat BoundCandidatePair list" where
  "dock_connected = [\<lparr> bc_key = 7, bc_pair = OrdinaryKey ''2:1'' ''2:2'', bc_rgb_fixed = True, bc_ir_fixed = True \<rparr>]"

definition no_externals :: ExternalCameraPolicy where
  "no_externals = \<lparr> ep_forbid_external = True, ep_split_built_in_only = True \<rparr>"

lemma dock_selected:
  "select_bound_for_account_with dock_connected (two_groups [desk, dock]) (asking (\<lambda>_. True)) no_externals [] =
     (Selected 7 (ScopeSecondary 1) [], [ScopeSecondary 1])"
  by code_simp

theorem selection_is_the_best_usable_pair_witness:
  "\<exists>k c. usable_as dock_connected (two_groups [desk, dock]) no_externals (ScopeSecondary 1) k c \<and> bc_key c = 7"
  using selection_is_the_best_usable_pair [OF dock_selected] by auto

theorem store_order_never_decides_witness:
  "\<exists>sc' sk' asked'. select_bound_for_account_with dock_connected (two_groups [dock, desk]) (asking (\<lambda>_. True)) no_externals [] =
    (Selected 7 sc' sk', asked')"
  using store_order_never_decides [OF refl _ refl _ dock_selected, of "[dock, desk]" "\<lambda>_. True"]
  by (auto simp: two_groups_def)

theorem enrollment_order_is_canonical_witness:
  "mset (map ec_key (rank_enrollment_candidates
      [\<lparr> cp_key = 2 :: nat, cp_rgb_identity = ''1:1'', cp_ir_identity = ''1:2'', cp_fixed = False \<rparr>,
       \<lparr> cp_key = 1, cp_rgb_identity = ''1:1'', cp_ir_identity = ''1:2'', cp_fixed = True \<rparr>] [] True)) = {#1#}"
  using enrollment_order_is_canonical [OF refl, of
      "[\<lparr> cp_key = 2 :: nat, cp_rgb_identity = ''1:1'', cp_ir_identity = ''1:2'', cp_fixed = False \<rparr>,
       \<lparr> cp_key = 1, cp_rgb_identity = ''1:1'', cp_ir_identity = ''1:2'', cp_fixed = True \<rparr>]" "[]" True]
  by simp

end
