(* ===== verification/Secondary_Commit.thy ===== *)
theory Secondary_Commit
  imports Secondary_Store Fallible
begin

text \<open>
  Publishing the store of added cameras (\<^verbatim>\<open>irlume-core/src/multi_camera/commit.rs\<close>, and the
  deletion in \<^verbatim>\<open>irlume-core/src/storage.rs\<close>): the intent journal, the durable writes, the
  recovery that finishes a publication, and the removal of an account's files. A directory is
  what its names show now and, for each name, what may be there after a power loss: a change
  adds a possibility, and a sync of the directory leaves only the present. Each system call of
  an operation may fail; a process that dies at a call does to the disk what a failure of that
  call does.
\<close>

section \<open>The directory\<close>

text \<open>The store, its journal, and the staging files of each by the process that made them.\<close>

datatype cfile = StoreFile | IntentFile | StagedStore nat | StagedIntent nat | StagedSave nat

record cdisk =
  cd_now :: "cfile \<Rightarrow> bytes option"
  cd_keep :: "cfile \<Rightarrow> bytes option list"

definition put :: "cfile \<Rightarrow> bytes option \<Rightarrow> cdisk \<Rightarrow> cdisk" where
  "put f v d = d\<lparr> cd_now := (cd_now d)(f := v), cd_keep := (cd_keep d)(f := v # cd_keep d f) \<rparr>"

definition sync_directory :: "cdisk \<Rightarrow> cdisk" where
  "sync_directory d = d\<lparr> cd_keep := (\<lambda>f. [cd_now d f]) \<rparr>"

definition may_survive :: "cdisk \<Rightarrow> (cfile \<Rightarrow> bytes option) \<Rightarrow> bool" where
  "may_survive d now \<longleftrightarrow> (\<forall>f. now f \<in> set (cd_keep d f))"

definition power_loss :: "(cfile \<Rightarrow> bytes option) \<Rightarrow> cdisk" where
  "power_loss now = \<lparr> cd_now = now, cd_keep = (\<lambda>f. [now f]) \<rparr>"

section \<open>Durable writes\<close>

datatype CommitError = CommitStore SecondaryStoreError | CommitIo

text \<open>What the system answers: creating the staging file, writing it (\<open>Some\<close> is what a failed
  write left), syncing it, renaming it, removing it after a failed rename, and syncing the
  directory.\<close>

record write_answers =
  wa_create :: bool
  wa_write :: "bytes option"
  wa_sync :: bool
  wa_rename :: bool
  wa_cleanup :: bool
  wa_sync_dir :: bool

definition fsync_dir :: "bool \<Rightarrow> (cdisk, CommitError, unit) op" where
  "fsync_dir ok d = (if ok then (Inr (), sync_directory d) else (Inl CommitIo, d))"

definition durable_write ::
    "cfile \<Rightarrow> cfile \<Rightarrow> bytes \<Rightarrow> write_answers \<Rightarrow> (cdisk, CommitError, unit) op" where
  "durable_write path temp b w d =
     (if \<not> wa_create w \<or> cd_now d temp \<noteq> None then (Inl CommitIo, d)
      else (case wa_write w of
          Some part \<Rightarrow> (Inl CommitIo, put temp (Some part) d)
        | None \<Rightarrow>
            (let d1 = put temp (Some b) d
             in if \<not> wa_sync w then (Inl CommitIo, d1)
                else if \<not> wa_rename w then (Inl CommitIo, if wa_cleanup w then put temp None d1 else d1)
                else fsync_dir (wa_sync_dir w) (put path (Some b) (put temp None d1)))))"

definition remove_file :: "cfile \<Rightarrow> bool \<Rightarrow> (cdisk, CommitError, unit) op" where
  "remove_file f ok d = (if \<not> ok \<or> cd_now d f = None then (Inl CommitIo, d) else (Inr (), put f None d))"

section \<open>Publication\<close>

record CommitIntent =
  in_format_version :: u32
  in_generation :: u64
  in_primary_snapshot_sha256 :: string
  in_new_secondary_b64 :: string

definition INTENT_FORMAT_VERSION :: u32 where "INTENT_FORMAT_VERSION = 1"

record ('f, 'c) commit_codec = "('f, 'c) store_codec" +
  jc_print :: "CommitIntent \<Rightarrow> bytes option"
  jc_parse :: "bytes \<Rightarrow> CommitIntent option"

record PreparedSecondaryCommit =
  pc_owner :: string
  pc_bytes :: bytes
  pc_journal :: bytes

definition prepare_with_intent_key ::
    "('f, 'c) commit_codec \<Rightarrow> bytes \<Rightarrow> bool \<Rightarrow> ('f, 'c) SecondaryStore \<Rightarrow> string \<Rightarrow> bytes option \<Rightarrow>
       CommitError + PreparedSecondaryCommit" where
  "prepare_with_intent_key cd nonce mkdir s primary_snapshot key = (case store_validate s of
      Some e \<Rightarrow> Inl (CommitStore e)
    | None \<Rightarrow>
        if ss_primary_snapshot_sha256 s \<noteq> primary_snapshot then Inl (CommitStore (InvalidStore SnapshotDisagrees))
        else (case store_file_bytes cd nonce s key of
            None \<Rightarrow> Inl CommitIo
          | Some b \<Rightarrow>
              if \<not> mkdir then Inl CommitIo
              else (case jc_print cd \<lparr> in_format_version = INTENT_FORMAT_VERSION, in_generation = ss_generation s,
                    in_primary_snapshot_sha256 = primary_snapshot, in_new_secondary_b64 = sc_b64 cd b \<rparr> of
                  None \<Rightarrow> Inl CommitIo
                | Some j \<Rightarrow> Inr \<lparr> pc_owner = ss_owner s, pc_bytes = b, pc_journal = j \<rparr>)))"

record publish_answers =
  pa_intent :: write_answers
  pa_store :: write_answers
  pa_remove :: bool
  pa_sync :: bool

definition commit_publish ::
    "nat \<Rightarrow> PreparedSecondaryCommit \<Rightarrow> publish_answers \<Rightarrow> (cdisk, CommitError, unit) op" where
  "commit_publish pid p e =
     io_bind (durable_write IntentFile (StagedIntent pid) (pc_journal p) (pa_intent e)) (\<lambda>_.
     io_bind (durable_write StoreFile (StagedStore pid) (pc_bytes p) (pa_store e)) (\<lambda>_.
     io_bind (remove_file IntentFile (pa_remove e)) (\<lambda>_.
     fsync_dir (pa_sync e))))"

section \<open>Recovery\<close>

datatype CommitResolution = Clean | Completed

text \<open>The structural check of the payload a journal carries: an envelope must name a key and
  hold a plausible ciphertext, anything else must be the valid store its journal describes.\<close>

definition check_payload :: "('f, 'c) commit_codec \<Rightarrow> CommitIntent \<Rightarrow> bytes \<Rightarrow> CommitError option" where
  "check_payload cd i b = (case Option.bind (sc_doc cd b) (\<lambda>d. map_option (\<lambda>v. (d, v)) (jd_format_version d)) of
      None \<Rightarrow> Some CommitIo
    | Some (d, declared) \<Rightarrow>
        if declared = SECONDARY_ENC_ENVELOPE_VERSION then
          (case jd_key_id d of
             None \<Rightarrow> Some CommitIo
           | Some key_id \<Rightarrow>
               if key_id = [] then Some CommitIo
               else (case Option.bind (jd_enc d) (sc_unb64 cd) of
                   None \<Rightarrow> Some CommitIo
                 | Some blob \<Rightarrow> if length blob \<le> NONCE_LEN + TAG_LEN then Some CommitIo else None))
        else (case sc_store cd b of
            None \<Rightarrow> Some CommitIo
          | Some s \<Rightarrow> (case store_validate s of
              Some e \<Rightarrow> Some (CommitStore e)
            | None \<Rightarrow>
                if ss_generation s \<noteq> in_generation i \<or>
                   ss_primary_snapshot_sha256 s \<noteq> in_primary_snapshot_sha256 i
                then Some CommitIo else None)))"

record resolve_answers =
  ra_read :: bool
  ra_store :: write_answers
  ra_remove :: bool
  ra_sync :: bool

definition journal_payload :: "('f, 'c) commit_codec \<Rightarrow> bytes \<Rightarrow> CommitError + bytes" where
  "journal_payload cd journal = (case jc_parse cd journal of
      None \<Rightarrow> Inl CommitIo
    | Some i \<Rightarrow>
        if in_format_version i \<noteq> INTENT_FORMAT_VERSION then Inl CommitIo
        else (case sc_unb64 cd (in_new_secondary_b64 i) of
            None \<Rightarrow> Inl CommitIo
          | Some b \<Rightarrow> (case check_payload cd i b of Some e \<Rightarrow> Inl e | None \<Rightarrow> Inr b)))"

definition resolve_commit ::
    "('f, 'c) commit_codec \<Rightarrow> nat \<Rightarrow> resolve_answers \<Rightarrow> (cdisk, CommitError, CommitResolution) op" where
  "resolve_commit cd pid e d = (case cd_now d IntentFile of
      None \<Rightarrow> (Inr Clean, d)
    | Some journal \<Rightarrow>
        if \<not> ra_read e then (Inl CommitIo, d)
        else (io_bind (io_lift (journal_payload cd journal)) (\<lambda>b.
              io_bind (durable_write StoreFile (StagedStore pid) b (ra_store e)) (\<lambda>_.
              io_bind (remove_file IntentFile (ra_remove e)) (\<lambda>_.
              io_bind (fsync_dir (ra_sync e)) (\<lambda>_. io_return Completed))))) d)"

section \<open>Deletion\<close>

text \<open>The staging files are listed first. For each file in turn: removed and synced, already gone, or refused by the system. When
  nothing was there the directory is synced all the same; a directory that does not exist
  counts as synced.\<close>

datatype sync_answer = SyncOk | SyncMissing | SyncFailed

fun delete_loop :: "(cfile \<times> bool \<times> bool) list \<Rightarrow> bool \<Rightarrow> (cdisk, CommitError, bool) op" where
  "delete_loop [] removed d = (Inr removed, d)"
| "delete_loop ((f, rm, sync) # fs) removed d =
     (if cd_now d f = None then delete_loop fs removed d
      else if \<not> rm then (Inl CommitIo, d)
      else if \<not> sync then (Inl CommitIo, put f None d)
      else delete_loop fs True (sync_directory (put f None d)))"

definition delete_camera_store ::
    "(cfile \<times> bool \<times> bool) list option \<Rightarrow> bool \<times> bool \<Rightarrow> bool \<times> bool \<Rightarrow> sync_answer \<Rightarrow> (cdisk, CommitError, bool) op" where
  "delete_camera_store staging_files intent store final = (case staging_files of
      None \<Rightarrow> io_lift (Inl CommitIo)
    | Some staged \<Rightarrow> io_bind (delete_loop ((IntentFile, intent) # (StoreFile, store) # staged) False) (\<lambda>removed d.
       if removed then (Inr True, d)
       else (case final of
           SyncOk \<Rightarrow> (Inr False, sync_directory d)
         | SyncMissing \<Rightarrow> (Inr False, d)
         | SyncFailed \<Rightarrow> (Inl CommitIo, d))))"

section \<open>What may be on the disk\<close>

text \<open>Everything a name shows now or may show after a power loss.\<close>

definition contents :: "cdisk \<Rightarrow> cfile \<Rightarrow> bytes option set" where
  "contents d f = insert (cd_now d f) (set (cd_keep d f))"

definition settled :: "cdisk \<Rightarrow> bool" where
  "settled d \<longleftrightarrow> (\<forall>f. cd_keep d f = [cd_now d f])"

lemma contents_put [simp]: "contents (put f v d) g = (if g = f then insert v (contents d f - {cd_now d f} \<union> set (cd_keep d f)) else contents d g)"
  by (auto simp: contents_def put_def)

lemma now_put [simp]: "cd_now (put f v d) = (cd_now d)(f := v)"
  by (simp add: put_def)

lemma settled_sync [simp]: "settled (sync_directory d)" and now_sync [simp]: "cd_now (sync_directory d) = cd_now d"
  by (simp_all add: settled_def sync_directory_def)

lemma contents_settled: "settled d \<Longrightarrow> contents d f = {cd_now d f}"
  by (simp add: settled_def contents_def)

text \<open>A disk on which the store and the journal are confined to given sets.\<close>

definition confined :: "bytes option set \<Rightarrow> bytes option set \<Rightarrow> cdisk \<Rightarrow> bool" where
  "confined S J d \<longleftrightarrow> contents d StoreFile \<subseteq> S \<and> contents d IntentFile \<subseteq> J"

lemma confined_put:
  "confined S J d \<Longrightarrow> (f = StoreFile \<Longrightarrow> v \<in> S) \<Longrightarrow> (f = IntentFile \<Longrightarrow> v \<in> J) \<Longrightarrow> confined S J (put f v d)"
  by (auto simp: confined_def contents_def put_def)

lemma confined_sync: "confined S J d \<Longrightarrow> confined S J (sync_directory d)"
  by (auto simp: confined_def contents_def sync_directory_def)

lemma confined_mono: "confined S J d \<Longrightarrow> S \<subseteq> S' \<Longrightarrow> J \<subseteq> J' \<Longrightarrow> confined S' J' d"
  by (auto simp: confined_def)

lemma confined_power_loss: "confined S J d \<Longrightarrow> may_survive d now \<Longrightarrow> confined S J (power_loss now)"
  by (auto simp: confined_def contents_def may_survive_def power_loss_def)

text \<open>A durable write keeps the confinement if its bytes are in it, however it ends; when it
  succeeds, the directory is settled and shows them.\<close>

lemma fsync_dir_triple: "triple P (fsync_dir ok) (\<lambda>_ d. settled d \<and> (\<exists>d0. P d0 \<and> d = sync_directory d0)) P"
  by (auto simp: triple_def fsync_dir_def)

lemma durable_write_triple:
  assumes "path = StoreFile \<and> (\<exists>n. temp = StagedStore n) \<and> Some b \<in> S \<or>
      path = IntentFile \<and> (\<exists>n. temp = StagedIntent n) \<and> Some b \<in> J"
  shows "triple (confined S J) (durable_write path temp b w)
    (\<lambda>_ d. confined S J d \<and> settled d \<and> cd_now d path = Some b)
    (confined S J)"
proof -
  have t: "temp \<noteq> StoreFile" "temp \<noteq> IntentFile" "path \<noteq> temp" using assms by auto
  have put: "confined S J (put temp v d)" if "confined S J d" for v d
    using that t by (intro confined_put) auto
  have put': "confined S J (put path (Some b) d)" if "confined S J d" for d
    using that assms by (intro confined_put) auto
  show ?thesis
    unfolding triple_def durable_write_def fsync_dir_def Let_def
    using assms t put put' by (auto split: option.split intro!: confined_sync)
qed

lemma remove_intent_triple:
  "triple (\<lambda>d. confined S J d \<and> P (cd_now d StoreFile)) (remove_file IntentFile ok)
    (\<lambda>_ d. confined S (insert None J) d \<and> P (cd_now d StoreFile) \<and> cd_now d IntentFile = None) (confined S (insert None J))"
  unfolding triple_def remove_file_def
  by (auto intro!: confined_put intro: confined_mono)

section \<open>What a journal carries\<close>

text \<open>Relied on besides the laws of the store's file: a journal reads back as it was printed,
  a ciphertext is its plaintext and a tag, and no store is printed as nothing.\<close>

definition commit_codec_ok :: "('f, 'c) commit_codec \<Rightarrow> bool" where
  "commit_codec_ok cd \<longleftrightarrow> codec_ok cd \<and>
     (\<forall>i b. jc_print cd i = Some b \<longrightarrow> jc_parse cd b = Some i) \<and>
     (\<forall>k n p ct. sc_seal cd k n p = Some ct \<longrightarrow> length ct = length p + TAG_LEN) \<and>
     (\<forall>s b. sc_print cd s = Some b \<longrightarrow> b \<noteq> [])"

lemma sha256_hex_nonempty: "codec_ok cd \<Longrightarrow> sha256_hex (sc_sha256 cd) k \<noteq> []"
  by (cases "sc_sha256 cd k") (auto simp: codec_ok_def sha256_hex_def dest: spec [of _ k])

lemma prepared_payload_passes:
  assumes ok: "commit_codec_ok cd" and v: "store_validate s = None" and n: "length nonce = NONCE_LEN"
    and b: "store_file_bytes cd nonce s key = Some b"
    and i: "in_generation i = ss_generation s" "in_primary_snapshot_sha256 i = ss_primary_snapshot_sha256 s"
  shows "check_payload cd i b = None"
proof -
  have c: "codec_ok cd" using ok by (simp add: commit_codec_ok_def)
  obtain json where p: "sc_print cd s = Some json" using b by (auto simp: store_file_bytes_def split: option.splits)
  show ?thesis
  proof (cases key)
    case None
    with b p have "b = json" by (simp add: store_file_bytes_def)
    moreover have "sc_store cd json = Some s \<and> (\<exists>d. sc_doc cd json = Some d \<and> jd_format_version d = Some (ucast (ss_format_version s)))"
      using c p unfolding codec_ok_def by blast
    moreover have "ss_format_version s = SECONDARY_STORE_VERSION" using v by (simp add: store_validate_None store_ok_def)
    ultimately show ?thesis using v i version_codes by (auto simp: check_payload_def)
  next
    case (Some k)
    with b p obtain blob where blob: "encrypt cd nonce k json = Some blob"
      and e: "sc_envelope cd \<lparr> jd_format_version = Some SECONDARY_ENC_ENVELOPE_VERSION,
            jd_key_id = Some (sha256_hex (sc_sha256 cd) k), jd_enc = Some (sc_b64 cd blob) \<rparr> = Some b"
      by (auto simp: store_file_bytes_def split: option.splits)
    have doc: "sc_doc cd b = Some \<lparr> jd_format_version = Some SECONDARY_ENC_ENVELOPE_VERSION,
            jd_key_id = Some (sha256_hex (sc_sha256 cd) k), jd_enc = Some (sc_b64 cd blob) \<rparr>"
      "sc_unb64 cd (sc_b64 cd blob) = Some blob" using c e by (auto simp: codec_ok_def)
    obtain ct where "sc_seal cd k nonce json = Some ct" "blob = nonce @ ct"
      using blob by (auto simp: encrypt_def split: if_splits)
    moreover have "json \<noteq> []" using ok p unfolding commit_codec_ok_def by blast
    ultimately have "NONCE_LEN + TAG_LEN < length blob" using ok n by (auto simp: commit_codec_ok_def)
    with doc sha256_hex_nonempty [OF c, of k] show ?thesis by (simp add: check_payload_def)
  qed
qed

lemma prepared_journal:
  assumes ok: "commit_codec_ok cd" and n: "length nonce = NONCE_LEN"
    and p: "prepare_with_intent_key cd nonce mkdir s snap key = Inr p"
  shows "journal_payload cd (pc_journal p) = Inr (pc_bytes p)" "store_file_bytes cd nonce s key = Some (pc_bytes p)"
    "store_ok s" "ss_primary_snapshot_sha256 s = snap"
proof -
  let ?i = "\<lambda>b. \<lparr> in_format_version = INTENT_FORMAT_VERSION, in_generation = ss_generation s,
                    in_primary_snapshot_sha256 = snap, in_new_secondary_b64 = sc_b64 cd b \<rparr>"
  obtain b j where *: "store_validate s = None" "ss_primary_snapshot_sha256 s = snap"
      "store_file_bytes cd nonce s key = Some b" "jc_print cd (?i b) = Some j"
      "p = \<lparr> pc_owner = ss_owner s, pc_bytes = b, pc_journal = j \<rparr>"
    using p by (auto simp: prepare_with_intent_key_def split: option.splits if_splits)
  then show "store_file_bytes cd nonce s key = Some (pc_bytes p)" "store_ok s" "ss_primary_snapshot_sha256 s = snap"
    by (simp_all add: store_validate_None)
  have "jc_parse cd j = Some (?i b)" "sc_unb64 cd (sc_b64 cd b) = Some b"
    using ok *(4) by (auto simp: commit_codec_ok_def codec_ok_def)
  moreover have "check_payload cd (?i b) b = None"
    using * by (intro prepared_payload_passes [OF ok *(1) n *(3)]) simp_all
  ultimately show "journal_payload cd (pc_journal p) = Inr (pc_bytes p)"
    using *(5) by (simp add: journal_payload_def)
qed

section \<open>Histories of an account's store\<close>

text \<open>The disk together with what its users were told: the last state acknowledged to one of
  them, and the states that attempts since then, which did not succeed, would have made. Every
  operation may be run by any process, with any answers of the system, in any order; the
  power may fail between any two of them.\<close>

record commit_world =
  cw_disk :: cdisk
  cw_acked :: "bytes option"
  cw_tried :: "bytes option set"

definition commit_start :: commit_world where
  "commit_start = \<lparr> cw_disk = power_loss (\<lambda>_. None), cw_acked = None, cw_tried = {} \<rparr>"

inductive commit_step :: "('f, 'c) commit_codec \<Rightarrow> commit_world \<Rightarrow> commit_world \<Rightarrow> bool" for cd where
  published: "prepare_with_intent_key cd nonce mkdir s snap key = Inr p \<Longrightarrow> length nonce = NONCE_LEN \<Longrightarrow>
    commit_publish pid p e (cw_disk w) = (Inr (), d) \<Longrightarrow>
    commit_step cd w \<lparr> cw_disk = d, cw_acked = Some (pc_bytes p), cw_tried = {} \<rparr>"
| publish_failed: "prepare_with_intent_key cd nonce mkdir s snap key = Inr p \<Longrightarrow> length nonce = NONCE_LEN \<Longrightarrow>
    commit_publish pid p e (cw_disk w) = (Inl err, d) \<Longrightarrow>
    commit_step cd w (w\<lparr> cw_disk := d, cw_tried := insert (Some (pc_bytes p)) (cw_tried w) \<rparr>)"
| completed: "resolve_commit cd pid r (cw_disk w) = (Inr Completed, d) \<Longrightarrow>
    commit_step cd w \<lparr> cw_disk = d, cw_acked = cd_now d StoreFile, cw_tried = {} \<rparr>"
| not_completed: "resolve_commit cd pid r (cw_disk w) = (x, d) \<Longrightarrow> x \<noteq> Inr Completed \<Longrightarrow>
    commit_step cd w (w\<lparr> cw_disk := d \<rparr>)"
| deleted: "delete_camera_store staged ia sa final (cw_disk w) = (Inr b, d) \<Longrightarrow>
    (final = SyncMissing \<longrightarrow> (\<forall>f. set (cd_keep (cw_disk w) f) \<subseteq> {None})) \<Longrightarrow>
    commit_step cd w \<lparr> cw_disk = d, cw_acked = None, cw_tried = {} \<rparr>"
| delete_failed: "delete_camera_store staged ia sa final (cw_disk w) = (Inl err, d) \<Longrightarrow>
    commit_step cd w (w\<lparr> cw_disk := d, cw_tried := insert None (cw_tried w) \<rparr>)"
| power_failure: "may_survive (cw_disk w) now \<Longrightarrow> commit_step cd w (w\<lparr> cw_disk := power_loss now \<rparr>)"

definition may_hold :: "commit_world \<Rightarrow> bytes option set" where
  "may_hold w = insert (cw_acked w) (cw_tried w)"

text \<open>The journals that finish, if at all, with a state of the set.\<close>

definition journals :: "('f, 'c) commit_codec \<Rightarrow> bytes option set \<Rightarrow> bytes option set" where
  "journals cd S = {v. \<forall>j b. v = Some j \<longrightarrow> journal_payload cd j = Inr b \<longrightarrow> Some b \<in> S}"

lemma journals_intros [simp]: "None \<in> journals cd S" "insert None (journals cd S) = journals cd S"
  by (auto simp: journals_def)

lemma journals_mono: "S \<subseteq> T \<Longrightarrow> journals cd S \<subseteq> journals cd T"
  by (auto simp: journals_def)

definition commit_inv :: "('f, 'c) commit_codec \<Rightarrow> commit_world \<Rightarrow> bool" where
  "commit_inv cd w \<longleftrightarrow> confined (may_hold w) (journals cd (may_hold w)) (cw_disk w)"

text \<open>A disk that is settled, with no journal, is confined to what its store is.\<close>

lemma settled_confined:
  "settled d \<Longrightarrow> cd_now d IntentFile = None \<Longrightarrow> cd_now d StoreFile \<in> S \<Longrightarrow> confined S (journals cd S) d"
  by (simp add: confined_def contents_settled)

text \<open>The tail the publication and the recovery share: the store written over the journal, the
  journal removed, the directory synced.\<close>

definition finish :: "nat \<Rightarrow> bytes \<Rightarrow> write_answers \<Rightarrow> bool \<Rightarrow> bool \<Rightarrow> (cdisk, CommitError, unit) op" where
  "finish pid b wa rm sy = io_bind (durable_write StoreFile (StagedStore pid) b wa) (\<lambda>_.
     io_bind (remove_file IntentFile rm) (\<lambda>_. fsync_dir sy))"

lemma finish_triple:
  assumes "Some b \<in> S"
  shows "triple (confined S (journals cd S)) (finish pid b wa rm sy)
    (\<lambda>_ d. settled d \<and> cd_now d IntentFile = None \<and> cd_now d StoreFile = Some b) (confined S (journals cd S))"
proof -
  let ?J = "journals cd S"
  have 1: "triple (confined S ?J) (durable_write StoreFile (StagedStore pid) b wa)
      (\<lambda>_ d. confined S ?J d \<and> cd_now d StoreFile = Some b) (confined S ?J)"
    by (rule triple_weaken [OF durable_write_triple]) (use assms in auto)
  have 2: "triple (\<lambda>d. confined S ?J d \<and> cd_now d StoreFile = Some b) (remove_file IntentFile rm)
      (\<lambda>_ d. confined S ?J d \<and> cd_now d StoreFile = Some b \<and> cd_now d IntentFile = None) (confined S ?J)"
    using remove_intent_triple [of S ?J "\<lambda>v. v = Some b" rm] by simp
  have 3: "triple (\<lambda>d. confined S ?J d \<and> cd_now d StoreFile = Some b \<and> cd_now d IntentFile = None) (fsync_dir sy)
      (\<lambda>_ d. settled d \<and> cd_now d IntentFile = None \<and> cd_now d StoreFile = Some b) (confined S ?J)"
    by (auto simp: triple_def fsync_dir_def)
  show ?thesis unfolding finish_def by (rule triple_bind [OF 1], rule triple_bind [OF 2], rule 3)
qed

lemma commit_publish_triple:
  assumes "journal_payload cd (pc_journal p) = Inr (pc_bytes p)" "Some (pc_bytes p) \<in> S"
  shows "triple (confined S (journals cd S)) (commit_publish pid p e)
    (\<lambda>_ d. settled d \<and> cd_now d IntentFile = None \<and> cd_now d StoreFile = Some (pc_bytes p)) (confined S (journals cd S))"
proof -
  have j: "Some (pc_journal p) \<in> journals cd S" using assms by (simp add: journals_def)
  have 1: "triple (confined S (journals cd S)) (durable_write IntentFile (StagedIntent pid) (pc_journal p) (pa_intent e))
      (\<lambda>_. confined S (journals cd S)) (confined S (journals cd S))"
    by (rule triple_weaken [OF durable_write_triple]) (use j in auto)
  show ?thesis
    unfolding commit_publish_def
    by (rule triple_bind [OF 1], rule finish_triple [OF assms(2), unfolded finish_def])
qed

lemma resolve_commit_unfold:
  "resolve_commit cd pid e d = (case cd_now d IntentFile of
      None \<Rightarrow> (Inr Clean, d)
    | Some journal \<Rightarrow>
        if \<not> ra_read e then (Inl CommitIo, d)
        else (case journal_payload cd journal of
            Inl err \<Rightarrow> (Inl err, d)
          | Inr b \<Rightarrow> apfst (map_sum id (\<lambda>_. Completed)) (finish pid b (ra_store e) (ra_remove e) (ra_sync e) d)))"
  by (auto simp: resolve_commit_def finish_def io_bind_def io_lift_def io_return_def
    split: option.split sum.split prod.split)

lemma resolve_commit_confined:
  assumes c: "confined S (journals cd S) d" and r: "resolve_commit cd pid e d = (x, d')"
  shows "confined S (journals cd S) d'"
    "x = Inr Completed \<Longrightarrow> settled d' \<and> cd_now d' IntentFile = None"
proof -
  have "confined S (journals cd S) d' \<and> (x = Inr Completed \<longrightarrow> settled d' \<and> cd_now d' IntentFile = None)"
  proof (cases "\<exists>j b. cd_now d IntentFile = Some j \<and> ra_read e \<and> journal_payload cd j = Inr b")
    case False
    then show ?thesis using r c by (auto simp: resolve_commit_unfold split: option.splits if_splits sum.splits)
  next
    case True
    then obtain j b where j: "cd_now d IntentFile = Some j" "ra_read e" "journal_payload cd j = Inr b" by blast
    have "Some j \<in> journals cd S" using c j(1) unfolding confined_def contents_def by (metis insertI1 subset_iff)
    then have b: "Some b \<in> S" using j(3) by (simp add: journals_def)
    obtain y d1 where f: "finish pid b (ra_store e) (ra_remove e) (ra_sync e) d = (y, d1)" by fastforce
    note t = tripleD [OF finish_triple [OF b, where cd = cd] c f]
    have "d' = d1" "x = map_sum id (\<lambda>_. Completed) y" using r j f by (auto simp: resolve_commit_unfold)
    then show ?thesis using t b settled_confined [of d1 S cd] by (cases y) auto
  qed
  then show "confined S (journals cd S) d'" "x = Inr Completed \<Longrightarrow> settled d' \<and> cd_now d' IntentFile = None" by blast+
qed

lemma delete_loop_confined:
  "delete_loop fs r d = (x, d') \<Longrightarrow> confined S J d \<Longrightarrow> None \<in> S \<Longrightarrow> None \<in> J \<Longrightarrow> confined S J d'"
  by (induction fs r d rule: delete_loop.induct) (auto split: if_splits intro: confined_put confined_sync)

lemma delete_loop_done:
  "delete_loop fs r d = (Inr b, d') \<Longrightarrow> (r \<longrightarrow> settled d) \<Longrightarrow>
    (\<forall>f. f \<in> fst ` set fs \<or> cd_now d f = None \<longrightarrow> cd_now d' f = None) \<and>
    (r \<longrightarrow> b) \<and> (if b then settled d' else d' = d)"
  by (induction fs r d rule: delete_loop.induct) (auto split: if_splits)

lemma delete_camera_store_confined:
  assumes "delete_camera_store staging_files ia sa final d = (x, d')" "confined S J d" "None \<in> S" "None \<in> J"
  shows "confined S J d'"
proof (cases staging_files)
  case None
  with assms(1,2) show ?thesis by (simp add: delete_camera_store_def io_lift_def)
next
  case (Some staged)
  obtain y d1 where l: "delete_loop ((IntentFile, ia) # (StoreFile, sa) # staged) False d = (y, d1)" by fastforce
  show ?thesis
    using assms(1) delete_loop_confined [OF l assms(2-4)] l Some
    by (auto simp: delete_camera_store_def io_bind_def confined_sync split: sum.splits if_splits sync_answer.splits)
qed

lemma delete_camera_store_done:
  assumes r: "delete_camera_store staging_files ia sa final d = (Inr b, d')"
    and m: "final = SyncMissing \<longrightarrow> (\<forall>f. set (cd_keep d f) \<subseteq> {None})"
  shows "contents d' StoreFile \<subseteq> {None}" "contents d' IntentFile \<subseteq> {None}"
proof -
  obtain staged c d1 where l: "delete_loop ((IntentFile, ia) # (StoreFile, sa) # staged) False d = (Inr c, d1)"
    and d': "c \<and> d' = d1 \<or> \<not> c \<and> final = SyncOk \<and> d' = sync_directory d1 \<or> \<not> c \<and> final = SyncMissing \<and> d' = d1"
    using r by (auto simp: delete_camera_store_def io_bind_def io_lift_def
      split: option.splits prod.splits sum.splits if_splits sync_answer.splits)
  note gone = delete_loop_done [OF l, simplified]
  have now: "cd_now d' StoreFile = None" "cd_now d' IntentFile = None" using gone d' by (auto split: if_splits)
  have "settled d' \<or> (\<forall>f. set (cd_keep d' f) \<subseteq> {None})" using gone d' m by (auto split: if_splits)
  with now show "contents d' StoreFile \<subseteq> {None}" "contents d' IntentFile \<subseteq> {None}"
    by (auto simp: contents_settled) (auto simp: contents_def)
qed

lemma commit_inv_step:
  assumes ok: "commit_codec_ok cd" and st: "commit_step cd w w'" and inv: "commit_inv cd w"
  shows "commit_inv cd w'"
  using st
proof cases
  case (published nonce mkdir s snap key p pid e d)
  let ?S = "insert (Some (pc_bytes p)) (may_hold w)"
  have j: "journal_payload cd (pc_journal p) = Inr (pc_bytes p)" by (rule prepared_journal(1) [OF ok published(3,2)])
  have "confined ?S (journals cd ?S) (cw_disk w)"
    using inv unfolding commit_inv_def by (rule confined_mono) (auto intro: journals_mono [THEN subsetD])
  from tripleD [OF commit_publish_triple [OF j] this published(4)]
  have "settled d" "cd_now d IntentFile = None" "cd_now d StoreFile = Some (pc_bytes p)" by auto
  then show ?thesis unfolding commit_inv_def published(1) by (intro settled_confined) (simp_all add: may_hold_def)
next
  case (publish_failed nonce mkdir s snap key p pid e err d)
  let ?S = "insert (Some (pc_bytes p)) (may_hold w)"
  have j: "journal_payload cd (pc_journal p) = Inr (pc_bytes p)" by (rule prepared_journal(1) [OF ok publish_failed(3,2)])
  have "confined ?S (journals cd ?S) (cw_disk w)"
    using inv unfolding commit_inv_def by (rule confined_mono) (auto intro: journals_mono [THEN subsetD])
  from tripleD [OF commit_publish_triple [OF j] this publish_failed(4)]
  have "confined ?S (journals cd ?S) d" by auto
  moreover have "may_hold w' = ?S" by (auto simp: publish_failed(1) may_hold_def)
  ultimately show ?thesis unfolding commit_inv_def by (simp add: publish_failed(1))
next
  case (completed pid r d)
  from resolve_commit_confined [OF inv [unfolded commit_inv_def] completed(2)]
  show ?thesis unfolding commit_inv_def completed(1) by (intro settled_confined) (simp_all add: may_hold_def)
next
  case (not_completed pid r x d)
  from resolve_commit_confined(1) [OF inv [unfolded commit_inv_def] not_completed(2)]
  show ?thesis by (simp add: commit_inv_def not_completed(1) may_hold_def)
next
  case (deleted staged ia sa final b d)
  from delete_camera_store_done [OF deleted(2,3)]
  show ?thesis by (auto simp: commit_inv_def deleted(1) may_hold_def confined_def)
next
  case (delete_failed staged ia sa final err d)
  let ?S = "insert None (may_hold w)"
  have "confined ?S (journals cd ?S) (cw_disk w)"
    using inv unfolding commit_inv_def by (rule confined_mono) (auto intro: journals_mono [THEN subsetD])
  from delete_camera_store_confined [OF delete_failed(2) this]
  have "confined ?S (journals cd ?S) d" by simp
  moreover have "may_hold w' = ?S" by (auto simp: delete_failed(1) may_hold_def)
  ultimately show ?thesis unfolding commit_inv_def by (simp add: delete_failed(1))
next
  case (power_failure now)
  from confined_power_loss [OF inv [unfolded commit_inv_def] power_failure(2)]
  show ?thesis by (simp add: commit_inv_def power_failure(1) may_hold_def)
qed

text \<open>The histories of the account's store under a codec that keeps its laws.\<close>

definition lawful_step :: "('f, 'c) commit_codec \<Rightarrow> commit_world \<Rightarrow> commit_world \<Rightarrow> bool" where
  "lawful_step cd w w' \<longleftrightarrow> commit_codec_ok cd \<and> commit_step cd w w'"

lemma commit_inv_start: "commit_inv cd commit_start"
  by (simp add: commit_start_def commit_inv_def may_hold_def confined_def contents_def power_loss_def)

interpretation commits: transition_system "\<lambda>w. w = commit_start" "lawful_step cd" "commit_inv cd" for cd
  by unfold_locales (auto simp: lawful_step_def commit_inv_start intro: commit_inv_step)

lemma commit_reachable_inv:
  "commit_codec_ok cd \<Longrightarrow> (commit_step cd)\<^sup>*\<^sup>* commit_start w \<Longrightarrow> commit_inv cd w"
  using commits.inv_reachable [of commit_start cd w]
  by (simp add: lawful_step_def [abs_def])

section \<open>What the publication promises\<close>

text \<open>C16: Whatever publications, recoveries and deletions were run by whatever processes, each
  ending anywhere, and however often the power failed, the store on the disk (now or after
  another power loss, before or after a recovery) is the last state that was acknowledged or
  one that a later, failed attempt was making: an acknowledged addition or deletion is never
  undone by recovery.\<close>

theorem acknowledged_store_survives:
  assumes "commit_codec_ok cd" "(commit_step cd)\<^sup>*\<^sup>* commit_start w"
    and "d = cw_disk w \<or> (\<exists>now. may_survive (cw_disk w) now \<and> d = power_loss now)"
    and "resolve_commit cd pid r d = (x, d')"
  shows "{cd_now d StoreFile, cd_now d' StoreFile} \<subseteq> insert (cw_acked w) (cw_tried w)"
proof -
  have "confined (may_hold w) (journals cd (may_hold w)) d"
    using commit_reachable_inv [OF assms(1,2)] assms(3) confined_power_loss by (auto simp: commit_inv_def)
  with resolve_commit_confined(1) [OF this assms(4)] show ?thesis
    by (simp add: confined_def contents_def may_hold_def)
qed

text \<open>All answers of a system that works.\<close>

definition works :: write_answers where
  "works = \<lparr> wa_create = True, wa_write = None, wa_sync = True, wa_rename = True, wa_cleanup = True, wa_sync_dir = True \<rparr>"

definition resolve_works :: resolve_answers where
  "resolve_works = \<lparr> ra_read = True, ra_store = works, ra_remove = True, ra_sync = True \<rparr>"

text \<open>Once the journal of a prepared publication is on the disk, the next recovery by a
  process that has no staging file of its own there, on a system that works, finishes that
  publication: the store that was to be published is the one that is read back.\<close>

theorem journaled_publication_is_finished:
  assumes "commit_codec_ok cd" "length nonce = NONCE_LEN"
    and "prepare_with_intent_key cd nonce mkdir s snap key = Inr p"
    and "cd_now d IntentFile = Some (pc_journal p)" "cd_now d (StagedStore pid) = None"
  shows "\<exists>d' b. resolve_commit cd pid resolve_works d = (Inr Completed, d') \<and> settled d' \<and>
    cd_now d' IntentFile = None \<and> cd_now d' StoreFile = Some b \<and> parse_store_bytes cd b key = Inr s"
proof -
  note j = prepared_journal [OF assms(1-3)]
  have "parse_store_bytes cd (pc_bytes p) key = Inr s"
    using assms(1) j by (intro written_store_reads_back [OF _ _ assms(2)]) (auto simp: commit_codec_ok_def)
  then show ?thesis
    using assms(4,5) j(1)
    by (simp add: resolve_commit_unfold resolve_works_def works_def finish_def io_bind_def durable_write_def
        fsync_dir_def remove_file_def)
qed

text \<open>A write that fails leaves its staging file, whose name depends on the process only and
  which is only ever created anew: until the account's files are deleted, that process neither
  publishes nor recovers again.\<close>

lemma failed_write_leaves_staging:
  "wa_create w \<Longrightarrow> cd_now d temp = None \<Longrightarrow> wa_write w = Some part \<or> wa_write w = None \<and> \<not> wa_sync w \<Longrightarrow>
    durable_write path temp b w d = (x, d') \<Longrightarrow> x = Inl CommitIo \<and> cd_now d' temp \<noteq> None"
  by (auto simp: durable_write_def Let_def)

lemma staging_blocks_writes: "cd_now d temp \<noteq> None \<Longrightarrow> durable_write path temp b w d = (Inl CommitIo, d)"
  by (auto simp: durable_write_def)

lemma staging_blocks_the_process:
  "cd_now d (StagedIntent pid) \<noteq> None \<Longrightarrow> commit_publish pid p e d = (Inl CommitIo, d)"
  "cd_now d (StagedStore pid) \<noteq> None \<Longrightarrow> cd_now d IntentFile \<noteq> None \<Longrightarrow> \<exists>err. resolve_commit cd pid r d = (Inl err, d)"
  by (auto simp: commit_publish_def io_bind_def staging_blocks_writes resolve_commit_unfold finish_def
      split: option.split sum.split)

section \<open>Examples\<close>

definition example_digest :: string where "example_digest = replicate 64 CHR ''0''"

definition example_secondary :: "(nat, nat) SecondaryStore" where
  "example_secondary = example_store example_digest [example_group ''cam-046d-0825'' (OrdinaryBinding (Some ''046d:0825'') (Some ''3443:c803''))]"

definition example_intent :: CommitIntent where
  "example_intent = \<lparr> in_format_version = 1, in_generation = 1, in_primary_snapshot_sha256 = example_digest,
     in_new_secondary_b64 = [char_of (65 :: nat)] \<rparr>"

text \<open>A codec for one store and one journal, without encryption.\<close>

definition example_codec :: "(nat, nat) commit_codec" where
  "example_codec = \<lparr> sc_sha256 = (\<lambda>_. replicate 32 0), sc_seal = (\<lambda>_ _ _. None), sc_unseal = (\<lambda>_ _ _. None),
     sc_b64 = map (\<lambda>w. char_of (unat w)), sc_unb64 = (\<lambda>t. Some (map (\<lambda>c. word_of_nat (of_char c)) t)),
     sc_doc = (\<lambda>b. if b = [65] then Some \<lparr> jd_format_version = Some 1, jd_key_id = None, jd_enc = None \<rparr> else None),
     sc_envelope = (\<lambda>_. None),
     sc_store = (\<lambda>b. if b = [65] then Some example_secondary else None),
     sc_print = (\<lambda>s. if s = example_secondary then Some [65] else None),
     jc_print = (\<lambda>i. if i = example_intent then Some [1] else None),
     jc_parse = (\<lambda>b. if b = [1] then Some example_intent else None) \<rparr>"

definition example_prepared :: PreparedSecondaryCommit where
  "example_prepared = \<lparr> pc_owner = ''alice'', pc_bytes = [65], pc_journal = [1] \<rparr>"

definition publish_works :: publish_answers where
  "publish_works = \<lparr> pa_intent = works, pa_store = works, pa_remove = True, pa_sync = True \<rparr>"

lemma byte_text_roundtrip: "map (\<lambda>c. word_of_nat (of_char c)) (map (\<lambda>w. char_of (unat (w :: 8 word))) b) = b"
proof (induction b)
  case (Cons w b)
  have "unat w < 256" using unsigned_less [of w] by simp
  with Cons show ?case by simp
qed simp

lemma example_codec_ok: "commit_codec_ok example_codec"
  unfolding commit_codec_ok_def codec_ok_def example_codec_def
  using byte_text_roundtrip
  by (simp add: example_secondary_def example_store_def comp_def)

lemma example_secondary_ok: "store_ok example_secondary"
  by (simp add: example_secondary_def store_ok_def example_store_def SECONDARY_STORE_VERSION_def out_of_bounds_def
      MAX_ID_BYTES_def MAX_GROUPS_def MAX_TOTAL_SCANS_def example_digest_def lowercase_hex_def is_digit_def list_all_iff
      group_ok_def example_group_def binding_valid_def rgb_identity_def ir_identity_def group_scans_def
      MAX_SCANS_PER_PROFILE_GROUP_def MAX_CALIB_SPACES_PER_PROFILE_GROUP_def)

lemma example_secondary_fields [simp]:
  "ss_generation example_secondary = 1" "ss_owner example_secondary = ''alice''"
  "ss_primary_snapshot_sha256 example_secondary = example_digest" "ss_format_version example_secondary = 1"
  by (simp_all add: example_secondary_def example_store_def)

lemma example_sha: "sha256_hex (sc_sha256 example_codec) b = example_digest"
proof -
  have "char_of (48 :: nat) = CHR ''0''" by (rule char_of_eq_iff [THEN iffD2]) simp
  moreover have "concat (replicate n [a, a]) = replicate (2 * n) a" for n and a :: char by (induction n) auto
  ultimately show ?thesis
    by (simp add: example_codec_def sha256_hex_def hex_lower_def example_digest_def)
qed

lemma example_prepares:
  "prepare_with_intent_key example_codec (replicate NONCE_LEN 0) True example_secondary example_digest None = Inr example_prepared"
  using example_secondary_ok [folded store_validate_None]
  by (simp add: prepare_with_intent_key_def store_file_bytes_def example_codec_def
      example_intent_def INTENT_FORMAT_VERSION_def example_prepared_def)

definition example_published :: commit_world where
  "example_published = \<lparr> cw_disk = snd (commit_publish 1 example_prepared publish_works (cw_disk commit_start)),
     cw_acked = Some [65], cw_tried = {} \<rparr>"

lemmas commit_run = commit_publish_def io_bind_def durable_write_def fsync_dir_def remove_file_def
  publish_works_def works_def commit_start_def power_loss_def

lemma example_publishes: "commit_step example_codec commit_start example_published"
proof -
  have "commit_publish 1 example_prepared publish_works (cw_disk commit_start) =
      (Inr (), snd (commit_publish 1 example_prepared publish_works (cw_disk commit_start)))"
    by (simp add: commit_run)
  from commit_step.published [OF example_prepares _ this] show ?thesis
    by (simp add: example_published_def example_prepared_def)
qed

theorem acknowledged_store_survives_witness:
  "{cd_now (cw_disk example_published) StoreFile,
     cd_now (snd (resolve_commit example_codec 7 resolve_works (cw_disk example_published))) StoreFile} \<subseteq> {Some [65]}"
proof -
  have "(commit_step example_codec)\<^sup>*\<^sup>* commit_start example_published" using example_publishes by blast
  from acknowledged_store_survives [OF example_codec_ok this disjI1 [OF refl] prod.collapse [symmetric], of 7 resolve_works]
  show ?thesis by (simp add: example_published_def)
qed

theorem journaled_publication_is_finished_witness:
  "\<exists>d' b. resolve_commit example_codec 7 resolve_works (put IntentFile (Some [1]) (power_loss (\<lambda>_. None))) = (Inr Completed, d') \<and>
     settled d' \<and> cd_now d' IntentFile = None \<and> cd_now d' StoreFile = Some b \<and>
     parse_store_bytes example_codec b None = Inr example_secondary"
  by (rule journaled_publication_is_finished [OF example_codec_ok _ example_prepares])
    (simp_all add: example_prepared_def power_loss_def)

end
