(* ===== verification/Secondary_Views.thy ===== *)
theory Secondary_Views
  imports Secondary_Commit
begin

text \<open>
  Reading an account's cameras for one authentication (\<^verbatim>\<open>irlume-core/src/multi_camera/views.rs\<close>,
  \<^verbatim>\<open>coordinator.rs\<close> and the second half of \<^verbatim>\<open>commit.rs\<close>): the enrollment as one view per camera
  group, the pinning of an attempt to the one group its camera pair belongs to, and the check
  at the moment of the grant that nothing the attempt was pinned to has changed.
\<close>

section \<open>The enrollment\<close>

record ('f, 'c) FaceProfile =
  fp_name :: string
  fp_scans :: "'f FaceScan list"
  fp_ir_calib :: "'c option"
  fp_ir_calibs :: "(string \<times> 'c) list"

record ('f, 'c) Enrollment =
  en_user :: string
  en_uid :: "u32 option"
  en_loaded_for :: "u32 option"
  en_profiles :: "('f, 'c) FaceProfile list"
  en_require_eyes_open :: bool
  en_camera_binding :: "PairBinding option"
  en_closure_calibration :: "('f \<times> 'f) option"

definition Enrollment_new :: "string \<Rightarrow> ('f, 'c) Enrollment" where
  "Enrollment_new user = \<lparr> en_user = user, en_uid = None, en_loaded_for = None, en_profiles = [],
     en_require_eyes_open = False, en_camera_binding = None, en_closure_calibration = None \<rparr>"

text \<open>The operations of \<^verbatim>\<open>f32\<close> that the derived state uses: the test against zero, the total
  order of \<^verbatim>\<open>total_cmp\<close>, the minimum with its start at infinity, and the factor 0.75.\<close>

record 'f float_ops =
  fo_positive :: "'f \<Rightarrow> bool"
  fo_total_le :: "'f \<Rightarrow> 'f \<Rightarrow> bool"
  fo_min :: "'f \<Rightarrow> 'f \<Rightarrow> 'f"
  fo_infinity :: 'f
  fo_three_quarters :: "'f \<Rightarrow> 'f"

primrec insert_by :: "('f \<Rightarrow> 'f \<Rightarrow> bool) \<Rightarrow> 'f \<Rightarrow> 'f list \<Rightarrow> 'f list" where
  "insert_by le x [] = [x]"
| "insert_by le x (y # ys) = (if le x y then x # y # ys else y # insert_by le x ys)"

definition sort_by :: "('f \<Rightarrow> 'f \<Rightarrow> bool) \<Rightarrow> 'f list \<Rightarrow> 'f list" where
  "sort_by le xs = foldr (insert_by le) xs []"

definition pitch_neutral_of :: "'f float_ops \<Rightarrow> 'f FaceScan list \<Rightarrow> 'f option" where
  "pitch_neutral_of fo scans =
     (let v = filter (fo_positive fo) (map sn_pitch scans)
      in if length v < 2 then None else Some (sort_by (fo_total_le fo) v ! (length v div 2)))"

definition ratio_floor_of :: "'f float_ops \<Rightarrow> 'f list \<Rightarrow> 'f option" where
  "ratio_floor_of fo ratios =
     (if length ratios < 2 then None
      else Some (fo_three_quarters fo (fold (\<lambda>x m. fo_min fo m x) ratios (fo_infinity fo))))"

definition usable_ratio :: "'f float_ops \<Rightarrow> 'f FaceScan \<Rightarrow> bool" where
  "usable_ratio fo s \<longleftrightarrow> sn_ir s \<noteq> None \<and> fo_positive fo (sn_ir_center_edge_ratio s)"

definition Enrollment_pitch_neutral :: "'f float_ops \<Rightarrow> ('f, 'c) Enrollment \<Rightarrow> 'f option" where
  "Enrollment_pitch_neutral fo e = pitch_neutral_of fo (concat (map fp_scans (en_profiles e)))"

fun collect_profile :: "'f float_ops \<Rightarrow> 'f list \<Rightarrow> 'f FaceScan list \<Rightarrow> 'f list" where
  "collect_profile fo ratios [] = ratios"
| "collect_profile fo ratios (s # ss) =
     collect_profile fo (if usable_ratio fo s then ratios @ [sn_ir_center_edge_ratio s] else ratios) ss"

definition ir_center_edge_ratio_floor :: "'f float_ops \<Rightarrow> ('f, 'c) Enrollment \<Rightarrow> 'f option" where
  "ir_center_edge_ratio_floor fo e =
     ratio_floor_of fo (fold (\<lambda>p ratios. collect_profile fo ratios (fp_scans p)) (en_profiles e) [])"

section \<open>Views\<close>

datatype GroupScope = PrimaryScope | SecondaryScope string

record ('f, 'c) ScopedProfileView =
  sv_profile :: string
  sv_scans :: "'f FaceScan list"
  sv_ir_calibs :: "(string \<times> 'c) list"

definition view_pitch_neutral :: "'f float_ops \<Rightarrow> ('f, 'c) ScopedProfileView \<Rightarrow> 'f option" where
  "view_pitch_neutral fo v = pitch_neutral_of fo (sv_scans v)"

definition view_ir_ratio_floor :: "'f float_ops \<Rightarrow> ('f, 'c) ScopedProfileView \<Rightarrow> 'f option" where
  "view_ir_ratio_floor fo v = ratio_floor_of fo (map sn_ir_center_edge_ratio (filter (usable_ratio fo) (sv_scans v)))"

definition LEGACY_RECOGNIZER_SPACE :: string where
  "LEGACY_RECOGNIZER_SPACE = ''embed:a7933ea5330113b01c9b60351d8f4c33003f145d8470ac5f0e52ee2effe25c60''"

definition rgb_candidates :: "('f, 'c) ScopedProfileView \<Rightarrow> string \<Rightarrow> 'f FaceScan list" where
  "rgb_candidates v space =
     filter (\<lambda>s. (case sn_embed_space s of Some e \<Rightarrow> e | None \<Rightarrow> LEGACY_RECOGNIZER_SPACE) = space) (sv_scans v)"

definition ir_candidates :: "('f, 'c) ScopedProfileView \<Rightarrow> string \<Rightarrow> nat \<Rightarrow> 'f FaceScan list" where
  "ir_candidates v space dim =
     filter (\<lambda>s. sn_ir_space s = Some space \<and> (case sn_ir s of Some ir \<Rightarrow> length ir = dim | None \<Rightarrow> False)) (sv_scans v)"

definition DEFAULT_ENROLL_SCANS :: nat where "DEFAULT_ENROLL_SCANS = 10"
definition MIN_FIT_PAIRS :: nat where "MIN_FIT_PAIRS = 3"

record GroupReadiness =
  rd_scan_count :: nat
  rd_capture_target_met :: bool
  rd_calibration_fittable :: bool
  rd_compatible_rgb_candidates :: nat
  rd_compatible_ir_pairs :: nat

definition readiness :: "('f, 'c) ScopedProfileView \<Rightarrow> string \<Rightarrow> string \<Rightarrow> nat \<Rightarrow> GroupReadiness" where
  "readiness v embed_space ir_space ir_dim =
     (let rgb = length (rgb_candidates v embed_space); ir_pairs = length (ir_candidates v ir_space ir_dim)
      in \<lparr> rd_scan_count = length (sv_scans v),
           rd_capture_target_met = length (sv_scans v) \<ge> DEFAULT_ENROLL_SCANS,
           rd_calibration_fittable = ir_pairs \<ge> MIN_FIT_PAIRS,
           rd_compatible_rgb_candidates = rgb, rd_compatible_ir_pairs = ir_pairs \<rparr>)"

record ('f, 'c) CameraGroupView =
  cv_scope :: GroupScope
  cv_pair :: PairBinding
  cv_profiles :: "('f, 'c) ScopedProfileView list"

definition matching_enrollment :: "('f, 'c) CameraGroupView \<Rightarrow> string \<Rightarrow> ('f, 'c) Enrollment" where
  "matching_enrollment g user = (Enrollment_new user)\<lparr>
     en_profiles := map (\<lambda>v. \<lparr> fp_name = sv_profile v, fp_scans = sv_scans v, fp_ir_calib = None,
       fp_ir_calibs = sv_ir_calibs v \<rparr>) (cv_profiles g),
     en_camera_binding := Some (cv_pair g) \<rparr>"

record ('f, 'c) CameraScopedViews =
  vw_groups :: "('f, 'c) CameraGroupView list"
  vw_secondary_active :: bool

definition primary_view :: "('f, 'c) Enrollment \<Rightarrow> ('f, 'c) CameraGroupView" where
  "primary_view primary = \<lparr> cv_scope = PrimaryScope,
     cv_pair = (case en_camera_binding primary of Some b \<Rightarrow> b | None \<Rightarrow> OrdinaryBinding None None),
     cv_profiles = map (\<lambda>p. \<lparr> sv_profile = fp_name p, sv_scans = fp_scans p, sv_ir_calibs = fp_ir_calibs p \<rparr>)
       (en_profiles primary) \<rparr>"

definition group_view_of :: "('f, 'c) SecondaryGroup \<Rightarrow> ('f, 'c) CameraGroupView" where
  "group_view_of g = \<lparr> cv_scope = SecondaryScope (sg_id g), cv_pair = sg_pair g,
     cv_profiles = map (\<lambda>p. \<lparr> sv_profile = ps_profile p, sv_scans = ps_scans p, sv_ir_calibs = ps_ir_calibs p \<rparr>)
       (sg_profiles g) \<rparr>"

definition compose ::
    "(bytes \<Rightarrow> bytes) \<Rightarrow> ('f, 'c) Enrollment \<Rightarrow> bytes \<Rightarrow> ('f, 'c) SecondaryStore option \<Rightarrow>
       SecondaryStoreError + ('f, 'c) CameraScopedViews" where
  "compose sha primary primary_bytes secondary = (case Option.bind secondary store_validate of
      Some e \<Rightarrow> Inl e
    | None \<Rightarrow> Inr (case secondary of
          Some s \<Rightarrow>
            if activation_against sha s (Some primary_bytes) = Active
            then \<lparr> vw_groups = primary_view primary # map group_view_of (ss_groups s), vw_secondary_active = True \<rparr>
            else \<lparr> vw_groups = [primary_view primary], vw_secondary_active = False \<rparr>
        | None \<Rightarrow> \<lparr> vw_groups = [primary_view primary], vw_secondary_active = False \<rparr>))"

definition secondary_view :: "('f, 'c) CameraScopedViews \<Rightarrow> string \<Rightarrow> ('f, 'c) CameraGroupView option" where
  "secondary_view v i = find (\<lambda>g. cv_scope g = SecondaryScope i) (vw_groups v)"

section \<open>The boundary of the grant\<close>

record GrantContext =
  gc_secondary_generation :: u64
  gc_primary_snapshot_sha256 :: string
  gc_group_id :: string

datatype grant_refusal =
    StoreAbsent | GenerationChanged | PrimaryMissing | PrimarySnapshotChanged | ActivationStale
  | GroupGone | PairChanged | SplitNeedsPair

datatype GrantDecision = Grant | Refuse grant_refusal

definition grant_boundary_check_impl ::
    "(bytes \<Rightarrow> bytes) \<Rightarrow> GrantContext \<Rightarrow> PairBinding option \<Rightarrow> bytes option \<Rightarrow> ('f, 'c) SecondaryStore option \<Rightarrow>
       GrantDecision" where
  "grant_boundary_check_impl sha pinned pair current_primary current_secondary = (case current_secondary of
      None \<Rightarrow> Refuse StoreAbsent
    | Some s \<Rightarrow>
        if ss_generation s \<noteq> gc_secondary_generation pinned then Refuse GenerationChanged
        else (case current_primary of
            None \<Rightarrow> Refuse PrimaryMissing
          | Some b \<Rightarrow>
              if sha256_hex sha b \<noteq> gc_primary_snapshot_sha256 pinned then Refuse PrimarySnapshotChanged
              else if activation_against sha s (Some b) \<noteq> Active then Refuse ActivationStale
              else (case find (\<lambda>g. sg_id g = gc_group_id pinned) (ss_groups s) of
                  None \<Rightarrow> Refuse GroupGone
                | Some g \<Rightarrow> (case pair of
                    Some p \<Rightarrow> if \<not> binding_valid p \<or> sg_pair g \<noteq> p then Refuse PairChanged else Grant
                  | None \<Rightarrow> (case sg_pair g of SplitBinding _ \<Rightarrow> Refuse SplitNeedsPair | OrdinaryBinding _ _ \<Rightarrow> Grant)))))"

definition grant_boundary_check ::
    "(bytes \<Rightarrow> bytes) \<Rightarrow> GrantContext \<Rightarrow> bytes option \<Rightarrow> ('f, 'c) SecondaryStore option \<Rightarrow> GrantDecision" where
  "grant_boundary_check sha pinned b s = grant_boundary_check_impl sha pinned None b s"

definition grant_boundary_check_bound ::
    "(bytes \<Rightarrow> bytes) \<Rightarrow> GrantContext \<Rightarrow> PairBinding \<Rightarrow> bytes option \<Rightarrow> ('f, 'c) SecondaryStore option \<Rightarrow> GrantDecision" where
  "grant_boundary_check_bound sha pinned pair b s = grant_boundary_check_impl sha pinned (Some pair) b s"

text \<open>What reading the store answers, unless the read fails; the keys of the request as asked for
  an account.\<close>

definition read_store :: "bool \<Rightarrow> cdisk \<Rightarrow> read_result" where
  "read_store ok d = (if \<not> ok then ReadFailed else case cd_now d StoreFile of None \<Rightarrow> ReadMissing | Some b \<Rightarrow> ReadOk b)"

type_synonym key_source = "string \<Rightarrow> SecondaryStoreError + bytes option"

record store_access =
  sx_name :: string
  sx_pid :: nat
  sx_resolve :: resolve_answers
  sx_read :: bool
  sx_keys :: key_source

definition resolve_and_load ::
    "('f, 'c) commit_codec \<Rightarrow> store_access \<Rightarrow> (cdisk, CommitError, ('f, 'c) SecondaryStore option) op" where
  "resolve_and_load cd x = io_bind (resolve_commit cd (sx_pid x) (sx_resolve x)) (\<lambda>_ d.
     io_lift (map_sum CommitStore id (load_secondary_with_source cd (sx_name x) (read_store (sx_read x) d) (sx_keys x))) d)"

definition grant_boundary_now_impl ::
    "('f, 'c) commit_codec \<Rightarrow> store_access \<Rightarrow> GrantContext \<Rightarrow> PairBinding option \<Rightarrow> bytes option \<Rightarrow>
       (cdisk, CommitError, GrantDecision) op" where
  "grant_boundary_now_impl cd x pinned pair primary_read = io_bind (resolve_and_load cd x) (\<lambda>s.
     io_return (case s of
         None \<Rightarrow> grant_boundary_check_impl (sc_sha256 cd) pinned pair None (None :: ('f, 'c) SecondaryStore option)
       | Some s \<Rightarrow> grant_boundary_check_impl (sc_sha256 cd) pinned pair primary_read (Some s)))"

section \<open>Pinning an attempt\<close>

datatype pin_store_error =
    PinStore SecondaryStoreError | PinCommit CommitError | PinAbsent | PinOtherOwner
  | PrimaryUnreadable | PrimaryUnloadable | PrimaryAbsent

datatype PinError =
    PinSecondary pin_store_error | GroupNotActive | GroupInactive nat | PinAmbiguous

record ('f, 'c) SecondaryAuthContext =
  ax_pinned :: GrantContext
  ax_pair :: PairBinding
  ax_views :: "('f, 'c) CameraScopedViews"
  ax_group_index :: nat
  ax_store_index :: nat

text \<open>\<^verbatim>\<open>Iterator::position\<close>.\<close>

primrec find_position :: "('a \<Rightarrow> bool) \<Rightarrow> 'a list \<Rightarrow> nat option" where
  "find_position P [] = None"
| "find_position P (x # xs) = (if P x then Some 0 else map_option Suc (find_position P xs))"

definition context_of ::
    "('f, 'c) SecondaryStore \<Rightarrow> ('f, 'c) SecondaryGroup \<Rightarrow> ('f, 'c) CameraScopedViews \<Rightarrow> nat \<Rightarrow> nat \<Rightarrow>
       ('f, 'c) SecondaryAuthContext" where
  "context_of s g views index store_index =
     \<lparr> ax_pinned = \<lparr> gc_secondary_generation = ss_generation s,
         gc_primary_snapshot_sha256 = ss_primary_snapshot_sha256 s, gc_group_id = sg_id g \<rparr>,
       ax_pair = sg_pair g, ax_views = views, ax_group_index = index, ax_store_index = store_index \<rparr>"

definition pin_loaded_ordinary ::
    "(bytes \<Rightarrow> bytes) \<Rightarrow> ('f, 'c) Enrollment \<Rightarrow> bytes \<Rightarrow> ('f, 'c) SecondaryStore \<Rightarrow> string option \<Rightarrow> string option \<Rightarrow>
       PinError + ('f, 'c) SecondaryAuthContext" where
  "pin_loaded_ordinary sha primary primary_bytes s live_rgb live_ir = (case compose sha primary primary_bytes (Some s) of
      Inl e \<Rightarrow> Inl (PinSecondary (PinStore e))
    | Inr views \<Rightarrow> (case group_for_pair s live_rgb live_ir of
        None \<Rightarrow> Inl GroupNotActive
      | Some g \<Rightarrow>
          let store_index = (case find_position (\<lambda>c. sg_id c = sg_id g) (ss_groups s) of Some i \<Rightarrow> i | None \<Rightarrow> 0)
          in (case find_position (\<lambda>v. cv_scope v = SecondaryScope (sg_id g)) (vw_groups views) of
              None \<Rightarrow> Inl GroupNotActive
            | Some index \<Rightarrow> Inr (context_of s g views index store_index))))"

definition pin_key_from_loaded ::
    "(bytes \<Rightarrow> bytes) \<Rightarrow> string \<Rightarrow> ('f, 'c) Enrollment \<Rightarrow> bytes \<Rightarrow> CompletePairKey \<Rightarrow> ('f, 'c) SecondaryStore \<Rightarrow>
       PinError + ('f, 'c) SecondaryAuthContext" where
  "pin_key_from_loaded sha user primary primary_bytes key s = (case store_validate s of
      Some e \<Rightarrow> Inl (PinSecondary (PinStore e))
    | None \<Rightarrow>
        if ss_owner s \<noteq> user then Inl (PinSecondary PinOtherOwner)
        else (case strict_group_for_key s key of
            MatchNone \<Rightarrow> Inl GroupNotActive
          | MatchAmbiguous \<Rightarrow> Inl PinAmbiguous
          | MatchOne store_index g \<Rightarrow>
              if activation_against sha s (Some primary_bytes) \<noteq> Active then Inl (GroupInactive store_index)
              else (case compose sha primary primary_bytes (Some s) of
                  Inl e \<Rightarrow> Inl (PinSecondary (PinStore e))
                | Inr views \<Rightarrow> (case find_position (\<lambda>v. cv_scope v = SecondaryScope (sg_id g)) (vw_groups views) of
                    None \<Rightarrow> Inl (GroupInactive store_index)
                  | Some index \<Rightarrow> Inr (context_of s g views index store_index)))))"

definition load_for_pin ::
    "('f, 'c) commit_codec \<Rightarrow> store_access \<Rightarrow> (cdisk, PinError, ('f, 'c) SecondaryStore) op" where
  "load_for_pin cd x d = (case resolve_and_load cd x d of
      (Inl e, d') \<Rightarrow> (Inl (PinSecondary (PinCommit e)), d')
    | (Inr None, d') \<Rightarrow> (Inl (PinSecondary PinAbsent), d')
    | (Inr (Some s), d') \<Rightarrow> (Inr s, d'))"

definition pin_with_source ::
    "('f, 'c) commit_codec \<Rightarrow> store_access \<Rightarrow> bytes option \<Rightarrow> (string \<Rightarrow> unit + ('f, 'c) Enrollment option) \<Rightarrow>
       string option \<Rightarrow> string option \<Rightarrow> (cdisk, PinError, ('f, 'c) SecondaryAuthContext) op" where
  "pin_with_source cd x primary_read load_primary live_rgb live_ir = io_bind (load_for_pin cd x) (\<lambda>s.
     io_lift (case primary_read of
         None \<Rightarrow> Inl (PinSecondary PrimaryUnreadable)
       | Some primary_bytes \<Rightarrow> (case load_primary (ss_owner s) of
           Inl _ \<Rightarrow> Inl (PinSecondary PrimaryUnloadable)
         | Inr None \<Rightarrow> Inl (PinSecondary PrimaryAbsent)
         | Inr (Some primary) \<Rightarrow> pin_loaded_ordinary (sc_sha256 cd) primary primary_bytes s live_rgb live_ir)))"

definition pin_key_with_source ::
    "('f, 'c) commit_codec \<Rightarrow> store_access \<Rightarrow> string \<Rightarrow> ('f, 'c) Enrollment \<Rightarrow> bytes \<Rightarrow> CompletePairKey \<Rightarrow>
       (cdisk, PinError, ('f, 'c) SecondaryAuthContext) op" where
  "pin_key_with_source cd x user primary primary_bytes key = io_bind (load_for_pin cd x) (\<lambda>s.
     io_lift (pin_key_from_loaded (sc_sha256 cd) user primary primary_bytes key s))"

definition pin_strict_with_source ::
    "('f, 'c) commit_codec \<Rightarrow> store_access \<Rightarrow> string \<Rightarrow> ('f, 'c) Enrollment \<Rightarrow> bytes \<Rightarrow> string \<Rightarrow> string \<Rightarrow>
       (cdisk, PinError, ('f, 'c) SecondaryAuthContext) op" where
  "pin_strict_with_source cd x user primary primary_bytes rgb ir =
     pin_key_with_source cd x user primary primary_bytes (OrdinaryKey rgb ir)"

definition pin_with_primary_snapshot ::
    "('f, 'c) commit_codec \<Rightarrow> store_access \<Rightarrow> string \<Rightarrow> ('f, 'c) Enrollment \<Rightarrow> bytes \<Rightarrow> PairBinding \<Rightarrow>
       (cdisk, PinError, ('f, 'c) SecondaryAuthContext) op" where
  "pin_with_primary_snapshot cd x user primary primary_bytes live = (case complete_key live of
      Some key \<Rightarrow> pin_key_with_source cd x user primary primary_bytes key
    | None \<Rightarrow> (case live of
        SplitBinding _ \<Rightarrow> io_lift (Inl GroupNotActive)
      | OrdinaryBinding rgb ir \<Rightarrow> io_bind (load_for_pin cd x) (\<lambda>s. io_lift (
          if ss_owner s \<noteq> user then Inl (PinSecondary PinOtherOwner)
          else pin_loaded_ordinary (sc_sha256 cd) primary primary_bytes s rgb ir))))"

definition group_view :: "('f, 'c) SecondaryAuthContext \<Rightarrow> ('f, 'c) CameraGroupView" where
  "group_view c = vw_groups (ax_views c) ! ax_group_index c"

definition boundary_check ::
    "(bytes \<Rightarrow> bytes) \<Rightarrow> ('f, 'c) SecondaryAuthContext \<Rightarrow> bytes option \<Rightarrow> ('f, 'c) SecondaryStore option \<Rightarrow> GrantDecision" where
  "boundary_check sha c b s = grant_boundary_check_bound sha (ax_pinned c) (ax_pair c) b s"

definition boundary_check_now ::
    "('f, 'c) commit_codec \<Rightarrow> store_access \<Rightarrow> ('f, 'c) SecondaryAuthContext \<Rightarrow> bytes option \<Rightarrow> (cdisk, CommitError, GrantDecision) op" where
  "boundary_check_now cd x c primary_read = grant_boundary_now_impl cd x (ax_pinned c) (Some (ax_pair c)) primary_read"

section \<open>What a pin and a grant mean\<close>

lemma find_position_Some: "find_position P xs = Some i \<Longrightarrow> i < length xs \<and> P (xs ! i)"
  by (induction xs arbitrary: i) (auto split: if_splits)

lemma compose_active:
  "compose sha primary b (Some s) = Inr views \<Longrightarrow>
    store_ok s \<and> vw_groups views = primary_view primary #
      (if activation_against sha s (Some b) = Active then map group_view_of (ss_groups s) else [])"
  by (auto simp: compose_def store_validate_None split: option.splits if_splits)

text \<open>The position found in the views is that of the group's own view: a valid store names each
  group once.\<close>

lemma scope_position:
  assumes v: "compose sha primary b (Some s) = Inr views" and g: "g \<in> set (ss_groups s)"
    and i: "find_position (\<lambda>v. cv_scope v = SecondaryScope (sg_id g)) (vw_groups views) = Some i"
  shows "activation_against sha s (Some b) = Active" "vw_groups views ! i = group_view_of g"
proof -
  note c = compose_active [OF v]
  note p = find_position_Some [OF i]
  from c have prim: "cv_scope (vw_groups views ! 0) = PrimaryScope" by (simp add: primary_view_def)
  then have "i \<noteq> 0" using p by (metis GroupScope.distinct(1))
  then obtain j where j: "i = Suc j" by (cases i) auto
  show a: "activation_against sha s (Some b) = Active" using c p j by (auto split: if_splits)
  then have jl: "j < length (ss_groups s)" and view: "vw_groups views ! i = group_view_of (ss_groups s ! j)" using c p j by auto
  then have "sg_id (ss_groups s ! j) = sg_id g" using p by (simp add: group_view_of_def)
  moreover have "inj_on sg_id (set (ss_groups s))" using c by (simp add: store_ok_def distinct_map)
  ultimately have "ss_groups s ! j = g" using g jl by (auto dest: inj_onD)
  with view show "vw_groups views ! i = group_view_of g" by simp
qed

text \<open>What a context is pinned to: a group of a valid store, active for the primary of the
  moment, and the data of that group only.\<close>

definition pinned_to ::
    "(bytes \<Rightarrow> bytes) \<Rightarrow> bytes \<Rightarrow> ('f, 'c) SecondaryStore \<Rightarrow> ('f, 'c) SecondaryAuthContext \<Rightarrow> ('f, 'c) SecondaryGroup \<Rightarrow> bool" where
  "pinned_to sha b s c g \<longleftrightarrow> store_ok s \<and> g \<in> set (ss_groups s) \<and> activation_against sha s (Some b) = Active \<and>
     ax_pinned c = \<lparr> gc_secondary_generation = ss_generation s,
       gc_primary_snapshot_sha256 = ss_primary_snapshot_sha256 s, gc_group_id = sg_id g \<rparr> \<and>
     ax_pair c = sg_pair g \<and> group_view c = group_view_of g"

lemma context_of_pinned:
  assumes v: "compose sha primary b (Some s) = Inr views" and g: "g \<in> set (ss_groups s)"
    and i: "find_position (\<lambda>v. cv_scope v = SecondaryScope (sg_id g)) (vw_groups views) = Some i"
  shows "pinned_to sha b s (context_of s g views i k) g"
  using scope_position [OF assms] g compose_active [OF v]
  by (simp add: pinned_to_def context_of_def group_view_def)

lemma pin_key_from_loaded_Inr:
  assumes "pin_key_from_loaded sha user primary b key s = Inr c"
  obtains g where "pinned_to sha b s c g" "complete_key (sg_pair g) = Some key" "ss_owner s = user"
    "strict_group_for_key s key = MatchOne (ax_store_index c) g"
proof -
  obtain k g views i where *: "ss_owner s = user" "strict_group_for_key s key = MatchOne k g"
      "compose sha primary b (Some s) = Inr views" "c = context_of s g views i k"
      "find_position (\<lambda>v. cv_scope v = SecondaryScope (sg_id g)) (vw_groups views) = Some i"
    using assms
    by (auto simp: pin_key_from_loaded_def split: option.splits if_splits StrictPairMatch.splits sum.splits)
  from *(2) have "g \<in> set (ss_groups s)" "complete_key (sg_pair g) = Some key" by (auto simp: strict_group_One)
  with * context_of_pinned [OF *(3) _ *(5)] show ?thesis
    by (intro that) (auto simp: context_of_def)
qed

lemma pin_loaded_ordinary_Inr:
  assumes "pin_loaded_ordinary sha primary b s rgb ir = Inr c"
  obtains g where "pinned_to sha b s c g" "binding_matches (sg_pair g) rgb ir"
proof -
  obtain k g views i where *: "compose sha primary b (Some s) = Inr views" "group_for_pair s rgb ir = Some g"
      "c = context_of s g views i k" "find_position (\<lambda>v. cv_scope v = SecondaryScope (sg_id g)) (vw_groups views) = Some i"
    using assms by (auto simp: pin_loaded_ordinary_def Let_def split: option.splits sum.splits)
  from *(2) have "g \<in> set (ss_groups s)" "binding_matches (sg_pair g) rgb ir"
    by (auto simp: group_for_pair_def find_Some_iff)
  with * context_of_pinned [OF *(1) _ *(4)] show ?thesis by (intro that) auto
qed

lemma load_for_pin_Inr:
  "load_for_pin cd x d = (Inr s, d') \<Longrightarrow>
    load_secondary_with_source cd (sx_name x) (read_store (sx_read x) d') (sx_keys x) = Inr (Some s)"
  by (auto simp: load_for_pin_def resolve_and_load_def io_bind_def io_lift_def map_sum_Inr
      split: sum.splits option.splits prod.splits)

text \<open>C29: An attempt pinned to a complete camera pair holds a group of the store that is on the
  disk once the journal is finished: a valid store of this account, active for these bytes of
  the primary, in which this group and no other has exactly this pair; and what the matcher is
  given is that group's scans and calibrations and its binding, nothing of the primary or of
  another group.\<close>

theorem pinned_attempt_reads_one_group:
  assumes "pin_key_with_source cd x user primary b key d = (Inr c, d')"
  shows "\<exists>s g. load_secondary_with_source cd (sx_name x) (read_store (sx_read x) d') (sx_keys x) = Inr (Some s) \<and>
    store_ok s \<and> ss_owner s = user \<and> ss_primary_snapshot_sha256 s = sha256_hex (sc_sha256 cd) b \<and>
    g \<in> set (ss_groups s) \<and> {h \<in> set (ss_groups s). complete_key (sg_pair h) = Some key} = {g} \<and>
    sg_pair g = binding_of key \<and>
    matching_enrollment (group_view c) user = (Enrollment_new user)\<lparr>
      en_profiles := map (\<lambda>p. \<lparr> fp_name = ps_profile p, fp_scans = ps_scans p, fp_ir_calib = None,
        fp_ir_calibs = ps_ir_calibs p \<rparr>) (sg_profiles g),
      en_camera_binding := Some (binding_of key) \<rparr>"
proof -
  obtain s where l: "load_for_pin cd x d = (Inr s, d')"
    and p: "pin_key_from_loaded (sc_sha256 cd) user primary b key s = Inr c"
    using assms by (auto simp: pin_key_with_source_def io_bind_Inr)
  obtain g where g: "pinned_to (sc_sha256 cd) b s c g" "complete_key (sg_pair g) = Some key" "ss_owner s = user"
    "strict_group_for_key s key = MatchOne (ax_store_index c) g" using p by (rule pin_key_from_loaded_Inr)
  have pair: "sg_pair g = binding_of key" using g(2) by (simp add: complete_key_Some)
  have "{h \<in> set (ss_groups s). complete_key (sg_pair h) = Some key} = {g}"
    using g(4) unfolding strict_group_One by (auto simp: in_set_conv_nth)
  moreover have "ss_primary_snapshot_sha256 s = sha256_hex (sc_sha256 cd) b"
    using g(1) by (auto simp: pinned_to_def activation_against_def split: if_splits)
  moreover have "matching_enrollment (group_view c) user = (Enrollment_new user)\<lparr>
      en_profiles := map (\<lambda>p. \<lparr> fp_name = ps_profile p, fp_scans = ps_scans p, fp_ir_calib = None,
        fp_ir_calibs = ps_ir_calibs p \<rparr>) (sg_profiles g),
      en_camera_binding := Some (binding_of key) \<rparr>"
    using g(1) pair by (simp add: pinned_to_def matching_enrollment_def group_view_of_def comp_def)
  ultimately show ?thesis using load_for_pin_Inr [OF l] g(1,3) pair by (auto simp: pinned_to_def)
qed

text \<open>The boundary, for a context pinned to a group.\<close>

lemma boundary_check_Grant:
  assumes "pinned_to sha b s c g"
  shows "boundary_check sha c b' s' = Grant \<longleftrightarrow>
    (\<exists>p t h. b' = Some p \<and> s' = Some t \<and> ss_generation t = ss_generation s \<and>
       sha256_hex sha p = sha256_hex sha b \<and> ss_primary_snapshot_sha256 t = ss_primary_snapshot_sha256 s \<and>
       find (\<lambda>h. sg_id h = sg_id g) (ss_groups t) = Some h \<and> sg_pair h = sg_pair g)"
proof -
  have "binding_valid (sg_pair g)" "sha256_hex sha b = ss_primary_snapshot_sha256 s"
    using assms by (auto simp: pinned_to_def store_ok_def group_ok_def activation_against_def split: if_splits)
  then show ?thesis
    using assms unfolding boundary_check_def grant_boundary_check_bound_def grant_boundary_check_impl_def
    by (auto simp: pinned_to_def activation_against_def split: option.splits if_splits)
qed

section \<open>Scoped and pooled state\<close>

lemma collect_profile_eq:
  "collect_profile fo ratios ss = ratios @ map sn_ir_center_edge_ratio (filter (usable_ratio fo) ss)"
  by (induction fo ratios ss rule: collect_profile.induct) auto

lemma collected_ratios:
  "fold (\<lambda>p r. collect_profile fo r (fp_scans p)) ps ratios =
     ratios @ map sn_ir_center_edge_ratio (filter (usable_ratio fo) (concat (map fp_scans ps)))"
  by (induction ps arbitrary: ratios) (auto simp: collect_profile_eq)

text \<open>The state derived for a group from its view is the state the engine derives from the
  enrollment the group is presented as, and what it derives from a whole primary enrollment of
  one profile is what the view of that profile says: scoping narrows the scans and changes no
  arithmetic.\<close>

theorem scoped_state_is_pooled_state:
  assumes "cv_profiles g = [v]"
  shows "Enrollment_pitch_neutral fo (matching_enrollment g user) = view_pitch_neutral fo v \<and>
    ir_center_edge_ratio_floor fo (matching_enrollment g user) = view_ir_ratio_floor fo v \<and>
    (g = primary_view e \<longrightarrow> Enrollment_pitch_neutral fo e = view_pitch_neutral fo v \<and>
      ir_center_edge_ratio_floor fo e = view_ir_ratio_floor fo v)"
  using assms
  by (auto simp: matching_enrollment_def Enrollment_pitch_neutral_def view_pitch_neutral_def
      ir_center_edge_ratio_floor_def view_ir_ratio_floor_def collected_ratios collect_profile_eq primary_view_def)

section \<open>Examples\<close>

definition nat_floats :: "nat float_ops" where
  "nat_floats = \<lparr> fo_positive = (\<lambda>x. 0 < x), fo_total_le = (\<le>), fo_min = min, fo_infinity = 1000,
     fo_three_quarters = (\<lambda>x. x * 3 div 4) \<rparr>"

definition example_scan :: "nat \<Rightarrow> nat FaceScan" where
  "example_scan p = \<lparr> sn_name = ''s'', sn_rgb = [1], sn_ir = Some [1], sn_ir_space = None,
     sn_embed_space = None, sn_ir_center_edge_ratio = p + 4, sn_ir_brightness = 0, sn_pitch = p, sn_captured_at = None \<rparr>"

definition example_primary :: "(nat, nat) Enrollment" where
  "example_primary = (Enrollment_new ''alice'')\<lparr> en_profiles := [\<lparr> fp_name = ''alice'',
     fp_scans = [example_scan 4, example_scan 0, example_scan 8, example_scan 6], fp_ir_calib = None, fp_ir_calibs = [] \<rparr>] \<rparr>"

theorem scoped_state_is_pooled_state_witness:
  "Enrollment_pitch_neutral nat_floats example_primary = Some 6 \<and>
   ir_center_edge_ratio_floor nat_floats example_primary = Some 3"
proof -
  let ?v = "\<lparr> sv_profile = ''alice'', sv_scans = [example_scan 4, example_scan 0, example_scan 8, example_scan 6], sv_ir_calibs = [] \<rparr>"
  have "view_pitch_neutral nat_floats ?v = Some 6" "view_ir_ratio_floor nat_floats ?v = Some 3"
    by (simp_all add: view_pitch_neutral_def pitch_neutral_of_def nat_floats_def example_scan_def sort_by_def
        view_ir_ratio_floor_def ratio_floor_of_def usable_ratio_def)
  moreover have "cv_profiles (primary_view example_primary) = [?v]" by (simp add: primary_view_def example_primary_def)
  ultimately show ?thesis
    using scoped_state_is_pooled_state [of "primary_view example_primary" ?v nat_floats "''alice''" example_primary] by simp
qed

definition example_access :: store_access where
  "example_access = \<lparr> sx_name = ''alice.json'', sx_pid = 7, sx_resolve = resolve_works, sx_read = True, sx_keys = (\<lambda>_. Inr None) \<rparr>"

definition example_disk :: cdisk where
  "example_disk = power_loss ((\<lambda>_. None)(StoreFile := Some [65]))"

definition example_key :: CompletePairKey where
  "example_key = OrdinaryKey ''046d:0825'' ''3443:c803''"

lemma example_loads: "load_for_pin example_codec example_access example_disk = (Inr example_secondary, example_disk)"
  using example_secondary_ok [folded store_validate_None]
  by (simp add: load_for_pin_def resolve_and_load_def io_bind_def io_lift_def resolve_commit_def example_disk_def power_loss_def
      example_access_def read_store_def load_secondary_with_source_def read_bounded_def MAX_STORE_BYTES_def example_codec_def
      parse_store_bytes_def store_payload_def SECONDARY_ENC_ENVELOPE_VERSION_def SECONDARY_STORE_VERSION_def)

definition example_desk :: "(nat, nat) SecondaryGroup" where
  "example_desk = example_group ''cam-046d-0825'' (OrdinaryBinding (Some ''046d:0825'') (Some ''3443:c803''))"

lemma example_groups: "ss_groups example_secondary = [example_desk]"
  by (simp add: example_secondary_def example_store_def example_desk_def)

lemma example_desk_fields [simp]: "sg_id example_desk = ''cam-046d-0825''" "complete_key (sg_pair example_desk) = Some example_key"
  by (simp_all add: example_desk_def example_group_def example_key_def complete_key_def binding_valid_def)

lemma example_active: "activation_against (sc_sha256 example_codec) example_secondary (Some b) = Active"
  by (simp add: activation_against_def example_sha)

definition example_views :: "(nat, nat) CameraScopedViews" where
  "example_views = \<lparr> vw_groups = [primary_view example_primary, group_view_of example_desk], vw_secondary_active = True \<rparr>"

lemma example_composes: "compose (sc_sha256 example_codec) example_primary b (Some example_secondary) = Inr example_views"
  using example_secondary_ok [folded store_validate_None]
  by (simp add: compose_def example_active example_groups example_views_def)

definition example_context :: "(nat, nat) SecondaryAuthContext" where
  "example_context = context_of example_secondary example_desk example_views 1 0"

lemma example_pins_loaded:
  "pin_key_from_loaded (sc_sha256 example_codec) ''alice'' example_primary b example_key example_secondary = Inr example_context"
proof -
  have "strict_group_for_key example_secondary example_key = MatchOne 0 example_desk"
    by (simp add: strict_group_One example_groups) (simp add: key_valid_def example_key_def binding_valid_def)
  then show ?thesis
    using example_secondary_ok [folded store_validate_None]
    by (simp add: pin_key_from_loaded_def example_active example_composes)
      (simp add: example_views_def primary_view_def group_view_of_def example_context_def)
qed

lemma example_pins:
  "pin_key_with_source example_codec example_access ''alice'' example_primary b example_key example_disk =
     (Inr example_context, example_disk)"
  by (simp add: pin_key_with_source_def io_bind_def io_lift_def example_loads example_pins_loaded)

theorem pinned_attempt_reads_one_group_witness:
  "\<exists>s g. load_secondary_with_source example_codec ''alice.json'' (ReadOk [65]) (\<lambda>_. Inr None) = Inr (Some s) \<and>
    ss_owner s = ''alice'' \<and> g \<in> set (ss_groups s) \<and> sg_pair g = binding_of example_key"
  using pinned_attempt_reads_one_group [OF example_pins [of "[]"]]
  by (auto simp: example_access_def read_store_def example_disk_def power_loss_def)

end
