(* ===== verification/Secondary_Changes.thy ===== *)
theory Secondary_Changes
  imports Secondary_Views
begin

text \<open>
  Changing the set of an account's cameras: the authorization of one exact change
  (\<^verbatim>\<open>irlume-core/src/multi_camera/authz.rs\<close>), the transactions that add a group after its
  capture and remove one (\<^verbatim>\<open>publish_camera_group_preparing_with\<close>, \<^verbatim>\<open>PreparedCameraGroupCommit\<close> and
  \<^verbatim>\<open>remove_camera_group\<close> of \<^verbatim>\<open>irlume-auth/src/lib.rs\<close>), and what such changes do to an attempt
  that is under way.
\<close>

section \<open>Authorization\<close>

datatype AuthorizationVia = ViaPassword | ViaElevatedPeer u32

record GroupPairRef =
  gr_rgb :: "string option"
  gr_ir :: "string option"

definition to_pair :: "GroupPairRef \<Rightarrow> PairBinding" where
  "to_pair r = OrdinaryBinding (gr_rgb r) (gr_ir r)"

datatype EnrollmentOperation =
    AddGroup string GroupPairRef
  | AddSplitGroup string SplitPairKey
  | RemoveGroup string

definition add_group :: "string \<Rightarrow> PairBinding \<Rightarrow> EnrollmentOperation" where
  "add_group gid pair = (case pair of
      OrdinaryBinding rgb ir \<Rightarrow> AddGroup gid \<lparr> gr_rgb = rgb, gr_ir = ir \<rparr>
    | SplitBinding p \<Rightarrow> AddSplitGroup gid p)"

definition MAX_AUTHORIZATION_WINDOW_SECS :: u64 where "MAX_AUTHORIZATION_WINDOW_SECS = 24 * 60 * 60"

record EnrollmentAuthorization =
  az_account :: string
  az_operation :: EnrollmentOperation
  az_granted_at_unix :: u64
  az_valid_for_secs :: u64
  az_authorization_id :: string
  az_via :: AuthorizationVia

datatype malformed = AccountBounds | IdBounds | WindowBounds | GroupBounds | EmptyPair | InvalidSplitKey | AlreadyConsumed
datatype AuthorizationError = WrongAccount | WrongOperation | Expired | Malformed malformed

definition az_bounded :: "string \<Rightarrow> bool" where
  "az_bounded t \<longleftrightarrow> t \<noteq> [] \<and> length t \<le> 256"

definition operation_rule :: "EnrollmentOperation \<Rightarrow> malformed option" where
  "operation_rule op = (case op of
      AddGroup gid pair \<Rightarrow>
        if \<not> az_bounded gid then Some GroupBounds
        else if gr_rgb pair = None \<and> gr_ir pair = None then Some EmptyPair else None
    | AddSplitGroup gid pair \<Rightarrow>
        if \<not> az_bounded gid then Some GroupBounds
        else if \<not> binding_valid (SplitBinding pair) then Some InvalidSplitKey else None
    | RemoveGroup gid \<Rightarrow> if \<not> az_bounded gid then Some GroupBounds else None)"

definition mint ::
    "string \<Rightarrow> EnrollmentOperation \<Rightarrow> u64 \<Rightarrow> u64 \<Rightarrow> string \<Rightarrow> AuthorizationVia \<Rightarrow>
       AuthorizationError + EnrollmentAuthorization" where
  "mint account op granted_at valid_for auth_id via =
     (if \<not> az_bounded account then Inl (Malformed AccountBounds)
      else if \<not> az_bounded auth_id then Inl (Malformed IdBounds)
      else if valid_for = 0 \<or> valid_for > MAX_AUTHORIZATION_WINDOW_SECS then Inl (Malformed WindowBounds)
      else (case operation_rule op of
          Some m \<Rightarrow> Inl (Malformed m)
        | None \<Rightarrow> Inr \<lparr> az_account = account, az_operation = op, az_granted_at_unix = granted_at,
            az_valid_for_secs = valid_for, az_authorization_id = auth_id, az_via = via \<rparr>))"

definition saturating_sub_u64 :: "u64 \<Rightarrow> u64 \<Rightarrow> u64" where
  "saturating_sub_u64 a b = (if b \<le> a then a - b else 0)"

definition validate_for ::
    "EnrollmentAuthorization \<Rightarrow> string \<Rightarrow> EnrollmentOperation \<Rightarrow> u64 \<Rightarrow> AuthorizationError option" where
  "validate_for a account op now_unix =
     (if az_account a \<noteq> account then Some WrongAccount
      else if az_operation a \<noteq> op then Some WrongOperation
      else if saturating_sub_u64 now_unix (az_granted_at_unix a) > az_valid_for_secs a then Some Expired
      else None)"

definition ensure_not_consumed ::
    "EnrollmentAuthorization \<Rightarrow> u64 \<Rightarrow> string option \<Rightarrow> AuthorizationError option" where
  "ensure_not_consumed a current_generation last_consumed_id =
     (if last_consumed_id = Some (az_authorization_id a) then Some (Malformed AlreadyConsumed) else None)"

section \<open>Adding a group\<close>

datatype protocol_reason =
    PrimaryChanged | StoreChanged | PairAlreadyEnrolled string | IdNoLongerApplies | OthersInactive
  | EnrollmentVanished | StoreUnusable SecondaryStoreError | PrimaryUnusable | CommitFailed CommitError
  | NothingEnrolled | NoSuchGroup

datatype policy_reason = NotAuthorized AuthorizationError | OtherAccountStore | KeyChanged | AccountChanged

datatype engine_error =
    AuthPolicy policy_reason | AuthProtocol protocol_reason | EngineIo | Preempted | CameraRefused | DerivedIdPanics

definition fresh_store :: "string \<Rightarrow> ('f, 'c) SecondaryStore" where
  "fresh_store user = \<lparr> ss_format_version = SECONDARY_STORE_VERSION, ss_owner = user, ss_generation = 0,
     ss_primary_snapshot_sha256 = [], ss_groups = [] \<rparr>"

record ('f, 'c) CameraGroupPublication =
  cg_user :: string
  cg_pair :: PairBinding
  cg_group_id :: string
  cg_profile :: "('f, 'c) SecondaryProfileScans"
  cg_start_enr :: "('f, 'c) Enrollment"
  cg_start_primary_sha256 :: string
  cg_authorization :: EnrollmentAuthorization
  cg_now_unix :: u64

text \<open>What the world answers to the reads of the transaction before its publication: the
  store's file for its digest, the account of the name, the loaded store, the primary file, the
  loaded primary, the store's file again, and the preparation, which may find, create or fail to
  get the account's key. \<open>pe_print\<close> is the JSON form of an enrollment.\<close>

record ('f, 'c, 'a) publication_env =
  pe_secondary :: read_result
  pe_account :: 'a
  pe_store :: "SecondaryStoreError + ('f, 'c) SecondaryStore option"
  pe_primary :: "bytes option"
  pe_enrollment :: "unit + ('f, 'c) Enrollment option"
  pe_print :: "('f, 'c) Enrollment \<Rightarrow> bytes option"
  pe_secondary_again :: read_result
  pe_prepare :: "('f, 'c) SecondaryStore \<Rightarrow> string \<Rightarrow> CommitError + PreparedSecondaryCommit"

text \<open>And under the account's lock: whether the name is a plain file name, whether the lock was
  got, whether the sealed key is the one of the preparation, whether the cameras and the caller
  still admit the publication, the primary file, whether the store can be read, the account of
  the name and the time.\<close>

record 'a boundary_env =
  be_plain_name :: bool
  be_locked :: bool
  be_key_unchanged :: bool
  be_admission :: "engine_error option"
  be_primary :: "bytes option"
  be_read :: bool
  be_account :: 'a
  be_now :: u64
  be_pid :: nat
  be_publish :: publish_answers

definition optional_file_digest :: "(bytes \<Rightarrow> bytes) \<Rightarrow> read_result \<Rightarrow> engine_error + string option" where
  "optional_file_digest sha r = (case r of
      ReadOk b \<Rightarrow> Inr (Some (sha256_hex sha b))
    | ReadMissing \<Rightarrow> Inr None
    | ReadFailed \<Rightarrow> Inl EngineIo)"

definition inactive_store_write_refusal ::
    "(bytes \<Rightarrow> bytes) \<Rightarrow> ('f, 'c) SecondaryStore \<Rightarrow> bytes \<Rightarrow> engine_error option" where
  "inactive_store_write_refusal sha s primary_bytes =
     (if ss_groups s \<noteq> [] \<and> activation_against sha s (Some primary_bytes) \<noteq> Active
      then Some (AuthProtocol OthersInactive) else None)"

definition enrollment_changed :: "(('f, 'c) Enrollment \<Rightarrow> bytes option) \<Rightarrow> ('f, 'c) Enrollment \<Rightarrow> ('f, 'c) Enrollment \<Rightarrow> bool" where
  "enrollment_changed print start current = (case (print start, print current) of
      (Some a, Some b) \<Rightarrow> a \<noteq> b
    | _ \<Rightarrow> True)"

definition store_with_group ::
    "(bytes \<Rightarrow> bytes) \<Rightarrow> ('f, 'c) SecondaryStore \<Rightarrow> bytes \<Rightarrow> string \<Rightarrow> PairBinding \<Rightarrow> ('f, 'c) SecondaryProfileScans \<Rightarrow>
       ('f, 'c) SecondaryStore" where
  "store_with_group sha s primary_bytes i pair profile =
     s\<lparr> ss_generation := ss_generation s + 1, ss_primary_snapshot_sha256 := sha256_hex sha primary_bytes,
        ss_groups := ss_groups s @ [\<lparr> sg_id = i, sg_pair = pair, sg_profiles = [profile] \<rparr>] \<rparr>"

text \<open>The checks before the publication: the store to publish, and the digest of the store it
  replaces.\<close>

definition next_store ::
    "(bytes \<Rightarrow> bytes) \<Rightarrow> ('f, 'c) CameraGroupPublication \<Rightarrow> ('f, 'c, 'a) publication_env \<Rightarrow>
       engine_error + ('f, 'c) SecondaryStore \<times> string option" where
  "next_store sha inp e = (case validate_for (cg_authorization inp) (cg_user inp) (add_group (cg_group_id inp) (cg_pair inp)) (cg_now_unix inp) of
      Some r \<Rightarrow> Inl (AuthPolicy (NotAuthorized r))
    | None \<Rightarrow> (case optional_file_digest sha (pe_secondary e) of
        Inl r \<Rightarrow> Inl r
      | Inr digest \<Rightarrow> (case pe_store e of
          Inl r \<Rightarrow> Inl (AuthProtocol (StoreUnusable r))
        | Inr loaded \<Rightarrow>
            let s = (case loaded of Some s \<Rightarrow> s | None \<Rightarrow> fresh_store (cg_user inp))
            in (case group_for_binding s (cg_pair inp) of
                Some g \<Rightarrow> Inl (AuthProtocol (PairAlreadyEnrolled (sg_id g)))
              | None \<Rightarrow> (case derive_group_id s (rgb_identity (cg_pair inp)) (ir_identity (cg_pair inp)) of
                  Inl _ \<Rightarrow> Inl DerivedIdPanics
                | Inr derived \<Rightarrow>
                    if derived \<noteq> cg_group_id inp then Inl (AuthProtocol IdNoLongerApplies)
                    else (case pe_primary e of
                        None \<Rightarrow> Inl EngineIo
                      | Some primary_bytes \<Rightarrow>
                          if sha256_hex sha primary_bytes \<noteq> cg_start_primary_sha256 inp then Inl (AuthProtocol PrimaryChanged)
                          else (case inactive_store_write_refusal sha s primary_bytes of
                              Some r \<Rightarrow> Inl r
                            | None \<Rightarrow> (case pe_enrollment e of
                                Inl _ \<Rightarrow> Inl (AuthProtocol PrimaryUnusable)
                              | Inr None \<Rightarrow> Inl (AuthProtocol EnrollmentVanished)
                              | Inr (Some current) \<Rightarrow>
                                  if enrollment_changed (pe_print e) (cg_start_enr inp) current then Inl (AuthProtocol PrimaryChanged)
                                  else
                                    let next = store_with_group sha s primary_bytes derived (cg_pair inp) (cg_profile inp)
                                    in (case ensure_not_consumed (cg_authorization inp) (ss_generation next) None of
                                        Some r \<Rightarrow> Inl (AuthPolicy (NotAuthorized r))
                                      | None \<Rightarrow> (case optional_file_digest sha (pe_secondary_again e) of
                                          Inl r \<Rightarrow> Inl r
                                        | Inr again \<Rightarrow>
                                            if again \<noteq> digest then Inl (AuthProtocol StoreChanged)
                                            else Inr (next, digest)))))))))))"

text \<open>The account's publication boundary: the lock and the key, the cameras and the caller, and the
  last checks. The disk is the one at that moment.\<close>

definition with_account_publication ::
    "string \<Rightarrow> 'a boundary_env \<Rightarrow> PreparedSecondaryCommit \<Rightarrow> (cdisk, engine_error, 'r) op \<Rightarrow> (cdisk, engine_error, 'r) op" where
  "with_account_publication user b p publication d =
     (if \<not> be_plain_name b \<or> pc_owner p \<noteq> user then (Inl (AuthPolicy OtherAccountStore), d)
      else if \<not> be_locked b then (Inl EngineIo, d)
      else if \<not> be_key_unchanged b then (Inl (AuthPolicy KeyChanged), d)
      else publication d)"

definition publish_active_camera_group ::
    "'a boundary_env \<Rightarrow> (cdisk, engine_error, unit) op \<Rightarrow> (cdisk, engine_error, unit) op" where
  "publish_active_camera_group b publish d = (case be_admission b of Some r \<Rightarrow> (Inl r, d) | None \<Rightarrow> publish d)"

definition PreparedCameraGroupCommit_publish ::
    "(bytes \<Rightarrow> bytes) \<Rightarrow> ('f, 'c) CameraGroupPublication \<Rightarrow> 'a \<Rightarrow> 'a boundary_env \<Rightarrow> string option \<Rightarrow> PreparedSecondaryCommit \<Rightarrow>
       (cdisk, engine_error, unit) op" where
  "PreparedCameraGroupCommit_publish sha inp account b digest p d = (case be_primary b of
      None \<Rightarrow> (Inl EngineIo, d)
    | Some current \<Rightarrow>
        if sha256_hex sha current \<noteq> cg_start_primary_sha256 inp then (Inl (AuthProtocol PrimaryChanged), d)
        else (case optional_file_digest sha (read_store (be_read b) d) of
            Inl r \<Rightarrow> (Inl r, d)
          | Inr now_digest \<Rightarrow>
              if now_digest \<noteq> digest then (Inl (AuthProtocol StoreChanged), d)
              else if be_account b \<noteq> account then (Inl (AuthPolicy AccountChanged), d)
              else (case validate_for (cg_authorization inp) (cg_user inp)
                      (add_group (cg_group_id inp) (cg_pair inp)) (be_now b) of
                  Some r \<Rightarrow> (Inl (AuthPolicy (NotAuthorized r)), d)
                | None \<Rightarrow> (case commit_publish (be_pid b) p (be_publish b) d of
                    (Inl r, d') \<Rightarrow> (Inl (AuthProtocol (CommitFailed r)), d')
                  | (Inr _, d') \<Rightarrow> (Inr (), d')))))"

definition publish_camera_group ::
    "(bytes \<Rightarrow> bytes) \<Rightarrow> ('f, 'c) CameraGroupPublication \<Rightarrow> ('f, 'c, 'a) publication_env \<Rightarrow> 'a boundary_env \<Rightarrow>
       (cdisk, engine_error, string) op" where
  "publish_camera_group sha inp e b = io_bind (io_lift (next_store sha inp e)) (\<lambda>(next, digest).
     io_bind (io_lift (map_sum (\<lambda>r. AuthProtocol (CommitFailed r)) id (pe_prepare e next (ss_primary_snapshot_sha256 next)))) (\<lambda>p.
     io_bind (with_account_publication (cg_user inp) b p (publish_active_camera_group b
       (PreparedCameraGroupCommit_publish sha inp (pe_account e) b digest p))) (\<lambda>_. io_return (cg_group_id inp))))"

section \<open>Removing a group\<close>

definition store_without_group :: "('f, 'c) SecondaryStore \<Rightarrow> string \<Rightarrow> ('f, 'c) SecondaryStore" where
  "store_without_group s gid = s\<lparr> ss_generation := ss_generation s + 1, ss_groups := filter (\<lambda>g. sg_id g \<noteq> gid) (ss_groups s) \<rparr>"

definition remove_camera_group ::
    "string \<Rightarrow> string \<Rightarrow> EnrollmentAuthorization \<Rightarrow> u64 \<Rightarrow> SecondaryStoreError + ('f, 'c) SecondaryStore option \<Rightarrow>
       (('f, 'c) SecondaryStore \<Rightarrow> string \<Rightarrow> CommitError + PreparedSecondaryCommit) \<Rightarrow> nat \<Rightarrow> publish_answers \<Rightarrow>
       (cdisk, engine_error, unit) op" where
  "remove_camera_group user gid authorization now_unix loaded prepare pid e d =
     (case validate_for authorization user (RemoveGroup gid) now_unix of
        Some r \<Rightarrow> (Inl (AuthPolicy (NotAuthorized r)), d)
      | None \<Rightarrow> (case loaded of
          Inl r \<Rightarrow> (Inl (AuthProtocol (StoreUnusable r)), d)
        | Inr None \<Rightarrow> (Inl (AuthProtocol NothingEnrolled), d)
        | Inr (Some s) \<Rightarrow>
            if gid \<notin> sg_id ` set (ss_groups s) then (Inl (AuthProtocol NoSuchGroup), d)
            else (case ensure_not_consumed authorization (ss_generation s) None of
                Some r \<Rightarrow> (Inl (AuthPolicy (NotAuthorized r)), d)
              | None \<Rightarrow>
                  let next = store_without_group s gid
                  in (case prepare next (ss_primary_snapshot_sha256 next) of
                      Inl r \<Rightarrow> (Inl (AuthProtocol (CommitFailed r)), d)
                    | Inr p \<Rightarrow> (case commit_publish pid p e d of
                        (Inl r, d') \<Rightarrow> (Inl (AuthProtocol (CommitFailed r)), d')
                      | (Inr _, d') \<Rightarrow> (Inr (), d'))))))"

section \<open>Authorizations are exact\<close>

lemma add_group_inject [simp]: "add_group g p = add_group g' p' \<longleftrightarrow> g = g' \<and> p = p'"
  by (auto simp: add_group_def split: PairBinding.splits)

lemma add_is_not_remove [simp]: "add_group g p \<noteq> RemoveGroup g'" "RemoveGroup g' \<noteq> add_group g p"
  by (auto simp: add_group_def split: PairBinding.splits)

lemma validate_for_None:
  "validate_for a account op now = None \<longleftrightarrow> az_account a = account \<and> az_operation a = op \<and>
     unat now \<le> unat (az_granted_at_unix a) + unat (az_valid_for_secs a)"
proof -
  have "v < saturating_sub_u64 now g \<longleftrightarrow> unat g + unat v < unat now" for g v :: u64
    by (auto simp: saturating_sub_u64_def word_le_nat_alt word_less_nat_alt unat_sub)
  then show ?thesis by (auto simp: validate_for_def)
qed

lemma minted_authorization:
  assumes "mint account op granted valid i via = Inr a"
  shows "az_account a = account" "az_operation a = op" "az_granted_at_unix a = granted" "az_valid_for_secs a = valid"
    "unat valid \<le> 86400" "operation_rule op = None"
  using assms
  by (auto simp: mint_def MAX_AUTHORIZATION_WINDOW_SECS_def word_less_nat_alt not_less split: if_splits option.splits)

text \<open>An authorization is good for one account, one exact change and a bounded time: what
  passes with it is the account and the very operation (for an addition the group and the whole
  pair) it was minted for, no later than a day after it was minted.\<close>

theorem authorization_is_exact:
  assumes "mint account op granted valid i via = Inr a" "validate_for a account' op' now = None"
  shows "account' = account \<and> op' = op \<and> unat now \<le> unat granted + 86400 \<and>
    (\<forall>g p. op = add_group g p \<longrightarrow> (\<forall>g' p'. op' = add_group g' p' \<longrightarrow> g' = g \<and> p' = p) \<and> (\<forall>g'. op' \<noteq> RemoveGroup g'))"
  using minted_authorization [OF assms(1)] assms(2) by (auto simp: validate_for_None)

section \<open>What an addition publishes\<close>

definition base_store :: "('f, 'c) CameraGroupPublication \<Rightarrow> ('f, 'c, 'a) publication_env \<Rightarrow> ('f, 'c) SecondaryStore \<Rightarrow> bool" where
  "base_store inp e s \<longleftrightarrow> pe_store e = Inr (Some s) \<or> pe_store e = Inr None \<and> s = fresh_store (cg_user inp)"

lemma next_store_Inr:
  assumes "next_store sha inp e = Inr (next, digest)"
  obtains s where "base_store inp e s" "group_for_binding s (cg_pair inp) = None"
    "ss_groups s \<noteq> [] \<longrightarrow> ss_primary_snapshot_sha256 s = cg_start_primary_sha256 inp"
    "optional_file_digest sha (pe_secondary e) = Inr digest" "optional_file_digest sha (pe_secondary_again e) = Inr digest"
    "validate_for (cg_authorization inp) (cg_user inp) (add_group (cg_group_id inp) (cg_pair inp)) (cg_now_unix inp) = None"
    "next = s\<lparr> ss_generation := ss_generation s + 1, ss_primary_snapshot_sha256 := cg_start_primary_sha256 inp,
        ss_groups := ss_groups s @ [\<lparr> sg_id = cg_group_id inp, sg_pair = cg_pair inp, sg_profiles = [cg_profile inp] \<rparr>] \<rparr>"
proof -
  define s where "s = (case pe_store e of Inr (Some s) \<Rightarrow> s | _ \<Rightarrow> fresh_store (cg_user inp))"
  obtain loaded where l: "pe_store e = Inr loaded"
    using assms by (auto simp: next_store_def split: option.splits sum.splits)
  have s: "(case loaded of Some s \<Rightarrow> s | None \<Rightarrow> fresh_store (cg_user inp)) = s"
    by (simp add: s_def l split: option.split)
  from assms obtain pb where *: "group_for_binding s (cg_pair inp) = None"
      "sha256_hex sha pb = cg_start_primary_sha256 inp" "inactive_store_write_refusal sha s pb = None"
      "optional_file_digest sha (pe_secondary e) = Inr digest" "optional_file_digest sha (pe_secondary_again e) = Inr digest"
      "validate_for (cg_authorization inp) (cg_user inp) (add_group (cg_group_id inp) (cg_pair inp)) (cg_now_unix inp) = None"
      "next = store_with_group sha s pb (cg_group_id inp) (cg_pair inp) (cg_profile inp)"
    by (auto simp: next_store_def l s Let_def split: option.splits sum.splits if_splits)
  have "base_store inp e s" using l by (auto simp: base_store_def s_def split: option.split)
  moreover have "ss_groups s \<noteq> [] \<longrightarrow> ss_primary_snapshot_sha256 s = cg_start_primary_sha256 inp"
    using *(2,3) by (auto simp: inactive_store_write_refusal_def activation_against_def split: if_splits)
  ultimately show ?thesis using * by (intro that) (auto simp: store_with_group_def)
qed

lemma publish_at_boundary_Inr:
  assumes "with_account_publication (cg_user inp) b p (publish_active_camera_group b
       (PreparedCameraGroupCommit_publish sha inp (pe_account e) b digest p)) d = (Inr (), d')"
  shows "map_option (sha256_hex sha) (be_primary b) = Some (cg_start_primary_sha256 inp)"
    "optional_file_digest sha (read_store True d) = Inr digest" "be_account b = pe_account e"
    "validate_for (cg_authorization inp) (cg_user inp) (add_group (cg_group_id inp) (cg_pair inp)) (be_now b) = None"
    "commit_publish (be_pid b) p (be_publish b) d = (Inr (), d')"
  using assms
  by (auto simp: with_account_publication_def publish_active_camera_group_def PreparedCameraGroupCommit_publish_def
      read_store_def optional_file_digest_def
      split: if_splits option.splits sum.splits prod.splits)

text \<open>A publication that succeeds shows what was prepared.\<close>

lemma published_store:
  assumes ok: "commit_codec_ok cd" "length nonce = NONCE_LEN"
    and p: "prepare_with_intent_key cd nonce mkdir s snap key = Inr p"
    and r: "commit_publish pid p e d = (Inr (), d')"
  shows "\<exists>b. cd_now d' StoreFile = Some b \<and> parse_store_bytes cd b key = Inr s" "store_ok s"
proof -
  note j = prepared_journal [OF ok p]
  show "store_ok s" by (rule j(3))
  have "confined UNIV (journals cd UNIV) d" by (simp add: confined_def journals_def)
  from tripleD [OF commit_publish_triple [OF j(1)] this r]
  have "cd_now d' StoreFile = Some (pc_bytes p)" by simp
  moreover have "parse_store_bytes cd (pc_bytes p) key = Inr s"
    using ok j by (intro written_store_reads_back) (auto simp: commit_codec_ok_def)
  ultimately show "\<exists>b. cd_now d' StoreFile = Some b \<and> parse_store_bytes cd b key = Inr s" by blast
qed

text \<open>C17: An addition that succeeds was authorized for exactly this account, group and pair, at
  its start and again when it published; the primary then was the one the capture started with,
  the store's file the one that was read; and the store that is read back is the one that was
  loaded plus this one group, which had neither the pair nor the identifier of another, with the
  next generation and bound to that primary. Groups that were there keep their data and were
  active already: an addition reactivates nothing.\<close>

theorem addition_adds_exactly_one_group:
  assumes "commit_codec_ok cd" "length nonce = NONCE_LEN"
    and "pe_prepare e = (\<lambda>s snap. prepare_with_intent_key cd nonce mkdir s snap key)"
    and "publish_camera_group (sc_sha256 cd) inp e b d = (Inr gid, d')"
  shows "\<exists>s bytes. base_store inp e s \<and> cg_group_id inp = gid \<and>
    (\<forall>now\<in>{cg_now_unix inp, be_now b}.
       validate_for (cg_authorization inp) (cg_user inp) (add_group gid (cg_pair inp)) now = None) \<and>
    map_option (sha256_hex (sc_sha256 cd)) (be_primary b) = Some (cg_start_primary_sha256 inp) \<and>
    optional_file_digest (sc_sha256 cd) (read_store True d) = optional_file_digest (sc_sha256 cd) (pe_secondary e) \<and>
    group_for_binding s (cg_pair inp) = None \<and> gid \<notin> sg_id ` set (ss_groups s) \<and>
    (ss_groups s = [] \<or> ss_primary_snapshot_sha256 s = cg_start_primary_sha256 inp) \<and>
    cd_now d' StoreFile = Some bytes \<and>
    parse_store_bytes cd bytes key = Inr (s\<lparr> ss_generation := ss_generation s + 1,
      ss_primary_snapshot_sha256 := cg_start_primary_sha256 inp,
      ss_groups := ss_groups s @ [\<lparr> sg_id = gid, sg_pair = cg_pair inp, sg_profiles = [cg_profile inp] \<rparr>] \<rparr>)"
proof -
  obtain nx digest p where n: "next_store (sc_sha256 cd) inp e = Inr (nx, digest)" and g: "gid = cg_group_id inp"
    and p: "prepare_with_intent_key cd nonce mkdir nx (ss_primary_snapshot_sha256 nx) key = Inr p"
    and r: "with_account_publication (cg_user inp) b p (publish_active_camera_group b
       (PreparedCameraGroupCommit_publish (sc_sha256 cd) inp (pe_account e) b digest p)) d = (Inr (), d')"
    using assms(4) by (auto simp: publish_camera_group_def io_bind_Inr map_sum_Inr assms(3))
  note bd = publish_at_boundary_Inr [OF r]
  obtain s where s: "base_store inp e s" "group_for_binding s (cg_pair inp) = None"
    "ss_groups s \<noteq> [] \<longrightarrow> ss_primary_snapshot_sha256 s = cg_start_primary_sha256 inp"
    "optional_file_digest (sc_sha256 cd) (pe_secondary e) = Inr digest"
    "validate_for (cg_authorization inp) (cg_user inp) (add_group (cg_group_id inp) (cg_pair inp)) (cg_now_unix inp) = None"
    and nx: "nx = s\<lparr> ss_generation := ss_generation s + 1, ss_primary_snapshot_sha256 := cg_start_primary_sha256 inp,
        ss_groups := ss_groups s @ [\<lparr> sg_id = cg_group_id inp, sg_pair = cg_pair inp, sg_profiles = [cg_profile inp] \<rparr>] \<rparr>"
    using n by (rule next_store_Inr)
  note st = published_store [OF assms(1,2) p bd(5)]
  have "gid \<notin> sg_id ` set (ss_groups s)" using st(2) by (auto simp: store_ok_def nx g)
  with s bd st(1) g show ?thesis unfolding nx by (intro exI [of _ s]) auto
qed

lemma removal_removes_exactly_one_group:
  assumes "commit_codec_ok cd" "length nonce = NONCE_LEN"
    and "prepare = (\<lambda>s snap. prepare_with_intent_key cd nonce mkdir s snap key)"
    and "remove_camera_group user gid a now loaded prepare pid e d = (Inr (), d')"
  shows "\<exists>s bytes. loaded = Inr (Some s) \<and> gid \<in> sg_id ` set (ss_groups s) \<and>
    validate_for a user (RemoveGroup gid) now = None \<and> cd_now d' StoreFile = Some bytes \<and>
    parse_store_bytes cd bytes key = Inr (store_without_group s gid)"
proof -
  obtain s p where *: "loaded = Inr (Some s)" "gid \<in> sg_id ` set (ss_groups s)" "validate_for a user (RemoveGroup gid) now = None"
      "prepare_with_intent_key cd nonce mkdir (store_without_group s gid) (ss_primary_snapshot_sha256 (store_without_group s gid)) key = Inr p"
      "commit_publish pid p e d = (Inr (), d')"
    using assms(4) by (auto simp: remove_camera_group_def assms(3) Let_def split: option.splits sum.splits if_splits prod.splits)
  with published_store(1) [OF assms(1,2) *(4,5)] show ?thesis by blast
qed

section \<open>A change refuses the attempts under way\<close>

text \<open>The two files a boundary reads, the store of the added cameras and the primary enrollment, and
  what changes them while an attempt is under way: an addition, a removal, a write of the primary
  enrollment, and the deletion of the account's face data, each at the moment it becomes visible (a
  publication that only its journal finishes, when it is finished). A change that is refused leaves
  both files as they are. A deletion takes the store first and then the primary; it may fail before
  either.\<close>

record ('f, 'c) camera_set =
  cs_store :: "('f, 'c) SecondaryStore option"
  cs_primary :: "bytes option"

datatype ('f, 'c) set_event =
    AddsGroup string PairBinding "('f, 'c) SecondaryProfileScans"
  | RemovesGroup string
  | WritesPrimary bytes
  | DeletesFaces bool bool

definition add_to_set ::
    "(bytes \<Rightarrow> bytes) \<Rightarrow> string \<Rightarrow> PairBinding \<Rightarrow> ('f, 'c) SecondaryProfileScans \<Rightarrow> ('f, 'c) camera_set \<Rightarrow> ('f, 'c) camera_set" where
  "add_to_set sha user pair profile w = (case cs_primary w of
      None \<Rightarrow> w
    | Some primary_bytes \<Rightarrow>
        let s = (case cs_store w of Some s \<Rightarrow> s | None \<Rightarrow> fresh_store user)
        in if group_for_binding s pair \<noteq> None then w
           else (case derive_group_id s (rgb_identity pair) (ir_identity pair) of
               Inl _ \<Rightarrow> w
             | Inr gid \<Rightarrow>
                 if inactive_store_write_refusal sha s primary_bytes \<noteq> None then w
                 else w\<lparr> cs_store := Some (store_with_group sha s primary_bytes gid pair profile) \<rparr>))"

definition remove_from_set :: "string \<Rightarrow> ('f, 'c) camera_set \<Rightarrow> ('f, 'c) camera_set" where
  "remove_from_set gid w = (case cs_store w of
      None \<Rightarrow> w
    | Some s \<Rightarrow> if gid \<notin> sg_id ` set (ss_groups s) then w else w\<lparr> cs_store := Some (store_without_group s gid) \<rparr>)"

definition persist_enrollment :: "bytes \<Rightarrow> ('f, 'c) camera_set \<Rightarrow> ('f, 'c) camera_set" where
  "persist_enrollment b w = w\<lparr> cs_primary := Some b \<rparr>"

definition delete_with :: "bool \<Rightarrow> bool \<Rightarrow> ('f, 'c) camera_set \<Rightarrow> ('f, 'c) camera_set" where
  "delete_with camera_store_goes primary_goes w =
     (if \<not> camera_store_goes then w
      else if \<not> primary_goes then w\<lparr> cs_store := None \<rparr>
      else w\<lparr> cs_store := None, cs_primary := None \<rparr>)"

primrec set_change :: "(bytes \<Rightarrow> bytes) \<Rightarrow> ('f, 'c) set_event \<Rightarrow> ('f, 'c) camera_set \<Rightarrow> ('f, 'c) camera_set" where
  "set_change sha (AddsGroup user pair profile) w = add_to_set sha user pair profile w"
| "set_change sha (RemovesGroup gid) w = remove_from_set gid w"
| "set_change sha (WritesPrimary b) w = persist_enrollment b w"
| "set_change sha (DeletesFaces camera_store_goes primary_goes) w = delete_with camera_store_goes primary_goes w"

definition deletes_store :: "('f, 'c) set_event \<Rightarrow> bool" where
  "deletes_store ev \<longleftrightarrow> (case ev of DeletesFaces camera_store_goes _ \<Rightarrow> camera_store_goes | _ \<Rightarrow> False)"

text \<open>These are the changes of the transactions: what an addition and a removal prepare.\<close>

lemma next_store_adds:
  assumes "next_store sha inp e = Inr (nx, digest)" "pe_store e = Inr st" "pe_primary e = Some b"
  shows "add_to_set sha (cg_user inp) (cg_pair inp) (cg_profile inp) \<lparr> cs_store = st, cs_primary = Some b \<rparr> =
    \<lparr> cs_store = Some nx, cs_primary = Some b \<rparr>"
  using assms by (auto simp: next_store_def add_to_set_def Let_def split: option.splits sum.splits if_splits)

lemma removal_removes:
  assumes "remove_camera_group user gid a now loaded prepare pid e d = (Inr (), d')"
  shows "\<exists>s p. loaded = Inr (Some s) \<and> prepare (store_without_group s gid) (ss_primary_snapshot_sha256 s) = Inr p \<and>
    remove_from_set gid \<lparr> cs_store = Some s, cs_primary = b \<rparr> = \<lparr> cs_store = Some (store_without_group s gid), cs_primary = b \<rparr>"
  using assms
  by (auto simp: remove_camera_group_def remove_from_set_def store_without_group_def Let_def
      split: option.splits sum.splits if_splits prod.splits)

text \<open>Without a deletion a store is as many generations on as it was changed.\<close>

lemma set_changes_count:
  assumes "list_all (\<lambda>ev. \<not> deletes_store ev) evs" "cs_store w = Some s"
  shows "\<exists>t k. k \<le> length evs \<and> cs_store (fold (set_change sha) evs w) = Some t \<and>
    ss_generation t = ss_generation s + of_nat k \<and> (k = 0 \<longrightarrow> t = s)"
  using assms
proof (induction evs arbitrary: w s)
  case (Cons ev evs)
  have "\<exists>t j. j \<le> 1 \<and> cs_store (set_change sha ev w) = Some t \<and> ss_generation t = ss_generation s + of_nat j \<and> (j = 0 \<longrightarrow> t = s)"
    using Cons.prems
    by (cases ev) (force simp: add_to_set_def remove_from_set_def persist_enrollment_def delete_with_def deletes_store_def Let_def
        store_with_group_def store_without_group_def split: option.splits sum.splits intro: exI [of _ 0] exI [of _ 1])+
  then obtain t j where t: "j \<le> 1" "cs_store (set_change sha ev w) = Some t" "ss_generation t = ss_generation s + of_nat j"
      "j = 0 \<longrightarrow> t = s" by blast
  from Cons.IH [OF _ t(2)] Cons.prems(1) obtain t' k where "k \<le> length evs"
      "cs_store (fold (set_change sha) (ev # evs) w) = Some t'" "ss_generation t' = ss_generation t + of_nat k" "k = 0 \<longrightarrow> t' = t"
    by auto
  with t show ?case by (intro exI [of _ t'] exI [of _ "j + k"]) auto
qed auto

text \<open>Every group of a store that was begun anew was added since, with the data it holds.\<close>

definition group_event :: "('f, 'c) SecondaryGroup \<Rightarrow> ('f, 'c) set_event \<Rightarrow> bool" where
  "group_event g ev \<longleftrightarrow> (\<exists>user profile. ev = AddsGroup user (sg_pair g) profile \<and> sg_profiles g = [profile])"

lemma set_change_groups:
  assumes "cs_store (set_change sha ev w) = Some t" "g \<in> set (ss_groups t)"
  shows "group_event g ev \<or> (\<exists>s. cs_store w = Some s \<and> g \<in> set (ss_groups s))"
  using assms
  by (cases ev) (auto simp: add_to_set_def remove_from_set_def persist_enrollment_def delete_with_def store_with_group_def store_without_group_def
      fresh_store_def group_event_def Let_def split: option.splits sum.splits if_splits)

lemma groups_were_added:
  assumes "cs_store (fold (set_change sha) evs w) = Some t" "g \<in> set (ss_groups t)" "cs_store w = None"
  shows "\<exists>ev\<in>set evs. group_event g ev"
  using assms
proof (induction evs arbitrary: t rule: rev_induct)
  case (snoc ev evs)
  from set_change_groups [of sha ev "fold (set_change sha) evs w" t g] snoc.prems show ?case
    using snoc.IH [OF _ _ snoc.prems(3)] by auto
qed simp

text \<open>C13: Whatever happens to the account's camera groups while an attempt pinned to one of them is
  under way (additions, removals, writes of the primary enrollment, deletions of the face data that
  succeed or stop half way), a grant at the boundary means that the primary has the digest it had,
  and that either the store is the very store the attempt was pinned in, or a deletion took that
  store and since then the very pair of the pinned group was added again, under the same
  identifier: the generation a store counts protects against every change but its deletion.
  The bound on the number of changes is that of the counter.\<close>

theorem grant_means_unchanged_or_recreated:
  assumes "pin_key_from_loaded sha user primary b key s = Inr c" "length evs < 2 ^ 64"
    and "w = fold (set_change sha) evs \<lparr> cs_store = Some s, cs_primary = Some b \<rparr>"
    and "boundary_check sha c (cs_primary w) (cs_store w) = Grant"
  shows "map_option (sha256_hex sha) (cs_primary w) = Some (sha256_hex sha b) \<and>
    (cs_store w = Some s \<or>
     (\<exists>before del since user' profile g t. evs = before @ del # since \<and> deletes_store del \<and>
        AddsGroup user' (ax_pair c) profile \<in> set since \<and> cs_store w = Some t \<and> g \<in> set (ss_groups t) \<and>
        sg_id g = gc_group_id (ax_pinned c) \<and> sg_pair g = ax_pair c \<and> sg_profiles g = [profile]))"
proof -
  obtain g where g: "pinned_to sha b s c g" using assms(1) by (rule pin_key_from_loaded_Inr)
  then have c: "gc_group_id (ax_pinned c) = sg_id g" "ax_pair c = sg_pair g" by (simp_all add: pinned_to_def)
  obtain p t h where t: "cs_primary w = Some p" "cs_store w = Some t" "ss_generation t = ss_generation s"
      "sha256_hex sha p = sha256_hex sha b" and h: "find (\<lambda>h. sg_id h = sg_id g) (ss_groups t) = Some h" "sg_pair h = sg_pair g"
    using assms(4) unfolding boundary_check_Grant [OF g] by auto
  have d: "map_option (sha256_hex sha) (cs_primary w) = Some (sha256_hex sha b)" using t by simp
  show ?thesis
  proof (cases "list_all (\<lambda>ev. \<not> deletes_store ev) evs")
    case True
    from set_changes_count [OF this, of "\<lparr> cs_store = Some s, cs_primary = Some b \<rparr>" s sha] t(2)
    obtain k where k: "k \<le> length evs" "ss_generation t = ss_generation s + of_nat k" "k = 0 \<longrightarrow> t = s"
      by (auto simp: assms(3))
    then have "2 ^ 64 dvd k" using t(3) by (simp add: word_of_nat_eq_0_iff)
    with k(1) assms(2) have "k = 0" using dvd_imp_le by fastforce
    with k t d show ?thesis by simp
  next
    case False
    then obtain before del since where e: "evs = before @ del # since" "deletes_store del"
      by (auto simp: list_all_iff dest: split_list)
    let ?v = "set_change sha del (fold (set_change sha) before \<lparr> cs_store = Some s, cs_primary = Some b \<rparr>)"
    have "cs_store ?v = None" using e(2) by (cases del) (auto simp: deletes_store_def delete_with_def)
    moreover have "cs_store (fold (set_change sha) since ?v) = Some t" using t(2) by (simp add: assms(3) e)
    moreover have "h \<in> set (ss_groups t)" "sg_id h = sg_id g" using h(1) by (auto simp: find_Some_iff)
    ultimately obtain ev where "ev \<in> set since" "group_event h ev" using groups_were_added by metis
    then show ?thesis
      using e d t(2) h c \<open>h \<in> set (ss_groups t)\<close> \<open>sg_id h = sg_id g\<close> by (fastforce simp: group_event_def)
  qed
qed

section \<open>Examples\<close>

theorem authorization_is_exact_witness:
  "\<exists>a. mint ''alice'' (RemoveGroup ''desk'') 100 60 ''nonce'' ViaPassword = Inr a \<and>
     validate_for a ''alice'' (RemoveGroup ''desk'') 150 = None \<and> (150 :: nat) \<le> 100 + 86400"
proof -
  let ?op = "RemoveGroup ''desk''"
  let ?a = "\<lparr> az_account = ''alice'', az_operation = ?op, az_granted_at_unix = 100, az_valid_for_secs = 60,
     az_authorization_id = ''nonce'', az_via = ViaPassword \<rparr>"
  have m: "mint ''alice'' ?op 100 60 ''nonce'' ViaPassword = Inr ?a"
    by (simp add: mint_def az_bounded_def operation_rule_def MAX_AUTHORIZATION_WINDOW_SECS_def)
  moreover have v: "validate_for ?a ''alice'' ?op 150 = None" by (simp add: validate_for_None)
  ultimately show ?thesis using authorization_is_exact [OF m v] by simp
qed

text \<open>A deletion that stops after the store, and the same camera enrolled again with other scans: the
  store begins at the generation the attempt was pinned at, and the attempt is granted.\<close>

definition example_again :: "(nat, nat) SecondaryProfileScans" where
  "example_again = (let p = hd (sg_profiles example_desk) in p\<lparr> ps_scans := map (\<lambda>f. f\<lparr> sn_rgb := [2] \<rparr>) (ps_scans p) \<rparr>)"

definition example_events :: "(nat, nat) set_event list" where
  "example_events = [DeletesFaces True False, AddsGroup ''alice'' (sg_pair example_desk) example_again]"

definition example_addition :: "(nat, nat) CameraGroupPublication" where
  "example_addition = \<lparr> cg_user = ''alice'', cg_pair = sg_pair example_desk, cg_group_id = ''cam-046d-0825'',
     cg_profile = hd (sg_profiles example_desk), cg_start_enr = example_primary, cg_start_primary_sha256 = example_digest,
     cg_authorization = \<lparr> az_account = ''alice'', az_operation = add_group ''cam-046d-0825'' (sg_pair example_desk),
       az_granted_at_unix = 100, az_valid_for_secs = 60, az_authorization_id = ''nonce'', az_via = ViaPassword \<rparr>,
     cg_now_unix = 120 \<rparr>"

definition example_env :: "(nat, nat, nat) publication_env" where
  "example_env = \<lparr> pe_secondary = ReadMissing, pe_account = 1000, pe_store = Inr None, pe_primary = Some [],
     pe_enrollment = Inr (Some example_primary), pe_print = (\<lambda>_. Some []), pe_secondary_again = ReadMissing,
     pe_prepare = (\<lambda>s snap. prepare_with_intent_key example_codec (replicate NONCE_LEN 0) True s snap None) \<rparr>"

definition example_boundary :: "nat boundary_env" where
  "example_boundary = \<lparr> be_plain_name = True, be_locked = True, be_key_unchanged = True, be_admission = None,
     be_primary = Some [], be_read = True, be_account = 1000, be_now = 130, be_pid = 7, be_publish = publish_works \<rparr>"

lemma example_id: "derive_group_id (fresh_store ''alice'') (Some ''046d:0825'') ir = Inr ''cam-046d-0825''"
proof -
  have "id_stem (Some ''046d:0825'') None = ''046d-0825''" by code_simp
  then have "id_stem (Some ''046d:0825'') ir = ''046d-0825''" by (simp add: id_stem_def)
  then show ?thesis by (simp add: derive_group_id_def fresh_store_def CameraGroupId_new_def MAX_ID_BYTES_def)
qed

definition example_recreated :: "(nat, nat) SecondaryStore" where
  "example_recreated = example_secondary\<lparr> ss_groups := [example_desk\<lparr> sg_profiles := [example_again] \<rparr>] \<rparr>"

lemma example_recreates:
  "fold (set_change (sc_sha256 example_codec)) example_events \<lparr> cs_store = Some example_secondary, cs_primary = Some [] \<rparr> =
     \<lparr> cs_store = Some example_recreated, cs_primary = Some [] \<rparr>"
proof -
  have "store_with_group (sc_sha256 example_codec) (fresh_store ''alice'') [] ''cam-046d-0825'' (sg_pair example_desk) example_again =
      example_recreated"
    by (simp add: store_with_group_def fresh_store_def example_sha example_secondary_def example_store_def example_desk_def
        example_group_def example_recreated_def SECONDARY_STORE_VERSION_def)
  moreover have "group_for_binding (fresh_store ''alice'' :: (nat, nat) SecondaryStore) (sg_pair example_desk) = None"
    by (simp add: group_for_binding_def fresh_store_def)
  moreover have "inactive_store_write_refusal sha (fresh_store ''alice'' :: (nat, nat) SecondaryStore) pb = None" for sha pb
    by (simp add: inactive_store_write_refusal_def fresh_store_def)
  moreover have "rgb_identity (sg_pair example_desk) = Some ''046d:0825''"
    by (simp add: example_desk_def example_group_def rgb_identity_def)
  ultimately show ?thesis
    by (simp add: example_events_def delete_with_def add_to_set_def example_id)
qed

lemma example_again_differs: "example_recreated \<noteq> example_secondary"
proof -
  have "map ps_scans (sg_profiles (hd (ss_groups example_recreated))) \<noteq> map ps_scans (sg_profiles (hd (ss_groups example_secondary)))"
    by (simp add: example_recreated_def example_again_def example_groups Let_def) (simp add: example_desk_def example_group_def)
  then show ?thesis by metis
qed

text \<open>The boundary grants in a store that is not the pinned one, though the pinned group's scans are gone.\<close>

lemma recreated_store_is_granted:
  "boundary_check (sc_sha256 example_codec) example_context (Some []) (Some example_recreated) = Grant \<and>
     example_recreated \<noteq> example_secondary"
  using example_secondary_ok example_again_differs
  by (simp add: boundary_check_def grant_boundary_check_bound_def grant_boundary_check_impl_def example_context_def
      context_of_def example_sha activation_against_def example_recreated_def example_groups store_ok_def group_ok_def)

theorem grant_means_unchanged_or_recreated_witness:
  "\<exists>w g t. w = fold (set_change (sc_sha256 example_codec)) example_events
       \<lparr> cs_store = Some example_secondary, cs_primary = Some [] \<rparr> \<and>
     boundary_check (sc_sha256 example_codec) example_context (cs_primary w) (cs_store w) = Grant \<and>
     cs_store w = Some t \<and> t \<noteq> example_secondary \<and> g \<in> set (ss_groups t) \<and>
     sg_pair g = ax_pair example_context \<and> sg_profiles g = [example_again]"
proof -
  let ?w = "\<lparr> cs_store = Some example_recreated, cs_primary = Some [] \<rparr> :: (nat, nat) camera_set"
  have g: "boundary_check (sc_sha256 example_codec) example_context (cs_primary ?w) (cs_store ?w) = Grant"
    using recreated_store_is_granted by simp
  from grant_means_unchanged_or_recreated [OF example_pins_loaded _ example_recreates [symmetric] g]
  obtain g' t profile where "cs_store ?w = Some t" "g' \<in> set (ss_groups t)" "sg_pair g' = ax_pair example_context"
      "sg_profiles g' = [profile]" "profile = example_again"
    using example_again_differs by (auto simp: example_events_def deletes_store_def Cons_eq_append_conv)
  then show ?thesis
    using g example_again_differs
    by (intro exI [of _ ?w] exI [of _ g'] exI [of _ t]) (auto simp: example_recreates)
qed

lemma example_next: "next_store (sc_sha256 example_codec) example_addition example_env = Inr (example_secondary, None)"
proof -
  have "store_with_group (sc_sha256 example_codec) (fresh_store ''alice'') [] ''cam-046d-0825'' (sg_pair example_desk)
      (hd (sg_profiles example_desk)) = example_secondary"
    by (simp add: store_with_group_def fresh_store_def example_sha example_secondary_def example_store_def example_desk_def
        example_group_def SECONDARY_STORE_VERSION_def)
  moreover have "group_for_binding (fresh_store ''alice'' :: (nat, nat) SecondaryStore) (sg_pair example_desk) = None"
    by (simp add: group_for_binding_def fresh_store_def)
  moreover have "inactive_store_write_refusal sha (fresh_store ''alice'' :: (nat, nat) SecondaryStore) pb = None" for sha pb
    by (simp add: inactive_store_write_refusal_def fresh_store_def)
  moreover have "rgb_identity (sg_pair example_desk) = Some ''046d:0825''"
    by (simp add: example_desk_def example_group_def rgb_identity_def)
  moreover have "validate_for (cg_authorization example_addition) ''alice'' (add_group ''cam-046d-0825'' (sg_pair example_desk)) 120 = None"
    by (simp add: validate_for_None example_addition_def)
  ultimately show ?thesis
    by (simp add: next_store_def example_addition_def example_env_def optional_file_digest_def example_sha example_id
        enrollment_changed_def ensure_not_consumed_def Let_def)
qed

lemma example_adds:
  "\<exists>d'. publish_camera_group (sc_sha256 example_codec) example_addition example_env example_boundary (cw_disk commit_start) =
     (Inr ''cam-046d-0825'', d')"
proof -
  have v: "validate_for (cg_authorization example_addition) ''alice'' (add_group ''cam-046d-0825'' (sg_pair example_desk)) 130 = None"
    by (simp add: validate_for_None example_addition_def)
  obtain d' where c: "commit_publish 7 example_prepared publish_works (cw_disk commit_start) = (Inr (), d')"
    by (simp add: commit_run)
  have "with_account_publication (cg_user example_addition) example_boundary example_prepared
      (publish_active_camera_group example_boundary (PreparedCameraGroupCommit_publish (sc_sha256 example_codec)
        example_addition (pe_account example_env) example_boundary None example_prepared)) (cw_disk commit_start) = (Inr (), d')"
    using v c
    by (simp add: with_account_publication_def publish_active_camera_group_def PreparedCameraGroupCommit_publish_def example_boundary_def example_addition_def example_env_def example_sha
        optional_file_digest_def) (simp add: example_prepared_def commit_start_def power_loss_def read_store_def)
  then show ?thesis
    using example_prepares
    by (simp add: publish_camera_group_def io_bind_def io_lift_def io_return_def example_next)
      (simp add: example_env_def example_addition_def io_bind_def io_return_def)
qed

theorem addition_adds_exactly_one_group_witness:
  "\<exists>d' bytes s. publish_camera_group (sc_sha256 example_codec) example_addition example_env example_boundary (cw_disk commit_start) =
       (Inr ''cam-046d-0825'', d') \<and> cd_now d' StoreFile = Some bytes \<and>
     parse_store_bytes example_codec bytes None = Inr s \<and> map sg_id (ss_groups s) = [''cam-046d-0825'']"
proof -
  obtain d' where d: "publish_camera_group (sc_sha256 example_codec) example_addition example_env example_boundary (cw_disk commit_start) =
     (Inr ''cam-046d-0825'', d')" using example_adds by blast
  from addition_adds_exactly_one_group [OF example_codec_ok _ _ d, of "replicate NONCE_LEN 0" True None]
  have "\<exists>s bytes. base_store example_addition example_env s \<and> cd_now d' StoreFile = Some bytes \<and>
      parse_store_bytes example_codec bytes None = Inr (s\<lparr> ss_generation := ss_generation s + 1,
        ss_primary_snapshot_sha256 := cg_start_primary_sha256 example_addition,
        ss_groups := ss_groups s @ [\<lparr> sg_id = ''cam-046d-0825'', sg_pair = cg_pair example_addition,
          sg_profiles = [cg_profile example_addition] \<rparr>] \<rparr>)"
    by (auto simp: example_env_def)
  then obtain s bytes where b: "base_store example_addition example_env s" "cd_now d' StoreFile = Some bytes"
    and parse: "parse_store_bytes example_codec bytes None = Inr (s\<lparr> ss_generation := ss_generation s + 1,
        ss_primary_snapshot_sha256 := cg_start_primary_sha256 example_addition,
        ss_groups := ss_groups s @ [\<lparr> sg_id = ''cam-046d-0825'', sg_pair = cg_pair example_addition,
          sg_profiles = [cg_profile example_addition] \<rparr>] \<rparr>)" by blast
  define t where "t = s\<lparr> ss_generation := ss_generation s + 1,
        ss_primary_snapshot_sha256 := cg_start_primary_sha256 example_addition,
        ss_groups := ss_groups s @ [\<lparr> sg_id = ''cam-046d-0825'', sg_pair = cg_pair example_addition,
          sg_profiles = [cg_profile example_addition] \<rparr>] \<rparr>"
  have "ss_groups s = []" using b(1) by (simp add: base_store_def example_env_def fresh_store_def)
  then have "map sg_id (ss_groups t) = [''cam-046d-0825'']" by (simp add: t_def)
  with d b(2) parse [folded t_def] show ?thesis by (intro exI [of _ d'] exI [of _ bytes] exI [of _ t] conjI)
qed

end
