(* ===== verification/Pam_Session.thy ===== *)
theory Pam_Session
  imports Service_Policy Rust_Text
begin

text \<open>
  Where the person behind a PAM transaction sits (\<^verbatim>\<open>irlume-pam/src/lib.rs\<close>): the checks by which the
  module decides that a transaction is remote and leaves the camera alone. The items of the PAM
  handle, the environment markers, the peer of the standard input and the files of \<^verbatim>\<open>/proc\<close> and of
  logind are arguments; a file that cannot be read or is not text is none.
\<close>

section \<open>Text\<close>

text \<open>\<^verbatim>\<open>to_string_lossy\<close>, as bytes again: an ill-formed part becomes the three bytes of U+FFFD.\<close>

function utf8_repair :: "nat list \<Rightarrow> nat list" where
  "utf8_repair [] = []"
| "utf8_repair (b # cs) = (case utf8_first b cs of (n, c) \<Rightarrow>
     (if c = None then [239, 191, 189] else take n (b # cs)) @ utf8_repair (drop (n - 1) cs))"
  by pat_completeness auto
termination by (relation "measure length") auto

definition lossy :: "string \<Rightarrow> string" where
  "lossy s = text_of (utf8_repair (codes s))"

section \<open>Displays and services\<close>

definition is_display_number :: "string \<Rightarrow> bool" where
  "is_display_number number \<longleftrightarrow> (let n = hd (split_on (CHR ''.'') number) in n \<noteq> [] \<and> list_all is_digit n)"

definition names_remote_x_display :: "string \<Rightarrow> bool" where
  "names_remote_x_display display =
     (let d = trim_text display in
      if starts_with d ''/'' then False
      else (case rsplit_once (CHR '':'') d of
          None \<Rightarrow> False
        | Some (host, number) \<Rightarrow>
            if \<not> is_display_number number then False
            else (case split_once (CHR ''/'') host of
                Some (protocol, _) \<Rightarrow> \<not> (eq_ignore_ascii_case protocol ''unix'' \<or> eq_ignore_ascii_case protocol ''local'')
              | None \<Rightarrow> host \<noteq> [] \<and> \<not> eq_ignore_ascii_case host ''unix'')))"

definition is_remote_desktop_service :: "string \<Rightarrow> bool" where
  "is_remote_desktop_service service =
     (if classify_service service = Some Remote then True
      else let s = text_of (ascii_lower (trim (codes service))) in
        starts_with s ''xrdp'' \<or> contains_text s ''vnc'' \<or> starts_with s ''xpra'' \<or> s = ''nx'' \<or>
        starts_with s ''nxagent'' \<or> starts_with s ''nxnode'' \<or> starts_with s ''nxserver'' \<or> s = ''sshd'')"

section \<open>The session of a process\<close>

datatype CgroupOwner = OwnerSession string u32 | OwnerUserManager u32

definition logind_id :: "string \<Rightarrow> bool" where
  "logind_id i \<longleftrightarrow> i \<noteq> [] \<and> list_all (\<lambda>c. is_ascii_alphanumeric (of_char c)) i"

definition number_between :: "string \<Rightarrow> string \<Rightarrow> string \<Rightarrow> u32 option" where
  "number_between p q s =
     Option.bind (strip_prefix p s) (\<lambda>r. Option.bind (strip_suffix q r) (\<lambda>n. parse_u32 (codes n)))"

definition owner_of_path :: "string \<Rightarrow> CgroupOwner option" where
  "owner_of_path path = (case filter (\<lambda>p. p \<noteq> []) (split_on (CHR ''/'') path) of
      dir # sl # u # rest \<Rightarrow>
        if dir \<noteq> ''user.slice'' then None
        else (case number_between ''user-'' ''.slice'' sl of
            None \<Rightarrow> None
          | Some uid \<Rightarrow>
              (case Option.bind (strip_prefix ''session-'' u) (strip_suffix ''.scope'') of
                 Some i \<Rightarrow> if rest = [] \<and> logind_id i then Some (OwnerSession i uid) else None
               | None \<Rightarrow>
                   (case number_between ''user@'' ''.service'' u of
                      Some manager \<Rightarrow> if manager = uid then Some (OwnerUserManager uid) else None
                    | None \<Rightarrow> None)))
    | _ \<Rightarrow> None)"

definition cgroup_path :: "string \<Rightarrow> string option" where
  "cgroup_path line = (case split_once (CHR '':'') line of
      None \<Rightarrow> None
    | Some (_, r) \<Rightarrow> (case split_once (CHR '':'') r of
        None \<Rightarrow> None
      | Some (controllers, path) \<Rightarrow>
          if controllers = [] \<or> controllers = ''name=systemd'' then Some path else None))"

definition cgroup_owner :: "string \<Rightarrow> CgroupOwner option" where
  "cgroup_owner text = find_map owner_of_path (List.map_filter cgroup_path (lines text))"

definition logind_value :: "string \<Rightarrow> string \<Rightarrow> string option" where
  "logind_value text key =
     find_map (\<lambda>line. map_option trim_text (Option.bind (strip_prefix key line) (strip_prefix ''=''))) (lines text)"

record session_files =
  sf_cgroup :: "string \<Rightarrow> string option"
  sf_user :: "string \<Rightarrow> string option"
  sf_session :: "string \<Rightarrow> string option"

datatype Process = Current | Pid u32

definition process_entry :: "Process \<Rightarrow> string" where
  "process_entry p = (case p of Current \<Rightarrow> ''self'' | Pid n \<Rightarrow> dec (unat n))"

definition session_of_owner :: "session_files \<Rightarrow> CgroupOwner \<Rightarrow> (string \<times> u32) option" where
  "session_of_owner sf w = (case w of
      OwnerSession i uid \<Rightarrow> Some (i, uid)
    | OwnerUserManager uid \<Rightarrow> (case sf_user sf (dec (unat uid)) of
        None \<Rightarrow> None
      | Some user \<Rightarrow> (case logind_value user ''DISPLAY'' of
          Some i \<Rightarrow> if logind_id i then Some (i, uid) else None
        | None \<Rightarrow> None)))"

definition session_is_local :: "session_files \<Rightarrow> Process \<Rightarrow> bool" where
  "session_is_local sf p = (case sf_cgroup sf (process_entry p) of
      None \<Rightarrow> False
    | Some text \<Rightarrow> (case Option.bind (cgroup_owner text) (session_of_owner sf) of
        None \<Rightarrow> False
      | Some (session, uid) \<Rightarrow> (case sf_session sf session of
          None \<Rightarrow> False
        | Some facts \<Rightarrow>
            logind_value facts ''UID'' = Some (dec (unat uid)) \<and> logind_value facts ''REMOTE'' = Some ''0'')))"

section \<open>Remote sessions\<close>

record pam_items =
  pi_user :: "string option"
  pi_rhost :: "string option"
  pi_xdisplay :: "string option"
  pi_tty :: "string option"
  pi_service :: "string option"

text \<open>The pid \<^verbatim>\<open>SO_PEERCRED\<close> gives for the standard input, if it is a socket; else the parent.\<close>

record caller_env =
  ce_peer_pid :: "int option"
  ce_parent :: u32
  ce_files :: session_files
  ce_ssh_connection :: bool
  ce_ssh_tty :: bool

definition requesting_agent_pid :: "caller_env \<Rightarrow> u32 option" where
  "requesting_agent_pid e =
     Option.bind (case ce_peer_pid e of Some i \<Rightarrow> if i < 0 then None else Some (word_of_int i) | None \<Rightarrow> Some (ce_parent e))
       (\<lambda>pid. if pid > 1 then Some pid else None)"

definition consent_requester_is_local :: "caller_env \<Rightarrow> bool" where
  "consent_requester_is_local e =
     (case requesting_agent_pid e of None \<Rightarrow> False | Some pid \<Rightarrow> session_is_local (ce_files e) (Pid pid))"

definition elevation_caller_is_local :: "caller_env \<Rightarrow> bool" where
  "elevation_caller_is_local e = session_is_local (ce_files e) Current"

definition rhost_is_local :: "string \<Rightarrow> bool" where
  "rhost_is_local rhost \<longleftrightarrow> (let h = trim_text (lossy rhost) in
     h = [] \<or> eq_ignore_ascii_case h ''localhost'' \<or> eq_ignore_ascii_case h ''localhost.localdomain'' \<or>
     h = ''127.0.0.1'' \<or> h = ''::1'')"

definition item_is_remote_display :: "string option \<Rightarrow> bool" where
  "item_is_remote_display v = (case v of None \<Rightarrow> False | Some d \<Rightarrow> names_remote_x_display (lossy d))"

definition service_is_remote :: "caller_env \<Rightarrow> string \<Rightarrow> bool" where
  "service_is_remote e svc =
     (if is_remote_desktop_service svc then True
      else (case classify_service svc of
          Some AppConsent \<Rightarrow> \<not> consent_requester_is_local e
        | Some Elevation \<Rightarrow> \<not> elevation_caller_is_local e
        | _ \<Rightarrow> False))"

definition is_remote_session :: "pam_items \<Rightarrow> caller_env \<Rightarrow> bool" where
  "is_remote_session it e =
     (if (case pi_rhost it of Some h \<Rightarrow> \<not> rhost_is_local h | None \<Rightarrow> False) then True
      else if item_is_remote_display (pi_xdisplay it) \<or> item_is_remote_display (pi_tty it) then True
      else if (case pi_service it of Some s \<Rightarrow> service_is_remote e (lossy s) | None \<Rightarrow> False) then True
      else ce_ssh_connection e \<or> ce_ssh_tty e)"

section \<open>What a local session means\<close>

text \<open>That a control group belongs to a session of a user: it is the scope of that very session, in the
  user's slice, or it lies in the user's service manager and logind names the session as the
  display session of the user.\<close>

definition belongs_to :: "session_files \<Rightarrow> string \<Rightarrow> u32 \<Rightarrow> string \<Rightarrow> bool" where
  "belongs_to sf path uid session \<longleftrightarrow> (case filter (\<lambda>p. p \<noteq> []) (split_on (CHR ''/'') path) of
      dir # sl # u # rest \<Rightarrow> dir = ''user.slice'' \<and> number_between ''user-'' ''.slice'' sl = Some uid \<and>
        (u = ''session-'' @ session @ ''.scope'' \<and> rest = [] \<or>
         number_between ''user@'' ''.service'' u = Some uid \<and>
           map_option (\<lambda>user. logind_value user ''DISPLAY'') (sf_user sf (dec (unat uid))) = Some (Some session))
    | _ \<Rightarrow> False)"

lemma strip_prefix_eq_Some: "strip_prefix p s = Some r \<longleftrightarrow> s = p @ r"
  by (auto simp: strip_prefix_def) (metis append_take_drop_id)

lemma strip_suffix_eq_Some: "strip_suffix p s = Some r \<longleftrightarrow> s = r @ p"
  by (auto simp: strip_suffix_def strip_prefix_eq_Some) (metis rev_append rev_rev_ident)

lemma owner_belongs:
  assumes "owner_of_path path = Some w" "session_of_owner sf w = Some (session, uid)"
  shows "belongs_to sf path uid session"
proof (cases w)
  case (OwnerSession i u)
  with assms show ?thesis
    by (auto simp: owner_of_path_def belongs_to_def session_of_owner_def bind_eq_Some_conv strip_prefix_eq_Some strip_suffix_eq_Some
        split: list.splits option.splits if_splits)
next
  case (OwnerUserManager u)
  with assms show ?thesis
    by (auto simp: owner_of_path_def belongs_to_def session_of_owner_def split: list.splits option.splits if_splits)
qed

lemma find_map_Some: "find_map f xs = Some y \<Longrightarrow> \<exists>x\<in>set xs. f x = Some y"
  by (induction xs) (auto split: option.splits)

lemma cgroup_owner_Some:
  assumes "cgroup_owner text = Some w"
  obtains line path where "line \<in> set (lines text)" "cgroup_path line = Some path" "owner_of_path path = Some w"
  using find_map_Some [OF assms [unfolded cgroup_owner_def]] by (auto simp: map_filter_def)

lemma session_is_local_facts:
  assumes "session_is_local sf p"
  obtains tx line path uid session facts where "sf_cgroup sf (process_entry p) = Some tx"
    "line \<in> set (lines tx)" "cgroup_path line = Some path" "belongs_to sf path uid session"
    "sf_session sf session = Some facts" "logind_value facts ''UID'' = Some (dec (unat uid))"
    "logind_value facts ''REMOTE'' = Some ''0''"
proof -
  obtain tx w session uid facts where *: "sf_cgroup sf (process_entry p) = Some tx" "cgroup_owner tx = Some w"
      "session_of_owner sf w = Some (session, uid)" "sf_session sf session = Some facts"
      "logind_value facts ''UID'' = Some (dec (unat uid))" "logind_value facts ''REMOTE'' = Some ''0''"
    using assms by (auto simp: session_is_local_def bind_eq_Some_conv split: option.splits)
  obtain line path where l: "line \<in> set (lines tx)" "cgroup_path line = Some path" "owner_of_path path = Some w"
    using *(2) by (rule cgroup_owner_Some)
  from owner_belongs [OF l(3) *(3)] * l show ?thesis by (intro that)
qed

text \<open>C12: A prompt for an elevation or for a consent reaches the camera only if the process that
  asks (the command itself, or the agent at the other end) is by its control group in a session, as the
  scope of that session or through the display session of the service manager of its user, and
  logind's file of this very session names that user and says it is not remote. A local session
  of the same user elsewhere does not help, and whatever cannot be read or resolved counts as
  remote.\<close>

theorem privileged_prompt_is_local:
  assumes "\<not> is_remote_session it e" "pi_service it = Some svc"
    and "classify_service (lossy svc) = Some k" "k = Elevation \<or> k = AppConsent"
  shows "\<exists>p text line path uid session facts.
    (if k = Elevation then p = Current else map_option Pid (requesting_agent_pid e) = Some p) \<and>
    sf_cgroup (ce_files e) (process_entry p) = Some text \<and> line \<in> set (lines text) \<and>
    cgroup_path line = Some path \<and> belongs_to (ce_files e) path uid session \<and> sf_session (ce_files e) session = Some facts \<and>
    logind_value facts ''UID'' = Some (dec (unat uid)) \<and> logind_value facts ''REMOTE'' = Some ''0''"
proof -
  have "\<not> service_is_remote e (lossy svc)" using assms(1,2) by (auto simp: is_remote_session_def split: if_splits)
  then obtain p where p: "if k = Elevation then p = Current else map_option Pid (requesting_agent_pid e) = Some p"
    and l: "session_is_local (ce_files e) p"
    using assms(3,4)
    by (auto simp: service_is_remote_def elevation_caller_is_local_def consent_requester_is_local_def
        split: if_splits option.splits)
  from l p show ?thesis by (elim session_is_local_facts) blast
qed

section \<open>The files as the system writes them\<close>

definition scope_path :: "u32 \<Rightarrow> string \<Rightarrow> string" where
  "scope_path uid i = ''/user.slice/user-'' @ dec (unat uid) @ ''.slice/session-'' @ i @ ''.scope''"

definition manager_path :: "u32 \<Rightarrow> string \<Rightarrow> string" where
  "manager_path uid rest = ''/user.slice/user-'' @ dec (unat uid) @ ''.slice/user@'' @ dec (unat uid) @ ''.service/'' @ rest"

lemma number_between_dec: "number_between p q (p @ dec (unat uid) @ q) = Some uid"
  using strip_suffix_append [of q "dec (unat uid)"] by (simp add: number_between_def strip_prefix_append parse_u32_dec)

lemma dec_plain: "\<not> is_digit c \<Longrightarrow> c \<notin> set (dec n)"
  using codes_dec_digits [of n] by (auto simp: codes_def is_digit_def)

lemma id_plain: "logind_id i \<Longrightarrow> \<not> is_ascii_alphanumeric (of_char c) \<Longrightarrow> c \<notin> set i"
  by (auto simp: logind_id_def list_all_iff)

lemma scope_parts:
  assumes "logind_id i"
  shows "split_on (CHR ''/'') (scope_path uid i) =
    [[], ''user.slice'', ''user-'' @ dec (unat uid) @ ''.slice'', ''session-'' @ i @ ''.scope'']"
proof -
  have e: "scope_path uid i = join (CHR ''/'') [[], ''user.slice'', ''user-'' @ dec (unat uid) @ ''.slice'', ''session-'' @ i @ ''.scope'']"
    by (simp add: scope_path_def)
  have "CHR ''/'' \<notin> set (dec (unat uid))" "CHR ''/'' \<notin> set i"
    using assms dec_plain [of "CHR ''/''"] id_plain [of i "CHR ''/''"]
    by (auto simp: is_digit_def is_ascii_alphanumeric_def)
  then show ?thesis unfolding e by (intro split_on_join) auto
qed

lemma owner_of_scope: "logind_id i \<Longrightarrow> owner_of_path (scope_path uid i) = Some (OwnerSession i uid)"
  using number_between_dec [of "''user-''" "''.slice''" uid] strip_suffix_append [of "''.scope''" i]
  by (simp add: owner_of_path_def scope_parts strip_prefix_def)

lemma manager_parts:
  assumes "CHR ''/'' \<notin> set unit"
  shows "filter (\<lambda>p. p \<noteq> []) (split_on (CHR ''/'') (manager_path uid unit)) =
    [''user.slice'', ''user-'' @ dec (unat uid) @ ''.slice'', ''user@'' @ dec (unat uid) @ ''.service''] @
      (if unit = [] then [] else [unit])"
proof -
  let ?ps = "[[], ''user.slice'', ''user-'' @ dec (unat uid) @ ''.slice'', ''user@'' @ dec (unat uid) @ ''.service'', unit]"
  have e: "manager_path uid unit = join (CHR ''/'') ?ps"
    by (simp add: manager_path_def)
  have "CHR ''/'' \<notin> set (dec (unat uid))" using dec_plain [of "CHR ''/''"] by (simp add: is_digit_def)
  then have "split_on (CHR ''/'') (manager_path uid unit) = ?ps" unfolding e using assms by (intro split_on_join) auto
  then show ?thesis by (simp only: filter.simps) simp
qed

text \<open>A unit the user starts, whatever its name, belongs to the user's service manager.\<close>

lemma owner_of_manager:
  "CHR ''/'' \<notin> set unit \<Longrightarrow> owner_of_path (manager_path uid unit) = Some (OwnerUserManager uid)"
  using number_between_dec [of "''user-''" "''.slice''" uid] number_between_dec [of "''user@''" "''.service''" uid]
  by (simp add: owner_of_path_def manager_parts strip_prefix_def)

text \<open>The line of the unified hierarchy.\<close>

definition cgroup_file :: "string \<Rightarrow> string" where
  "cgroup_file path = ''0::'' @ path @ [CHR 0x0A]"

lemma cgroup_owner_file:
  assumes "CHR 0x0A \<notin> set path" "path \<noteq> []" "last path \<noteq> CHR 0x0D"
  shows "cgroup_owner (cgroup_file path) = owner_of_path path"
proof -
  have "cgroup_file path = line_text [''0::'' @ path] @ []" by (simp add: cgroup_file_def line_text_def)
  then have "lines (cgroup_file path) = map strip_cr [''0::'' @ path] @ lines []"
    using assms(1) by (simp only: lines_line_text) (subst lines_line_text; simp)
  also have "\<dots> = [''0::'' @ path]" using assms(2,3) by (simp add: strip_cr_def lines_def)
  finally show ?thesis
    by (simp add: cgroup_owner_def cgroup_path_def map_filter_def split: option.splits)
qed

lemma path_in_line:
  "logind_id i \<Longrightarrow> CHR 0x0A \<notin> set (scope_path uid i)"
  using digits_no_newline [of "unat uid"] id_plain [of i "CHR 0x0A"]
  by (auto simp: scope_path_def is_ascii_alphanumeric_def)

definition says_local :: "session_files \<Rightarrow> string \<Rightarrow> u32 \<Rightarrow> bool" where
  "says_local sf i uid = (case sf_session sf i of
      None \<Rightarrow> False
    | Some facts \<Rightarrow> logind_value facts ''UID'' = Some (dec (unat uid)) \<and> logind_value facts ''REMOTE'' = Some ''0'')"

text \<open>Of a process in the scope of a login session exactly that session decides: it is local if
  and only if logind's file of the session names the user of the slice and says it is not
  remote. A process in a unit of the user's service manager, whatever the unit is called, is
  judged by the session logind names as the user's display session.\<close>

theorem session_is_judged_by_logind:
  assumes "logind_id i" "sf_cgroup sf (process_entry p) = Some (cgroup_file path)"
    and "path = scope_path uid i \<or>
      path = manager_path uid unit \<and> unit \<noteq> [] \<and> CHR ''/'' \<notin> set unit \<and> CHR 0x0A \<notin> set unit \<and> last unit \<noteq> CHR 0x0D \<and>
        map_option (\<lambda>user. logind_value user ''DISPLAY'') (sf_user sf (dec (unat uid))) = Some (Some i)"
  shows "session_is_local sf p \<longleftrightarrow> says_local sf i uid"
proof -
  have "path \<noteq> []" "last path \<noteq> CHR 0x0D" "CHR 0x0A \<notin> set path"
    using assms(3) path_in_line [OF assms(1)] digits_no_newline [of "unat uid"]
    by (auto simp: scope_path_def manager_path_def)
  then have "cgroup_owner (cgroup_file path) = owner_of_path path" by (intro cgroup_owner_file)
  moreover have "Option.bind (owner_of_path path) (session_of_owner sf) = Some (i, uid)"
    using assms(1,3) owner_of_scope [OF assms(1), of uid] owner_of_manager [of unit uid]
    by (auto simp: session_of_owner_def)
  ultimately show ?thesis using assms(2) by (simp add: session_is_local_def says_local_def)
qed

section \<open>Examples\<close>

definition example_files :: session_files where
  "example_files = \<lparr> sf_cgroup = (\<lambda>_. Some (cgroup_file (scope_path 7 ''c2''))), sf_user = (\<lambda>_. None),
     sf_session = (\<lambda>i. if i = ''c2'' then Some (''UID=7'' @ [CHR 0x0A] @ ''REMOTE=0'' @ [CHR 0x0A]) else None) \<rparr>"

lemma example_says_local: "says_local example_files ''c2'' 7"
proof -
  have "logind_value (''UID=7'' @ [CHR 0x0A] @ ''REMOTE=0'' @ [CHR 0x0A]) ''UID'' = Some ''7''"
    "logind_value (''UID=7'' @ [CHR 0x0A] @ ''REMOTE=0'' @ [CHR 0x0A]) ''REMOTE'' = Some ''0''" by code_simp+
  moreover have "dec 7 = ''7''" by code_simp
  ultimately show ?thesis by (simp add: says_local_def example_files_def)
qed

theorem session_is_judged_by_logind_witness: "session_is_local example_files Current"
proof -
  have "logind_id ''c2''" by (simp add: logind_id_def is_ascii_alphanumeric_def)
  from session_is_judged_by_logind [OF this _ disjI1 [OF refl], of example_files Current 7] example_says_local
  show ?thesis by (simp add: example_files_def)
qed

definition example_sudo :: pam_items where
  "example_sudo = \<lparr> pi_user = Some ''ann'', pi_rhost = None, pi_xdisplay = None, pi_tty = Some ''/dev/tty2'', pi_service = Some ''sudo'' \<rparr>"

definition example_caller :: caller_env where
  "example_caller = \<lparr> ce_peer_pid = None, ce_parent = 1, ce_files = example_files, ce_ssh_connection = False, ce_ssh_tty = False \<rparr>"

lemma example_not_remote: "\<not> is_remote_session example_sudo example_caller" "lossy ''sudo'' = ''sudo''" "classify_service ''sudo'' = Some Elevation"
proof -
  have i: "logind_id ''c2''" by (simp add: logind_id_def is_ascii_alphanumeric_def)
  have "cgroup_owner (cgroup_file (scope_path 7 ''c2'')) = Some (OwnerSession ''c2'' 7)"
    using cgroup_owner_file [OF path_in_line [OF i], of 7] owner_of_scope [OF i, of 7] by (simp add: scope_path_def)
  then have "session_is_local example_files Current"
    using example_says_local by (simp add: session_is_local_def session_of_owner_def says_local_def example_files_def)
  moreover have "\<not> is_remote_desktop_service ''sudo''" "\<not> names_remote_x_display (lossy ''/dev/tty2'')" by code_simp+
  moreover show "lossy ''sudo'' = ''sudo''" "classify_service ''sudo'' = Some Elevation" by code_simp+
  ultimately show "\<not> is_remote_session example_sudo example_caller"
    by (simp add: is_remote_session_def example_sudo_def example_caller_def item_is_remote_display_def service_is_remote_def
        elevation_caller_is_local_def)
qed

theorem privileged_prompt_is_local_witness:
  "\<exists>text line path uid session facts. sf_cgroup example_files ''self'' = Some text \<and> line \<in> set (lines text) \<and>
     cgroup_path line = Some path \<and> belongs_to example_files path uid session \<and> sf_session example_files session = Some facts \<and>
     logind_value facts ''UID'' = Some (dec (unat uid)) \<and> logind_value facts ''REMOTE'' = Some ''0''"
proof -
  have "pi_service example_sudo = Some ''sudo''" by (simp add: example_sudo_def)
  from privileged_prompt_is_local [OF example_not_remote(1) this] example_not_remote(2,3)
  show ?thesis by (simp add: example_caller_def process_entry_def)
qed

end
