(* ===== verification/Pam_Helpers.thy ===== *)
theory Pam_Helpers
  imports Prelude
begin

text \<open>
  The helper processes of the PAM module (\<^verbatim>\<open>irlume-pam/src/lib.rs\<close>): a login waits for them, so each wait
  has a ceiling. The child is an arbitrary process: what a read of its output, a look at its
  state and the clock give are operations on an abstract state, and every call is on a log. A loop that
  does not end is the value \<^const>\<open>None\<close>, and that there is none is proved.
\<close>

section \<open>A child process\<close>

record ExitStatus =
  es_code :: "int option"
  es_signal :: "int option"

definition exit_success :: "ExitStatus \<Rightarrow> bool" where
  "exit_success st \<longleftrightarrow> es_code st = Some 0"

datatype ReadResult = ReadBytes bytes | Interrupted | WouldBlock | ReadFailed
datatype TryWait = StillRunning | Ended ExitStatus | WaitFailed

text \<open>A read gives at most the 256 bytes of the chunk, and no byte at the end of the output. Times are in
  milliseconds.\<close>

record 'c child =
  ch_nonblocking :: "'c \<Rightarrow> bool \<times> 'c"
  ch_read :: "'c \<Rightarrow> ReadResult \<times> 'c"
  ch_try_wait :: "'c \<Rightarrow> TryWait \<times> 'c"
  ch_kill :: "'c \<Rightarrow> 'c"
  ch_sleep :: "nat \<Rightarrow> 'c \<Rightarrow> 'c"
  ch_now :: "'c \<Rightarrow> nat"

datatype helper_event = Got bytes | Waited TryWait | Killed | Slept nat

record 'c helper_run =
  hr_child :: 'c
  hr_log :: "helper_event list"

definition observe :: "('c \<Rightarrow> 'a \<times> 'c) \<Rightarrow> ('a \<Rightarrow> helper_event list) \<Rightarrow> 'c helper_run \<Rightarrow> 'a \<times> 'c helper_run" where
  "observe f ev h = (case f (hr_child h) of (x, c) \<Rightarrow> (x, \<lparr> hr_child = c, hr_log = hr_log h @ ev x \<rparr>))"

definition try_wait :: "'c child \<Rightarrow> 'c helper_run \<Rightarrow> TryWait \<times> 'c helper_run" where
  "try_wait ch = observe (ch_try_wait ch) (\<lambda>x. [Waited x])"

definition read_chunk :: "'c child \<Rightarrow> 'c helper_run \<Rightarrow> ReadResult \<times> 'c helper_run" where
  "read_chunk ch = observe (ch_read ch) (\<lambda>x. case x of ReadBytes b \<Rightarrow> [Got b] | _ \<Rightarrow> [])"

definition sleep_for :: "'c child \<Rightarrow> nat \<Rightarrow> 'c helper_run \<Rightarrow> 'c helper_run" where
  "sleep_for ch n h = snd (observe (\<lambda>c. ((), ch_sleep ch n c)) (\<lambda>_. [Slept n]) h)"

definition now :: "'c child \<Rightarrow> 'c helper_run \<Rightarrow> nat" where
  "now ch h = ch_now ch (hr_child h)"

section \<open>Bounded waits\<close>

definition HELPER_BUDGET :: nat where "HELPER_BUDGET = 15000"
definition HELPER_STDOUT_MAX :: nat where "HELPER_STDOUT_MAX = 4096"

partial_function (option) kill_loop :: "'c child \<Rightarrow> nat \<Rightarrow> 'c helper_run \<Rightarrow> 'c helper_run option" where
  "kill_loop ch reap_deadline h = (case try_wait ch h of
      (StillRunning, h') \<Rightarrow>
        if reap_deadline \<le> now ch h' then Some h' else kill_loop ch reap_deadline (sleep_for ch 10 h')
    | (_, h') \<Rightarrow> Some h')"

definition kill_bounded :: "'c child \<Rightarrow> 'c helper_run \<Rightarrow> 'c helper_run option" where
  "kill_bounded ch h =
     (let h' = snd (observe (\<lambda>c. ((), ch_kill ch c)) (\<lambda>_. [Killed]) h) in kill_loop ch (now ch h' + 200) h')"

definition kill_and_fail :: "'c child \<Rightarrow> 'c helper_run \<Rightarrow> ('a option \<times> 'c helper_run) option" where
  "kill_and_fail ch h = map_option (Pair None) (kill_bounded ch h)"

partial_function (option) reap_by :: "'c child \<Rightarrow> nat \<Rightarrow> 'c helper_run \<Rightarrow> (ExitStatus option \<times> 'c helper_run) option" where
  "reap_by ch deadline h = (case try_wait ch h of
      (Ended st, h') \<Rightarrow> Some (Some st, h')
    | (StillRunning, h') \<Rightarrow>
        if deadline \<le> now ch h' then kill_and_fail ch h' else reap_by ch deadline (sleep_for ch 25 h')
    | (WaitFailed, h') \<Rightarrow> kill_and_fail ch h')"

text \<open>How the loop over the output ends: with the bytes and perhaps the status, or with the child killed.\<close>

partial_function (option) read_loop ::
    "'c child \<Rightarrow> nat \<Rightarrow> bytes \<Rightarrow> ExitStatus option \<Rightarrow> 'c helper_run \<Rightarrow>
       ((bytes \<times> ExitStatus option) option \<times> 'c helper_run) option" where
  "read_loop ch deadline out exited h = (case read_chunk ch h of
      (ReadBytes b, h') \<Rightarrow>
        if b = [] then Some (Some (out, exited), h')
        else if HELPER_STDOUT_MAX < length (out @ b) then kill_and_fail ch h'
        else read_loop ch deadline (out @ b) exited h'
    | (Interrupted, h') \<Rightarrow> read_loop ch deadline out exited h'
    | (WouldBlock, h') \<Rightarrow>
        if exited \<noteq> None then Some (Some (out, exited), h')
        else (case try_wait ch h' of
            (Ended st, h'') \<Rightarrow> read_loop ch deadline out (Some st) h''
          | (StillRunning, h'') \<Rightarrow>
              if deadline \<le> now ch h'' then kill_and_fail ch h''
              else read_loop ch deadline out exited (sleep_for ch 25 h'')
          | (WaitFailed, h'') \<Rightarrow> kill_and_fail ch h'')
    | (ReadFailed, h') \<Rightarrow> kill_and_fail ch h')"

definition read_stdout_bounded ::
    "'c child \<Rightarrow> nat \<Rightarrow> 'c helper_run \<Rightarrow> ((ExitStatus \<times> bytes) option \<times> 'c helper_run) option" where
  "read_stdout_bounded ch budget h = (case observe (ch_nonblocking ch) (\<lambda>_. []) h of
      (False, h') \<Rightarrow> kill_and_fail ch h'
    | (True, h') \<Rightarrow>
        let deadline = now ch h' + budget in
        (case read_loop ch deadline [] None h' of
           None \<Rightarrow> None
         | Some (None, h'') \<Rightarrow> Some (None, h'')
         | Some (Some (out, Some st), h'') \<Rightarrow> Some (Some (st, out), h'')
         | Some (Some (out, None), h'') \<Rightarrow>
             map_option (apfst (map_option (\<lambda>st. (st, out)))) (reap_by ch deadline h'')))"

section \<open>Why a hand-over failed\<close>

datatype HandOffFailure = Missing | Spawn | Input | Exit int | Signal int | TimedOutHelper | UnknownFailure

text \<open>The hand-over of a keyring secret to a child that was started and took the whole secret.\<close>

definition keyring_outcome :: "'c child \<Rightarrow> 'c helper_run \<Rightarrow> (HandOffFailure option \<times> 'c helper_run) option" where
  "keyring_outcome ch h = (let deadline = now ch h + HELPER_BUDGET in
     map_option (\<lambda>(st, h'). (case st of
         Some s \<Rightarrow>
           if exit_success s then None
           else (case (es_code s, es_signal s) of
               (Some code, _) \<Rightarrow> Some (Exit code)
             | (None, Some sig) \<Rightarrow> Some (Signal sig)
             | (None, None) \<Rightarrow> Some UnknownFailure)
       | None \<Rightarrow> Some (if deadline \<le> now ch h' then TimedOutHelper else UnknownFailure), h')) (reap_by ch deadline h))"

section \<open>The clock\<close>

text \<open>What is relied on: the clock does not go back, a sleep lasts at least as long as asked, a read fills
  at most the chunk, and the number of interruptions that are still to come, \<open>intr\<close>, is finite.\<close>

definition behaves :: "'c child \<Rightarrow> ('c \<Rightarrow> nat) \<Rightarrow> bool" where
  "behaves ch intr \<longleftrightarrow>
     (\<forall>c. ch_now ch c \<le> ch_now ch (snd (ch_read ch c)) \<and> ch_now ch c \<le> ch_now ch (snd (ch_try_wait ch c)) \<and>
        ch_now ch c \<le> ch_now ch (ch_kill ch c) \<and> ch_now ch c \<le> ch_now ch (snd (ch_nonblocking ch c))) \<and>
     (\<forall>n c. ch_now ch c + n \<le> ch_now ch (ch_sleep ch n c)) \<and>
     (\<forall>c. intr (snd (ch_read ch c)) \<le> intr c \<and> (fst (ch_read ch c) = Interrupted \<longrightarrow> intr (snd (ch_read ch c)) < intr c)) \<and>
     (\<forall>c. intr (snd (ch_try_wait ch c)) \<le> intr c) \<and> (\<forall>n c. intr (ch_sleep ch n c) \<le> intr c)"

definition slept :: "helper_event list \<Rightarrow> nat" where
  "slept es = sum_list (map (\<lambda>e. case e of Slept n \<Rightarrow> n | _ \<Rightarrow> 0) es)"

lemma slept_simps [simp]:
  "slept [] = 0" "slept (es @ es') = slept es + slept es'" "slept (Slept n # es) = n + slept es"
  "slept (Got b # es) = slept es" "slept (Waited x # es) = slept es" "slept (Killed # es) = slept es"
  by (simp_all add: slept_def)

text \<open>What may still be slept before a deadline, in steps of \<open>k\<close>; a run spends some of it.\<close>

definition slack :: "nat \<Rightarrow> nat \<Rightarrow> nat \<Rightarrow> nat" where
  "slack k deadline t = (if t < deadline then deadline - t + (k - 1) else 0)"

definition spends :: "'c child \<Rightarrow> nat \<Rightarrow> nat \<Rightarrow> 'c helper_run \<Rightarrow> 'c helper_run \<Rightarrow> helper_event list \<Rightarrow> bool" where
  "spends ch k deadline h h' es \<longleftrightarrow> hr_log h' = hr_log h @ es \<and> now ch h \<le> now ch h' \<and>
     slept es + slack k deadline (now ch h') \<le> slack k deadline (now ch h)"

lemma slack_antimono: "t \<le> t' \<Longrightarrow> slack k deadline t' \<le> slack k deadline t"
  by (simp add: slack_def) arith

lemma slack_le: "slack k (t + b) t \<le> b + (k - 1)"
  by (simp add: slack_def)

lemma spends_trans:
  "spends ch k dl h h' es \<Longrightarrow> spends ch k dl h' h'' es' \<Longrightarrow> spends ch k dl h h'' (es @ es')"
  by (auto simp: spends_def)

lemma spends_observe:
  assumes "\<And>c. ch_now ch c \<le> ch_now ch (snd (f c))" "\<And>x. slept (ev x) = 0" "observe f ev h = (x, h')"
  shows "spends ch k dl h h' (ev x)"
proof -
  from assms(3) have h': "x = fst (f (hr_child h))" "h' = \<lparr> hr_child = snd (f (hr_child h)), hr_log = hr_log h @ ev x \<rparr>"
    by (auto simp: observe_def split: prod.splits)
  then have "now ch h \<le> now ch h'" using assms(1) by (simp add: now_def)
  with h'(2) assms(2) slack_antimono show ?thesis by (simp add: spends_def)
qed

lemma spends_sleep:
  assumes "behaves ch intr" "0 < k" "now ch h < dl"
  shows "spends ch k dl h (sleep_for ch k h) [Slept k]"
proof -
  have t: "now ch h + k \<le> now ch (sleep_for ch k h)"
    using assms(1) by (simp add: behaves_def now_def sleep_for_def observe_def)
  then have "k + slack k dl (now ch (sleep_for ch k h)) \<le> slack k dl (now ch h)" 
    using assms(2,3) by (simp add: slack_def) arith
  with t show ?thesis by (simp add: spends_def) (simp add: sleep_for_def observe_def)
qed

lemma spends_wait: "behaves ch intr \<Longrightarrow> try_wait ch h = (x, h') \<Longrightarrow> spends ch k dl h h' [Waited x]"
  using spends_observe [of ch "ch_try_wait ch" "\<lambda>x. [Waited x]"] by (simp add: try_wait_def behaves_def)

lemma spends_read:
  "behaves ch intr \<Longrightarrow> read_chunk ch h = (x, h') \<Longrightarrow> spends ch k dl h h' (case x of ReadBytes b \<Rightarrow> [Got b] | _ \<Rightarrow> [])"
  using spends_observe [of ch "ch_read ch" "\<lambda>x. case x of ReadBytes b \<Rightarrow> [Got b] | _ \<Rightarrow> []"]
  by (simp add: read_chunk_def behaves_def split: ReadResult.split)

lemma sleep_now: "behaves ch intr \<Longrightarrow> now ch h + k \<le> now ch (sleep_for ch k h)"
  by (simp add: behaves_def now_def sleep_for_def observe_def)

lemma wait_now: "behaves ch intr \<Longrightarrow> try_wait ch h = (x, h') \<Longrightarrow> now ch h \<le> now ch h'"
  by (auto simp: behaves_def now_def try_wait_def observe_def split: prod.splits) (metis snd_conv)

text \<open>The output a log shows.\<close>

definition gots :: "helper_event list \<Rightarrow> bytes" where
  "gots es = concat (map (\<lambda>e. case e of Got b \<Rightarrow> b | _ \<Rightarrow> []) es)"

lemma gots_simps [simp]:
  "gots [] = []" "gots (es @ es') = gots es @ gots es'" "gots (Got b # es) = b @ gots es"
  "gots (Slept n # es) = gots es" "gots (Waited x # es) = gots es" "gots (Killed # es) = gots es"
  by (simp_all add: gots_def)

section \<open>Every wait ends\<close>

lemma kill_loop_ends:
  assumes "behaves ch intr"
  shows "\<exists>h' es. kill_loop ch dl h = Some h' \<and> spends ch 10 dl h h' es"
proof (induction "dl - now ch h" arbitrary: h rule: less_induct)
  case less
  obtain x h1 where w: "try_wait ch h = (x, h1)" by fastforce
  have s: "spends ch 10 dl h h1 [Waited x]" using spends_wait [OF assms w] .
  show ?case
  proof (cases "x = StillRunning \<and> now ch h1 < dl")
    case False
    then have "kill_loop ch dl h = Some h1" by (subst kill_loop.simps) (auto simp: w split: TryWait.split)
    with s show ?thesis by blast
  next
    case True
    let ?h = "sleep_for ch 10 h1"
    have "dl - now ch ?h < dl - now ch h"
      using True sleep_now [OF assms, of h1 10] wait_now [OF assms w] by linarith
    from less [OF this] obtain h' es where e: "kill_loop ch dl ?h = Some h'" "spends ch 10 dl ?h h' es" by blast
    have "kill_loop ch dl h = Some h'" using True e(1) by (subst kill_loop.simps) (simp add: w)
    with spends_trans [OF s spends_trans [OF spends_sleep [OF assms _ conjunct2 [OF True]] e(2)]] show ?thesis by auto
  qed
qed

lemma kill_bounded_ends:
  assumes "behaves ch intr"
  shows "\<exists>h' es. kill_bounded ch h = Some h' \<and> hr_log h' = hr_log h @ es \<and> Killed \<in> set es \<and> slept es \<le> 209 \<and>
    now ch h \<le> now ch h'"
proof -
  let ?h = "snd (observe (\<lambda>c. ((), ch_kill ch c)) (\<lambda>_. [Killed]) h)"
  have k: "hr_log ?h = hr_log h @ [Killed]" "now ch h \<le> now ch ?h"
    using assms by (simp_all add: observe_def now_def behaves_def)
  from kill_loop_ends [OF assms, of "now ch ?h + 200" ?h] obtain h' es where
    e: "kill_loop ch (now ch ?h + 200) ?h = Some h'" "spends ch 10 (now ch ?h + 200) ?h h' es" by blast
  have "slept es \<le> 209" using e(2) slack_le [of 10 "now ch ?h" 200] unfolding spends_def by linarith
  with e k show ?thesis by (auto simp: kill_bounded_def Let_def spends_def intro!: exI [of _ "Killed # es"])
qed

lemma reap_by_ends:
  assumes "behaves ch intr"
  shows "\<exists>res h' es. reap_by ch dl h = Some (res, h') \<and> hr_log h' = hr_log h @ es \<and> slept es \<le> slack 25 dl (now ch h) + 209 \<and>
    (case res of Some st \<Rightarrow> Waited (Ended st) \<in> set es \<and> gots es = [] | None \<Rightarrow> Killed \<in> set es)"
proof (induction "dl - now ch h" arbitrary: h rule: less_induct)
  case less
  obtain x h1 where w: "try_wait ch h = (x, h1)" by fastforce
  have s: "spends ch 25 dl h h1 [Waited x]" using spends_wait [OF assms w] .
  consider (ended) st where "x = Ended st" | (killed) "x = WaitFailed \<or> x = StillRunning \<and> dl \<le> now ch h1"
    | (again) "x = StillRunning" "now ch h1 < dl" by (cases x) (auto simp: not_le [symmetric])
  then show ?case
  proof cases
    case ended
    with s show ?thesis by (subst reap_by.simps) (auto simp: w spends_def)
  next
    case killed
    from kill_bounded_ends [OF assms, of h1] obtain h' es where "kill_bounded ch h1 = Some h'" "hr_log h' = hr_log h1 @ es"
      "Killed \<in> set es" "slept es \<le> 209" by blast
    with killed s show ?thesis
      by (subst reap_by.simps) (auto simp: w kill_and_fail_def spends_def intro!: exI [of _ "Waited _ # es"])
  next
    case again
    let ?h = "sleep_for ch 25 h1"
    have "dl - now ch ?h < dl - now ch h"
      using again(2) sleep_now [OF assms, of h1 25] wait_now [OF assms w] by linarith
    from less [OF this] obtain res h' es where e: "reap_by ch dl ?h = Some (res, h')" "hr_log h' = hr_log ?h @ es"
      "slept es \<le> slack 25 dl (now ch ?h) + 209" "case res of Some st \<Rightarrow> Waited (Ended st) \<in> set es \<and> gots es = [] | None \<Rightarrow> Killed \<in> set es" by blast
    have r: "reap_by ch dl h = Some (res, h')" using again e(1) by (subst reap_by.simps) (simp add: w)
    have "spends ch 25 dl h ?h [Waited x, Slept 25]"
      using spends_trans [OF s spends_sleep [OF assms _ again(2)]] by simp
    with e r show ?thesis
      by (intro exI [of _ res] exI [of _ h'] exI [of _ "[Waited x, Slept 25] @ es"]) (auto simp: spends_def split: option.splits)
  qed
qed

definition read_result ::
    "'c child \<Rightarrow> nat \<Rightarrow> bytes \<Rightarrow> ExitStatus option \<Rightarrow> 'c helper_run \<Rightarrow> (bytes \<times> ExitStatus option) option \<Rightarrow> 'c helper_run \<Rightarrow>
       helper_event list \<Rightarrow> bool" where
  "read_result ch dl out exited h res h' es \<longleftrightarrow> hr_log h' = hr_log h @ es \<and> (case res of
      Some (out', ended) \<Rightarrow> spends ch 25 dl h h' es \<and> out' = out @ gots es \<and> length out' \<le> HELPER_STDOUT_MAX \<and>
        (\<forall>st. ended = Some st \<longrightarrow> exited = Some st \<or> Waited (Ended st) \<in> set es)
    | None \<Rightarrow> Killed \<in> set es \<and> slept es \<le> slack 25 dl (now ch h) + 209)"

lemma read_result_step:
  assumes "spends ch 25 dl h h1 es0" "out1 = out @ gots es0" "exited1 = exited \<or> (\<exists>st. exited1 = Some st \<and> Waited (Ended st) \<in> set es0)"
    "read_result ch dl out1 exited1 h1 res h' es"
  shows "read_result ch dl out exited h res h' (es0 @ es)"
  using assms spends_trans [OF assms(1), of h' es]
  by (cases res) (auto simp: read_result_def spends_def split: prod.splits)

lemma read_killed:
  assumes "behaves ch intr" "spends ch 25 dl h h1 es0"
  shows "\<exists>h' es. kill_and_fail ch h1 = Some (None :: (bytes \<times> ExitStatus option) option, h') \<and>
    read_result ch dl out exited h None h' es"
proof -
  from kill_bounded_ends [OF assms(1), of h1] obtain h' es where
    "kill_bounded ch h1 = Some h'" "hr_log h' = hr_log h1 @ es" "Killed \<in> set es" "slept es \<le> 209" by blast
  with assms(2) show ?thesis
    by (intro exI [of _ h'] exI [of _ "es0 @ es"]) (auto simp: kill_and_fail_def read_result_def spends_def)
qed

definition effort :: "'c child \<Rightarrow> ('c \<Rightarrow> nat) \<Rightarrow> nat \<Rightarrow> bytes \<Rightarrow> ExitStatus option \<Rightarrow> 'c helper_run \<Rightarrow> nat" where
  "effort ch intr dl out exited h =
     (Suc HELPER_STDOUT_MAX - length out) + (if exited = None then 1 else 0) + intr (hr_child h) + (dl - now ch h)"

lemma observe_effort:
  assumes "behaves ch intr"
  shows "read_chunk ch h = (x, h') \<Longrightarrow> now ch h \<le> now ch h' \<and> intr (hr_child h') \<le> intr (hr_child h) \<and>
      (x = Interrupted \<longrightarrow> intr (hr_child h') < intr (hr_child h))"
    and "try_wait ch h = (y, h') \<Longrightarrow> now ch h \<le> now ch h' \<and> intr (hr_child h') \<le> intr (hr_child h)"
    and "intr (hr_child (sleep_for ch n h)) \<le> intr (hr_child h)"
proof -
  show "read_chunk ch h = (x, h') \<Longrightarrow> now ch h \<le> now ch h' \<and> intr (hr_child h') \<le> intr (hr_child h) \<and>
      (x = Interrupted \<longrightarrow> intr (hr_child h') < intr (hr_child h))"
    using assms by (auto simp: behaves_def read_chunk_def observe_def now_def split: prod.splits) (metis fst_conv snd_conv)+
  show "try_wait ch h = (y, h') \<Longrightarrow> now ch h \<le> now ch h' \<and> intr (hr_child h') \<le> intr (hr_child h)"
    using assms by (auto simp: behaves_def try_wait_def observe_def now_def split: prod.splits) (metis snd_conv)+
  show "intr (hr_child (sleep_for ch n h)) \<le> intr (hr_child h)"
    using assms by (simp add: behaves_def sleep_for_def observe_def)
qed

lemma blocked_ends:
  assumes "behaves ch intr" "spends ch 25 dl h h1 []" "exited = None" "effort ch intr dl out exited h1 \<le> effort ch intr dl out exited h"
    and IH: "\<And>exited' h2. effort ch intr dl out exited' h2 < effort ch intr dl out exited h \<Longrightarrow>
      \<exists>res h' es. read_loop ch dl out exited' h2 = Some (res, h') \<and> read_result ch dl out exited' h2 res h' es"
  shows "\<exists>res h' es. (case try_wait ch h1 of
            (Ended st, h'') \<Rightarrow> read_loop ch dl out (Some st) h''
          | (StillRunning, h'') \<Rightarrow>
              if dl \<le> now ch h'' then kill_and_fail ch h''
              else read_loop ch dl out exited (sleep_for ch 25 h'')
          | (WaitFailed, h'') \<Rightarrow> kill_and_fail ch h'') = Some (res, h') \<and> read_result ch dl out exited h res h' es"
proof -
  obtain x h2 where w: "try_wait ch h1 = (x, h2)" by fastforce
  have s: "spends ch 25 dl h h2 [Waited x]" using spends_trans [OF assms(2) spends_wait [OF assms(1) w]] by simp
  note m = observe_effort(2) [OF assms(1) w]
  consider (ended) st where "x = Ended st" | (killed) "x = WaitFailed \<or> x = StillRunning \<and> dl \<le> now ch h2"
    | (again) "x = StillRunning" "now ch h2 < dl" by (cases x) (auto simp: not_le [symmetric])
  then show ?thesis
  proof cases
    case ended
    have "effort ch intr dl out (Some st) h2 < effort ch intr dl out exited h"
      using assms(3,4) m by (auto simp: effort_def)
    from IH [OF this] obtain res h' es where e: "read_loop ch dl out (Some st) h2 = Some (res, h')"
      "read_result ch dl out (Some st) h2 res h' es" by blast
    from read_result_step [OF s _ _ e(2)] ended have "read_result ch dl out exited h res h' ([Waited x] @ es)" by simp
    with e(1) w ended show ?thesis by auto
  next
    case killed
    from read_killed [OF assms(1) s] obtain h' es where "kill_and_fail ch h2 = Some (None :: (bytes \<times> ExitStatus option) option, h')"
      "read_result ch dl out exited h None h' es" by blast
    with w killed show ?thesis by auto
  next
    case again
    let ?h = "sleep_for ch 25 h2"
    have "dl - now ch ?h < dl - now ch h2" using again(2) sleep_now [OF assms(1), of h2 25] by linarith
    then have "effort ch intr dl out exited ?h < effort ch intr dl out exited h"
      using assms(4) m observe_effort(3) [OF assms(1), of 25 h2] unfolding effort_def by linarith
    from IH [OF this] obtain res h' es where e: "read_loop ch dl out exited ?h = Some (res, h')"
      "read_result ch dl out exited ?h res h' es" by blast
    from read_result_step [OF spends_trans [OF s spends_sleep [OF assms(1) _ again(2)]] _ _ e(2)]
    have "read_result ch dl out exited h res h' (([Waited x] @ [Slept 25]) @ es)" by simp
    with e(1) w again show ?thesis by auto
  qed
qed

lemma read_loop_ends:
  assumes "behaves ch intr" "length out \<le> HELPER_STDOUT_MAX"
  shows "\<exists>res h' es. read_loop ch dl out exited h = Some (res, h') \<and> read_result ch dl out exited h res h' es"
  using assms(2)
proof (induction "effort ch intr dl out exited h" arbitrary: out exited h rule: less_induct)
  case less
  obtain x h1 where r: "read_chunk ch h = (x, h1)" by fastforce
  note s = spends_read [OF assms(1) r, where k = 25 and dl = dl] and m = observe_effort(1) [OF assms(1) r]
  have killed: ?case if "read_loop ch dl out exited h = kill_and_fail ch h1"
    unfolding that using read_killed [OF assms(1) s] by blast
  have stopped: ?case if "read_loop ch dl out exited h = Some (Some (out, exited), h1)" "x = WouldBlock \<or> x = ReadBytes []"
    using that s less.prems by (auto simp: read_result_def spends_def)
  have resumed: ?case if l: "read_loop ch dl out exited h = read_loop ch dl out1 exited h1" and "x = Interrupted \<and> out1 = out \<or>
      (\<exists>b. x = ReadBytes b \<and> b \<noteq> [] \<and> out1 = out @ b \<and> length out1 \<le> HELPER_STDOUT_MAX)" for out1
  proof -
    have "effort ch intr dl out1 exited h1 < effort ch intr dl out exited h"
      using that(2) m less.prems by (auto simp: effort_def) (simp_all add: length_greater_0_conv [symmetric] del: length_greater_0_conv)
    from less.hyps [OF this] that(2) less.prems obtain res h' es where
      e: "read_loop ch dl out1 exited h1 = Some (res, h')" "read_result ch dl out1 exited h1 res h' es" by blast
    from read_result_step [OF s _ _ e(2)] that(2) show ?thesis unfolding l e(1) by fastforce
  qed
  show ?case
  proof (cases x)
    case (ReadBytes b)
    consider "b = []" | "b \<noteq> []" "HELPER_STDOUT_MAX < length (out @ b)" | "b \<noteq> []" "length (out @ b) \<le> HELPER_STDOUT_MAX" by linarith
    then show ?thesis
    proof cases
      case 1
      with ReadBytes r show ?thesis by (intro stopped) (simp_all add: read_loop.simps [of ch dl out exited h])
    next
      case 2
      with ReadBytes r show ?thesis by (intro killed) (simp add: read_loop.simps [of ch dl out exited h])
    next
      case 3
      with ReadBytes r show ?thesis by (intro resumed [of "out @ b"]) (simp_all add: read_loop.simps [of ch dl out exited h])
    qed
  next
    case WouldBlock
    show ?thesis
    proof (cases exited)
      case (Some st)
      with WouldBlock r show ?thesis by (intro stopped) (simp_all add: read_loop.simps [of ch dl out "Some st" h])
    next
      case None
      have b: "spends ch 25 dl h h1 []" using s WouldBlock by simp
      have "effort ch intr dl out exited h1 \<le> effort ch intr dl out exited h"
        using m unfolding effort_def by linarith
      from blocked_ends [OF assms(1) b None this less.hyps] less.prems obtain res h' es where
        "(case try_wait ch h1 of
            (Ended st, h'') \<Rightarrow> read_loop ch dl out (Some st) h''
          | (StillRunning, h'') \<Rightarrow>
              if dl \<le> now ch h'' then kill_and_fail ch h''
              else read_loop ch dl out exited (sleep_for ch 25 h'')
          | (WaitFailed, h'') \<Rightarrow> kill_and_fail ch h'') = Some (res, h')" "read_result ch dl out exited h res h' es" by blast
      with WouldBlock r None show ?thesis by (subst read_loop.simps) auto
    qed
  next
    case Interrupted
    with r show ?thesis by (intro resumed [of out]) (simp_all add: read_loop.simps [of ch dl out exited h])
  next
    case ReadFailed
    with r show ?thesis by (intro killed) (simp add: read_loop.simps [of ch dl out exited h])
  qed
qed

text \<open>C28: A login is never held by a helper: whatever the child prints, closes or refuses, the bounded read
  comes back, having slept at most the budget and 233 milliseconds more. It comes back with a status only
  after the child was seen to end, with exactly the bytes it had printed and no more than the cap; in
  every other case the child has been killed.\<close>

theorem bounded_read_ends:
  assumes "behaves ch intr"
  shows "\<exists>res h' es. read_stdout_bounded ch budget h = Some (res, h') \<and> hr_log h' = hr_log h @ es \<and>
    slept es \<le> budget + 233 \<and>
    (case res of
       Some (st, out) \<Rightarrow> Waited (Ended st) \<in> set es \<and> out = gots es \<and> length out \<le> HELPER_STDOUT_MAX
     | None \<Rightarrow> Killed \<in> set es)"
proof -
  obtain ok h1 where o: "observe (ch_nonblocking ch) (\<lambda>_. []) h = (ok, h1)" by fastforce
  then have l: "hr_log h1 = hr_log h" by (auto simp: observe_def split: prod.splits)
  show ?thesis
  proof (cases ok)
    case False
    from kill_bounded_ends [OF assms, of h1] obtain h' es where "kill_bounded ch h1 = Some h'" "hr_log h' = hr_log h1 @ es"
      "Killed \<in> set es" "slept es \<le> 209" by blast
    with False o l show ?thesis
      by (intro exI [of _ None] exI [of _ h'] exI [of _ es]) (simp add: read_stdout_bounded_def kill_and_fail_def)
  next
    case True
    let ?dl = "now ch h1 + budget"
    have sl: "slack 25 ?dl (now ch h1) \<le> budget + 24" using slack_le [of 25] by simp
    from read_loop_ends [OF assms, of "[]" ?dl None h1] obtain res h2 es where
      e: "read_loop ch ?dl [] None h1 = Some (res, h2)" "read_result ch ?dl [] None h1 res h2 es" by auto
    show ?thesis
    proof (cases res)
      case None
      with True o e l sl show ?thesis
        by (intro exI [of _ None] exI [of _ h2] exI [of _ es]) (simp add: read_stdout_bounded_def Let_def read_result_def)
    next
      case (Some p)
      then obtain out ended where p: "res = Some (out, ended)" by (cases p) auto
      with e(2) have s: "spends ch 25 ?dl h1 h2 es" "out = gots es" "length out \<le> HELPER_STDOUT_MAX"
        "\<And>st. ended = Some st \<Longrightarrow> Waited (Ended st) \<in> set es" by (auto simp: read_result_def)
      show ?thesis
      proof (cases ended)
        case (Some st)
        with True o e p s sl l show ?thesis
          by (intro exI [of _ "Some (st, out)"] exI [of _ h2] exI [of _ es])
            (simp add: read_stdout_bounded_def Let_def spends_def)
      next
        case None
        from reap_by_ends [OF assms, of ?dl h2] obtain rs h3 es' where r: "reap_by ch ?dl h2 = Some (rs, h3)"
          "hr_log h3 = hr_log h2 @ es'" "slept es' \<le> slack 25 ?dl (now ch h2) + 209"
          "case rs of Some st \<Rightarrow> Waited (Ended st) \<in> set es' \<and> gots es' = [] | None \<Rightarrow> Killed \<in> set es'" by blast
        with True o e p s sl l None show ?thesis
          by (intro exI [of _ "map_option (\<lambda>st. (st, out)) rs"] exI [of _ h3] exI [of _ "es @ es'"])
            (auto simp: read_stdout_bounded_def Let_def spends_def split: option.splits)
      qed
    qed
  qed
qed

section \<open>An example\<close>

text \<open>A child that prints one line after 30 milliseconds and ends after 60; the state is the clock and what was
  printed already.\<close>

definition example_child :: "(nat \<times> bool) child" where
  "example_child = \<lparr>
     ch_nonblocking = (\<lambda>c. (True, c)),
     ch_read = (\<lambda>(t, done). if t < 30 then (WouldBlock, (t, done)) else if done then (WouldBlock, (t, done))
       else (ReadBytes [47, 114], (t, True))),
     ch_try_wait = (\<lambda>(t, done). (if t < 60 then StillRunning else Ended \<lparr> es_code = Some 0, es_signal = None \<rparr>, (t, done))),
     ch_kill = (\<lambda>c. c),
     ch_sleep = (\<lambda>n (t, done). (t + n, done)),
     ch_now = fst \<rparr>"

lemma example_child_behaves: "behaves example_child (\<lambda>_. 0)"
  by (auto simp: behaves_def example_child_def)

theorem bounded_read_ends_witness:
  "\<exists>res h' es. read_stdout_bounded example_child HELPER_BUDGET \<lparr> hr_child = (0, False), hr_log = [] \<rparr> = Some (res, h') \<and>
     hr_log h' = es \<and> slept es \<le> 15233"
  using bounded_read_ends [OF example_child_behaves, of HELPER_BUDGET "\<lparr> hr_child = (0, False), hr_log = [] \<rparr>"]
  by (auto simp: HELPER_BUDGET_def)

text \<open>The helper's whole reply, when it behaves.\<close>

lemma example_child_reply:
  "map_option fst (read_stdout_bounded example_child HELPER_BUDGET \<lparr> hr_child = (0, False), hr_log = [] \<rparr>) =
     Some (Some (\<lparr> es_code = Some 0, es_signal = None \<rparr>, [47, 114]))"
  by (simp add: read_stdout_bounded_def read_loop.simps read_chunk_def try_wait_def sleep_for_def observe_def now_def example_child_def
      HELPER_BUDGET_def HELPER_STDOUT_MAX_def)

end
