(* ===== verification/Pam_Module.thy ===== *)
theory Pam_Module
  imports Pam_Session Pam_Helpers Request_Types Fallible
begin

text \<open>
  The PAM module (\<^verbatim>\<open>irlume-pam/src/lib.rs\<close>): what each line of a PAM stack asks, sends to the daemon and
  answers. The PAM library, the daemon behind its socket and the helper processes are operations on
  an abstract state, so that they may answer anything; every call that matters for the security of
  a login is also written to a log, on which the properties are stated. An early return of the
  code is the error of an operation.
\<close>

section \<open>The world of a module\<close>

datatype PamCode = SUCCESS | IGNORE | ABORT

datatype KeyringSecretKind = LoginPassword | KdeWalletKey | GnomeKeyringToken

text \<open>The replies the module tells apart. \<open>FaceSensorReply\<close> carries whether the reported policy
  resolves to \<^verbatim>\<open>IrOnlyExperimental\<close>.\<close>

datatype Reply =
    AuthReply bool bool bool string
  | PasswordUnsealed bytes KeyringSecretKind
  | UnsealUnavailable
  | HealthReply string "bool option"
  | FaceSensorReply bool
  | PasswordResealed
  | OtherReply

text \<open>How far a run of the wallet helper came: it was found, it was started, it took the key, and then
  what \<open>read_stdout_bounded\<close> gave. For the keyring helper, why the hand-over failed.\<close>

datatype HelperRun = HelperMissing | HelperNotStarted | HelperInputClosed | HelperRead "(ExitStatus \<times> bytes) option"

datatype WalletHandoff = WalletHandoffStarted | WalletNotReady | WalletHandoffFailed

record 'p pam_lib =
  pl_get_authtok :: "string option \<Rightarrow> 'p \<Rightarrow> (unit + bytes option) \<times> 'p"
  pl_get_cached_authtok :: "'p \<Rightarrow> (unit + bytes option) \<times> 'p"
  pl_clear_authtok :: "'p \<Rightarrow> bool \<times> 'p"
  pl_set_authtok :: "bytes \<Rightarrow> 'p \<Rightarrow> bool \<times> 'p"
  pl_info :: "string \<Rightarrow> 'p \<Rightarrow> bool \<times> 'p"
  pl_send_secret :: "string \<Rightarrow> bytes \<Rightarrow> 'p \<Rightarrow> bool \<times> 'p"
  pl_get_secret :: "string \<Rightarrow> 'p \<Rightarrow> (unit + bytes) \<times> 'p"
  pl_login_env :: "'p \<Rightarrow> bool \<times> 'p"
  pl_request :: "Request \<Rightarrow> 'p \<Rightarrow> Reply option \<times> 'p"
  pl_putenv :: "string \<Rightarrow> 'p \<Rightarrow> bool \<times> 'p"
  pl_syslog :: "string \<Rightarrow> 'p \<Rightarrow> unit \<times> 'p"
  pl_wallet_helper :: "string \<Rightarrow> bytes \<Rightarrow> 'p \<Rightarrow> HelperRun \<times> 'p"
  pl_keyring_helper :: "string \<Rightarrow> bytes \<Rightarrow> 'p \<Rightarrow> HandOffFailure option \<times> 'p"
  pl_wallet_salt :: "'p \<Rightarrow> (unit + payload option) \<times> 'p"

datatype pam_event =
    Asked "string option" "unit + bytes option"
  | Peeked "unit + bytes option"
  | Cleared bool
  | SetAuthtok bytes
  | Requested Request "Reply option"
  | Stashed string bytes bool
  | WalletKey bytes
  | KeyringSecret bytes

record 'p pam_run =
  pr_state :: 'p
  pr_log :: "pam_event list"

type_synonym ('p, 'a) pam = "('p pam_run, PamCode, 'a) op"

text \<open>One call of the library, with the event it leaves.\<close>

definition call :: "('p \<Rightarrow> 'a \<times> 'p) \<Rightarrow> ('a \<Rightarrow> pam_event list) \<Rightarrow> ('p, 'a) pam" where
  "call f ev r = (case f (pr_state r) of (x, s) \<Rightarrow> (Inr x, \<lparr> pr_state = s, pr_log = pr_log r @ ev x \<rparr>))"

definition get_authtok :: "'p pam_lib \<Rightarrow> string option \<Rightarrow> ('p, unit + bytes option) pam" where
  "get_authtok L prompt = call (pl_get_authtok L prompt) (\<lambda>x. [Asked prompt x])"

definition get_cached_authtok :: "'p pam_lib \<Rightarrow> ('p, unit + bytes option) pam" where
  "get_cached_authtok L = call (pl_get_cached_authtok L) (\<lambda>x. [Peeked x])"

definition clear_authtok :: "'p pam_lib \<Rightarrow> ('p, bool) pam" where
  "clear_authtok L = call (pl_clear_authtok L) (\<lambda>ok. [Cleared ok])"

definition set_authtok :: "'p pam_lib \<Rightarrow> bytes \<Rightarrow> ('p, bool) pam" where
  "set_authtok L t = call (pl_set_authtok L t) (\<lambda>_. [SetAuthtok t])"

definition info :: "'p pam_lib \<Rightarrow> string \<Rightarrow> ('p, bool) pam" where
  "info L t = call (pl_info L t) (\<lambda>_. [])"

definition send_secret :: "'p pam_lib \<Rightarrow> string \<Rightarrow> bytes \<Rightarrow> ('p, bool) pam" where
  "send_secret L key b = call (pl_send_secret L key b) (\<lambda>ok. [Stashed key b ok])"

definition get_secret :: "'p pam_lib \<Rightarrow> string \<Rightarrow> ('p, unit + bytes) pam" where
  "get_secret L key = call (pl_get_secret L key) (\<lambda>_. [])"

definition request :: "'p pam_lib \<Rightarrow> Request \<Rightarrow> ('p, Reply option) pam" where
  "request L q = call (pl_request L q) (\<lambda>a. [Requested q a])"

definition kwallet_login_set :: "'p pam_lib \<Rightarrow> ('p, bool) pam" where
  "kwallet_login_set L = call (pl_login_env L) (\<lambda>_. [])"

section \<open>Intent\<close>

datatype IntentInput = InputConfirmed | InputEmpty | InputPassword
datatype IntentConfirmation = Confirmed | Fallback | Abort

definition FACE_INTENT_INFO :: string where "FACE_INTENT_INFO = ''Type yes to use face authentication''"
definition COSMIC_FACE_PROMPT :: string where "COSMIC_FACE_PROMPT = ''Password or yes for face: ''"

definition classify_intent_input :: "bytes option \<Rightarrow> IntentInput" where
  "classify_intent_input response = (case response of
      None \<Rightarrow> InputEmpty
    | Some b \<Rightarrow>
        if b = [] then InputEmpty
        else if length b \<le> 16 \<and> list_all (\<lambda>c. unat c < 128) b \<and>
          ascii_lower (trim (map unat b)) = codes ''yes'' then InputConfirmed
        else InputPassword)"

definition resolve_intent_input :: "'p pam_lib \<Rightarrow> IntentInput \<Rightarrow> ('p, IntentConfirmation) pam" where
  "resolve_intent_input L inp = (case inp of
      InputPassword \<Rightarrow> io_return Fallback
    | InputEmpty \<Rightarrow> io_bind (clear_authtok L) (\<lambda>ok. io_return (if ok then Fallback else Abort))
    | InputConfirmed \<Rightarrow> io_bind (clear_authtok L) (\<lambda>ok. io_return (if ok then Confirmed else Abort)))"

definition confirm_face_intent :: "'p pam_lib \<Rightarrow> ServiceKind \<Rightarrow> ('p, IntentConfirmation) pam" where
  "confirm_face_intent L service =
     (if \<not> requires_face_intent_confirmation service then io_return Fallback
      else io_bind (info L FACE_INTENT_INFO) (\<lambda>shown.
        if \<not> shown then io_return Fallback
        else io_bind (get_authtok L None) (\<lambda>token. case token of
            Inr (Some t) \<Rightarrow> resolve_intent_input L (classify_intent_input (Some t))
          | _ \<Rightarrow> io_return Fallback)))"

definition ask_cosmic_face :: "'p pam_lib \<Rightarrow> ('p, IntentConfirmation) pam" where
  "ask_cosmic_face L = io_bind (get_authtok L (Some COSMIC_FACE_PROMPT)) (\<lambda>token. case token of
      Inr (Some t) \<Rightarrow> resolve_intent_input L (classify_intent_input (Some t))
    | _ \<Rightarrow> io_return Fallback)"

definition confirm_cosmic_face :: "'p pam_lib \<Rightarrow> ('p, IntentConfirmation) pam" where
  "confirm_cosmic_face L = io_bind (get_cached_authtok L) (\<lambda>cached. case cached of
      Inl _ \<Rightarrow> io_return Fallback
    | Inr None \<Rightarrow> ask_cosmic_face L
    | Inr (Some t) \<Rightarrow>
        if t \<noteq> [] then io_return Fallback
        else io_bind (clear_authtok L) (\<lambda>ok. if ok then ask_cosmic_face L else io_return Abort))"

definition privileged_face_is_rgb_only :: "'p pam_lib \<Rightarrow> ('p, bool) pam" where
  "privileged_face_is_rgb_only L = io_bind (request L Health) (\<lambda>health. case health of
      Some (HealthReply tier split_trust) \<Rightarrow>
        if tier = ''convenience'' \<and> split_trust \<noteq> Some True
        then io_bind (request L (FaceSensorStatus None)) (\<lambda>sensor. case sensor of
            Some (FaceSensorReply ir_only) \<Rightarrow> io_return (\<not> ir_only)
          | _ \<Rightarrow> io_return True)
        else io_return False
    | _ \<Rightarrow> io_return False)"

text \<open>A choice that is not a confirmation ends the transaction.\<close>

definition require_confirmed :: "IntentConfirmation \<Rightarrow> ('p, unit) pam" where
  "require_confirmed c = (case c of
      Confirmed \<Rightarrow> io_return ()
    | Fallback \<Rightarrow> io_lift (Inl IGNORE)
    | Abort \<Rightarrow> io_lift (Inl ABORT))"

section \<open>Attempts\<close>

definition situation_prompt :: "string \<Rightarrow> string option" where
  "situation_prompt s =
     (if s = ''timed out'' then Some ''authentication timed out; use your password''
      else if s = ''unavailable'' then Some ''face authentication unavailable; use your password''
      else if s = ''no face'' then Some ''look at the camera''
      else if s = ''too far'' then Some ''come closer''
      else if s = ''off-center'' then Some ''center your face in the frame''
      else if s = ''looking away'' then Some ''look directly at the camera''
      else if s = ''too dark'' then Some ''it is too dark to see your face; add light''
      else if s = ''IR source'' then Some ''an IR-bright source is overwhelming the camera; reposition or use your password''
      else None)"

text \<open>The service as \<^verbatim>\<open>to_str\<close> gives it, and as \<^verbatim>\<open>to_string_lossy\<close> does.\<close>

definition service_text :: "pam_items \<Rightarrow> string option" where
  "service_text it = Option.bind (pi_service it) (\<lambda>s. if is_text s then Some s else None)"

definition service_lossy :: "pam_items \<Rightarrow> string option" where
  "service_lossy it = map_option lossy (pi_service it)"

definition is_polkit_consent :: "pam_items \<Rightarrow> bool" where
  "is_polkit_consent it = (case Option.bind (service_lossy it) classify_service of
      Some k \<Rightarrow> wants_consent_instruction k | None \<Rightarrow> False)"

definition try_verify :: "'p pam_lib \<Rightarrow> pam_items \<Rightarrow> string \<Rightarrow> IntentAttestation option \<Rightarrow> ('p, PamCode) pam" where
  "try_verify L it user ic = io_bind (request L (Authenticate False user (service_lossy it) ic)) (\<lambda>reply. case reply of
      Some (AuthReply granted live declined situation) \<Rightarrow>
        if granted then io_return (if live then SUCCESS else IGNORE)
        else if declined \<and> is_polkit_consent it then io_return ABORT
        else (case situation_prompt situation of
            Some action \<Rightarrow> io_bind (info L (''irlume: '' @ action)) (\<lambda>_. io_return IGNORE)
          | None \<Rightarrow> io_return IGNORE)
    | _ \<Rightarrow> io_return IGNORE)"

datatype Released = AuthtokSet | WalletStarted | TokenStashed | ReleaseFailed
datatype UnsealAttempt = Delivered Released | Unavailable | UnsealFailed

definition code_for :: "Released \<Rightarrow> PamCode" where
  "code_for d = (case d of ReleaseFailed \<Rightarrow> IGNORE | _ \<Rightarrow> SUCCESS)"

definition GKR_TOKEN_STASH_KEY :: string where "GKR_TOKEN_STASH_KEY = ''pam_irlume_gkr_token''"
definition RESEAL_STASH_KEY :: string where "RESEAL_STASH_KEY = ''pam_irlume_reseal_authtok''"

definition LOGIN_ENV :: string where "LOGIN_ENV = ''PAM_KWALLET5_LOGIN''"
definition SESSION_NOT_READY_EXIT :: int where "SESSION_NOT_READY_EXIT = 4"

definition wallet_reply :: "'p pam_lib \<Rightarrow> HelperRun \<Rightarrow> ('p, WalletHandoff) pam" where
  "wallet_reply L run = (case run of
      HelperRead (Some (status, stdout)) \<Rightarrow>
        if \<not> exit_success status then
          io_return (if es_code status = Some SESSION_NOT_READY_EXIT then WalletNotReady else WalletHandoffFailed)
        else let sock = trim_text (text_of (utf8_repair (map unat stdout))) in
          if sock = [] then io_return WalletHandoffFailed
          else io_bind (call (pl_putenv L (LOGIN_ENV @ ''='' @ sock)) (\<lambda>_. [])) (\<lambda>ok.
            io_return (if ok then WalletHandoffStarted else WalletHandoffFailed))
    | _ \<Rightarrow> io_return WalletHandoffFailed)"

definition hand_key_to_wallet_daemon :: "'p pam_lib \<Rightarrow> string \<Rightarrow> bytes \<Rightarrow> ('p, WalletHandoff) pam" where
  "hand_key_to_wallet_daemon L user key = io_bind (kwallet_login_set L) (\<lambda>running.
     if running then io_return WalletHandoffFailed
     else io_bind (call (pl_wallet_helper L user key) (\<lambda>_. [WalletKey key])) (wallet_reply L))"

definition dec_int :: "int \<Rightarrow> string" where
  "dec_int i = (if i < 0 then ''-'' @ dec (nat (- i)) else dec (nat i))"

definition failure_message :: "HandOffFailure \<Rightarrow> string" where
  "failure_message f = ''GNOME keyring token hand-off failed: irlume-gkr-unlock '' @ (case f of
      Missing \<Rightarrow> ''not found''
    | Spawn \<Rightarrow> ''could not be started''
    | Input \<Rightarrow> ''closed its input early''
    | Exit code \<Rightarrow> ''exited with code '' @ dec_int code
    | Signal sig \<Rightarrow> ''was ended by signal '' @ dec_int sig
    | TimedOutHelper \<Rightarrow> ''was still running after '' @ dec (HELPER_BUDGET div 1000) @ '' s and was killed''
    | UnknownFailure \<Rightarrow> ''could not be waited for'')"

definition hand_token_to_keyring_daemon :: "'p pam_lib \<Rightarrow> string \<Rightarrow> bytes \<Rightarrow> ('p, bool) pam" where
  "hand_token_to_keyring_daemon L user b = io_bind (call (pl_keyring_helper L user b) (\<lambda>_. [KeyringSecret b])) (\<lambda>failure.
     case failure of
       None \<Rightarrow> io_return True
     | Some f \<Rightarrow> io_bind (call (pl_syslog L (failure_message f)) (\<lambda>_. [])) (\<lambda>_. io_return False))"

definition release_secret :: "'p pam_lib \<Rightarrow> string \<Rightarrow> bytes \<Rightarrow> KeyringSecretKind \<Rightarrow> ('p, Released) pam" where
  "release_secret L user secret kind = (case kind of
      LoginPassword \<Rightarrow>
        if 0 \<in> set secret then io_return ReleaseFailed
        else io_bind (set_authtok L secret) (\<lambda>ok. io_return (if ok then AuthtokSet else ReleaseFailed))
    | KdeWalletKey \<Rightarrow> io_bind (hand_key_to_wallet_daemon L user secret) (\<lambda>h.
        io_return (case h of WalletHandoffStarted \<Rightarrow> WalletStarted | _ \<Rightarrow> ReleaseFailed))
    | GnomeKeyringToken \<Rightarrow> io_bind (send_secret L GKR_TOKEN_STASH_KEY secret) (\<lambda>ok.
        io_return (if ok then TokenStashed else ReleaseFailed)))"

definition try_unseal :: "'p pam_lib \<Rightarrow> pam_items \<Rightarrow> string \<Rightarrow> ('p, UnsealAttempt) pam" where
  "try_unseal L it user = io_bind (request L (UnsealPassword user (service_text it))) (\<lambda>reply. case reply of
      Some (PasswordUnsealed secret kind) \<Rightarrow> io_bind (release_secret L user secret kind) (\<lambda>d. io_return (Delivered d))
    | Some UnsealUnavailable \<Rightarrow> io_return Unavailable
    | _ \<Rightarrow> io_return UnsealFailed)"

section \<open>The authentication line\<close>

definition WAIT_BUDGET :: nat where "WAIT_BUDGET = 20000"
definition WAIT_RETRY_GAP :: nat where "WAIT_RETRY_GAP = 400"

record module_args =
  ma_unseal :: bool
  ma_wait :: bool
  ma_reseal :: bool
  ma_keyring :: bool
  ma_kr :: bool
  ma_facefirst :: bool
  ma_ondemand :: bool

definition parse_args :: "string list \<Rightarrow> module_args" where
  "parse_args args = \<lparr> ma_unseal = (''unseal'' \<in> set args), ma_wait = (''wait'' \<in> set args),
     ma_reseal = (''reseal'' \<in> set args), ma_keyring = (''keyring'' \<in> set args), ma_kr = (''kr'' \<in> set args),
     ma_facefirst = (''facefirst'' \<in> set args), ma_ondemand = (''ondemand'' \<in> set args) \<rparr>"

text \<open>What the machine's settings and logind say.\<close>

record module_env =
  me_consent_required :: bool
  me_live_session :: bool

definition cosmic_choice :: "pam_items \<Rightarrow> module_args \<Rightarrow> bool" where
  "cosmic_choice it a \<longleftrightarrow> ma_unseal a \<and> ma_ondemand a \<and> \<not> ma_wait a \<and> \<not> ma_facefirst a \<and>
     service_text it = Some ''cosmic-greeter''"

definition active_probe :: "module_args \<Rightarrow> bool" where
  "active_probe a \<longleftrightarrow> ma_unseal a \<and> \<not> ma_wait a \<and> \<not> ma_facefirst a"

text \<open>The token the user has typed already, if any: asked for, or only looked at.\<close>

definition typed_token :: "'p pam_lib \<Rightarrow> pam_items \<Rightarrow> module_args \<Rightarrow> ('p, bytes option) pam" where
  "typed_token L it a =
     (if cosmic_choice it a then io_return None
      else if active_probe a then
        io_bind (get_authtok L (Some ''Password: '')) (\<lambda>t. case t of
            Inr (Some tok) \<Rightarrow> io_return (Some tok)
          | _ \<Rightarrow> io_lift (Inl IGNORE))
      else io_bind (get_cached_authtok L) (\<lambda>t. case t of
            Inr v \<Rightarrow> io_return v
          | Inl _ \<Rightarrow> io_return None))"

definition defer_to_typed :: "'p pam_lib \<Rightarrow> module_args \<Rightarrow> bytes option \<Rightarrow> ('p, unit) pam" where
  "defer_to_typed L a token = (case token of
      None \<Rightarrow> io_return ()
    | Some tok \<Rightarrow>
        if tok \<noteq> [] then io_lift (Inl IGNORE)
        else if active_probe a
          then io_bind (clear_authtok L) (\<lambda>ok. if ok then io_return () else io_lift (Inl IGNORE))
        else io_return ())"

definition intent_of_service ::
    "'p pam_lib \<Rightarrow> pam_items \<Rightarrow> module_env \<Rightarrow> module_args \<Rightarrow> ('p, IntentAttestation option) pam" where
  "intent_of_service L it e a = (case Option.bind (service_text it) classify_service of
      Some kind \<Rightarrow>
        if requires_face_intent_confirmation kind then
          if ma_wait a \<or> ma_unseal a then io_lift (Inl IGNORE)
          else io_bind (privileged_face_is_rgb_only L) (\<lambda>rgb_only.
            if rgb_only then io_lift (Inl IGNORE)
            else if \<not> me_consent_required e then io_return (Some PolicyWaived)
            else io_bind (confirm_face_intent L kind) (\<lambda>c.
              io_bind (require_confirmed c) (\<lambda>_. io_return (Some PamConversation))))
        else io_return None
    | None \<Rightarrow> io_return None)"

definition face_is_chosen ::
    "'p pam_lib \<Rightarrow> pam_items \<Rightarrow> module_env \<Rightarrow> module_args \<Rightarrow> ('p, IntentAttestation option) pam" where
  "face_is_chosen L it e a =
     io_bind (if cosmic_choice it a then io_bind (confirm_cosmic_face L) require_confirmed else io_return ()) (\<lambda>_.
     io_bind (typed_token L it a) (\<lambda>token.
     io_bind (defer_to_typed L a token) (\<lambda>_.
     intent_of_service L it e a)))"

definition one_attempt ::
    "'p pam_lib \<Rightarrow> pam_items \<Rightarrow> string \<Rightarrow> module_args \<Rightarrow> IntentAttestation option \<Rightarrow> ('p, PamCode \<times> Released) pam" where
  "one_attempt L it user a ic =
     (if ma_unseal a then io_bind (try_unseal L it user) (\<lambda>u. case u of
          Delivered d \<Rightarrow> io_return (code_for d, d)
        | Unavailable \<Rightarrow>
            if ma_facefirst a \<or> ma_ondemand a
            then io_bind (try_verify L it user None) (\<lambda>c. io_return (c, ReleaseFailed))
            else io_return (IGNORE, ReleaseFailed)
        | UnsealFailed \<Rightarrow> io_return (IGNORE, ReleaseFailed))
      else io_bind (try_verify L it user ic) (\<lambda>c. io_return (c, ReleaseFailed)))"

text \<open>The loop ends with a code. \<open>spent\<close> is the time since its start in milliseconds, \<open>took n\<close> what
  the \<open>n\<close>-th attempt took, the sleep before it beyond its length included.\<close>

function attempt_loop ::
    "'p pam_lib \<Rightarrow> pam_items \<Rightarrow> string \<Rightarrow> module_env \<Rightarrow> module_args \<Rightarrow> IntentAttestation option \<Rightarrow> (nat \<Rightarrow> nat) \<Rightarrow>
       nat \<Rightarrow> nat \<Rightarrow> 'p pam_run \<Rightarrow> PamCode \<times> 'p pam_run" where
  "attempt_loop L it user e a ic took n spent r = (case one_attempt L it user a ic r of
      (Inl c, r') \<Rightarrow> (c, r')
    | (Inr (attempt, delivered), r') \<Rightarrow>
        if attempt = ABORT then (ABORT, r')
        else if attempt = SUCCESS then
          (if ma_kr a \<and> delivered = AuthtokSet \<and> \<not> me_live_session e then IGNORE else SUCCESS, r')
        else let now = spent + took n in
          if \<not> ma_wait a \<or> WAIT_BUDGET \<le> now then (IGNORE, r')
          else attempt_loop L it user e a ic took (n + 1) (now + WAIT_RETRY_GAP) r')"
  by pat_completeness auto
termination
  by (relation "measure (\<lambda>(L, it, user, e, a, ic, took, n, spent, r). WAIT_BUDGET - spent)")
    (auto simp: WAIT_RETRY_GAP_def)

declare attempt_loop.simps [simp del]

definition stash_authtok :: "'p pam_lib \<Rightarrow> ('p, unit) pam" where
  "stash_authtok L = io_bind (get_cached_authtok L) (\<lambda>t. case t of
      Inr (Some tok) \<Rightarrow>
        if tok \<noteq> [] then io_bind (send_secret L RESEAL_STASH_KEY tok) (\<lambda>_. io_return ()) else io_return ()
    | _ \<Rightarrow> io_return ())"

definition authenticate ::
    "'p pam_lib \<Rightarrow> pam_items \<Rightarrow> caller_env \<Rightarrow> module_env \<Rightarrow> string list \<Rightarrow> (nat \<Rightarrow> nat) \<Rightarrow> 'p pam_run \<Rightarrow> PamCode \<times> 'p pam_run" where
  "authenticate L it ce e args took r = (case pi_user it of
      None \<Rightarrow> (IGNORE, r)
    | Some u \<Rightarrow>
        let user = lossy u; a = parse_args args in
        if is_remote_session it ce then (IGNORE, r)
        else if ma_keyring a then (IGNORE, r)
        else if ma_reseal a then (IGNORE, snd (stash_authtok L r))
        else (case face_is_chosen L it e a r of
            (Inl c, r') \<Rightarrow> (c, r')
          | (Inr ic, r') \<Rightarrow> attempt_loop L it user e a ic took 0 0 r'))"

section \<open>The session line\<close>

definition try_reseal_session :: "'p pam_lib \<Rightarrow> string \<Rightarrow> ('p, bool) pam" where
  "try_reseal_session L user = io_bind (get_secret L RESEAL_STASH_KEY) (\<lambda>stash. case stash of
      Inr pw \<Rightarrow>
        if pw = [] then io_return False
        else io_bind (call (pl_wallet_salt L) (\<lambda>_. [])) (\<lambda>salt. case salt of
            Inl _ \<Rightarrow> io_return False
          | Inr wallet_salt \<Rightarrow> io_bind (request L (ResealPassword user pw wallet_salt True)) (\<lambda>reply.
              io_return (reply = Some PasswordResealed)))
    | Inl _ \<Rightarrow> io_return False)"

definition hand_on :: "'p pam_lib \<Rightarrow> string \<Rightarrow> bytes \<Rightarrow> KeyringSecretKind \<Rightarrow> ('p, unit) pam" where
  "hand_on L user secret kind = (case kind of
      KdeWalletKey \<Rightarrow> io_bind (hand_key_to_wallet_daemon L user secret) (\<lambda>_. io_return ())
    | _ \<Rightarrow> io_bind (hand_token_to_keyring_daemon L user secret) (\<lambda>_. io_return ()))"

definition deliver_keyring_secret :: "'p pam_lib \<Rightarrow> pam_items \<Rightarrow> string \<Rightarrow> bool \<Rightarrow> ('p, unit) pam" where
  "deliver_keyring_secret L it user have_password = io_bind (get_secret L GKR_TOKEN_STASH_KEY) (\<lambda>stash.
     if stash = Inr [] then io_return ()
     else io_bind (send_secret L GKR_TOKEN_STASH_KEY []) (\<lambda>_. case stash of
         Inr token \<Rightarrow> hand_on L user token GnomeKeyringToken
       | Inl _ \<Rightarrow> io_bind (request L (UnsealKeyring user (service_text it) have_password False)) (\<lambda>reply. case reply of
           Some (PasswordUnsealed secret kind) \<Rightarrow> hand_on L user secret kind
         | _ \<Rightarrow> io_return ())))"

definition reseal_and_deliver :: "'p pam_lib \<Rightarrow> pam_items \<Rightarrow> string \<Rightarrow> ('p, unit) pam" where
  "reseal_and_deliver L it user = io_bind (try_reseal_session L user) (\<lambda>accepted.
     io_bind (if accepted then io_return True else kwallet_login_set L) (\<lambda>have_password.
     deliver_keyring_secret L it user have_password))"

definition open_session :: "'p pam_lib \<Rightarrow> pam_items \<Rightarrow> string list \<Rightarrow> 'p pam_run \<Rightarrow> PamCode \<times> 'p pam_run" where
  "open_session L it args r =
     (if ''reseal'' \<in> set args then (case pi_user it of
          Some u \<Rightarrow> (IGNORE, snd (reseal_and_deliver L it (lossy u) r))
        | None \<Rightarrow> (IGNORE, r))
      else (IGNORE, r))"

section \<open>What a run adds to the log\<close>

definition extends :: "(pam_event \<Rightarrow> bool) \<Rightarrow> 'p pam_run \<Rightarrow> 'p pam_run \<Rightarrow> bool" where
  "extends P r r' \<longleftrightarrow> (\<exists>es. pr_log r' = pr_log r @ es \<and> (\<forall>ev\<in>set es. P ev))"

lemma extends_refl: "reflp (extends P)"
  by (auto simp: reflp_def extends_def)

lemma extends_trans: "transp (extends P)"
  by (rule transpI) (auto simp: extends_def)

lemma extends_mono: "extends P r r' \<Longrightarrow> (\<And>ev. P ev \<Longrightarrow> Q ev) \<Longrightarrow> extends Q r r'"
  unfolding extends_def by blast

named_theorems logs

lemma logs_call [logs]: "(\<And>x. \<forall>ev\<in>set (evs x). P ev) \<Longrightarrow> keeps (extends P) (call f evs)"
  by (auto simp: keeps_def extends_def call_def split: prod.splits)

lemma logs_bind [logs]:
  "keeps (extends P) m \<Longrightarrow> (\<And>x. keeps (extends P) (f x)) \<Longrightarrow> keeps (extends P) (io_bind m f)"
  by (rule keeps_bind [OF extends_trans]) (auto simp: keeps_def)

lemma logs_pure [logs]: "keeps (extends P) (io_return x)" "keeps (extends P) (io_lift y)"
  using extends_refl by auto

lemma logs_if [logs]: "(b \<Longrightarrow> keeps R m) \<Longrightarrow> (\<not> b \<Longrightarrow> keeps R n) \<Longrightarrow> keeps R (if b then m else n)"
  by simp

lemmas calls = get_authtok_def get_cached_authtok_def clear_authtok_def set_authtok_def info_def send_secret_def
  get_secret_def request_def kwallet_login_set_def

text \<open>Before face is chosen nothing is released and only the state of the daemon is asked for.\<close>

definition choosing :: "pam_event \<Rightarrow> bool" where
  "choosing ev = (case ev of
      Asked _ _ \<Rightarrow> True | Peeked _ \<Rightarrow> True | Cleared _ \<Rightarrow> True
    | Requested q _ \<Rightarrow> q = Health \<or> q = FaceSensorStatus None
    | _ \<Rightarrow> False)"

lemma choosing_simps [simp]:
  "choosing (Asked p x)" "choosing (Peeked x)" "choosing (Cleared ok)" "choosing (Requested Health y)"
  "choosing (Requested (FaceSensorStatus None) y)"
  by (simp_all add: choosing_def)

lemma confirm_logs:
  "keeps (extends choosing) (resolve_intent_input L i)" "keeps (extends choosing) (confirm_face_intent L k)"
  "keeps (extends choosing) (ask_cosmic_face L)" "keeps (extends choosing) (confirm_cosmic_face L)"
  "keeps (extends choosing) (privileged_face_is_rgb_only L)" "keeps (extends choosing) (require_confirmed c)"
proof -
  show *: "keeps (extends choosing) (resolve_intent_input L i)" for i
    by (cases i) (auto simp: resolve_intent_input_def calls intro!: logs)
  show "keeps (extends choosing) (confirm_face_intent L k)"
    by (auto simp: confirm_face_intent_def calls intro!: logs * split: sum.split option.split)
  show **: "keeps (extends choosing) (ask_cosmic_face L)"
    by (auto simp: ask_cosmic_face_def calls intro!: logs * split: sum.split option.split)
  show "keeps (extends choosing) (confirm_cosmic_face L)"
    by (auto simp: confirm_cosmic_face_def calls intro!: logs ** split: sum.split option.split)
  show "keeps (extends choosing) (privileged_face_is_rgb_only L)"
    by (auto simp: privileged_face_is_rgb_only_def calls intro!: logs split: option.split Reply.split)
  show "keeps (extends choosing) (require_confirmed c)"
    by (cases c) (auto simp: require_confirmed_def intro!: logs)
qed

lemma face_is_chosen_logs: "keeps (extends choosing) (face_is_chosen L it e a)"
proof -
  have 1: "keeps (extends choosing) (typed_token L it a)"
    by (auto simp: typed_token_def calls intro!: logs split: sum.split option.split)
  have 2: "keeps (extends choosing) (defer_to_typed L a t)" for t
    by (auto simp: defer_to_typed_def calls intro!: logs split: option.split)
  have 3: "keeps (extends choosing) (intent_of_service L it e a)"
    by (auto simp: intent_of_service_def intro!: logs confirm_logs split: option.split)
  show ?thesis unfolding face_is_chosen_def by (intro logs confirm_logs 1 2 3)
qed

section \<open>What an attempt is\<close>

definition verify_code :: "pam_items \<Rightarrow> Reply option \<Rightarrow> PamCode" where
  "verify_code it reply = (case reply of
      Some (AuthReply granted live declined _) \<Rightarrow>
        if granted then (if live then SUCCESS else IGNORE) else if declined \<and> is_polkit_consent it then ABORT else IGNORE
    | _ \<Rightarrow> IGNORE)"

text \<open>How a secret of a kind was delivered, with the events of the delivery.\<close>

definition released :: "bytes \<Rightarrow> KeyringSecretKind \<Rightarrow> pam_event list \<Rightarrow> Released \<Rightarrow> bool" where
  "released secret kind es d \<longleftrightarrow> (case kind of
      LoginPassword \<Rightarrow> es = [] \<and> d = ReleaseFailed \<or> es = [SetAuthtok secret] \<and> d \<in> {AuthtokSet, ReleaseFailed}
    | KdeWalletKey \<Rightarrow> es = [] \<and> d = ReleaseFailed \<or> es = [WalletKey secret] \<and> d \<in> {WalletStarted, ReleaseFailed}
    | GnomeKeyringToken \<Rightarrow> (\<exists>ok. es = [Stashed GKR_TOKEN_STASH_KEY secret ok]) \<and> d \<in> {TokenStashed, ReleaseFailed})"

inductive attempt ::
    "pam_items \<Rightarrow> string \<Rightarrow> module_args \<Rightarrow> IntentAttestation option \<Rightarrow> pam_event list \<Rightarrow> PamCode \<Rightarrow> Released \<Rightarrow> bool"
  for it user a ic where
  verified: "\<not> ma_unseal a \<Longrightarrow>
    attempt it user a ic [Requested (Authenticate False user (service_lossy it) ic) reply] (verify_code it reply) ReleaseFailed"
| unsealed: "ma_unseal a \<Longrightarrow> released secret kind es d \<Longrightarrow>
    attempt it user a ic (Requested (UnsealPassword user (service_text it)) (Some (PasswordUnsealed secret kind)) # es) (code_for d) d"
| not_unsealed: "ma_unseal a \<Longrightarrow> attempt it user a ic [Requested (UnsealPassword user (service_text it)) reply] IGNORE ReleaseFailed"
| fell_back: "ma_unseal a \<Longrightarrow> ma_facefirst a \<or> ma_ondemand a \<Longrightarrow>
    attempt it user a ic [Requested (UnsealPassword user (service_text it)) (Some UnsealUnavailable),
      Requested (Authenticate False user (service_lossy it) None) reply] (verify_code it reply) ReleaseFailed"

inductive_cases attemptE: "attempt it user a ic es c d"

lemma try_verify_trace:
  "\<exists>reply. fst (try_verify L it user ic r) = Inr (verify_code it reply) \<and>
     pr_log (snd (try_verify L it user ic r)) = pr_log r @ [Requested (Authenticate False user (service_lossy it) ic) reply]"
proof -
  obtain reply s where q: "pl_request L (Authenticate False user (service_lossy it) ic) (pr_state r) = (reply, s)" by fastforce
  show ?thesis
    by (rule exI [of _ reply])
      (auto simp: try_verify_def calls call_def q io_bind_def io_return_def verify_code_def split: option.split Reply.split prod.split)
qed

lemma wallet_reply_trace:
  "\<exists>h r'. wallet_reply L run r = (Inr h, r') \<and> pr_log r' = pr_log r \<and>
     (pr_state r' = pr_state r \<or> (\<exists>t. pr_state r' = snd (pl_putenv L t (pr_state r))))"
proof -
  have "\<exists>h r'. io_bind (call (pl_putenv L t) (\<lambda>_. [])) (\<lambda>ok.
      io_return (if ok then WalletHandoffStarted else WalletHandoffFailed)) r = (Inr h, r') \<and> pr_log r' = pr_log r \<and>
      (pr_state r' = pr_state r \<or> (\<exists>t. pr_state r' = snd (pl_putenv L t (pr_state r))))" for t
    by (auto simp: io_bind_def call_def io_return_def case_prod_beta)
  then show ?thesis
    by (simp add: wallet_reply_def io_return_def Let_def split: HelperRun.split option.split prod.split)
qed

lemma hand_key_trace:
  "\<exists>h es. fst (hand_key_to_wallet_daemon L user key r) = Inr h \<and>
     pr_log (snd (hand_key_to_wallet_daemon L user key r)) = pr_log r @ es \<and>
     (es = [WalletKey key] \<or> es = [] \<and> h = WalletHandoffFailed)"
proof -
  obtain running s where l: "pl_login_env L (pr_state r) = (running, s)" by fastforce
  obtain run s' where w: "pl_wallet_helper L user key s = (run, s')" by fastforce
  obtain h r' where "wallet_reply L run \<lparr> pr_state = s', pr_log = pr_log r @ [WalletKey key] \<rparr> = (Inr h, r')"
    "pr_log r' = pr_log r @ [WalletKey key]" using wallet_reply_trace [of L run "\<lparr> pr_state = s', pr_log = pr_log r @ [WalletKey key] \<rparr>"] by auto
  with l w show ?thesis
    by (cases running) (simp_all add: hand_key_to_wallet_daemon_def calls call_def io_bind_def io_return_def)
qed

lemma release_secret_trace:
  "\<exists>es d. fst (release_secret L user secret kind r) = Inr d \<and> pr_log (snd (release_secret L user secret kind r)) = pr_log r @ es \<and>
     released secret kind es d"
proof (cases kind)
  case KdeWalletKey
  from hand_key_trace [of L user secret r] obtain h es r' where "hand_key_to_wallet_daemon L user secret r = (Inr h, r')"
    "pr_log r' = pr_log r @ es" "es = [WalletKey secret] \<or> es = [] \<and> h = WalletHandoffFailed" by (metis prod.collapse)
  with KdeWalletKey show ?thesis
    by (cases h) (auto simp: release_secret_def released_def io_bind_def io_return_def)
qed (auto simp: release_secret_def released_def calls call_def io_bind_def io_return_def split: prod.split)

lemma one_attempt_trace:
  "\<exists>es c d. fst (one_attempt L it user a ic r) = Inr (c, d) \<and> pr_log (snd (one_attempt L it user a ic r)) = pr_log r @ es \<and>
     attempt it user a ic es c d"
proof (cases "ma_unseal a")
  case False
  from try_verify_trace [of L it user ic r] obtain reply r' where
    "try_verify L it user ic r = (Inr (verify_code it reply), r')"
    "pr_log r' = pr_log r @ [Requested (Authenticate False user (service_lossy it) ic) reply]" by (metis prod.collapse)
  with False show ?thesis by (auto simp: one_attempt_def io_bind_def io_return_def intro: verified)
next
  case True
  let ?q = "UnsealPassword user (service_text it)"
  obtain reply s where q: "pl_request L ?q (pr_state r) = (reply, s)" by fastforce
  let ?r = "\<lparr> pr_state = s, pr_log = pr_log r @ [Requested ?q reply] \<rparr>"
  consider (secret) secret kind where "reply = Some (PasswordUnsealed secret kind)"
    | (unavailable) "reply = Some UnsealUnavailable"
    | (other) "\<nexists>secret kind. reply = Some (PasswordUnsealed secret kind)" "reply \<noteq> Some UnsealUnavailable" by blast
  then show ?thesis
  proof cases
    case secret
    from release_secret_trace [of L user secret kind ?r] obtain es d r' where
      "release_secret L user secret kind ?r = (Inr d, r')" "pr_log r' = pr_log ?r @ es" "released secret kind es d"
      by (metis prod.collapse)
    with secret True show ?thesis
      by (auto simp: one_attempt_def try_unseal_def calls call_def q io_bind_def io_return_def intro: unsealed)
  next
    case unavailable
    from try_verify_trace [of L it user None ?r] obtain reply' r' where
      "try_verify L it user None ?r = (Inr (verify_code it reply'), r')"
      "pr_log r' = pr_log ?r @ [Requested (Authenticate False user (service_lossy it) None) reply']" by (metis prod.collapse)
    with unavailable True show ?thesis
      by (auto simp: one_attempt_def try_unseal_def calls call_def q io_bind_def io_return_def intro: fell_back not_unsealed)
  next
    case other
    then have "try_unseal L it user r = (Inr UnsealFailed, ?r)"
      by (auto simp: try_unseal_def calls call_def q io_bind_def io_return_def split: option.splits Reply.splits)
    with True show ?thesis by (auto simp: one_attempt_def io_bind_def io_return_def intro: not_unsealed)
  qed
qed

text \<open>The attempts of a loop: all but the last were without success.\<close>

inductive attempts ::
    "pam_items \<Rightarrow> string \<Rightarrow> module_args \<Rightarrow> IntentAttestation option \<Rightarrow> nat \<Rightarrow> pam_event list \<Rightarrow> PamCode \<Rightarrow> bool"
  for it user a ic where
  last_attempt: "attempt it user a ic es c d \<Longrightarrow> c' = c \<or> c = SUCCESS \<and> c' = IGNORE \<Longrightarrow> attempts it user a ic (Suc 0) es c'"
| another: "ma_wait a \<Longrightarrow> attempt it user a ic es IGNORE d \<Longrightarrow> attempts it user a ic n es' c \<Longrightarrow>
    attempts it user a ic (Suc n) (es @ es') c"

lemma attempt_loop_trace:
  assumes "attempt_loop L it user e a ic took n spent r = (c, r')"
  shows "\<exists>es k. attempts it user a ic k es c \<and> pr_log r' = pr_log r @ es \<and>
    WAIT_RETRY_GAP * k \<le> WAIT_RETRY_GAP + (WAIT_BUDGET + WAIT_RETRY_GAP - 1 - spent)"
  using assms
proof (induction L it user e a ic took n spent r rule: attempt_loop.induct)
  case (1 L it user e a ic took n spent r)
  obtain es c0 d r1 where o: "one_attempt L it user a ic r = (Inr (c0, d), r1)" "pr_log r1 = pr_log r @ es"
    "attempt it user a ic es c0 d" using one_attempt_trace [of L it user a ic r] by (metis prod.collapse)
  let ?now = "spent + took n"
  show ?case
  proof (cases "c0 = IGNORE \<and> ma_wait a \<and> ?now < WAIT_BUDGET")
    case False
    with "1.prems" o(1) have "r' = r1" "c = c0 \<or> c0 = SUCCESS \<and> c = IGNORE"
      by (cases c0; auto simp: attempt_loop.simps [of L it user e a ic took n spent r] Let_def split: if_splits)+
    with o show ?thesis by (intro exI [of _ es] exI [of _ "Suc 0"]) (auto intro: last_attempt)
  next
    case True
    then have l: "attempt_loop L it user e a ic took (n + 1) (?now + WAIT_RETRY_GAP) r1 = (c, r')"
      using "1.prems" o(1) by (simp add: attempt_loop.simps [of L it user e a ic took n spent r])
    have "\<exists>es k. attempts it user a ic k es c \<and> pr_log r' = pr_log r1 @ es \<and>
        WAIT_RETRY_GAP * k \<le> WAIT_RETRY_GAP + (WAIT_BUDGET + WAIT_RETRY_GAP - 1 - (?now + WAIT_RETRY_GAP))"
      using "1.IH" [OF o(1) [symmetric] refl refl _ _ refl _ l] True by simp
    then obtain es' k where k: "attempts it user a ic k es' c" "pr_log r' = pr_log r1 @ es'"
      "WAIT_RETRY_GAP * k \<le> WAIT_RETRY_GAP + (WAIT_BUDGET - 1 - ?now)" by auto
    have "WAIT_RETRY_GAP * Suc k \<le> WAIT_RETRY_GAP + (WAIT_BUDGET + WAIT_RETRY_GAP - 1 - spent)"
      using k(3) conjunct2 [OF conjunct2 [OF True]] unfolding mult_Suc_right by linarith
    with o k True show ?thesis
      by (intro exI [of _ "es @ es'"] exI [of _ "Suc k"]) (auto intro: another)
  qed
qed

end
