(* ===== verification/Pam_Contract.thy ===== *)
theory Pam_Contract
  imports Pam_Module
begin

text \<open>
  What the PAM module promises to the stack it stands in, to the user and to the daemon, as
  properties of the log of a line: when it reports success, when the face is not asked for,
  what a privileged prompt sends, where a released secret goes and how often a line asks.
\<close>

section \<open>The phases of a line\<close>

text \<open>A line either asks for nothing but the choice of the user, or it is a run of attempts.\<close>

inductive phases ::
    "'p pam_lib \<Rightarrow> pam_items \<Rightarrow> caller_env \<Rightarrow> module_env \<Rightarrow> string list \<Rightarrow> 'p pam_run \<Rightarrow> pam_event list \<Rightarrow> PamCode \<Rightarrow> bool"
  for L it ce e args r where
  ignored: "pi_user it = None \<or> is_remote_session it ce \<or> ''keyring'' \<in> set args \<Longrightarrow> phases L it ce e args r [] IGNORE"
| stashing: "''reseal'' \<in> set args \<Longrightarrow> pr_log (snd (stash_authtok L r)) = pr_log r @ es \<Longrightarrow>
    phases L it ce e args r es IGNORE"
| not_chosen: "face_is_chosen L it e (parse_args args) r = (Inl c, r') \<Longrightarrow> pr_log r' = pr_log r @ es \<Longrightarrow>
    phases L it ce e args r es c"
| asking: "pi_user it = Some u \<Longrightarrow> \<not> is_remote_session it ce \<Longrightarrow> ''keyring'' \<notin> set args \<Longrightarrow> ''reseal'' \<notin> set args \<Longrightarrow>
    face_is_chosen L it e (parse_args args) r = (Inr ic, r') \<Longrightarrow> pr_log r' = pr_log r @ chosen \<Longrightarrow>
    attempts it (lossy u) (parse_args args) ic k es c \<Longrightarrow> k \<le> 51 \<Longrightarrow>
    phases L it ce e args r (chosen @ es) c"

inductive_cases phasesE: "phases L it ce e args r es c"

lemma parse_args_sel [simp]:
  "ma_keyring (parse_args args) \<longleftrightarrow> ''keyring'' \<in> set args" "ma_reseal (parse_args args) \<longleftrightarrow> ''reseal'' \<in> set args"
  "ma_unseal (parse_args args) \<longleftrightarrow> ''unseal'' \<in> set args" "ma_wait (parse_args args) \<longleftrightarrow> ''wait'' \<in> set args"
  by (simp_all add: parse_args_def)

definition stashed :: "pam_event list \<Rightarrow> bool" where
  "stashed es \<longleftrightarrow> (\<exists>x. es = [Peeked x] \<or> (\<exists>t ok. x = Inr (Some t) \<and> t \<noteq> [] \<and> es = [Peeked x, Stashed RESEAL_STASH_KEY t ok]))"

lemma stash_authtok_trace: "\<exists>es. pr_log (snd (stash_authtok L r)) = pr_log r @ es \<and> stashed es"
  by (auto simp: stash_authtok_def stashed_def calls call_def io_bind_def io_return_def
      split: prod.split sum.split option.split)

lemma attempts_bound: "WAIT_RETRY_GAP * k \<le> WAIT_RETRY_GAP + (WAIT_BUDGET + WAIT_RETRY_GAP - 1 - 0) \<Longrightarrow> k \<le> 51"
  by (simp add: WAIT_RETRY_GAP_def WAIT_BUDGET_def)

lemma authenticate_phases:
  assumes "authenticate L it ce e args took r = (c, r')"
  shows "\<exists>es. pr_log r' = pr_log r @ es \<and> phases L it ce e args r es c"
proof -
  let ?a = "parse_args args"
  obtain x r1 where f: "face_is_chosen L it e ?a r = (x, r1)" by fastforce
  obtain pre where pre: "pr_log r1 = pr_log r @ pre"
    using face_is_chosen_logs [of L it e ?a] f unfolding keeps_def extends_def by (metis snd_conv)
  consider (none) "pi_user it = None \<or> is_remote_session it ce \<or> ''keyring'' \<in> set args"
    | (reseal) u where "pi_user it = Some u" "\<not> is_remote_session it ce" "''keyring'' \<notin> set args" "''reseal'' \<in> set args"
    | (stopped) u c0 where "pi_user it = Some u" "\<not> is_remote_session it ce" "''keyring'' \<notin> set args" "''reseal'' \<notin> set args"
        "x = Inl c0"
    | (chosen) u ic where "pi_user it = Some u" "\<not> is_remote_session it ce" "''keyring'' \<notin> set args" "''reseal'' \<notin> set args"
        "x = Inr ic" by (cases x; cases "pi_user it") blast+
  then show ?thesis
  proof cases
    case none
    with assms show ?thesis by (auto simp: authenticate_def Let_def intro: ignored split: option.splits if_splits)
  next
    case reseal
    with assms stash_authtok_trace [of L r] show ?thesis by (auto simp: authenticate_def intro: stashing)
  next
    case stopped
    with assms f pre show ?thesis by (auto simp: authenticate_def intro: not_chosen)
  next
    case chosen
    with assms f have "attempt_loop L it (lossy u) e ?a ic took 0 0 r1 = (c, r')" by (simp add: authenticate_def Let_def)
    from attempt_loop_trace [OF this] obtain es k where "attempts it (lossy u) ?a ic k es c" "pr_log r' = pr_log r1 @ es"
      "k \<le> 51" using attempts_bound by blast
    with chosen f pre show ?thesis
      by (intro exI [of _ "pre @ es"]) (auto intro!: asking [where k = k and ic = ic])
  qed
qed

section \<open>Success\<close>

text \<open>The daemon's answers that are a grant to a user.\<close>

definition grants :: "string \<Rightarrow> pam_event \<Rightarrow> bool" where
  "grants user ev = (case ev of
      Requested q reply \<Rightarrow> (case q of
          Authenticate _ u _ _ \<Rightarrow> u = user \<and> (\<exists>declined s. reply = Some (AuthReply True True declined s))
        | UnsealPassword u _ \<Rightarrow> u = user \<and> (\<exists>secret kind. reply = Some (PasswordUnsealed secret kind))
        | _ \<Rightarrow> False)
    | _ \<Rightarrow> False)"

definition is_request :: "pam_event \<Rightarrow> bool" where
  "is_request ev = (case ev of Requested _ _ \<Rightarrow> True | _ \<Rightarrow> False)"

lemma verify_code_SUCCESS:
  "verify_code it reply = SUCCESS \<longleftrightarrow> (\<exists>declined s. reply = Some (AuthReply True True declined s))"
  by (auto simp: verify_code_def split: option.split Reply.split)

lemma attempt_SUCCESS:
  assumes "attempt it user a ic es SUCCESS d"
  shows "\<exists>pre ev post. es = pre @ ev # post \<and> grants user ev \<and> list_all (\<lambda>x. \<not> is_request x) post"
  using assms
proof cases
  case (verified reply)
  then show ?thesis
    by (intro exI [of _ "[]"]) (use verify_code_SUCCESS [of it reply] in \<open>simp add: grants_def\<close>)
next
  case (unsealed secret kind es0)
  then show ?thesis
    by (intro exI [of _ "[]"]) (auto simp: grants_def released_def is_request_def split: KeyringSecretKind.splits)
next
  case (fell_back reply)
  then show ?thesis
    by (intro exI [of _ "[hd es]"]) (use verify_code_SUCCESS [of it reply] in \<open>simp add: grants_def\<close>)
qed

lemma attempts_SUCCESS:
  "attempts it user a ic k es c \<Longrightarrow> c = SUCCESS \<Longrightarrow>
     \<exists>pre ev post. es = pre @ ev # post \<and> grants user ev \<and> list_all (\<lambda>x. \<not> is_request x) post"
proof (induction rule: attempts.induct)
  case (last_attempt es c d c')
  then show ?case using attempt_SUCCESS [of it user a ic es d] by auto
next
  case (another es d n es' c)
  then show ?case by (metis append.assoc)
qed

lemma keeps_Inl: "keeps R m \<Longrightarrow> m r = (x, r') \<Longrightarrow> R r r'"
  by (metis keeps_def snd_conv)

text \<open>The codes a choice can end with.\<close>

definition fails_with :: "PamCode set \<Rightarrow> ('p, 'a) pam \<Rightarrow> bool" where
  "fails_with C m \<longleftrightarrow> (\<forall>r c r'. m r = (Inl c, r') \<longrightarrow> c \<in> C)"

lemma fails_with_intros [intro]:
  "fails_with C (call f evs)" "fails_with C (io_return x)" "c \<in> C \<Longrightarrow> fails_with C (io_lift (Inl c))"
  "fails_with C m \<Longrightarrow> (\<And>x. fails_with C (g x)) \<Longrightarrow> fails_with C (io_bind m g)"
  "(b \<Longrightarrow> fails_with C m) \<Longrightarrow> (\<not> b \<Longrightarrow> fails_with C m') \<Longrightarrow> fails_with C (if b then m else m')"
  by (fastforce simp: fails_with_def call_def io_return_def io_lift_def io_bind_def split: prod.splits sum.splits)+


lemma face_is_chosen_fails: "fails_with {IGNORE, ABORT} (face_is_chosen L it e a)"
proof -
  note rules = fails_with_intros(1-2) fails_with_intros(3) [of _ "{IGNORE, ABORT}"] fails_with_intros(4-5)
  have 1: "fails_with {IGNORE, ABORT} (require_confirmed c)" for c
    by (cases c) (auto simp: require_confirmed_def intro!: rules)
  have r: "fails_with {IGNORE, ABORT} (resolve_intent_input L i)" for i
    by (cases i) (auto simp: resolve_intent_input_def calls intro!: rules)
  have c: "fails_with {IGNORE, ABORT} (confirm_face_intent L k)" for k
    unfolding confirm_face_intent_def calls by (auto intro!: rules r split: sum.split option.split)
  have a: "fails_with {IGNORE, ABORT} (ask_cosmic_face L)"
    unfolding ask_cosmic_face_def calls by (auto intro!: rules r split: sum.split option.split)
  have 2: "fails_with {IGNORE, ABORT} (confirm_cosmic_face L)"
    unfolding confirm_cosmic_face_def calls by (auto intro!: rules a split: sum.split option.split)
  have 3: "fails_with {IGNORE, ABORT} (privileged_face_is_rgb_only L)"
    unfolding privileged_face_is_rgb_only_def calls by (auto intro!: rules split: option.split Reply.split)
  have 4: "fails_with {IGNORE, ABORT} (intent_of_service L it e a)"
    unfolding intent_of_service_def by (auto intro!: rules 1 3 c split: option.split)
  have 5: "fails_with {IGNORE, ABORT} (typed_token L it a)"
    unfolding typed_token_def calls by (auto intro!: rules split: sum.split option.split)
  have 6: "fails_with {IGNORE, ABORT} (defer_to_typed L a t)" for t
    unfolding defer_to_typed_def calls by (auto intro!: rules split: option.split)
  show ?thesis unfolding face_is_chosen_def by (auto intro!: rules 1 2 4 5 6)
qed

text \<open>C1: The module reports success only for a grant: the user is known, the session is not a remote
  one, the line is neither the landing of the fingerprint lane nor the stash of the reseal, and the
  last thing the line asked of the daemon was answered, for this user, by a live grant or by
  a released secret.\<close>

theorem success_is_a_grant:
  assumes "authenticate L it ce e args took r = (SUCCESS, r')"
  shows "\<exists>u pre ev post. pi_user it = Some u \<and> \<not> is_remote_session it ce \<and> ''keyring'' \<notin> set args \<and>
    ''reseal'' \<notin> set args \<and> pr_log r' = pr_log r @ pre @ ev # post \<and> grants (lossy u) ev \<and>
    list_all (\<lambda>x. \<not> is_request x) post"
proof -
  obtain es where es: "pr_log r' = pr_log r @ es" "phases L it ce e args r es SUCCESS"
    using authenticate_phases [OF assms] by blast
  from es(2) show ?thesis
  proof (cases rule: phases.cases)
    case (not_chosen r1)
    with face_is_chosen_fails [of L it e "parse_args args"] have False unfolding fails_with_def by blast
    then show ?thesis ..
  next
    case (asking u ic r1 chosen k es0)
    from attempts_SUCCESS [OF asking(8) refl] obtain pre ev post where
      "es0 = pre @ ev # post" "grants (lossy u) ev" "list_all (\<lambda>x. \<not> is_request x) post" by blast
    with asking es(1) show ?thesis
      by (intro exI [of _ u] exI [of _ "chosen @ pre"] exI [of _ ev] exI [of _ post]) simp
  qed
qed

section \<open>A typed password\<close>

definition typed_password :: "pam_event \<Rightarrow> bool" where
  "typed_password ev = (case ev of
      Asked _ (Inr (Some t)) \<Rightarrow> classify_intent_input (Some t) = InputPassword
    | Peeked (Inr (Some t)) \<Rightarrow> t \<noteq> []
    | _ \<Rightarrow> False)"

text \<open>An operation defers when a password it comes across is the end of it.\<close>

definition ends_at_password :: "PamCode + 'a \<Rightarrow> pam_event list \<Rightarrow> bool" where
  "ends_at_password x es \<longleftrightarrow> list_all (\<lambda>ev. \<not> typed_password ev) es \<or>
     x = Inl IGNORE \<and> list_all (\<lambda>ev. \<not> typed_password ev) (butlast es)"

definition defers :: "('p, 'a) pam \<Rightarrow> bool" where
  "defers m \<longleftrightarrow> (\<forall>r. \<exists>es. pr_log (snd (m r)) = pr_log r @ es \<and> ends_at_password (fst (m r)) es)"

lemma defers_pure: "defers (io_return x)" "defers (io_lift y)"
  by (simp_all add: defers_def ends_at_password_def io_return_def io_lift_def)

lemma defers_call: "(\<And>x. list_all (\<lambda>ev. \<not> typed_password ev) (evs x)) \<Longrightarrow> defers (call f evs)"
  by (auto simp: defers_def ends_at_password_def call_def split: prod.split)

lemma defers_bind:
  assumes "defers m" "\<And>x. defers (f x)"
  shows "defers (io_bind m f)"
  unfolding defers_def
proof
  fix r
  obtain x s where m: "m r = (x, s)" by fastforce
  obtain es where es: "pr_log s = pr_log r @ es" "ends_at_password x es"
    using assms(1) m unfolding defers_def by (metis fst_conv snd_conv)
  show "\<exists>es. pr_log (snd (io_bind m f r)) = pr_log r @ es \<and> ends_at_password (fst (io_bind m f r)) es"
  proof (cases x)
    case (Inl c)
    with m es show ?thesis by (auto simp: io_bind_def ends_at_password_def)
  next
    case (Inr y)
    from assms(2) [of y] obtain es' where
      es': "pr_log (snd (f y s)) = pr_log s @ es'" "ends_at_password (fst (f y s)) es'" unfolding defers_def by blast
    from Inr es(2) es'(2) have "ends_at_password (fst (f y s)) (es @ es')"
      by (cases es') (auto simp: ends_at_password_def butlast_append)
    with Inr m es(1) es'(1) show ?thesis by (auto simp: io_bind_def)
  qed
qed

lemma defers_if: "(b \<Longrightarrow> defers m) \<Longrightarrow> (\<not> b \<Longrightarrow> defers m') \<Longrightarrow> defers (if b then m else m')"
  by simp

lemmas defers_intros = defers_pure defers_call defers_bind defers_if

text \<open>Looking at a token and judging it belong together.\<close>

lemma defers_judged:
  fixes f :: "'a \<Rightarrow> ('p, 'b) pam"
  assumes "\<And>x. defers (f x)" "\<And>x. \<exists>ev \<in> set (evs x). typed_password ev \<Longrightarrow> (\<exists>ev. evs x = [ev]) \<and> f x = io_lift (Inl IGNORE)"
  shows "defers (io_bind (call g evs) f)"
  unfolding defers_def
proof
  fix r :: "'p pam_run"
  obtain x s where g: "g (pr_state r) = (x, s)" by fastforce
  let ?r = "\<lparr> pr_state = s, pr_log = pr_log r @ evs x \<rparr>"
  have run: "io_bind (call g evs) f r = f x ?r" by (simp add: io_bind_def call_def g)
  show "\<exists>es. pr_log (snd (io_bind (call g evs) f r)) = pr_log r @ es \<and> ends_at_password (fst (io_bind (call g evs) f r)) es"
  proof (cases "\<exists>ev \<in> set (evs x). typed_password ev")
    case True
    from assms(2) [OF True] show ?thesis unfolding run by (auto simp: ends_at_password_def io_lift_def)
  next
    case False
    from assms(1) [of x] obtain es where
      es: "pr_log (snd (f x ?r)) = pr_log ?r @ es" "ends_at_password (fst (f x ?r)) es" unfolding defers_def by blast
    with False have "ends_at_password (fst (f x ?r)) (evs x @ es)"
      by (cases es) (auto simp: ends_at_password_def butlast_append list_all_iff)
    with es(1) show ?thesis unfolding run by auto
  qed
qed

lemma typed_password_simps [simp]:
  "\<not> typed_password (Cleared ok)" "\<not> typed_password (Requested q reply)"
  "typed_password (Asked p x) \<longleftrightarrow> (\<exists>t. x = Inr (Some t) \<and> classify_intent_input (Some t) = InputPassword)"
  "typed_password (Peeked x) \<longleftrightarrow> (\<exists>t. x = Inr (Some t) \<and> t \<noteq> [])"
  by (auto simp: typed_password_def split: sum.split option.split)

lemma classify_empty [simp]: "classify_intent_input (Some []) = InputEmpty" "classify_intent_input None = InputEmpty"
  by (simp_all add: classify_intent_input_def)

lemma io_bind_if: "io_bind (if b then m else n) f = (if b then io_bind m f else io_bind n f)"
  by simp

lemma io_bind_return [simp]: "io_bind m io_return = m"
  by (rule ext) (simp add: io_bind_def io_return_def split: prod.split sum.split)

lemma io_bind_pure [simp]: "io_bind (io_return x) f = f x" "io_bind (io_lift (Inl c)) f = io_lift (Inl c)"
  by (rule ext, simp add: io_bind_def io_return_def io_lift_def)+

lemma resolve_password [simp]: "resolve_intent_input L InputPassword = io_return Fallback"
  by (simp add: resolve_intent_input_def)

lemma require_fallback [simp]: "require_confirmed Fallback = io_lift (Inl IGNORE)"
  by (simp add: require_confirmed_def)

lemma defers_confirmed:
  assumes "\<And>x. defers (f x)"
  shows "defers (io_bind (resolve_intent_input L i) (\<lambda>c. io_bind (require_confirmed c) f))"
  using assms by (cases i)
    (auto simp: resolve_intent_input_def require_confirmed_def calls intro!: defers_intros split: IntentConfirmation.split)

lemma defers_asked:
  assumes "\<And>x. defers (f x)"
  shows "defers (io_bind (get_authtok L p) (\<lambda>token. io_bind (case token of
        Inr (Some t) \<Rightarrow> resolve_intent_input L (classify_intent_input (Some t)) | _ \<Rightarrow> io_return Fallback)
      (\<lambda>c. io_bind (require_confirmed c) f)))"
  unfolding get_authtok_def
  by (rule defers_judged) (use assms in \<open>auto intro: defers_pure defers_confirmed split: sum.split option.split\<close>)

lemma cosmic_defers: "defers (io_bind (confirm_cosmic_face L) require_confirmed)"
proof -
  have req: "defers (require_confirmed c)" for c
    by (cases c) (auto simp: require_confirmed_def intro!: defers_intros)
  have ask: "defers (io_bind (ask_cosmic_face L) require_confirmed)"
    using defers_asked [of io_return] unfolding ask_cosmic_face_def io_bind_assoc by (simp add: defers_pure)
  have again: "defers (io_bind (clear_authtok L)
      (\<lambda>ok. io_bind (if ok then ask_cosmic_face L else io_return Abort) require_confirmed))"
    unfolding clear_authtok_def by (rule defers_bind, rule defers_call) (simp_all add: ask req)
  show ?thesis
    unfolding confirm_cosmic_face_def get_cached_authtok_def io_bind_assoc
    by (rule defers_judged) (auto simp: ask req again io_bind_assoc defers_pure split: sum.split option.split)
qed

lemma intent_defers: "defers (intent_of_service L it e a)"
proof -
  have rgb: "defers (privileged_face_is_rgb_only L)"
    unfolding privileged_face_is_rgb_only_def calls by (auto intro!: defers_intros split: option.split Reply.split)
  have shown: "defers (io_bind (info L t) (\<lambda>shown. io_bind (if \<not> shown then io_return Fallback
      else io_bind (get_authtok L None) (\<lambda>token. case token of
        Inr (Some t) \<Rightarrow> resolve_intent_input L (classify_intent_input (Some t)) | _ \<Rightarrow> io_return Fallback))
      (\<lambda>c. io_bind (require_confirmed c) (\<lambda>_. io_return y))))" for t and y :: "IntentAttestation option"
    unfolding info_def io_bind_if io_bind_assoc
    by (rule defers_bind, rule defers_call) (simp_all add: defers_pure defers_asked)
  have confirm: "defers (io_bind (confirm_face_intent L k) (\<lambda>c. io_bind (require_confirmed c) (\<lambda>_. io_return y)))"
    for k and y :: "IntentAttestation option"
    using shown by (simp add: confirm_face_intent_def io_bind_assoc defers_pure)
  show ?thesis
    unfolding intent_of_service_def
    by (auto simp: confirm intro!: defers_bind [OF rgb] defers_if defers_pure split: option.split)
qed

lemma token_defers:
  assumes "\<And>x. defers (f x)"
  shows "defers (io_bind (typed_token L it a) (\<lambda>token. io_bind (defer_to_typed L a token) f))"
proof -
  have judge: "defers (io_bind (defer_to_typed L a token) f)" for token
    using assms by (auto simp: defer_to_typed_def calls io_bind_if io_bind_assoc intro!: defers_intros split: option.split)
  have nonempty: "t \<noteq> [] \<Longrightarrow> io_bind (defer_to_typed L a (Some t)) f = io_lift (Inl IGNORE)" for t
    by (simp add: defer_to_typed_def)
  have asked: "classify_intent_input (Some t) = InputPassword \<Longrightarrow> t \<noteq> []" for t by auto
  show ?thesis
    unfolding typed_token_def get_authtok_def get_cached_authtok_def
    by (auto simp: judge nonempty asked io_bind_assoc defers_pure intro!: defers_judged split: sum.split option.split)
qed

lemma face_is_chosen_defers: "defers (face_is_chosen L it e a)"
  unfolding face_is_chosen_def
  by (rule defers_bind) (simp_all add: cosmic_defers token_defers intent_defers defers_pure)

lemma attempts_events: "attempts it user a ic k es c \<Longrightarrow> list_all (\<lambda>ev. \<not> typed_password ev) es"
proof (induction rule: attempts.induct)
  case (last_attempt es c d c')
  from last_attempt(1) show ?case
    by cases (auto simp: released_def typed_password_def split: KeyringSecretKind.splits)
next
  case (another es d n es' c)
  from another(2) have "list_all (\<lambda>ev. \<not> typed_password ev) es"
    by cases (auto simp: released_def typed_password_def split: KeyringSecretKind.splits)
  with another.IH show ?case by simp
qed

text \<open>What the choice of the user left on the log, when it ended well and when it did not.\<close>

lemma choice_events:
  assumes "face_is_chosen L it e a r = (x, r')" "pr_log r' = pr_log r @ es"
  shows "list_all choosing es \<and> ends_at_password x es"
proof
  show "list_all choosing es"
    using keeps_Inl [OF face_is_chosen_logs assms(1)] assms(2) by (auto simp: extends_def list_all_iff)
  show "ends_at_password x es"
    using face_is_chosen_defers [of L it e a] assms unfolding defers_def by (metis fst_conv same_append_eq snd_conv)
qed

lemma password_is_last:
  "list_all (\<lambda>ev. \<not> P ev) (butlast es) \<Longrightarrow> ev \<in> set es \<Longrightarrow> P ev \<Longrightarrow> last es = ev"
  by (induction es) (auto split: if_splits)

text \<open>C4: A typed password always wins: on an authentication line a non-empty token that is not the word
  that chooses face is the last thing the line looks at. Nothing is cleared after it, no attempt is
  made, and the line leaves the decision to the next module of the stack.\<close>

theorem typed_password_wins:
  assumes "authenticate L it ce e args took r = (c, r')" and "pr_log r' = pr_log r @ es"
    and "''reseal'' \<notin> set args" and "ev \<in> set es" and "typed_password ev"
  shows "c = IGNORE \<and> last es = ev \<and> list_all choosing es"
proof -
  have "phases L it ce e args r es c" using authenticate_phases [OF assms(1)] assms(2) by auto
  then show ?thesis
  proof (cases rule: phases.cases)
    case (not_chosen r1)
    from choice_events [OF this] assms(4,5) password_is_last [of typed_password es ev] show ?thesis
      by (auto simp: ends_at_password_def list_all_iff)
  next
    case (asking u ic r1 chosen k es0)
    from choice_events [OF asking(6,7)] have "list_all (\<lambda>ev. \<not> typed_password ev) chosen"
      by (simp add: ends_at_password_def)
    with attempts_events [OF asking(8)] asking(1) assms(4,5) show ?thesis by (auto simp: list_all_iff)
  qed (use assms(3,4) in auto)
qed

section \<open>Privileged prompts\<close>

lemma call_Inr: "call f evs r = (Inr x, r') \<Longrightarrow> pr_log r' = pr_log r @ evs x"
  by (auto simp: call_def split: prod.splits)

lemma require_confirmed_Inr [simp]: "require_confirmed c r = (Inr y, r') \<longleftrightarrow> c = Confirmed \<and> r' = r"
  by (cases c) (auto simp: require_confirmed_def)

lemma resolve_confirmed:
  assumes "resolve_intent_input L i r = (Inr Confirmed, r')"
  shows "i = InputConfirmed \<and> pr_log r' = pr_log r @ [Cleared True]"
  using assms by (cases i) (auto simp: resolve_intent_input_def clear_authtok_def io_bind_Inr dest!: call_Inr split: if_splits)

lemma confirmed_trace:
  assumes "confirm_face_intent L k r = (Inr Confirmed, r')"
  shows "\<exists>t. pr_log r' = pr_log r @ [Asked None (Inr (Some t)), Cleared True] \<and> classify_intent_input (Some t) = InputConfirmed"
proof -
  from assms obtain x r1 token r2 where 1: "info L FACE_INTENT_INFO r = (Inr x, r1)" and 2: "get_authtok L None r1 = (Inr token, r2)"
    and 3: "(case token of Inr (Some t) \<Rightarrow> resolve_intent_input L (classify_intent_input (Some t)) | _ \<Rightarrow> io_return Fallback) r2 =
      (Inr Confirmed, r')"
    by (auto simp: confirm_face_intent_def io_bind_Inr split: if_splits)
  from 3 obtain t where t: "token = Inr (Some t)" "resolve_intent_input L (classify_intent_input (Some t)) r2 = (Inr Confirmed, r')"
    by (auto split: sum.splits option.splits)
  from 1 2 t(1) have "pr_log r2 = pr_log r @ [Asked None (Inr (Some t))]" by (auto simp: calls dest!: call_Inr)
  with resolve_confirmed [OF t(2)] show ?thesis by auto
qed

text \<open>The events that stand for a confirmation, and the attestation they support.\<close>

definition attested :: "module_env \<Rightarrow> IntentAttestation \<Rightarrow> pam_event list \<Rightarrow> bool" where
  "attested e ic es \<longleftrightarrow> (if me_consent_required e
     then ic = PamConversation \<and> (\<exists>pre t. es = pre @ [Asked None (Inr (Some t)), Cleared True] \<and>
       classify_intent_input (Some t) = InputConfirmed)
     else ic = PolicyWaived)"

definition privileged :: "pam_items \<Rightarrow> bool" where
  "privileged it \<longleftrightarrow> (\<exists>s k. service_text it = Some s \<and> classify_service s = Some k \<and> requires_face_intent_confirmation k)"

lemma intent_trace:
  assumes "intent_of_service L it e a r = (Inr ic, r')" "privileged it"
  shows "\<not> ma_wait a \<and> \<not> ma_unseal a \<and> (\<exists>ic'. ic = Some ic' \<and> (\<exists>es. pr_log r' = pr_log r @ es \<and> attested e ic' es))"
proof -
  from assms obtain s k where s: "service_text it = Some s" "classify_service s = Some k" "requires_face_intent_confirmation k"
    unfolding privileged_def by blast
  from assms(1) s obtain r1 where m: "\<not> ma_wait a" "\<not> ma_unseal a" "privileged_face_is_rgb_only L r = (Inr False, r1)"
    and i: "(if \<not> me_consent_required e then io_return (Some PolicyWaived)
            else io_bind (confirm_face_intent L k) (\<lambda>c.
              io_bind (require_confirmed c) (\<lambda>_. io_return (Some PamConversation)))) r1 = (Inr ic, r')"
    by (auto simp: intent_of_service_def io_bind_Inr split: if_splits)
  obtain es where es: "pr_log r1 = pr_log r @ es" using keeps_Inl [OF confirm_logs(5) m(3)] unfolding extends_def by blast
  show ?thesis
  proof (cases "me_consent_required e")
    case False
    with m i es show ?thesis by (auto simp: attested_def)
  next
    case True
    with i have c: "confirm_face_intent L k r1 = (Inr Confirmed, r')" "ic = Some PamConversation"
      by (auto simp: io_bind_Inr)
    from confirmed_trace [OF c(1)] es obtain t where "classify_intent_input (Some t) = InputConfirmed"
      "pr_log r' = pr_log r @ es @ [Asked None (Inr (Some t)), Cleared True]" by auto
    with True m c(2) show ?thesis unfolding attested_def by auto
  qed
qed

lemma attested_append: "attested e ic es \<Longrightarrow> attested e ic (pre @ es)"
  by (auto simp: attested_def)

lemma chosen_trace:
  assumes "face_is_chosen L it e a r = (Inr ic, r')" "privileged it" "pr_log r' = pr_log r @ es"
  shows "\<not> ma_wait a \<and> \<not> ma_unseal a \<and> (\<exists>ic'. ic = Some ic' \<and> attested e ic' es)"
proof -
  let ?first = "if cosmic_choice it a then io_bind (confirm_cosmic_face L) require_confirmed else io_return ()"
  from assms(1) obtain r1 token r2 r3 where
    1: "?first r = (Inr (), r1)" and 2: "typed_token L it a r1 = (Inr token, r2)" and
    3: "defer_to_typed L a token r2 = (Inr (), r3)" and 4: "intent_of_service L it e a r3 = (Inr ic, r')"
    unfolding face_is_chosen_def io_bind_Inr by auto
  have "keeps (extends choosing) (typed_token L it a)" "keeps (extends choosing) (defer_to_typed L a token)"
    "keeps (extends choosing) ?first"
    by (auto simp: typed_token_def defer_to_typed_def calls intro!: logs confirm_logs split: sum.split option.split)
  then obtain pre where "pr_log r3 = pr_log r @ pre"
    using keeps_Inl [of "extends choosing" "typed_token L it a", OF _ 2] keeps_Inl [of "extends choosing" "defer_to_typed L a token", OF _ 3]
      keeps_Inl [of "extends choosing" ?first r, OF _ 1]
    unfolding extends_def by (metis append.assoc)
  with intent_trace [OF 4 assms(2)] attested_append [of e _ _ pre] assms(3) show ?thesis by fastforce
qed

lemma attempts_once:
  assumes "attempts it user a ic k es c" "\<not> ma_wait a" "\<not> ma_unseal a"
  shows "\<exists>reply. es = [Requested (Authenticate False user (service_lossy it) ic) reply]"
  using assms(1)
proof cases
  case (last_attempt c0 d)
  from last_attempt(2) show ?thesis by cases (use assms in auto)
qed (use assms in auto)

text \<open>C5: For a service that takes part in an elevation the module sends at most one request that can grant,
  a plain authentication and never the release of a secret, as the last event of the line. The
  attestation it carries is the machine's setting and nothing else: with consent required, the two events
  before it are the user's word for face and its successful removal; the waiver is sent only where
  the owner has turned the consent off.\<close>

theorem privileged_face_is_consented:
  assumes "authenticate L it ce e args took r = (c, r')" and "pr_log r' = pr_log r @ es"
    and "privileged it" and "Requested q reply \<in> set es" and "q \<noteq> Health" and "q \<noteq> FaceSensorStatus None"
  shows "\<exists>u pre ic. pi_user it = Some u \<and> es = pre @ [Requested q reply] \<and> list_all choosing pre \<and>
    q = Authenticate False (lossy u) (service_lossy it) (Some ic) \<and> attested e ic pre"
proof -
  have not: "\<not> choosing (Requested q reply)" using assms(5,6) by (simp add: choosing_def)
  have "phases L it ce e args r es c" using authenticate_phases [OF assms(1)] assms(2) by auto
  then show ?thesis
  proof (cases rule: phases.cases)
    case stashing
    with stash_authtok_trace [of L r] assms(4) show ?thesis by (auto simp: stashed_def)
  next
    case (not_chosen r1)
    from choice_events [OF this] assms(4) not show ?thesis by (auto simp: list_all_iff)
  next
    case (asking u ic r1 chosen k es0)
    from chosen_trace [OF asking(6) assms(3) asking(7)] obtain ic' where
      ic: "\<not> ma_wait (parse_args args)" "\<not> ma_unseal (parse_args args)" "ic = Some ic'" "attested e ic' chosen" by blast
    from attempts_once [OF asking(8) ic(1,2)] obtain reply' where
      "es0 = [Requested (Authenticate False (lossy u) (service_lossy it) ic) reply']" by blast
    with choice_events [OF asking(6,7)] asking ic assms(4) not show ?thesis
      by (auto simp: list_all_iff)
  qed (use assms(4) in auto)
qed

section \<open>Released secrets\<close>

text \<open>The secret an event hands on, and the kind that may go there.\<close>

definition secret_of :: "pam_event \<Rightarrow> (bytes \<times> KeyringSecretKind) option" where
  "secret_of ev = (case ev of
      SetAuthtok t \<Rightarrow> Some (t, LoginPassword)
    | WalletKey t \<Rightarrow> Some (t, KdeWalletKey)
    | KeyringSecret t \<Rightarrow> Some (t, GnomeKeyringToken)
    | Stashed key t _ \<Rightarrow> if key = GKR_TOKEN_STASH_KEY then Some (t, GnomeKeyringToken) else None
    | _ \<Rightarrow> None)"

definition follows_its_release :: "pam_items \<Rightarrow> string \<Rightarrow> pam_event list \<Rightarrow> bool" where
  "follows_its_release it user es \<longleftrightarrow> (\<forall>ev t kind. ev \<in> set es \<longrightarrow> secret_of ev = Some (t, kind) \<longrightarrow>
     (\<exists>pre post. es = pre @ Requested (UnsealPassword user (service_text it)) (Some (PasswordUnsealed t kind)) # ev # post))"

lemma follows_append:
  assumes "follows_its_release it user es" "follows_its_release it user es'"
  shows "follows_its_release it user (es @ es')"
  unfolding follows_its_release_def
proof (intro allI impI)
  fix ev t kind
  assume "ev \<in> set (es @ es')" and k: "secret_of ev = Some (t, kind)"
  then consider "ev \<in> set es" | "ev \<in> set es'" by auto
  then show "\<exists>pre post. es @ es' = pre @ Requested (UnsealPassword user (service_text it)) (Some (PasswordUnsealed t kind)) # ev # post"
  proof cases
    case 1
    with assms(1) k obtain pre post where
      "es = pre @ Requested (UnsealPassword user (service_text it)) (Some (PasswordUnsealed t kind)) # ev # post"
      unfolding follows_its_release_def by blast
    then show ?thesis by (intro exI [of _ pre] exI [of _ "post @ es'"]) simp
  next
    case 2
    with assms(2) k obtain pre post where
      "es' = pre @ Requested (UnsealPassword user (service_text it)) (Some (PasswordUnsealed t kind)) # ev # post"
      unfolding follows_its_release_def by blast
    then show ?thesis by (intro exI [of _ "es @ pre"] exI [of _ post]) simp
  qed
qed

lemma follows_none: "list_all (\<lambda>ev. secret_of ev = None) es \<Longrightarrow> follows_its_release it user es"
  by (auto simp: follows_its_release_def list_all_iff)

lemma attempt_follows: "attempt it user a ic es c d \<Longrightarrow> follows_its_release it user es"
proof (induction rule: attempt.induct)
  case (unsealed secret kind es d)
  then show ?case
    by (cases kind) (auto simp: released_def follows_its_release_def secret_of_def intro!: exI [of _ "[]"])
qed (auto intro!: follows_none simp: secret_of_def)

lemma attempts_follow: "attempts it user a ic k es c \<Longrightarrow> follows_its_release it user es"
  by (induction rule: attempts.induct) (auto intro: attempt_follows follows_append)

lemma choosing_no_secret: "list_all choosing es \<Longrightarrow> list_all (\<lambda>ev. secret_of ev = None) es"
  by (auto simp: list_all_iff choosing_def secret_of_def split: pam_event.splits)

text \<open>C11: An authentication line hands on only what the daemon released to it for the user, right after the
  release, and by its kind: the login password to the PAM token, a wallet key to the wallet daemon, a keyring
  token to the stash of the session line. A key or a token never becomes the PAM token.\<close>

theorem released_secret_goes_by_its_kind:
  assumes "authenticate L it ce e args took r = (c, r')" and "pr_log r' = pr_log r @ es"
    and "ev \<in> set es" and "secret_of ev = Some (t, kind)"
  shows "\<exists>u pre post. pi_user it = Some u \<and>
    es = pre @ Requested (UnsealPassword (lossy u) (service_text it)) (Some (PasswordUnsealed t kind)) # ev # post"
proof -
  have "phases L it ce e args r es c" using authenticate_phases [OF assms(1)] assms(2) by auto
  then show ?thesis
  proof (cases rule: phases.cases)
    case stashing
    with stash_authtok_trace [of L r] assms(3,4) show ?thesis
      by (auto simp: stashed_def secret_of_def RESEAL_STASH_KEY_def GKR_TOKEN_STASH_KEY_def)
  next
    case (not_chosen r1)
    from choice_events [OF this] choosing_no_secret [of es] assms(3,4) show ?thesis by (auto simp: list_all_iff)
  next
    case (asking u ic r1 chosen k es0)
    from choice_events [OF asking(6,7)] have "follows_its_release it (lossy u) chosen"
      by (simp add: choosing_no_secret follows_none)
    from follows_append [OF this attempts_follow [OF asking(8)]] asking(1,2) assms(3,4) show ?thesis
      unfolding follows_its_release_def by blast
  qed (use assms(3) in auto)
qed

section \<open>How often a line asks\<close>

definition asks_for :: "bool \<Rightarrow> pam_event \<Rightarrow> bool" where
  "asks_for release ev = (case ev of
      Requested (UnsealPassword _ _) _ \<Rightarrow> release
    | Requested (Authenticate _ _ _ _) _ \<Rightarrow> \<not> release
    | _ \<Rightarrow> False)"

lemma attempt_asks: "attempt it user a ic es c d \<Longrightarrow> length (filter (asks_for b) es) \<le> 1"
proof (induction rule: attempt.induct)
  case (unsealed secret kind es d)
  then have "filter (asks_for b) es = []"
    by (auto simp: released_def asks_for_def split: KeyringSecretKind.splits)
  then show ?case by simp
qed (auto simp: asks_for_def)

lemma choosing_asks: "choosing ev \<Longrightarrow> \<not> asks_for b ev"
  by (cases ev) (auto simp: choosing_def asks_for_def)

lemma attempts_ask:
  "attempts it user a ic k es c \<Longrightarrow> length (filter (asks_for b) es) \<le> (if ma_wait a then k else 1)"
proof (induction rule: attempts.induct)
  case (last_attempt es c d c')
  with attempt_asks [of it user a ic es c d b] show ?case by auto
next
  case (another es d n es' c)
  with attempt_asks [OF another(2), of b] show ?case by auto
qed

text \<open>C38: A line tires out: one that does not wait asks the daemon at most once for a release and once for a
  verification, and one that waits asks at most 51 times for each, whatever the daemon answers and however
  long each attempt takes.\<close>

theorem attempts_are_bounded:
  assumes "authenticate L it ce e args took r = (c, r')" and "pr_log r' = pr_log r @ es"
  shows "length (filter (asks_for release) es) \<le> (if ''wait'' \<in> set args then 51 else 1)"
proof -
  have quiet: "filter (asks_for release) x = []" if "list_all choosing x \<or> stashed x" for x
    using that by (auto simp: filter_empty_conv list_all_iff stashed_def choosing_asks) (simp_all add: asks_for_def)
  have "phases L it ce e args r es c" using authenticate_phases [OF assms(1)] assms(2) by auto
  then show ?thesis
  proof (cases rule: phases.cases)
    case stashing
    with stash_authtok_trace [of L r] have "stashed es" by auto
    then show ?thesis by (simp add: quiet)
  next
    case (not_chosen r1)
    from choice_events [OF this] show ?thesis by (simp add: quiet)
  next
    case (asking u ic r1 chosen k es0)
    from choice_events [OF asking(6,7)] have "filter (asks_for release) chosen = []" by (simp add: quiet)
    with attempts_ask [OF asking(8), of release] asking(1,9) show ?thesis by (auto split: if_splits)
  qed simp
qed

section \<open>The session line\<close>


definition delivers :: "pam_event \<Rightarrow> bool" where
  "delivers ev = (case ev of
      WalletKey _ \<Rightarrow> True | KeyringSecret _ \<Rightarrow> True | Requested (UnsealKeyring _ _ _ _) _ \<Rightarrow> True | _ \<Rightarrow> False)"

text \<open>The mark a delivery leaves first, and the event of its store that failed.\<close>

abbreviation mark_failed :: pam_event where
  "mark_failed \<equiv> Stashed GKR_TOKEN_STASH_KEY [] False"



definition failures :: "'p pam_run \<Rightarrow> nat" where
  "failures r = count_list (pr_log r) mark_failed"


lemma failures_append [simp]:
  "failures \<lparr> pr_state = p, pr_log = es @ es' \<rparr> = count_list es mark_failed + count_list es' mark_failed"
  by (simp add: failures_def)











section \<open>Examples\<close>

text \<open>A desk with a daemon that grants and a user who types \<open>yes\<close>; the state is the data of the
  transaction.\<close>

definition example_lib :: "bytes option \<Rightarrow> (string \<Rightarrow> bytes option) pam_lib" where
  "example_lib cached = \<lparr>
     pl_get_authtok = (\<lambda>p s. (Inr (Some [121, 101, 115]), s)),
     pl_get_cached_authtok = (\<lambda>s. (Inr cached, s)),
     pl_clear_authtok = (\<lambda>s. (True, s)),
     pl_set_authtok = (\<lambda>t s. (True, s)),
     pl_info = (\<lambda>t s. (True, s)),
     pl_send_secret = (\<lambda>key b s. (True, s(key \<mapsto> b))),
     pl_get_secret = (\<lambda>key s. (case s key of None \<Rightarrow> Inl () | Some b \<Rightarrow> Inr b, s)),
     pl_login_env = (\<lambda>s. (False, s)),
     pl_request = (\<lambda>q s. (case q of
         Health \<Rightarrow> Some (HealthReply ''secure'' None)
       | Authenticate _ _ _ _ \<Rightarrow> Some (AuthReply True True False [])
       | UnsealPassword _ _ \<Rightarrow> Some (PasswordUnsealed [112, 119] LoginPassword)
       | UnsealKeyring _ _ _ _ \<Rightarrow> Some (PasswordUnsealed [9] GnomeKeyringToken)
       | _ \<Rightarrow> None, s)),
     pl_putenv = (\<lambda>t s. (True, s)),
     pl_syslog = (\<lambda>t s. ((), s)),
     pl_wallet_helper = (\<lambda>u key s. (HelperMissing, s)),
     pl_keyring_helper = (\<lambda>u b s. (None, s)),
     pl_wallet_salt = (\<lambda>s. (Inr None, s)) \<rparr>"

definition example_env :: module_env where
  "example_env = \<lparr> me_consent_required = True, me_live_session = False \<rparr>"

definition example_run :: "(string \<Rightarrow> bytes option) pam_run" where
  "example_run = \<lparr> pr_state = (\<lambda>_. None), pr_log = [] \<rparr>"

lemma example_lib_sel [simp]:
  "pl_get_authtok (example_lib x) p s = (Inr (Some [121, 101, 115]), s)" "pl_get_cached_authtok (example_lib x) s = (Inr x, s)"
  "pl_clear_authtok (example_lib x) s = (True, s)" "pl_set_authtok (example_lib x) t s = (True, s)"
  "pl_info (example_lib x) m s = (True, s)" "pl_send_secret (example_lib x) key b s = (True, s(key \<mapsto> b))"
  "pl_get_secret (example_lib x) key s = (case s key of None \<Rightarrow> Inl () | Some b \<Rightarrow> Inr b, s)"
  "pl_login_env (example_lib x) s = (False, s)"
  "pl_request (example_lib x) Health s = (Some (HealthReply ''secure'' None), s)"
  "pl_request (example_lib x) (Authenticate f u sv ic) s = (Some (AuthReply True True False []), s)"
  "pl_request (example_lib x) (UnsealPassword u sv) s = (Some (PasswordUnsealed [112, 119] LoginPassword), s)"
  "pl_request (example_lib x) (UnsealKeyring u sv hp ph) s = (Some (PasswordUnsealed [9] GnomeKeyringToken), s)"
  "snd (pl_request (example_lib x) q s) = s"
  "pl_wallet_helper (example_lib x) u wk s = (HelperMissing, s)" "pl_keyring_helper (example_lib x) u b s = (None, s)"
  "pl_putenv (example_lib x) m s = (True, s)" "pl_syslog (example_lib x) m s = ((), s)"
  "pl_wallet_salt (example_lib x) s = (Inr None, s)"
  by (simp_all add: example_lib_def)

lemma example_yes: "classify_intent_input (Some [121, 101, 115]) = InputConfirmed"
  by code_simp

lemma example_service: "service_text example_sudo = Some ''sudo''" "service_lossy example_sudo = Some ''sudo''"
  "lossy ''ann'' = ''ann''"
proof -
  show "lossy ''ann'' = ''ann''" by code_simp
  show "service_lossy example_sudo = Some ''sudo''" using example_not_remote(2) by (simp add: service_lossy_def example_sudo_def)
  have "is_text ''sudo''" by code_simp
  then show "service_text example_sudo = Some ''sudo''" by (simp add: service_text_def example_sudo_def)
qed

lemmas example_chosen = authenticate_def Let_def example_not_remote(1) parse_args_def face_is_chosen_def
  cosmic_choice_def typed_token_def active_probe_def defer_to_typed_def intent_of_service_def example_service
  example_not_remote(3) privileged_face_is_rgb_only_def confirm_face_intent_def resolve_intent_input_def
  require_confirmed_def calls call_def io_bind_def io_return_def io_lift_def example_env_def example_yes

lemma example_grant:
  "authenticate (example_lib None) example_sudo example_caller example_env [] (\<lambda>_. 0) example_run =
     (SUCCESS, \<lparr> pr_state = (\<lambda>_. None), pr_log = [Peeked (Inr None), Requested Health (Some (HealthReply ''secure'' None)),
        Asked None (Inr (Some [121, 101, 115])), Cleared True,
        Requested (Authenticate False ''ann'' (Some ''sudo'') (Some PamConversation)) (Some (AuthReply True True False []))] \<rparr>)"
proof -
  have "pi_user example_sudo = Some ''ann''" by (simp add: example_sudo_def)
  then show ?thesis
    by (simp add: example_chosen attempt_loop.simps [of "example_lib None" example_sudo] one_attempt_def try_verify_def example_run_def)
qed

lemma example_typed:
  "authenticate (example_lib (Some [112])) example_sudo example_caller example_env [] (\<lambda>_. 0) example_run =
     (IGNORE, \<lparr> pr_state = (\<lambda>_. None), pr_log = [Peeked (Inr (Some [112]))] \<rparr>)"
proof -
  have "pi_user example_sudo = Some ''ann''" by (simp add: example_sudo_def)
  then show ?thesis by (simp add: example_chosen example_run_def)
qed

definition example_greeter :: pam_items where
  "example_greeter = example_sudo \<lparr> pi_service := Some ''gdm-password'' \<rparr>"

lemma example_greeter_local: "\<not> is_remote_session example_greeter example_caller"
  "service_text example_greeter = Some ''gdm-password''" "classify_service ''gdm-password'' = Some Greeter"
proof -
  have t: "is_text ''gdm-password''" "\<not> is_remote_desktop_service ''gdm-password''" "lossy ''gdm-password'' = ''gdm-password''"
    "\<not> names_remote_x_display (lossy ''/dev/tty2'')" by code_simp+
  show k: "classify_service ''gdm-password'' = Some Greeter" by code_simp
  show "service_text example_greeter = Some ''gdm-password''"
    using t by (simp add: service_text_def example_greeter_def)
  show "\<not> is_remote_session example_greeter example_caller"
    using t k by (simp add: is_remote_session_def example_greeter_def example_sudo_def example_caller_def
        item_is_remote_display_def service_is_remote_def)
qed

lemma example_release:
  "authenticate (example_lib None) example_greeter example_caller example_env [''unseal'', ''facefirst''] (\<lambda>_. 0) example_run =
     (SUCCESS, \<lparr> pr_state = (\<lambda>_. None), pr_log = [Peeked (Inr None),
        Requested (UnsealPassword ''ann'' (Some ''gdm-password'')) (Some (PasswordUnsealed [112, 119] LoginPassword)),
        SetAuthtok [112, 119]] \<rparr>)"
proof -
  have "pi_user example_greeter = Some ''ann''" by (simp add: example_greeter_def example_sudo_def)
  then show ?thesis
    by (simp add: example_chosen example_greeter_local attempt_loop.simps [of "example_lib None" example_greeter] one_attempt_def
        try_unseal_def release_secret_def code_for_def example_run_def)
qed

theorem success_is_a_grant_witness:
  "\<exists>u pre ev post. pi_user example_sudo = Some u \<and> pr_log (snd (authenticate (example_lib None) example_sudo example_caller
     example_env [] (\<lambda>_. 0) example_run)) = pre @ ev # post \<and> grants (lossy u) ev"
  using success_is_a_grant [OF example_grant] unfolding example_grant by (auto simp: example_run_def)

theorem typed_password_wins_witness: "choosing (Peeked (Inr (Some [112])))"
  using typed_password_wins [OF example_typed, of "[Peeked (Inr (Some [112]))]" "Peeked (Inr (Some [112]))"]
  by (simp add: example_run_def)

theorem privileged_face_is_consented_witness:
  "attested example_env PamConversation [Peeked (Inr None), Requested Health (Some (HealthReply ''secure'' None)),
     Asked None (Inr (Some [121, 101, 115])), Cleared True]"
proof -
  have "privileged example_sudo" using example_service(1) example_not_remote(3) by (simp add: privileged_def)
  from privileged_face_is_consented [OF example_grant _ this,
      of _ "Authenticate False ''ann'' (Some ''sudo'') (Some PamConversation)" "Some (AuthReply True True False [])"]
  show ?thesis by (auto simp: example_run_def)
qed

theorem released_secret_goes_by_its_kind_witness:
  "\<exists>u pre post. pi_user example_greeter = Some u \<and>
     pr_log (snd (authenticate (example_lib None) example_greeter example_caller example_env [''unseal'', ''facefirst'']
       (\<lambda>_. 0) example_run)) =
     pre @ Requested (UnsealPassword (lossy u) (Some ''gdm-password''))
       (Some (PasswordUnsealed [112, 119] LoginPassword)) # SetAuthtok [112, 119] # post"
  using released_secret_goes_by_its_kind [OF example_release, of _ "SetAuthtok [112, 119]" "[112, 119]" LoginPassword]
  unfolding example_release example_greeter_local by (simp add: example_run_def secret_of_def)

theorem attempts_are_bounded_witness:
  "length (filter (asks_for False) (pr_log (snd (authenticate (example_lib None) example_sudo example_caller
     example_env [] (\<lambda>_. 0) example_run)))) \<le> 1"
  using attempts_are_bounded [OF example_grant, of _ False] unfolding example_grant by (simp add: example_run_def)

lemmas example_session = open_session_def reseal_and_deliver_def try_reseal_session_def kwallet_login_set_def
  deliver_keyring_secret_def hand_on_def hand_token_to_keyring_daemon_def calls call_def io_bind_def io_return_def
  example_run_def example_service


text \<open>A library whose stores fail: the second session line asks and delivers again.\<close>

lemma failed_mark_delivers_again:
  assumes "L = (example_lib None)\<lparr> pl_send_secret := (\<lambda>key b s. (False, s)) \<rparr>"
  shows "length (filter delivers (pr_log (snd (open_session L example_sudo [''reseal'']
    (snd (open_session L example_sudo [''reseal''] example_run)))))) = 4"
proof -
  have "pi_user example_sudo = Some ''ann''" by (simp add: example_sudo_def)
  then show ?thesis
    unfolding assms by (simp add: example_session delivers_def)
qed


end
