(* ===== verification/Pam_Gate.thy ===== *)
theory Pam_Gate
  imports Pam_Contract Request_Gate
begin

text \<open>
  The PAM module against the daemon's request gate: whatever the module sends carries the evidence
  of intent the daemon asks for, so that the two sides' readings of the service name and of the
  consent setting agree.
\<close>

section \<open>Service names that are not text\<close>

lemma repair_text: "is_utf8 bs \<Longrightarrow> utf8_repair bs = bs"
proof (induction bs rule: is_utf8.induct)
  case (2 b cs)
  obtain n c where f: "utf8_first b cs = (n, c)" by fastforce
  then have "n \<noteq> 0" by (auto simp: utf8_first_def Let_def split: if_splits)
  then have "take n (b # cs) @ drop (n - 1) cs = b # cs" by (cases n) simp_all
  with 2 f show ?case by auto
qed simp

lemma repair_marks: "\<not> is_utf8 bs \<Longrightarrow> 239 \<in> set (utf8_repair bs)"
proof (induction bs rule: is_utf8.induct)
  case (2 b cs)
  obtain n c where "utf8_first b cs = (n, c)" by fastforce
  with 2 show ?case by auto
qed simp

lemma trim_front_keeps: "239 \<in> set s \<Longrightarrow> 239 \<in> set (trim_front s)"
proof (induction s rule: trim_front.induct)
  case (1 s)
  have "239 \<notin> set (take (ws_len s) s)"
    by (auto simp: ws_len_def is_ascii_ws_def is_ws3_def split: list.splits if_splits)
  with "1.prems" have "239 \<in> set (drop (ws_len s) s)" by (metis Un_iff append_take_drop_id set_append)
  with 1 show ?case by (simp add: trim_front.simps [of s])
qed

lemma trim_back_keeps: "239 \<in> set s \<Longrightarrow> 239 \<in> set (trim_back_rev s)"
proof (induction s rule: trim_back_rev.induct)
  case (1 s)
  have "239 \<notin> set (take (ws_len_rev s) s)"
    by (auto simp: ws_len_rev_def is_ascii_ws_def is_ws3_def split: list.splits if_splits)
  with "1.prems" have "239 \<in> set (drop (ws_len_rev s) s)" by (metis Un_iff append_take_drop_id set_append)
  with 1 show ?case by (simp add: trim_back_rev.simps [of s])
qed

lemma codes_text_of: "codes (text_of bs) = map (\<lambda>b. b mod 256) bs"
  by (simp add: codes_def text_of_def comp_def)

lemma SERVICES_ascii: "list_all (\<lambda>(name, _). list_all (\<lambda>b. b < 128) (codes name)) SERVICES"
  by (simp add: SERVICES_def codes_def)

lemma repaired_name_is_unlisted:
  assumes "\<not> is_text s"
  shows "classify_service (lossy s) = None"
proof (rule ccontr)
  assume "classify_service (lossy s) \<noteq> None"
  then obtain k name where n: "(name, k) \<in> set SERVICES" "ascii_lower (trim (codes (lossy s))) = codes name"
    using classify_service_exact by blast
  have "239 \<in> set (codes (lossy s))"
    using repair_marks [of "codes s"] assms by (force simp: lossy_def codes_text_of is_text_def)
  then have "239 \<in> set (trim (codes (lossy s)))" by (simp add: trim_def trim_front_keeps trim_back_keeps)
  then have "239 \<in> set (ascii_lower (trim (codes (lossy s))))" by (force simp: ascii_lower_def)
  then have "239 \<in> set (codes name)" using n(2) by simp
  moreover have "list_all (\<lambda>b. b < 128) (codes name)" using n(1) SERVICES_ascii by (auto simp: list_all_iff)
  ultimately show False by (auto simp: list_all_iff)
qed

lemma text_is_kept: "is_text s \<Longrightarrow> lossy s = s"
  by (simp add: lossy_def is_text_def repair_text) (simp add: text_of_def codes_def comp_def)

text \<open>The name the daemon classifies is the one the module classified.\<close>

lemma services_agree: "requires_confirmation (service_lossy it) \<longleftrightarrow> privileged it"
  by (cases "pi_service it")
    (auto simp: requires_confirmation_def service_lossy_def service_text_def privileged_def repaired_name_is_unlisted
      text_is_kept split: option.splits)

section \<open>The gate\<close>

lemma intent_unprivileged:
  assumes "face_is_chosen L it e a r = (Inr ic, r')" "\<not> privileged it"
  shows "ic = None"
proof -
  from assms(1) obtain r3 where i: "intent_of_service L it e a r3 = (Inr ic, r')"
    unfolding face_is_chosen_def io_bind_Inr by blast
  then show ?thesis using assms(2)
    by (auto simp: intent_of_service_def privileged_def bind_eq_Some_conv split: option.splits if_splits)
qed

lemma attempts_authenticate:
  assumes "attempts it user a ic k es c" "Requested (Authenticate v u svc x) reply \<in> set es"
  shows "svc = service_lossy it \<and> (x = ic \<or> x = None \<and> ma_unseal a)"
  using assms
proof (induction rule: attempts.induct)
  case (last_attempt es c d c')
  from last_attempt(1) show ?case
    by cases (use last_attempt(3) in \<open>auto simp: released_def split: KeyringSecretKind.splits\<close>)
next
  case (another es d n es' c)
  from another(2) have "Requested (Authenticate v u svc x) reply \<in> set es \<Longrightarrow> ?case"
    by cases (auto simp: released_def split: KeyringSecretKind.splits)
  with another show ?case by auto
qed

text \<open>C6: Every authentication the module sends passes the daemon's check of intent, when the module runs as
  root and both sides read the same consent setting: a privileged service carries the attestation the
  daemon honours and any other service carries none, also where the service name is not text.\<close>

theorem module_requests_meet_the_intent_gate:
  assumes "authenticate L it ce e args took r = (c, r')" and "pr_log r' = pr_log r @ es"
    and "Requested (Authenticate v u svc ic) reply \<in> set es"
    and "peer_uid peer = 0" and "h_consent_required h = me_consent_required e"
  shows "intent_met h (Authenticate v u svc ic) peer"
proof -
  have "phases L it ce e args r es c" using authenticate_phases [OF assms(1)] assms(2) by auto
  then show ?thesis
  proof (cases rule: phases.cases)
    case stashing
    with stash_authtok_trace [of L r] assms(3) show ?thesis by (auto simp: stashed_def)
  next
    case (not_chosen r1)
    from choice_events [OF this] assms(3) show ?thesis by (auto simp: list_all_iff choosing_def)
  next
    case (asking u' ic' r1 chosen k es0)
    have "Requested (Authenticate v u svc ic) reply \<in> set es0"
      using choice_events [OF asking(6,7)] asking(1) assms(3) by (auto simp: list_all_iff choosing_def)
    from attempts_authenticate [OF asking(8) this] have svc: "svc = service_lossy it"
      and ic: "ic = ic' \<or> ic = None \<and> ma_unseal (parse_args args)" by auto
    show ?thesis
    proof (cases "privileged it")
      case True
      with chosen_trace [OF asking(6) True asking(7)] ic obtain x where "ic = Some x" "attested e x chosen" by auto
      with True svc assms(4,5) show ?thesis
        by (auto simp: intent_met_def services_agree has_trusted_confirmation_def attested_def split: if_splits)
    next
      case False
      with intent_unprivileged [OF asking(6) False] ic svc show ?thesis by (auto simp: intent_met_def services_agree)
    qed
  qed (use assms(3) in auto)
qed

theorem module_requests_meet_the_intent_gate_witness:
  "\<exists>h peer. peer_uid peer = 0 \<and> h_consent_required h \<and>
     intent_met h (Authenticate False ''ann'' (Some ''sudo'') (Some PamConversation)) peer"
proof -
  obtain h :: host where h: "h_consent_required h" by (metis host.select_convs(3))
  obtain peer :: Peer where p: "peer_uid peer = 0" by (metis Peer.select_convs(1))
  let ?q = "Authenticate False ''ann'' (Some ''sudo'') (Some PamConversation)"
  let ?es = "[Peeked (Inr None), Requested Health (Some (HealthReply ''secure'' None)),
    Asked None (Inr (Some [121, 101, 115])), Cleared True, Requested ?q (Some (AuthReply True True False []))]"
  have "pr_log \<lparr> pr_state = (\<lambda>_. None) :: string \<Rightarrow> bytes option, pr_log = ?es \<rparr> = pr_log example_run @ ?es"
    "Requested ?q (Some (AuthReply True True False [])) \<in> set ?es" "h_consent_required h = me_consent_required example_env"
    using h by (simp_all add: example_run_def example_env_def)
  from module_requests_meet_the_intent_gate [OF example_grant this(1,2) p this(3)] h p show ?thesis by blast
qed

end
