(* ===== verification/Pam_Grammar.thy ===== *)
theory Pam_Grammar
  imports Rust_Text
begin

text \<open>
  Reading PAM stack files (\<^verbatim>\<open>irlume-cli/src/pamwire/grammar.rs\<close>): how the command line splits a line into
  the fields libpam reads, which lines it does not read as libpam does, what a control does with each
  return value, which line is the password step, and whether every path through a session stack
  reaches irlume's line. The files that includes name are read by a function argument.
\<close>

section \<open>Fields\<close>

definition TYPES :: "string list" where
  "TYPES = [''auth'', ''account'', ''password'', ''session'']"

definition is_delimiter :: "char \<Rightarrow> bool" where
  "is_delimiter c \<longleftrightarrow> c = CHR '' '' \<or> c = CHR 0x09 \<or> c = CHR 0x0A"

definition blank_or_tab :: "char \<Rightarrow> bool" where
  "blank_or_tab c \<longleftrightarrow> c = CHR '' '' \<or> c = CHR 0x09"

text \<open>The inside of a bracket that was opened and what follows the bracket that closes it.\<close>

fun bracket_split :: "string \<Rightarrow> string \<times> string" where
  "bracket_split [] = ([], [])"
| "bracket_split (c # cs) =
     (if c = CHR '']'' then ([], cs)
      else if c = CHR 0x5C \<and> starts_with cs '']'' then apfst (\<lambda>f. c # CHR '']'' # f) (bracket_split (tl cs))
      else apfst ((#) c) (bracket_split cs))"

definition next_field :: "string \<Rightarrow> (string \<times> string) option" where
  "next_field rest = (case dropWhile is_delimiter rest of
      [] \<Rightarrow> None
    | c # cs \<Rightarrow>
        if c = CHR ''['' then Some (bracket_split cs)
        else Some (takeWhile (\<lambda>d. \<not> is_delimiter d) (c # cs), dropWhile (\<lambda>d. \<not> is_delimiter d) (c # cs)))"

definition type_field :: "string \<Rightarrow> (string \<times> string) option" where
  "type_field rest = map_option (apfst (\<lambda>kind. case strip_prefix ''-'' kind of Some k \<Rightarrow> k | None \<Rightarrow> kind)) (next_field rest)"

definition directive :: "string \<Rightarrow> string" where
  "directive line = takeWhile (\<lambda>c. c \<noteq> CHR ''#'') (dropWhile blank_or_tab line)"

record Head =
  hd_phase :: string
  hd_control :: string
  hd_rest :: string
  hd_known_type :: bool

definition head :: "string \<Rightarrow> Head option" where
  "head line = (case type_field (directive line) of
      None \<Rightarrow> None
    | Some (kind, rest) \<Rightarrow>
        if eq_ignore_ascii_case kind ''@include'' then None
        else let phase = find (\<lambda>p. eq_ignore_ascii_case p kind) TYPES;
                 (control, rest') = (case next_field rest of Some (f, r) \<Rightarrow> (f, r) | None \<Rightarrow> ([], []))
          in Some \<lparr> hd_phase = (case phase of Some p \<Rightarrow> p | None \<Rightarrow> ''auth''), hd_control = control, hd_rest = rest',
            hd_known_type = (phase \<noteq> None) \<rparr>)"

definition third_field :: "Head \<Rightarrow> string option" where
  "third_field h = map_option fst (next_field (hd_rest h))"

lemma bracket_split_shorter: "length (snd (bracket_split s)) \<le> length s"
proof (induction s rule: bracket_split.induct)
  case (2 c cs)
  have "length (tl cs) \<le> length cs" by simp
  with 2 show ?case by (auto simp del: length_tl)
qed simp

lemma next_field_shorter: "next_field s = Some (f, r) \<Longrightarrow> length r < length s"
proof -
  assume a: "next_field s = Some (f, r)"
  then obtain c cs where d: "dropWhile is_delimiter s = c # cs" by (auto simp: next_field_def split: list.splits)
  have l: "length (c # cs) \<le> length s" using length_dropWhile_le [of is_delimiter s] unfolding d .
  show ?thesis
  proof (cases "c = CHR ''[''")
    case True
    with a d have "r = snd (bracket_split cs)" by (auto simp: next_field_def)
    with bracket_split_shorter [of cs] l show ?thesis by simp
  next
    case False
    have c: "\<not> is_delimiter c" using d by (metis dropWhile_eq_Cons_conv)
    with False a d have "r = dropWhile (\<lambda>d. \<not> is_delimiter d) cs" by (auto simp: next_field_def)
    with length_dropWhile_le [of "\<lambda>d. \<not> is_delimiter d" cs] l show ?thesis by simp
  qed
qed

function all_fields :: "string \<Rightarrow> string list" where
  "all_fields s = (case next_field s of None \<Rightarrow> [] | Some (f, r) \<Rightarrow> f # all_fields r)"
  by pat_completeness auto
termination by (relation "measure length") (auto simp: next_field_shorter)

definition fields_after_control :: "Head \<Rightarrow> string list" where
  "fields_after_control h = all_fields (hd_rest h)"

definition at_include_target :: "string \<Rightarrow> string option" where
  "at_include_target line = (case type_field (directive line) of
      None \<Rightarrow> None
    | Some (kind, rest) \<Rightarrow>
        if \<not> eq_ignore_ascii_case kind ''@include'' then None else map_option fst (next_field rest))"

definition is_at_include :: "string \<Rightarrow> bool" where
  "is_at_include line = (case type_field (directive line) of
      None \<Rightarrow> False | Some (kind, _) \<Rightarrow> eq_ignore_ascii_case kind ''@include'')"

definition names_stack :: "Head \<Rightarrow> bool" where
  "names_stack h \<longleftrightarrow> eq_ignore_ascii_case (hd_control h) ''include'' \<or> eq_ignore_ascii_case (hd_control h) ''substack''"

definition stack_name :: "Head \<Rightarrow> string option" where
  "stack_name h = (if names_stack h then third_field h else None)"

section \<open>Controls\<close>

definition CONTROL_KEYWORDS :: "string list" where
  "CONTROL_KEYWORDS = [''required'', ''requisite'', ''sufficient'', ''optional'', ''include'', ''substack'']"

definition RETURN_VALUES :: "string list" where
  "RETURN_VALUES = [''success'', ''open_err'', ''symbol_err'', ''service_err'', ''system_err'', ''buf_err'',
     ''perm_denied'', ''auth_err'', ''cred_insufficient'', ''authinfo_unavail'', ''user_unknown'', ''maxtries'',
     ''new_authtok_reqd'', ''acct_expired'', ''session_err'', ''cred_unavail'', ''cred_expired'', ''cred_err'',
     ''no_module_data'', ''conv_err'', ''authtok_err'', ''authtok_recover_err'', ''authtok_lock_busy'',
     ''authtok_disable_aging'', ''try_again'', ''ignore'', ''abort'', ''authtok_expired'', ''module_unknown'',
     ''bad_item'', ''conv_again'', ''incomplete'', ''default'']"

definition MAX_JUMP :: nat where "MAX_JUMP = 2147483647"

definition control_blank :: "char \<Rightarrow> bool" where
  "control_blank c \<longleftrightarrow> c = CHR '' '' \<or> (9 \<le> (of_char c :: nat) \<and> (of_char c :: nat) \<le> 13)"

datatype PamAction = DoIgnore | DoOk | DoDone | DoBad | DoDie | DoReset | Jump nat

definition ACTION_NAMES :: "(string \<times> PamAction) list" where
  "ACTION_NAMES = [(''ignore'', DoIgnore), (''ok'', DoOk), (''done'', DoDone), (''bad'', DoBad), (''die'', DoDie),
     (''reset'', DoReset)]"

text \<open>The number that digits write.\<close>

definition digits_value :: "string \<Rightarrow> nat" where
  "digits_value ds = fold (\<lambda>d n. n * 10 + (of_char d - 48)) ds 0"

definition too_far :: "nat \<Rightarrow> bool" where
  "too_far n \<longleftrightarrow> MAX_JUMP < n"

lemma too_far_code [code]: "too_far n \<longleftrightarrow> (2147483647 :: int) < int n"
  by (auto simp: too_far_def MAX_JUMP_def)

text \<open>One pair: the value, its action, where the action is written (first byte and the byte after it), and
  the rest of the control with its position.\<close>

definition next_pair :: "nat \<Rightarrow> string \<Rightarrow> ((string \<times> PamAction \<times> nat \<times> nat) \<times> string) option" where
  "next_pair len s = (case find (starts_with s) RETURN_VALUES of
      None \<Rightarrow> None
    | Some value \<Rightarrow>
        let s2 = dropWhile control_blank (drop (length value) s) in
        if s2 = [] \<or> hd s2 \<noteq> CHR ''='' then None
        else let s3 = dropWhile control_blank (tl s2); at = len - length s3 in
          if s3 = [] then None
          else (case find (\<lambda>(name, _). starts_with s3 name) ACTION_NAMES of
              Some (name, action) \<Rightarrow> Some ((value, action, at, at + length name), drop (length name) s3)
            | None \<Rightarrow>
                let ds = takeWhile is_digit s3; n = digits_value ds in
                if ds = [] \<or> too_far n \<or> n = 0 then None
                else Some ((value, Jump n, at, at + length ds), drop (length ds) s3)))"

lemma RETURN_VALUES_nonempty: "v \<in> set RETURN_VALUES \<Longrightarrow> v \<noteq> []"
  by (auto simp: RETURN_VALUES_def)

lemma next_pair_shorter: "next_pair t s = Some (p, r) \<Longrightarrow> length r < length s"
proof -
  assume a: "next_pair t s = Some (p, r)"
  then obtain v where v: "find (starts_with s) RETURN_VALUES = Some v" by (auto simp: next_pair_def split: option.splits)
  then have "v \<in> set RETURN_VALUES" "starts_with s v" by (auto simp: find_Some_iff)
  then have "v \<noteq> []" "length v \<le> length s"
    using RETURN_VALUES_nonempty by (auto simp: starts_with_def dest: arg_cong [where f = length])
  let ?s2 = "dropWhile control_blank (drop (length v) s)"
  have "length r \<le> length (dropWhile control_blank (tl ?s2))" using a v
    by (auto simp: next_pair_def Let_def split: if_splits option.splits)
  also have "\<dots> \<le> length (tl ?s2)" by (rule length_dropWhile_le)
  also have "\<dots> \<le> length (drop (length v) s)"
    using length_dropWhile_le [of control_blank "drop (length v) s"] by simp
  also have "\<dots> < length s" using \<open>v \<noteq> []\<close> \<open>length v \<le> length s\<close> by (cases v) auto
  finally show ?thesis .
qed

function pairs_from :: "nat \<Rightarrow> string \<Rightarrow> (string \<times> PamAction \<times> nat \<times> nat) list option" where
  "pairs_from len s = (let s1 = dropWhile control_blank s in
     if s1 = [] then Some []
     else (case next_pair len s1 of
         None \<Rightarrow> None
       | Some (p, r) \<Rightarrow> map_option ((#) p) (pairs_from len r)))"
  by pat_completeness auto
termination
proof (relation "measure (length \<circ> snd)")
  fix len :: nat and s s1 x p r
  assume "s1 = dropWhile control_blank s" "next_pair len s1 = Some x" "(p, r) = x"
  then have "length r < length s1" using next_pair_shorter [of len s1 p r] by simp
  also have "\<dots> \<le> length s" using \<open>s1 = _\<close> by (simp add: length_dropWhile_le)
  finally show "((len, r), len, s) \<in> measure (length \<circ> snd)" by simp
qed simp

declare pairs_from.simps [simp del] all_fields.simps [simp del]

definition control_pairs_at :: "string \<Rightarrow> (string \<times> PamAction \<times> nat \<times> nat) list option" where
  "control_pairs_at control = pairs_from (length control) control"

definition control_pairs :: "string \<Rightarrow> (string \<times> PamAction) list option" where
  "control_pairs control = map_option (map (\<lambda>(v, a, _). (v, a))) (control_pairs_at control)"

definition set_step :: "nat \<times> string \<times> PamAction \<Rightarrow> nat option list \<Rightarrow> nat option list" where
  "set_step p t = (case p of (at, value, _) \<Rightarrow> (case position (\<lambda>v. v = value) (take 32 RETURN_VALUES) of
      Some r \<Rightarrow> t[r := Some at]
    | None \<Rightarrow> map (\<lambda>slot. if slot = None then Some at else slot) t))"

definition set_by :: "(string \<times> PamAction) list \<Rightarrow> nat option list" where
  "set_by pairs = fold set_step (enumerate 0 pairs) (replicate 32 None)"

text \<open>The table of a keyword: what it does with success, with \<open>ignore\<close> and with the other values.\<close>

definition keyword_table :: "PamAction \<Rightarrow> PamAction option \<Rightarrow> PamAction \<Rightarrow> PamAction list" where
  "keyword_table success ign rest = map (\<lambda>v. if v = ''success'' \<or> v = ''new_authtok_reqd'' then success
     else if v = ''ignore'' then (case ign of Some a \<Rightarrow> a | None \<Rightarrow> rest) else rest) (take 32 RETURN_VALUES)"

definition control_actions :: "string \<Rightarrow> PamAction list option" where
  "control_actions control =
     (if control = [] \<or> eq_ignore_ascii_case control ''include'' \<or> eq_ignore_ascii_case control ''substack'' then None
      else if eq_ignore_ascii_case control ''required'' then Some (keyword_table DoOk (Some DoIgnore) DoBad)
      else if eq_ignore_ascii_case control ''requisite'' then Some (keyword_table DoOk (Some DoIgnore) DoDie)
      else if eq_ignore_ascii_case control ''optional'' then Some (keyword_table DoOk None DoIgnore)
      else if eq_ignore_ascii_case control ''sufficient'' then Some (keyword_table DoDone None DoIgnore)
      else (case control_pairs control of
          None \<Rightarrow> Some (replicate 32 DoBad)
        | Some pairs \<Rightarrow> Some (map (\<lambda>slot. case slot of None \<Rightarrow> DoBad | Some at \<Rightarrow> snd (pairs ! at)) (set_by pairs))))"

definition control_is_rejected :: "string \<Rightarrow> bool" where
  "control_is_rejected control \<longleftrightarrow> \<not> list_ex (eq_ignore_ascii_case control) CONTROL_KEYWORDS \<and> control_pairs control = None"

definition control_ignores_module_ignore :: "string \<Rightarrow> bool" where
  "control_ignores_module_ignore control = (case control_actions control of
      None \<Rightarrow> False
    | Some table \<Rightarrow> (case position (\<lambda>v. v = ''ignore'') (take 32 RETURN_VALUES) of
        None \<Rightarrow> False | Some at \<Rightarrow> table ! at = DoIgnore))"

definition numeric_actions :: "Head \<Rightarrow> (string \<times> nat) list" where
  "numeric_actions h =
     (if list_ex (eq_ignore_ascii_case (hd_control h)) CONTROL_KEYWORDS then []
      else (case control_pairs (hd_control h) of
          None \<Rightarrow> []
        | Some pairs \<Rightarrow> List.map_filter (\<lambda>(at, value, action). case action of
              Jump n \<Rightarrow> if Some at \<in> set (set_by pairs) then Some (value, n) else None
            | _ \<Rightarrow> None) (enumerate 0 pairs)))"

section \<open>Rules\<close>

record Rule =
  r_phase :: string
  r_control :: string
  r_module :: string
  r_args :: "string list"

definition rule :: "string \<Rightarrow> Rule option" where
  "rule line = (case head line of
      None \<Rightarrow> None
    | Some h \<Rightarrow>
        if \<not> hd_known_type h \<or> names_stack h then None
        else (case next_field (hd_rest h) of
            None \<Rightarrow> None
          | Some (module, rest) \<Rightarrow>
              Some \<lparr> r_phase = hd_phase h, r_control = hd_control h, r_module = module, r_args = all_fields rest \<rparr>))"

text \<open>The piece after the last slash.\<close>

definition module_file_name :: "string \<Rightarrow> string" where
  "module_file_name path = last (split_on (CHR ''/'') path)"

definition MODULE :: string where "MODULE = ''pam_irlume.so''"

definition rule_names_module :: "string \<Rightarrow> string \<Rightarrow> bool" where
  "rule_names_module line module = (case rule line of None \<Rightarrow> False | Some r \<Rightarrow> module_file_name (r_module r) = module)"

definition irlume_rule :: "string \<Rightarrow> Rule option" where
  "irlume_rule line = (case rule line of None \<Rightarrow> None | Some r \<Rightarrow> if module_file_name (r_module r) = MODULE then Some r else None)"

definition irlume_rule_has_arg :: "string \<Rightarrow> string \<Rightarrow> bool" where
  "irlume_rule_has_arg line arg = (case irlume_rule line of None \<Rightarrow> False | Some r \<Rightarrow> arg \<in> set (r_args r))"

definition irlume_auth_rule_beyond_reseal :: "string \<Rightarrow> bool" where
  "irlume_auth_rule_beyond_reseal line = (case irlume_rule line of
      None \<Rightarrow> False
    | Some r \<Rightarrow> r_phase r = ''auth'' \<and>
        (list_ex (\<lambda>a. a \<in> {''unseal'', ''keyring'', ''wait''}) (r_args r) \<or> ''reseal'' \<notin> set (r_args r)))"

definition content_has_module :: "string \<Rightarrow> bool" where
  "content_has_module c = list_ex (\<lambda>l. irlume_rule l \<noteq> None) (lines c)"

definition typed_head :: "string \<Rightarrow> string \<Rightarrow> Head option" where
  "typed_head line phase = (case head line of
      None \<Rightarrow> None | Some h \<Rightarrow> if hd_known_type h \<and> hd_phase h = phase then Some h else None)"

definition stack_named :: "string \<Rightarrow> string \<Rightarrow> string option" where
  "stack_named line phase = Option.bind (typed_head line phase) (\<lambda>h. if names_stack h then third_field h else None)"

definition auth_control :: "string \<Rightarrow> string option" where
  "auth_control line = map_option hd_control (typed_head line ''auth'')"

definition auth_stack_target :: "string \<Rightarrow> string option" where
  "auth_stack_target line = (case at_include_target line of Some f \<Rightarrow> Some f | None \<Rightarrow> stack_named line ''auth'')"

definition auth_module :: "string \<Rightarrow> string option" where
  "auth_module line = Option.bind (rule line) (\<lambda>r. if r_phase r = ''auth'' then Some (r_module r) else None)"

definition directive_has_auth_module :: "string \<Rightarrow> string \<Rightarrow> bool" where
  "directive_has_auth_module line module = (case auth_module line of None \<Rightarrow> False | Some p \<Rightarrow> module_file_name p = module)"

section \<open>Lines irlume does not read as libpam does\<close>

datatype Unread = UnreadNul | UnreadBlank nat | CrlfEnding | UnknownType bool | IncludeWithoutFile | SubstackWithoutStack | NoModuleName

record UnreadLine =
  ul_number :: nat
  ul_text :: string
  ul_why :: Unread

text \<open>\<^verbatim>\<open>char_indices\<close> and \<^verbatim>\<open>char::is_whitespace\<close> on the scalar values.\<close>

function char_indices :: "nat \<Rightarrow> nat list \<Rightarrow> (nat \<times> nat) list" where
  "char_indices i [] = []"
| "char_indices i (b # cs) = (case utf8_first b cs of (n, c) \<Rightarrow>
     (i, case c of Some v \<Rightarrow> v | None \<Rightarrow> 0xFFFD) # char_indices (i + n) (drop (n - 1) cs))"
  by pat_completeness auto
termination by (relation "measure (length \<circ> snd)") auto

definition is_whitespace :: "nat \<Rightarrow> bool" where
  "is_whitespace v \<longleftrightarrow> (9 \<le> v \<and> v \<le> 13) \<or> v = 0x20 \<or> v = 0x85 \<or> v = 0xA0 \<or> v = 0x1680 \<or> (0x2000 \<le> v \<and> v \<le> 0x200A) \<or>
     v = 0x2028 \<or> v = 0x2029 \<or> v = 0x202F \<or> v = 0x205F \<or> v = 0x3000"

lemma is_whitespace_code [code]:
  "is_whitespace v = (if v < 128 then (9 \<le> v \<and> v \<le> 13) \<or> v = 0x20
     else v = 0x85 \<or> v = 0xA0 \<or> v = 0x1680 \<or> (0x2000 \<le> v \<and> v \<le> 0x200A) \<or>
       v = 0x2028 \<or> v = 0x2029 \<or> v = 0x202F \<or> v = 0x205F \<or> v = 0x3000)"
  by (auto simp: is_whitespace_def)

definition libpam_names_module :: "string \<Rightarrow> bool" where
  "libpam_names_module path \<longleftrightarrow>
     (let file = module_file_name path;
          name = (case rsplit_once (CHR ''.'') file of Some (n, _) \<Rightarrow> n | None \<Rightarrow> file)
      in name \<noteq> [] \<and> name \<noteq> ''?'')"

text \<open>The range of the inside of a control in brackets, as its first byte and the byte after it.\<close>

definition bracketed_control :: "string \<Rightarrow> nat \<times> nat" where
  "bracketed_control d = (case type_field d of
      None \<Rightarrow> (0, 0)
    | Some (kind, rest) \<Rightarrow>
        if eq_ignore_ascii_case kind ''@include'' then (0, 0)
        else (case strip_prefix ''['' (dropWhile is_delimiter rest) of
            None \<Rightarrow> (0, 0)
          | Some inner \<Rightarrow>
              let control = (case next_field rest of Some (f, _) \<Rightarrow> f | None \<Rightarrow> []) in
              if length control = length inner \<or> control_pairs control = None then (0, 0)
              else let start = length d - length inner in (start, start + length control)))"

definition field_blanks :: "string \<Rightarrow> bool \<Rightarrow> nat list" where
  "field_blanks read controls =
     (let (a, b) = (if controls then bracketed_control read else (0, 0)) in
      map snd (filter (\<lambda>(at, c). c \<noteq> 0x20 \<and> c \<noteq> 9 \<and> is_whitespace c \<and>
        \<not> (a \<le> at \<and> at < b \<and> (c = 0x20 \<or> (9 \<le> c \<and> c \<le> 13)))) (char_indices 0 (codes read))))"

definition trim_cr :: "string \<Rightarrow> string" where
  "trim_cr s = rev (dropWhile (\<lambda>c. c = CHR 0x0D) (rev s))"

definition unread_rule :: "string \<Rightarrow> Unread option" where
  "unread_rule line = (case head line of
      None \<Rightarrow> None
    | Some h \<Rightarrow>
        if \<not> hd_known_type h then Some (UnknownType (names_stack h))
        else let substack = eq_ignore_ascii_case (hd_control h) ''substack'' in
          if substack \<and> third_field h = None then Some SubstackWithoutStack
          else if substack \<or> \<not> names_stack h then
            (case third_field h of
               Some path \<Rightarrow> if libpam_names_module path then None else Some NoModuleName
             | None \<Rightarrow> None)
          else None)"

definition unread :: "string \<Rightarrow> Unread option" where
  "unread line =
     (if CHR 0x00 \<in> set line then Some UnreadNul
      else let d = directive line; before_cr = trim_cr d in
        case field_blanks before_cr True of
          c # _ \<Rightarrow> Some (UnreadBlank c)
        | [] \<Rightarrow>
            if length before_cr < length d then Some CrlfEnding
            else if is_at_include line then (if at_include_target line = None then Some IncludeWithoutFile else None)
            else unread_rule line)"

definition before_nul :: "string \<Rightarrow> string" where
  "before_nul l = takeWhile (\<lambda>c. c \<noteq> CHR 0x00) l"

definition continues :: "string \<Rightarrow> bool" where
  "continues l \<longleftrightarrow> (let t = rev (dropWhile blank_or_tab (rev l)) in t \<noteq> [] \<and> last t = CHR 0x5C) \<and>
     CHR ''#'' \<notin> set (before_nul l)"

definition has_line_continuation :: "string \<Rightarrow> bool" where
  "has_line_continuation content = list_ex continues (split_on (CHR 0x0A) content)"

definition unreadable_line :: "string \<Rightarrow> UnreadLine option" where
  "unreadable_line content =
     (if has_line_continuation content then None
      else find_map (\<lambda>(at, t). map_option (\<lambda>why. \<lparr> ul_number = at + 1, ul_text = t, ul_why = why \<rparr>) (unread t))
        (enumerate 0 (split_on (CHR 0x0A) content)))"

definition carriage_return_line :: "string \<Rightarrow> UnreadLine option" where
  "carriage_return_line content =
     (let controls = \<not> has_line_continuation content in
      find_map (\<lambda>(i, t).
          let read = directive t; before = trim_cr read in
          if 13 \<in> set (field_blanks before controls)
          then Some \<lparr> ul_number = i + 1, ul_text = t, ul_why = UnreadBlank 13 \<rparr>
          else if length before < length read then Some \<lparr> ul_number = i + 1, ul_text = t, ul_why = CrlfEnding \<rparr>
          else None)
        (enumerate 0 (split_on (CHR 0x0A) content)))"

definition has_read_carriage_return :: "string \<Rightarrow> bool" where
  "has_read_carriage_return content \<longleftrightarrow> carriage_return_line content \<noteq> None"

section \<open>The jumps of a control\<close>

lemma set_step_bound: "\<forall>at. Some at \<in> set t \<longrightarrow> at \<in> S \<Longrightarrow> Some at \<in> set (set_step (i, p) t) \<Longrightarrow> at \<in> insert i S"
proof -
  assume t: "\<forall>at. Some at \<in> set t \<longrightarrow> at \<in> S" and s: "Some at \<in> set (set_step (i, p) t)"
  show "at \<in> insert i S"
  proof (cases "position (\<lambda>v. v = fst p) (take 32 RETURN_VALUES)")
    case (Some r)
    with s have "Some at \<in> set (t[r := Some i])" by (simp add: set_step_def case_prod_unfold)
    then show ?thesis using t set_update_subset_insert [of t r "Some i"] by auto
  next
    case None
    with s have "Some at \<in> set (map (\<lambda>slot. if slot = None then Some i else slot) t)" by (simp add: set_step_def case_prod_unfold)
    then show ?thesis using t by (auto split: if_splits)
  qed
qed

lemma set_by_bound: "Some at \<in> set (set_by pairs) \<Longrightarrow> at < length pairs"
proof -
  have "\<forall>at. Some at \<in> set (fold set_step ps t) \<longrightarrow> at \<in> S \<union> fst ` set ps" if "\<forall>at. Some at \<in> set t \<longrightarrow> at \<in> S" for ps t S
    using that
  proof (induction ps arbitrary: t S)
    case (Cons q ps)
    have "\<forall>at. Some at \<in> set (set_step q t) \<longrightarrow> at \<in> insert (fst q) S" using set_step_bound [OF Cons.prems] by (cases q) auto
    from Cons.IH [OF this] show ?case by auto
  qed simp
  from this [of "replicate 32 None" "{}" "enumerate 0 pairs"]
  show "Some at \<in> set (set_by pairs) \<Longrightarrow> at < length pairs" by (auto simp: set_by_def in_set_enumerate_eq)
qed

lemma in_map_filter: "y \<in> set (List.map_filter f xs) \<longleftrightarrow> (\<exists>x\<in>set xs. f x = Some y)"
  by (force simp: List.map_filter_def)

lemma bex_enumerate: "(\<exists>x\<in>set (enumerate 0 xs). P x) \<longleftrightarrow> (\<exists>i<length xs. P (i, xs ! i))"
  by (force simp: in_set_enumerate_eq)

lemma keyword_no_jump: "Jump n \<notin> set (keyword_table DoOk a b)" "Jump n \<notin> set (keyword_table DoDone a b)"
  if "b = DoBad \<or> b = DoDie \<or> b = DoIgnore" "a = None \<or> a = Some DoIgnore"
  using that by (auto simp: keyword_table_def split: option.splits)

lemma control_actions_keyword:
  assumes "control_actions c = Some table" "list_ex (eq_ignore_ascii_case c) CONTROL_KEYWORDS"
  shows "Jump n \<notin> set table"
proof -
  from assms have "table \<in> {keyword_table DoOk (Some DoIgnore) DoBad, keyword_table DoOk (Some DoIgnore) DoDie,
      keyword_table DoOk None DoIgnore, keyword_table DoDone None DoIgnore}"
    by (auto simp: control_actions_def CONTROL_KEYWORDS_def split: if_splits)
  then show ?thesis using keyword_no_jump by auto
qed

lemma control_pairs_empty: "control_pairs [] = Some []"
  by (simp add: control_pairs_def control_pairs_at_def pairs_from.simps)

text \<open>C27: The reported jumps are exactly the jumps libpam takes. A count is among the numeric actions irlume
  reads from a line, with some return value, if and only if the table of the line's control, which
  holds libpam's action for each of its 32 return values, has that jump for one of them: repeated
  pairs, a \<open>default\<close> that sets nothing, keywords and rejected controls included.\<close>

theorem numeric_actions_are_the_jumps_taken:
  "(\<exists>v. (v, n) \<in> set (numeric_actions h)) \<longleftrightarrow>
     (\<exists>table. control_actions (hd_control h) = Some table \<and> Jump n \<in> set table)"
proof (cases "list_ex (eq_ignore_ascii_case (hd_control h)) CONTROL_KEYWORDS")
  case True
  then show ?thesis using control_actions_keyword by (auto simp: numeric_actions_def)
next
  case False
  let ?c = "hd_control h"
  show ?thesis
  proof (cases "?c = [] \<or> control_pairs ?c = None")
    case True
    then show ?thesis using False unfolding numeric_actions_def control_actions_def CONTROL_KEYWORDS_def
      by (cases "?c = []") (simp_all add: control_pairs_empty map_filter_def)
  next
    case nonempty: False
    then obtain pairs where pairs: "control_pairs ?c = Some pairs" by auto
    let ?by = "set_by pairs"
    have jump_at: "(case pairs ! at of (value, action) \<Rightarrow> case action of
        Jump m \<Rightarrow> if Some at \<in> set ?by then Some (value, m) else None | _ \<Rightarrow> None) = Some (v, n) \<longleftrightarrow>
      pairs ! at = (v, Jump n) \<and> Some at \<in> set ?by" for at v
      by (cases "pairs ! at") (auto split: PamAction.splits)
    have slot_jump: "(\<exists>slot\<in>A. (case slot of None \<Rightarrow> DoBad | Some at \<Rightarrow> snd (pairs ! at)) = Jump n) \<longleftrightarrow>
      (\<exists>at. Some at \<in> A \<and> snd (pairs ! at) = Jump n)" for A
    proof
      assume "\<exists>slot\<in>A. (case slot of None \<Rightarrow> DoBad | Some at \<Rightarrow> snd (pairs ! at)) = Jump n"
      then obtain slot where "slot \<in> A" "(case slot of None \<Rightarrow> DoBad | Some at \<Rightarrow> snd (pairs ! at)) = Jump n" by blast
      then show "\<exists>at. Some at \<in> A \<and> snd (pairs ! at) = Jump n" by (cases slot) auto
    qed force
    have "control_actions ?c = Some (map (\<lambda>slot. case slot of None \<Rightarrow> DoBad | Some at \<Rightarrow> snd (pairs ! at)) ?by)"
      using False nonempty pairs by (simp add: control_actions_def CONTROL_KEYWORDS_def)
    then have "(\<exists>table. control_actions ?c = Some table \<and> Jump n \<in> set table) \<longleftrightarrow>
        (\<exists>at. Some at \<in> set ?by \<and> snd (pairs ! at) = Jump n)"
      using slot_jump by (simp add: image_iff eq_commute [of "Jump n"])
    also have "\<dots> \<longleftrightarrow> (\<exists>v at. at < length pairs \<and> pairs ! at = (v, Jump n) \<and> Some at \<in> set ?by)"
      using set_by_bound [of _ pairs] by (metis prod.collapse snd_conv)
    also have "\<dots> \<longleftrightarrow> (\<exists>v. (v, n) \<in> set (numeric_actions h))"
      using False pairs by (simp add: numeric_actions_def in_map_filter bex_enumerate jump_at)
    finally show ?thesis by blast
  qed
qed

lemma next_pair_jump:
  assumes "next_pair len s = Some ((v, a, i, j), r)" "a = Jump n"
  shows "1 \<le> n \<and> n \<le> MAX_JUMP"
proof -
  have "\<forall>p\<in>set ACTION_NAMES. snd p \<noteq> Jump n" by (auto simp: ACTION_NAMES_def)
  then have "find P ACTION_NAMES \<noteq> Some (name, Jump n)" for P name
    by (metis find_Some_iff nth_mem snd_conv)
  then show ?thesis using assms
    by (auto simp: next_pair_def Let_def too_far_def split: option.splits if_splits)
qed

lemma pairs_from_jump: "pairs_from len s = Some ps \<Longrightarrow> (v, Jump n, i, j) \<in> set ps \<Longrightarrow> 1 \<le> n \<and> n \<le> MAX_JUMP"
proof (induction len s arbitrary: ps rule: pairs_from.induct)
  case (1 len s)
  let ?s = "dropWhile control_blank s"
  show ?case
  proof (cases "?s = []")
    case True
    then show ?thesis using "1.prems" by (simp add: pairs_from.simps [of len s])
  next
    case False
    then obtain p r qs where p: "next_pair len ?s = Some (p, r)" and qs: "pairs_from len r = Some qs" "ps = p # qs"
      using "1.prems"(1) unfolding pairs_from.simps [of len s] Let_def if_not_P [OF False] by (auto split: option.splits)
    then have "p = (v, Jump n, i, j) \<or> (v, Jump n, i, j) \<in> set qs" using "1.prems"(2) by auto
    then show ?thesis using next_pair_jump [of len ?s v "Jump n" i j r n] p "1.IH" [OF refl False p refl qs(1)] by auto
  qed
qed

text \<open>C40: Every control has a well-formed table. Whenever irlume reads a control as a rule's, its table holds one
  action for each of libpam's 32 return values, and every jump in it is a number of lines that libpam
  reads: at least one and at most \<open>INT_MAX\<close>.\<close>

theorem control_table_is_well_formed:
  assumes "control_actions c = Some table"
  shows "length table = 32 \<and> (\<forall>n. Jump n \<in> set table \<longrightarrow> 1 \<le> n \<and> n \<le> MAX_JUMP)"
proof
  have s: "length (set_step p t) = length t" for p t by (auto simp: set_step_def split: prod.splits option.splits)
  have "length (fold set_step ps t) = length t" for ps t by (induction ps arbitrary: t) (simp_all add: s)
  then have b: "length (set_by pairs) = 32" for pairs by (simp add: set_by_def)
  have "length (keyword_table x y z) = 32" for x y z by (simp add: keyword_table_def RETURN_VALUES_def)
  then show "length table = 32" using assms b by (auto simp: control_actions_def split: if_splits option.splits)
  show "\<forall>n. Jump n \<in> set table \<longrightarrow> 1 \<le> n \<and> n \<le> MAX_JUMP"
  proof (intro allI impI)
    fix n assume j: "Jump n \<in> set table"
    then have k: "\<not> list_ex (eq_ignore_ascii_case c) CONTROL_KEYWORDS" using control_actions_keyword [OF assms] by blast
    then have e: "table = (case control_pairs c of None \<Rightarrow> replicate 32 DoBad
        | Some pairs \<Rightarrow> map (\<lambda>slot. case slot of None \<Rightarrow> DoBad | Some at \<Rightarrow> snd (pairs ! at)) (set_by pairs))"
      using assms by (auto simp: control_actions_def CONTROL_KEYWORDS_def split: if_splits option.splits)
    then obtain pairs where pairs: "control_pairs c = Some pairs" using j by (auto split: option.splits)
    obtain at where at: "Some at \<in> set (set_by pairs)" "snd (pairs ! at) = Jump n"
      using j e pairs by (auto split: option.splits)
    then have "(fst (pairs ! at), Jump n) \<in> set pairs" using set_by_bound [OF at(1)] by (metis nth_mem prod.collapse)
    then obtain i l where "\<exists>ps. control_pairs_at c = Some ps \<and> (fst (pairs ! at), Jump n, i, l) \<in> set ps"
      using pairs by (auto simp: control_pairs_def)
    then show "1 \<le> n \<and> n \<le> MAX_JUMP" using pairs_from_jump by (auto simp: control_pairs_at_def)
  qed
qed

theorem control_table_is_well_formed_witness:
  "\<exists>table. control_actions ''success=2'' = Some table \<and> length table = 32 \<and> Jump 2 \<in> set table"
proof -
  have "case control_actions ''success=2'' of None \<Rightarrow> False | Some table \<Rightarrow> Jump 2 \<in> set table" by code_simp
  then obtain table where "control_actions ''success=2'' = Some table" "Jump 2 \<in> set table" by (auto split: option.splits)
  then show ?thesis using control_table_is_well_formed by blast
qed

end
