(* ===== verification/Reseal_Paths.thy ===== *)
theory Reseal_Paths
  imports Pam_Includes
begin

text \<open>
  Whether every path through a session stack calls irlume's \<open>reseal\<close> line (\<^verbatim>\<open>session_reaches_reseal\<close> of
  \<^verbatim>\<open>irlume-cli/src/pamwire/grammar.rs\<close>): the stack is read into steps under a budget of lines and
  files, and the suffixes of the steps are judged from the last one back. The session paths that the
  function's documentation models are a step relation on a stack of chains: what a module answers is
  not known, so a rule takes any action of its control, and whether an earlier failure suppresses a
  \<open>done\<close> is not known either, so a \<open>done\<close> ends its chain or is passed over. The judgement holds exactly
  when none of these paths comes to the end of the session without a \<open>reseal\<close> line.
\<close>

section \<open>Reading a stack into steps\<close>

datatype Step = ResealStep | RuleStep "PamAction list" | SubstackStep "Step list"

record Budget =
  bu_lines :: nat
  bu_reads :: nat

definition SESSION_STACK_MAX_BYTES :: nat where "SESSION_STACK_MAX_BYTES = 65536"

text \<open>What a line is to the session phase: nothing, a stack it names (and whether as a substack), or a rule; the
  outer \<open>None\<close> gives the whole proof up.\<close>

datatype SessionLine = Skipped | Reference string bool | SessionRule

definition session_line :: "string \<Rightarrow> SessionLine option" where
  "session_line line =
     (if is_at_include line then map_option (\<lambda>f. Reference f False) (at_include_target line)
      else (case head line of
          None \<Rightarrow> Some Skipped
        | Some h \<Rightarrow>
            if hd_phase h \<noteq> ''session'' then Some Skipped
            else if names_stack h
            then map_option (\<lambda>n. Reference n (eq_ignore_ascii_case (hd_control h) ''substack'')) (stack_name h)
            else Some SessionRule))"

definition rule_step :: "string \<Rightarrow> Step option" where
  "rule_step line = (case rule line of
      None \<Rightarrow> None
    | Some r \<Rightarrow>
        if control_is_rejected (r_control r) then None
        else if irlume_rule line \<noteq> None \<and> ''reseal'' \<in> set (r_args r) then Some ResealStep
        else map_option RuleStep (control_actions (r_control r)))"

text \<open>The loop over the lines; \<open>nested\<close> reads and parses a named stack, \<open>None\<close> at the last depth.\<close>

primrec parse_lines :: "(string \<Rightarrow> Budget \<Rightarrow> (Step list \<times> Budget) option) option \<Rightarrow> string list \<Rightarrow> Budget \<Rightarrow>
    (Step list \<times> Budget) option" where
  "parse_lines nested [] b = Some ([], b)"
| "parse_lines nested (line # rest) b =
     (if bu_lines b = 0 then None
      else let b1 = b\<lparr>bu_lines := bu_lines b - 1\<rparr> in
        case session_line line of
          None \<Rightarrow> None
        | Some Skipped \<Rightarrow> parse_lines nested rest b1
        | Some SessionRule \<Rightarrow> (case rule_step line of
              None \<Rightarrow> None
            | Some s \<Rightarrow> map_option (apfst ((#) s)) (parse_lines nested rest b1))
        | Some (Reference name substack) \<Rightarrow>
            (case nested of
               None \<Rightarrow> None
             | Some parse \<Rightarrow>
                 if bu_lines b1 = 0 \<or> bu_reads b1 = 0 then None
                 else (case parse name (b1\<lparr>bu_reads := bu_reads b1 - 1\<rparr>) of
                     None \<Rightarrow> None
                   | Some (inner, b2) \<Rightarrow>
                       map_option (apfst ((@) (if substack then [SubstackStep inner] else inner)))
                         (parse_lines nested rest b2))))"

primrec parse_stack :: "nat \<Rightarrow> StackReader \<Rightarrow> string \<Rightarrow> Budget \<Rightarrow> (Step list \<times> Budget) option" where
  "parse_stack 0 reader content b =
     (if SESSION_STACK_MAX_BYTES < length content \<or> \<not> reads_as_pam content then None
      else parse_lines None (lines content) b)"
| "parse_stack (Suc left) reader content b =
     (if SESSION_STACK_MAX_BYTES < length content \<or> \<not> reads_as_pam content then None
      else parse_lines (Some (\<lambda>name b1. case reader name of
             None \<Rightarrow> None | Some inner \<Rightarrow> parse_stack left reader inner b1)) (lines content) b)"

definition SESSION_BUDGET :: Budget where
  "SESSION_BUDGET = \<lparr> bu_lines = 4096, bu_reads = 64 \<rparr>"

section \<open>Judging the suffixes\<close>

text \<open>\<open>rest\<close> holds the judgements of the later suffixes, the first of them that of the next line.\<close>

definition action_holds :: "bool \<Rightarrow> bool list \<Rightarrow> PamAction \<Rightarrow> bool" where
  "action_holds on_return rest action = (case action of
      DoDone \<Rightarrow> on_return
    | DoDie \<Rightarrow> on_return
    | Jump n \<Rightarrow> rest ! min n (length rest - 1)
    | _ \<Rightarrow> hd rest)"

fun suffixes :: "bool \<Rightarrow> Step list \<Rightarrow> bool list" where
  "suffixes on_return [] = [on_return]"
| "suffixes on_return (ResealStep # ss) = True # suffixes on_return ss"
| "suffixes on_return (RuleStep actions # ss) =
     (let rest = suffixes on_return ss in list_all (action_holds on_return rest) actions # rest)"
| "suffixes on_return (SubstackStep inner # ss) =
     (let rest = suffixes on_return ss in hd (suffixes (hd rest) inner) # rest)"

definition reaches :: "Step list \<Rightarrow> bool \<Rightarrow> bool" where
  "reaches steps on_return = hd (suffixes on_return steps)"

definition session_reaches_reseal :: "string \<Rightarrow> StackReader \<Rightarrow> bool" where
  "session_reaches_reseal content reader = (case parse_stack INCLUDE_DEPTH reader content SESSION_BUDGET of
      None \<Rightarrow> False | Some (steps, _) \<Rightarrow> reaches steps False)"

section \<open>The modelled session paths\<close>

text \<open>A configuration is the chain that runs and the chains it returns to; no chain at all is the end of
  the session phase. A substack returns to its parent when it ends, by a \<open>done\<close> or \<open>die\<close>, or by a jump
  out of its range. A chain whose first step is \<open>ResealStep\<close> has called irlume's line, and the path
  need not be followed.\<close>

inductive session_path :: "Step list list \<Rightarrow> Step list list \<Rightarrow> bool" where
  return: "session_path ([] # fs) fs"
| stop: "a \<in> set actions \<Longrightarrow> a = DoDone \<or> a = DoDie \<Longrightarrow> session_path ((RuleStep actions # ss) # fs) fs"
| suppressed: "DoDone \<in> set actions \<Longrightarrow> session_path ((RuleStep actions # ss) # fs) (ss # fs)"
| jump: "Jump n \<in> set actions \<Longrightarrow> session_path ((RuleStep actions # ss) # fs) (drop n ss # fs)"
| pass: "a \<in> set actions \<Longrightarrow> a \<in> {DoIgnore, DoOk, DoBad, DoReset} \<Longrightarrow>
    session_path ((RuleStep actions # ss) # fs) (ss # fs)"
| enter: "session_path ((SubstackStep inner # ss) # fs) (inner # ss # fs)"

inductive_simps path_return [simp]: "session_path ([] # fs) c"
inductive_simps path_rule: "session_path ((RuleStep actions # ss) # fs) c"
inductive_simps path_enter [simp]: "session_path ((SubstackStep inner # ss) # fs) c"
inductive_simps path_reseal [simp]: "session_path ((ResealStep # ss) # fs) c"
inductive_simps path_end [simp]: "session_path [] c"

fun judged :: "Step list list \<Rightarrow> bool" where
  "judged [] = False"
| "judged (ss # fs) = reaches ss (judged fs)"

lemma length_suffixes: "length (suffixes r ss) = Suc (length ss)"
  by (induction r ss rule: suffixes.induct) (simp_all add: Let_def)

lemma suffixes_not_Nil [simp]: "suffixes r ss \<noteq> []"
  using length_suffixes [of r ss] by auto

lemma drop_suffixes: "k \<le> length ss \<Longrightarrow> drop k (suffixes r ss) = suffixes r (drop k ss)"
proof (induction k arbitrary: ss)
  case (Suc k)
  then obtain s ss' where ss: "ss = s # ss'" by (cases ss) auto
  have "drop (Suc k) (suffixes r ss) = drop k (suffixes r ss')" by (cases s) (simp_all add: ss Let_def)
  with Suc ss show ?case by simp
qed simp

lemma nth_suffixes: "suffixes r ss ! min n (length (suffixes r ss) - 1) = reaches (drop n ss) r"
proof -
  let ?k = "min n (length ss)"
  have "suffixes r ss ! ?k = hd (drop ?k (suffixes r ss))" by (simp add: hd_drop_conv_nth length_suffixes)
  also have "\<dots> = reaches (drop ?k ss) r" by (simp add: drop_suffixes reaches_def)
  finally show ?thesis by (cases "n \<le> length ss") (simp_all add: length_suffixes min_def)
qed

lemma reaches_simps [simp]:
  "reaches [] r = r" "reaches (ResealStep # ss) r"
  "reaches (SubstackStep inner # ss) r = reaches inner (reaches ss r)"
  by (simp_all add: reaches_def Let_def)

lemma reaches_rule:
  "reaches (RuleStep actions # ss) r \<longleftrightarrow> (\<forall>a\<in>set actions. case a of
     DoDone \<Rightarrow> r | DoDie \<Rightarrow> r | Jump n \<Rightarrow> reaches (drop n ss) r | _ \<Rightarrow> reaches ss r)"
proof -
  have "action_holds r (suffixes r ss) a \<longleftrightarrow>
    (case a of DoDone \<Rightarrow> r | DoDie \<Rightarrow> r | Jump n \<Rightarrow> reaches (drop n ss) r | _ \<Rightarrow> reaches ss r)" for a
    by (cases a) (simp_all only: action_holds_def nth_suffixes PamAction.case, simp_all add: reaches_def)
  then show ?thesis by (simp add: reaches_def Let_def list_all_iff)
qed

text \<open>Where the parent goes on to a \<open>reseal\<close> line, so does every chain that returns to it: a \<open>done\<close> that is
  passed over cannot lead past the line if the one that ends the chain does not.\<close>

lemma action_holds_True: "rest \<noteq> [] \<Longrightarrow> list_all (\<lambda>b. b) rest \<Longrightarrow> action_holds True rest a"
  by (cases a) (auto simp: action_holds_def list_all_length hd_conv_nth length_greater_0_conv [symmetric] min_def simp del: length_greater_0_conv)

lemma suffixes_True: "r \<Longrightarrow> list_all (\<lambda>b. b) (suffixes r ss)"
proof (induction r ss rule: suffixes.induct)
  case (3 r actions ss)
  then have "list_all (action_holds True (suffixes True ss)) actions" by (simp add: list_all_iff action_holds_True)
  with 3 show ?case by simp
next
  case (4 r inner ss)
  then have rest: "list_all (\<lambda>b. b) (suffixes r ss)" by simp
  then have "hd (suffixes r ss)" by (cases "suffixes r ss") auto
  with 4 have "list_all (\<lambda>b. b) (suffixes (hd (suffixes r ss)) inner)" by simp
  then have "hd (suffixes (hd (suffixes r ss)) inner)" by (cases "suffixes (hd (suffixes r ss)) inner") auto
  with rest show ?case by (simp add: Let_def)
qed simp_all

lemma reaches_True: "reaches ss True"
  using suffixes_True [of True ss] by (cases "suffixes True ss") (auto simp: reaches_def)

lemma judged_step: "judged c \<Longrightarrow> session_path c d \<Longrightarrow> judged d"
  by (erule session_path.cases) (auto simp: reaches_rule reaches_True split: PamAction.splits)

lemma judged_path: "session_path\<^sup>*\<^sup>* c d \<Longrightarrow> judged c \<Longrightarrow> judged d"
  by (induction rule: rtranclp_induct) (auto intro: judged_step)

text \<open>A configuration that is not judged and has not ended goes on to another that is not.\<close>

lemma not_judged_step: "\<not> judged c \<Longrightarrow> c \<noteq> [] \<Longrightarrow> \<exists>d. session_path c d \<and> \<not> judged d"
proof -
  assume nj: "\<not> judged c" and "c \<noteq> []"
  then obtain ch fs where c: "c = ch # fs" by (cases c) auto
  show ?thesis
  proof (cases ch)
    case Nil
    with nj c show ?thesis by auto
  next
    case (Cons s ss)
    show ?thesis
    proof (cases s)
      case (RuleStep actions)
      with nj c Cons obtain a where a: "a \<in> set actions" and n: "\<not> (case a of DoDone \<Rightarrow> judged fs | DoDie \<Rightarrow> judged fs
          | Jump n \<Rightarrow> reaches (drop n ss) (judged fs) | _ \<Rightarrow> reaches ss (judged fs))"
        by (auto simp: reaches_rule)
      have c: "c = (RuleStep actions # ss) # fs" by (simp add: c Cons RuleStep)
      consider "a = DoDone \<or> a = DoDie" | k where "a = Jump k" | "a \<in> {DoIgnore, DoOk, DoBad, DoReset}"
        by (cases a) auto
      then show ?thesis
      proof cases
        case 1
        then have "session_path c fs" "\<not> judged fs" using a n by (auto simp: c intro: session_path.stop)
        then show ?thesis by blast
      next
        case 2
        then have "session_path c (drop k ss # fs)" "\<not> judged (drop k ss # fs)" using a n by (auto simp: c intro: session_path.jump)
        then show ?thesis by blast
      next
        case 3
        then have "session_path c (ss # fs)" "\<not> judged (ss # fs)" using a n by (auto simp: c intro: session_path.pass)
        then show ?thesis by blast
      qed
    qed (use nj c Cons in auto)
  qed
qed

text \<open>Every path ends: a step removes a rule, opens a substack or leaves a chain.\<close>

fun weight :: "Step list \<Rightarrow> nat" where
  "weight [] = 1"
| "weight (ResealStep # ss) = 1 + weight ss"
| "weight (RuleStep actions # ss) = 1 + weight ss"
| "weight (SubstackStep inner # ss) = 1 + weight inner + weight ss"

lemma weight_pos: "0 < weight ss"
  by (induction ss rule: weight.induct) auto

lemma weight_drop: "weight (drop n ss) \<le> weight ss"
proof (induction n arbitrary: ss)
  case (Suc n)
  show ?case
  proof (cases ss)
    case (Cons s ss')
    have "weight ss' \<le> weight ss" by (cases s) (simp_all add: Cons)
    with Suc [of ss'] Cons show ?thesis by simp
  qed simp
qed simp

lemma path_weight: "session_path c d \<Longrightarrow> sum_list (map weight d) < sum_list (map weight c)"
proof (induction rule: session_path.induct)
  case (jump n actions ss fs)
  show ?case using weight_drop [of n ss] by simp
qed auto

lemma path_to_the_end: "\<not> judged c \<Longrightarrow> session_path\<^sup>*\<^sup>* c []"
proof (induction "sum_list (map weight c)" arbitrary: c rule: less_induct)
  case less
  show ?case
  proof (cases "c = []")
    case False
    then obtain d where d: "session_path c d" "\<not> judged d" using not_judged_step less.prems by blast
    then have "session_path\<^sup>*\<^sup>* d []" using less.hyps path_weight by blast
    with d show ?thesis by (metis converse_rtranclp_into_rtranclp)
  qed simp
qed

lemma reaches_iff: "reaches steps False \<longleftrightarrow> \<not> session_path\<^sup>*\<^sup>* [steps] []"
  using judged_path [of "[steps]" "[]"] path_to_the_end [of "[steps]"] by auto

text \<open>C8: The proof of delivery is exact for the session paths it models. \<open>session_reaches_reseal\<close> accepts a
  session stack exactly when its text, with the stacks it names, is read into steps within the budget
  and no modelled path over these steps comes to the end of the session phase without a call of
  irlume's \<open>reseal\<close> line: a rule may take any action of its control, a \<open>done\<close> may end its chain or be
  passed over, \<open>die\<close> and jumps out of range return from a substack to its parent.\<close>

theorem session_proof_is_exact:
  "session_reaches_reseal content reader \<longleftrightarrow>
     (\<exists>steps b. parse_stack INCLUDE_DEPTH reader content SESSION_BUDGET = Some (steps, b) \<and> \<not> session_path\<^sup>*\<^sup>* [steps] [])"
  by (auto simp: session_reaches_reseal_def reaches_iff split: option.splits)

end
