(* ===== verification/Pam_Lines.thy ===== *)
theory Pam_Lines
  imports Pam_Includes
begin

text \<open>
  The PAM lines irlume writes and how it tells them from other lines (\<^verbatim>\<open>irlume-cli/src/pamwire/stanzas.rs\<close>
  and the second half of \<^verbatim>\<open>irlume-cli/src/pamwire/transform.rs\<close>): the stanzas, the test for one of irlume's
  lines, their removal, and the checks that a removal and a recipe's refusal rest on.
\<close>

section \<open>Words and pieces of a text\<close>

text \<open>The characters of a text, each as its scalar value and its bytes, and \<^verbatim>\<open>split_whitespace\<close> and
  \<^verbatim>\<open>trim\<close> over them.\<close>

function scalars :: "string \<Rightarrow> (nat \<times> string) list" where
  "scalars [] = []"
| "scalars (b # cs) = (case utf8_first (of_char b) (codes cs) of (n, c) \<Rightarrow>
     (case c of Some v \<Rightarrow> v | None \<Rightarrow> 0xFFFD, take n (b # cs)) # scalars (drop (n - 1) cs))"
  by pat_completeness auto
termination by (relation "measure length") auto

fun words_from :: "string \<Rightarrow> (nat \<times> string) list \<Rightarrow> string list" where
  "words_from w [] = (if w = [] then [] else [w])"
| "words_from w ((v, bs) # cs) =
     (if is_whitespace v then (if w = [] then words_from [] cs else w # words_from [] cs)
      else words_from (w @ bs) cs)"

definition split_whitespace :: "string \<Rightarrow> string list" where
  "split_whitespace s = words_from [] (scalars s)"

definition trim_ws :: "string \<Rightarrow> string" where
  "trim_ws s = (let white = (\<lambda>(v, _). is_whitespace v) in
     concat (map snd (rev (dropWhile white (rev (dropWhile white (scalars s)))))))"

text \<open>\<^verbatim>\<open>split_once\<close> at a piece of text, \<^verbatim>\<open>split_inclusive\<close> at newlines, \<^verbatim>\<open>rposition\<close>, and
  \<^verbatim>\<open>format!("{}\n", lines.join("\n"))\<close>.\<close>

primrec split_once_text :: "string \<Rightarrow> string \<Rightarrow> (string \<times> string) option" where
  "split_once_text p [] = None"
| "split_once_text p (c # cs) = (case strip_prefix p (c # cs) of
      Some r \<Rightarrow> Some ([], r)
    | None \<Rightarrow> map_option (apfst ((#) c)) (split_once_text p cs))"

primrec split_inclusive :: "string \<Rightarrow> string list" where
  "split_inclusive [] = []"
| "split_inclusive (c # cs) =
     (if c = CHR 0x0A then [c] # split_inclusive cs
      else (case split_inclusive cs of [] \<Rightarrow> [[c]] | p # ps \<Rightarrow> (c # p) # ps))"

definition rposition :: "('a \<Rightarrow> bool) \<Rightarrow> 'a list \<Rightarrow> nat option" where
  "rposition P xs = map_option (\<lambda>i. length xs - 1 - i) (position P (rev xs))"

definition joined :: "string list \<Rightarrow> string" where
  "joined ls = join (CHR 0x0A) ls @ [CHR 0x0A]"

section \<open>The stanzas\<close>

definition GREETER_UNSEAL_FACEFIRST_JUMP :: string where
  "GREETER_UNSEAL_FACEFIRST_JUMP = ''auth       [success=1 default=ignore]   pam_irlume.so unseal facefirst''"

definition include_greeter_line :: "string \<Rightarrow> bool \<Rightarrow> string" where
  "include_greeter_line mode kr =
     ''auth       sufficient   pam_irlume.so unseal '' @ mode @ (if kr then '' kr'' else [])"

definition GREETER_UNSEAL_COSMIC_JUMP :: string where
  "GREETER_UNSEAL_COSMIC_JUMP = ''auth       [success=1 default=ignore]   pam_irlume.so unseal ondemand''"

definition PERMIT_LANDING :: string where
  "PERMIT_LANDING = ''auth       optional                     pam_permit.so   # irlume-landing''"

definition RESEAL_AUTH :: string where
  "RESEAL_AUTH = ''auth       optional                     pam_irlume.so reseal''"

definition KEYRING_UNSEAL :: string where
  "KEYRING_UNSEAL = ''auth       optional                     pam_irlume.so keyring''"

definition KEYRING_TAG :: string where "KEYRING_TAG = ''# irlume-keyring''"

definition FP_GKR_AUTH :: string where
  "FP_GKR_AUTH = ''-auth      optional                     pam_gnome_keyring.so   # irlume-keyring''"

definition FP_GKR_SESSION :: string where
  "FP_GKR_SESSION = ''-session   optional                     pam_gnome_keyring.so auto_start   # irlume-keyring''"

definition RESEAL_SESSION :: string where
  "RESEAL_SESSION = ''session    optional                     pam_irlume.so reseal''"

definition INERT_TAG :: string where "INERT_TAG = ''# irlume-inert''"

definition LANDING_TAG :: string where "LANDING_TAG = ''# irlume-landing''"

definition inert_line :: "string \<Rightarrow> string \<Rightarrow> string" where
  "inert_line phase role =
     (let tag = (if role = [] then INERT_TAG else INERT_TAG @ '' '' @ role)
      in phase @ replicate (11 - length phase) (CHR '' '') @ ''[default=ignore]             pam_permit.so   '' @ tag)"

definition VERIFY_STANZA :: string where
  "VERIFY_STANZA = ''auth       sufficient                   pam_irlume.so''"

definition POLKIT_VERIFY_STANZA :: string where
  "POLKIT_VERIFY_STANZA =
     ''auth       [success=done new_authtok_reqd=done abort=die default=ignore]   pam_irlume.so''"

section \<open>Irlume's lines\<close>

definition is_irlume_line :: "string \<Rightarrow> bool" where
  "is_irlume_line l = (let read = before_nul l in
     irlume_rule read \<noteq> None \<or>
     rule_names_module read ''pam_permit.so'' \<and> (contains_text read LANDING_TAG \<or> contains_text read INERT_TAG) \<or>
     rule_names_module read ''pam_gnome_keyring.so'' \<and> contains_text read KEYRING_TAG)"

definition holds_irlume_line :: "string \<Rightarrow> bool" where
  "holds_irlume_line content = list_ex (\<lambda>l. is_irlume_line (trim_cr l)) (split_on (CHR 0x0A) content)"

definition unwire_lines :: "string \<Rightarrow> string \<times> bool" where
  "unwire_lines content =
     (joined (filter (\<lambda>l. \<not> is_irlume_line l) (lines content)), list_ex is_irlume_line (lines content))"

definition strip_newline :: "string \<Rightarrow> string" where
  "strip_newline l = (case strip_suffix [CHR 0x0A] l of Some k \<Rightarrow> k | None \<Rightarrow> l)"

definition is_ours :: "string \<Rightarrow> bool" where
  "is_ours piece = is_irlume_line (trim_cr (strip_newline piece))"

definition without_irlume_lines :: "string \<Rightarrow> string" where
  "without_irlume_lines content = concat (filter (\<lambda>l. \<not> is_ours l) (split_inclusive content))"

fun removal_loop :: "nat option \<Rightarrow> bool \<Rightarrow> (nat \<times> string) list \<Rightarrow> bool" where
  "removal_loop last_ours previous [] = True"
| "removal_loop last_ours previous ((index, line) # rest) =
     (let continues = has_line_continuation (strip_newline line) in
      if is_ours line \<and> (previous \<or> continues) \<or>
         continues \<and> (case last_ours of None \<Rightarrow> False | Some at \<Rightarrow> index < at)
      then False
      else removal_loop last_ours continues rest)"

definition removal_preserves_continuations :: "string \<Rightarrow> bool" where
  "removal_preserves_continuations content = (let ls = split_inclusive content in
     removal_loop (rposition is_ours ls) False (enumerate 0 ls))"

definition may_hide_anchor :: "string \<Rightarrow> bool" where
  "may_hide_anchor line = (case unreadable_line line of
      None \<Rightarrow> False
    | Some u \<Rightarrow> is_at_include (before_nul line) \<or>
        (case head (before_nul line) of
           None \<Rightarrow> False | Some h \<Rightarrow> hd_phase h = ''auth'' \<and> ul_why u \<noteq> UnknownType False))"

definition recipe_has_no_anchor :: "string \<Rightarrow> (string \<Rightarrow> string \<times> bool) \<Rightarrow> bool" where
  "recipe_has_no_anchor content wire = (let ls = split_inclusive content in
     if list_ex (\<lambda>l. has_line_continuation l \<and> (case head l of None \<Rightarrow> False | Some h \<Rightarrow> hd_phase h = ''auth'')) ls
     then False
     else let readable = filter reads_as_pam ls in
       \<not> list_ex (\<lambda>l. \<not> has_line_continuation l \<and> may_hide_anchor l) ls \<and> \<not> snd (wire (concat readable)))"

definition jump_could_count_irlume_lines :: "StackReader option \<Rightarrow> string \<Rightarrow> bool" where
  "jump_could_count_irlume_lines rd content =
     (let irlume = (\<lambda>l. is_irlume_line (trim_cr l)); ls = split_on (CHR 0x0A) content in
      case rposition irlume ls of
        None \<Rightarrow> False
      | Some last_at \<Rightarrow> list_ex (\<lambda>(at, l).
            let read = before_nul l;
                later = (\<lambda>phase. list_ex (\<lambda>m. irlume m \<and>
                  (case head (trim_cr m) of None \<Rightarrow> False | Some h \<Rightarrow> hd_phase h = phase)) (drop (at + 1) ls))
            in if irlume l then False
               else (case include_could_jump_past rd read later False of
                   Some past \<Rightarrow> past
                 | None \<Rightarrow> (case head read of None \<Rightarrow> False | Some h \<Rightarrow> numeric_actions h \<noteq> [])))
          (enumerate 0 (take last_at ls)))"

section \<open>Facts\<close>

lemma joined_line_text: "ls \<noteq> [] \<Longrightarrow> joined ls = line_text ls"
  unfolding joined_def line_text_def by (induction "CHR 0x0A" ls rule: join.induct) auto

lemma lines_no_newline: "l \<in> set (lines s) \<Longrightarrow> CHR 0x0A \<notin> set l"
proof -
  have "CHR 0x0A \<notin> set cur \<Longrightarrow> l \<in> set (lines_from cur s) \<Longrightarrow> CHR 0x0A \<notin> set l" for cur
  proof (induction s arbitrary: cur)
    case Nil
    then show ?case by (auto split: if_splits)
  next
    case (Cons c s)
    have "set (strip_cr cur) \<subseteq> set cur" by (auto simp: strip_cr_def dest: in_set_butlastD)
    with Cons Cons.IH [of "[]"] Cons.IH [of "cur @ [c]"] show ?case by (auto split: if_splits)
  qed
  from this [of "[]"] show "l \<in> set (lines s) \<Longrightarrow> CHR 0x0A \<notin> set l" by (simp add: lines_def)
qed

text \<open>A line that ends in no carriage return.\<close>

definition plain_end :: "string \<Rightarrow> bool" where
  "plain_end l \<longleftrightarrow> strip_cr l = l"

lemma lines_joined:
  assumes "ls \<noteq> []" "\<forall>l\<in>set ls. CHR 0x0A \<notin> set l \<and> plain_end l"
  shows "lines (joined ls) = ls"
proof -
  have "lines (line_text ls @ []) = map strip_cr ls @ lines []" using assms by (intro lines_line_text) auto
  also have "map strip_cr ls = ls" using assms by (intro map_idI) (auto simp: plain_end_def)
  finally show ?thesis using assms by (simp add: joined_line_text lines_def)
qed

lemmas stanza_defs = GREETER_UNSEAL_FACEFIRST_JUMP_def GREETER_UNSEAL_COSMIC_JUMP_def PERMIT_LANDING_def RESEAL_AUTH_def
  KEYRING_UNSEAL_def FP_GKR_AUTH_def FP_GKR_SESSION_def RESEAL_SESSION_def VERIFY_STANZA_def POLKIT_VERIFY_STANZA_def
  include_greeter_line_def

definition STANZAS :: "string list" where
  "STANZAS = [GREETER_UNSEAL_FACEFIRST_JUMP, GREETER_UNSEAL_COSMIC_JUMP, PERMIT_LANDING, RESEAL_AUTH, KEYRING_UNSEAL,
     FP_GKR_AUTH, FP_GKR_SESSION, RESEAL_SESSION, VERIFY_STANZA, POLKIT_VERIFY_STANZA,
     include_greeter_line ''facefirst'' True, include_greeter_line ''ondemand'' True,
     include_greeter_line ''ondemand'' False]"

lemma STANZAS_irlume: "list_all is_irlume_line STANZAS"
  by code_simp

lemma STANZAS_plain: "list_all (\<lambda>l. CHR 0x0A \<notin> set l \<and> plain_end l) STANZAS"
  by code_simp

end
