(* ===== verification/Pam_Jumps.thy ===== *)
theory Pam_Jumps
  imports Pam_Lines "HOL-Library.Char_ord" "HOL-Library.List_Lexorder" "HOL-Library.Product_Lexorder"
begin

text \<open>
  Numeric jumps across irlume's lines (\<^verbatim>\<open>irlume-cli/src/pamwire/overrides.rs\<close>): the chain libpam builds for each
  type, where each jump lands in it, which jumps a write moves, and the two writes that keep every line
  in its place: \<open>neutralize\<close>, which puts inactive lines where irlume's were, and \<open>fill_slots\<close>, which
  fills such places again.
\<close>

section \<open>Lines by job\<close>

definition norm :: "string \<Rightarrow> string" where
  "norm line = join (CHR '' '') (split_whitespace line)"

definition PHASES :: "string list" where
  "PHASES = [''auth'', ''account'', ''password'', ''session'']"

definition phase_of :: "string \<Rightarrow> string option" where
  "phase_of line = map_option hd_phase (head line)"

definition first_or_empty :: "string list \<Rightarrow> string" where
  "first_or_empty ws = (case ws of [] \<Rightarrow> [] | w # _ \<Rightarrow> w)"

definition job_of :: "string \<Rightarrow> string" where
  "job_of line = (case split_once_text INERT_TAG line of
      Some (_, rest) \<Rightarrow> first_or_empty (split_whitespace rest)
    | None \<Rightarrow>
        if contains_text line LANDING_TAG then ''landing''
        else if contains_text line KEYRING_TAG then ''keyring-tag''
        else (case irlume_rule line of None \<Rightarrow> [] | Some r \<Rightarrow> first_or_empty (r_args r)))"

definition kind :: "string \<Rightarrow> string" where
  "kind line = (case phase_of line of Some p \<Rightarrow> p | None \<Rightarrow> ''auth'') @ '' '' @ job_of line"

definition inert_of_kind :: "string \<Rightarrow> string" where
  "inert_of_kind k = (case split_once (CHR '' '') k of Some (phase, job) \<Rightarrow> inert_line phase job | None \<Rightarrow> inert_line k [])"

definition neutral :: "string \<Rightarrow> string" where
  "neutral l = (if irlume_rule l \<noteq> None then inert_of_kind (kind l) else l)"

definition neutralize :: "string \<Rightarrow> string" where
  "neutralize body = joined (map neutral (lines body))"

text \<open>The loop of \<open>fill_slots\<close>: the file it builds and the lines of \<open>wired\<close> that found no place.\<close>

primrec fill_loop :: "(string \<times> string) list \<Rightarrow> string list \<Rightarrow> string list \<times> (string \<times> string) list" where
  "fill_loop wanted [] = ([], wanted)"
| "fill_loop wanted (line # rest) =
     (if \<not> is_irlume_line line then apfst ((#) line) (fill_loop wanted rest)
      else let k = kind line in
        case position (\<lambda>(w, _). w = k) wanted of
          Some at \<Rightarrow> apfst ((#) (snd (wanted ! at))) (fill_loop (take at wanted @ drop (at + 1) wanted) rest)
        | None \<Rightarrow> apfst ((#) (if irlume_rule line \<noteq> None then inert_of_kind k else line)) (fill_loop wanted rest))"

definition fill_slots :: "string \<Rightarrow> string \<Rightarrow> string option" where
  "fill_slots body wired =
     (case fill_loop (map (\<lambda>l. (kind l, l)) (filter is_irlume_line (lines wired))) (lines body) of
        (out, wanted) \<Rightarrow> if wanted = [] then Some (joined out) else None)"

section \<open>Chains and landings\<close>

datatype Landing = LandLine string nat | LandEnd | LandPastEnd | LandAcross "string list" "(string \<times> nat) option"

definition line_key :: "string \<Rightarrow> string" where
  "line_key line = (if is_irlume_line line then ''irlume '' @ kind line else norm line)"

definition in_chain :: "string \<Rightarrow> string \<Rightarrow> bool" where
  "in_chain line phase \<longleftrightarrow> is_at_include line \<or> phase_of line = Some phase"

definition chain :: "string \<Rightarrow> string \<Rightarrow> string list" where
  "chain content phase = filter (\<lambda>l. in_chain l phase) (lines content)"

definition is_include :: "string \<Rightarrow> bool" where
  "is_include line \<longleftrightarrow> is_at_include line \<or>
     (case head line of None \<Rightarrow> False | Some h \<Rightarrow> eq_ignore_ascii_case (hd_control h) ''include'')"

definition line_actions :: "string \<Rightarrow> (string \<times> nat) list" where
  "line_actions line = (case head line of None \<Rightarrow> [] | Some h \<Rightarrow> numeric_actions h)"

definition occurrence :: "string list \<Rightarrow> nat \<Rightarrow> string \<times> nat" where
  "occurrence ch at = (let key = line_key (ch ! at) in
     (key, length (filter (\<lambda>l. line_key l = key) (take (at + 1) ch))))"

definition landing_of :: "string list \<Rightarrow> nat \<Rightarrow> nat \<Rightarrow> Landing" where
  "landing_of ch at n =
     (let last_at = length ch - 1;
          skipped = drop (at + 1) (take (min (at + n) last_at + 1) ch);
          target = (if at + n + 1 < length ch then Some (at + n + 1) else None)
      in if list_ex is_include skipped then LandAcross (map line_key skipped) (map_option (occurrence ch) target)
         else if last_at - at < n then LandPastEnd
         else (case target of
             Some to \<Rightarrow> (case occurrence ch to of (key, occ) \<Rightarrow> LandLine key occ)
           | None \<Rightarrow> LandEnd))"

record PamJump =
  pj_phase :: string
  pj_line :: string
  pj_ordinal :: nat
  pj_key :: string
  pj_landing :: Landing
  pj_skipped :: "string list"

text \<open>Counting the lines of one text seen so far.\<close>

fun bump :: "string \<Rightarrow> (string \<times> nat) list \<Rightarrow> nat \<times> (string \<times> nat) list" where
  "bump t [] = (1, [(t, 1)])"
| "bump t ((u, c) # seen) = (if u = t then (c + 1, (u, c + 1) # seen) else apsnd ((#) (u, c)) (bump t seen))"

fun chain_jumps :: "string \<Rightarrow> string list \<Rightarrow> (string \<times> nat) list \<Rightarrow> (nat \<times> string) list \<Rightarrow> PamJump list" where
  "chain_jumps phase ch seen [] = []"
| "chain_jumps phase ch seen ((at, line) # rest) =
     (if is_irlume_line line \<or> line_actions line = [] then chain_jumps phase ch seen rest
      else (case bump (norm line) seen of (ordinal, seen1) \<Rightarrow>
        map (\<lambda>(key, n). \<lparr> pj_phase = phase, pj_line = norm line, pj_ordinal = ordinal, pj_key = key,
            pj_landing = landing_of ch at n, pj_skipped = map line_key (take n (drop (at + 1) ch)) \<rparr>)
          (line_actions line) @ chain_jumps phase ch seen1 rest))"

definition jumps :: "string \<Rightarrow> PamJump list" where
  "jumps content = concat (map (\<lambda>phase. let ch = chain content phase in chain_jumps phase ch [] (enumerate 0 ch)) PHASES)"

definition has_numeric_jump :: "string \<Rightarrow> bool" where
  "has_numeric_jump content \<longleftrightarrow> jumps content \<noteq> []"

definition find_landing :: "PamJump list \<Rightarrow> PamJump \<Rightarrow> Landing option" where
  "find_landing set_of_jumps j = map_option pj_landing
     (find (\<lambda>k. pj_line k = pj_line j \<and> pj_ordinal k = pj_ordinal j \<and> pj_key k = pj_key j) set_of_jumps)"

definition own_landings :: "string \<Rightarrow> (string \<times> string \<times> Landing) list" where
  "own_landings content = sort_key (\<lambda>(k, key, _). (k, key)) (concat (map (\<lambda>phase. let ch = chain content phase in
     concat (map (\<lambda>(at, line). if irlume_rule line = None then []
         else map (\<lambda>(key, n). (kind line, key, landing_of ch at n)) (line_actions line)) (enumerate 0 ch))) PHASES))"

section \<open>Jumps out of an include\<close>

primrec expand_later :: "StackReader option \<Rightarrow> string \<Rightarrow> nat \<Rightarrow> string list \<Rightarrow> string list \<Rightarrow> string list option" where
  "expand_later rd phase target expanded [] = Some expanded"
| "expand_later rd phase target expanded (line # rest) =
     (if target < length expanded then Some expanded
      else if is_include line
      then (case expanded_include_lines rd line phase of
          None \<Rightarrow> None | Some ls \<Rightarrow> expand_later rd phase target (expanded @ ls) rest)
      else expand_later rd phase target (expanded @ [line]) rest)"

definition landing_chain :: "StackReader option \<Rightarrow> string \<Rightarrow> string \<Rightarrow> string \<Rightarrow> nat \<Rightarrow> nat \<Rightarrow> (nat \<times> string list) option" where
  "landing_chain rd content phase inc ordinal offset =
     (let ch = chain content phase;
          hits = filter (\<lambda>(_, line). is_include line \<and> norm line = inc) (enumerate 0 ch)
      in if length hits \<le> ordinal - 1 then None
         else let at = fst (hits ! (ordinal - 1)) in
           map_option (Pair at) (expand_later rd phase (at + offset + 1) (take (at + 1) ch) (drop (at + 1) ch)))"

definition included_landing :: "StackReader option \<Rightarrow> string \<Rightarrow> string \<Rightarrow> string \<Rightarrow> nat \<Rightarrow> nat \<Rightarrow> Landing option" where
  "included_landing rd content phase inc ordinal offset =
     map_option (\<lambda>(at, ls). landing_of ls at (min offset (length ls))) (landing_chain rd content phase inc ordinal offset)"

definition transparent_irlume_session_line :: "string \<Rightarrow> bool" where
  "transparent_irlume_session_line line \<longleftrightarrow> is_irlume_line line \<and> phase_of line = Some ''session'' \<and>
     (case head line of None \<Rightarrow> False | Some h \<Rightarrow> eq_ignore_ascii_case (hd_control h) ''optional'')"

text \<open>No expansion of a chain is longer than this.\<close>

definition expansion_bound :: "StackReader option \<Rightarrow> string \<Rightarrow> string list \<Rightarrow> nat" where
  "expansion_bound rd phase ch = sum_list (map (\<lambda>line. case expanded_include_lines rd line phase of
      None \<Rightarrow> 1 | Some ls \<Rightarrow> 1 + length ls) ch)"

lemma length_le_expansion_bound: "length ch \<le> expansion_bound rd phase ch"
  by (induction ch) (auto simp: expansion_bound_def split: option.splits)

lemma expand_later_bound:
  "expand_later rd phase target expanded rest = Some ls \<Longrightarrow> length ls \<le> length expanded + expansion_bound rd phase rest"
proof (induction rest arbitrary: expanded)
  case (Cons line rest)
  then show ?case by (fastforce simp: expansion_bound_def split: if_splits option.splits)
qed simp

lemma landing_chain_bound:
  assumes "landing_chain rd content phase inc ordinal offset = Some (at, ls)"
  shows "length ls \<le> expansion_bound rd phase (chain content phase)"
proof -
  let ?ch = "chain content phase"
  from assms have "expand_later rd phase (at + offset + 1) (take (at + 1) ?ch) (drop (at + 1) ?ch) = Some ls"
    by (auto simp: landing_chain_def Let_def split: if_splits)
  then have "length ls \<le> length (take (at + 1) ?ch) + expansion_bound rd phase (drop (at + 1) ?ch)"
    by (rule expand_later_bound)
  also have "\<dots> \<le> expansion_bound rd phase (take (at + 1) ?ch) + expansion_bound rd phase (drop (at + 1) ?ch)"
    using length_le_expansion_bound by (rule add_right_mono)
  also have "\<dots> = expansion_bound rd phase ?ch"
    by (simp add: expansion_bound_def flip: sum_list_append map_append)
  finally show ?thesis .
qed

function past_session_lines :: "StackReader option \<Rightarrow> string \<Rightarrow> string \<Rightarrow> string \<Rightarrow> nat \<Rightarrow> nat \<Rightarrow> Landing option" where
  "past_session_lines rd content phase inc ordinal at = (case landing_chain rd content phase inc ordinal at of
      None \<Rightarrow> None
    | Some (jump_at, ls) \<Rightarrow>
        let landing = landing_of ls jump_at (min at (length ls)) in
        if (case landing of LandLine _ _ \<Rightarrow> True | _ \<Rightarrow> False) \<and> jump_at + at + 1 < length ls \<and>
           transparent_irlume_session_line (ls ! (jump_at + at + 1))
        then past_session_lines rd content phase inc ordinal (at + 1)
        else Some landing)"
  by pat_completeness auto
termination
proof (relation "measure (\<lambda>(rd, content, phase, inc, ordinal, at). expansion_bound rd phase (chain content phase) - at)", goal_cases)
  case (2 rd content phase inc ordinal at x jump_at ls landing)
  then have "length ls \<le> expansion_bound rd phase (chain content phase)" using landing_chain_bound by metis
  with 2 show ?case by auto
qed simp

declare past_session_lines.simps [simp del]

section \<open>Jumps a write moves\<close>

record Shift =
  sh_phase :: string
  sh_line :: string
  sh_ordinal :: nat
  sh_now :: Landing
  sh_included :: bool

definition base :: "string \<Rightarrow> string" where
  "base content = fst (unwire_lines content)"

text \<open>One landing of an include's jump, by its offset: where it lands now, if the write moved it.\<close>

definition included_shift_at ::
    "StackReader option \<Rightarrow> string \<Rightarrow> string \<Rightarrow> bool \<Rightarrow> string \<Rightarrow> string \<Rightarrow> nat \<Rightarrow> nat \<Rightarrow> Landing option" where
  "included_shift_at rd before after caused_by_irlume phase key ordinal offset =
     (let prior = included_landing rd before phase key ordinal offset;
          now = included_landing rd after phase key ordinal offset
      in if caused_by_irlume
         then let bare = included_landing rd (base after) phase key ordinal offset;
                  through = past_session_lines rd after phase key ordinal offset;
                  moved_by_irlume = (bare \<noteq> None \<and> through \<noteq> bare);
                  already = (prior = now \<and> included_landing rd (base before) phase key ordinal offset = bare)
              in if \<not> moved_by_irlume \<or> already then None else now
         else if prior = now then None else now)"

primrec included_shifts_in ::
    "StackReader option \<Rightarrow> string \<Rightarrow> string \<Rightarrow> bool \<Rightarrow> bool \<Rightarrow> string \<Rightarrow> (string \<times> nat) list \<Rightarrow> string list \<Rightarrow> Shift list" where
  "included_shifts_in rd before after caused first_following phase seen [] = []"
| "included_shifts_in rd before after caused first_following phase seen (line # rest) =
     (if \<not> is_include line then included_shifts_in rd before after caused first_following phase seen rest
      else (case bump (norm line) seen of (ordinal, seen1) \<Rightarrow>
        (case Option.bind (included_jump_offsets rd line phase first_following)
            (find_map (included_shift_at rd before after caused phase (norm line) ordinal)) of
           None \<Rightarrow> []
         | Some now \<Rightarrow> [\<lparr> sh_phase = phase, sh_line = norm line, sh_ordinal = ordinal, sh_now = now, sh_included = True \<rparr>]) @
        included_shifts_in rd before after caused first_following phase seen1 rest))"

definition included_shifts :: "StackReader option \<Rightarrow> string \<Rightarrow> string \<Rightarrow> bool \<Rightarrow> bool \<Rightarrow> Shift list" where
  "included_shifts rd before after caused first_following =
     concat (map (\<lambda>phase. included_shifts_in rd before after caused first_following phase [] (chain after phase)) PHASES)"

definition shift_of :: "PamJump \<Rightarrow> Shift" where
  "shift_of j = \<lparr> sh_phase = pj_phase j, sh_line = pj_line j, sh_ordinal = pj_ordinal j, sh_now = pj_landing j,
     sh_included = False \<rparr>"

text \<open>The loop of both reports: a line is reported once.\<close>

definition report :: "(PamJump \<Rightarrow> bool) \<Rightarrow> PamJump list \<Rightarrow> Shift list" where
  "report moved js = fold (\<lambda>j out. if moved j \<and> \<not> list_ex (\<lambda>s. sh_line s = pj_line j) out then out @ [shift_of j] else out) js []"

definition jump_shifts :: "StackReader option \<Rightarrow> string \<Rightarrow> string \<Rightarrow> Shift list" where
  "jump_shifts rd before after =
     (let old = jumps before; unwired = jumps (base after) in
      report (\<lambda>j. case (case find_landing old j of Some r \<Rightarrow> Some r | None \<Rightarrow> find_landing unwired j) of
          None \<Rightarrow> False | Some r \<Rightarrow> r \<noteq> pj_landing j) (jumps after) @
      included_shifts rd before after False False)"

definition jumps_moved_by_irlume :: "StackReader option \<Rightarrow> string \<Rightarrow> string \<Rightarrow> Shift list" where
  "jumps_moved_by_irlume rd before after =
     (let old = jumps before; old_bare = jumps (base before); unwired = jumps (base after) in
      report (\<lambda>j.
          let bare = find_landing unwired j;
              moved_by_irlume = (case bare of None \<Rightarrow> False | Some b \<Rightarrow> b \<noteq> pj_landing j);
              already = ((case find_landing old j of None \<Rightarrow> False | Some prior \<Rightarrow> prior = pj_landing j) \<and>
                find_landing old_bare j = bare)
          in moved_by_irlume \<and> \<not> already) (jumps after) @
      included_shifts rd before after True False)"

definition included_jumps_moved_by_irlume :: "StackReader option \<Rightarrow> string \<Rightarrow> string \<Rightarrow> Shift list" where
  "included_jumps_moved_by_irlume rd before after = included_shifts rd before after True True"

definition as_the_vendor_has_them :: "string \<Rightarrow> string option \<Rightarrow> (string \<times> string \<times> nat) list" where
  "as_the_vendor_has_them stripped vendor = (case vendor of
      None \<Rightarrow> []
    | Some v \<Rightarrow>
        let vendor_jumps = jumps (base v); stripped_jumps = jumps stripped;
            as_vendor = (\<lambda>j. list_ex (\<lambda>k. pj_phase k = pj_phase j \<and> pj_line k = pj_line j \<and> pj_ordinal k = pj_ordinal j \<and>
              pj_key k = pj_key j \<and> pj_landing k = pj_landing j \<and> pj_skipped k = pj_skipped j) vendor_jumps)
        in fold (\<lambda>j out.
             let ident = (pj_phase j, pj_line j, pj_ordinal j);
                 every = list_all as_vendor (filter (\<lambda>k. pj_phase k = pj_phase j \<and> pj_line k = pj_line j \<and>
                   pj_ordinal k = pj_ordinal j) stripped_jumps)
             in if every \<and> ident \<notin> set out then out @ [ident] else out) stripped_jumps [])"

section \<open>Refilling held places\<close>

definition same_side_of_the_password_step :: "string \<Rightarrow> string \<Rightarrow> bool" where
  "same_side_of_the_password_step filled wired =
     (let sides = (\<lambda>content. let ls = lines content in
            map_option (\<lambda>step. map (\<lambda>(at, l). (trim_ws l, at < step))
                (filter (\<lambda>(_, l). is_irlume_line l \<and> \<not> contains_text l INERT_TAG \<and> phase_of l = Some ''auth'') (enumerate 0 ls)))
              (position (\<lambda>l. \<not> is_irlume_line l \<and> is_password_step l) ls))
      in case (sides filled, sides wired) of
           (Some f, Some w) \<Rightarrow> list_all (\<lambda>line. line \<in> set f) w
         | _ \<Rightarrow> True)"

definition ordered_line :: "string \<Rightarrow> bool" where
  "ordered_line l \<longleftrightarrow> trim_ws (directive l) \<noteq> [] \<and>
     (\<not> is_irlume_line l \<or> rule_names_module l ''pam_gnome_keyring.so'' \<and> contains_text l KEYRING_TAG)"

definition others_above :: "string \<Rightarrow> string \<Rightarrow> string list option" where
  "others_above content line = (let ls = lines content in
     map_option (\<lambda>at. map trim_ws (filter (\<lambda>l. ordered_line l \<and>
         (case (phase_of line, phase_of l) of (Some own, Some other) \<Rightarrow> own = other | _ \<Rightarrow> True)) (take at ls)))
       (position (\<lambda>l. trim_ws l = line) ls))"

text \<open>Taking each needed line out of those there are, once each.\<close>

primrec take_out :: "string list \<Rightarrow> string list \<Rightarrow> string list option" where
  "take_out [] have_lines = Some have_lines"
| "take_out (other # rest) have_lines = (if other \<in> set have_lines then take_out rest (remove1 other have_lines) else None)"

definition recipe_lines_above_stay_above :: "string \<Rightarrow> string \<Rightarrow> bool" where
  "recipe_lines_above_stay_above filled wired =
     list_all (\<lambda>l. let line = trim_ws l in
         case (others_above wired line, others_above filled line) of
           (Some needed, Some have_lines) \<Rightarrow> (case take_out needed have_lines of
               None \<Rightarrow> False | Some left_over \<Rightarrow> list_all (\<lambda>moved. line_actions moved \<noteq> []) left_over)
         | _ \<Rightarrow> True)
       (filter (\<lambda>l. is_irlume_line l \<and> \<not> contains_text l INERT_TAG) (lines wired))"

definition refill :: "StackReader option \<Rightarrow> string \<Rightarrow> string \<Rightarrow> string option" where
  "refill rd current wired = (case fill_slots current wired of
      None \<Rightarrow> None
    | Some filled \<Rightarrow>
        if own_landings filled = own_landings wired \<and> jump_shifts rd current filled = [] \<and>
           same_side_of_the_password_step filled wired \<and> recipe_lines_above_stay_above filled wired
        then Some filled else None)"

section \<open>Files without jumps\<close>

lemma quiet_chain_jumps: "\<forall>(i, l)\<in>set ls. line_actions l = [] \<Longrightarrow> chain_jumps phase ch seen ls = []"
  by (induction phase ch seen ls rule: chain_jumps.induct) auto

lemma quiet_jumps: "list_all (\<lambda>l. line_actions l = []) (lines content) \<Longrightarrow> jumps content = []"
proof -
  assume q: "list_all (\<lambda>l. line_actions l = []) (lines content)"
  have "chain_jumps phase ch [] (enumerate 0 ch) = []" if "ch = chain content phase" for phase ch
  proof (rule quiet_chain_jumps, clarify)
    fix i l assume "(i, l) \<in> set (enumerate 0 ch)"
    then have "l \<in> set ch" by (auto simp: in_set_enumerate_eq)
    then show "line_actions l = []" using q that by (auto simp: chain_def list_all_iff)
  qed
  then show ?thesis by (simp add: jumps_def)
qed

lemma no_reader_included_lines: "included_lines n None phase name = None"
  by (cases n) (simp_all add: read_stack_def)

text \<open>Without a reader no include is followed, so none of its jumps is reported.\<close>

lemma no_reader_offsets: "included_jump_offsets None line phase f \<in> {None, Some []}"
proof -
  have b: "Option.bind t (included_lines INCLUDE_DEPTH None phase) = None" for t
    by (cases t) (simp_all add: no_reader_included_lines)
  have "expanded_include_lines None line phase \<in> {None, Some []}"
    unfolding expanded_include_lines_def b by (auto split: option.splits)
  then show ?thesis by (auto simp: included_jump_offsets_def)
qed

lemma no_reader_shifts: "included_shifts None before after caused f = []"
proof -
  have "included_shifts_in None before after caused f phase seen ls = []" for phase seen ls
  proof (induction ls arbitrary: seen)
    case (Cons l ls)
    then show ?case using no_reader_offsets [of l phase f] by (auto split: prod.splits)
  qed simp
  then show ?thesis by (simp add: included_shifts_def)
qed

lemma jumps_moved_quiet:
  "list_all (\<lambda>l. line_actions l = []) (lines after) \<Longrightarrow> jumps_moved_by_irlume None before after = []"
  by (simp add: jumps_moved_by_irlume_def quiet_jumps no_reader_shifts report_def Let_def)

section \<open>Inactive lines keep the places\<close>

definition one_word :: "string \<Rightarrow> bool" where
  "one_word s \<longleftrightarrow> s = [] \<or> split_whitespace s = [s]"

definition inert_front :: "string \<Rightarrow> string" where
  "inert_front phase = phase @ replicate (11 - length phase) (CHR '' '') @ ''[default=ignore]             pam_permit.so   ''"

lemma inert_line_front:
  "inert_line phase role = inert_front phase @ INERT_TAG @ (if role = [] then [] else '' '' @ role)"
  by (simp add: inert_line_def inert_front_def Let_def)

lemma inert_fronts:
  "list_all (\<lambda>p. CHR ''#'' \<notin> set (inert_front p) \<and> CHR 0x00 \<notin> set (inert_front p) \<and> inert_front p \<noteq> [] \<and>
     \<not> blank_or_tab (hd (inert_front p)) \<and> phase_of (inert_front p) = Some p \<and> \<not> is_include (inert_front p) \<and>
     rule_names_module (inert_front p) ''pam_permit.so'' \<and> irlume_rule (inert_front p) = None \<and> CHR '' '' \<notin> set p) TYPES"
  by code_simp

lemma head_phase: "head l = Some h \<Longrightarrow> hd_phase h \<in> set TYPES"
  by (auto simp: head_def Let_def TYPES_def find_Some_iff split: option.splits if_splits prod.splits)

lemma inert_tag_hash: "INERT_TAG = CHR ''#'' # '' irlume-inert''"
  by (simp add: INERT_TAG_def)

lemma directive_inert:
  assumes "p \<in> set TYPES"
  shows "directive (inert_line p role) = directive (inert_front p)"
proof -
  from assms inert_fronts have f: "CHR ''#'' \<notin> set (inert_front p)" "inert_front p \<noteq> []" "\<not> blank_or_tab (hd (inert_front p))"
    by (simp_all add: list_all_iff)
  then have d: "dropWhile blank_or_tab (inert_front p @ t) = inert_front p @ t" for t
    by (cases "inert_front p") auto
  have t: "takeWhile (\<lambda>c. c \<noteq> CHR ''#'') (inert_front p @ t) = inert_front p @ takeWhile (\<lambda>c. c \<noteq> CHR ''#'') t" for t
    using f(1) by (intro takeWhile_append2) auto
  have "directive (inert_line p role) = inert_front p"
    unfolding directive_def inert_line_front d t by (simp add: inert_tag_hash)
  moreover have "directive (inert_front p) = inert_front p" using d [of "[]"] t [of "[]"] by (simp add: directive_def)
  ultimately show ?thesis by simp
qed

text \<open>What is read of a line is read of its directive.\<close>

lemma same_directive:
  assumes "directive a = directive b"
  shows "head a = head b" "is_at_include a = is_at_include b" "rule a = rule b" "rule_names_module a m = rule_names_module b m"
    "phase_of a = phase_of b" "is_include a = is_include b" "irlume_rule a = irlume_rule b"
proof -
  show h: "head a = head b" and i: "is_at_include a = is_at_include b" by (simp_all add: head_def is_at_include_def assms)
  show r: "rule a = rule b" by (simp add: rule_def h)
  show "rule_names_module a m = rule_names_module b m" "phase_of a = phase_of b" "is_include a = is_include b"
    "irlume_rule a = irlume_rule b"
    by (simp_all add: rule_names_module_def phase_of_def is_include_def irlume_rule_def h i r)
qed

lemma inert_line_facts:
  assumes "p \<in> set TYPES"
  shows "phase_of (inert_line p role) = Some p" "\<not> is_include (inert_line p role)"
    "rule_names_module (inert_line p role) ''pam_permit.so''" "irlume_rule (inert_line p role) = None"
  using inert_fronts assms unfolding same_directive [OF directive_inert [OF assms]] by (simp_all add: list_all_iff)

lemma contains_text_mid: "contains_text (a @ p @ b) p"
proof -
  have "starts_with (drop (length a) (a @ p @ b)) p" by (simp add: starts_with_def)
  then show ?thesis unfolding contains_text_def list_ex_iff by (intro bexI [of _ "length a"]) auto
qed

lemma before_nul_id: "CHR 0x00 \<notin> set l \<Longrightarrow> before_nul l = l"
  by (auto simp: before_nul_def intro: takeWhile_eq_all_conv [THEN iffD2])

lemma inert_line_irlume:
  assumes "p \<in> set TYPES" "CHR 0x00 \<notin> set role"
  shows "is_irlume_line (inert_line p role)"
proof -
  have "CHR 0x00 \<notin> set (inert_line p role)"
    using inert_fronts assms by (auto simp: inert_line_front list_all_iff INERT_TAG_def)
  then show ?thesis using inert_line_facts [OF assms(1)] contains_text_mid
    by (auto simp: is_irlume_line_def before_nul_id inert_line_front Let_def)
qed

lemma split_once_text_fresh:
  "c \<notin> set a \<Longrightarrow> split_once_text (c # p) (a @ (c # p) @ b) = Some (a, b)"
  by (induction a) (auto simp: strip_prefix_def)

lemma split_whitespace_blank: "split_whitespace (CHR '' '' # s) = split_whitespace s"
  by (simp add: split_whitespace_def utf8_first_def utf8_len_def is_whitespace_def control_blank_def)

lemma split_whitespace_empty: "split_whitespace [] = []"
  by (simp add: split_whitespace_def)

lemma job_of_inert:
  assumes "p \<in> set TYPES" "one_word role"
  shows "job_of (inert_line p role) = role"
proof -
  have "CHR ''#'' \<notin> set (inert_front p)" using inert_fronts assms(1) by (simp add: list_all_iff)
  then have "split_once_text INERT_TAG (inert_line p role) = Some (inert_front p, if role = [] then [] else '' '' @ role)"
    unfolding inert_line_front inert_tag_hash by (rule split_once_text_fresh)
  moreover have "first_or_empty (split_whitespace (if role = [] then [] else '' '' @ role)) = role"
    using assms(2) by (auto simp: one_word_def split_whitespace_blank first_or_empty_def split_whitespace_empty)
  ultimately show ?thesis by (simp add: job_of_def)
qed

lemma kind_inert: "p \<in> set TYPES \<Longrightarrow> one_word role \<Longrightarrow> kind (inert_line p role) = p @ '' '' @ role"
  by (simp add: kind_def inert_line_facts job_of_inert)

lemma split_once_kind: "c \<notin> set p \<Longrightarrow> split_once c (p @ c # r) = Some (p, r)"
  by (induction p) auto

lemma irlume_rule_head:
  assumes "irlume_rule l = Some r"
  obtains h where "head l = Some h" "\<not> names_stack h" "phase_of l = Some (hd_phase h)" "hd_phase h \<in> set TYPES"
  using assms by (auto simp: irlume_rule_def rule_def phase_of_def head_phase split: option.splits if_splits)

lemma bracket_split_set: "set (fst (bracket_split s)) \<union> set (snd (bracket_split s)) \<subseteq> insert (CHR '']'') (set s)"
proof (induction s rule: bracket_split.induct)
  case (2 c cs)
  have t: "set (tl cs) \<subseteq> set cs" by (cases cs) auto
  consider "c = CHR '']''" | "c \<noteq> CHR '']''" "c = CHR 0x5C \<and> starts_with cs '']''" | "c \<noteq> CHR '']''" "\<not> (c = CHR 0x5C \<and> starts_with cs '']'')"
    by blast
  then show ?case
  proof cases
    case 1
    then show ?thesis by auto
  next
    case 2
    from "2.IH"(1) [OF this] t show ?thesis unfolding bracket_split.simps if_not_P [OF 2(1)] if_P [OF 2(2)] by auto
  next
    case 3
    from "2.IH"(2) [OF this] show ?thesis unfolding bracket_split.simps if_not_P [OF 3(1)] if_not_P [OF 3(2)] by auto
  qed
qed simp

lemma next_field_set: "next_field s = Some (f, r) \<Longrightarrow> set f \<union> set r \<subseteq> insert (CHR '']'') (set s)"
proof -
  assume a: "next_field s = Some (f, r)"
  then obtain c cs where d: "dropWhile is_delimiter s = c # cs" by (auto simp: next_field_def split: list.splits)
  have s: "set (c # cs) \<subseteq> set s" using set_dropWhileD [of _ is_delimiter s] by (auto simp flip: d)
  have t: "set (takeWhile P xs) \<union> set (dropWhile P xs) \<subseteq> set xs" for P and xs :: string
    by (auto dest: set_takeWhileD set_dropWhileD)
  show ?thesis
  proof (cases "c = CHR ''[''")
    case True
    then have "bracket_split cs = (f, r)" using a d by (simp add: next_field_def)
    then show ?thesis using bracket_split_set [of cs] s by auto
  next
    case False
    then have "f = takeWhile (\<lambda>d. \<not> is_delimiter d) (c # cs)" "r = dropWhile (\<lambda>d. \<not> is_delimiter d) (c # cs)"
      using a d by (simp_all add: next_field_def del: takeWhile.simps dropWhile.simps)
    then show ?thesis using t [of "\<lambda>d. \<not> is_delimiter d" "c # cs"] s by (metis subset_insertI2 subset_trans)
  qed
qed

lemma all_fields_set: "f \<in> set (all_fields s) \<Longrightarrow> set f \<subseteq> insert (CHR '']'') (set s)"
proof (induction s rule: all_fields.induct)
  case (1 s)
  show ?case
  proof (cases "next_field s")
    case None
    then show ?thesis using 1(2) by (simp add: all_fields.simps [of s])
  next
    case (Some p)
    then obtain g r where g: "next_field s = Some (g, r)" by (cases p) simp
    then have "f = g \<or> f \<in> set (all_fields r)" using 1(2) by (simp add: all_fields.simps [of s])
    moreover have "set g \<union> set r \<subseteq> insert (CHR '']'') (set s)" by (rule next_field_set [OF g])
    moreover have "f \<in> set (all_fields r) \<Longrightarrow> set f \<subseteq> insert (CHR '']'') (set r)" by (rule 1(1) [OF g]) auto
    ultimately show ?thesis by auto
  qed
qed

lemma type_field_set: "type_field s = Some (f, r) \<Longrightarrow> set r \<subseteq> insert (CHR '']'') (set s)"
  using next_field_set by (fastforce simp: type_field_def)

lemma directive_set: "set (directive l) \<subseteq> set l"
  by (auto simp: directive_def dest: set_takeWhileD set_dropWhileD)

lemma head_rest_set: "head l = Some h \<Longrightarrow> set (hd_rest h) \<subseteq> insert (CHR '']'') (set l)"
  using directive_set [of l]
  by (fastforce simp: head_def Let_def split: option.splits prod.splits if_splits dest: type_field_set next_field_set)

lemma rule_args_set: "rule l = Some r \<Longrightarrow> a \<in> set (r_args r) \<Longrightarrow> set a \<subseteq> insert (CHR '']'') (set l)"
  using head_rest_set [of l]
  by (fastforce simp: rule_def split: option.splits if_splits dest: next_field_set all_fields_set)

text \<open>The blanks at the bytes of ASCII are only in scalar values that are blanks.\<close>

lemma utf8_first_bytes: "utf8_first b cs = (n, c) \<Longrightarrow> x \<in> set (take (n - 1) cs) \<Longrightarrow> 128 \<le> x"
  by (cases cs; cases "tl cs"; cases "tl (tl cs)")
    (auto simp: utf8_first_def Let_def second_ok_def cont_def split: if_splits)


lemma scalars_blank:
  "(v, bs) \<in> set (scalars s) \<Longrightarrow> \<not> is_whitespace v \<Longrightarrow> c \<in> set bs \<Longrightarrow> \<not> control_blank c"
proof (induction s rule: scalars.induct)
  case (2 b cs)
  obtain n u where u: "utf8_first (of_char b) (codes cs) = (n, u)" by fastforce
  show ?case
  proof (cases "(v, bs) \<in> set (scalars (drop (n - 1) cs))")
    case True
    with 2 u show ?thesis by simp
  next
    case False
    then have v: "v = (case u of Some v \<Rightarrow> v | None \<Rightarrow> 0xFFFD)" and bs: "bs = take n (b # cs)" using "2.prems"(1) u by auto
    show ?thesis
    proof (cases "c = b")
      case True
      then show ?thesis using "2.prems"(2) u v
        by (cases "of_char b < (128 :: nat)") (auto simp: utf8_first_def utf8_len_def is_whitespace_def control_blank_def)
    next
      case False
      then have "c \<in> set (take (n - 1) cs)" using "2.prems"(3) bs by (cases n) auto
      then have "of_char c \<in> set (take (n - 1) (codes cs))" by (auto simp: codes_def take_map)
      then have "128 \<le> (of_char c :: nat)" by (rule utf8_first_bytes [OF u])
      then show ?thesis by (auto simp: control_blank_def)
    qed
  qed
qed simp

lemma scalars_set: "(v, bs) \<in> set (scalars s) \<Longrightarrow> set bs \<subseteq> set s"
proof (induction s rule: scalars.induct)
  case (2 b cs)
  obtain n u where u: "utf8_first (of_char b) (codes cs) = (n, u)" by fastforce
  then have "bs = take n (b # cs) \<or> (v, bs) \<in> set (scalars (drop (n - 1) cs))" using "2.prems" by auto
  moreover have "(v, bs) \<in> set (scalars (drop (n - 1) cs)) \<Longrightarrow> set bs \<subseteq> set (drop (n - 1) cs)" by (rule "2.IH" [OF u [symmetric]])
  ultimately show ?case using set_take_subset [of n "b # cs"] set_drop_subset [of "n - 1" cs] by auto
qed simp

lemma words_from_set:
  "w \<in> set (words_from w0 cs) \<Longrightarrow> c \<in> set w \<Longrightarrow> c \<in> set w0 \<or> (\<exists>v bs. (v, bs) \<in> set cs \<and> \<not> is_whitespace v \<and> c \<in> set bs)"
  by (induction w0 cs rule: words_from.induct) (fastforce split: if_splits)+

lemma word_facts:
  assumes "w \<in> set (split_whitespace s)" "c \<in> set w"
  shows "\<not> control_blank c" "c \<in> set s"
proof -
  obtain v bs where "(v, bs) \<in> set (scalars s)" "\<not> is_whitespace v" "c \<in> set bs"
    using words_from_set [OF assms [unfolded split_whitespace_def]] by auto
  then show "\<not> control_blank c" "c \<in> set s" using scalars_blank scalars_set by blast+
qed

lemma one_word_blank: "one_word s \<Longrightarrow> c \<in> set s \<Longrightarrow> \<not> control_blank c"
  using word_facts(1) [of s s c] by (auto simp: one_word_def)

lemma split_once_text_set: "split_once_text p s = Some (a, b) \<Longrightarrow> set b \<subseteq> set s"
  by (induction s arbitrary: a) (auto simp: strip_prefix_def dest: in_set_dropD split: option.splits if_splits)

lemma job_no_nul:
  assumes "CHR 0x00 \<notin> set l"
  shows "CHR 0x00 \<notin> set (job_of l)"
proof (cases "split_once_text INERT_TAG l")
  case (Some ab)
  then obtain a b where ab: "split_once_text INERT_TAG l = Some (a, b)" by (cases ab) simp
  then have "CHR 0x00 \<notin> set b" using assms split_once_text_set by blast
  then have "CHR 0x00 \<notin> set (first_or_empty (split_whitespace b))"
    using word_facts(2) [of _ b] by (cases "split_whitespace b") (auto simp: first_or_empty_def)
  then show ?thesis by (simp add: job_of_def ab)
next
  case None
  have "CHR 0x00 \<notin> set (first_or_empty (r_args r))" if "irlume_rule l = Some r" for r
  proof (cases "r_args r")
    case (Cons a as)
    moreover have "rule l = Some r" using that by (auto simp: irlume_rule_def split: option.splits if_splits)
    ultimately show ?thesis using rule_args_set [of l r a] assms by (auto simp: first_or_empty_def)
  qed (simp add: first_or_empty_def)
  then show ?thesis using None by (auto simp: job_of_def split: option.splits)
qed

text \<open>An inactive line stands for the rule it replaces.\<close>

lemma neutral_facts:
  assumes nul: "CHR 0x00 \<notin> set l" and word: "irlume_rule l \<noteq> None \<Longrightarrow> one_word (job_of l)"
  shows "phase_of (neutral l) = phase_of l" "is_at_include (neutral l) = is_at_include l" "is_include (neutral l) = is_include l"
    "is_irlume_line (neutral l) = is_irlume_line l" "kind (neutral l) = kind l"
    "\<not> is_irlume_line l \<Longrightarrow> neutral l = l"
proof -
  consider "irlume_rule l = None" | r where "irlume_rule l = Some r" by fastforce
  note cases = this
  have some: "phase_of (neutral l) = phase_of l \<and> is_at_include (neutral l) = is_at_include l \<and> is_include (neutral l) = is_include l \<and>
      is_irlume_line (neutral l) = is_irlume_line l \<and> kind (neutral l) = kind l \<and> is_irlume_line l"
    if r: "irlume_rule l = Some r" for r
  proof -
    obtain h where h: "head l = Some h" "\<not> names_stack h" "phase_of l = Some (hd_phase h)" "hd_phase h \<in> set TYPES"
      using r by (rule irlume_rule_head)
    have w: "one_word (job_of l)" using word r by simp
    have "CHR '' '' \<notin> set (hd_phase h)" using inert_fronts h(4) by (simp add: list_all_iff)
    then have n: "neutral l = inert_line (hd_phase h) (job_of l)"
      using r h(3) by (simp add: neutral_def inert_of_kind_def kind_def split_once_kind)
    have "\<not> is_include l" "\<not> is_at_include l" using h(1,2)
      by (auto simp: is_include_def is_at_include_def head_def names_stack_def split: option.splits prod.splits if_splits)
    moreover have "\<not> is_at_include (neutral l)" using inert_line_facts(2) [OF h(4)] by (simp add: n is_include_def)
    moreover have "CHR 0x00 \<notin> set (job_of l)" using job_no_nul nul by blast
    ultimately show ?thesis using inert_line_facts [OF h(4)] inert_line_irlume [OF h(4)] kind_inert [OF h(4) w] h(3) r nul
      by (auto simp: n kind_def is_irlume_line_def [of l] before_nul_id)
  qed
  show "phase_of (neutral l) = phase_of l" "is_at_include (neutral l) = is_at_include l" "is_include (neutral l) = is_include l"
    "is_irlume_line (neutral l) = is_irlume_line l" "kind (neutral l) = kind l" "\<not> is_irlume_line l \<Longrightarrow> neutral l = l"
    using some by (cases "irlume_rule l"; auto simp: neutral_def)+
qed

text \<open>The lines of a file irlume reads as libpam does have no NUL byte.\<close>

lemma lines_set: "l \<in> set (lines s) \<Longrightarrow> set l \<subseteq> set s"
proof -
  have "l \<in> set (lines_from cur s) \<Longrightarrow> set l \<subseteq> set cur \<union> set s" for cur
  proof (induction s arbitrary: cur)
    case (Cons c s)
    have "set (strip_cr cur) \<subseteq> set cur" by (auto simp: strip_cr_def dest: in_set_butlastD)
    with Cons.prems Cons.IH [of "[]"] Cons.IH [of "cur @ [c]"] show ?case by (auto split: if_splits)
  qed (auto split: if_splits)
  from this [of "[]"] show "l \<in> set (lines s) \<Longrightarrow> set l \<subseteq> set s" by (simp add: lines_def)
qed

lemma find_map_None: "find_map f xs = None \<Longrightarrow> x \<in> set xs \<Longrightarrow> f x = None"
  by (induction xs) (auto split: option.splits)

lemma reads_as_pam_no_nul: "reads_as_pam content \<Longrightarrow> CHR 0x00 \<notin> set content"
proof
  assume r: "reads_as_pam content" and n: "CHR 0x00 \<in> set content"
  have "set content \<subseteq> insert (CHR 0x0A) (\<Union> (set ` set (split_on (CHR 0x0A) content)))"
    using set_join [of "CHR 0x0A" "split_on (CHR 0x0A) content"] by (simp add: join_split_on)
  with n obtain t where t: "t \<in> set (split_on (CHR 0x0A) content)" "CHR 0x00 \<in> set t" by auto
  then obtain i where i: "(i, t) \<in> set (enumerate 0 (split_on (CHR 0x0A) content))"
    by (auto simp: in_set_conv_nth [of t] in_set_enumerate_eq)
  have "find_map (\<lambda>(at, t). map_option (\<lambda>why. \<lparr> ul_number = at + 1, ul_text = t, ul_why = why \<rparr>) (unread t))
      (enumerate 0 (split_on (CHR 0x0A) content)) = None"
    using r by (cases "has_line_continuation content") (simp_all only: reads_as_pam_def unreadable_line_def simp_thms if_False)
  from find_map_None [OF this i] have "unread t = None" by simp
  then show False using t(2) by (simp add: unread_def)
qed

definition plain_jobs :: "string \<Rightarrow> bool" where
  "plain_jobs body \<longleftrightarrow> list_all (\<lambda>l. plain_end l \<and> (irlume_rule l = None \<or> one_word (job_of l))) (lines body)"

lemma plain_end_app: "CHR 0x0D \<notin> set b \<Longrightarrow> b \<noteq> [] \<Longrightarrow> plain_end (a @ b)"
proof -
  assume "CHR 0x0D \<notin> set b" "b \<noteq> []"
  then have "last (a @ b) \<noteq> CHR 0x0D" using last_in_set [of b] by (metis last_appendR)
  then show ?thesis by (simp add: plain_end_def strip_cr_def)
qed

lemma neutral_plain:
  assumes "plain_end l" "CHR 0x0A \<notin> set l" "irlume_rule l \<noteq> None \<Longrightarrow> one_word (job_of l)"
  shows "plain_end (neutral l) \<and> CHR 0x0A \<notin> set (neutral l)"
proof (cases "irlume_rule l")
  case (Some r)
  obtain h where h: "head l = Some h" "\<not> names_stack h" "phase_of l = Some (hd_phase h)" "hd_phase h \<in> set TYPES"
    using Some by (rule irlume_rule_head)
  have "one_word (job_of l)" using assms(3) Some by simp
  moreover have "control_blank (CHR 0x0D)" "control_blank (CHR 0x0A)" by (simp_all add: control_blank_def)
  ultimately have w: "CHR 0x0D \<notin> set (job_of l)" "CHR 0x0A \<notin> set (job_of l)" by (metis one_word_blank)+
  have "CHR '' '' \<notin> set (hd_phase h)" "CHR 0x0A \<notin> set (inert_front (hd_phase h))"
    using h(4) by (auto simp: TYPES_def inert_front_def)
  moreover from this have "neutral l = inert_line (hd_phase h) (job_of l)"
    using Some h(3) by (simp add: neutral_def inert_of_kind_def kind_def split_once_kind)
  ultimately show ?thesis using w by (auto simp: inert_line_front INERT_TAG_def intro!: plain_end_app)
qed (use assms in \<open>simp add: neutral_def\<close>)

lemma chain_neutralize:
  assumes "reads_as_pam body" "plain_jobs body"
  shows "chain (neutralize body) phase = map neutral (chain body phase)"
proof (cases "lines body = []")
  case True
  have "chain (joined []) phase = []" by (simp add: chain_def lines_def joined_def in_chain_def is_at_include_def phase_of_def
      head_def type_field_def next_field_def directive_def strip_cr_def)
  with True show ?thesis by (simp add: neutralize_def chain_def)
next
  case False
  have l: "CHR 0x00 \<notin> set l" "CHR 0x0A \<notin> set l" "plain_end l" "irlume_rule l \<noteq> None \<Longrightarrow> one_word (job_of l)"
    if "l \<in> set (lines body)" for l
    using that assms lines_no_newline [OF that] lines_set [OF that] reads_as_pam_no_nul [OF assms(1)]
    by (auto simp: plain_jobs_def list_all_iff)
  have "lines (neutralize body) = map neutral (lines body)"
    unfolding neutralize_def using False l neutral_plain by (intro lines_joined) auto
  moreover have "in_chain (neutral l) phase = in_chain l phase" if "l \<in> set (lines body)" for l
    using l [OF that] neutral_facts by (simp add: in_chain_def)
  ultimately show ?thesis by (simp add: chain_def filter_map o_def cong: filter_cong)
qed

lemma landing_neutral:
  assumes "\<forall>l\<in>set ch. line_key (f l) = line_key l \<and> is_include (f l) = is_include l"
  shows "landing_of (map f ch) at n = landing_of ch at n"
    and "map line_key (take n (drop (at + 1) (map f ch))) = map line_key (take n (drop (at + 1) ch))"
proof -
  have k: "map line_key (map f xs) = map line_key xs" "list_ex is_include (map f xs) = list_ex is_include xs"
    if "set xs \<subseteq> set ch" for xs using that assms by (auto simp: list_ex_iff)
  have o: "occurrence (map f ch) to = occurrence ch to" if "to < length ch" for to
  proof -
    have "length (filter (\<lambda>l. line_key l = key) (map f xs)) = length (filter (\<lambda>l. line_key l = key) xs)"
      if "set xs \<subseteq> set ch" for xs key using that assms by (induction xs) auto
    with that assms show ?thesis by (simp add: occurrence_def take_map Let_def set_take_subset)
  qed
  have d: "set (drop i (take j ch)) \<subseteq> set ch" "set (take j (drop i ch)) \<subseteq> set ch" for i j
    by (meson in_set_dropD in_set_takeD subsetI)+
  show "landing_of (map f ch) at n = landing_of ch at n"
    using k [OF d(1)] o by (auto simp: landing_of_def Let_def take_map drop_map)
  show "map line_key (take n (drop (at + 1) (map f ch))) = map line_key (take n (drop (at + 1) ch))"
    using k(1) [OF d(2)] by (simp add: take_map drop_map)
qed

text \<open>C9: A disable that leaves inactive lines moves no jump. In a file irlume reads as libpam does, whose
  lines end in no stray carriage return and whose irlume rules name their job in one word, replacing
  each rule of pam_irlume.so by its inactive line leaves every numeric jump of the other lines, in each
  of the four chains, with the same landing and the same skipped lines.\<close>

theorem inactive_lines_keep_every_jump:
  assumes "reads_as_pam body" "plain_jobs body"
  shows "jumps (neutralize body) = jumps body"
proof -
  have l: "line_key (neutral l) = line_key l" "is_include (neutral l) = is_include l"
    "is_irlume_line (neutral l) = is_irlume_line l" "\<not> is_irlume_line l \<Longrightarrow> neutral l = l"
    if "l \<in> set (chain body phase)" for l phase
  proof -
    have m: "l \<in> set (lines body)" using that by (simp add: chain_def)
    have n: "CHR 0x00 \<notin> set l" using lines_set [OF m] reads_as_pam_no_nul [OF assms(1)] by auto
    have w: "irlume_rule l \<noteq> None \<Longrightarrow> one_word (job_of l)" using m assms(2) by (auto simp: plain_jobs_def list_all_iff)
    from neutral_facts [OF n w] show "line_key (neutral l) = line_key l" "is_include (neutral l) = is_include l"
      "is_irlume_line (neutral l) = is_irlume_line l" "\<not> is_irlume_line l \<Longrightarrow> neutral l = l"
      by (auto simp: line_key_def)
  qed
  have "chain_jumps phase (map neutral ch) seen (enumerate i (map neutral ls)) = chain_jumps phase ch seen (enumerate i ls)"
    if "ch = chain body phase" "set ls \<subseteq> set ch" for phase ch ls seen i
    using that(2)
  proof (induction ls arbitrary: i seen)
    case (Cons x ls)
    have ch: "\<forall>l\<in>set ch. line_key (neutral l) = line_key l \<and> is_include (neutral l) = is_include l" using l that(1) by blast
    have x: "x \<in> set (chain body phase)" using Cons.prems that(1) by auto
    show ?case
      by (cases "is_irlume_line x") (use Cons l(3,4) [OF x] landing_neutral [OF ch] in \<open>simp_all split: prod.splits\<close>)
  qed simp
  then show ?thesis by (simp add: jumps_def Let_def chain_neutralize [OF assms])
qed

definition counted_sudo :: string where
  "counted_sudo = joined [''auth [success=1] a.so'', ''auth sufficient pam_irlume.so'',
     ''auth required b.so'']"

theorem inactive_lines_keep_every_jump_witness:
  "jumps (neutralize counted_sudo) = jumps counted_sudo \<and> jumps counted_sudo \<noteq> []"
proof -
  have "reads_as_pam counted_sudo" by code_simp
  moreover have "plain_jobs counted_sudo" by code_simp
  moreover have "jumps counted_sudo \<noteq> []" by code_simp
  ultimately show ?thesis using inactive_lines_keep_every_jump by blast
qed

end
