(* ===== verification/Pam_Wiring.thy ===== *)
theory Pam_Wiring
  imports Pam_Jumps
begin

text \<open>
  The recipes that put irlume's lines into a PAM stack (\<^verbatim>\<open>irlume-cli/src/pamwire/transform.rs\<close>): login screens,
  lock screens, fingerprint services, \<open>sudo\<close> and polkit. Each takes the text of a file and gives its
  new text and whether it changed. Every recipe is a weave of the file's lines, so taking irlume's
  lines out again gives the file back; the verify stanza goes as close above the password step as the
  jumps of the other lines allow.
\<close>

section \<open>The keyring hand-off\<close>

record KeyringHandoff =
  kh_complete :: "string option"
  kh_auth_only :: "string list"

definition handoff_step :: "(string \<Rightarrow> bool) \<Rightarrow> string \<Rightarrow> KeyringHandoff \<Rightarrow> KeyringHandoff" where
  "handoff_step has_session_line module kh =
     (if has_session_line module
      then kh\<lparr>kh_complete := (case kh_complete kh of Some m \<Rightarrow> Some m | None \<Rightarrow> Some module)\<rparr>
      else if module \<in> set (kh_auth_only kh) then kh
      else kh\<lparr>kh_auth_only := kh_auth_only kh @ [module]\<rparr>)"

definition keyring_handoff :: "string \<Rightarrow> string \<Rightarrow> KeyringHandoff option" where
  "keyring_handoff content service =
     (if \<not> reads_as_pam content then None
      else let ls = lines content in
        case position (\<lambda>l. irlume_rule_has_arg l ''unseal'' \<or> irlume_rule_has_arg l ''keyring'') ls of
          None \<Rightarrow> None
        | Some unseal_at \<Rightarrow>
            let has_session_line = (\<lambda>module. list_ex (\<lambda>l. is_session_directive l \<and>
                  consumer_active_for l service = Some module) ls)
            in Some (fold (handoff_step has_session_line)
              (List.map_filter (\<lambda>l. consumer_active_for l service) (filter is_auth_directive (drop (unseal_at + 1) ls)))
              \<lparr> kh_complete = None, kh_auth_only = [] \<rparr>))"

section \<open>Login and lock screens\<close>

text \<open>The lines of a file, each replaced by the lines a recipe puts in its place.\<close>

definition weave :: "(nat \<Rightarrow> string \<Rightarrow> string list) \<Rightarrow> string list \<Rightarrow> string list" where
  "weave g ls = concat (map (\<lambda>(i, l). g i l) (enumerate 0 ls))"

definition refuses :: "StackReader option \<Rightarrow> string \<Rightarrow> bool" where
  "refuses rd content \<longleftrightarrow> \<not> reads_as_pam content \<or> has_failing_auth_line rd content \<or> content_has_module content"

definition greeter_include_at :: "bool \<Rightarrow> bool \<Rightarrow> bool \<Rightarrow> nat \<Rightarrow> nat \<Rightarrow> string \<Rightarrow> string list" where
  "greeter_include_at face keyring ondemand inc_at i l =
     (if i = inc_at
      then (if face then [include_greeter_line (if ondemand then ''ondemand'' else ''facefirst'') True] else []) @
        [l] @ (if keyring then [KEYRING_UNSEAL] else []) @ [RESEAL_AUTH]
      else if is_session_include l then [l, RESEAL_SESSION] else [l])"

definition greeter_jump_at :: "bool \<Rightarrow> bool \<Rightarrow> bool \<Rightarrow> nat \<Rightarrow> nat option \<Rightarrow> nat \<Rightarrow> string \<Rightarrow> string list" where
  "greeter_jump_at face keyring ondemand auth_at sess_at i l =
     (if i = auth_at
      then (if face
            then [if ondemand then GREETER_UNSEAL_COSMIC_JUMP else GREETER_UNSEAL_FACEFIRST_JUMP, l, PERMIT_LANDING]
            else [l]) @
        (if keyring then [KEYRING_UNSEAL] else []) @ [RESEAL_AUTH]
      else if Some i = sess_at then [l, RESEAL_SESSION] else [l])"

definition wire_greeter_impl :: "StackReader option \<Rightarrow> string \<Rightarrow> bool \<Rightarrow> bool \<Rightarrow> bool \<Rightarrow> string \<times> bool" where
  "wire_greeter_impl rd content face keyring ondemand =
     (if refuses rd content then (content, False)
      else let ls = lines content in
        case position is_include_auth_layout ls of
          Some inc_at \<Rightarrow>
            let out = weave (greeter_include_at face keyring ondemand inc_at) ls in
            (joined (if RESEAL_SESSION \<in> set out then out else out @ [RESEAL_SESSION]), True)
        | None \<Rightarrow> (case find_auth_anchor rd ls of
              None \<Rightarrow> (content, False)
            | Some auth_at \<Rightarrow>
                let sess_at = position (\<lambda>l. is_passwd_substack l ''session'') ls;
                    out = weave (greeter_jump_at face keyring ondemand auth_at sess_at) ls
                in (joined (if sess_at = None then out @ [RESEAL_SESSION] else out), True)))"

definition wire_lock :: "StackReader option \<Rightarrow> string \<Rightarrow> string \<times> bool" where
  "wire_lock rd content =
     (if refuses rd content then (content, False)
      else let ls = lines content in
        case position is_include_auth_layout ls of
          Some inc_at \<Rightarrow>
            (joined (weave (\<lambda>i l. if i = inc_at then [include_greeter_line ''ondemand'' False, l] else [l]) ls), True)
        | None \<Rightarrow> (case find_auth_anchor rd ls of
              None \<Rightarrow> (content, False)
            | Some auth_at \<Rightarrow>
                (joined (weave (\<lambda>i l. if i = auth_at then [GREETER_UNSEAL_COSMIC_JUMP, l, PERMIT_LANDING] else [l]) ls), True)))"

definition has_complete_consumer :: "string \<Rightarrow> nat \<Rightarrow> string list \<Rightarrow> bool" where
  "has_complete_consumer service fp_at ls = list_ex (\<lambda>module.
     list_ex (\<lambda>l. is_auth_directive l \<and> consumer_active_for l service = Some module) (drop (fp_at + 1) ls) \<and>
     list_ex (\<lambda>l. is_session_directive l \<and> consumer_active_for l service = Some module) ls) KEYRING_CONSUMERS"

definition wire_fp_keyring :: "string \<Rightarrow> string \<Rightarrow> string \<times> bool" where
  "wire_fp_keyring content service =
     (if \<not> reads_as_pam content then (content, False)
      else let ls = lines content in
        if list_ex (\<lambda>l. irlume_rule_has_arg l ''keyring'') ls then (content, False)
        else (case position is_fingerprint_auth ls of
            None \<Rightarrow> (content, False)
          | Some fp_at \<Rightarrow>
              let consumer = has_complete_consumer service fp_at ls;
                  out = weave (\<lambda>i l. if i = fp_at then [l, KEYRING_UNSEAL] @ (if consumer then [] else [FP_GKR_AUTH]) else [l]) ls;
                  reseal = list_ex (\<lambda>l. case irlume_rule l of None \<Rightarrow> False | Some r \<Rightarrow> r_phase r = ''session'') ls
              in (joined (out @ (if consumer then [] else [FP_GKR_SESSION]) @ (if reseal then [] else [RESEAL_SESSION])), True)))"

section \<open>Verify services\<close>

definition is_auth_line :: "string \<Rightarrow> bool" where
  "is_auth_line l \<longleftrightarrow> is_auth_directive l \<or> is_include_auth_layout l"

definition with_stanza_at :: "string \<Rightarrow> string list \<Rightarrow> nat \<Rightarrow> string" where
  "with_stanza_at stanza ls at = joined (weave (\<lambda>i l. if i = at then [stanza, l] else [l]) ls)"

text \<open>The step a verify stanza goes above: the password step, or the first auth line when that comes later.\<close>

definition password_at :: "string list \<Rightarrow> nat \<Rightarrow> nat" where
  "password_at ls first = (case position is_password_step ls of None \<Rightarrow> first | Some at \<Rightarrow> max at first)"

definition insert_verify_stanza :: "StackReader option \<Rightarrow> string \<Rightarrow> string \<Rightarrow> string \<times> bool" where
  "insert_verify_stanza rd content stanza = (let ls = lines content in
     case position is_auth_line ls of
       None \<Rightarrow> (content, False)
     | Some first \<Rightarrow>
         (case find (\<lambda>at. is_auth_line (ls ! at) \<and> jumps_moved_by_irlume rd content (with_stanza_at stanza ls at) = [])
             (rev [Suc first..<Suc (password_at ls first)]) of
            Some at \<Rightarrow> (with_stanza_at stanza ls at, True)
          | None \<Rightarrow> (with_stanza_at stanza ls first, True)))"

definition wire_verify_service :: "StackReader option \<Rightarrow> string \<Rightarrow> string \<times> bool" where
  "wire_verify_service rd content =
     (if refuses rd content then (content, False) else insert_verify_stanza rd content VERIFY_STANZA)"

definition wire_polkit_service :: "StackReader option \<Rightarrow> string \<Rightarrow> string \<times> bool" where
  "wire_polkit_service rd content =
     (if refuses rd content then (content, False) else insert_verify_stanza rd content POLKIT_VERIFY_STANZA)"

definition wire_omarchy_lock :: "StackReader option \<Rightarrow> string \<Rightarrow> string \<times> bool" where
  "wire_omarchy_lock rd content =
     (if refuses rd content then (content, False)
      else let ls = lines content in
        case position (\<lambda>l. is_include_auth_layout l \<or> is_auth_directive l) ls of
          None \<Rightarrow> (content, False)
        | Some anchor \<Rightarrow> (joined (weave (\<lambda>i l. if i = anchor then [POLKIT_VERIFY_STANZA, l] else [l]) ls), True))"

section \<open>The recipe of a surface\<close>

datatype Recipe = Greeter | Lock | Verify | Polkit

record Settings =
  se_face :: bool
  se_keyring :: bool
  se_ondemand :: bool

definition default_settings :: Settings where
  "default_settings = \<lparr> se_face = False, se_keyring = False, se_ondemand = False \<rparr>"

definition infer :: "Recipe \<Rightarrow> string \<Rightarrow> Settings option" where
  "infer recipe body =
     (let args = map r_args (List.map_filter irlume_rule (lines body)) in
      if args = [] then None
      else if recipe \<noteq> Greeter then Some default_settings
      else let unseal = filter (\<lambda>t. ''unseal'' \<in> set t) args;
               face = (unseal \<noteq> []);
               keyring = list_ex (\<lambda>t. ''keyring'' \<in> set t) args;
               on = length (filter (\<lambda>t. ''ondemand'' \<in> set t) unseal);
               first = length (filter (\<lambda>t. ''facefirst'' \<in> set t) unseal);
               ondemand = (if \<not> face then Some False
                 else if on = length unseal \<and> first = 0 then Some True
                 else if first = length unseal \<and> on = 0 then Some False
                 else None)
        in case ondemand of
             None \<Rightarrow> None
           | Some od \<Rightarrow>
               if \<not> face \<and> \<not> keyring
               then (if list_all (\<lambda>t. ''reseal'' \<in> set t) args then Some default_settings else None)
               else Some \<lparr> se_face = face, se_keyring = keyring, se_ondemand = od \<rparr>)"

definition wire_with :: "StackReader option \<Rightarrow> Recipe \<Rightarrow> Settings \<Rightarrow> string \<Rightarrow> string \<times> bool" where
  "wire_with rd recipe settings content = (case recipe of
      Greeter \<Rightarrow> wire_greeter_impl rd content (se_face settings) (se_keyring settings) (se_ondemand settings)
    | Lock \<Rightarrow> wire_lock rd content
    | Verify \<Rightarrow> wire_verify_service rd content
    | Polkit \<Rightarrow> wire_polkit_service rd content)"

section \<open>Weaves\<close>

lemma STANZA_facts:
  assumes "s \<in> set STANZAS"
  shows "is_irlume_line s" "CHR 0x0A \<notin> set s" "plain_end s"
  using assms STANZAS_irlume STANZAS_plain by (simp_all add: list_all_iff)

text \<open>A weave that keeps each line and adds only stanzas.\<close>

definition adds_stanzas :: "(nat \<Rightarrow> string \<Rightarrow> string list) \<Rightarrow> bool" where
  "adds_stanzas g \<longleftrightarrow> (\<forall>i l. \<exists>a b. g i l = a @ [l] @ b \<and> set a \<subseteq> set STANZAS \<and> set b \<subseteq> set STANZAS)"

lemma filter_stanzas: "set a \<subseteq> set STANZAS \<Longrightarrow> filter (\<lambda>l. \<not> is_irlume_line l) a = []"
  using STANZA_facts(1) by (auto simp: filter_empty_conv)

lemma filter_weave:
  assumes "adds_stanzas g"
  shows "filter (\<lambda>l. \<not> is_irlume_line l) (weave g ls) = filter (\<lambda>l. \<not> is_irlume_line l) ls"
proof -
  have "filter (\<lambda>l. \<not> is_irlume_line l) (concat (map (\<lambda>(i, l). g i l) (enumerate n ls))) =
      filter (\<lambda>l. \<not> is_irlume_line l) ls" for n
  proof (induction ls arbitrary: n)
    case (Cons l ls)
    obtain a b where "g n l = a @ [l] @ b" "set a \<subseteq> set STANZAS" "set b \<subseteq> set STANZAS"
      using assms unfolding adds_stanzas_def by blast
    with Cons [of "Suc n"] show ?case by (simp add: filter_stanzas)
  qed simp
  then show ?thesis by (simp add: weave_def)
qed

lemma set_weave: "adds_stanzas g \<Longrightarrow> set (weave g ls) \<subseteq> set ls \<union> set STANZAS"
proof -
  assume g: "adds_stanzas g"
  have "set (g i l) \<subseteq> {l} \<union> set STANZAS" for i l
  proof -
    obtain a b where "g i l = a @ [l] @ b" "set a \<subseteq> set STANZAS" "set b \<subseteq> set STANZAS" 
      using g unfolding adds_stanzas_def by blast
    then show ?thesis by auto
  qed
  then show ?thesis by (fastforce simp: weave_def in_set_enumerate_eq dest: nth_mem)
qed

text \<open>Which texts a recipe writes: the file's lines and stanzas, the file's lines in their order, and at
  least one rule of pam_irlume.so.\<close>

definition is_wiring :: "string list \<Rightarrow> string list \<Rightarrow> bool" where
  "is_wiring ls out \<longleftrightarrow> set out \<subseteq> set ls \<union> set STANZAS \<and>
     filter (\<lambda>l. \<not> is_irlume_line l) out = filter (\<lambda>l. \<not> is_irlume_line l) ls \<and> (\<exists>r\<in>set STANZAS. irlume_rule r \<noteq> None \<and> r \<in> set out)"

lemma weave_wiring:
  assumes "adds_stanzas g" "set extra \<subseteq> set STANZAS" "i < length ls" "r \<in> set (g i (ls ! i))" "r \<in> set STANZAS" "irlume_rule r \<noteq> None"
  shows "is_wiring ls (weave g ls @ extra)"
proof -
  have "r \<in> set (weave g ls)" using assms(3,4) by (force simp: weave_def in_set_enumerate_eq)
  then show ?thesis using assms(2,5,6) set_weave [OF assms(1), of ls] filter_weave [OF assms(1), of ls] filter_stanzas [OF assms(2)]
    by (auto simp: is_wiring_def)
qed

lemma RULES_irlume: "list_all (\<lambda>l. irlume_rule l \<noteq> None) [GREETER_UNSEAL_FACEFIRST_JUMP, GREETER_UNSEAL_COSMIC_JUMP, RESEAL_AUTH,
   KEYRING_UNSEAL, VERIFY_STANZA, POLKIT_VERIFY_STANZA, include_greeter_line ''ondemand'' False]"
  by code_simp

lemma adds_stanzasI:
  "(\<And>i l. \<exists>a b. g i l = a @ [l] @ b \<and> set a \<subseteq> set STANZAS \<and> set b \<subseteq> set STANZAS) \<Longrightarrow> adds_stanzas g"
  by (simp add: adds_stanzas_def)

lemma adds_at:
  assumes "set a \<subseteq> set STANZAS" "set b \<subseteq> set STANZAS"
  shows "adds_stanzas (\<lambda>i l. if i = at then a @ [l] @ b else [l])"
  using assms by (intro adds_stanzasI) (metis append_Nil append_Nil2 empty_set empty_subsetI)


lemma with_stanza_wiring:
  assumes "stanza \<in> set STANZAS" "irlume_rule stanza \<noteq> None" "at < length ls"
  shows "\<exists>ws. with_stanza_at stanza ls at = joined ws \<and> is_wiring ls ws"
proof (intro exI conjI)
  show "with_stanza_at stanza ls at = joined (weave (\<lambda>i l. if i = at then [stanza, l] else [l]) ls)" by (simp add: with_stanza_at_def)
  show "is_wiring ls (weave (\<lambda>i l. if i = at then [stanza, l] else [l]) ls)"
    using weave_wiring [OF adds_at [of "[stanza]" "[]" at, unfolded append.simps], of "[]" at ls stanza] assms by simp
qed

lemma find_Some_set: "find P xs = Some x \<Longrightarrow> x \<in> set xs \<and> P x"
  by (auto simp: find_Some_iff)

text \<open>The first hit in a range counted down is the greatest.\<close>

lemma find_rev_upt: "find P (rev [a..<b]) = Some i \<Longrightarrow> i < k \<Longrightarrow> k < b \<Longrightarrow> \<not> P k"
proof (induction b)
  case (Suc b)
  then show ?case by (cases "a \<le> b"; cases "P b"; cases "k = b") (auto simp: less_Suc_eq)
qed simp

lemma insert_verify_wiring:
  assumes w: "insert_verify_stanza rd content stanza = (out, True)" and s: "stanza \<in> set STANZAS" "irlume_rule stanza \<noteq> None"
  shows "\<exists>ws. out = joined ws \<and> is_wiring (lines content) ws"
proof -
  let ?ls = "lines content"
  obtain first where first: "position is_auth_line ?ls = Some first" using w by (auto simp: insert_verify_stanza_def Let_def split: option.splits)
  have "first < length ?ls" using position_SomeD [OF first] by simp
  moreover have "password_at ?ls first < length ?ls" using position_SomeD [of is_password_step ?ls] \<open>first < _\<close>
    by (auto simp: password_at_def split: option.splits)
  moreover obtain at where "out = with_stanza_at stanza ?ls at" "at = first \<or> at \<le> password_at ?ls first"
    using w first by (fastforce simp: insert_verify_stanza_def Let_def split: option.splits dest: find_Some_set)
  ultimately show ?thesis using with_stanza_wiring [OF s, of at ?ls] by auto
qed

lemma greeter_include_wiring:
  assumes "i < length ls" "set extra \<subseteq> set STANZAS"
  shows "is_wiring ls (weave (greeter_include_at face keyring ondemand i) ls @ extra)"
proof (rule weave_wiring [where i = i and r = RESEAL_AUTH])
  let ?pre = "if face then [include_greeter_line (if ondemand then ''ondemand'' else ''facefirst'') True] else []"
  let ?post = "(if keyring then [KEYRING_UNSEAL] else []) @ [RESEAL_AUTH]"
  show "adds_stanzas (greeter_include_at face keyring ondemand i)"
  proof (rule adds_stanzasI)
    fix j l
    have "set ?pre \<subseteq> set STANZAS" "set ?post \<subseteq> set STANZAS" "RESEAL_SESSION \<in> set STANZAS" by (auto simp: STANZAS_def)
    then show "\<exists>a b. greeter_include_at face keyring ondemand i j l = a @ [l] @ b \<and> set a \<subseteq> set STANZAS \<and> set b \<subseteq> set STANZAS"
      unfolding greeter_include_at_def
      by (cases "j = i"; cases "is_session_include l") (auto intro: exI [of _ ?pre] exI [of _ "[] :: string list"])
  qed
qed (use assms RULES_irlume in \<open>auto simp: greeter_include_at_def STANZAS_def\<close>)

lemma greeter_jump_wiring:
  assumes "i < length ls" "set extra \<subseteq> set STANZAS"
  shows "is_wiring ls (weave (greeter_jump_at face keyring ondemand i sess) ls @ extra)"
proof (rule weave_wiring [where i = i and r = RESEAL_AUTH])
  let ?pre = "if face then [if ondemand then GREETER_UNSEAL_COSMIC_JUMP else GREETER_UNSEAL_FACEFIRST_JUMP] else []"
  let ?post = "(if face then [PERMIT_LANDING] else []) @ (if keyring then [KEYRING_UNSEAL] else []) @ [RESEAL_AUTH]"
  show "adds_stanzas (greeter_jump_at face keyring ondemand i sess)"
  proof (rule adds_stanzasI)
    fix j l
    have "set ?pre \<subseteq> set STANZAS" "set ?post \<subseteq> set STANZAS" "RESEAL_SESSION \<in> set STANZAS" by (auto simp: STANZAS_def)
    then show "\<exists>a b. greeter_jump_at face keyring ondemand i sess j l = a @ [l] @ b \<and> set a \<subseteq> set STANZAS \<and> set b \<subseteq> set STANZAS"
      unfolding greeter_jump_at_def
      by (cases "j = i"; cases "Some j = sess") (auto intro: exI [of _ ?pre] exI [of _ "[] :: string list"])
  qed
qed (use assms RULES_irlume in \<open>auto simp: greeter_jump_at_def STANZAS_def\<close>)


lemma find_auth_anchor_bound: "find_auth_anchor rd ls = Some at \<Longrightarrow> at < length ls"
  by (auto simp: find_auth_anchor_def dest: position_SomeD split: option.splits if_splits)

lemma lock_wiring:
  assumes "wire_lock rd content = (out, True)"
  shows "\<exists>ws. out = joined ws \<and> is_wiring (lines content) ws"
proof -
  let ?ls = "lines content"
  have w: "is_wiring ?ls (weave (\<lambda>i l. if i = at then a @ [l] @ b else [l]) ?ls)"
    if "at < length ?ls" "set a \<subseteq> set STANZAS" "set b \<subseteq> set STANZAS" "r \<in> set a" "irlume_rule r \<noteq> None" for at a b r
    using weave_wiring [OF adds_at [OF that(2,3), of at], of "[]" at ?ls r] that by auto
  consider i where "position is_include_auth_layout ?ls = Some i" "i < length ?ls"
      "out = joined (weave (\<lambda>j l. if j = i then [include_greeter_line ''ondemand'' False, l] else [l]) ?ls)"
    | i where "find_auth_anchor rd ?ls = Some i" "i < length ?ls"
      "out = joined (weave (\<lambda>j l. if j = i then [GREETER_UNSEAL_COSMIC_JUMP, l, PERMIT_LANDING] else [l]) ?ls)"
    using assms find_auth_anchor_bound [of rd ?ls] position_SomeD [of is_include_auth_layout ?ls]
    by (auto simp: wire_lock_def Let_def split: if_splits option.splits)
  then show ?thesis
  proof cases
    case 1
    then show ?thesis using w [of i "[include_greeter_line ''ondemand'' False]" "[]" "include_greeter_line ''ondemand'' False",
          unfolded append.simps] RULES_irlume by (auto simp: STANZAS_def)
  next
    case 2
    then show ?thesis using w [of i "[GREETER_UNSEAL_COSMIC_JUMP]" "[PERMIT_LANDING]" GREETER_UNSEAL_COSMIC_JUMP,
          unfolded append.simps] RULES_irlume by (auto simp: STANZAS_def)
  qed
qed

lemma greeter_wiring:
  assumes "wire_greeter_impl rd content face keyring ondemand = (out, True)"
  shows "\<exists>ws. out = joined ws \<and> is_wiring (lines content) ws"
proof -
  let ?ls = "lines content"
  have e: "set (if c then [] else [RESEAL_SESSION]) \<subseteq> set STANZAS" for c by (simp add: STANZAS_def)
  show ?thesis
  proof (cases "position is_include_auth_layout ?ls")
    case (Some i)
    let ?out = "weave (greeter_include_at face keyring ondemand i) ?ls"
    from Some assms have "out = joined (?out @ (if RESEAL_SESSION \<in> set ?out then [] else [RESEAL_SESSION]))"
      by (auto simp: wire_greeter_impl_def Let_def split: if_splits)
    then show ?thesis using greeter_include_wiring e position_SomeD [OF Some] by blast
  next
    case None
    let ?s = "position (\<lambda>l. is_passwd_substack l ''session'') ?ls"
    obtain i where i: "find_auth_anchor rd ?ls = Some i" using None assms
      by (auto simp: wire_greeter_impl_def Let_def simp del: position_None_iff split: if_splits option.splits)
    with None assms have "out = joined (weave (greeter_jump_at face keyring ondemand i ?s) ?ls @ (if ?s \<noteq> None then [] else [RESEAL_SESSION]))"
      by (auto simp: wire_greeter_impl_def Let_def simp del: position_None_iff split: if_splits)
    then show ?thesis using greeter_jump_wiring e find_auth_anchor_bound [OF i] by blast
  qed
qed

lemma wire_with_wiring:
  assumes "wire_with rd recipe settings content = (out, True)"
  shows "\<exists>ws. out = joined ws \<and> is_wiring (lines content) ws"
proof (cases recipe)
  case Greeter
  with assms greeter_wiring show ?thesis by (simp add: wire_with_def)
next
  case Lock
  with assms lock_wiring show ?thesis by (simp add: wire_with_def)
next
  case Verify
  with assms insert_verify_wiring [of rd content VERIFY_STANZA out] RULES_irlume show ?thesis
    by (auto simp: wire_with_def wire_verify_service_def STANZAS_def split: if_splits)
next
  case Polkit
  with assms insert_verify_wiring [of rd content POLKIT_VERIFY_STANZA out] RULES_irlume show ?thesis
    by (auto simp: wire_with_def wire_polkit_service_def STANZAS_def split: if_splits)
qed

lemma wiring_lines:
  assumes "is_wiring (lines content) ws" "list_all plain_end (lines content)"
  shows "lines (joined ws) = ws"
proof (rule lines_joined)
  show "ws \<noteq> []" using assms(1) by (auto simp: is_wiring_def)
  show "\<forall>l\<in>set ws. CHR 0x0A \<notin> set l \<and> plain_end l"
  proof
    fix l assume "l \<in> set ws"
    then consider "l \<in> set (lines content)" | "l \<in> set STANZAS" using assms(1) by (auto simp: is_wiring_def)
    then show "CHR 0x0A \<notin> set l \<and> plain_end l"
      by cases (use assms(2) STANZA_facts lines_no_newline in \<open>auto simp: list_all_iff\<close>)
  qed
qed

lemma omarchy_wiring:
  assumes "wire_omarchy_lock rd content = (out, True)"
  shows "\<exists>ws. out = joined ws \<and> is_wiring (lines content) ws"
proof -
  let ?P = "\<lambda>l. is_include_auth_layout l \<or> is_auth_directive l"
  obtain at where at: "position ?P (lines content) = Some at"
    and out: "out = with_stanza_at POLKIT_VERIFY_STANZA (lines content) at"
    using assms by (auto simp: wire_omarchy_lock_def with_stanza_at_def Let_def simp del: position_None_iff split: if_splits option.splits)
  show ?thesis unfolding out
    by (rule with_stanza_wiring) (use position_SomeD [OF at] RULES_irlume in \<open>auto simp: STANZAS_def\<close>)
qed

lemma fp_wiring:
  assumes "wire_fp_keyring content service = (out, True)"
  shows "\<exists>ws. out = joined ws \<and> is_wiring (lines content) ws"
proof -
  let ?ls = "lines content"
  obtain at where at: "position is_fingerprint_auth ?ls = Some at"
    using assms by (auto simp: wire_fp_keyring_def Let_def simp del: position_None_iff split: if_splits option.splits)
  let ?c = "has_complete_consumer service at ?ls"
  let ?r = "list_ex (\<lambda>l. case irlume_rule l of None \<Rightarrow> False | Some r \<Rightarrow> r_phase r = ''session'') ?ls"
  let ?b = "KEYRING_UNSEAL # (if ?c then [] else [FP_GKR_AUTH])"
  let ?extra = "(if ?c then [] else [FP_GKR_SESSION]) @ (if ?r then [] else [RESEAL_SESSION])"
  have g: "(\<lambda>i l. if i = at then [l, KEYRING_UNSEAL] @ (if ?c then [] else [FP_GKR_AUTH]) else [l]) =
      (\<lambda>i l. if i = at then [] @ [l] @ ?b else [l])" by (intro ext) simp
  have "out = joined (weave (\<lambda>i l. if i = at then [] @ [l] @ ?b else [l]) ?ls @ ?extra)"
    using assms at unfolding g [symmetric] by (simp add: wire_fp_keyring_def Let_def split: if_splits)
  moreover have "is_wiring ?ls (weave (\<lambda>i l. if i = at then [] @ [l] @ ?b else [l]) ?ls @ ?extra)"
    by (rule weave_wiring [where i = at and r = KEYRING_UNSEAL, OF adds_at])
      (use position_SomeD [OF at] RULES_irlume in \<open>auto simp: STANZAS_def\<close>)
  ultimately show ?thesis by blast
qed

section \<open>What every recipe promises\<close>

text \<open>A recipe either leaves the file alone or writes a wiring of its lines. What follows from that is
  proved once, for the recipes of the four surfaces, of Omarchy's lock and of fingerprint services.\<close>

locale wiring_recipe =
  fixes wire :: "string \<Rightarrow> string \<times> bool"
  assumes wires: "wire content = (out, True) \<Longrightarrow> \<exists>ws. out = joined ws \<and> is_wiring (lines content) ws"
    and leaves: "wire content = (out, False) \<Longrightarrow> out = content"
begin

lemma undone:
  assumes "wire content = (out, True)" "list_all plain_end (lines content)"
  shows "unwire_lines out = (base content, True)"
proof -
  obtain ws where ws: "out = joined ws" "is_wiring (lines content) ws" using wires [OF assms(1)] by blast
  have "list_ex is_irlume_line ws" using ws(2) STANZA_facts(1) by (auto simp: is_wiring_def list_ex_iff)
  with ws show ?thesis using wiring_lines [OF ws(2) assms(2)] by (simp add: unwire_lines_def base_def is_wiring_def)
qed

lemma plain:
  assumes "wire content = (out, True)" "list_all plain_end (lines content)"
  shows "list_all plain_end (lines out)" "out = joined (lines out)"
proof -
  obtain ws where ws: "out = joined ws" "is_wiring (lines content) ws" using wires [OF assms(1)] by blast
  then have l: "lines out = ws" using wiring_lines [OF _ assms(2)] by simp
  have "plain_end l" if "l \<in> set ws" for l
    using that ws(2) assms(2) STANZA_facts(3) by (auto simp: is_wiring_def list_all_iff)
  then show "list_all plain_end (lines out)" by (simp add: l list_all_iff)
  show "out = joined (lines out)" using l ws(1) by simp
qed

text \<open>Whether or not it wired the file, the lines that are not irlume's are the same.\<close>

lemma base_kept:
  assumes "list_all plain_end (lines content)"
  shows "base (fst (wire content)) = base content"
proof (cases "snd (wire content)")
  case True
  then have "wire content = (fst (wire content), True)" by (simp add: prod_eq_iff)
  from undone [OF this assms] show ?thesis by (simp add: base_def)
next
  case False
  then have "fst (wire content) = content" by (intro leaves) (simp add: prod_eq_iff)
  then show ?thesis by simp
qed

end

interpretation surface: wiring_recipe "wire_with rd recipe settings" for rd recipe settings
proof
  show "wire_with rd recipe settings content = (out, True) \<Longrightarrow> \<exists>ws. out = joined ws \<and> is_wiring (lines content) ws" for content out
    by (rule wire_with_wiring)
  show "wire_with rd recipe settings content = (out, False) \<Longrightarrow> out = content" for content out
    by (cases recipe) (auto simp: wire_with_def wire_greeter_impl_def wire_lock_def wire_verify_service_def wire_polkit_service_def
        insert_verify_stanza_def Let_def split: if_splits option.splits)
qed

interpretation omarchy: wiring_recipe "wire_omarchy_lock rd" for rd
proof
  show "wire_omarchy_lock rd content = (out, True) \<Longrightarrow> \<exists>ws. out = joined ws \<and> is_wiring (lines content) ws" for content out
    by (rule omarchy_wiring)
  show "wire_omarchy_lock rd content = (out, False) \<Longrightarrow> out = content" for content out
    by (auto simp: wire_omarchy_lock_def Let_def split: if_splits option.splits)
qed

interpretation fingerprint: wiring_recipe "\<lambda>content. wire_fp_keyring content service" for service
proof
  show "wire_fp_keyring content service = (out, True) \<Longrightarrow> \<exists>ws. out = joined ws \<and> is_wiring (lines content) ws" for content out
    by (rule fp_wiring)
  show "wire_fp_keyring content service = (out, False) \<Longrightarrow> out = content" for content out
    by (auto simp: wire_fp_keyring_def Let_def split: if_splits option.splits)
qed

section \<open>Properties\<close>

text \<open>C14: Wiring is undone by unwiring. Whatever recipe and settings wired a file whose lines end in no stray
  carriage return, taking irlume's lines out of the result reports a change and gives the text that
  taking them out of the file itself gives: every other line is there, once, in its order.\<close>

theorem wiring_is_undone:
  assumes "wire_with rd recipe settings content = (out, True)" "list_all plain_end (lines content)"
  shows "unwire_lines out = (base content, True)"
  by (rule surface.undone [OF assms])

definition gated_sudo :: string where
  "gated_sudo = joined [''auth required a.so'', ''auth include system-auth'']"

lemma gated_sudo_wired: "wire_verify_service None gated_sudo = (joined [''auth required a.so'', VERIFY_STANZA,
   ''auth include system-auth''], True)"
proof -
  let ?a = "''auth required a.so''" and ?b = "''auth include system-auth''"
  have r: "\<not> refuses None gated_sudo" by code_simp
  have ls: "lines gated_sudo = [?a, ?b]" by code_simp
  have p: "position is_auth_line [?a, ?b] = Some 0" "password_at [?a, ?b] 0 = 1" "is_auth_line ?a" "is_auth_line ?b" by code_simp+
  have o: "with_stanza_at VERIFY_STANZA [?a, ?b] 1 = joined [?a, VERIFY_STANZA, ?b]" by (simp add: with_stanza_at_def weave_def)
  have "list_all (\<lambda>l. line_actions l = []) (lines (joined [?a, VERIFY_STANZA, ?b]))" by code_simp
  from jumps_moved_quiet [OF this] show ?thesis
    using r p(2) o by (simp add: wire_verify_service_def insert_verify_stanza_def ls p(3,4) Let_def)
qed

theorem wiring_is_undone_witness:
  "unwire_lines (fst (wire_with None Verify default_settings gated_sudo)) = (base gated_sudo, True)"
proof -
  have "list_all plain_end (lines gated_sudo)" by code_simp
  moreover have w: "wire_with None Verify default_settings gated_sudo = wire_verify_service None gated_sudo"
    by (simp add: wire_with_def)
  ultimately show ?thesis using wiring_is_undone [of None Verify default_settings gated_sudo] by (simp add: gated_sudo_wired)
qed

text \<open>C15: The verify stanza goes as close above the password step as the jumps allow. When \<open>sudo\<close>'s recipe
  wires a file, its line stands directly above an auth line that is not below the password step, every
  line of the file is kept in order around it, and no auth line nearer to the password step would do
  without moving a jump; unless it went up to the first auth line, it moves no jump itself.\<close>

theorem verify_stanza_is_next_to_the_password_step:
  assumes "wire_verify_service rd content = (out, True)" "position is_auth_line (lines content) = Some first"
  shows "\<exists>at. out = with_stanza_at VERIFY_STANZA (lines content) at \<and> is_auth_line (lines content ! at) \<and>
    first \<le> at \<and> at \<le> password_at (lines content) first \<and>
    (at = first \<or> jumps_moved_by_irlume rd content out = []) \<and>
    (\<forall>k. at < k \<and> k \<le> password_at (lines content) first \<and> is_auth_line (lines content ! k) \<longrightarrow>
       jumps_moved_by_irlume rd content (with_stanza_at VERIFY_STANZA (lines content) k) \<noteq> [])"
proof -
  let ?ls = "lines content" and ?pw = "password_at (lines content) first"
  let ?ok = "\<lambda>at. is_auth_line (?ls ! at) \<and> jumps_moved_by_irlume rd content (with_stanza_at VERIFY_STANZA ?ls at) = []"
  have first: "is_auth_line (?ls ! first)" using position_SomeD [OF assms(2)] by simp
  have pw: "first \<le> ?pw" by (auto simp: password_at_def split: option.splits)
  have out: "insert_verify_stanza rd content VERIFY_STANZA = (out, True)"
    using assms(1) by (auto simp: wire_verify_service_def split: if_splits)
  show ?thesis
  proof (cases "find ?ok (rev [Suc first..<Suc ?pw])")
    case None
    then have "out = with_stanza_at VERIFY_STANZA ?ls first" using out assms(2) by (simp add: insert_verify_stanza_def Let_def)
    moreover have "\<forall>k. first < k \<and> k \<le> ?pw \<and> is_auth_line (?ls ! k) \<longrightarrow>
        jumps_moved_by_irlume rd content (with_stanza_at VERIFY_STANZA ?ls k) \<noteq> []"
      using None by (auto simp: find_None_iff)
    ultimately show ?thesis using first pw by blast
  next
    case (Some at)
    then have o: "out = with_stanza_at VERIFY_STANZA ?ls at" using out assms(2) by (simp add: insert_verify_stanza_def Let_def)
    have at: "first < at" "at \<le> ?pw" "?ok at" using find_Some_set [OF Some] by auto
    have "\<not> ?ok k" if "at < k" "k \<le> ?pw" for k using find_rev_upt [OF Some that(1)] that(2) by simp
    with o at show ?thesis by (intro exI [of _ at]) auto
  qed
qed

theorem verify_stanza_is_next_to_the_password_step_witness:
  "\<exists>at. fst (wire_verify_service None gated_sudo) = with_stanza_at VERIFY_STANZA (lines gated_sudo) at \<and> 0 \<le> at \<and>
     at \<le> password_at (lines gated_sudo) 0"
proof -
  have "position is_auth_line (lines gated_sudo) = Some 0" by code_simp
  from verify_stanza_is_next_to_the_password_step [OF gated_sudo_wired this] show ?thesis
    unfolding gated_sudo_wired fst_conv by blast
qed

end
