(* ===== verification/Pam_Overrides.thy ===== *)
theory Pam_Overrides
  imports Pam_Wiring
begin

text \<open>
  The \<^verbatim>\<open>/etc/pam.d\<close> copies irlume writes of vendor files (\<^verbatim>\<open>irlume-cli/src/pamwire/overrides.rs\<close>): their two header
  lines, the split of a file into header and body, how a file compares with the vendor copy it was made
  from, and the step \<open>reconcile\<close> takes to keep it current. The digest of a text is the argument \<open>sha\<close>; what
  the code relies on is that it is 64 lowercase hexadecimal digits.
\<close>

section \<open>Headers\<close>

definition CREATED_PREFIX :: string where "CREATED_PREFIX = ''# irlume: created from ''"

definition OVERRIDE_TRACK_PREFIX :: string where "OVERRIDE_TRACK_PREFIX = ''# irlume: override ''"

definition created_line :: "string \<Rightarrow> string" where
  "created_line vendor_path = CREATED_PREFIX @ vendor_path @ ''; delete this file to restore the vendor copy''"

definition tracking_line :: "string \<Rightarrow> string \<Rightarrow> string" where
  "tracking_line vendor_sha body_sha =
     OVERRIDE_TRACK_PREFIX @ ''v1 vendor-sha256='' @ vendor_sha @ '' body-sha256='' @ body_sha"

definition is_tracking_line :: "string \<Rightarrow> bool" where
  "is_tracking_line line = (case Option.bind (strip_prefix OVERRIDE_TRACK_PREFIX line) (strip_prefix ''v'') of
      None \<Rightarrow> False
    | Some rest \<Rightarrow> let digits = length (takeWhile is_digit rest) in
        0 < digits \<and> (length rest = digits \<or> rest ! digits = CHR '' ''))"

definition is_sha256_hex :: "string \<Rightarrow> bool" where
  "is_sha256_hex s \<longleftrightarrow> length s = 64 \<and> list_all (\<lambda>c. c \<in> set ''0123456789abcdef'') s"

definition parse_v1 :: "string \<Rightarrow> (string \<times> string) option" where
  "parse_v1 line = (case strip_prefix OVERRIDE_TRACK_PREFIX line of
      None \<Rightarrow> None
    | Some rest \<Rightarrow> (case split_on (CHR '' '') rest of
        version # v # b # extra \<Rightarrow>
          if version \<noteq> ''v1'' then None
          else (case (strip_prefix ''vendor-sha256='' v, strip_prefix ''body-sha256='' b) of
              (Some vendor, Some body) \<Rightarrow>
                if extra \<noteq> [] \<or> \<not> is_sha256_hex vendor \<or> \<not> is_sha256_hex body then None else Some (vendor, body)
            | _ \<Rightarrow> None)
      | _ \<Rightarrow> None))"

record Parsed =
  pa_first :: string
  pa_track_line :: "string option"
  pa_track_at :: "nat option"
  pa_text :: string
  pa_digests :: "(string \<times> string) option"
  pa_body :: string
  pa_crlf :: bool

definition track_position :: "string list \<Rightarrow> nat option" where
  "track_position ls =
     map_option fst (find (\<lambda>(_, l). is_tracking_line l) (takeWhile (\<lambda>(_, l). directive l = []) (drop 1 (enumerate 0 ls))))"

definition parse :: "string \<Rightarrow> Parsed option" where
  "parse content =
     (if \<not> starts_with content CREATED_PREFIX then None
      else (case map trim_cr (lines content) of
          [] \<Rightarrow> None
        | first # rest \<Rightarrow>
            let ls = first # rest;
                track_at = track_position ls;
                body_lines = map snd (filter (\<lambda>(i, _). Some i \<noteq> track_at) (drop 1 (enumerate 0 ls)));
                track_line = map_option ((!) ls) track_at
            in Some \<lparr> pa_first = first, pa_track_line = track_line, pa_track_at = track_at, pa_text = content,
                 pa_digests = Option.bind track_line parse_v1,
                 pa_body = (if body_lines = [] then [] else joined body_lines),
                 pa_crlf = list_ex (\<lambda>l. l \<noteq> [] \<and> last l = CHR 0x0D) (split_on (CHR 0x0A) content) \<rparr>))"

definition line_number :: "Parsed \<Rightarrow> nat \<Rightarrow> nat" where
  "line_number p at = (let in_file = at + 1 in
     case pa_track_at p of
       Some track \<Rightarrow> if track \<le> in_file then in_file + 2 else in_file + 1
     | None \<Rightarrow> in_file + 1)"

definition body_digest :: "(string \<Rightarrow> string) \<Rightarrow> string \<Rightarrow> string" where
  "body_digest sha body = sha (base body)"

definition render :: "(string \<Rightarrow> string) \<Rightarrow> string \<Rightarrow> string \<Rightarrow> string \<Rightarrow> string" where
  "render sha vendor_path vendor wired =
     created_line vendor_path @ [CHR 0x0A] @ tracking_line (sha vendor) (body_digest sha wired) @ [CHR 0x0A] @ wired"

definition keep_header :: "Parsed \<Rightarrow> string \<Rightarrow> string" where
  "keep_header p body = (case pa_track_line p of
      Some track \<Rightarrow> pa_first p @ [CHR 0x0A] @ track @ [CHR 0x0A] @ body
    | None \<Rightarrow> pa_first p @ [CHR 0x0A] @ body)"

definition normalize :: "string \<Rightarrow> string" where
  "normalize content = joined (lines content)"

section \<open>Classes\<close>

datatype Class = U1 | U2 | U3 | L1 | E1 | E2 | E3 | L2 | L3

definition edited :: "Class \<Rightarrow> bool" where
  "edited c \<longleftrightarrow> c \<notin> {U1, U2, U3, L1}"

definition class_otherwise :: "(string \<Rightarrow> string) \<Rightarrow> Parsed \<Rightarrow> string option \<Rightarrow> Class" where
  "class_otherwise sha p vendor =
     (if (case vendor of None \<Rightarrow> False | Some v \<Rightarrow> base (pa_body p) = base v) then L1
      else (case (pa_digests p, vendor) of
          (Some (vendor_sha, _), Some v) \<Rightarrow> if sha v = vendor_sha then E1 else E2
        | (Some _, None) \<Rightarrow> E3
        | (None, Some _) \<Rightarrow> L2
        | (None, None) \<Rightarrow> L3))"

definition classify :: "(string \<Rightarrow> string) \<Rightarrow> Parsed \<Rightarrow> string option \<Rightarrow> Class" where
  "classify sha p vendor = (case pa_digests p of
      Some (vendor_sha, body_sha) \<Rightarrow>
        if body_digest sha (pa_body p) = body_sha
        then (case vendor of None \<Rightarrow> U3 | Some v \<Rightarrow> if sha v = vendor_sha then U1 else U2)
        else class_otherwise sha p vendor
    | None \<Rightarrow> class_otherwise sha p vendor)"

definition only_inert_lines :: "string \<Rightarrow> bool" where
  "only_inert_lines content \<longleftrightarrow> \<not> content_has_module content \<and>
     list_ex (\<lambda>l. is_irlume_line l \<and> contains_text l INERT_TAG) (lines content)"

definition irlume_lines :: "string \<Rightarrow> string list" where
  "irlume_lines content = sort (map norm (filter is_irlume_line (lines content)))"

section \<open>Maintenance\<close>

datatype Hold = UnknownSettings | HoldNoAnchor | SettingsChange | HoldJump | HoldUnreadable

datatype Maintenance = NothingToDo | Record string | Refresh string | Blocked Hold

definition maintenance ::
    "(string \<Rightarrow> string) \<Rightarrow> StackReader option \<Rightarrow> Recipe \<Rightarrow> string \<Rightarrow> string \<Rightarrow> string option \<Rightarrow> Maintenance" where
  "maintenance sha rd recipe current vendor_path vendor = (case (parse current, vendor) of
      (Some p, Some v) \<Rightarrow>
        let unread = (unreadable_line (pa_text p) \<noteq> None \<or> has_read_carriage_return (pa_text p)) in
        (case classify sha p (Some v) of
           L1 \<Rightarrow>
             if unread then Blocked HoldUnreadable
             else Record (pa_first p @ [CHR 0x0A] @ tracking_line (sha v) (body_digest sha (pa_body p)) @ [CHR 0x0A] @ pa_body p)
         | U2 \<Rightarrow>
             if unread \<or> unreadable_line v \<noteq> None then Blocked HoldUnreadable
             else (case infer recipe (pa_body p) of
                 None \<Rightarrow> Blocked UnknownSettings
               | Some settings \<Rightarrow> (case wire_with rd recipe settings (base v) of
                   (wired, ok) \<Rightarrow>
                     if \<not> ok then Blocked HoldNoAnchor
                     else if infer recipe wired \<noteq> Some settings then Blocked SettingsChange
                     else if jumps_moved_by_irlume rd (pa_body p) wired \<noteq> [] then Blocked HoldJump
                     else Refresh (render sha vendor_path v wired)))
         | _ \<Rightarrow> NothingToDo)
    | _ \<Rightarrow> NothingToDo)"

section \<open>A file irlume has just written\<close>

lemma is_tracking_tracking: "is_tracking_line (tracking_line a b)"
proof -
  define r where "r = ''1'' @ '' vendor-sha256='' @ a @ '' body-sha256='' @ b"
  have "tracking_line a b = OVERRIDE_TRACK_PREFIX @ ''v'' @ r" by (simp add: tracking_line_def r_def)
  then have "Option.bind (strip_prefix OVERRIDE_TRACK_PREFIX (tracking_line a b)) (strip_prefix ''v'') = Some r"
    by (simp only: strip_prefix_append Option.bind.simps)
  moreover have "takeWhile is_digit r = ''1''" "r ! 1 = CHR '' ''" by (simp_all add: r_def is_digit_def)
  ultimately show ?thesis by (simp add: is_tracking_line_def)
qed

lemma hex_plain: "is_sha256_hex s \<Longrightarrow> CHR '' '' \<notin> set s \<and> CHR 0x0A \<notin> set s \<and> CHR 0x0D \<notin> set s"
proof -
  have "CHR '' '' \<notin> set ''0123456789abcdef''" "CHR 0x0A \<notin> set ''0123456789abcdef''" "CHR 0x0D \<notin> set ''0123456789abcdef''"
    by simp_all
  then show "is_sha256_hex s \<Longrightarrow> ?thesis" unfolding is_sha256_hex_def list_all_iff by metis
qed

lemma parse_v1_tracking:
  assumes "is_sha256_hex a" "is_sha256_hex b"
  shows "parse_v1 (tracking_line a b) = Some (a, b)"
proof -
  have n: "CHR '' '' \<notin> set a" "CHR '' '' \<notin> set b" using assms hex_plain by blast+
  let ?v = "''vendor-sha256='' @ a" and ?b = "''body-sha256='' @ b"
  have "tracking_line a b = OVERRIDE_TRACK_PREFIX @ ''v1'' @ CHR '' '' # ?v @ CHR '' '' # ?b"
    by (simp add: tracking_line_def)
  moreover have "split_on (CHR '' '') (''v1'' @ CHR '' '' # ?v @ CHR '' '' # ?b) = [''v1'', ?v, ?b]"
    using n split_on_Cons_sep [of "CHR '' ''" "''v1''"] split_on_Cons_sep [of "CHR '' ''" ?v] split_on_no_sep [of "CHR '' ''" ?b] by simp
  ultimately show ?thesis using assms by (simp only: parse_v1_def strip_prefix_append) (simp add: strip_prefix_append strip_prefix_def)
qed

lemma directive_comment: "directive (CHR ''#'' # t) = []"
  by (simp add: directive_def blank_or_tab_def)

lemma tracking_directive: "directive (tracking_line a b) = []"
  using directive_comment [of "tl (tracking_line a b)"] by (simp add: tracking_line_def OVERRIDE_TRACK_PREFIX_def)

lemma trim_cr_plain: "plain_end l \<Longrightarrow> trim_cr l = l"
  by (cases l rule: rev_cases) (auto simp: plain_end_def strip_cr_def trim_cr_def split: if_splits)

text \<open>Two header lines and a body are read back as they were written.\<close>

lemma parse_written:
  assumes first: "starts_with first CREATED_PREFIX" "CHR 0x0A \<notin> set first" "plain_end first"
    and hex: "is_sha256_hex a" "is_sha256_hex b"
    and body: "list_all plain_end (lines body)" "body = [] \<or> body = joined (lines body)"
  shows "\<exists>q. parse (first @ [CHR 0x0A] @ tracking_line a b @ [CHR 0x0A] @ body) = Some q \<and>
    pa_digests q = Some (a, b) \<and> pa_body q = body \<and> pa_text q = first @ [CHR 0x0A] @ tracking_line a b @ [CHR 0x0A] @ body"
proof -
  let ?t = "tracking_line a b"
  let ?text = "first @ [CHR 0x0A] @ ?t @ [CHR 0x0A] @ body"
  have t: "CHR 0x0A \<notin> set ?t" "CHR 0x0D \<notin> set ?t" using hex_plain [OF hex(1)] hex_plain [OF hex(2)] by (auto simp: tracking_line_def OVERRIDE_TRACK_PREFIX_def)
  have "plain_end ?t" using t plain_end_app [of ?t "[]"] by (simp add: plain_end_def strip_cr_def) (metis last_in_set)
  have "lines (line_text [first, ?t] @ body) = map strip_cr [first, ?t] @ lines body"
    using first(2) t by (intro lines_line_text) auto
  then have l: "lines ?text = first # ?t # lines body" using first(3) \<open>plain_end ?t\<close> by (simp add: line_text_def plain_end_def)
  have ls: "map trim_cr (lines ?text) = first # ?t # lines body"
    unfolding l using first(3) \<open>plain_end ?t\<close> body(1) by (auto simp: trim_cr_plain list_all_iff intro: map_idI)
  have tp: "track_position (first # ?t # lines body) = Some 1"
    by (simp add: track_position_def tracking_directive is_tracking_tracking)
  have "map snd (filter (\<lambda>(i, _). Some i \<noteq> Some 1) (enumerate (Suc (Suc 0)) (lines body))) = lines body"
    by (subst filter_True) (auto simp: in_set_enumerate_eq)
  then have b: "map snd (filter (\<lambda>(i, _). Some i \<noteq> Some 1) (drop 1 (enumerate 0 (first # ?t # lines body)))) = lines body"
    by simp
  have s: "starts_with ?text CREATED_PREFIX" 
  proof -
    obtain r where "first = CREATED_PREFIX @ r" using first(1) unfolding starts_with_def by (metis append_take_drop_id)
    then show ?thesis by (simp add: starts_with_def)
  qed
  have bd: "(if lines body = [] then [] else joined (lines body)) = body" using body(2) by (auto simp: lines_def joined_def)
  show ?thesis
    by (simp only: parse_def s ls list.case Let_def tp b bd not_True_eq_False if_False option.map)
      (simp add: parse_v1_tracking [OF hex])
qed

text \<open>The body of a file that was read is such a body, and its first line still marks it.\<close>

lemma trim_cr_facts: "plain_end (trim_cr l)" "set (trim_cr l) \<subseteq> set l"
proof -
  show "set (trim_cr l) \<subseteq> set l" by (auto simp: trim_cr_def dest: set_dropWhileD)
  have "dropWhile (\<lambda>c. c = CHR 0x0D) (rev l) \<noteq> [] \<Longrightarrow> hd (dropWhile (\<lambda>c. c = CHR 0x0D) (rev l)) \<noteq> CHR 0x0D"
    by (rule hd_dropWhile [of "\<lambda>c. c = CHR 0x0D"])
  then show "plain_end (trim_cr l)" by (auto simp: trim_cr_def plain_end_def strip_cr_def last_rev)
qed

lemma trim_cr_append: "p \<noteq> [] \<Longrightarrow> last p \<noteq> CHR 0x0D \<Longrightarrow> \<exists>y. trim_cr (p @ x) = p @ y"
proof (induction x rule: rev_induct)
  case Nil
  then show ?case using trim_cr_plain [of p] by (auto simp: plain_end_def strip_cr_def)
next
  case (snoc c x)
  then show ?case by (cases "c = CHR 0x0D") (auto simp: trim_cr_def)
qed

lemma lines_from_first:
  assumes "q \<noteq> []" "last q \<noteq> CHR 0x0D"
  shows "\<exists>y rest. lines_from (q @ x) s = (q @ y) # rest"
  using assms
proof (induction s arbitrary: x)
  case (Cons c s)
  show ?case
  proof (cases "c = CHR 0x0A")
    case True
    have "\<exists>y. strip_cr (q @ x) = q @ y" using Cons.prems by (cases x rule: rev_cases) (auto simp: strip_cr_def butlast_append)
    with True show ?thesis by auto
  next
    case False
    with Cons.IH [OF Cons.prems, of "x @ [c]"] show ?thesis by simp
  qed
qed simp

lemma lines_from_prefix: "CHR 0x0A \<notin> set q \<Longrightarrow> lines_from cur (q @ s) = lines_from (cur @ q) s"
  by (induction q arbitrary: cur) auto

lemma prefix_facts: "CHR 0x0A \<notin> set CREATED_PREFIX" "CREATED_PREFIX \<noteq> []" "last CREATED_PREFIX \<noteq> CHR 0x0D"
  by (simp_all add: CREATED_PREFIX_def)

lemma parsed_facts:
  assumes "parse current = Some p"
  shows "starts_with (pa_first p) CREATED_PREFIX" "CHR 0x0A \<notin> set (pa_first p)" "plain_end (pa_first p)"
    "list_all plain_end (lines (pa_body p))" "pa_body p = [] \<or> pa_body p = joined (lines (pa_body p))"
proof -
  obtain s where cur: "current = CREATED_PREFIX @ s"
    using assms by (auto simp: parse_def starts_with_def split: if_splits) (metis append_take_drop_id)
  obtain y rest where l: "lines current = (CREATED_PREFIX @ y) # rest"
    using lines_from_first [OF prefix_facts(2,3), of "[]" s] lines_from_prefix [OF prefix_facts(1), of "[]" s] by (auto simp: cur lines_def)
  let ?ls = "map trim_cr (lines current)"
  have first: "pa_first p = trim_cr (CREATED_PREFIX @ y)" using assms by (auto simp: parse_def l Let_def split: if_splits)
  show "starts_with (pa_first p) CREATED_PREFIX" using trim_cr_append [OF prefix_facts(2,3), of y] by (auto simp: first starts_with_def)
  have n: "CHR 0x0A \<notin> set m" "plain_end m" if "m \<in> set ?ls" for m
    using that lines_no_newline [of _ current] trim_cr_facts by fastforce+
  have "pa_first p \<in> set ?ls" by (simp add: first l)
  then show "CHR 0x0A \<notin> set (pa_first p)" "plain_end (pa_first p)" using n by blast+
  obtain bl where bl: "pa_body p = (if bl = [] then [] else joined bl)" "set bl \<subseteq> set ?ls"
  proof -
    let ?bl = "map snd (filter (\<lambda>(i, _). Some i \<noteq> track_position ?ls) (drop 1 (enumerate 0 ?ls)))"
    have "pa_body p = (if ?bl = [] then [] else joined ?bl)" using assms by (auto simp: parse_def l Let_def split: if_splits)
    moreover have "set ?bl \<subseteq> set ?ls" by (auto simp: in_set_enumerate_eq dest!: in_set_dropD)
    ultimately show ?thesis using that by blast
  qed
  have "lines (joined bl) = bl" if "bl \<noteq> []" using bl(2) n that by (intro lines_joined) auto
  with bl n show "list_all plain_end (lines (pa_body p))" "pa_body p = [] \<or> pa_body p = joined (lines (pa_body p))"
    by (auto simp: list_all_iff lines_def split: if_splits)
qed

lemma base_lines:
  assumes "list_all plain_end (lines v)"
  shows "list_all plain_end (lines (base v))" "base (base v) = base v"
proof -
  let ?k = "filter (\<lambda>l. \<not> is_irlume_line l) (lines v)"
  have b: "base v = joined ?k" by (simp add: base_def unwire_lines_def)
  have e: "lines (joined []) = [[]]" "\<not> is_irlume_line []" "joined [[]] = joined []" by code_simp+
  show "list_all plain_end (lines (base v))" "base (base v) = base v"
  proof (atomize (full), cases "?k = []")
    case True
    have "base (joined []) = joined []" by (simp add: base_def unwire_lines_def e)
    with True show "list_all plain_end (lines (base v)) \<and> base (base v) = base v"
      by (simp only: b e) (simp add: plain_end_def strip_cr_def)
  next
    case False
    have "lines (joined ?k) = ?k" using assms False lines_no_newline [of _ v] by (intro lines_joined) (auto simp: list_all_iff)
    then show "list_all plain_end (lines (base v)) \<and> base (base v) = base v"
      using assms by (simp add: b) (simp add: base_def unwire_lines_def list_all_iff)
  qed
qed

lemma written_class:
  assumes "starts_with first CREATED_PREFIX" "CHR 0x0A \<notin> set first" "plain_end first" "\<forall>t. is_sha256_hex (sha t)"
    and "list_all plain_end (lines body)" "body = [] \<or> body = joined (lines body)"
  shows "\<exists>q. parse (first @ [CHR 0x0A] @ tracking_line (sha v) (body_digest sha body) @ [CHR 0x0A] @ body) = Some q \<and>
    pa_body q = body \<and> classify sha q (Some v) = U1"
proof -
  obtain q where "parse (first @ [CHR 0x0A] @ tracking_line (sha v) (body_digest sha body) @ [CHR 0x0A] @ body) = Some q"
    "pa_digests q = Some (sha v, body_digest sha body)" "pa_body q = body"
    using parse_written [OF assms(1-3) _ _ assms(5,6), of "sha v" "body_digest sha body"] assms(4) by (auto simp: body_digest_def)
  then show ?thesis by (auto simp: classify_def)
qed

section \<open>Properties\<close>

lemma created_line_facts:
  assumes "CHR 0x0A \<notin> set vendor_path"
  shows "starts_with (created_line vendor_path) CREATED_PREFIX" "CHR 0x0A \<notin> set (created_line vendor_path)"
    "plain_end (created_line vendor_path)"
proof -
  show "starts_with (created_line vendor_path) CREATED_PREFIX" by (simp add: created_line_def starts_with_def)
  show "CHR 0x0A \<notin> set (created_line vendor_path)" using assms prefix_facts(1) by (simp add: created_line_def)
  show "plain_end (created_line vendor_path)" unfolding created_line_def append_assoc [symmetric] by (rule plain_end_app) simp_all
qed

lemma maintenance_Record:
  assumes "maintenance sha rd recipe current vendor_path (Some v) = Record out"
  obtains p where "parse current = Some p" "classify sha p (Some v) = L1"
    "out = pa_first p @ [CHR 0x0A] @ tracking_line (sha v) (body_digest sha (pa_body p)) @ [CHR 0x0A] @ pa_body p"
  using assms by (auto simp: maintenance_def Let_def split: option.splits Class.splits if_splits prod.splits)

lemma maintenance_Refresh:
  assumes "maintenance sha rd recipe current vendor_path (Some v) = Refresh out"
  obtains p settings wired where "parse current = Some p" "infer recipe (pa_body p) = Some settings"
    "wire_with rd recipe settings (base v) = (wired, True)" "infer recipe wired = Some settings"
    "jumps_moved_by_irlume rd (pa_body p) wired = []" "out = render sha vendor_path v wired"
  using assms by (auto simp: maintenance_def Let_def split: option.splits Class.splits if_splits prod.splits)

lemma L1_base: "classify sha p (Some v) = L1 \<Longrightarrow> base (pa_body p) = base v"
  by (auto simp: classify_def class_otherwise_def split: option.splits if_splits prod.splits)

text \<open>A rebuilt file holds the wired vendor copy under a fresh header.\<close>

lemma rendered_class:
  assumes "wire_with rd recipe settings (base v) = (wired, True)" "\<forall>t. is_sha256_hex (sha t)" "CHR 0x0A \<notin> set vendor_path"
    "list_all plain_end (lines v)"
  shows "\<exists>q. parse (render sha vendor_path v wired) = Some q \<and> pa_body q = wired \<and> classify sha q (Some v) = U1 \<and>
    base wired = base v"
proof -
  note b = base_lines [OF assms(4)]
  have w: "list_all plain_end (lines wired)" "wired = joined (lines wired)" by (rule surface.plain [OF assms(1) b(1)])+
  have "base wired = base v" using surface.undone [OF assms(1) b(1)] b(2) by (simp add: base_def [of wired])
  then show ?thesis using written_class [OF created_line_facts [OF assms(3)] assms(2) w(1), of v] w(2)
    unfolding render_def by blast
qed

text \<open>C22: What \<open>reconcile\<close> writes is current. Whenever the maintenance step writes an override, by recording
  a matching file or by rebuilding an unedited one from the changed vendor copy, the file it writes
  reads back as an override of class U1 for that vendor copy: tracked, unedited, built from it, and
  without irlume's lines it is the vendor copy.\<close>

theorem maintained_override_is_current:
  assumes "maintenance sha rd recipe current vendor_path (Some v) \<in> {Record out, Refresh out}"
    and "\<forall>t. is_sha256_hex (sha t)" "CHR 0x0A \<notin> set vendor_path" "list_all plain_end (lines v)"
  shows "\<exists>q. parse out = Some q \<and> classify sha q (Some v) = U1 \<and> base (pa_body q) = base v"
proof (cases "maintenance sha rd recipe current vendor_path (Some v) = Record out")
  case True
  then obtain p where p: "parse current = Some p" "classify sha p (Some v) = L1"
    "out = pa_first p @ [CHR 0x0A] @ tracking_line (sha v) (body_digest sha (pa_body p)) @ [CHR 0x0A] @ pa_body p"
    by (rule maintenance_Record)
  note f = parsed_facts [OF p(1)]
  from written_class [OF f(1-3) assms(2) f(4,5), of v] L1_base [OF p(2)] p(3) show ?thesis by auto
next
  case False
  then have "maintenance sha rd recipe current vendor_path (Some v) = Refresh out" using assms(1) by simp
  then obtain p settings wired where "wire_with rd recipe settings (base v) = (wired, True)" "out = render sha vendor_path v wired"
    by (rule maintenance_Refresh) blast
  with rendered_class [OF _ assms(2-4)] show ?thesis by fastforce
qed

definition zero_sha :: "string \<Rightarrow> string" where
  "zero_sha _ = replicate 64 (CHR ''0'')"

lemma zero_sha_hex: "is_sha256_hex (zero_sha t)"
  by (simp add: zero_sha_def is_sha256_hex_def list_all_iff)

definition vendor_sudo :: string where
  "vendor_sudo = joined [''auth required b.so'']"

lemma vendor_sudo_plain: "list_all plain_end (lines vendor_sudo)"
  by code_simp

definition untracked_sudo :: string where
  "untracked_sudo = joined [created_line ''v'', ''auth required b.so'']"

lemma untracked_sudo_recorded:
  "case maintenance zero_sha None Verify untracked_sudo ''v'' (Some vendor_sudo) of Record _ \<Rightarrow> True | _ \<Rightarrow> False"
  by code_simp

theorem maintained_override_is_current_witness:
  "\<exists>out q. maintenance zero_sha None Verify untracked_sudo ''v'' (Some vendor_sudo) = Record out \<and> parse out = Some q \<and>
     classify zero_sha q (Some vendor_sudo) = U1"
proof -
  obtain out where out: "maintenance zero_sha None Verify untracked_sudo ''v'' (Some vendor_sudo) = Record out"
    using untracked_sudo_recorded by (auto split: Maintenance.splits)
  have "\<exists>q. parse out = Some q \<and> classify zero_sha q (Some vendor_sudo) = U1 \<and> base (pa_body q) = base vendor_sudo"
    by (rule maintained_override_is_current [of zero_sha None Verify untracked_sudo "''v''"]) (simp_all add: out zero_sha_hex vendor_sudo_plain)
  with out show ?thesis by blast
qed

text \<open>C23: A rebuild changes neither the settings nor where the administrator's jumps land. When \<open>reconcile\<close>
  rebuilds an override from its changed vendor copy, irlume's lines in the new body say the same login
  methods as those in the old one, and irlume's lines move no jump between the two bodies.\<close>

theorem rebuild_keeps_settings_and_jumps:
  assumes "maintenance sha rd recipe current vendor_path (Some v) = Refresh out"
    and "\<forall>t. is_sha256_hex (sha t)" "CHR 0x0A \<notin> set vendor_path" "list_all plain_end (lines v)"
  shows "\<exists>p q. parse current = Some p \<and> parse out = Some q \<and> infer recipe (pa_body q) = infer recipe (pa_body p) \<and>
    jumps_moved_by_irlume rd (pa_body p) (pa_body q) = []"
proof -
  obtain p settings wired where m: "parse current = Some p" "infer recipe (pa_body p) = Some settings"
    "wire_with rd recipe settings (base v) = (wired, True)" "infer recipe wired = Some settings"
    "jumps_moved_by_irlume rd (pa_body p) wired = []" "out = render sha vendor_path v wired"
    using assms(1) by (rule maintenance_Refresh)
  from rendered_class [OF m(3) assms(2-4)] m show ?thesis by force
qed

definition stale_sudo :: string where
  "stale_sudo = joined [created_line ''v'', tracking_line (replicate 64 (CHR ''1'')) (replicate 64 (CHR ''0'')),
     VERIFY_STANZA, ''auth required c.so'']"

lemma stale_sudo_rebuilt:
  "\<exists>out. maintenance zero_sha None Verify stale_sudo ''v'' (Some vendor_sudo) = Refresh out"
proof -
  let ?ones = "replicate 64 (CHR ''1'')" and ?body = "joined [VERIFY_STANZA, ''auth required c.so'']"
  let ?wired = "joined [VERIFY_STANZA, ''auth required b.so'']"
  have stale: "stale_sudo = created_line ''v'' @ [CHR 0x0A] @ tracking_line ?ones (zero_sha []) @ [CHR 0x0A] @ ?body"
    by (simp add: stale_sudo_def joined_def zero_sha_def)
  have ones: "is_sha256_hex ?ones" by (simp add: is_sha256_hex_def list_all_iff)
  have body: "list_all plain_end (lines ?body)" "?body = joined (lines ?body)" by code_simp+
  have "CHR 0x0A \<notin> set ''v''" by simp
  from parse_written [OF created_line_facts [OF this] ones zero_sha_hex body(1) disjI2 [OF body(2)]]
  obtain q where q: "parse stale_sudo = Some q" "pa_digests q = Some (?ones, zero_sha [])" "pa_body q = ?body" "pa_text q = stale_sudo"
    unfolding stale by blast
  have "zero_sha t \<noteq> ?ones" "zero_sha t = zero_sha []" for t by (simp_all add: zero_sha_def)
  then have c: "classify zero_sha q (Some vendor_sudo) = U2" using q by (simp add: classify_def body_digest_def)
  have u: "unreadable_line stale_sudo = None" "\<not> has_read_carriage_return stale_sudo" "unreadable_line vendor_sudo = None"
    by code_simp+
  have i: "infer Verify ?body = Some default_settings" "infer Verify ?wired = Some default_settings" by code_simp+
  have w: "wire_with None Verify default_settings (base vendor_sudo) = (?wired, True)" by code_simp
  have "list_all (\<lambda>l. line_actions l = []) (lines ?wired)" by code_simp
  from jumps_moved_quiet [OF this] show ?thesis by (simp add: maintenance_def q c u i w)
qed

theorem rebuild_keeps_settings_and_jumps_witness:
  "\<exists>out p q. maintenance zero_sha None Verify stale_sudo ''v'' (Some vendor_sudo) = Refresh out \<and> parse stale_sudo = Some p \<and>
     parse out = Some q \<and> infer Verify (pa_body q) = infer Verify (pa_body p)"
proof -
  obtain out where out: "maintenance zero_sha None Verify stale_sudo ''v'' (Some vendor_sudo) = Refresh out"
    using stale_sudo_rebuilt by blast
  have "\<exists>p q. parse stale_sudo = Some p \<and> parse out = Some q \<and> infer Verify (pa_body q) = infer Verify (pa_body p) \<and>
      jumps_moved_by_irlume None (pa_body p) (pa_body q) = []"
    by (rule rebuild_keeps_settings_and_jumps [OF out]) (simp_all add: zero_sha_hex vendor_sudo_plain)
  with out show ?thesis by blast
qed

end
