(* ===== verification/Pam_Arrange.thy ===== *)
theory Pam_Arrange
  imports Pam_Overrides "HOL-Library.Sublist"
begin

text \<open>
  Where irlume's lines go in a file it keeps (\<^verbatim>\<open>irlume-cli/src/pamwire/overrides.rs\<close>): which lines an
  administrator may have written, told by a longest common subsequence with the vendor copy, whether
  an update would move one of irlume's lines past one of them, and the two ways out, the new lines in
  the old places or a recipe applied from the password line on. The table of the longest common
  subsequence is proved to pick a common subsequence of the greatest length.
\<close>

section \<open>Longest common subsequence\<close>

text \<open>A row of the table, filled from its last column; \<open>below\<close> is the row under it.\<close>

fun lcs_row :: "'a \<Rightarrow> 'a list \<Rightarrow> nat list \<Rightarrow> nat list" where
  "lcs_row x [] below = [0]"
| "lcs_row x (y # ys) below = (let right = lcs_row x ys (tl below) in
     (if x = y then below ! 1 + 1 else max (below ! 0) (hd right)) # right)"

primrec lcs_table :: "'a list \<Rightarrow> 'a list \<Rightarrow> nat list list" where
  "lcs_table [] b = [replicate (length b + 1) 0]"
| "lcs_table (x # xs) b = (let t = lcs_table xs b in lcs_row x b (hd t) # t)"

function common_walk :: "nat list list \<Rightarrow> 'a list \<Rightarrow> 'a list \<Rightarrow> nat \<Rightarrow> nat \<Rightarrow> bool list \<Rightarrow> bool list" where
  "common_walk lcs ours theirs i j out =
     (if i < length ours \<and> j < length theirs then
        if ours ! i = theirs ! j then common_walk lcs ours theirs (i + 1) (j + 1) (out[i := True])
        else if lcs ! i ! (j + 1) \<le> lcs ! (i + 1) ! j then common_walk lcs ours theirs (i + 1) j out
        else common_walk lcs ours theirs i (j + 1) out
      else out)"
  by pat_completeness auto
termination by (relation "measure (\<lambda>(_, ours, theirs, i, j, _). (length ours - i) + (length theirs - j))") auto

declare common_walk.simps [simp del]

definition common_lines :: "'a list \<Rightarrow> 'a list \<Rightarrow> bool list" where
  "common_lines ours theirs = common_walk (lcs_table ours theirs) ours theirs 0 0 (replicate (length ours) False)"

function diff_walk :: "nat list list \<Rightarrow> string list \<Rightarrow> string list \<Rightarrow> nat \<Rightarrow> nat \<Rightarrow> string list" where
  "diff_walk lcs a b i j =
     (if i < length a \<and> j < length b then
        if a ! i = b ! j then diff_walk lcs a b (i + 1) (j + 1)
        else if lcs ! i ! (j + 1) \<le> lcs ! (i + 1) ! j then (''- '' @ a ! i) # diff_walk lcs a b (i + 1) j
        else (''+ '' @ b ! j) # diff_walk lcs a b i (j + 1)
      else map ((@) ''- '') (drop i a) @ map ((@) ''+ '') (drop j b))"
  by pat_completeness auto
termination by (relation "measure (\<lambda>(_, a, b, i, j). (length a - i) + (length b - j))") auto

declare diff_walk.simps [simp del]

definition line_diff :: "string \<Rightarrow> string \<Rightarrow> string list" where
  "line_diff ours theirs = (let a = lines ours; b = lines theirs in diff_walk (lcs_table a b) a b 0 0)"

section \<open>The administrator's lines\<close>

definition pam_key :: "string \<Rightarrow> string" where
  "pam_key line = norm (directive line)"

definition own_lines :: "string \<Rightarrow> string option \<Rightarrow> bool \<Rightarrow> bool list" where
  "own_lines bare vendor edited_file =
     (let keys = map pam_key (lines bare) in
      if \<not> edited_file then replicate (length keys) False
      else (case vendor of
          None \<Rightarrow> map (\<lambda>k. k \<noteq> []) keys
        | Some v \<Rightarrow>
            let read = filter (\<lambda>i. keys ! i \<noteq> []) [0..<length keys];
                a = map ((!) keys) read;
                b = filter (\<lambda>k. k \<noteq> []) (map pam_key (lines (base v)));
                common = common_lines a b
            in fold (\<lambda>(n, i) own. own[i := \<not> common ! n \<or> count_list b (a ! n) < count_list a (a ! n)])
                 (enumerate 0 read) (replicate (length keys) False)))"

definition get_or :: "'a \<Rightarrow> 'a list \<Rightarrow> nat \<Rightarrow> 'a" where
  "get_or d xs i = (if i < length xs then xs ! i else d)"

primrec slots_from :: "bool list \<Rightarrow> nat \<Rightarrow> nat \<Rightarrow> string list \<Rightarrow> (string \<times> nat) list" where
  "slots_from own seen admin [] = []"
| "slots_from own seen admin (line # rest) =
     (if is_irlume_line line then (kind line, admin) # slots_from own seen admin rest
      else slots_from own (seen + 1) (if get_or True own seen then admin + 1 else admin) rest)"

definition slots :: "string \<Rightarrow> bool list \<Rightarrow> (string \<times> nat) list" where
  "slots content own = slots_from own 0 0 (lines content)"

definition get :: "'a list \<Rightarrow> nat \<Rightarrow> 'a option" where
  "get xs i = (if i < length xs then Some (xs ! i) else None)"

definition abs_diff :: "nat \<Rightarrow> nat \<Rightarrow> nat" where
  "abs_diff a b = (if a \<le> b then b - a else a - b)"

text \<open>\<^verbatim>\<open>min_by_key\<close>: the first of the least.\<close>

fun nearest :: "nat \<Rightarrow> nat list \<Rightarrow> nat option" where
  "nearest slot [] = None"
| "nearest slot (h # hs) = (case nearest slot hs of
      None \<Rightarrow> Some h | Some k \<Rightarrow> if abs_diff h slot \<le> abs_diff k slot then Some h else Some k)"

primrec first_crossed :: "(string \<times> nat) list \<Rightarrow> (string \<times> nat) list \<Rightarrow> (string \<times> nat) list \<Rightarrow> nat option" where
  "first_crossed before paired [] = None"
| "first_crossed before paired (ks # rest) = (case ks of (k, slot) \<Rightarrow> (case bump k paired of (n, paired1) \<Rightarrow>
     (case get (map snd (filter (\<lambda>(bk, _). bk = k) before)) (n - 1) of
        Some o1 \<Rightarrow> if o1 = slot then first_crossed before paired1 rest else Some (min slot o1)
      | None \<Rightarrow>
          if slot \<in> set (map snd before) then first_crossed before paired1 rest
          else Some (min slot (case nearest slot (map snd before) of Some h \<Rightarrow> h | None \<Rightarrow> slot)))))"

definition crossing :: "string \<Rightarrow> string \<Rightarrow> string \<Rightarrow> bool list \<Rightarrow> nat option option" where
  "crossing body candidate bare own =
     (let theirs = map fst (filter (\<lambda>(_, l). \<not> is_irlume_line l) (enumerate 0 (lines body)));
          admin_lines = map fst (filter (\<lambda>(_, _, admin). admin) (enumerate 0 (zip (lines bare) own)))
      in map_option (\<lambda>crossed. Option.bind (get admin_lines crossed) (get theirs))
           (first_crossed (slots body own) [] (slots candidate own)))"

primrec substitute_loop :: "(string \<times> string) list \<Rightarrow> string list \<Rightarrow> string list \<times> (string \<times> string) list" where
  "substitute_loop want [] = ([], want)"
| "substitute_loop want (line # rest) =
     (if is_irlume_line line
      then (case position (\<lambda>(wk, _). wk = kind line) want of
          Some at \<Rightarrow> apfst ((#) (snd (want ! at))) (substitute_loop (take at want @ drop (at + 1) want) rest)
        | None \<Rightarrow> substitute_loop want rest)
      else apfst ((#) line) (substitute_loop want rest))"

definition substitute :: "string \<Rightarrow> string \<Rightarrow> string option" where
  "substitute body candidate =
     (case substitute_loop (map (\<lambda>l. (kind l, l)) (filter is_irlume_line (lines candidate))) (lines body) of
        (out, want) \<Rightarrow> if want = [] then Some (joined out) else None)"

section \<open>The password line\<close>

definition first_password :: "string list \<Rightarrow> (nat \<Rightarrow> bool) \<Rightarrow> nat option" where
  "first_password ls ok =
     (case find (\<lambda>i. (is_include_auth_layout (ls ! i) \<or> is_passwd_substack (ls ! i) ''auth'') \<and> ok i) [0..<length ls] of
        Some i \<Rightarrow> Some i
      | None \<Rightarrow> find (\<lambda>i. is_auth_substack_anchor (ls ! i) \<and> ok i) [0..<length ls])"

definition password_line :: "string \<Rightarrow> bool list \<Rightarrow> bool \<Rightarrow> nat option" where
  "password_line bare own vendor_known = (let ls = lines bare in
     if vendor_known then first_password ls (\<lambda>i. \<not> get_or True own i)
     else (case first_password ls (\<lambda>_. True) of
         None \<Rightarrow> None
       | Some k \<Rightarrow> if count_list (map pam_key ls) (pam_key (ls ! k)) = 1 then Some k else None))"

definition strip_loses_place :: "string \<Rightarrow> string option \<Rightarrow> bool \<Rightarrow> bool" where
  "strip_loses_place body vendor edited_file = (let bare = base body in
     edited_file \<and> password_line bare (own_lines bare vendor True) (vendor \<noteq> None) = None)"

definition anchored :: "string \<Rightarrow> bool list \<Rightarrow> bool \<Rightarrow> (string \<Rightarrow> string \<times> bool) \<Rightarrow> string option" where
  "anchored bare own vendor_known wire = (let ls = lines bare in
     case password_line bare own vendor_known of
       None \<Rightarrow> None
     | Some k \<Rightarrow> (case wire (joined (drop k ls)) of (tail, ok) \<Rightarrow>
         if \<not> ok then None
         else let t = lines tail in
           case position (\<lambda>l. \<not> is_irlume_line l) t of
             None \<Rightarrow> None
           | Some at \<Rightarrow>
               if (0 < at \<and> is_irlume_line (t ! (at - 1))) \<or> (at + 1 < length t \<and> is_irlume_line (t ! (at + 1)))
               then Some (if k = 0 then tail else joined (take k ls) @ tail)
               else None))"

datatype Misplaced = Crossing "nat option" | NoPasswordAnchor

definition arrange ::
    "string \<Rightarrow> string \<Rightarrow> string \<Rightarrow> string option \<Rightarrow> bool \<Rightarrow> (string \<Rightarrow> string \<times> bool) \<Rightarrow> Misplaced + string" where
  "arrange body bare wired vendor edited_file wire =
     (let own = own_lines bare vendor edited_file in
      if \<not> holds_irlume_line body
      then (if \<not> edited_file then Inr wired
            else (case anchored bare own (vendor \<noteq> None) wire of
                Some t \<Rightarrow> Inr t | None \<Rightarrow> Inl NoPasswordAnchor))
      else (case crossing body wired bare own of
          None \<Rightarrow> Inr wired
        | Some line \<Rightarrow> (case substitute body wired of Some t \<Rightarrow> Inr t | None \<Rightarrow> Inl (Crossing line))))"

section \<open>The table is right\<close>

fun lcs_len :: "'a list \<Rightarrow> 'a list \<Rightarrow> nat" where
  "lcs_len [] b = 0"
| "lcs_len (x # xs) [] = 0"
| "lcs_len (x # xs) (y # ys) = (if x = y then lcs_len xs ys + 1 else max (lcs_len xs (y # ys)) (lcs_len (x # xs) ys))"

lemma lcs_len_Nil2 [simp]: "lcs_len a [] = 0"
  by (cases a) auto

definition row_of :: "'a list \<Rightarrow> 'a list \<Rightarrow> nat list" where
  "row_of a b = map (\<lambda>j. lcs_len a (drop j b)) [0..<Suc (length b)]"

lemma row_of_Cons: "row_of a (y # ys) = lcs_len a (y # ys) # row_of a ys"
proof -
  have "[0..<Suc (length (y # ys))] = 0 # map Suc [0..<Suc (length ys)]" by (simp add: map_Suc_upt upt_conv_Cons del: upt_Suc)
  then show ?thesis by (simp add: row_of_def o_def del: upt_Suc)
qed

lemma row_of_Nil [simp]: "row_of a [] = [0]"
  by (simp add: row_of_def)

lemma hd_row_of: "hd (row_of a b) = lcs_len a b"
  by (cases b) (simp_all add: row_of_Cons)

lemma row_of_nth0: "row_of a b ! 0 = lcs_len a b"
  by (cases b) (simp_all add: row_of_Cons)

lemma lcs_row_correct: "lcs_row x b (row_of a b) = row_of (x # a) b"
  by (induction b) (simp_all add: row_of_Cons Let_def hd_row_of row_of_nth0)

lemma lcs_table_correct: "lcs_table a b = map (\<lambda>i. row_of (drop i a) b) [0..<Suc (length a)]"
proof (induction a)
  case Nil
  have "row_of [] b = replicate (length b + 1) 0" by (intro nth_equalityI) (simp_all add: row_of_def del: upt_Suc replicate_Suc)
  then show ?case by simp
next
  case (Cons x a)
  have u: "[0..<Suc (length (x # a))] = 0 # map Suc [0..<Suc (length a)]" by (simp add: map_Suc_upt upt_conv_Cons del: upt_Suc)
  have "hd (lcs_table a b) = row_of a b" by (simp add: Cons upt_conv_Cons del: upt_Suc)
  then have "lcs_table (x # a) b = row_of (x # a) b # lcs_table a b" by (simp add: Let_def lcs_row_correct)
  also have "\<dots> = map (\<lambda>i. row_of (drop i (x # a)) b) (0 # map Suc [0..<Suc (length a)])" by (simp add: Cons o_def del: upt_Suc)
  finally show ?case unfolding u .
qed

lemma lcs_table_nth: "i \<le> length a \<Longrightarrow> j \<le> length b \<Longrightarrow> lcs_table a b ! i ! j = lcs_len (drop i a) (drop j b)"
  by (simp add: lcs_table_correct row_of_def del: upt_Suc)

text \<open>The walk on the rest of both lists.\<close>

fun picks :: "'a list \<Rightarrow> 'a list \<Rightarrow> bool list" where
  "picks [] b = []"
| "picks (x # xs) [] = replicate (Suc (length xs)) False"
| "picks (x # xs) (y # ys) = (if x = y then True # picks xs ys
     else if lcs_len (x # xs) ys \<le> lcs_len xs (y # ys) then False # picks xs (y # ys) else picks (x # xs) ys)"

lemma common_walk_picks:
  assumes "i \<le> length a" "j \<le> length b" "length out = length a" "drop i out = replicate (length a - i) False"
  shows "common_walk (lcs_table a b) a b i j out = take i out @ picks (drop i a) (drop j b)"
  using assms
proof (induction "lcs_table a b" a b i j out rule: common_walk.induct)
  case (1 a b i j out)
  show ?case
  proof (cases "i < length a \<and> j < length b")
    case False
    then have "picks (drop i a) (drop j b) = replicate (length a - i) False"
      using "1.prems"(1,2) by (cases "drop i a") (auto simp: dest: arg_cong [where f = length])
    then show ?thesis using False "1.prems" by (subst common_walk.simps) (metis append_take_drop_id)
  next
    case True
    then have d: "drop i a = a ! i # drop (i + 1) a" "drop j b = b ! j # drop (j + 1) b" by (simp_all add: Cons_nth_drop_Suc)
    have o: "drop (i + 1) out = replicate (length a - (i + 1)) False"
      using arg_cong [OF "1.prems"(4), of tl] by (simp add: tl_drop drop_Suc [symmetric] flip: drop_Suc)
    have oi: "out ! i = False" using arg_cong [OF "1.prems"(4), of hd] True "1.prems"(3) by (simp add: hd_drop_conv_nth)
    have t: "take (i + 1) out = take i out @ [False]" using True "1.prems"(3) oi by (simp add: take_Suc_conv_app_nth)
    show ?thesis
    proof (cases "a ! i = b ! j")
      case eq: True
      have "take (i + 1) (out[i := True]) = take i out @ [True]" using True "1.prems"(3) by (simp add: take_Suc_conv_app_nth)
      with "1.hyps"(1) [OF True eq] True "1.prems" o eq show ?thesis
        by (subst common_walk.simps) (simp add: d)
    next
      case neq: False
      have n: "lcs_table a b ! i ! (j + 1) = lcs_len (a ! i # drop (i + 1) a) (drop (j + 1) b)"
        "lcs_table a b ! (i + 1) ! j = lcs_len (drop (i + 1) a) (b ! j # drop (j + 1) b)"
        using True lcs_table_nth [of i a "j + 1" b] lcs_table_nth [of "i + 1" a j b] by (simp_all add: d)
      show ?thesis
      proof (cases "lcs_table a b ! i ! (j + 1) \<le> lcs_table a b ! (i + 1) ! j")
        case le: True
        with "1.hyps"(2) [OF True neq] True "1.prems" o t neq n show ?thesis
          by (subst common_walk.simps) (simp add: d)
      next
        case le: False
        with "1.hyps"(3) [OF True neq le] True "1.prems" neq n show ?thesis
          by (subst common_walk.simps) (simp add: d)
      qed
    qed
  qed
qed

definition kept :: "'a list \<Rightarrow> bool list \<Rightarrow> 'a list" where
  "kept a flags = map fst (filter snd (zip a flags))"

lemma kept_Cons [simp]: "kept (x # xs) (f # fs) = (if f then x # kept xs fs else kept xs fs)"
  by (simp add: kept_def)

lemma kept_False: "kept a (replicate n False) = []"
  by (auto simp: kept_def filter_empty_conv dest: set_zip_rightD)

lemma kept_subseq: "subseq (kept a flags) a"
proof (induction a arbitrary: flags)
  case (Cons x a)
  then show ?case by (cases flags) (auto simp: kept_def)
qed (simp add: kept_def)

lemma picks_kept: "length (kept a (picks a b)) = lcs_len a b" "subseq (kept a (picks a b)) b"
proof (induction a b rule: picks.induct)
  case (1 b)
  { case 1 show ?case by (simp add: kept_def) }
  { case 2 show ?case by (simp add: kept_def) }
next
  case (2 x xs)
  { case 1 show ?case using kept_False [of "x # xs" "Suc (length xs)"] by simp }
  { case 2 show ?case using kept_False [of "x # xs" "Suc (length xs)"] by simp }
next
  case (3 x xs y ys)
  { case 1 show ?case using 3 by auto }
  { case 2 show ?case using 3 by auto }
qed

lemma lcs_len_greatest: "subseq s a \<Longrightarrow> subseq s b \<Longrightarrow> length s \<le> lcs_len a b"
proof (induction a b arbitrary: s rule: lcs_len.induct)
  case (3 x xs y ys)
  show ?case
  proof (cases s)
    case (Cons z zs)
    show ?thesis
    proof (cases "x = y")
      case True
      have "subseq zs xs" "subseq zs ys" using "3.prems" unfolding Cons
        by (auto simp: subseq_Cons2_iff split: if_splits dest: subseq_Cons')
      then show ?thesis using 3(1) [OF True] True Cons by simp
    next
      case False
      then consider "z \<noteq> x" | "z \<noteq> y" by blast
      then show ?thesis
      proof cases
        case 1
        then have "subseq s xs" using "3.prems"(1) Cons subseq_Cons2_neq by metis
        then show ?thesis using 3(2) [OF False _ "3.prems"(2)] False by simp
      next
        case 2
        then have "subseq s ys" using "3.prems"(2) Cons subseq_Cons2_neq by metis
        then show ?thesis using 3(3) [OF False "3.prems"(1)] False by simp
      qed
    qed
  qed simp
qed simp_all

text \<open>C39: The lines taken for the vendor's are a longest common subsequence. Of two lists of lines, those of the
  first that \<open>common_lines\<close> marks are, in their order, lines of the second too, and no common
  subsequence of the two is longer: the table filled row by row and the walk over it find the
  greatest length there is.\<close>

theorem common_lines_are_longest:
  "subseq (kept ours (common_lines ours theirs)) theirs \<and>
   length (kept ours (common_lines ours theirs)) = Max {length s | s. subseq s ours \<and> subseq s theirs}"
proof -
  have c: "common_lines ours theirs = picks ours theirs"
    unfolding common_lines_def using common_walk_picks [of 0 ours 0 theirs "replicate (length ours) False"] by simp
  have "finite {length s | s. subseq s ours \<and> subseq s theirs}"
    by (rule finite_subset [of _ "{..lcs_len ours theirs}"]) (auto intro: lcs_len_greatest)
  moreover have "lcs_len ours theirs \<in> {length s | s. subseq s ours \<and> subseq s theirs}"
    using picks_kept [of ours theirs] kept_subseq [of ours "picks ours theirs"] by force
  ultimately have "Max {length s | s. subseq s ours \<and> subseq s theirs} = lcs_len ours theirs"
    by (intro Max_eqI) (auto intro: lcs_len_greatest)
  then show ?thesis using picks_kept by (auto simp: c)
qed

end
