(* ===== verification/Spec2Isabelle.thy ===== *)
theory Spec2Isabelle
  imports Service_Policy Request_Gate Connection_Slots Arbiter Live_Views Retry_Recovery Boot_Account Lease_Session
    Camera_Selection Secondary_Changes Pam_Gate Reseal_Paths Pam_Arrange
begin

text \<open>
  irlume: verification development.

  \<^bold>\<open>The program.\<close> irlume unlocks Linux accounts by face. A root daemon (\<^verbatim>\<open>irlumed\<close>,
  \<^verbatim>\<open>crates/irlume-daemon\<close>) serves a Unix socket for a PAM module, a command line and a terminal
  interface. A request passes the gate, waits in the arbiter's queue for the one worker that
  may use the cameras, is charged against the account's retry budget, and is answered; readers
  follow the work through live status. Below the daemon a camera supervisor
  (\<^verbatim>\<open>crates/irlume-camera\<close>) keeps the inventory of connected cameras and leases them to
  operations, and \<^verbatim>\<open>crates/irlume-core\<close> and \<^verbatim>\<open>crates/irlume-common\<close> hold the records of an
  account, the policy tables, the reading of the firmware's event log, and the cameras an account
  has added beside its first one: their store, its journaled commit, the choice among them and
  the checks around an authentication on one of them. The command line (\<^verbatim>\<open>crates/irlume-cli\<close>) puts
  the module's lines into the PAM stacks of login screens, lock screens, \<open>sudo\<close> and polkit and takes
  them out again.

  \<^bold>\<open>The theories.\<close>
  \<^item> \<open>Prelude\<close>: machine integers with Rust's checked and saturating arithmetic, strings as UTF-8
    bytes, ordered maps, and the contracts of stateful components: \<open>transition_system\<close> (an
    inductive invariant holds in every reachable state), \<open>history_system\<close> (what every step keeps of
    the state before it, every run keeps of its first state) and \<open>monotone_system\<close>, an instance
    of it.
  \<^item> \<open>Request_Types\<close>, \<open>Request_Tables\<close>, \<open>Daemon_Types\<close>: the request enum of \<^verbatim>\<open>irlume-common/src/lib.rs\<close>
    and the total functions of a request the daemon dispatches on: \<open>posture\<close>, \<open>classify\<close>,
    \<open>approval_operation\<close>, \<open>request_kind\<close>, \<open>enrollment_mutating_user\<close>, checked against each other.
  \<^item> \<open>Service_Policy\<close>: \<^verbatim>\<open>pam_service.rs\<close> and \<^verbatim>\<open>biopolicy.rs\<close>, the classification of a PAM service and the
    tiered decision to release a credential.
  \<^item> \<open>Seat_State\<close>, \<open>Account_Holds\<close>, \<open>Request_Gate\<close>: the logind seat scan (\<^verbatim>\<open>attempt_record.rs\<close>), the
    table of uids requests hold for names and the ownership of stored records (\<^verbatim>\<open>account.rs\<close>),
    and \<^verbatim>\<open>pregate\<close> of \<^verbatim>\<open>main.rs\<close> with every check in its order and its journal notices. The lemmas show
    what an admitted request may do and that its account cannot be swapped under it.
  \<^item> \<open>Connection_Slots\<close>: the three bounded pools of the daemon as interpretations of one contract,
    \<open>slot_pool\<close>.
  \<^item> \<open>Arbiter\<close>: the work queue of \<^verbatim>\<open>arbiter.rs\<close> with its worker, under every interleaving of submissions.
  \<^item> \<open>Live_State\<close>, \<open>Live_Views\<close>: live status (\<^verbatim>\<open>live.rs\<close>): the rows of waiting work a reader is shown, the
    revisions of what it reads, and the refusal of camera work for work it may not see.
  \<^item> \<open>Retry_Store\<close>, \<open>Retry_Throttle\<close>, \<open>Retry_Recovery\<close>: the retry limits (\<^verbatim>\<open>retry_throttle.rs\<close> and
    \<^verbatim>\<open>recovery.rs\<close>) over a disk on which any system call may fail and power may be lost. The
    store refines an abstract budget, the locale \<open>charged_budget\<close>.
  \<^item> \<open>Event_Log\<close>, \<open>Boot_Account\<close>: the event log parser of \<^verbatim>\<open>event_log.rs\<close> against the format as an
    encoder, and the account of PCR 7 against what a hash function can promise.
  \<^item> \<open>Camera_Types\<close>, \<open>Camera_Inventory\<close>, \<open>Camera_Identity\<close>: the camera contracts (\<^verbatim>\<open>contracts.rs\<close>,
    \<^verbatim>\<open>live_camera.rs\<close>), the inventory (\<^verbatim>\<open>inventory.rs\<close>), and what its identifiers are worth along
    any run of censuses, invalidations and removals.
  \<^item> \<open>Camera_Lease\<close>, \<open>Lease_Session\<close>: the lease authority of \<^verbatim>\<open>lease.rs\<close> with its waiting queue and
    condition variable, and the life of a lease whose clones are used by several threads.

  \<^item> \<open>Rust_Text\<close>, \<open>Split_Key\<close>: text as the code reads and writes it (decimal numbers, lines, splitting,
    UTF-8), the contract \<open>canonical_codec\<close> of an encoder with a decoder that accepts nothing else,
    and its instances: percent escapes, port lists, the keys of split camera pairs
    (\<^verbatim>\<open>split_key.rs\<close>) and the stored form of a binding (\<^verbatim>\<open>binding_key.rs\<close>).
  \<^item> \<open>Secondary_Store\<close>, \<open>Fallible\<close>, \<open>Secondary_Commit\<close>: the store of an account's added cameras
    (\<^verbatim>\<open>multi_camera.rs\<close>) with its validation and file form, operations that may fail at every system
    call, and the journaled commit (\<^verbatim>\<open>multi_camera/commit.rs\<close>): over every history of publications,
    recoveries, deletions and power losses the disk holds what was acknowledged.
  \<^item> \<open>Camera_Selection\<close>: the choice of a connected pair for an account and the ranking of the pairs of a
    first enrollment (\<^verbatim>\<open>multi_camera/selection.rs\<close>).
  \<^item> \<open>Secondary_Views\<close>, \<open>Secondary_Changes\<close>: the views of an enrollment, the pinning of an attempt and
    the check at its grant (\<^verbatim>\<open>views.rs\<close>, \<^verbatim>\<open>coordinator.rs\<close>), the authorization of a change (\<^verbatim>\<open>authz.rs\<close>)
    and the transactions that add and remove a group (\<^verbatim>\<open>irlume-auth/src/lib.rs\<close>). A grant after
    changes means that the store is the pinned one, or that it was deleted and the same pair added
    anew.
  \<^item> \<open>Pam_Session\<close>, \<open>Pam_Helpers\<close>, \<open>Pam_Module\<close>, \<open>Pam_Contract\<close>, \<open>Pam_Gate\<close>: the PAM module
    (\<^verbatim>\<open>irlume-pam/src/lib.rs\<close>). \<open>Pam_Session\<close> decides whether the person behind a transaction sits at the
    machine, from PAM items, cgroup paths and logind's files. \<open>Pam_Helpers\<close> has the bounded waits for
    helper processes, with the child an arbitrary process. \<open>Pam_Module\<close> has the authentication line and
    the session line over an abstract PAM library and daemon, each call on a log; \<open>Pam_Contract\<close> proves on
    that log what a line promises, and \<open>Pam_Gate\<close> that what it sends passes the daemon's gate.
  \<^item> \<open>Pam_Grammar\<close>, \<open>Pam_Includes\<close>, \<open>Reseal_Paths\<close>: PAM stacks as the command line reads them
    (\<^verbatim>\<open>irlume-cli/src/pamwire/grammar.rs\<close>): fields, rules, controls with their tables of actions, the
    lines irlume does not read as libpam does, what includes put in their place and which of their jumps
    leave it, the password step, and the proof that every modelled path through a session stack
    calls the \<open>reseal\<close> line, shown exact for the paths its documentation describes. libpam itself is
    not modelled: a path may end at a \<open>done\<close> or pass it over.
  \<^item> \<open>Pam_Lines\<close>, \<open>Pam_Jumps\<close>, \<open>Pam_Wiring\<close>: the lines irlume writes and how it tells them
    (\<^verbatim>\<open>stanzas.rs\<close>, \<^verbatim>\<open>transform.rs\<close>), where numeric jumps land and which writes move them (\<^verbatim>\<open>overrides.rs\<close>), and
    the recipes. The locale \<open>wiring_recipe\<close> states what every recipe promises, with interpretations
    for the recipes of the four surfaces, Omarchy's lock and fingerprint services: unwiring undoes wiring.
  \<^item> \<open>Pam_Overrides\<close>, \<open>Pam_Arrange\<close>: irlume's copies of vendor files (\<^verbatim>\<open>overrides.rs\<close>): header, class,
    the maintenance step, and the placement of irlume's lines among an administrator's, told by a longest
    common subsequence with the vendor copy.

  This theory holds the properties that span the gate and the account table.

  \<^bold>\<open>State and time.\<close> A struct under a mutex is a record; a method that holds the lock is one step of
  a relation, and a method that gives the lock up in between is cut there. Waiting on a
  condition variable is a step that changes nothing. Clocks are arguments, so theorems hold for
  any reading. Machine integers keep their width. The bounds that occur are those of the code
  (\<^verbatim>\<open>MAX_EVENTS\<close>, \<^verbatim>\<open>FACE_LIMIT\<close>, \<^verbatim>\<open>TOTAL\<close> and the like); no fuel is used: every recursion has a
  termination proof, and the loops over a child process, which may not end for every child, are partial
  functions with a theorem that they return for a child of a world whose clock advances.

  \<^bold>\<open>Parameters.\<close> What lies outside the sources is an argument: the account database, SHA-256 (any
  function from bytes to bytes, or to 64 hexadecimal digits where a header of an override holds one),
  the reader of the PAM stacks that includes name, the JSON codecs of a retry record, of a store and of its journal,
  base64 and AES-GCM (with their round trips as hypotheses, \<open>codec_ok\<close> and \<open>commit_codec_ok\<close>), the PAM
  library and the helper processes (\<open>holds_secrets\<close>, which promises only that a store that reports
  success is kept, and \<open>behaves\<close>), the arithmetic of \<^verbatim>\<open>f32\<close> in derived state, the random source, the
  answers of system calls, and the endpoints classified under a publication.

  \<^bold>\<open>Not modelled.\<close> A mutex poisoned by a panicking thread; serde's JSON and the socket protocol; the
  authentication engine, liveness and vision models (floating point over neural networks);
  V4L2 capture, emitters and device probing; TPM, keyring and file encryption; the polkit
  exchange; of the clients the terminal interface, the commands, the file handling around the
  recipes, the messages of an override's decision and the adjustment of jump counts
  (\<^verbatim>\<open>with_jump_values\<close>); the helper programs; the listing of connected and split camera pairs
  (\<^verbatim>\<open>connected.rs\<close>), of which only the revalidation of a split pair is modelled.

  \<^bold>\<open>What would come next.\<close> The decision over an override (\<^verbatim>\<open>decide\<close> in \<^verbatim>\<open>overrides.rs\<close>) on top of the
  modelled classes and arrangements, the pairing of split cameras by administrator pins
  (\<^verbatim>\<open>connected.rs\<close>), the lifecycle monitor that drives the inventory (\<^verbatim>\<open>lifecycle.rs\<close>), the keyring wire
  protocol (\<^verbatim>\<open>gkr_wire.rs\<close>), and the remaining state of the daemon's sessions.
\<close>

section \<open>From the gate to the records of the account\<close>

text \<open>C3: The account a request was admitted for stays the account it acts on. When the gate admits
  a non-root peer's request for an account and the request holds the account's uid, then until
  that hold is dropped every lookup of the name answers the peer's own uid, whatever the account
  database says by then and whatever other requests hold, stand in or drop; and a request that
  would hold another uid for the name is refused meanwhile.\<close>

theorem admitted_request_keeps_its_account:
  assumes "fst (pregate h req peer g) = None"
    and "holds_agree t" "gate_account_uid t req peer = (Inr (Some i), t')"
    and "OpDrop i \<notin> set ops" and "t'' = fold account_step ops t'"
  shows "\<exists>user. p_user (posture req) = Some user \<and> h_uid_of h user = Some (peer_uid peer) \<and>
           resolve nss t'' user = Uid (peer_uid peer) \<and>
           (\<forall>uid. uid \<noteq> peer_uid peer \<longrightarrow> (\<exists>msg. hold t'' user uid = (Inl (Policy msg), t'')))"
proof -
  from gate_account_uid_Some [OF assms(3)] obtain user verb where
    u: "privilege (posture req) = RootOrTarget verb" "p_user (posture req) = Some user"
      "peer_uid peer \<noteq> 0" "hold t user (peer_uid peer) = (Inr i, t')" by blast
  from assms(1) u have "h_uid_of h user = Some (peer_uid peer)"
    by (simp add: pregate_None privilege_met_def authorized_for_def)
  moreover have "holds_agree t'" using holds_agree_hold [OF assms(2), of user "peer_uid peer"] u(4) by simp
  then have "holding t'' i user (peer_uid peer)" "holds_agree t''"
    using holding_run [OF hold_Inr [OF u(4)] _ assms(4)] assms(5) by simp_all
  ultimately show ?thesis
    using u(2) holding_resolve hold_conflict by blast
qed

definition no_accounts :: accounts where
  "no_accounts = \<lparr> remembered = [], next_id = 0 \<rparr>"

theorem admitted_request_keeps_its_account_witness:
  "resolve (\<lambda>_. NoAccount) (fold account_step [OpHold ''bob'' 1001, OpRemember ''ann'' (Uid 7)]
      (snd (gate_account_uid no_accounts ann_request ann_peer))) ''ann'' = Uid 1000"
proof -
  have "gate_account_uid no_accounts ann_request ann_peer =
      (Inr (Some 0), snd (gate_account_uid no_accounts ann_request ann_peer))"
    by (simp add: gate_account_uid_def no_accounts_def ann_request_def ann_peer_def hold_def)
  from admitted_request_keeps_its_account [OF ann_admitted _ this, of
      "[OpHold ''bob'' 1001, OpRemember ''ann'' (Uid 7)]" _ "\<lambda>_. NoAccount", OF _ _ refl]
  show ?thesis
    by (simp add: holds_agree_def no_accounts_def ann_request_def ann_peer_def)
qed

end
